(* ===== verification/Errors.thy ===== *)
theory Errors
  imports Main
begin

section \<open>The error codes of \<^verbatim>\<open>error.rs\<close>\<close>

text \<open>
  The enumeration \<^verbatim>\<open>ErrorCode\<close>, with the constructors in the order of the source. It stands in a
  theory of its own: every other theory of the development uses it.
\<close>

datatype (plugins only: code) ErrorCode =
    AttributeNotFound | AttributeIsCustom | BufferTooSmall | ClusterNotFound | CommandNotFound
  | Duplicate | NodeNotFound | EndpointNotFound | EventNotFound | InvalidAction | InvalidCommand
  | FailSafeRequired | NeedsTimedInteraction | ConstraintError | DynamicConstraintError
  | InvalidDataType | UnsupportedAccess | ResourceExhausted | Busy | DataVersionMismatch
  | BtpError | MdnsError | NoCommand | NoEndpoint | NoExchange | NoFabricId | NoHandler
  | NoNetworkInterface | DBusError | NoNodeId | NoMemory | NoSession | NoSpace
  | NoSpaceExchanges | NoSpaceSessions | TxTimeout | RxTimeout | NoTagFound | NotFound
  | PacketPoolExhaust | StdIoError | SysTimeFail | Invalid | InvalidAAD | InvalidData
  | InvalidKeyLength | InvalidOpcode | InvalidProto | InvalidPeerAddr | InvalidAuthKey
  | InvalidSignature | InvalidState | InvalidTime | InvalidArgument | RwLock | TLVNotFound
  | TLVTypeMismatch | TruncatedPacket | Utf8Fail | GennCommInvalidAuthentication
  | NocInvalidNoc | NocInvalidPublicKey | NocMissingCsr | NocFabricTableFull
  | NocFabricConflict | NocLabelConflict | NocInvalidFabricIndex | NocInvalidAdminSubject
  | Failure | CdInvalidFormat | CdInvalidSignature | CdSigningKeyNotFound | CdInvalidVendorId
  | CdInvalidProductId | CdInvalidPaa

end
