(* ===== verification/Prelude.thy ===== *)
theory Prelude
  imports Errors "HOL-Library.Word" "HOL-Library.Multiset"
begin

section \<open>Shared vocabulary of the rs-matter development\<close>

text \<open>
  What the component theories share: the machine integer types of the Rust code, the result type of fallible Rust functions, a state-and-result
  monad for \<^verbatim>\<open>&mut self\<close> methods, slice copies with their bounds check, and the
  little-endian integer encodings of the Rust standard library with their round trips.

  A Rust function that returns \<^verbatim>\<open>Result\<close> and may also panic (an out-of-range slice index,
  an \<^verbatim>\<open>unwrap\<close> of \<^verbatim>\<open>None\<close>, an explicit \<^verbatim>\<open>panic!\<close>) has one of three outcomes, so the
  result type has three constructors. A method that mutates its receiver returns the receiver
  beside the outcome also when it fails: a Rust method that returns early with an error keeps
  the mutations made so far.

  \<^verbatim>\<open>usize\<close> values are lengths and offsets of buffers that exist in memory and are modelled as
  \<open>nat\<close>; subtractions that the code relies on not to underflow are guarded by a panic branch.
\<close>

unbundle bit_operations_syntax

named_theorems sr_simps \<open>unfolding the state-and-result monad\<close>

named_theorems wf_intros \<open>operations keep the invariant of their component\<close>

type_synonym u8 = "8 word"
type_synonym u16 = "16 word"
type_synonym u32 = "32 word"
type_synonym u64 = "64 word"
type_synonym bytes = "u8 list"

subsection \<open>Outcomes and the state-and-result monad\<close>

datatype 'a res = Ok 'a | Err ErrorCode | Panic

type_synonym ('s, 'a) sr = "'s \<Rightarrow> 'a res \<times> 's"

definition sr_return :: "'a \<Rightarrow> ('s, 'a) sr" where
  "sr_return x = (\<lambda>s. (Ok x, s))"

definition sr_err :: "ErrorCode \<Rightarrow> ('s, 'a) sr" where
  "sr_err e = (\<lambda>s. (Err e, s))"

definition sr_panic :: "('s, 'a) sr" where
  "sr_panic = (\<lambda>s. (Panic, s))"

definition sr_bind :: "('s, 'a) sr \<Rightarrow> ('a \<Rightarrow> ('s, 'b) sr) \<Rightarrow> ('s, 'b) sr" where
  "sr_bind m f = (\<lambda>s. case m s of (r, s') \<Rightarrow>
     (case r of Ok x \<Rightarrow> f x s' | Err e \<Rightarrow> (Err e, s') | Panic \<Rightarrow> (Panic, s')))"

abbreviation sr_then :: "('s, 'a) sr \<Rightarrow> ('s, 'b) sr \<Rightarrow> ('s, 'b) sr" where
  "sr_then m k \<equiv> sr_bind m (\<lambda>_. k)"

definition sr_get :: "('s, 's) sr" where
  "sr_get = (\<lambda>s. (Ok s, s))"

definition sr_modify :: "('s \<Rightarrow> 's) \<Rightarrow> ('s, unit) sr" where
  "sr_modify f = (\<lambda>s. (Ok (), f s))"

definition sr_when :: "bool \<Rightarrow> ('s, unit) sr \<Rightarrow> ('s, unit) sr" where
  "sr_when b m = (if b then m else sr_return ())"

text \<open>\<open>sr_ok_or\<close> is \<^verbatim>\<open>Option::ok_or\<close> followed by the question mark operator.\<close>

definition sr_ok_or :: "ErrorCode \<Rightarrow> 'a option \<Rightarrow> ('s, 'a) sr" where
  "sr_ok_or e v = (case v of None \<Rightarrow> sr_err e | Some x \<Rightarrow> sr_return x)"

text \<open>Running a method of one of two objects a function holds mutable references to.\<close>

definition on_fst :: "('s, 'a) sr \<Rightarrow> ('s \<times> 't, 'a) sr" where
  "on_fst m = (\<lambda>(s, t). case m s of (r, s') \<Rightarrow> (r, (s', t)))"

definition on_snd :: "('t, 'a) sr \<Rightarrow> ('s \<times> 't, 'a) sr" where
  "on_snd m = (\<lambda>(s, t). case m t of (r, t') \<Rightarrow> (r, (s, t')))"

text \<open>Running a method on a local object whose final state the caller goes on with.\<close>

definition sr_local :: "('t, unit) sr \<Rightarrow> 't \<Rightarrow> ('s, 't) sr" where
  "sr_local m t = (\<lambda>s. case m t of (r, t') \<Rightarrow>
     (case r of Ok _ \<Rightarrow> (Ok t', s) | Err e \<Rightarrow> (Err e, s) | Panic \<Rightarrow> (Panic, s)))"

text \<open>A computation without state, and with its result used under the question mark operator.\<close>

definition sr_res :: "'a res \<Rightarrow> ('s, 'a) sr" where
  "sr_res r = (\<lambda>s. (r, s))"

lemmas sr_defs [sr_simps] =
  sr_return_def sr_err_def sr_panic_def sr_get_def sr_modify_def sr_when_def sr_ok_or_def
  sr_local_def sr_res_def on_fst_def on_snd_def

lemma sr_bind_ok: "m s = (Ok x, s') \<Longrightarrow> sr_bind m f s = f x s'"
  by (simp add: sr_bind_def)

lemma sr_bind_err: "m s = (Err e, s') \<Longrightarrow> sr_bind m f s = (Err e, s')"
  by (simp add: sr_bind_def)

lemma sr_bind_panic: "m s = (Panic, s') \<Longrightarrow> sr_bind m f s = (Panic, s')"
  by (simp add: sr_bind_def)

lemmas sr_bind_cases = sr_bind_ok sr_bind_err sr_bind_panic

lemma sr_bind_ok_iff:
  "sr_bind m f s = (Ok y, s'') \<longleftrightarrow> (\<exists>x s'. m s = (Ok x, s') \<and> f x s' = (Ok y, s''))"
  by (auto simp: sr_bind_def split: prod.splits res.splits)

lemma sr_bind_assoc: "sr_bind (sr_bind m f) g = sr_bind m (\<lambda>x. sr_bind (f x) g)"
  by (rule ext) (auto simp: sr_bind_def split: prod.splits res.splits)

text \<open>The question mark operator in a function without state.\<close>

definition res_bind :: "'a res \<Rightarrow> ('a \<Rightarrow> 'b res) \<Rightarrow> 'b res" where
  "res_bind r f = (case r of Ok x \<Rightarrow> f x | Err e \<Rightarrow> Err e | Panic \<Rightarrow> Panic)"

lemma res_bind_simps [simp]: "res_bind (Ok x) f = f x" "res_bind (Err e) f = Err e" "res_bind Panic f = Panic"
  by (simp_all add: res_bind_def)

lemma res_bind_ok_iff: "res_bind r f = Ok y \<longleftrightarrow> (\<exists>x. r = Ok x \<and> f x = Ok y)"
  by (cases r) auto

lemma res_bind_panic_iff: "res_bind r f = Panic \<longleftrightarrow> r = Panic \<or> (\<exists>x. r = Ok x \<and> f x = Panic)"
  by (cases r) auto

lemma res_bind_cong [fundef_cong]:
  "r = r' \<Longrightarrow> (\<And>x. r' = Ok x \<Longrightarrow> f x = g x) \<Longrightarrow> res_bind r f = res_bind r' g"
  by (cases r') auto

lemma res_bind_assoc: "res_bind (res_bind r f) g = res_bind r (\<lambda>x. res_bind (f x) g)"
  by (cases r) auto

text \<open>\<open>res_ok_or\<close> is \<^verbatim>\<open>Option::ok_or\<close>, \<open>res_map_err\<close> is \<^verbatim>\<open>Result::map_err\<close> with a constant.\<close>

definition res_ok_or :: "ErrorCode \<Rightarrow> 'a option \<Rightarrow> 'a res" where
  "res_ok_or e v = (case v of None \<Rightarrow> Err e | Some x \<Rightarrow> Ok x)"

lemma res_ok_or_simps [simp]: "res_ok_or e None = Err e" "res_ok_or e (Some x) = Ok x"
  by (simp_all add: res_ok_or_def)

lemma res_ok_or_eq:
  "res_ok_or e v = Ok x \<longleftrightarrow> v = Some x" "res_ok_or e v = Err e' \<longleftrightarrow> v = None \<and> e' = e"
  "res_ok_or e v \<noteq> Panic"
  by (cases v; auto)+

text \<open>A loop that collects the results of a fallible function, stopping at the first failure.\<close>

fun res_mapM :: "('a \<Rightarrow> 'b res) \<Rightarrow> 'a list \<Rightarrow> 'b list res" where
  "res_mapM f [] = Ok []"
| "res_mapM f (x # xs) = res_bind (f x) (\<lambda>y. res_bind (res_mapM f xs) (\<lambda>ys. Ok (y # ys)))"

lemma res_mapM_cong [fundef_cong]:
  "xs = ys \<Longrightarrow> (\<And>x. x \<in> set ys \<Longrightarrow> f x = g x) \<Longrightarrow> res_mapM f xs = res_mapM g ys"
proof (induction ys arbitrary: xs)
  case (Cons y ys)
  then show ?case by (auto intro!: res_bind_cong)
qed simp

lemma res_mapM_ok: "(\<And>x. x \<in> set xs \<Longrightarrow> f (g x) = Ok (h x)) \<Longrightarrow> res_mapM f (map g xs) = Ok (map h xs)"
  by (induction xs) auto

text \<open>Running a list of steps in order, stopping at the first failure.\<close>

primrec sr_seq :: "('s, unit) sr list \<Rightarrow> ('s, unit) sr" where
  "sr_seq [] = sr_return ()"
| "sr_seq (m # ms) = sr_then m (sr_seq ms)"

lemma sr_seq_append: "sr_seq (ms @ ns) = sr_then (sr_seq ms) (sr_seq ns)"
  by (induction ms) (simp_all add: sr_bind_assoc, simp add: sr_bind_def sr_return_def)

lemma sr_bind_return_unit [simp]: "sr_bind m (\<lambda>_. sr_return ()) = m"
  by (rule ext) (auto simp: sr_bind_def sr_return_def split: prod.splits res.splits)

lemma sr_bind_return [simp]: "sr_bind m sr_return = m"
  by (rule ext) (auto simp: sr_bind_def sr_return_def split: prod.splits res.splits)

lemma sr_return_bind [simp]: "sr_bind (sr_return x) f = f x"
  by (rule ext) (simp add: sr_bind_def sr_return_def)

lemma sr_bind_basic [simp]:
  "sr_bind sr_get f s = f s s" "sr_bind (sr_modify g) k s = k () (g s)"
  "sr_bind (sr_res (Ok x)) h = h x" "sr_bind (sr_err e) i = sr_err e" "sr_bind sr_panic i = sr_panic"
  by (simp_all add: sr_bind_def sr_get_def sr_modify_def sr_res_def sr_err_def sr_panic_def)

subsection \<open>Slices\<close>

text \<open>
  \<open>slice_of xs a b\<close> is the content of \<^verbatim>\<open>xs[a..b]\<close>, defined where \<open>a \<le> b \<le> length xs\<close> (Rust
  panics elsewhere); \<open>copy_into xs a ys\<close> is \<^verbatim>\<open>xs[a..a + ys.len()].copy_from_slice(ys)\<close>.
\<close>

definition slice_of :: "'a list \<Rightarrow> nat \<Rightarrow> nat \<Rightarrow> 'a list" where
  "slice_of xs a b = take (b - a) (drop a xs)"

definition slice_ok :: "'a list \<Rightarrow> nat \<Rightarrow> nat \<Rightarrow> bool" where
  "slice_ok xs a b \<longleftrightarrow> a \<le> b \<and> b \<le> length xs"

definition slice_res :: "'a list \<Rightarrow> nat \<Rightarrow> nat \<Rightarrow> 'a list res" where
  "slice_res xs a b = (if slice_ok xs a b then Ok (slice_of xs a b) else Panic)"

definition copy_into :: "'a list \<Rightarrow> nat \<Rightarrow> 'a list \<Rightarrow> 'a list" where
  "copy_into xs a ys = take a xs @ ys @ drop (a + length ys) xs"

lemma length_slice [simp]: "b \<le> length xs \<Longrightarrow> length (slice_of xs a b) = b - a"
  by (simp add: slice_of_def)

lemma length_copy_into [simp]: "a + length ys \<le> length xs \<Longrightarrow> length (copy_into xs a ys) = length xs"
  by (simp add: copy_into_def)

lemma slice_full: "slice_of xs 0 (length xs) = xs"
  by (simp add: slice_of_def)

lemma slice_empty [simp]: "slice_of xs a a = []"
  by (simp add: slice_of_def)

lemma slice_append: "a \<le> b \<Longrightarrow> b \<le> c \<Longrightarrow> slice_of xs a b @ slice_of xs b c = slice_of xs a c"
proof -
  assume "a \<le> b" "b \<le> c"
  then have "drop b xs = drop (b - a) (drop a xs)" and "c - a = (b - a) + (c - b)"
    by simp_all
  then show ?thesis by (simp add: slice_of_def take_add)
qed

lemma slice_copy_into_same:
  "a + length ys \<le> length xs \<Longrightarrow> slice_of (copy_into xs a ys) a (a + length ys) = ys"
  by (simp add: slice_of_def copy_into_def)

lemma slice_copy_into_before:
  "a + length ys \<le> length xs \<Longrightarrow> c \<le> a \<Longrightarrow> slice_of (copy_into xs a ys) b c = slice_of xs b c"
  by (auto simp: slice_of_def copy_into_def take_drop min_def)

lemma slice_copy_into_after:
  "a + length ys \<le> length xs \<Longrightarrow> a + length ys \<le> b \<Longrightarrow>
   slice_of (copy_into xs a ys) b c = slice_of xs b c"
proof -
  assume "a + length ys \<le> length xs" and le: "a + length ys \<le> b"
  then have "drop b (copy_into xs a ys) = drop (b - (a + length ys)) (drop (a + length ys) xs)"
    by (simp add: copy_into_def)
  also have "\<dots> = drop b xs" using le by simp
  finally show ?thesis by (simp add: slice_of_def)
qed

text \<open>\<^verbatim>\<open>xs.get(..n)\<close> and \<^verbatim>\<open>xs.get(n..)\<close>, which return \<^verbatim>\<open>None\<close> out of range.\<close>

definition get_to :: "nat \<Rightarrow> 'a list \<Rightarrow> 'a list option" where
  "get_to n xs = (if n \<le> length xs then Some (take n xs) else None)"

definition get_from :: "nat \<Rightarrow> 'a list \<Rightarrow> 'a list option" where
  "get_from n xs = (if n \<le> length xs then Some (drop n xs) else None)"

lemma get_append [simp]:
  "get_to (length xs) (xs @ ys) = Some xs" "get_from (length xs) (xs @ ys) = Some ys"
  by (simp_all add: get_to_def get_from_def)

lemma get_zero [simp]: "get_to 0 xs = Some []" "get_from 0 xs = Some xs"
  by (simp_all add: get_to_def get_from_def)

lemma get_SomeD:
  "get_to n xs = Some ys \<Longrightarrow> n \<le> length xs \<and> ys = take n xs"
  "get_from n xs = Some ys \<Longrightarrow> n \<le> length xs \<and> ys = drop n xs"
  by (auto simp: get_to_def get_from_def split: if_splits)

text \<open>The last \<open>n\<close> elements of a list, what a bounded buffer keeps.\<close>

definition last_n :: "nat \<Rightarrow> 'a list \<Rightarrow> 'a list" where
  "last_n n xs = drop (length xs - n) xs"

lemma last_n_all [simp]: "length xs \<le> n \<Longrightarrow> last_n n xs = xs"
  by (simp add: last_n_def)

lemma length_last_n [simp]: "length (last_n n xs) = min n (length xs)"
  by (simp add: last_n_def min_def)

lemma last_n_append_last_n: "last_n n (last_n n xs @ ys) = last_n n (xs @ ys)"
  by (cases "n \<le> length xs") (auto simp: last_n_def add.commute)

subsection \<open>Searching lists\<close>

text \<open>\<^verbatim>\<open>Iterator::position\<close> and the index \<^verbatim>\<open>min_by_key\<close> picks (the first of several minima).\<close>

fun position :: "('a \<Rightarrow> bool) \<Rightarrow> 'a list \<Rightarrow> nat option" where
  "position P [] = None"
| "position P (x # xs) = (if P x then Some 0 else map_option Suc (position P xs))"

fun min_index :: "('a \<Rightarrow> 'b::linorder) \<Rightarrow> 'a list \<Rightarrow> nat" where
  "min_index key [] = 0"
| "min_index key [x] = 0"
| "min_index key (x # y # ys) =
     (let i = min_index key (y # ys) in if key x \<le> key ((y # ys) ! i) then 0 else Suc i)"

lemma position_SomeD:
  "position P xs = Some i \<Longrightarrow> i < length xs \<and> P (xs ! i) \<and> (\<forall>j < i. \<not> P (xs ! j))"
proof (induction xs arbitrary: i)
  case Nil
  then show ?case by simp
next
  case (Cons x xs)
  then show ?case by (auto split: if_splits simp: nth_Cons split: nat.splits)
qed

lemma position_None: "position P xs = None \<longleftrightarrow> (\<forall>x \<in> set xs. \<not> P x)"
  by (induction xs) auto

lemma position_Some_ex: "(\<exists>x \<in> set xs. P x) \<longleftrightarrow> (\<exists>i. position P xs = Some i)"
  using position_None [of P xs] by (cases "position P xs") auto

lemma find_SomeD: "find P xs = Some x \<Longrightarrow> x \<in> set xs \<and> P x"
  by (induction xs) (auto split: if_splits)

lemma min_index_less: "xs \<noteq> [] \<Longrightarrow> min_index key xs < length xs"
  by (induction key xs rule: min_index.induct) (auto simp: Let_def)

lemma min_index_le: "\<forall>y \<in> set xs. key (xs ! min_index key xs) \<le> key y"
  by (induction key xs rule: min_index.induct) (auto simp: Let_def)

text \<open>
  \<^verbatim>\<open>Vec::swap_remove\<close> puts the last element into the place of the removed one; the loop that
  removes every element with a property this way ends, because each round shortens the vector.
\<close>

definition swap_remove :: "nat \<Rightarrow> 'a list \<Rightarrow> 'a list" where
  "swap_remove i xs = butlast (xs[i := last xs])"

lemma length_swap_remove [simp]: "length (swap_remove i xs) = length xs - 1"
  by (simp add: swap_remove_def)

lemma mset_swap_remove:
  assumes "i < length xs"
  shows "mset (swap_remove i xs) = mset xs - {#xs ! i#}"
proof -
  obtain ys z where xs: "xs = ys @ [z]" using assms by (cases xs rule: rev_cases) auto
  show ?thesis
  proof (cases "i = length ys")
    case True
    then show ?thesis by (simp add: swap_remove_def xs)
  next
    case False
    with assms have i: "i < length ys" by (simp add: xs)
    then show ?thesis by (simp add: swap_remove_def xs list_update_append mset_update nth_append)
  qed
qed

function remove_all_swap :: "('a \<Rightarrow> bool) \<Rightarrow> 'a list \<Rightarrow> 'a list" where
  "remove_all_swap P xs =
     (case position P xs of None \<Rightarrow> xs | Some i \<Rightarrow> remove_all_swap P (swap_remove i xs))"
  by pat_completeness auto

termination remove_all_swap
proof (relation "measure (\<lambda>(P, xs). length xs)")
  fix P :: "'a \<Rightarrow> bool" and xs i assume "position P xs = Some i"
  then have "i < length xs" by (rule position_SomeD [THEN conjunct1])
  then show "((P, swap_remove i xs), P, xs) \<in> measure (\<lambda>(P, xs). length xs)" by simp
qed simp

declare remove_all_swap.simps [simp del]

lemma mset_remove_all_swap: "mset (remove_all_swap P xs) = filter_mset (\<lambda>x. \<not> P x) (mset xs)"
proof (induction P xs rule: remove_all_swap.induct)
  case (1 P xs)
  show ?case
  proof (cases "position P xs")
    case None
    then have "\<forall>x \<in> set xs. \<not> P x" by (simp add: position_None)
    then have "filter_mset (\<lambda>x. \<not> P x) (mset xs) = mset xs"
      by (simp add: filter_mset_eq_conv)
    with None show ?thesis by (subst remove_all_swap.simps) simp
  next
    case (Some i)
    then have i: "i < length xs" "P (xs ! i)" using position_SomeD [OF Some] by simp_all
    have "filter_mset (\<lambda>x. \<not> P x) (mset xs - {#xs ! i#}) = filter_mset (\<lambda>x. \<not> P x) (mset xs)"
      using i by (simp add: filter_diff_mset)
    with Some 1 [OF Some] show ?thesis by (subst remove_all_swap.simps) (simp add: mset_swap_remove i)
  qed
qed

lemma set_remove_all_swap: "set (remove_all_swap P xs) = {x \<in> set xs. \<not> P x}"
  using mset_remove_all_swap [of P xs] by (metis set_mset_filter set_mset_mset)

lemma length_remove_all_swap: "length (remove_all_swap P xs) \<le> length xs"
  using mset_remove_all_swap [of P xs] by (metis size_filter_mset_lesseq size_mset)

subsection \<open>Bit flags\<close>

text \<open>
  The operations of a \<^verbatim>\<open>bitflags!\<close> type over \<^verbatim>\<open>u8\<close>: \<open>all\<close> is the union of the named flags, and
  \<^verbatim>\<open>from_bits\<close> refuses a value with a bit outside of it.
\<close>

definition flags_from_bits :: "u8 \<Rightarrow> u8 \<Rightarrow> u8 option" where
  "flags_from_bits all b = (if b AND NOT all = 0 then Some b else None)"

definition flags_contains :: "u8 \<Rightarrow> u8 \<Rightarrow> bool" where
  "flags_contains fs f \<longleftrightarrow> fs AND f = f"

definition flags_remove :: "u8 \<Rightarrow> u8 \<Rightarrow> u8" where
  "flags_remove fs f = fs AND NOT f"

definition flags_insert :: "u8 \<Rightarrow> u8 \<Rightarrow> u8" where
  "flags_insert fs f = fs OR f"

lemma u8_eq_iff:
  "(a::u8) = b \<longleftrightarrow> (bit a 0 = bit b 0) \<and> (bit a 1 = bit b 1) \<and> (bit a 2 = bit b 2) \<and>
     (bit a 3 = bit b 3) \<and> (bit a 4 = bit b 4) \<and> (bit a 5 = bit b 5) \<and> (bit a 6 = bit b 6) \<and>
     (bit a 7 = bit b 7)" (is "_ \<longleftrightarrow> ?r")
proof
  assume r: ?r
  show "a = b"
  proof (rule bit_word_eqI)
    fix n assume "n < LENGTH(8)"
    then have "n \<in> {0, 1, 2, 3, 4, 5, 6, 7}" by auto
    with r show "bit a n = bit b n" by auto
  qed
qed simp

text \<open>A byte is eight bits; the flag tests of the headers read single bits.\<close>

lemma flags_bits:
  "flags_contains fl 0x01 \<longleftrightarrow> bit fl 0"
  "flags_contains fl 0x02 \<longleftrightarrow> bit fl 1"
  "flags_contains fl 0x04 \<longleftrightarrow> bit fl 2"
  "flags_contains fl 0x08 \<longleftrightarrow> bit fl 3"
  "flags_contains fl 0x10 \<longleftrightarrow> bit fl 4"
  "flags_contains fl 0x03 \<longleftrightarrow> bit fl 0 \<and> bit fl 1"
  by (simp_all add: flags_contains_def u8_eq_iff bit_and_iff)

lemma bit_flags_ops: "bit (flags_insert fl f) n \<longleftrightarrow> bit fl n \<or> bit f n"
  "bit (flags_remove fl f) n \<longleftrightarrow> bit fl n \<and> \<not> bit f n"
  by (auto simp: flags_insert_def flags_remove_def bit_or_iff bit_and_iff bit_not_iff dest: bit_imp_le_length)

lemma flags_from_bits_valid [simp]: "fl AND NOT all = 0 \<Longrightarrow> flags_from_bits all fl = Some fl"
  by (simp add: flags_from_bits_def)

lemmas flag_bit_simps = flags_bits bit_flags_ops u8_eq_iff bit_and_iff bit_or_iff bit_not_iff

subsection \<open>Casts\<close>

lemma unat_ucast_up:
  assumes "LENGTH('a::len) \<le> LENGTH('b::len)"
  shows "unat (ucast (w :: 'a word) :: 'b word) = unat w"
proof -
  have "unat w < 2 ^ LENGTH('a)" by simp
  also have "\<dots> \<le> 2 ^ LENGTH('b)" using assms by (rule power_increasing) simp
  finally show ?thesis by (simp add: unsigned_ucast_eq take_bit_nat_eq_self)
qed

lemmas unat_bounds_u8 = unsigned_less [where 'b = 8 and 'a = nat, simplified]
lemmas unat_bounds_u16 = unsigned_less [where 'b = 16 and 'a = nat, simplified]
lemmas unat_bounds_u32 = unsigned_less [where 'b = 32 and 'a = nat, simplified]

subsection \<open>Little-endian encodings\<close>

text \<open>\<^verbatim>\<open>to_le_bytes\<close> and \<^verbatim>\<open>from_le_bytes\<close> of the unsigned integer types.\<close>

definition to_le_bytes :: "nat \<Rightarrow> 'a::len word \<Rightarrow> bytes" where
  "to_le_bytes n w = map (\<lambda>i. ucast (drop_bit (8 * i) w)) [0..<n]"

fun from_le_bytes :: "bytes \<Rightarrow> 'a::len word" where
  "from_le_bytes [] = 0"
| "from_le_bytes (b # bs) = ucast b OR push_bit 8 (from_le_bytes bs)"

lemma length_to_le_bytes [simp]: "length (to_le_bytes n w) = n"
  by (simp add: to_le_bytes_def)

lemma to_le_bytes_Suc:
  "to_le_bytes (Suc n) w = ucast w # to_le_bytes n (drop_bit 8 w)"
proof -
  have "[0..<Suc n] = 0 # map Suc [0..<n]" by (simp add: upt_conv_Cons map_Suc_upt del: upt_Suc)
  then show ?thesis
    by (simp add: to_le_bytes_def drop_bit_drop_bit add.commute del: upt_Suc)
qed

lemma bit_from_le_bytes:
  "bit (from_le_bytes bs :: 'a::len word) i \<longleftrightarrow>
   i < LENGTH('a) \<and> i div 8 < length bs \<and> bit (bs ! (i div 8)) (i mod 8)"
proof (induction bs arbitrary: i)
  case Nil
  then show ?case by simp
next
  case (Cons b bs)
  have step: "bit (from_le_bytes (b # bs) :: 'a word) i \<longleftrightarrow>
      i < LENGTH('a) \<and> (bit b i \<or> 8 \<le> i \<and> bit (from_le_bytes bs :: 'a word) (i - 8))"
    by (auto simp: bit_or_iff bit_push_bit_iff bit_ucast_iff)
  show ?case
  proof (cases "i < 8")
    case True
    then show ?thesis unfolding step by simp
  next
    case False
    then have e: "i div 8 = Suc ((i - 8) div 8)" "(i - 8) mod 8 = i mod 8"
      by (simp_all add: le_div_geq le_mod_geq)
    have nb: "\<not> bit b i" using False bit_imp_le_length[of b i] by auto
    show ?thesis using False unfolding step Cons.IH e by (auto simp: nb)
  qed
qed

lemma from_to_le_bytes:
  assumes "LENGTH('a::len) \<le> 8 * n"
  shows "from_le_bytes (to_le_bytes n w) = (w :: 'a word)"
proof (rule bit_word_eqI)
  fix i assume i: "i < LENGTH('a)"
  then have d: "i div 8 < n" using assms by auto
  have "bit (from_le_bytes (to_le_bytes n w) :: 'a word) i \<longleftrightarrow> bit w (8 * (i div 8) + i mod 8)"
    using i d by (simp add: bit_from_le_bytes to_le_bytes_def bit_ucast_iff bit_drop_bit_eq)
  then show "bit (from_le_bytes (to_le_bytes n w) :: 'a word) i = bit w i" by simp
qed

lemma from_to_le_bytes_u16 [simp]: "from_le_bytes (to_le_bytes 2 w) = (w :: u16)"
  by (simp add: from_to_le_bytes)

lemma from_to_le_bytes_u32 [simp]: "from_le_bytes (to_le_bytes 4 w) = (w :: u32)"
  by (simp add: from_to_le_bytes)

lemma from_to_le_bytes_u64 [simp]: "from_le_bytes (to_le_bytes 8 w) = (w :: u64)"
  by (simp add: from_to_le_bytes)

end
