(* ===== verification/Storage.thy ===== *)
theory Storage
  imports Prelude
begin

section \<open>Byte buffers: \<^verbatim>\<open>WriteBuf\<close> and \<^verbatim>\<open>ReadBuf\<close>\<close>

text \<open>
  \<^verbatim>\<open>utils/storage/writebuf.rs\<close> and \<^verbatim>\<open>utils/storage/parsebuf.rs\<close>. A \<^verbatim>\<open>WriteBuf\<close> keeps a window
  \<open>start..end\<close> inside a byte array; data is appended at \<open>end\<close> and, after headroom was reserved,
  prepended before \<open>start\<close>. A \<^verbatim>\<open>ReadBuf\<close> keeps a cursor \<open>read_off\<close> and the number \<open>left\<close> of
  unread bytes. The two interfaces the packet codecs rely on are the locales \<open>byte_sink\<close>
  and \<open>byte_source\<close>, interpreted here on the two buffers.
\<close>

subsection \<open>The interfaces\<close>

locale byte_sink =
  fixes append :: "bytes \<Rightarrow> ('s, unit) sr"
    and view :: "'s \<Rightarrow> bytes"
    and room :: "'s \<Rightarrow> nat"
    and inv :: "'s \<Rightarrow> bool"
  assumes append_fits: "inv s \<Longrightarrow> length bs \<le> room s \<Longrightarrow>
      \<exists>s'. append bs s = (Ok (), s') \<and> inv s' \<and> view s' = view s @ bs \<and>
           room s' = room s - length bs"
    and append_full: "inv s \<Longrightarrow> room s < length bs \<Longrightarrow> append bs s = (Err NoSpace, s)"
begin

text \<open>Writing chunk after chunk writes their concatenation when it fits, and fails otherwise.\<close>

lemma chunks_fit:
  "inv s \<Longrightarrow> length (concat bss) \<le> room s \<Longrightarrow>
   \<exists>s'. sr_seq (map append bss) s = (Ok (), s') \<and> inv s' \<and> view s' = view s @ concat bss \<and>
        room s' = room s - length (concat bss)"
proof (induction bss arbitrary: s)
  case Nil
  then show ?case by (simp add: sr_return_def)
next
  case (Cons bs bss)
  from Cons.prems obtain s' where s': "append bs s = (Ok (), s')" "inv s'"
      "view s' = view s @ bs" "room s' = room s - length bs"
    using append_fits [of s bs] by auto
  with Cons.IH [of s'] Cons.prems show ?case by (auto simp: s' sr_bind_def)
qed

lemma chunks_full:
  "inv s \<Longrightarrow> room s < length (concat bss) \<Longrightarrow>
   \<exists>s'. sr_seq (map append bss) s = (Err NoSpace, s') \<and> inv s'"
proof (induction bss arbitrary: s)
  case Nil
  then show ?case by simp
next
  case (Cons bs bss)
  show ?case
  proof (cases "length bs \<le> room s")
    case True
    then obtain s' where s': "append bs s = (Ok (), s')" "inv s'" "room s' = room s - length bs"
      using append_fits [of s bs] Cons.prems by auto
    with Cons.IH [of s'] Cons.prems True show ?thesis by (auto simp: s' sr_bind_def)
  next
    case False
    with Cons.prems show ?thesis using append_full [of s bs] by (simp add: sr_bind_def)
  qed
qed

end

locale byte_source =
  fixes grab :: "nat \<Rightarrow> ('s, bytes) sr"
    and rest :: "'s \<Rightarrow> bytes"
    and valid :: "'s \<Rightarrow> bool"
  assumes grab_ok: "valid s \<Longrightarrow> n \<le> length (rest s) \<Longrightarrow>
      \<exists>s'. grab n s = (Ok (take n (rest s)), s') \<and> valid s' \<and> rest s' = drop n (rest s)"
    and grab_short: "valid s \<Longrightarrow> length (rest s) < n \<Longrightarrow> grab n s = (Err TruncatedPacket, s)"
begin

lemma grab_prefix:
  "valid s \<Longrightarrow> rest s = bs @ cs \<Longrightarrow>
   \<exists>s'. grab (length bs) s = (Ok bs, s') \<and> valid s' \<and> rest s' = cs"
  using grab_ok [of s "length bs"] by auto

end

subsection \<open>\<^verbatim>\<open>WriteBuf\<close>\<close>

record WriteBuf =
  wb_buf :: bytes
  wb_size :: nat
  wb_start :: nat
  wb_end :: nat

definition WriteBuf_new_with :: "bytes \<Rightarrow> nat \<Rightarrow> nat \<Rightarrow> WriteBuf" where
  "WriteBuf_new_with buf start tail =
     \<lparr>wb_buf = buf, wb_size = length buf, wb_start = start, wb_end = tail\<rparr>"

definition WriteBuf_new :: "bytes \<Rightarrow> WriteBuf" where
  "WriteBuf_new buf = WriteBuf_new_with buf 0 0"

definition WriteBuf_get_start :: "WriteBuf \<Rightarrow> nat" where
  "WriteBuf_get_start w = wb_start w"

definition WriteBuf_get_tail :: "WriteBuf \<Rightarrow> nat" where
  "WriteBuf_get_tail w = wb_end w"

definition WriteBuf_rewind_tail_to :: "nat \<Rightarrow> WriteBuf \<Rightarrow> WriteBuf" where
  "WriteBuf_rewind_tail_to new_end w = w\<lparr>wb_end := new_end\<rparr>"

definition WriteBuf_forward_tail_by :: "nat \<Rightarrow> WriteBuf \<Rightarrow> WriteBuf" where
  "WriteBuf_forward_tail_by off w = w\<lparr>wb_end := wb_end w + off\<rparr>"

definition WriteBuf_as_slice :: "WriteBuf \<Rightarrow> bytes res" where
  "WriteBuf_as_slice w = slice_res (wb_buf w) (wb_start w) (wb_end w)"

text \<open>\<^verbatim>\<open>as_mut_slice\<close>: what the caller writes through the slice replaces the window's bytes.\<close>

definition WriteBuf_as_mut_slice :: "(bytes \<Rightarrow> 'a res \<times> bytes) \<Rightarrow> (WriteBuf, 'a) sr" where
  "WriteBuf_as_mut_slice f = (\<lambda>w.
     if slice_ok (wb_buf w) (wb_start w) (wb_end w)
     then (case f (slice_of (wb_buf w) (wb_start w) (wb_end w)) of (r, bs) \<Rightarrow>
        (r, w\<lparr>wb_buf := copy_into (wb_buf w) (wb_start w) bs\<rparr>))
     else (Panic, w))"

definition WriteBuf_empty_as_mut_slice :: "WriteBuf \<Rightarrow> bytes res" where
  "WriteBuf_empty_as_mut_slice w = slice_res (wb_buf w) (wb_end w) (wb_size w)"

definition WriteBuf_split :: "WriteBuf \<Rightarrow> (bytes \<times> WriteBuf) res" where
  "WriteBuf_split w =
     (if wb_end w \<le> length (wb_buf w)
      then Ok (take (wb_end w) (wb_buf w), WriteBuf_new (drop (wb_end w) (wb_buf w)))
      else Panic)"

definition WriteBuf_reset :: "WriteBuf \<Rightarrow> WriteBuf" where
  "WriteBuf_reset w = w\<lparr>wb_size := length (wb_buf w), wb_start := 0, wb_end := 0\<rparr>"

definition WriteBuf_load :: "WriteBuf \<Rightarrow> (WriteBuf, unit) sr" where
  "WriteBuf_load src = (\<lambda>w.
     if wb_size w < wb_end src then (Err NoSpace, w)
     else if slice_ok (wb_buf w) 0 (wb_end src) \<and> slice_ok (wb_buf src) 0 (wb_end src)
     then (Ok (), w\<lparr>wb_buf := copy_into (wb_buf w) 0 (take (wb_end src) (wb_buf src)),
                    wb_start := wb_start src, wb_end := wb_end src\<rparr>)
     else (Panic, w))"

definition WriteBuf_reserve :: "nat \<Rightarrow> (WriteBuf, unit) sr" where
  "WriteBuf_reserve n = (\<lambda>w.
     if wb_end w \<noteq> 0 \<or> wb_start w \<noteq> 0 \<or> wb_size w \<noteq> length (wb_buf w) then (Err Invalid, w)
     else if n > wb_size w then (Err NoSpace, w)
     else (Ok (), w\<lparr>wb_start := n, wb_end := n\<rparr>))"

definition WriteBuf_shrink :: "nat \<Rightarrow> (WriteBuf, unit) sr" where
  "WriteBuf_shrink n = (\<lambda>w.
     if wb_end w + n \<le> wb_size w then (Ok (), w\<lparr>wb_size := wb_size w - n\<rparr>)
     else (Err NoSpace, w))"

definition WriteBuf_expand :: "nat \<Rightarrow> (WriteBuf, unit) sr" where
  "WriteBuf_expand n = (\<lambda>w.
     if length (wb_buf w) < wb_size w then (Panic, w)
     else if length (wb_buf w) - wb_size w \<ge> n then (Ok (), w\<lparr>wb_size := wb_size w + n\<rparr>)
     else (Err NoSpace, w))"

definition WriteBuf_prepend_with :: "nat \<Rightarrow> (WriteBuf, unit) sr \<Rightarrow> (WriteBuf, unit) sr" where
  "WriteBuf_prepend_with n f = (\<lambda>w.
     if n \<le> wb_start w
     then sr_then f (sr_modify (\<lambda>w. w\<lparr>wb_start := wb_start w - n\<rparr>)) w
     else (Err NoSpace, w))"

definition WriteBuf_prepend :: "bytes \<Rightarrow> (WriteBuf, unit) sr" where
  "WriteBuf_prepend src = WriteBuf_prepend_with (length src) (\<lambda>x.
     if slice_ok (wb_buf x) (wb_start x - length src) (wb_start x)
     then (Ok (), x\<lparr>wb_buf := copy_into (wb_buf x) (wb_start x - length src) src\<rparr>)
     else (Panic, x))"

text \<open>The callback of \<^verbatim>\<open>append_with_buf\<close> fills the empty part and says how much it used.\<close>

definition WriteBuf_append_with_buf ::
    "(bytes \<Rightarrow> nat res \<times> bytes) \<Rightarrow> (WriteBuf, nat) sr" where
  "WriteBuf_append_with_buf f = (\<lambda>w.
     if slice_ok (wb_buf w) (wb_end w) (wb_size w)
     then (case f (slice_of (wb_buf w) (wb_end w) (wb_size w)) of (r, bs) \<Rightarrow>
        let w' = w\<lparr>wb_buf := copy_into (wb_buf w) (wb_end w) bs\<rparr>
        in (case r of Ok n \<Rightarrow> (Ok n, w'\<lparr>wb_end := wb_end w + n\<rparr>)
            | Err e \<Rightarrow> (Err e, w') | Panic \<Rightarrow> (Panic, w')))
     else (Panic, w))"

definition WriteBuf_append_with :: "nat \<Rightarrow> (WriteBuf, unit) sr \<Rightarrow> (WriteBuf, unit) sr" where
  "WriteBuf_append_with n f = (\<lambda>w.
     if wb_end w + n \<le> wb_size w
     then sr_then f (sr_modify (\<lambda>w. w\<lparr>wb_end := wb_end w + n\<rparr>)) w
     else (Err NoSpace, w))"

definition WriteBuf_copy_from_slice :: "bytes \<Rightarrow> (WriteBuf, unit) sr" where
  "WriteBuf_copy_from_slice src = WriteBuf_append_with (length src) (\<lambda>x.
     if slice_ok (wb_buf x) (wb_end x) (wb_end x + length src)
     then (Ok (), x\<lparr>wb_buf := copy_into (wb_buf x) (wb_end x) src\<rparr>)
     else (Panic, x))"

definition WriteBuf_append :: "bytes \<Rightarrow> (WriteBuf, unit) sr" where
  "WriteBuf_append src = WriteBuf_copy_from_slice src"

definition WriteBuf_le_u8 :: "u8 \<Rightarrow> (WriteBuf, unit) sr" where
  "WriteBuf_le_u8 data = WriteBuf_append_with 1 (\<lambda>x.
     if wb_end x < length (wb_buf x) then (Ok (), x\<lparr>wb_buf := (wb_buf x)[wb_end x := data]\<rparr>)
     else (Panic, x))"

definition WriteBuf_le_u16 :: "u16 \<Rightarrow> (WriteBuf, unit) sr" where
  "WriteBuf_le_u16 data = WriteBuf_append (to_le_bytes 2 data)"

definition WriteBuf_le_u32 :: "u32 \<Rightarrow> (WriteBuf, unit) sr" where
  "WriteBuf_le_u32 data = WriteBuf_append (to_le_bytes 4 data)"

definition WriteBuf_le_u64 :: "u64 \<Rightarrow> (WriteBuf, unit) sr" where
  "WriteBuf_le_u64 data = WriteBuf_append (to_le_bytes 8 data)"

subsubsection \<open>Invariant and view\<close>

definition WriteBuf_inv :: "WriteBuf \<Rightarrow> bool" where
  "WriteBuf_inv w \<longleftrightarrow>
     wb_start w \<le> wb_end w \<and> wb_end w \<le> wb_size w \<and> wb_size w \<le> length (wb_buf w)"

definition WriteBuf_view :: "WriteBuf \<Rightarrow> bytes" where
  "WriteBuf_view w = slice_of (wb_buf w) (wb_start w) (wb_end w)"

definition WriteBuf_room :: "WriteBuf \<Rightarrow> nat" where
  "WriteBuf_room w = wb_size w - wb_end w"

lemma WriteBuf_as_slice_view: "WriteBuf_inv w \<Longrightarrow> WriteBuf_as_slice w = Ok (WriteBuf_view w)"
  by (simp add: WriteBuf_inv_def WriteBuf_as_slice_def slice_res_def slice_ok_def WriteBuf_view_def)

lemma WriteBuf_new_inv [wf_intros]: "WriteBuf_inv (WriteBuf_new buf)"
  by (simp add: WriteBuf_inv_def WriteBuf_new_def WriteBuf_new_with_def)

lemma WriteBuf_new_view [simp]: "WriteBuf_view (WriteBuf_new buf) = []"
  by (simp add: WriteBuf_view_def WriteBuf_new_def WriteBuf_new_with_def)

lemma WriteBuf_new_room [simp]: "WriteBuf_room (WriteBuf_new buf) = length buf"
  by (simp add: WriteBuf_room_def WriteBuf_new_def WriteBuf_new_with_def)

text \<open>Appending, exactly: what it returns and what every field is afterwards.\<close>

lemma WriteBuf_append_ok:
  "WriteBuf_inv w \<Longrightarrow> length bs \<le> WriteBuf_room w \<Longrightarrow>
   WriteBuf_append bs w =
     (Ok (), w\<lparr>wb_buf := copy_into (wb_buf w) (wb_end w) bs, wb_end := wb_end w + length bs\<rparr>)"
  by (auto simp: WriteBuf_append_def WriteBuf_copy_from_slice_def WriteBuf_append_with_def
      WriteBuf_inv_def WriteBuf_room_def slice_ok_def sr_bind_def sr_modify_def)

lemma WriteBuf_append_nospace:
  "WriteBuf_inv w \<Longrightarrow> WriteBuf_room w < length bs \<Longrightarrow> WriteBuf_append bs w = (Err NoSpace, w)"
  by (auto simp: WriteBuf_append_def WriteBuf_copy_from_slice_def WriteBuf_append_with_def
      WriteBuf_inv_def WriteBuf_room_def)

lemma WriteBuf_append_keeps:
  assumes inv: "WriteBuf_inv w" and fits: "length bs \<le> WriteBuf_room w"
    and w': "w' = w\<lparr>wb_buf := copy_into (wb_buf w) (wb_end w) bs, wb_end := wb_end w + length bs\<rparr>"
  shows "WriteBuf_inv w'" "WriteBuf_view w' = WriteBuf_view w @ bs"
    "WriteBuf_room w' = WriteBuf_room w - length bs"
proof -
  from inv fits have le: "wb_start w \<le> wb_end w" "wb_end w + length bs \<le> length (wb_buf w)"
    by (auto simp: WriteBuf_inv_def WriteBuf_room_def)
  show "WriteBuf_inv w'" "WriteBuf_room w' = WriteBuf_room w - length bs"
    using inv fits le by (auto simp: w' WriteBuf_inv_def WriteBuf_room_def)
  show "WriteBuf_view w' = WriteBuf_view w @ bs"
    using le slice_append [of "wb_start w" "wb_end w" "wb_end w + length bs"
        "copy_into (wb_buf w) (wb_end w) bs", symmetric]
    by (simp add: w' WriteBuf_view_def slice_copy_into_before slice_copy_into_same)
qed

lemma WriteBuf_le_u8_append: "WriteBuf_le_u8 b = WriteBuf_append [b]"
  by (rule ext) (auto simp: WriteBuf_le_u8_def WriteBuf_append_def WriteBuf_copy_from_slice_def
      WriteBuf_append_with_def slice_ok_def copy_into_def upd_conv_take_nth_drop sr_bind_def
      sr_modify_def)

interpretation wb: byte_sink WriteBuf_append WriteBuf_view WriteBuf_room WriteBuf_inv
proof unfold_locales
  fix w and bs :: bytes assume "WriteBuf_inv w" "length bs \<le> WriteBuf_room w"
  then show "\<exists>w'. WriteBuf_append bs w = (Ok (), w') \<and> WriteBuf_inv w' \<and>
      WriteBuf_view w' = WriteBuf_view w @ bs \<and> WriteBuf_room w' = WriteBuf_room w - length bs"
    using WriteBuf_append_keeps [OF _ _ refl, of w bs] by (simp add: WriteBuf_append_ok)
qed (rule WriteBuf_append_nospace)

lemma WriteBuf_prepend_ok:
  "WriteBuf_inv w \<Longrightarrow> length bs \<le> wb_start w \<Longrightarrow>
   WriteBuf_prepend bs w =
     (Ok (), w\<lparr>wb_buf := copy_into (wb_buf w) (wb_start w - length bs) bs,
               wb_start := wb_start w - length bs\<rparr>)"
  by (simp add: WriteBuf_prepend_def WriteBuf_prepend_with_def WriteBuf_inv_def slice_ok_def
      sr_bind_def sr_modify_def)

lemma WriteBuf_prepend_keeps:
  assumes inv: "WriteBuf_inv w" and fits: "length bs \<le> wb_start w"
    and w': "w' = w\<lparr>wb_buf := copy_into (wb_buf w) (wb_start w - length bs) bs,
                    wb_start := wb_start w - length bs\<rparr>"
  shows "WriteBuf_inv w'" "WriteBuf_view w' = bs @ WriteBuf_view w"
proof -
  let ?s = "wb_start w - length bs" and ?b = "copy_into (wb_buf w) (wb_start w - length bs) bs"
  from inv fits have le: "wb_start w \<le> wb_end w" "wb_start w \<le> length (wb_buf w)"
    "?s + length bs = wb_start w"
    by (auto simp: WriteBuf_inv_def)
  show "WriteBuf_inv w'" using inv fits by (auto simp: w' WriteBuf_inv_def)
  have "slice_of ?b ?s (wb_start w) = bs"
    using slice_copy_into_same [of ?s bs "wb_buf w"] le by simp
  moreover have "slice_of ?b (wb_start w) (wb_end w) = slice_of (wb_buf w) (wb_start w) (wb_end w)"
    using slice_copy_into_after [of ?s bs "wb_buf w" "wb_start w"] le by simp
  ultimately show "WriteBuf_view w' = bs @ WriteBuf_view w"
    using slice_append [of ?s "wb_start w" "wb_end w" ?b, symmetric] le
    by (simp add: w' WriteBuf_view_def)
qed

lemma WriteBuf_prepend_nospace:
  "wb_start w < length bs \<Longrightarrow> WriteBuf_prepend bs w = (Err NoSpace, w)"
  by (simp add: WriteBuf_prepend_def WriteBuf_prepend_with_def)

subsubsection \<open>Sequences of operations\<close>

text \<open>
  The operations a client composes. \<^verbatim>\<open>rewind_tail_to\<close> and \<^verbatim>\<open>forward_tail_by\<close> move the end without a
  check; here they carry the bound their callers respect (an earlier tail position, or room that
  is still free).
\<close>

datatype wb_op =
    Wb_append bytes | Wb_prepend bytes | Wb_reserve nat | Wb_shrink nat | Wb_expand nat
  | Wb_reset | Wb_u8 u8 | Wb_u16 u16 | Wb_u32 u32 | Wb_u64 u64 | Wb_load WriteBuf
  | Wb_rewind nat | Wb_forward nat

fun wb_step :: "wb_op \<Rightarrow> (WriteBuf, unit) sr" where
  "wb_step (Wb_append bs) = WriteBuf_append bs"
| "wb_step (Wb_prepend bs) = WriteBuf_prepend bs"
| "wb_step (Wb_reserve n) = WriteBuf_reserve n"
| "wb_step (Wb_shrink n) = WriteBuf_shrink n"
| "wb_step (Wb_expand n) = WriteBuf_expand n"
| "wb_step Wb_reset = sr_modify WriteBuf_reset"
| "wb_step (Wb_u8 b) = WriteBuf_le_u8 b"
| "wb_step (Wb_u16 x) = WriteBuf_le_u16 x"
| "wb_step (Wb_u32 x) = WriteBuf_le_u32 x"
| "wb_step (Wb_u64 x) = WriteBuf_le_u64 x"
| "wb_step (Wb_load src) = WriteBuf_load src"
| "wb_step (Wb_rewind n) = sr_modify (WriteBuf_rewind_tail_to n)"
| "wb_step (Wb_forward n) = sr_modify (WriteBuf_forward_tail_by n)"

fun wb_allowed :: "WriteBuf \<Rightarrow> wb_op \<Rightarrow> bool" where
  "wb_allowed w (Wb_load src) \<longleftrightarrow> WriteBuf_inv src"
| "wb_allowed w (Wb_rewind n) \<longleftrightarrow> wb_start w \<le> n \<and> n \<le> wb_end w"
| "wb_allowed w (Wb_forward n) \<longleftrightarrow> n \<le> WriteBuf_room w"
| "wb_allowed w _ \<longleftrightarrow> True"

text \<open>A run: a failed operation leaves its error and the client may go on.\<close>

fun wb_run :: "wb_op list \<Rightarrow> WriteBuf \<Rightarrow> unit res list \<times> WriteBuf" where
  "wb_run [] w = ([], w)"
| "wb_run (x # xs) w =
     (case wb_step x w of (r, w') \<Rightarrow> (case wb_run xs w' of (rs, w'') \<Rightarrow> (r # rs, w'')))"

fun wb_run_allowed :: "wb_op list \<Rightarrow> WriteBuf \<Rightarrow> bool" where
  "wb_run_allowed [] w \<longleftrightarrow> True"
| "wb_run_allowed (x # xs) w \<longleftrightarrow> wb_allowed w x \<and> wb_run_allowed xs (snd (wb_step x w))"

lemma WriteBuf_append_safe:
  assumes "WriteBuf_inv w"
  shows "WriteBuf_inv (snd (WriteBuf_append bs w)) \<and> fst (WriteBuf_append bs w) \<noteq> Panic"
  using assms WriteBuf_append_keeps(1) [OF assms _ refl, of bs]
  by (cases "length bs \<le> WriteBuf_room w") (simp_all add: WriteBuf_append_ok WriteBuf_append_nospace)

lemma WriteBuf_prepend_safe:
  assumes "WriteBuf_inv w"
  shows "WriteBuf_inv (snd (WriteBuf_prepend bs w)) \<and> fst (WriteBuf_prepend bs w) \<noteq> Panic"
  using assms WriteBuf_prepend_keeps(1) [OF assms _ refl, of bs]
  by (cases "length bs \<le> wb_start w") (simp_all add: WriteBuf_prepend_ok WriteBuf_prepend_nospace)

lemmas wb_simple_ops =
  WriteBuf_reserve_def WriteBuf_shrink_def WriteBuf_expand_def WriteBuf_reset_def
  WriteBuf_rewind_tail_to_def WriteBuf_forward_tail_by_def WriteBuf_room_def WriteBuf_load_def
  slice_ok_def sr_modify_def WriteBuf_inv_def

lemmas wb_appends = WriteBuf_le_u8_append WriteBuf_le_u16_def WriteBuf_le_u32_def WriteBuf_le_u64_def

lemma wb_step_safe:
  assumes inv: "WriteBuf_inv w" and "wb_allowed w x"
  shows "WriteBuf_inv (snd (wb_step x w)) \<and> fst (wb_step x w) \<noteq> Panic"
proof (cases x)
  case (Wb_append bs)
  then show ?thesis using WriteBuf_append_safe [OF inv] by simp
next
  case (Wb_prepend bs)
  then show ?thesis using WriteBuf_prepend_safe [OF inv] by simp
next
  case (Wb_u8 b)
  then show ?thesis using WriteBuf_append_safe [OF inv] by (simp add: WriteBuf_le_u8_append)
next
  case (Wb_u16 v)
  then show ?thesis using WriteBuf_append_safe [OF inv] by (simp add: wb_appends)
next
  case (Wb_u32 v)
  then show ?thesis using WriteBuf_append_safe [OF inv] by (simp add: wb_appends)
next
  case (Wb_u64 v)
  then show ?thesis using WriteBuf_append_safe [OF inv] by (simp add: wb_appends)
qed (use assms in \<open>auto simp: wb_simple_ops\<close>)

lemma wb_run_safe:
  "WriteBuf_inv w \<Longrightarrow> wb_run_allowed xs w \<Longrightarrow>
   WriteBuf_inv (snd (wb_run xs w)) \<and> Panic \<notin> set (fst (wb_run xs w))"
proof (induction xs arbitrary: w)
  case Nil
  then show ?case by simp
next
  case (Cons x xs)
  obtain r w' where st: "wb_step x w = (r, w')" by (cases "wb_step x w")
  with Cons.prems wb_step_safe [of w x] have "WriteBuf_inv w'" "r \<noteq> Panic" by simp_all
  with Cons.IH [of w'] Cons.prems st show ?case by (auto split: prod.splits)
qed

subsection \<open>\<^verbatim>\<open>ReadBuf\<close>\<close>

record ReadBuf =
  rb_buf :: bytes
  rb_read_off :: nat
  rb_left :: nat

definition ReadBuf_new :: "bytes \<Rightarrow> ReadBuf" where
  "ReadBuf_new buf = \<lparr>rb_buf = buf, rb_read_off = 0, rb_left = length buf\<rparr>"

definition ReadBuf_reset :: "ReadBuf \<Rightarrow> ReadBuf" where
  "ReadBuf_reset p = p\<lparr>rb_read_off := 0, rb_left := length (rb_buf p)\<rparr>"

definition ReadBuf_load :: "ReadBuf \<Rightarrow> (ReadBuf, unit) sr" where
  "ReadBuf_load src = (\<lambda>p.
     let n = rb_read_off src + rb_left src in
     if length (rb_buf p) < n then (Err BufferTooSmall, p)
     else if slice_ok (rb_buf src) 0 n
     then (Ok (), p\<lparr>rb_buf := copy_into (rb_buf p) 0 (take n (rb_buf src)),
                    rb_read_off := rb_read_off src, rb_left := rb_left src\<rparr>)
     else (Panic, p))"

definition ReadBuf_set_len :: "nat \<Rightarrow> ReadBuf \<Rightarrow> ReadBuf" where
  "ReadBuf_set_len n p = p\<lparr>rb_left := n\<rparr>"

definition ReadBuf_read_off :: "ReadBuf \<Rightarrow> nat" where
  "ReadBuf_read_off p = rb_read_off p"

definition ReadBuf_slice_range :: "ReadBuf \<Rightarrow> nat \<times> nat" where
  "ReadBuf_slice_range p = (rb_read_off p, rb_read_off p + rb_left p)"

definition ReadBuf_as_slice :: "ReadBuf \<Rightarrow> bytes res" where
  "ReadBuf_as_slice p = slice_res (rb_buf p) (rb_read_off p) (rb_read_off p + rb_left p)"

text \<open>\<^verbatim>\<open>as_mut_slice\<close>: what the caller writes through the slice replaces the unread bytes.\<close>

definition ReadBuf_as_mut_slice :: "(bytes \<Rightarrow> 'a res \<times> bytes) \<Rightarrow> (ReadBuf, 'a) sr" where
  "ReadBuf_as_mut_slice f = (\<lambda>p.
     if slice_ok (rb_buf p) (rb_read_off p) (rb_read_off p + rb_left p)
     then (case f (slice_of (rb_buf p) (rb_read_off p) (rb_read_off p + rb_left p)) of (r, bs) \<Rightarrow>
        (r, p\<lparr>rb_buf := copy_into (rb_buf p) (rb_read_off p) bs\<rparr>))
     else (Panic, p))"

definition ReadBuf_parsed_as_slice :: "ReadBuf \<Rightarrow> bytes res" where
  "ReadBuf_parsed_as_slice p = slice_res (rb_buf p) 0 (rb_read_off p)"

definition ReadBuf_tail :: "nat \<Rightarrow> (ReadBuf, bytes) sr" where
  "ReadBuf_tail n = (\<lambda>p.
     if n \<le> rb_left p then
       (case slice_res (rb_buf p) (rb_read_off p + rb_left p - n) (rb_read_off p + rb_left p) of
          Ok t \<Rightarrow> (Ok t, p\<lparr>rb_left := rb_left p - n\<rparr>)
        | Err e \<Rightarrow> (Err e, p) | Panic \<Rightarrow> (Panic, p))
     else (Err TruncatedPacket, p))"

definition ReadBuf_advance :: "nat \<Rightarrow> (ReadBuf, unit) sr" where
  "ReadBuf_advance n = (\<lambda>p.
     if n \<le> rb_left p
     then (Ok (), p\<lparr>rb_read_off := rb_read_off p + n, rb_left := rb_left p - n\<rparr>)
     else (Panic, p))"

definition ReadBuf_parse_head_with :: "nat \<Rightarrow> (ReadBuf, 'a) sr \<Rightarrow> (ReadBuf, 'a) sr" where
  "ReadBuf_parse_head_with n f = (\<lambda>p.
     if rb_left p \<ge> n
     then sr_bind f (\<lambda>data. sr_then (ReadBuf_advance n) (sr_return data)) p
     else (Err TruncatedPacket, p))"

definition ReadBuf_parse_as_array :: "nat \<Rightarrow> (bytes \<Rightarrow> 'a) \<Rightarrow> (ReadBuf, 'a) sr" where
  "ReadBuf_parse_as_array n f = (\<lambda>p.
     if rb_left p \<ge> n then
       (case slice_res (rb_buf p) (rb_read_off p) (rb_read_off p + n) of
          Ok bs \<Rightarrow> sr_then (ReadBuf_advance n) (sr_return (f bs)) p
        | Err e \<Rightarrow> (Err e, p) | Panic \<Rightarrow> (Panic, p))
     else (Err TruncatedPacket, p))"

definition ReadBuf_le_u8 :: "(ReadBuf, u8) sr" where
  "ReadBuf_le_u8 = ReadBuf_parse_head_with 1 (\<lambda>p.
     if rb_read_off p < length (rb_buf p) then (Ok (rb_buf p ! rb_read_off p), p) else (Panic, p))"

definition ReadBuf_le_u16 :: "(ReadBuf, u16) sr" where
  "ReadBuf_le_u16 = ReadBuf_parse_as_array 2 from_le_bytes"

definition ReadBuf_le_u32 :: "(ReadBuf, u32) sr" where
  "ReadBuf_le_u32 = ReadBuf_parse_as_array 4 from_le_bytes"

definition ReadBuf_le_u64 :: "(ReadBuf, u64) sr" where
  "ReadBuf_le_u64 = ReadBuf_parse_as_array 8 from_le_bytes"

subsubsection \<open>Invariant and unread bytes\<close>

definition ReadBuf_inv :: "ReadBuf \<Rightarrow> bool" where
  "ReadBuf_inv p \<longleftrightarrow> rb_read_off p + rb_left p \<le> length (rb_buf p)"

definition ReadBuf_rest :: "ReadBuf \<Rightarrow> bytes" where
  "ReadBuf_rest p = slice_of (rb_buf p) (rb_read_off p) (rb_read_off p + rb_left p)"

lemma length_ReadBuf_rest [simp]: "ReadBuf_inv p \<Longrightarrow> length (ReadBuf_rest p) = rb_left p"
  by (simp add: ReadBuf_inv_def ReadBuf_rest_def)

lemma ReadBuf_new_inv [wf_intros]: "ReadBuf_inv (ReadBuf_new buf)"
  by (simp add: ReadBuf_inv_def ReadBuf_new_def)

lemma ReadBuf_new_rest [simp]: "ReadBuf_rest (ReadBuf_new buf) = buf"
  by (simp add: ReadBuf_rest_def ReadBuf_new_def slice_full)

lemma ReadBuf_as_slice_rest: "ReadBuf_inv p \<Longrightarrow> ReadBuf_as_slice p = Ok (ReadBuf_rest p)"
  by (simp add: ReadBuf_inv_def ReadBuf_as_slice_def slice_res_def slice_ok_def ReadBuf_rest_def)

definition ReadBuf_skip :: "nat \<Rightarrow> ReadBuf \<Rightarrow> ReadBuf" where
  "ReadBuf_skip n p = p\<lparr>rb_read_off := rb_read_off p + n, rb_left := rb_left p - n\<rparr>"

lemma ReadBuf_skip_inv: "ReadBuf_inv p \<Longrightarrow> n \<le> rb_left p \<Longrightarrow> ReadBuf_inv (ReadBuf_skip n p)"
  by (auto simp: ReadBuf_inv_def ReadBuf_skip_def)

lemma ReadBuf_skip_rest:
  "n \<le> rb_left p \<Longrightarrow> ReadBuf_rest (ReadBuf_skip n p) = drop n (ReadBuf_rest p)"
  by (simp add: ReadBuf_rest_def ReadBuf_skip_def slice_of_def drop_take add.commute)

lemma take_ReadBuf_rest:
  "n \<le> rb_left p \<Longrightarrow>
   take n (ReadBuf_rest p) = slice_of (rb_buf p) (rb_read_off p) (rb_read_off p + n)"
  by (simp add: ReadBuf_rest_def slice_of_def min_def)

lemma ReadBuf_array_ok:
  "ReadBuf_inv p \<Longrightarrow> n \<le> rb_left p \<Longrightarrow>
   ReadBuf_parse_as_array n f p = (Ok (f (take n (ReadBuf_rest p))), ReadBuf_skip n p)"
  by (auto simp: ReadBuf_parse_as_array_def ReadBuf_advance_def ReadBuf_inv_def slice_res_def
      slice_ok_def take_ReadBuf_rest ReadBuf_skip_def sr_bind_def sr_return_def)

lemma ReadBuf_array_short:
  "rb_left p < n \<Longrightarrow> ReadBuf_parse_as_array n f p = (Err TruncatedPacket, p)"
  by (simp add: ReadBuf_parse_as_array_def)

lemma ReadBuf_le_u8_array:
  "ReadBuf_inv p \<Longrightarrow> ReadBuf_le_u8 p = ReadBuf_parse_as_array 1 hd p"
  by (auto simp: ReadBuf_le_u8_def ReadBuf_parse_head_with_def ReadBuf_parse_as_array_def
      ReadBuf_advance_def ReadBuf_inv_def slice_res_def slice_ok_def slice_of_def sr_bind_def
      sr_return_def take_Suc hd_drop_conv_nth)

interpretation rd: byte_source "\<lambda>n. ReadBuf_parse_as_array n id" ReadBuf_rest ReadBuf_inv
  by unfold_locales
     (auto simp: ReadBuf_array_ok ReadBuf_array_short ReadBuf_skip_inv ReadBuf_skip_rest)

text \<open>Typed reads of a known prefix, in the shape the header decoders use them.\<close>

lemma ReadBuf_array_prefix:
  "ReadBuf_inv p \<Longrightarrow> ReadBuf_rest p = bs @ cs \<Longrightarrow> length bs = n \<Longrightarrow>
   ReadBuf_parse_as_array n f p = (Ok (f bs), ReadBuf_skip n p) \<and>
   ReadBuf_inv (ReadBuf_skip n p) \<and> ReadBuf_rest (ReadBuf_skip n p) = cs"
  using length_ReadBuf_rest [of p]
  by (auto simp: ReadBuf_array_ok ReadBuf_skip_inv ReadBuf_skip_rest)

lemma ReadBuf_le_u8_prefix:
  "ReadBuf_inv p \<Longrightarrow> ReadBuf_rest p = b # cs \<Longrightarrow>
   ReadBuf_le_u8 p = (Ok b, ReadBuf_skip 1 p) \<and>
   ReadBuf_inv (ReadBuf_skip 1 p) \<and> ReadBuf_rest (ReadBuf_skip 1 p) = cs"
  using ReadBuf_array_prefix [of p "[b]" cs 1 hd] by (simp add: ReadBuf_le_u8_array)

lemmas ReadBuf_int_defs = ReadBuf_le_u16_def ReadBuf_le_u32_def ReadBuf_le_u64_def

lemma ReadBuf_tail_ok:
  assumes "ReadBuf_inv p" and "n \<le> rb_left p"
  shows "ReadBuf_tail n p =
      (Ok (drop (rb_left p - n) (ReadBuf_rest p)), p\<lparr>rb_left := rb_left p - n\<rparr>)"
    and "ReadBuf_rest (p\<lparr>rb_left := rb_left p - n\<rparr>) = take (rb_left p - n) (ReadBuf_rest p)"
  using assms
  by (auto simp: ReadBuf_tail_def slice_res_def slice_ok_def ReadBuf_inv_def ReadBuf_rest_def
      slice_of_def drop_take add.commute min_def)

subsubsection \<open>Decoders\<close>

text \<open>
  \<open>decodes m h bs x h'\<close>: on any input that starts with \<open>bs\<close>, the decoder \<open>m\<close> with the object
  \<open>h\<close> consumes exactly \<open>bs\<close>, returns \<open>x\<close> and leaves the object as \<open>h'\<close>. The rules follow
  the structure of a decoder.
\<close>

definition decodes :: "('h \<times> ReadBuf, 'a) sr \<Rightarrow> 'h \<Rightarrow> bytes \<Rightarrow> 'a \<Rightarrow> 'h \<Rightarrow> bool" where
  "decodes m h bs x h' \<longleftrightarrow> (\<forall>p cs. ReadBuf_inv p \<and> ReadBuf_rest p = bs @ cs \<longrightarrow>
     m (h, p) = (Ok x, (h', ReadBuf_skip (length bs) p)))"

named_theorems decodes_rules \<open>rules for the decoders of the header fields\<close>

lemma ReadBuf_skip_skip: "ReadBuf_skip m (ReadBuf_skip n p) = ReadBuf_skip (n + m) p"
  by (simp add: ReadBuf_skip_def)

lemma ReadBuf_skip_0 [simp]: "ReadBuf_skip 0 p = p"
  by (simp add: ReadBuf_skip_def)

lemma ReadBuf_skip_prefix:
  assumes "ReadBuf_inv p" and "ReadBuf_rest p = bs @ cs"
  shows "ReadBuf_inv (ReadBuf_skip (length bs) p)" and "ReadBuf_rest (ReadBuf_skip (length bs) p) = cs"
  using ReadBuf_array_prefix [OF assms refl, of id] by simp_all

lemma decodes_bind:
  assumes "decodes m h bs x h1" and "decodes (f x) h1 cs y h2"
  shows "decodes (sr_bind m f) h (bs @ cs) y h2"
  unfolding decodes_def
proof (intro allI impI)
  fix p ds assume p: "ReadBuf_inv p \<and> ReadBuf_rest p = (bs @ cs) @ ds"
  let ?p = "ReadBuf_skip (length bs) p"
  have "m (h, p) = (Ok x, (h1, ?p))" using assms(1) p by (simp add: decodes_def)
  moreover have "ReadBuf_inv ?p" "ReadBuf_rest ?p = cs @ ds"
    using ReadBuf_skip_prefix [of p bs "cs @ ds"] p by simp_all
  ultimately show "sr_bind m f (h, p) = (Ok y, (h2, ReadBuf_skip (length (bs @ cs)) p))"
    using assms(2) by (simp add: sr_bind_def decodes_def ReadBuf_skip_skip)
qed

lemma decodes_array:
  assumes "length bs = n"
  shows "decodes (on_snd (ReadBuf_parse_as_array n f)) h bs (f bs) h"
  unfolding decodes_def
proof (intro allI impI)
  fix p cs assume "ReadBuf_inv p \<and> ReadBuf_rest p = bs @ cs"
  then show "on_snd (ReadBuf_parse_as_array n f) (h, p) = (Ok (f bs), h, ReadBuf_skip (length bs) p)"
    using ReadBuf_array_prefix [of p bs cs n f] assms by (simp add: on_snd_def)
qed

lemma decodes_u8: "decodes (on_snd ReadBuf_le_u8) h [b] b h"
  by (auto simp: decodes_def on_snd_def dest: ReadBuf_le_u8_prefix)

lemma decodes_u16: "decodes (on_snd ReadBuf_le_u16) h (to_le_bytes 2 w) w h"
  using decodes_array [of "to_le_bytes 2 w" 2 "from_le_bytes :: bytes \<Rightarrow> u16" h]
  by (simp add: ReadBuf_int_defs)

lemma decodes_u32: "decodes (on_snd ReadBuf_le_u32) h (to_le_bytes 4 w) w h"
  using decodes_array [of "to_le_bytes 4 w" 4 "from_le_bytes :: bytes \<Rightarrow> u32" h]
  by (simp add: ReadBuf_int_defs)

lemma decodes_u64: "decodes (on_snd ReadBuf_le_u64) h (to_le_bytes 8 w) w h"
  using decodes_array [of "to_le_bytes 8 w" 8 "from_le_bytes :: bytes \<Rightarrow> u64" h]
  by (simp add: ReadBuf_int_defs)

lemma decodes_read_u8 [decodes_rules]:
  "decodes (f b) h cs y h' \<Longrightarrow> decodes (sr_bind (on_snd ReadBuf_le_u8) f) h (b # cs) y h'"
  using decodes_bind [OF decodes_u8, of f b h cs y h'] by simp

lemmas decodes_read_ints [decodes_rules] =
  decodes_bind [OF decodes_u16] decodes_bind [OF decodes_u32] decodes_bind [OF decodes_u64]

lemmas decodes_read_last [decodes_rules] =
  decodes_read_ints [where cs = "[]", unfolded append_Nil2]

lemmas decodes_assoc [decodes_rules] = sr_bind_assoc

lemma decodes_modify [decodes_rules]:
  "decodes (f ()) (g h) cs y h' \<Longrightarrow> decodes (sr_bind (on_fst (sr_modify g)) f) h cs y h'"
  by (simp add: decodes_def on_fst_def sr_modify_def sr_bind_def)

lemma decodes_modify_last [decodes_rules]: "h' = g h \<Longrightarrow> decodes (on_fst (sr_modify g)) h [] () h'"
  by (simp add: decodes_def on_fst_def sr_modify_def)

lemma decodes_get [decodes_rules]:
  "decodes (f h) h cs y h' \<Longrightarrow> decodes (sr_bind (on_fst sr_get) f) h cs y h'"
  by (simp add: decodes_def on_fst_def sr_get_def sr_bind_def)

lemma decodes_return [decodes_rules]: "h' = h \<Longrightarrow> decodes (sr_return x) h [] x h'"
  by (simp add: decodes_def sr_return_def)

lemma decodes_ok_or [decodes_rules]:
  "decodes (f x) h cs y h' \<Longrightarrow> decodes (sr_bind (sr_ok_or e (Some x)) f) h cs y h'"
  by (simp add: sr_ok_or_def)

text \<open>
  \<open>reads_safely n m\<close>: on any input the decoder \<open>m\<close> does not panic, keeps the buffer valid and
  consumes at most \<open>n\<close> bytes.
\<close>

definition reads_safely :: "nat \<Rightarrow> ('h \<times> ReadBuf, 'a) sr \<Rightarrow> bool" where
  "reads_safely n m \<longleftrightarrow> (\<forall>h p. ReadBuf_inv p \<longrightarrow>
     fst (m (h, p)) \<noteq> Panic \<and> ReadBuf_inv (snd (snd (m (h, p)))) \<and>
     rb_read_off (snd (snd (m (h, p)))) \<le> rb_read_off p + n)"

named_theorems reads_rules \<open>decoders neither panic nor read too far\<close>

lemma reads_bind:
  assumes m: "reads_safely a m" and f: "\<And>x. reads_safely b (f x)"
  shows "reads_safely (a + b) (sr_bind m f)"
  unfolding reads_safely_def
proof (intro allI impI)
  fix h p assume "ReadBuf_inv p"
  moreover obtain r h1 p1 where m1: "m (h, p) = (r, (h1, p1))" by (metis prod_cases3)
  ultimately have "r \<noteq> Panic \<and> ReadBuf_inv p1 \<and> rb_read_off p1 \<le> rb_read_off p + a"
    using m unfolding reads_safely_def by (metis fst_conv snd_conv)
  then have p1: "r \<noteq> Panic" "ReadBuf_inv p1" "rb_read_off p1 \<le> rb_read_off p + a" by simp_all
  show "fst (sr_bind m f (h, p)) \<noteq> Panic \<and> ReadBuf_inv (snd (snd (sr_bind m f (h, p)))) \<and>
      rb_read_off (snd (snd (sr_bind m f (h, p)))) \<le> rb_read_off p + (a + b)"
  proof (cases r)
    case (Ok x)
    have "fst (f x (h1, p1)) \<noteq> Panic \<and> ReadBuf_inv (snd (snd (f x (h1, p1)))) \<and>
        rb_read_off (snd (snd (f x (h1, p1)))) \<le> rb_read_off p1 + b"
      using f [of x] p1(2) unfolding reads_safely_def by blast
    with Ok p1(3) show ?thesis by (simp add: sr_bind_def m1)
  qed (use p1 in \<open>simp_all add: sr_bind_def m1\<close>)
qed

lemma reads_array: "reads_safely n (on_snd (ReadBuf_parse_as_array n f))"
  unfolding reads_safely_def
proof (intro allI impI)
  fix h and p assume p: "ReadBuf_inv p"
  show "fst (on_snd (ReadBuf_parse_as_array n f) (h, p)) \<noteq> Panic \<and>
      ReadBuf_inv (snd (snd (on_snd (ReadBuf_parse_as_array n f) (h, p)))) \<and>
      rb_read_off (snd (snd (on_snd (ReadBuf_parse_as_array n f) (h, p)))) \<le> rb_read_off p + n"
    using p ReadBuf_skip_inv [OF p, of n]
    by (cases "n \<le> rb_left p")
       (simp_all add: on_snd_def ReadBuf_array_ok ReadBuf_array_short ReadBuf_skip_def)
qed

lemma reads_u8 [reads_rules]: "reads_safely 1 (on_snd ReadBuf_le_u8)"
  using reads_array [of 1 hd] by (auto simp: reads_safely_def on_snd_def ReadBuf_le_u8_array)

lemma reads_u16 [reads_rules]: "reads_safely 2 (on_snd ReadBuf_le_u16)"
  unfolding ReadBuf_int_defs by (rule reads_array)

lemma reads_u32 [reads_rules]: "reads_safely 4 (on_snd ReadBuf_le_u32)"
  unfolding ReadBuf_int_defs by (rule reads_array)

lemma reads_u64 [reads_rules]: "reads_safely 8 (on_snd ReadBuf_le_u64)"
  unfolding ReadBuf_int_defs by (rule reads_array)

lemma reads_0 [reads_rules]:
  "reads_safely 0 (on_fst (sr_modify g))" "reads_safely 0 (on_fst sr_get)"
  "reads_safely 0 (sr_return x)" "reads_safely 0 (sr_err e)" "reads_safely 0 (sr_ok_or e v)"
  by (auto simp: reads_safely_def sr_simps split: option.splits)

lemma reads_mono: "reads_safely n m \<Longrightarrow> n \<le> k \<Longrightarrow> reads_safely k m"
  unfolding reads_safely_def by (meson add_left_mono order_trans)

lemma reads_if: "reads_safely n m \<Longrightarrow> reads_safely k m' \<Longrightarrow> reads_safely (max n k) (if b then m else m')"
  using reads_mono [of n m "max n k"] reads_mono [of k m' "max n k"] by simp

subsection \<open>Properties\<close>

text \<open>
  Claim C40. A write buffer that starts empty never panics and keeps \<open>start \<le> end \<le> size \<le>
  length\<close>, whatever sequence of operations its clients run on it and however many of them fail
  for lack of space; \<^verbatim>\<open>rewind_tail_to\<close> and \<^verbatim>\<open>forward_tail_by\<close> need an argument in range, because
  they do not check it.
\<close>

theorem write_buf_run_safe:
  assumes "wb_run_allowed ops (WriteBuf_new buf)"
  shows "WriteBuf_inv (snd (wb_run ops (WriteBuf_new buf))) \<and>
    Panic \<notin> set (fst (wb_run ops (WriteBuf_new buf)))"
  using wb_run_safe [OF WriteBuf_new_inv assms] .

theorem write_buf_run_safe_witness:
  "fst (wb_run [Wb_reserve 2, Wb_append [1, 2, 3], Wb_prepend [9], Wb_append [4, 5], Wb_rewind 4]
     (WriteBuf_new [0, 0, 0, 0, 0, 0])) = [Ok (), Ok (), Ok (), Err NoSpace, Ok ()] \<and>
   WriteBuf_inv (snd (wb_run [Wb_reserve 2, Wb_append [1, 2, 3], Wb_prepend [9], Wb_append [4, 5],
     Wb_rewind 4] (WriteBuf_new [0, 0, 0, 0, 0, 0])))"
proof -
  let ?ops = "[Wb_reserve 2, Wb_append [1, 2, 3], Wb_prepend [9], Wb_append [4, 5], Wb_rewind 4]"
  let ?w = "WriteBuf_new [0, 0, 0, 0, 0, 0]"
  have a: "wb_run_allowed ?ops ?w" by code_simp
  have "fst (wb_run ?ops ?w) = [Ok (), Ok (), Ok (), Err NoSpace, Ok ()]" by code_simp
  with write_buf_run_safe [OF a] show ?thesis by simp
qed

text \<open>
  Claim C37. Headroom works: a packet built by reserving space, appending the payload and prepending the
  header is the header followed by the payload, for every header that fits the reserved space
  and every payload that fits the rest.
\<close>

theorem write_buf_headroom:
  assumes "reserve + length payload \<le> length buf" and "length hdr \<le> reserve"
  shows "\<exists>w. sr_seq [WriteBuf_reserve reserve, WriteBuf_append payload, WriteBuf_prepend hdr]
       (WriteBuf_new buf) = (Ok (), w) \<and> WriteBuf_as_slice w = Ok (hdr @ payload) \<and>
       wb_start w = reserve - length hdr"
proof -
  let ?w0 = "(WriteBuf_new buf)\<lparr>wb_start := reserve, wb_end := reserve\<rparr>"
  have r: "WriteBuf_reserve reserve (WriteBuf_new buf) = (Ok (), ?w0)"
    using assms by (simp add: WriteBuf_reserve_def WriteBuf_new_def WriteBuf_new_with_def)
  have i0: "WriteBuf_inv ?w0" "WriteBuf_view ?w0 = []" "length payload \<le> WriteBuf_room ?w0"
    using assms by (simp_all add: WriteBuf_inv_def WriteBuf_view_def WriteBuf_room_def WriteBuf_new_def
        WriteBuf_new_with_def)
  define w1 where "w1 = ?w0\<lparr>wb_buf := copy_into (wb_buf ?w0) (wb_end ?w0) payload,
      wb_end := wb_end ?w0 + length payload\<rparr>"
  have a: "WriteBuf_append payload ?w0 = (Ok (), w1)"
    unfolding w1_def by (rule WriteBuf_append_ok [OF i0(1,3)])
  have i1: "WriteBuf_inv w1" "WriteBuf_view w1 = payload" "wb_start w1 = reserve"
    using WriteBuf_append_keeps [OF i0(1,3) w1_def] i0(2) by (simp_all add: w1_def)
  with assms(2) have le: "length hdr \<le> wb_start w1" by simp
  have p: "WriteBuf_prepend hdr w1 = (Ok (), w1\<lparr>wb_buf := copy_into (wb_buf w1) (wb_start w1 - length hdr) hdr,
               wb_start := wb_start w1 - length hdr\<rparr>)" (is "_ = (_, ?w2)")
    by (rule WriteBuf_prepend_ok [OF i1(1) le])
  have i2: "WriteBuf_inv ?w2" "WriteBuf_view ?w2 = hdr @ payload"
    using WriteBuf_prepend_keeps [OF i1(1) le refl] i1(2) by simp_all
  have "sr_seq [WriteBuf_reserve reserve, WriteBuf_append payload, WriteBuf_prepend hdr]
      (WriteBuf_new buf) = (Ok (), ?w2)"
    by (simp add: sr_bind_def sr_return_def r a p)
  then show ?thesis using WriteBuf_as_slice_view [OF i2(1)] i2(2) i1(3) by simp
qed

theorem write_buf_headroom_witness:
  "\<exists>w. sr_seq [WriteBuf_reserve 4, WriteBuf_append [1, 2], WriteBuf_prepend [7, 8, 9]]
     (WriteBuf_new (replicate 8 0)) = (Ok (), w) \<and> WriteBuf_as_slice w = Ok [7, 8, 9, 1, 2]"
  using write_buf_headroom [of 4 "[1, 2]" "replicate 8 0" "[7, 8, 9]"] by auto

end
