(* ===== verification/Ring_Buf.thy ===== *)
theory Ring_Buf
  imports Prelude
begin

section \<open>The ring buffer\<close>

text \<open>
  \<^verbatim>\<open>utils/storage/ringbuf.rs\<close>: a byte queue of capacity \<open>N\<close> in a circular array, which drops its
  oldest bytes when new ones do not fit. The array is allocated by the first push, so an unused
  buffer has an empty array. The loops of \<^verbatim>\<open>push\<close> and \<^verbatim>\<open>pop\<close> are \<open>partial_function\<close>s: with
  \<open>N = 0\<close> and data to push the loop of the code does not end, and the model returns \<open>None\<close>.
  The abstract specification is a plain list: pushing keeps the last \<open>N\<close> bytes of the
  concatenation, popping removes a prefix (locale \<open>byte_queue\<close>).
\<close>

record RingBuf =
  rg_buf :: bytes
  rg_start :: nat
  rg_end :: nat
  rg_non_empty :: bool

definition RingBuf_new :: RingBuf where
  "RingBuf_new = \<lparr>rg_buf = [], rg_start = 0, rg_end = 0, rg_non_empty = False\<rparr>"

text \<open>\<^verbatim>\<open>Vec::resize_default(N)\<close> on a vector of capacity \<open>N\<close>.\<close>

definition resize_default :: "nat \<Rightarrow> bytes \<Rightarrow> bytes" where
  "resize_default n xs = take n xs @ replicate (n - length xs) 0"

definition RingBuf_wrap :: "RingBuf \<Rightarrow> RingBuf" where
  "RingBuf_wrap q = q
     \<lparr>rg_start := (if rg_start q = length (rg_buf q) then 0 else rg_start q),
      rg_end := (if rg_end q = length (rg_buf q) then 0 else rg_end q)\<rparr>"

definition RingBuf_len :: "RingBuf \<Rightarrow> nat" where
  "RingBuf_len q =
     (if \<not> rg_non_empty q then 0
      else if rg_start q < rg_end q then rg_end q - rg_start q
      else length (rg_buf q) + rg_end q - rg_start q)"

definition RingBuf_free :: "nat \<Rightarrow> RingBuf \<Rightarrow> nat" where
  "RingBuf_free N q = N - RingBuf_len q"

definition RingBuf_is_full :: "RingBuf \<Rightarrow> bool" where
  "RingBuf_is_full q \<longleftrightarrow> rg_start q = rg_end q \<and> rg_non_empty q"

definition RingBuf_is_empty :: "RingBuf \<Rightarrow> bool" where
  "RingBuf_is_empty q \<longleftrightarrow> \<not> rg_non_empty q"

definition RingBuf_clear :: "RingBuf \<Rightarrow> RingBuf" where
  "RingBuf_clear q = q\<lparr>rg_start := 0, rg_end := 0, rg_non_empty := False\<rparr>"

text \<open>The body of the loop of \<^verbatim>\<open>push\<close>, for the bytes it copies in this iteration.\<close>

definition RingBuf_push_chunk :: "bytes \<Rightarrow> RingBuf \<Rightarrow> RingBuf" where
  "RingBuf_push_chunk bs q =
     (let len = length bs;
          q1 = q\<lparr>rg_buf := copy_into (rg_buf q) (rg_end q) bs\<rparr>;
          q2 = (if rg_non_empty q \<and> rg_start q \<ge> rg_end q \<and> rg_start q < rg_end q + len
                then q1\<lparr>rg_start := rg_end q + len\<rparr> else q1);
          q3 = RingBuf_wrap (q2\<lparr>rg_end := rg_end q + len\<rparr>)
      in q3\<lparr>rg_non_empty := True\<rparr>)"

partial_function (option) RingBuf_push_loop ::
    "bytes \<Rightarrow> nat \<Rightarrow> RingBuf \<Rightarrow> (unit res \<times> RingBuf) option" where
  "RingBuf_push_loop data off q =
     (if off < length data then
        (if length (rg_buf q) < rg_end q then Some (Panic, q)
         else
           (let len = min (length (rg_buf q) - rg_end q) (length data - off)
            in RingBuf_push_loop data (off + len)
                 (RingBuf_push_chunk (slice_of data off (off + len)) q)))
      else Some (Ok (), q))"

definition RingBuf_push :: "nat \<Rightarrow> bytes \<Rightarrow> RingBuf \<Rightarrow> (nat res \<times> RingBuf) option" where
  "RingBuf_push N data q =
     (case RingBuf_push_loop data 0 (q\<lparr>rg_buf := resize_default N (rg_buf q)\<rparr>) of
        None \<Rightarrow> None
      | Some (r, q') \<Rightarrow>
          Some (case r of Ok _ \<Rightarrow> Ok (RingBuf_len q') | Err e \<Rightarrow> Err e | Panic \<Rightarrow> Panic, q'))"

definition RingBuf_push_byte :: "nat \<Rightarrow> u8 \<Rightarrow> (RingBuf, nat) sr" where
  "RingBuf_push_byte N b = (\<lambda>q.
     let q0 = q\<lparr>rg_buf := resize_default N (rg_buf q)\<rparr> in
     if rg_end q0 < length (rg_buf q0) then
       let q1 = q0\<lparr>rg_buf := (rg_buf q0)[rg_end q0 := b]\<rparr>;
           q2 = (if rg_non_empty q1 \<and> rg_start q1 = rg_end q1
                 then q1\<lparr>rg_start := rg_end q1 + 1\<rparr> else q1);
           q3 = (RingBuf_wrap (q2\<lparr>rg_end := rg_end q2 + 1\<rparr>))\<lparr>rg_non_empty := True\<rparr>
       in (Ok (RingBuf_len q3), q3)
     else (Panic, q0))"

text \<open>\<^verbatim>\<open>pop\<close> copies into the caller's buffer, which the model threads through as \<open>out\<close>.\<close>

partial_function (option) RingBuf_pop_loop ::
    "nat \<Rightarrow> bytes \<Rightarrow> RingBuf \<Rightarrow> (nat res \<times> bytes \<times> RingBuf) option" where
  "RingBuf_pop_loop off out q =
     (if off < length out \<and> rg_non_empty q then
        (let top = (if rg_start q < rg_end q then rg_end q else length (rg_buf q)) in
         if top < rg_start q \<or> length (rg_buf q) < top then Some (Panic, out, q)
         else
           (let len = min (top - rg_start q) (length out - off);
                out' = copy_into out off (slice_of (rg_buf q) (rg_start q) (rg_start q + len));
                q1 = RingBuf_wrap (q\<lparr>rg_start := rg_start q + len\<rparr>);
                q2 = (if rg_start q1 = rg_end q1 then q1\<lparr>rg_non_empty := False\<rparr> else q1)
            in RingBuf_pop_loop (off + len) out' q2))
      else Some (Ok off, out, q))"

definition RingBuf_pop :: "bytes \<Rightarrow> RingBuf \<Rightarrow> (nat res \<times> bytes \<times> RingBuf) option" where
  "RingBuf_pop out q = RingBuf_pop_loop 0 out q"

definition RingBuf_pop_byte :: "RingBuf \<Rightarrow> (u8 option res \<times> RingBuf) option" where
  "RingBuf_pop_byte q =
     (case RingBuf_pop [0] q of
        None \<Rightarrow> None
      | Some (r, out, q') \<Rightarrow>
          Some (case r of Ok n \<Rightarrow> Ok (if n = 1 then Some (hd out) else None)
                | Err e \<Rightarrow> Err e | Panic \<Rightarrow> Panic, q'))"

subsection \<open>Invariant and abstraction\<close>

definition RingBuf_inv :: "nat \<Rightarrow> RingBuf \<Rightarrow> bool" where
  "RingBuf_inv N q \<longleftrightarrow> 0 < N \<and>
     (rg_buf q = [] \<and> rg_start q = 0 \<and> rg_end q = 0 \<and> \<not> rg_non_empty q \<or>
      length (rg_buf q) = N \<and> rg_start q < N \<and> rg_end q < N \<and>
        (\<not> rg_non_empty q \<longrightarrow> rg_start q = rg_end q))"

definition RingBuf_list :: "RingBuf \<Rightarrow> bytes" where
  "RingBuf_list q =
     (if \<not> rg_non_empty q then []
      else if rg_start q < rg_end q then slice_of (rg_buf q) (rg_start q) (rg_end q)
      else drop (rg_start q) (rg_buf q) @ take (rg_end q) (rg_buf q))"

text \<open>The allocated buffer: what the invariant says once the array has its full length.\<close>

definition RingBuf_alloc :: "nat \<Rightarrow> RingBuf \<Rightarrow> bool" where
  "RingBuf_alloc N q \<longleftrightarrow> length (rg_buf q) = N \<and> rg_start q < N \<and> rg_end q < N \<and>
     (\<not> rg_non_empty q \<longrightarrow> rg_start q = rg_end q)"

lemma RingBuf_alloc_inv: "RingBuf_alloc N q \<Longrightarrow> RingBuf_inv N q"
  by (auto simp: RingBuf_alloc_def RingBuf_inv_def)

lemma RingBuf_non_empty_alloc: "RingBuf_inv N q \<Longrightarrow> rg_non_empty q \<Longrightarrow> RingBuf_alloc N q"
  by (auto simp: RingBuf_alloc_def RingBuf_inv_def)

lemma RingBuf_resize_alloc:
  "RingBuf_inv N q \<Longrightarrow> RingBuf_alloc N (q\<lparr>rg_buf := resize_default N (rg_buf q)\<rparr>) \<and>
     RingBuf_list (q\<lparr>rg_buf := resize_default N (rg_buf q)\<rparr>) = RingBuf_list q"
  by (auto simp: RingBuf_inv_def RingBuf_alloc_def resize_default_def RingBuf_list_def)

lemma RingBuf_len_list: "RingBuf_inv N q \<Longrightarrow> RingBuf_len q = length (RingBuf_list q)"
  by (auto simp: RingBuf_inv_def RingBuf_len_def RingBuf_list_def)

lemma RingBuf_list_bound: "RingBuf_inv N q \<Longrightarrow> length (RingBuf_list q) \<le> N"
  by (auto simp: RingBuf_inv_def RingBuf_list_def)

lemma RingBuf_non_empty_list: "RingBuf_inv N q \<Longrightarrow> rg_non_empty q \<longleftrightarrow> RingBuf_list q \<noteq> []"
  by (auto simp: RingBuf_inv_def RingBuf_list_def slice_of_def)

lemma RingBuf_full_list: "RingBuf_inv N q \<Longrightarrow> RingBuf_is_full q \<longleftrightarrow> length (RingBuf_list q) = N"
  by (auto simp: RingBuf_inv_def RingBuf_list_def RingBuf_is_full_def)

subsection \<open>Pushing\<close>

lemma RingBuf_chunk_alloc:
  "RingBuf_alloc N q \<Longrightarrow> 0 < length bs \<Longrightarrow> rg_end q + length bs \<le> N \<Longrightarrow>
   RingBuf_alloc N (RingBuf_push_chunk bs q)"
  by (auto simp: RingBuf_alloc_def RingBuf_push_chunk_def RingBuf_wrap_def Let_def)

lemma RingBuf_chunk_list:
  assumes a: "RingBuf_alloc N q" and bs: "0 < length bs" "rg_end q + length bs \<le> N"
  shows "RingBuf_list (RingBuf_push_chunk bs q) = last_n N (RingBuf_list q @ bs)"
proof -
  let ?s = "rg_start q" and ?e = "rg_end q" and ?n = "length bs" and ?b = "rg_buf q"
  from a have l: "length ?b = N" and s: "?s < N" and e: "?e < N" by (simp_all add: RingBuf_alloc_def)
  consider (empty) "\<not> rg_non_empty q" "?s = ?e" | (lin) "rg_non_empty q" "?s < ?e"
    | (over) "rg_non_empty q" "?e \<le> ?s" "?s < ?e + ?n"
    | (room) "rg_non_empty q" "?e \<le> ?s" "?e + ?n \<le> ?s"
    using a unfolding RingBuf_alloc_def by linarith
  then show ?thesis
  proof cases
    case empty
    then show ?thesis using l bs
      by (auto simp: RingBuf_push_chunk_def RingBuf_wrap_def RingBuf_list_def copy_into_def
          slice_of_def Let_def)
  next
    case lin
    then have "length (slice_of ?b ?s ?e @ bs) \<le> N" using l bs e by simp
    with lin show ?thesis using l bs
      by (auto simp: RingBuf_push_chunk_def RingBuf_wrap_def RingBuf_list_def copy_into_def
          slice_of_def Let_def drop_take)
  next
    case over
    then have "last_n N (RingBuf_list q @ bs) = drop (?e + ?n) ?b @ take ?e ?b @ bs"
      using l bs s by (auto simp: RingBuf_list_def last_n_def)
    with over show ?thesis using l bs
      by (auto simp: RingBuf_push_chunk_def RingBuf_wrap_def RingBuf_list_def copy_into_def Let_def)
  next
    case room
    then have "length (RingBuf_list q @ bs) \<le> N" using l bs s by (simp add: RingBuf_list_def)
    with room show ?thesis using l bs s
      by (auto simp: RingBuf_push_chunk_def RingBuf_wrap_def RingBuf_list_def copy_into_def Let_def)
  qed
qed

lemma RingBuf_push_loop_spec:
  "RingBuf_alloc N q \<Longrightarrow> off \<le> length data \<Longrightarrow>
   \<exists>q'. RingBuf_push_loop data off q = Some (Ok (), q') \<and> RingBuf_alloc N q' \<and>
        RingBuf_list q' = last_n N (RingBuf_list q @ drop off data)"
proof (induction "length data - off" arbitrary: off q rule: less_induct)
  case less
  note a = less.prems(1)
  show ?case
  proof (cases "off < length data")
    case False
    with less.prems have "length (RingBuf_list q @ drop off data) \<le> N"
      using RingBuf_list_bound [OF RingBuf_alloc_inv [OF a]] by simp
    with False a less.prems show ?thesis by (simp add: RingBuf_push_loop.simps)
  next
    case True
    define len where "len = min (length (rg_buf q) - rg_end q) (length data - off)"
    define bs where "bs = slice_of data off (off + len)"
    from a True have len: "0 < len" "off + len \<le> length data" "rg_end q + len \<le> N"
      "rg_end q < length (rg_buf q)"
      by (auto simp: len_def RingBuf_alloc_def)
    then have lbs: "length bs = len" by (simp add: bs_def)
    have "data = take off data @ bs @ drop (off + len) data" using len
      by (simp add: bs_def slice_of_def) (metis append_take_drop_id drop_drop add.commute)
    then have split: "drop off data = bs @ drop (off + len) data"
      using True by (metis append_eq_conv_conj length_take less_imp_le min.absorb2)
    have "RingBuf_alloc N (RingBuf_push_chunk bs q)"
      by (rule RingBuf_chunk_alloc [OF a]) (use len lbs in auto)
    moreover have "length data - (off + len) < length data - off" using len by linarith
    ultimately obtain q' where
      q': "RingBuf_push_loop data (off + len) (RingBuf_push_chunk bs q) = Some (Ok (), q')"
        "RingBuf_alloc N q'"
        "RingBuf_list q' = last_n N (RingBuf_list (RingBuf_push_chunk bs q) @ drop (off + len) data)"
      using less.hyps len(2) by blast
    then have "RingBuf_list q' = last_n N (RingBuf_list q @ drop off data)"
      using RingBuf_chunk_list [OF a, of bs] len lbs by (simp add: last_n_append_last_n split)
    moreover have "RingBuf_push_loop data off q = Some (Ok (), q')"
      using True len q'(1) by (subst RingBuf_push_loop.simps) (simp add: Let_def len_def bs_def)
    ultimately show ?thesis using q'(2) by blast
  qed
qed

lemma RingBuf_push_spec:
  assumes "RingBuf_inv N q"
  shows "\<exists>q'. RingBuf_push N data q = Some (Ok (length (RingBuf_list q')), q') \<and>
     RingBuf_inv N q' \<and> RingBuf_list q' = last_n N (RingBuf_list q @ data)"
proof -
  from RingBuf_resize_alloc [OF assms]
    RingBuf_push_loop_spec [of N "q\<lparr>rg_buf := resize_default N (rg_buf q)\<rparr>" 0 data]
  obtain q' where
    "RingBuf_push_loop data 0 (q\<lparr>rg_buf := resize_default N (rg_buf q)\<rparr>) = Some (Ok (), q')"
    "RingBuf_alloc N q'" "RingBuf_list q' = last_n N (RingBuf_list q @ data)"
    by auto
  then show ?thesis
    using RingBuf_len_list [of N q'] by (auto simp: RingBuf_push_def RingBuf_alloc_inv)
qed

lemma RingBuf_push_byte_chunk:
  assumes q0: "q0 = q\<lparr>rg_buf := resize_default N (rg_buf q)\<rparr>" and e: "rg_end q0 < length (rg_buf q0)"
  shows "RingBuf_push_byte N b q = (Ok (RingBuf_len (RingBuf_push_chunk [b] q0)), RingBuf_push_chunk [b] q0)"
proof -
  have u: "(rg_buf q0)[rg_end q0 := b] = copy_into (rg_buf q0) (rg_end q0) [b]"
    using e by (simp add: copy_into_def upd_conv_take_nth_drop)
  have c: "rg_start q0 \<ge> rg_end q0 \<and> rg_start q0 < rg_end q0 + 1 \<longleftrightarrow> rg_start q0 = rg_end q0"
    by auto
  show ?thesis unfolding RingBuf_push_byte_def RingBuf_push_chunk_def q0 [symmetric] Let_def u
    using e c by (cases "rg_non_empty q0"; cases "rg_start q0 = rg_end q0") auto
qed

lemma RingBuf_push_byte_spec:
  assumes "RingBuf_inv N q"
  shows "\<exists>q'. RingBuf_push_byte N b q = (Ok (length (RingBuf_list q')), q') \<and>
     RingBuf_inv N q' \<and> RingBuf_list q' = last_n N (RingBuf_list q @ [b])"
proof -
  define q0 where "q0 = q\<lparr>rg_buf := resize_default N (rg_buf q)\<rparr>"
  have a: "RingBuf_alloc N q0" "RingBuf_list q0 = RingBuf_list q"
    using RingBuf_resize_alloc [OF assms] by (auto simp: q0_def)
  then have e: "rg_end q0 < length (rg_buf q0)" "rg_end q0 + length [b] \<le> N"
    by (auto simp: RingBuf_alloc_def)
  then have c: "RingBuf_inv N (RingBuf_push_chunk [b] q0)"
    using RingBuf_chunk_alloc [OF a(1), of "[b]"] by (simp add: RingBuf_alloc_inv)
  show ?thesis
    using RingBuf_push_byte_chunk [OF q0_def e(1), of b] RingBuf_len_list [OF c] c
      RingBuf_chunk_list [OF a(1) _ e(2)] a(2) by auto
qed

subsection \<open>Popping\<close>

definition RingBuf_drop :: "nat \<Rightarrow> RingBuf \<Rightarrow> RingBuf" where
  "RingBuf_drop len q =
     (let q1 = RingBuf_wrap (q\<lparr>rg_start := rg_start q + len\<rparr>)
      in if rg_start q1 = rg_end q1 then q1\<lparr>rg_non_empty := False\<rparr> else q1)"

definition RingBuf_top :: "RingBuf \<Rightarrow> nat" where
  "RingBuf_top q = (if rg_start q < rg_end q then rg_end q else length (rg_buf q))"

lemma RingBuf_drop_spec:
  assumes "RingBuf_alloc N q" and "rg_non_empty q" and "0 < len"
    and "rg_start q + len \<le> RingBuf_top q"
  shows "RingBuf_alloc N (RingBuf_drop len q)"
    and "RingBuf_list (RingBuf_drop len q) = drop len (RingBuf_list q)"
    and "slice_of (rg_buf q) (rg_start q) (rg_start q + len) = take len (RingBuf_list q)"
  using assms
  by (auto simp: RingBuf_alloc_def RingBuf_drop_def RingBuf_wrap_def RingBuf_top_def
      RingBuf_list_def Let_def slice_of_def drop_take add.commute min_def split: if_splits)

lemma RingBuf_pop_loop_step:
  assumes "RingBuf_alloc N q" and "off < length out" and "rg_non_empty q"
    and "len = min (RingBuf_top q - rg_start q) (length out - off)"
  shows "RingBuf_pop_loop off out q =
    RingBuf_pop_loop (off + len) (copy_into out off (take len (RingBuf_list q))) (RingBuf_drop len q)"
    and "0 < len" and "rg_start q + len \<le> RingBuf_top q"
proof -
  show pos: "0 < len" and le: "rg_start q + len \<le> RingBuf_top q"
    using assms by (auto simp: RingBuf_alloc_def RingBuf_top_def)
  have "slice_of (rg_buf q) (rg_start q) (rg_start q + len) = take len (RingBuf_list q)"
    using assms pos le by (intro RingBuf_drop_spec(3))
  moreover have "\<not> (RingBuf_top q < rg_start q \<or> length (rg_buf q) < RingBuf_top q)"
    using assms(1) by (auto simp: RingBuf_alloc_def RingBuf_top_def)
  ultimately show "RingBuf_pop_loop off out q =
    RingBuf_pop_loop (off + len) (copy_into out off (take len (RingBuf_list q))) (RingBuf_drop len q)"
    using assms(2,3,4) by (subst RingBuf_pop_loop.simps)
      (simp add: Let_def RingBuf_top_def [symmetric] RingBuf_drop_def)
qed

lemma RingBuf_pop_loop_spec:
  "RingBuf_inv N q \<Longrightarrow> off \<le> length out \<Longrightarrow>
   \<exists>q'. RingBuf_pop_loop off out q =
          Some (Ok (off + min (length out - off) (length (RingBuf_list q))),
                copy_into out off (take (length out - off) (RingBuf_list q)), q') \<and>
        RingBuf_inv N q' \<and> RingBuf_list q' = drop (length out - off) (RingBuf_list q)"
proof (induction "length out - off" arbitrary: off out q rule: less_induct)
  case less
  show ?case
  proof (cases "off < length out \<and> rg_non_empty q")
    case False
    then have "off = length out \<or> RingBuf_list q = []"
      using less.prems by (auto simp: RingBuf_list_def)
    with False less.prems show ?thesis
      by (subst RingBuf_pop_loop.simps) (auto simp: copy_into_def)
  next
    case True
    then have a: "RingBuf_alloc N q" using less.prems RingBuf_non_empty_alloc by blast
    define len where "len = min (RingBuf_top q - rg_start q) (length out - off)"
    note st = RingBuf_pop_loop_step [OF a _ _ len_def]
    let ?q = "RingBuf_drop len q" and ?out = "copy_into out off (take len (RingBuf_list q))"
    have len: "0 < len" "off + len \<le> length out" "rg_start q + len \<le> RingBuf_top q"
      using st(2,3) True by (auto simp: len_def)
    have d: "RingBuf_alloc N ?q" "RingBuf_list ?q = drop len (RingBuf_list q)"
      using RingBuf_drop_spec [OF a _ len(1,3)] True by auto
    have ll: "len \<le> length (RingBuf_list q)"
      using True a len by (auto simp: RingBuf_list_def RingBuf_top_def RingBuf_alloc_def)
    then have lout: "length ?out = length out" using len by simp
    have dec: "length ?out - (off + len) < length out - off" using len lout by linarith
    obtain q' where q': "RingBuf_pop_loop (off + len) ?out ?q =
          Some (Ok (off + len + min (length out - (off + len)) (length (RingBuf_list ?q))),
                copy_into ?out (off + len) (take (length out - (off + len)) (RingBuf_list ?q)), q')"
        "RingBuf_inv N q'" "RingBuf_list q' = drop (length out - (off + len)) (RingBuf_list ?q)"
      using less.hyps [OF dec RingBuf_alloc_inv [OF d(1)]] len lout by auto
    have t: "take (length out - off) (RingBuf_list q) =
        take len (RingBuf_list q) @ take (length out - (off + len)) (drop len (RingBuf_list q))"
      using len ll by (simp add: take_add [symmetric])
    have "copy_into ?out (off + len) (take (length out - (off + len)) (RingBuf_list ?q)) =
        copy_into out off (take (length out - off) (RingBuf_list q))"
      using len ll unfolding t d(2) by (auto simp: copy_into_def min_def ac_simps)
    moreover have "off + len + min (length out - (off + len)) (length (RingBuf_list ?q)) =
        off + min (length out - off) (length (RingBuf_list q))"
      using len ll d(2) by (auto simp: min_def)
    moreover have "RingBuf_list q' = drop (length out - off) (RingBuf_list q)"
      using q'(3) d(2) len by simp
    ultimately show ?thesis using st(1) True q'(1,2) by auto
  qed
qed

lemma RingBuf_pop_spec:
  "RingBuf_inv N q \<Longrightarrow>
   \<exists>q'. RingBuf_pop out q = Some (Ok (min (length out) (length (RingBuf_list q))),
          copy_into out 0 (take (length out) (RingBuf_list q)), q') \<and>
        RingBuf_inv N q' \<and> RingBuf_list q' = drop (length out) (RingBuf_list q)"
  using RingBuf_pop_loop_spec [of N q 0 out] by (simp add: RingBuf_pop_def)

subsection \<open>The queue interface\<close>

text \<open>What clients of the ring buffer rely on: a bounded first-in first-out queue of bytes.\<close>

locale byte_queue =
  fixes push :: "bytes \<Rightarrow> 'q \<Rightarrow> (nat res \<times> 'q) option"
    and pop :: "bytes \<Rightarrow> 'q \<Rightarrow> (nat res \<times> bytes \<times> 'q) option"
    and contents :: "'q \<Rightarrow> bytes"
    and capacity :: nat
    and inv :: "'q \<Rightarrow> bool"
  assumes push_keeps: "inv q \<Longrightarrow> \<exists>q'. push data q = Some (Ok (length (contents q')), q') \<and> inv q' \<and>
      contents q' = last_n capacity (contents q @ data)"
    and pop_takes: "inv q \<Longrightarrow> \<exists>q'. pop out q = Some (Ok (min (length out) (length (contents q))),
      copy_into out 0 (take (length out) (contents q)), q') \<and> inv q' \<and>
      contents q' = drop (length out) (contents q)"
begin

text \<open>While the capacity is not exceeded nothing is lost and the order is kept.\<close>

lemma push_fits:
  "inv q \<Longrightarrow> length (contents q) + length data \<le> capacity \<Longrightarrow>
   \<exists>q'. push data q = Some (Ok (length (contents q) + length data), q') \<and> inv q' \<and>
        contents q' = contents q @ data"
  using push_keeps [of q data] by auto

lemma push_pop_fifo:
  assumes "inv q" and "length (contents q) + length data \<le> capacity"
    and "length out = length (contents q) + length data"
  shows "\<exists>q1 q2. push data q = Some (Ok (length out), q1) \<and>
      pop out q1 = Some (Ok (length out), contents q @ data, q2) \<and> inv q2 \<and> contents q2 = []"
proof -
  from push_fits [OF assms(1,2)] assms(3) obtain q1 where
    q1: "push data q = Some (Ok (length out), q1)" "inv q1" "contents q1 = contents q @ data"
    by auto
  with pop_takes [of q1 out] assms(3) show ?thesis by (auto simp: copy_into_def)
qed

end

interpretation ring: byte_queue "RingBuf_push N" RingBuf_pop RingBuf_list N "RingBuf_inv N" for N
  by unfold_locales (use RingBuf_push_spec RingBuf_pop_spec in auto)

subsection \<open>Properties\<close>

text \<open>
  Claim C25. The ring buffer implements a bounded list. On a buffer of positive capacity that satisfies
  the invariant, \<^verbatim>\<open>push\<close> terminates without a panic, keeps the invariant, leaves the last \<open>N\<close>
  bytes of the old content followed by the data, and returns their number; \<^verbatim>\<open>pop\<close> terminates,
  copies the longest possible prefix of the content to the start of the caller's buffer and
  removes exactly it.
\<close>

theorem ring_buf_refines_list:
  assumes "RingBuf_inv N q"
  shows "(\<exists>q'. RingBuf_push N data q = Some (Ok (length (RingBuf_list q')), q') \<and> RingBuf_inv N q' \<and>
            RingBuf_list q' = last_n N (RingBuf_list q @ data)) \<and>
         (\<exists>q'. RingBuf_pop out q = Some (Ok (min (length out) (length (RingBuf_list q))),
            copy_into out 0 (take (length out) (RingBuf_list q)), q') \<and> RingBuf_inv N q' \<and>
            RingBuf_list q' = drop (length out) (RingBuf_list q))"
  using ring.push_keeps [OF assms] ring.pop_takes [OF assms] by blast

theorem ring_buf_refines_list_witness:
  "\<exists>q. RingBuf_push 4 [0, 1, 2, 3, 4, 5] RingBuf_new = Some (Ok 4, q) \<and> RingBuf_list q = [2, 3, 4, 5]"
proof -
  have "RingBuf_inv 4 RingBuf_new" by (simp add: RingBuf_inv_def RingBuf_new_def)
  moreover have "RingBuf_list RingBuf_new = []" by (simp add: RingBuf_list_def RingBuf_new_def)
  ultimately show ?thesis
    using ring_buf_refines_list [of 4 RingBuf_new "[0, 1, 2, 3, 4, 5]"] by (fastforce simp: last_n_def)
qed

text \<open>
  Claim C32. Nothing is lost while there is room: data that fits the free space is returned by a later
  \<^verbatim>\<open>pop\<close> after everything that was queued before it, byte for byte and in order; and the free
  space, emptiness and fullness tests agree with the queued bytes.
\<close>

theorem ring_buf_fifo:
  assumes "RingBuf_inv N q" and "length data \<le> RingBuf_free N q"
    and "length out = RingBuf_len q + length data"
  shows "(\<exists>q1 q2. RingBuf_push N data q = Some (Ok (length out), q1) \<and>
      RingBuf_pop out q1 = Some (Ok (length out), RingBuf_list q @ data, q2) \<and>
      RingBuf_inv N q2 \<and> RingBuf_is_empty q2) \<and>
    (RingBuf_is_full q \<longleftrightarrow> RingBuf_free N q = 0) \<and> (RingBuf_is_empty q \<longleftrightarrow> RingBuf_len q = 0)"
proof -
  have len: "RingBuf_len q = length (RingBuf_list q)" by (rule RingBuf_len_list [OF assms(1)])
  have le: "length (RingBuf_list q) \<le> N" by (rule RingBuf_list_bound [OF assms(1)])
  have "length (RingBuf_list q) + length data \<le> N" "length out = length (RingBuf_list q) + length data"
    using assms(2,3) len le by (simp_all add: RingBuf_free_def)
  from ring.push_pop_fifo [OF assms(1) this] have
    "\<exists>q1 q2. RingBuf_push N data q = Some (Ok (length out), q1) \<and>
      RingBuf_pop out q1 = Some (Ok (length out), RingBuf_list q @ data, q2) \<and>
      RingBuf_inv N q2 \<and> RingBuf_is_empty q2"
    by (metis RingBuf_is_empty_def RingBuf_non_empty_list)
  then show ?thesis
    using RingBuf_full_list [OF assms(1)] RingBuf_non_empty_list [OF assms(1)] len le
    by (auto simp: RingBuf_free_def RingBuf_is_empty_def)
qed

theorem ring_buf_fifo_witness:
  "\<exists>q1 q2. RingBuf_push 4 [7, 8, 9] RingBuf_new = Some (Ok 3, q1) \<and>
     RingBuf_pop [0, 0, 0] q1 = Some (Ok 3, [7, 8, 9], q2) \<and> RingBuf_is_empty q2"
proof -
  have "RingBuf_inv 4 RingBuf_new" by (simp add: RingBuf_inv_def RingBuf_new_def)
  moreover have "RingBuf_list RingBuf_new = []" "RingBuf_len RingBuf_new = 0"
    by (simp_all add: RingBuf_list_def RingBuf_len_def RingBuf_new_def)
  ultimately show ?thesis
    using ring_buf_fifo [of 4 RingBuf_new "[7, 8, 9]" "[0, 0, 0]"] by (auto simp: RingBuf_free_def)
qed

end
