(* ===== verification/Dedup.thy ===== *)
theory Dedup
  imports Prelude
begin

section \<open>Message counters and duplicate detection\<close>

text \<open>
  \<^verbatim>\<open>transport/dedup.rs\<close>. Every session keeps the highest message counter it has received and a
  bitmap of the sixteen counters below it; group messages keep one such state per sender in a
  small store with least-recently-used eviction. The replay protection is stated through the
  locale \<open>replay_filter\<close>: a filter with a monotone set of counters it will not accept again
  delivers every counter at most once.

  Rust computes \<^verbatim>\<open>(msg_ctr as i32) - (max_ctr as i32)\<close>. In a release build the subtraction wraps,
  which is \<open>sint (msg_ctr - max_ctr)\<close>; in a build with overflow checks it panics when the
  difference of the two signed values leaves the range of \<^verbatim>\<open>i32\<close>. \<open>RxCtrState_post_recv\<close> is the
  wrapping version and \<open>RxCtrState_post_recv_checked\<close> the one with overflow checks.
\<close>

subsection \<open>The interface: filters that deliver at most once\<close>

text \<open>The messages a filter lets through when it is fed a list of them.\<close>

fun delivered :: "('c \<Rightarrow> 's \<Rightarrow> bool \<times> 's) \<Rightarrow> 'c list \<Rightarrow> 's \<Rightarrow> 'c list" where
  "delivered accept [] s = []"
| "delivered accept (c # cs) s =
     (case accept c s of (b, s') \<Rightarrow> (if b then [c] else []) @ delivered accept cs s')"

locale replay_filter =
  fixes accept :: "'c \<Rightarrow> 's \<Rightarrow> bool \<times> 's"
    and seen :: "'s \<Rightarrow> 'c set"
    and inv :: "'s \<Rightarrow> bool"
    and admissible :: "'c \<Rightarrow> bool"
  assumes accept_inv: "inv s \<Longrightarrow> admissible c \<Longrightarrow> inv (snd (accept c s))"
    and accept_mono: "inv s \<Longrightarrow> admissible c \<Longrightarrow> seen s \<subseteq> seen (snd (accept c s))"
    and accept_fresh: "inv s \<Longrightarrow> admissible c \<Longrightarrow> fst (accept c s) \<Longrightarrow> c \<notin> seen s"
    and accept_seen: "inv s \<Longrightarrow> admissible c \<Longrightarrow> fst (accept c s) \<Longrightarrow> c \<in> seen (snd (accept c s))"
begin

lemma delivered_fresh:
  "inv s \<Longrightarrow> \<forall>c \<in> set cs. admissible c \<Longrightarrow>
   distinct (delivered accept cs s) \<and> set (delivered accept cs s) \<inter> seen s = {}"
proof (induction cs arbitrary: s)
  case Nil
  then show ?case by simp
next
  case (Cons c cs)
  obtain b s' where a: "accept c s = (b, s')" by (cases "accept c s")
  with Cons.prems have "inv s'" and mono: "seen s \<subseteq> seen s'"
    using accept_inv [of s c] accept_mono [of s c] by simp_all
  with Cons have IH: "distinct (delivered accept cs s')"
      "set (delivered accept cs s') \<inter> seen s' = {}" by simp_all
  show ?case
  proof (cases b)
    case True
    then have "c \<notin> seen s" "c \<in> seen s'"
      using accept_fresh [of s c] accept_seen [of s c] Cons.prems a by simp_all
    with a True IH mono show ?thesis by auto
  next
    case False
    with a IH mono show ?thesis by auto
  qed
qed

end

subsection \<open>\<^verbatim>\<open>RxCtrState\<close>\<close>

definition MSG_RX_STATE_BITMAP_LEN :: nat where
  "MSG_RX_STATE_BITMAP_LEN = 16"

record RxCtrState =
  rx_max_ctr :: u32
  rx_ctr_bitmap :: u16

definition RxCtrState_new :: "u32 \<Rightarrow> RxCtrState" where
  "RxCtrState_new m = \<lparr>rx_max_ctr = m, rx_ctr_bitmap = 0xffff\<rparr>"

definition RxCtrState_contains :: "nat \<Rightarrow> RxCtrState \<Rightarrow> bool" where
  "RxCtrState_contains i s \<longleftrightarrow> rx_ctr_bitmap s AND push_bit i 1 \<noteq> 0"

definition RxCtrState_insert :: "nat \<Rightarrow> RxCtrState \<Rightarrow> RxCtrState" where
  "RxCtrState_insert i s = s\<lparr>rx_ctr_bitmap := rx_ctr_bitmap s OR push_bit i 1\<rparr>"

text \<open>\<open>idiff\<close> is the wrapped difference read as \<^verbatim>\<open>i32\<close>, \<open>udiff\<close> its \<^verbatim>\<open>unsigned_abs\<close>.\<close>

definition RxCtrState_post_recv :: "u32 \<Rightarrow> bool \<Rightarrow> RxCtrState \<Rightarrow> bool \<times> RxCtrState" where
  "RxCtrState_post_recv msg_ctr is_encrypted s =
     (let idiff = sint (msg_ctr - rx_max_ctr s); udiff = nat \<bar>idiff\<bar> in
      if msg_ctr = rx_max_ctr s then (False, s)
      else if - int MSG_RX_STATE_BITMAP_LEN \<le> idiff \<and> idiff < 0 then
        (let index = udiff - 1 in
         if RxCtrState_contains index s then (False, s)
         else (True, RxCtrState_insert index s))
      else if msg_ctr > rx_max_ctr s then
        (let s1 = s\<lparr>rx_max_ctr := msg_ctr\<rparr> in
         (True,
          if udiff < MSG_RX_STATE_BITMAP_LEN
          then RxCtrState_insert (udiff - 1)
                 (s1\<lparr>rx_ctr_bitmap := push_bit udiff (rx_ctr_bitmap s1)\<rparr>)
          else s1\<lparr>rx_ctr_bitmap := 0xffff\<rparr>))
      else if \<not> is_encrypted then (True, s\<lparr>rx_max_ctr := msg_ctr, rx_ctr_bitmap := 0xffff\<rparr>)
      else (False, s))"

text \<open>With overflow checks the first line panics when the signed difference overflows \<^verbatim>\<open>i32\<close>.\<close>

definition i32_sub_overflows :: "u32 \<Rightarrow> u32 \<Rightarrow> bool" where
  "i32_sub_overflows a b \<longleftrightarrow> sint a - sint b < - (2 ^ 31) \<or> sint a - sint b \<ge> 2 ^ 31"

definition RxCtrState_post_recv_checked :: "u32 \<Rightarrow> bool \<Rightarrow> (RxCtrState, bool) sr" where
  "RxCtrState_post_recv_checked msg_ctr is_encrypted = (\<lambda>s.
     if i32_sub_overflows msg_ctr (rx_max_ctr s) then (Panic, s)
     else (case RxCtrState_post_recv msg_ctr is_encrypted s of (b, s') \<Rightarrow> (Ok b, s')))"

subsubsection \<open>The bitmap\<close>

lemma RxCtrState_contains_bit: "RxCtrState_contains i s \<longleftrightarrow> bit (rx_ctr_bitmap s) i"
  by (simp add: RxCtrState_contains_def bit_iff_and_push_bit_not_eq_0)

lemma bit_full_bitmap: "bit (0xffff :: int) i \<longleftrightarrow> i < 16"
proof -
  have "(0xffff :: int) = mask 16" by (simp add: mask_eq_exp_minus_1)
  then show ?thesis by (simp only: bit_mask_iff possible_bit_int) simp
qed

lemma bit_insert:
  "bit (rx_ctr_bitmap (RxCtrState_insert i s)) j \<longleftrightarrow> bit (rx_ctr_bitmap s) j \<or> (j = i \<and> j < 16)"
  by (auto simp: RxCtrState_insert_def bit_or_iff bit_push_bit_iff bit_exp_iff)

lemma insert_max [simp]: "rx_max_ctr (RxCtrState_insert i s) = rx_max_ctr s"
  by (simp add: RxCtrState_insert_def)

text \<open>The wrapped signed difference in terms of the two counters.\<close>

lemma sint_word_diff:
  "sint (a - b :: u32) = (int (unat a) - int (unat b) + 2 ^ 31) mod 2 ^ 32 - 2 ^ 31"
proof -
  have "sint (a - b) = (uint (a - b) + 2 ^ 31) mod 2 ^ 32 - 2 ^ 31"
    by (simp add: sint_uint signed_take_bit_eq_take_bit_shift take_bit_eq_mod)
  also have "uint (a - b) = (int (unat a) - int (unat b)) mod 2 ^ 32"
    by (simp add: uint_word_ariths)
  finally show ?thesis by (simp add: mod_simps)
qed

lemma wrap_below:
  assumes "(a :: nat) < b" and "b - a \<le> 2 ^ 31"
  shows "(int a - int b + 2 ^ 31) mod 2 ^ 32 - 2 ^ 31 = - int (b - a)"
proof -
  from assms have "0 \<le> int a - int b + 2 ^ 31" "int a - int b + 2 ^ 31 < 2 ^ 32" by auto
  then have "(int a - int b + 2 ^ 31) mod 2 ^ 32 = int a - int b + 2 ^ 31"
    by (rule mod_pos_pos_trivial)
  with assms show ?thesis by simp
qed

lemma wrap_above:
  assumes "(b :: nat) < a" and "a - b < 2 ^ 31"
  shows "(int a - int b + 2 ^ 31) mod 2 ^ 32 - 2 ^ 31 = int (a - b)"
proof -
  from assms have "0 \<le> int a - int b + 2 ^ 31" "int a - int b + 2 ^ 31 < 2 ^ 32" by auto
  then have "(int a - int b + 2 ^ 31) mod 2 ^ 32 = int a - int b + 2 ^ 31"
    by (rule mod_pos_pos_trivial)
  with assms show ?thesis by simp
qed

lemma wrap_far_above:
  assumes "(b :: nat) < a" and "2 ^ 31 \<le> a - b" and "a < 2 ^ 32"
  shows "(int a - int b + 2 ^ 31) mod 2 ^ 32 - 2 ^ 31 = int (a - b) - 2 ^ 32"
proof -
  have "(int a - int b + 2 ^ 31) mod 2 ^ 32 = (int a - int b - 2 ^ 31 + 2 ^ 32) mod 2 ^ 32"
    by (simp add: algebra_simps)
  also have "\<dots> = (int a - int b - 2 ^ 31) mod 2 ^ 32" by (rule mod_add_self2)
  also have "\<dots> = int a - int b - 2 ^ 31"
    using assms by (intro mod_pos_pos_trivial) auto
  finally show ?thesis using assms by simp
qed

lemma wrap_far_below:
  assumes "(a :: nat) < b" and "2 ^ 31 < b - a" and "b < 2 ^ 32"
  shows "(int a - int b + 2 ^ 31) mod 2 ^ 32 - 2 ^ 31 = 2 ^ 32 - int (b - a)"
proof -
  have "(int a - int b + 2 ^ 31) mod 2 ^ 32 = (int a - int b + 2 ^ 31 + 2 ^ 32) mod 2 ^ 32"
    by (rule mod_add_self2 [symmetric])
  also have "\<dots> = int a - int b + 2 ^ 31 + 2 ^ 32"
    using assms by (intro mod_pos_pos_trivial) auto
  finally show ?thesis using assms by simp
qed

lemma unat_u32_bound: "unat (a :: u32) < 2 ^ 32"
  using unsigned_less [of a] by simp

lemma sint_small_u32: "unat (a :: u32) < 2 ^ 31 \<Longrightarrow> sint a = int (unat a)"
  using wrap_above [of 0 "unat a"] sint_word_diff [of a 0] by (cases "a = 0") (auto simp: unat_gt_0)

lemma no_overflow_small:
  assumes "unat a < 2 ^ 31" and "unat b < 2 ^ 31"
  shows "\<not> i32_sub_overflows a b"
proof -
  have "\<not> (int x - int y < - (2 ^ 31) \<or> 2 ^ 31 \<le> int x - int y)" if "x < 2 ^ 31" "y < 2 ^ 31" for x y :: nat
    using that by auto
  from this [OF assms] show ?thesis
    unfolding i32_sub_overflows_def sint_small_u32 [OF assms(1)] sint_small_u32 [OF assms(2)] by blast
qed

text \<open>The case distinction of \<^verbatim>\<open>post_recv\<close> in terms of the counters as numbers.\<close>

lemmas sint_diff_cases =
  wrap_below [where a = "unat a" and b = "unat b" for a b :: u32, folded sint_word_diff]
  wrap_above [where a = "unat a" and b = "unat b" for a b :: u32, folded sint_word_diff]
  wrap_far_above [OF _ _ unat_u32_bound, where b = "unat b" for b :: u32, folded sint_word_diff]
  wrap_far_below [OF _ _ unat_u32_bound, where a = "unat a" for a :: u32, folded sint_word_diff]

subsubsection \<open>The branches of \<^verbatim>\<open>post_recv\<close>\<close>

lemma post_recv_same: "RxCtrState_post_recv (rx_max_ctr s) enc s = (False, s)"
  by (simp add: RxCtrState_post_recv_def)

lemma post_recv_window:
  assumes "sint (c - rx_max_ctr s) = - int k" and "0 < k" and "k \<le> 16"
  shows "RxCtrState_post_recv c enc s =
    (if bit (rx_ctr_bitmap s) (k - 1) then (False, s) else (True, RxCtrState_insert (k - 1) s))"
proof -
  have "c \<noteq> rx_max_ctr s" using assms by auto
  with assms show ?thesis
    by (simp add: RxCtrState_post_recv_def RxCtrState_contains_bit MSG_RX_STATE_BITMAP_LEN_def Let_def)
qed

lemma post_recv_below:
  assumes "unat c < unat (rx_max_ctr s)" and "unat (rx_max_ctr s) - unat c \<le> 16"
  shows "RxCtrState_post_recv c enc s =
    (let i = unat (rx_max_ctr s) - unat c - 1
     in if bit (rx_ctr_bitmap s) i then (False, s) else (True, RxCtrState_insert i s))"
  using post_recv_window [of c s "unat (rx_max_ctr s) - unat c" enc] sint_diff_cases(1) [of c "rx_max_ctr s"]
    assms by (simp add: Let_def)

lemma post_recv_far_below:
  assumes "unat c < unat (rx_max_ctr s)" and "16 < unat (rx_max_ctr s) - unat c"
  shows "RxCtrState_post_recv c enc s =
    (if enc then (False, s) else (True, s\<lparr>rx_max_ctr := c, rx_ctr_bitmap := 0xffff\<rparr>))"
proof -
  let ?m = "rx_max_ctr s"
  have d: "sint (c - ?m) < - 16 \<or> 0 \<le> sint (c - ?m)"
  proof (cases "unat ?m - unat c \<le> 2 ^ 31")
    case True
    show ?thesis using sint_diff_cases(1) [OF assms(1) True] assms by linarith
  next
    case False
    then have "sint (c - ?m) = 2 ^ 32 - int (unat ?m - unat c)"
      using sint_diff_cases(4) [OF assms(1)] by simp
    moreover have "unat ?m - unat c < 2 ^ 32" using unat_u32_bound [of ?m] by linarith
    ultimately show ?thesis by simp
  qed
  have "\<not> ?m < c" "c \<noteq> ?m" using assms(1) by (auto simp: word_less_nat_alt)
  with d show ?thesis
    by (auto simp: RxCtrState_post_recv_def MSG_RX_STATE_BITMAP_LEN_def Let_def)
qed

lemma post_recv_above:
  assumes "unat (rx_max_ctr s) < unat c" and "unat c - unat (rx_max_ctr s) < 2 ^ 32 - 16"
  shows "RxCtrState_post_recv c enc s = (True,
    let k = unat c - unat (rx_max_ctr s) in
    if k < 16 then RxCtrState_insert (k - 1)
                     (s\<lparr>rx_max_ctr := c, rx_ctr_bitmap := push_bit k (rx_ctr_bitmap s)\<rparr>)
    else s\<lparr>rx_max_ctr := c, rx_ctr_bitmap := 0xffff\<rparr>)"
proof -
  let ?m = "rx_max_ctr s"
  have g: "?m < c" "c \<noteq> ?m" using assms(1) by (auto simp: word_less_nat_alt)
  show ?thesis
  proof (cases "unat c - unat ?m < 2 ^ 31")
    case True
    have "sint (c - ?m) = int (unat c - unat ?m)" by (rule sint_diff_cases(2) [OF assms(1) True])
    with g show ?thesis
      by (simp add: RxCtrState_post_recv_def MSG_RX_STATE_BITMAP_LEN_def Let_def)
  next
    case False
    then have e: "sint (c - ?m) = int (unat c - unat ?m) - 2 ^ 32"
      using sint_diff_cases(3) [OF assms(1)] by simp
    with assms(2) have "sint (c - ?m) < - 16" "16 \<le> nat \<bar>sint (c - ?m)\<bar>" by auto
    with g False show ?thesis
      by (simp add: RxCtrState_post_recv_def MSG_RX_STATE_BITMAP_LEN_def Let_def)
  qed
qed

lemma post_recv_wrapped:
  assumes "unat (rx_max_ctr s) < unat c" and "2 ^ 32 - 16 \<le> unat c - unat (rx_max_ctr s)"
  shows "RxCtrState_post_recv c enc s =
    (let i = 2 ^ 32 - (unat c - unat (rx_max_ctr s)) - 1
     in if bit (rx_ctr_bitmap s) i then (False, s) else (True, RxCtrState_insert i s))"
proof -
  let ?k = "2 ^ 32 - (unat c - unat (rx_max_ctr s))"
  have b: "unat c - unat (rx_max_ctr s) < 2 ^ 32" using unat_u32_bound [of c] by linarith
  with assms have "sint (c - rx_max_ctr s) = - int ?k"
    using sint_diff_cases(3) [OF assms(1)] by simp
  from post_recv_window [OF this] assms b show ?thesis by (simp add: Let_def)
qed

lemmas post_recv_cases =
  post_recv_same post_recv_below post_recv_far_below post_recv_above post_recv_wrapped

subsubsection \<open>Replay protection of encrypted sessions\<close>

text \<open>
  The bitmap positions below counter zero must read as received: otherwise a counter near the
  top of the range could enter the window from above. Every operation keeps this.
\<close>

definition RxCtrState_inv :: "RxCtrState \<Rightarrow> bool" where
  "RxCtrState_inv s \<longleftrightarrow> (\<forall>i < 16. unat (rx_max_ctr s) \<le> i \<longrightarrow> bit (rx_ctr_bitmap s) i)"

text \<open>The counters that were received or are too old to be accepted.\<close>

definition RxCtrState_seen :: "RxCtrState \<Rightarrow> u32 set" where
  "RxCtrState_seen s = {x. unat x \<le> unat (rx_max_ctr s) \<and>
     (let k = unat (rx_max_ctr s) - unat x
      in 0 < k \<and> k \<le> 16 \<longrightarrow> bit (rx_ctr_bitmap s) (k - 1))}"

lemma RxCtrState_new_inv [wf_intros]: "RxCtrState_inv (RxCtrState_new m)"
  by (simp add: RxCtrState_inv_def RxCtrState_new_def bit_full_bitmap)

lemma RxCtrState_new_seen: "RxCtrState_seen (RxCtrState_new m) = {x. x \<le> m}"
  by (auto simp: RxCtrState_seen_def RxCtrState_new_def bit_full_bitmap word_le_nat_alt Let_def)

lemma RxCtrState_insert_inv: "RxCtrState_inv s \<Longrightarrow> RxCtrState_inv (RxCtrState_insert i s)"
  by (auto simp: RxCtrState_inv_def bit_insert)

lemma RxCtrState_insert_mono: "RxCtrState_seen s \<subseteq> RxCtrState_seen (RxCtrState_insert i s)"
  by (auto simp: RxCtrState_seen_def bit_insert Let_def)

lemma RxCtrState_full_inv: "RxCtrState_inv (s\<lparr>rx_max_ctr := c, rx_ctr_bitmap := 0xffff\<rparr>)"
  by (simp add: RxCtrState_inv_def bit_full_bitmap)

text \<open>The state after a step forward by \<open>k\<close> below sixteen.\<close>

definition RxCtrState_shifted :: "u32 \<Rightarrow> nat \<Rightarrow> RxCtrState \<Rightarrow> RxCtrState" where
  "RxCtrState_shifted c k s = RxCtrState_insert (k - 1)
     (s\<lparr>rx_max_ctr := c, rx_ctr_bitmap := push_bit k (rx_ctr_bitmap s)\<rparr>)"

lemma bit_shifted:
  "0 < k \<Longrightarrow> k < 16 \<Longrightarrow> j < 16 \<Longrightarrow>
   bit (rx_ctr_bitmap (RxCtrState_shifted c k s)) j \<longleftrightarrow>
     (k \<le> j \<and> bit (rx_ctr_bitmap s) (j - k) \<or> j = k - 1)"
  by (auto simp: RxCtrState_shifted_def bit_insert bit_push_bit_iff)

lemma shifted_max [simp]: "rx_max_ctr (RxCtrState_shifted c k s) = c"
  by (simp add: RxCtrState_shifted_def)

lemma RxCtrState_shifted_keeps:
  assumes inv: "RxCtrState_inv s" and k: "0 < k" "k < 16" and c: "unat c = unat (rx_max_ctr s) + k"
  shows "RxCtrState_inv (RxCtrState_shifted c k s)"
    and "RxCtrState_seen s \<subseteq> RxCtrState_seen (RxCtrState_shifted c k s)"
proof -
  show "RxCtrState_inv (RxCtrState_shifted c k s)"
    unfolding RxCtrState_inv_def using inv k c by (auto simp: bit_shifted RxCtrState_inv_def)
  show "RxCtrState_seen s \<subseteq> RxCtrState_seen (RxCtrState_shifted c k s)"
  proof
    fix x assume x: "x \<in> RxCtrState_seen s"
    define e where "e = unat (rx_max_ctr s) - unat x"
    with x have le: "unat x \<le> unat (rx_max_ctr s)" and
      b: "0 < e \<Longrightarrow> e \<le> 16 \<Longrightarrow> bit (rx_ctr_bitmap s) (e - 1)"
      by (auto simp: RxCtrState_seen_def Let_def)
    have "unat c - unat x = e + k" "unat c - Suc (unat x) = e + k - 1"
      using le c k by (simp_all add: e_def)
    moreover have "e + k - 1 < 16 \<Longrightarrow> bit (rx_ctr_bitmap (RxCtrState_shifted c k s)) (e + k - 1)"
      using b k by (cases "e = 0") (auto simp: bit_shifted)
    ultimately show "x \<in> RxCtrState_seen (RxCtrState_shifted c k s)"
      using le c k by (simp add: RxCtrState_seen_def Let_def)
  qed
qed

lemma RxCtrState_full_mono:
  "unat (rx_max_ctr s) \<le> unat c \<Longrightarrow>
   RxCtrState_seen s \<subseteq> RxCtrState_seen (s\<lparr>rx_max_ctr := c, rx_ctr_bitmap := 0xffff\<rparr>)"
  by (auto simp: RxCtrState_seen_def bit_full_bitmap Let_def)

text \<open>What an encrypted session does with a counter, as a decision on numbers.\<close>

lemma post_recv_encrypted:
  assumes "RxCtrState_inv s"
  shows "RxCtrState_post_recv c True s =
    (let m = unat (rx_max_ctr s); k = unat c - m in
     if c \<in> RxCtrState_seen s \<or> 2 ^ 32 - 16 \<le> k then (False, s)
     else if m < unat c then
       (True, if k < 16 then RxCtrState_shifted c k s
              else s\<lparr>rx_max_ctr := c, rx_ctr_bitmap := 0xffff\<rparr>)
     else (True, RxCtrState_insert (m - unat c - 1) s))"
proof -
  let ?m = "unat (rx_max_ctr s)" and ?c = "unat c"
  consider (same) "c = rx_max_ctr s" | (below) "?c < ?m" "?m - ?c \<le> 16" | (far) "?c < ?m" "16 < ?m - ?c"
    | (above) "?m < ?c" "?c - ?m < 2 ^ 32 - 16" | (wrapped) "?m < ?c" "2 ^ 32 - 16 \<le> ?c - ?m"
    by (metis linorder_less_linear not_le_imp_less word_unat_eq_iff)
  then show ?thesis
  proof cases
    case same
    then show ?thesis by (simp add: post_recv_same RxCtrState_seen_def Let_def)
  next
    case below
    then show ?thesis by (simp add: post_recv_below RxCtrState_seen_def Let_def)
  next
    case far
    then show ?thesis by (simp add: post_recv_far_below RxCtrState_seen_def Let_def)
  next
    case above
    then show ?thesis
      by (simp add: post_recv_above RxCtrState_seen_def RxCtrState_shifted_def Let_def)
  next
    case wrapped
    have i: "2 ^ 32 - (?c - ?m) - 1 < 16" "?m \<le> 2 ^ 32 - (?c - ?m) - 1"
      using wrapped unat_u32_bound [of c] by linarith+
    with assms have "bit (rx_ctr_bitmap s) (2 ^ 32 - (?c - ?m) - 1)"
      by (simp only: RxCtrState_inv_def)
    with wrapped show ?thesis using post_recv_wrapped [OF wrapped, of True] by (simp add: Let_def)
  qed
qed

interpretation rx: replay_filter "\<lambda>c. RxCtrState_post_recv c True" RxCtrState_seen RxCtrState_inv "\<lambda>_. True"
proof unfold_locales
  fix s c assume inv: "RxCtrState_inv s"
  let ?r = "RxCtrState_post_recv c True s"
  have up: "RxCtrState_inv (snd ?r) \<and> RxCtrState_seen s \<subseteq> RxCtrState_seen (snd ?r)"
    using inv RxCtrState_shifted_keeps [OF inv, of "unat c - unat (rx_max_ctr s)" c]
      RxCtrState_full_mono [of s c]
    by (auto simp: post_recv_encrypted Let_def RxCtrState_insert_inv RxCtrState_full_inv
        dest: RxCtrState_insert_mono [THEN subsetD])
  then show "RxCtrState_inv (snd ?r)" "RxCtrState_seen s \<subseteq> RxCtrState_seen (snd ?r)" by auto
  assume "fst ?r"
  then show "c \<notin> RxCtrState_seen s" using inv by (simp add: post_recv_encrypted Let_def split: if_splits)
  from \<open>fst ?r\<close> show "c \<in> RxCtrState_seen (snd ?r)"
    using inv by (auto simp: post_recv_encrypted Let_def RxCtrState_seen_def bit_insert split: if_splits)
qed

subsection \<open>\<^verbatim>\<open>GroupCtrStore\<close>\<close>

definition MAX_GROUP_CTR_ENTRIES :: nat where
  "MAX_GROUP_CTR_ENTRIES = 16"

record GroupCtrEntry =
  ge_fab_idx :: u8
  ge_src_nodeid :: u64
  ge_rx_ctr :: RxCtrState
  ge_last_used :: u32

record GroupCtrStore =
  gs_entries :: "GroupCtrEntry list"
  gs_clock :: u32

definition GroupCtrStore_new :: GroupCtrStore where
  "GroupCtrStore_new = \<lparr>gs_entries = [], gs_clock = 0\<rparr>"

definition GroupCtrStore_post_recv ::
    "u8 \<Rightarrow> u64 \<Rightarrow> u32 \<Rightarrow> GroupCtrStore \<Rightarrow> bool \<times> GroupCtrStore" where
  "GroupCtrStore_post_recv fab_idx src_nodeid msg_ctr st =
     (let clock = gs_clock st + 1; es = gs_entries st in
      case position (\<lambda>e. ge_fab_idx e = fab_idx \<and> ge_src_nodeid e = src_nodeid) es of
        Some i \<Rightarrow>
          (case RxCtrState_post_recv msg_ctr True (ge_rx_ctr (es ! i)) of (b, rx) \<Rightarrow>
             (b, \<lparr>gs_entries = es[i := (es ! i)\<lparr>ge_last_used := clock, ge_rx_ctr := rx\<rparr>],
                  gs_clock = clock\<rparr>))
      | None \<Rightarrow>
          (let new_entry = \<lparr>ge_fab_idx = fab_idx, ge_src_nodeid = src_nodeid,
                            ge_rx_ctr = RxCtrState_new msg_ctr, ge_last_used = clock\<rparr>
           in if length es < MAX_GROUP_CTR_ENTRIES
              then (True, \<lparr>gs_entries = es @ [new_entry], gs_clock = clock\<rparr>)
              else (True, \<lparr>gs_entries = es[min_index ge_last_used es := new_entry],
                           gs_clock = clock\<rparr>)))"

definition ge_key :: "GroupCtrEntry \<Rightarrow> u8 \<times> u64" where
  "ge_key e = (ge_fab_idx e, ge_src_nodeid e)"

definition gs_keys :: "GroupCtrStore \<Rightarrow> (u8 \<times> u64) list" where
  "gs_keys st = map ge_key (gs_entries st)"

definition GroupCtrStore_inv :: "GroupCtrStore \<Rightarrow> bool" where
  "GroupCtrStore_inv st \<longleftrightarrow> length (gs_entries st) \<le> MAX_GROUP_CTR_ENTRIES \<and>
     distinct (gs_keys st) \<and> (\<forall>e \<in> set (gs_entries st). RxCtrState_inv (ge_rx_ctr e))"

lemma GroupCtrStore_new_inv [wf_intros]: "GroupCtrStore_inv GroupCtrStore_new"
  by (simp add: GroupCtrStore_inv_def GroupCtrStore_new_def gs_keys_def)

lemma group_key_match:
  "(\<lambda>e. ge_fab_idx e = f \<and> ge_src_nodeid e = n) = (\<lambda>e. ge_key e = (f, n))"
  by (auto simp: ge_key_def)

text \<open>The three branches: a known sender, a new one with a free slot, a new one that evicts.\<close>

lemma group_post_recv_known:
  assumes "position (\<lambda>e. ge_key e = (f, n)) (gs_entries st) = Some i"
  shows "GroupCtrStore_post_recv f n c st =
    (fst (RxCtrState_post_recv c True (ge_rx_ctr (gs_entries st ! i))),
     \<lparr>gs_entries = (gs_entries st)[i := (gs_entries st ! i)\<lparr>ge_last_used := gs_clock st + 1,
        ge_rx_ctr := snd (RxCtrState_post_recv c True (ge_rx_ctr (gs_entries st ! i)))\<rparr>],
      gs_clock = gs_clock st + 1\<rparr>)"
  using assms by (simp add: GroupCtrStore_post_recv_def group_key_match Let_def split: prod.splits)

definition new_group_entry :: "u8 \<Rightarrow> u64 \<Rightarrow> u32 \<Rightarrow> u32 \<Rightarrow> GroupCtrEntry" where
  "new_group_entry f n c clock =
     \<lparr>ge_fab_idx = f, ge_src_nodeid = n, ge_rx_ctr = RxCtrState_new c, ge_last_used = clock\<rparr>"

lemma ge_key_new [simp]: "ge_key (new_group_entry f n c t) = (f, n)"
  by (simp add: new_group_entry_def ge_key_def)

lemma group_post_recv_new:
  assumes "(f, n) \<notin> set (gs_keys st)"
  shows "GroupCtrStore_post_recv f n c st = (True,
    let e = new_group_entry f n c (gs_clock st + 1); es = gs_entries st in
    \<lparr>gs_entries = (if length es < MAX_GROUP_CTR_ENTRIES then es @ [e]
                   else es[min_index ge_last_used es := e]),
     gs_clock = gs_clock st + 1\<rparr>)"
proof -
  have "position (\<lambda>e. ge_key e = (f, n)) (gs_entries st) = None"
    using assms by (force simp: gs_keys_def position_None)
  then show ?thesis
    by (simp add: GroupCtrStore_post_recv_def group_key_match new_group_entry_def Let_def)
qed

lemma group_known_pos:
  assumes "GroupCtrStore_inv st" and "(f, n) \<in> set (gs_keys st)"
  obtains i where "position (\<lambda>e. ge_key e = (f, n)) (gs_entries st) = Some i"
    and "i < length (gs_entries st)" and "ge_key (gs_entries st ! i) = (f, n)"
proof -
  have "\<exists>e \<in> set (gs_entries st). ge_key e = (f, n)" using assms(2) by (auto simp: gs_keys_def)
  then obtain i where "position (\<lambda>e. ge_key e = (f, n)) (gs_entries st) = Some i"
    by (auto simp: position_Some_ex)
  with position_SomeD that show ?thesis by blast
qed

lemma group_keys_known_update:
  "i < length es \<Longrightarrow> map ge_key (es[i := (es ! i)\<lparr>ge_last_used := t, ge_rx_ctr := r\<rparr>]) = map ge_key es"
  by (simp add: map_update ge_key_def list_update_same_conv)

lemma distinct_update_fresh:
  "distinct xs \<Longrightarrow> y \<notin> set xs \<Longrightarrow> distinct (xs[i := y])"
  by (cases "i < length xs") (auto simp: distinct_list_update list_update_beyond)

lemma group_post_recv_inv:
  assumes inv: "GroupCtrStore_inv st"
  shows "GroupCtrStore_inv (snd (GroupCtrStore_post_recv f n c st))"
proof (cases "(f, n) \<in> set (gs_keys st)")
  case True
  with inv obtain i where i: "position (\<lambda>e. ge_key e = (f, n)) (gs_entries st) = Some i"
    "i < length (gs_entries st)" by (rule group_known_pos)
  then have "RxCtrState_inv (ge_rx_ctr (gs_entries st ! i))"
    using inv by (simp add: GroupCtrStore_inv_def)
  then have rx: "RxCtrState_inv (snd (RxCtrState_post_recv c True (ge_rx_ctr (gs_entries st ! i))))"
    by (rule rx.accept_inv) simp
  from inv i rx show ?thesis
    by (auto simp: group_post_recv_known [OF i(1)] GroupCtrStore_inv_def gs_keys_def
        group_keys_known_update dest!: set_update_subset_insert [THEN subsetD])
next
  case False
  have new: "RxCtrState_inv (ge_rx_ctr (new_group_entry f n c t))" for t
    by (simp add: new_group_entry_def RxCtrState_new_inv)
  from inv False show ?thesis
    by (auto simp: group_post_recv_new GroupCtrStore_inv_def gs_keys_def new map_update Let_def
        distinct_update_fresh dest!: set_update_subset_insert [THEN subsetD])
qed

text \<open>
  While the senders stay within a set of at most sixteen, nothing is evicted and the store is a
  replay filter on the triples of fabric, sender and counter.
\<close>

definition gs_lookup :: "GroupCtrStore \<Rightarrow> u8 \<times> u64 \<rightharpoonup> RxCtrState" where
  "gs_lookup st = map_of (map (\<lambda>e. (ge_key e, ge_rx_ctr e)) (gs_entries st))"

definition gs_seen :: "GroupCtrStore \<Rightarrow> (u8 \<times> u64 \<times> u32) set" where
  "gs_seen st = {(f, n, c). \<exists>r. gs_lookup st (f, n) = Some r \<and> c \<in> RxCtrState_seen r}"

definition gs_accept :: "u8 \<times> u64 \<times> u32 \<Rightarrow> GroupCtrStore \<Rightarrow> bool \<times> GroupCtrStore" where
  "gs_accept m st = (case m of (f, n, c) \<Rightarrow> GroupCtrStore_post_recv f n c st)"

definition gs_within :: "(u8 \<times> u64) list \<Rightarrow> GroupCtrStore \<Rightarrow> bool" where
  "gs_within K st \<longleftrightarrow> GroupCtrStore_inv st \<and> set (gs_keys st) \<subseteq> set K \<and>
     length K \<le> MAX_GROUP_CTR_ENTRIES"

definition gs_of :: "(u8 \<times> u64) list \<Rightarrow> u8 \<times> u64 \<times> u32 \<Rightarrow> bool" where
  "gs_of K m \<longleftrightarrow> (case m of (f, n, c) \<Rightarrow> (f, n) \<in> set K)"

lemma gs_room:
  assumes "gs_within K st" and "k \<in> set K" and "k \<notin> set (gs_keys st)"
  shows "length (gs_entries st) < MAX_GROUP_CTR_ENTRIES"
proof -
  have "length (gs_entries st) = card (set (gs_keys st))"
    using assms(1) distinct_card [of "gs_keys st"]
    by (simp add: gs_within_def GroupCtrStore_inv_def gs_keys_def)
  also have "\<dots> < card (set K)"
    using assms by (intro psubset_card_mono) (auto simp: gs_within_def)
  also have "\<dots> \<le> MAX_GROUP_CTR_ENTRIES"
    using assms(1) card_length [of K] by (simp add: gs_within_def)
  finally show ?thesis .
qed

text \<open>The store as a map from senders to their counter states.\<close>

lemma map_of_update_position:
  "position (\<lambda>e. key e = k) es = Some i \<Longrightarrow> key e' = k \<Longrightarrow>
   map_of (map (\<lambda>e. (key e, val e)) (es[i := e'])) =
     (map_of (map (\<lambda>e. (key e, val e)) es))(k \<mapsto> val e')"
proof (induction es arbitrary: i)
  case Nil
  then show ?case by simp
next
  case (Cons e es)
  then show ?case by (auto simp: fun_eq_iff split: if_splits)
qed

lemma map_of_position:
  "position (\<lambda>e. key e = k) es = Some i \<Longrightarrow>
   map_of (map (\<lambda>e. (key e, val e)) es) k = Some (val (es ! i))"
  by (induction es arbitrary: i) (auto split: if_splits)

lemma gs_lookup_known:
  assumes "position (\<lambda>e. ge_key e = (f, n)) (gs_entries st) = Some i"
  shows "gs_lookup st (f, n) = Some (ge_rx_ctr (gs_entries st ! i))"
    and "gs_lookup (snd (GroupCtrStore_post_recv f n c st)) =
      (gs_lookup st)((f, n) \<mapsto> snd (RxCtrState_post_recv c True (ge_rx_ctr (gs_entries st ! i))))"
proof -
  let ?e = "(gs_entries st ! i)\<lparr>ge_last_used := gs_clock st + 1,
        ge_rx_ctr := snd (RxCtrState_post_recv c True (ge_rx_ctr (gs_entries st ! i)))\<rparr>"
  show "gs_lookup st (f, n) = Some (ge_rx_ctr (gs_entries st ! i))"
    using assms by (simp add: gs_lookup_def map_of_position)
  have "ge_key (gs_entries st ! i) = (f, n)" using position_SomeD [OF assms] by simp
  then have "ge_key ?e = (f, n)" by (simp add: ge_key_def)
  from map_of_update_position [OF assms this, where val = ge_rx_ctr]
  show "gs_lookup (snd (GroupCtrStore_post_recv f n c st)) =
      (gs_lookup st)((f, n) \<mapsto> snd (RxCtrState_post_recv c True (ge_rx_ctr (gs_entries st ! i))))"
    by (simp add: group_post_recv_known [OF assms] gs_lookup_def)
qed

lemma gs_lookup_new:
  assumes "(f, n) \<notin> set (gs_keys st)" and "length (gs_entries st) < MAX_GROUP_CTR_ENTRIES"
  shows "gs_lookup st (f, n) = None"
    and "gs_lookup (snd (GroupCtrStore_post_recv f n c st)) = (gs_lookup st)((f, n) \<mapsto> RxCtrState_new c)"
proof -
  show none: "gs_lookup st (f, n) = None"
    using assms(1) by (auto simp: gs_lookup_def gs_keys_def map_of_eq_None_iff image_image)
  then show "gs_lookup (snd (GroupCtrStore_post_recv f n c st)) = (gs_lookup st)((f, n) \<mapsto> RxCtrState_new c)"
    using assms by (auto simp: group_post_recv_new gs_lookup_def Let_def fun_eq_iff map_add_def
        new_group_entry_def ge_key_def split: option.splits)
qed

lemma gs_keys_post_recv:
  "GroupCtrStore_inv st \<Longrightarrow> set (gs_keys (snd (GroupCtrStore_post_recv f n c st))) \<subseteq> insert (f, n) (set (gs_keys st))"
proof (cases "(f, n) \<in> set (gs_keys st)")
  case True
  assume "GroupCtrStore_inv st"
  from this True obtain i where "position (\<lambda>e. ge_key e = (f, n)) (gs_entries st) = Some i"
    "i < length (gs_entries st)" by (rule group_known_pos)
  then show ?thesis
    by (simp add: group_post_recv_known gs_keys_def group_keys_known_update subset_insertI)
next
  case False
  then show ?thesis
    by (auto simp: group_post_recv_new gs_keys_def Let_def map_update
        dest!: set_update_subset_insert [THEN subsetD])
qed

interpretation gs: replay_filter gs_accept gs_seen "gs_within K" "gs_of K" for K
proof unfold_locales
  fix st m assume w: "gs_within K st" and a: "gs_of K m"
  obtain f n c where m: "m = (f, n, c)" by (cases m)
  have inv: "GroupCtrStore_inv st" using w by (simp add: gs_within_def)
  let ?st = "snd (gs_accept m st)"
  show "gs_within K ?st"
    using w a group_post_recv_inv [OF inv, of f n c] gs_keys_post_recv [OF inv, of f n c]
    by (auto simp: gs_within_def gs_accept_def gs_of_def m)
  have step: "gs_seen st \<subseteq> gs_seen ?st \<and> (fst (gs_accept m st) \<longrightarrow> m \<notin> gs_seen st \<and> m \<in> gs_seen ?st)"
  proof (cases "(f, n) \<in> set (gs_keys st)")
    case True
    with inv obtain i where i: "position (\<lambda>e. ge_key e = (f, n)) (gs_entries st) = Some i"
      "i < length (gs_entries st)" by (rule group_known_pos)
    let ?r = "ge_rx_ctr (gs_entries st ! i)"
    have "RxCtrState_inv ?r" using inv i by (simp add: GroupCtrStore_inv_def)
    note rxs = rx.accept_mono [OF this, of c] rx.accept_fresh [OF this, of c] rx.accept_seen [OF this, of c]
    have look: "gs_lookup ?st = (gs_lookup st)((f, n) \<mapsto> snd (RxCtrState_post_recv c True ?r))"
      by (simp add: m gs_accept_def gs_lookup_known(2) [OF i(1)])
    have acc: "fst (gs_accept m st) = fst (RxCtrState_post_recv c True ?r)"
      by (simp add: m gs_accept_def group_post_recv_known [OF i(1)])
    have "(f', n', c') \<in> gs_seen ?st" if "(f', n', c') \<in> gs_seen st" for f' n' c'
      using that rxs(1) gs_lookup_known(1) [OF i(1)]
      by (cases "(f', n') = (f, n)") (auto simp: gs_seen_def look)
    then show ?thesis
      using gs_lookup_known(1) [OF i(1)] rxs(2,3) unfolding acc
      by (auto simp: m gs_seen_def look [unfolded m])
  next
    case False
    from gs_room [OF w _ False] a have "length (gs_entries st) < MAX_GROUP_CTR_ENTRIES"
      by (simp add: gs_of_def m)
    then show ?thesis
      using gs_lookup_new [OF False] by (auto simp: m gs_accept_def gs_seen_def RxCtrState_new_seen)
  qed
  then show "gs_seen st \<subseteq> gs_seen ?st" by blast
  assume "fst (gs_accept m st)"
  with step show "m \<notin> gs_seen st" "m \<in> gs_seen ?st" by blast+
qed

subsection \<open>Properties\<close>

text \<open>
  Claim C1. An encrypted session delivers every message counter at most once, and none that is at or
  below the counter the session started from: whatever counters arrive, in whatever order and
  however often, the list of delivered ones has no duplicates.
\<close>

theorem encrypted_delivered_once:
  "distinct (delivered (\<lambda>c. RxCtrState_post_recv c True) cs (RxCtrState_new m)) \<and>
   set (delivered (\<lambda>c. RxCtrState_post_recv c True) cs (RxCtrState_new m)) \<inter> {x. x \<le> m} = {}"
  using rx.delivered_fresh [OF RxCtrState_new_inv, of cs m] by (simp add: RxCtrState_new_seen)

text \<open>
  Claim C35. The decision of an encrypted session is exact: a counter is accepted if and only if it was
  neither received nor is older than the sixteen-counter window, and does not lie so far ahead
  that it wraps into that window; an accepted counter ahead of the maximum becomes the maximum.
\<close>

theorem encrypted_accept_iff:
  assumes "RxCtrState_inv s"
  shows "(fst (RxCtrState_post_recv c True s) \<longleftrightarrow>
            c \<notin> RxCtrState_seen s \<and> unat c - unat (rx_max_ctr s) < 2 ^ 32 - 16) \<and>
         (fst (RxCtrState_post_recv c True s) \<longrightarrow>
            rx_max_ctr (snd (RxCtrState_post_recv c True s)) = max (rx_max_ctr s) c \<and>
            RxCtrState_inv (snd (RxCtrState_post_recv c True s))) \<and>
         (\<not> fst (RxCtrState_post_recv c True s) \<longrightarrow> snd (RxCtrState_post_recv c True s) = s)"
  using assms rx.accept_inv [OF assms, of c]
  by (auto simp: post_recv_encrypted Let_def max_def word_le_nat_alt)
     (simp add: word_unat_eq_iff)

theorem encrypted_accept_iff_witness:
  "RxCtrState_inv (RxCtrState_new 101) \<and> fst (RxCtrState_post_recv 106 True (RxCtrState_new 101)) \<and>
   rx_max_ctr (snd (RxCtrState_post_recv 106 True (RxCtrState_new 101))) = 106"
proof -
  have i: "RxCtrState_inv (RxCtrState_new 101)" by (rule RxCtrState_new_inv)
  show ?thesis using i encrypted_accept_iff [OF i, of 106]
    by (simp add: RxCtrState_new_seen) (simp add: RxCtrState_new_def max_def)
qed

text \<open>
  Claim C35. Also without encryption a message that was just delivered is recognised when it arrives
  again: whatever the state, the counter of an accepted message is rejected at once afterwards.
\<close>

theorem immediate_duplicate_rejected:
  "fst (RxCtrState_post_recv c enc s) \<longrightarrow>
     RxCtrState_post_recv c enc' (snd (RxCtrState_post_recv c enc s)) =
       (False, snd (RxCtrState_post_recv c enc s))"
proof (cases "- 16 \<le> sint (c - rx_max_ctr s) \<and> sint (c - rx_max_ctr s) < 0")
  case True
  define k where "k = nat (- sint (c - rx_max_ctr s))"
  with True have k: "sint (c - rx_max_ctr s) = - int k" "0 < k" "k \<le> 16" by auto
  let ?s = "RxCtrState_insert (k - 1) s"
  have "sint (c - rx_max_ctr ?s) = - int k" using k(1) by simp
  from post_recv_window [OF this k(2,3)] post_recv_window [OF k] show ?thesis
    using k by (auto simp: bit_insert)
next
  case False
  then have "fst (RxCtrState_post_recv c enc s) \<Longrightarrow> rx_max_ctr (snd (RxCtrState_post_recv c enc s)) = c"
    by (auto simp: RxCtrState_post_recv_def MSG_RX_STATE_BITMAP_LEN_def Let_def split: if_splits)
  then show ?thesis using post_recv_same by metis
qed

theorem immediate_duplicate_rejected_witness:
  "fst (RxCtrState_post_recv 0 False (RxCtrState_new 65534)) \<and>
   RxCtrState_post_recv 0 True (RxCtrState_new 0) = (False, RxCtrState_new 0)"
proof -
  have a: "RxCtrState_post_recv 0 False (RxCtrState_new 65534) = (True, RxCtrState_new 0)"
    using post_recv_far_below [of 0 "RxCtrState_new 65534" False] by (simp add: RxCtrState_new_def)
  show ?thesis using a immediate_duplicate_rejected [of 0 False "RxCtrState_new 65534" True] by simp
qed



text \<open>
  Claim C34. Eviction: a message of an unknown sender that finds the store full is accepted, replaces an
  entry that was used least recently and leaves all others as they are; the store keeps its
  invariant (at most sixteen entries, one per sender).
\<close>

theorem group_eviction_lru:
  assumes "GroupCtrStore_inv st" and "length (gs_entries st) = MAX_GROUP_CTR_ENTRIES"
    and "(f, n) \<notin> set (gs_keys st)"
  shows "\<exists>i < MAX_GROUP_CTR_ENTRIES.
     (\<forall>e \<in> set (gs_entries st). ge_last_used (gs_entries st ! i) \<le> ge_last_used e) \<and>
     GroupCtrStore_post_recv f n c st =
       (True, \<lparr>gs_entries = (gs_entries st)[i := new_group_entry f n c (gs_clock st + 1)],
               gs_clock = gs_clock st + 1\<rparr>) \<and>
     GroupCtrStore_inv (snd (GroupCtrStore_post_recv f n c st))"
proof (intro exI conjI)
  let ?i = "min_index ge_last_used (gs_entries st)"
  show "?i < MAX_GROUP_CTR_ENTRIES"
    using assms(2) min_index_less [of "gs_entries st" ge_last_used]
    by (cases "gs_entries st = []") (auto simp: MAX_GROUP_CTR_ENTRIES_def)
  show "\<forall>e \<in> set (gs_entries st). ge_last_used (gs_entries st ! ?i) \<le> ge_last_used e"
    by (rule min_index_le)
  show "GroupCtrStore_post_recv f n c st =
       (True, \<lparr>gs_entries = (gs_entries st)[?i := new_group_entry f n c (gs_clock st + 1)],
               gs_clock = gs_clock st + 1\<rparr>)"
    using assms by (simp add: group_post_recv_new Let_def)
  show "GroupCtrStore_inv (snd (GroupCtrStore_post_recv f n c st))"
    by (rule group_post_recv_inv [OF assms(1)])
qed

definition full_group_store :: GroupCtrStore where
  "full_group_store = \<lparr>gs_entries = map (\<lambda>i. new_group_entry 1 (of_nat i) 100 (of_nat i + 1)) [0..<16],
     gs_clock = 16\<rparr>"

theorem group_eviction_lru_witness:
  "\<exists>i < MAX_GROUP_CTR_ENTRIES. GroupCtrStore_post_recv 1 0xFFFF 200 full_group_store =
     (True, \<lparr>gs_entries = (gs_entries full_group_store)[i := new_group_entry 1 0xFFFF 200 17],
             gs_clock = 17\<rparr>)"
proof -
  have keys: "gs_keys full_group_store =
      [(1, 0), (1, 1), (1, 2), (1, 3), (1, 4), (1, 5), (1, 6), (1, 7), (1, 8), (1, 9), (1, 10),
       (1, 11), (1, 12), (1, 13), (1, 14), (1, 15)]"
    by (simp add: gs_keys_def full_group_store_def upt_rec)
  have "GroupCtrStore_inv full_group_store"
    using keys by (auto simp: GroupCtrStore_inv_def full_group_store_def MAX_GROUP_CTR_ENTRIES_def
        new_group_entry_def RxCtrState_new_inv)
  moreover have "length (gs_entries full_group_store) = MAX_GROUP_CTR_ENTRIES"
    by (simp add: full_group_store_def MAX_GROUP_CTR_ENTRIES_def)
  moreover have "(1, 0xFFFF) \<notin> set (gs_keys full_group_store)" by (simp add: keys)
  ultimately show ?thesis
    using group_eviction_lru [of full_group_store 1 "0xFFFF" 200] by (auto simp: full_group_store_def)
qed

text \<open>
  Claim C40. With overflow checks (the default of a debug build) a peer can crash the receiver of an
  unencrypted session with two messages: after counter \<open>0x80000000\<close> the counter \<open>1\<close> makes the
  signed subtraction of \<^verbatim>\<open>post_recv\<close> overflow. Counters below half the range never do.
\<close>

theorem checked_subtraction_overflow:
  "RxCtrState_post_recv_checked 0x80000000 False (RxCtrState_new 0) = (Ok True, RxCtrState_new 0x80000000) \<and>
   RxCtrState_post_recv_checked 1 False (RxCtrState_new 0x80000000) = (Panic, RxCtrState_new 0x80000000) \<and>
   (unat c < 2 ^ 31 \<and> unat (rx_max_ctr s) < 2 ^ 31 \<longrightarrow>
      fst (RxCtrState_post_recv_checked c enc s) = Ok (fst (RxCtrState_post_recv c enc s)))"
proof (intro conjI impI)
  have "RxCtrState_post_recv 0x80000000 False (RxCtrState_new 0) = (True, RxCtrState_new 0x80000000)"
    using post_recv_above [of "RxCtrState_new 0" "0x80000000" False] by (simp add: RxCtrState_new_def)
  then show "RxCtrState_post_recv_checked 0x80000000 False (RxCtrState_new 0) =
      (Ok True, RxCtrState_new 0x80000000)"
    by (simp add: RxCtrState_post_recv_checked_def i32_sub_overflows_def) (simp add: RxCtrState_new_def)
  show "RxCtrState_post_recv_checked 1 False (RxCtrState_new 0x80000000) =
      (Panic, RxCtrState_new 0x80000000)"
    by (simp add: RxCtrState_post_recv_checked_def i32_sub_overflows_def RxCtrState_new_def)
  assume "unat c < 2 ^ 31 \<and> unat (rx_max_ctr s) < 2 ^ 31"
  then have "\<not> i32_sub_overflows c (rx_max_ctr s)" by (intro no_overflow_small) blast+
  then show "fst (RxCtrState_post_recv_checked c enc s) = Ok (fst (RxCtrState_post_recv c enc s))"
    by (simp add: RxCtrState_post_recv_checked_def split: prod.splits)
qed

theorem checked_subtraction_overflow_witness:
  "fst (RxCtrState_post_recv_checked 103 True (RxCtrState_new 101)) = Ok True"
proof -
  have "unat (103 :: u32) < 2 ^ 31 \<and> unat (rx_max_ctr (RxCtrState_new 101)) < 2 ^ 31"
    by (simp add: RxCtrState_new_def)
  moreover have "fst (RxCtrState_post_recv 103 True (RxCtrState_new 101))"
    using post_recv_above [of "RxCtrState_new 101" 103 True] by (simp add: RxCtrState_new_def)
  ultimately show ?thesis
    using checked_subtraction_overflow [of 103 "RxCtrState_new 101" True] by simp
qed

end
