(* ===== verification/Headers.thy ===== *)
theory Headers
  imports Storage
begin

section \<open>Message headers and the packet codec\<close>

text \<open>
  \<^verbatim>\<open>transport/network.rs\<close> (addresses), \<^verbatim>\<open>transport/plain_hdr.rs\<close> (the unencrypted header),
  \<^verbatim>\<open>transport/proto_hdr.rs\<close> (the protocol header with the encryption of a message in place) and
  \<^verbatim>\<open>transport/packet.rs\<close> (the whole packet). Encoders write into a \<open>WriteBuf\<close>, decoders update a
  header object while they consume a \<open>ReadBuf\<close>. The AEAD cipher is the trait \<^verbatim>\<open>Aead\<close> of the
  crypto backends: a parameter of the model, with \<open>Aead_correct\<close> as the documented behaviour the
  codec relies on.
\<close>

subsection \<open>Addresses\<close>

text \<open>\<open>SocketAddr\<close> and its parts are the standard library's types.\<close>

datatype IpAddr = V4 u32 | V6 "128 word"

datatype SocketAddr = SockAddrV4 u32 u16 | SockAddrV6 "128 word" u16 u32 u32

definition SocketAddr_new :: "IpAddr \<Rightarrow> u16 \<Rightarrow> SocketAddr" where
  "SocketAddr_new ip port =
     (case ip of V4 a \<Rightarrow> SockAddrV4 a port | V6 a \<Rightarrow> SockAddrV6 a port 0 0)"

datatype BtAddr = BtAddr bytes

datatype Address = Udp SocketAddr | Tcp SocketAddr | Btp BtAddr

definition Address_new :: Address where
  "Address_new = Udp (SocketAddr_new (V4 0) 0)"

definition Address_is_reliable :: "Address \<Rightarrow> bool" where
  "Address_is_reliable a = (case a of Tcp _ \<Rightarrow> True | Btp _ \<Rightarrow> True | Udp _ \<Rightarrow> False)"

definition Address_is_udp :: "Address \<Rightarrow> bool" where
  "Address_is_udp a = (case a of Udp _ \<Rightarrow> True | _ \<Rightarrow> False)"

definition Address_is_tcp :: "Address \<Rightarrow> bool" where
  "Address_is_tcp a = (case a of Tcp _ \<Rightarrow> True | _ \<Rightarrow> False)"

definition Address_is_btp :: "Address \<Rightarrow> bool" where
  "Address_is_btp a = (case a of Btp _ \<Rightarrow> True | _ \<Rightarrow> False)"

definition Address_udp :: "Address \<Rightarrow> SocketAddr option" where
  "Address_udp a = (case a of Udp x \<Rightarrow> Some x | _ \<Rightarrow> None)"

definition Address_tcp :: "Address \<Rightarrow> SocketAddr option" where
  "Address_tcp a = (case a of Tcp x \<Rightarrow> Some x | _ \<Rightarrow> None)"

definition Address_btp :: "Address \<Rightarrow> BtAddr option" where
  "Address_btp a = (case a of Btp x \<Rightarrow> Some x | _ \<Rightarrow> None)"

subsection \<open>The plain header\<close>

abbreviation DSIZ_UNICAST_NODEID :: u8 where "DSIZ_UNICAST_NODEID \<equiv> 0x01"
abbreviation DSIZ_GROUPCAST_NODEID :: u8 where "DSIZ_GROUPCAST_NODEID \<equiv> 0x02"
abbreviation SRC_ADDR_PRESENT :: u8 where "SRC_ADDR_PRESENT \<equiv> 0x04"
abbreviation GROUP_SESSION :: u8 where "GROUP_SESSION \<equiv> 0x01"

definition MsgFlags_all :: u8 where
  "MsgFlags_all = DSIZ_UNICAST_NODEID OR DSIZ_GROUPCAST_NODEID OR SRC_ADDR_PRESENT"

definition SecFlags_all :: u8 where
  "SecFlags_all = GROUP_SESSION"

definition DSIZ_MASK :: u8 where
  "DSIZ_MASK = DSIZ_UNICAST_NODEID OR DSIZ_GROUPCAST_NODEID"

record PlainHdr =
  ph_flags :: u8
  ph_sess_id :: u16
  ph_sec_flags :: u8
  ph_ctr :: u32
  ph_src_nodeid :: u64
  ph_dst_nodeid :: u64

definition PlainHdr_MAX_LEN :: nat where
  "PlainHdr_MAX_LEN = 2 + 1 + 1 + 2 + 4 + 8 + 8"

definition PlainHdr_new :: PlainHdr where
  "PlainHdr_new = \<lparr>ph_flags = 0, ph_sess_id = 0, ph_sec_flags = 0, ph_ctr = 0,
     ph_src_nodeid = 0, ph_dst_nodeid = 0\<rparr>"

definition PlainHdr_get_src_nodeid :: "PlainHdr \<Rightarrow> u64 option" where
  "PlainHdr_get_src_nodeid h =
     (if flags_contains (ph_flags h) SRC_ADDR_PRESENT then Some (ph_src_nodeid h) else None)"

definition PlainHdr_set_src_nodeid :: "u64 option \<Rightarrow> PlainHdr \<Rightarrow> PlainHdr" where
  "PlainHdr_set_src_nodeid nid h = (case nid of
     Some i \<Rightarrow> h\<lparr>ph_flags := flags_insert (ph_flags h) SRC_ADDR_PRESENT, ph_src_nodeid := i\<rparr>
   | None \<Rightarrow> h\<lparr>ph_flags := flags_remove (ph_flags h) SRC_ADDR_PRESENT, ph_src_nodeid := 0\<rparr>)"

definition PlainHdr_get_dst_unicast_nodeid :: "PlainHdr \<Rightarrow> u64 option" where
  "PlainHdr_get_dst_unicast_nodeid h =
     (if ph_flags h AND DSIZ_MASK = DSIZ_UNICAST_NODEID then Some (ph_dst_nodeid h) else None)"

definition PlainHdr_set_dst_unicast_nodeid :: "u64 option \<Rightarrow> PlainHdr \<Rightarrow> PlainHdr" where
  "PlainHdr_set_dst_unicast_nodeid nid h = (case nid of
     Some i \<Rightarrow> h\<lparr>ph_flags := flags_remove (flags_insert (ph_flags h) DSIZ_UNICAST_NODEID)
                   DSIZ_GROUPCAST_NODEID, ph_dst_nodeid := i\<rparr>
   | None \<Rightarrow> h\<lparr>ph_flags := flags_remove (ph_flags h) DSIZ_MASK, ph_dst_nodeid := 0\<rparr>)"

definition PlainHdr_get_dst_groupcast_nodeid :: "PlainHdr \<Rightarrow> u16 option" where
  "PlainHdr_get_dst_groupcast_nodeid h =
     (if ph_flags h AND DSIZ_MASK = DSIZ_GROUPCAST_NODEID then Some (ucast (ph_dst_nodeid h)) else None)"

definition PlainHdr_set_dst_groupcast_nodeid :: "u16 option \<Rightarrow> PlainHdr \<Rightarrow> PlainHdr" where
  "PlainHdr_set_dst_groupcast_nodeid nid h = (case nid of
     Some i \<Rightarrow> h\<lparr>ph_flags := flags_remove (flags_insert (ph_flags h) DSIZ_GROUPCAST_NODEID)
                   DSIZ_UNICAST_NODEID, ph_dst_nodeid := ucast i\<rparr>
   | None \<Rightarrow> h\<lparr>ph_flags := flags_remove (ph_flags h) DSIZ_MASK, ph_dst_nodeid := 0\<rparr>)"

definition PlainHdr_decode :: "(PlainHdr \<times> ReadBuf, unit) sr" where
  "PlainHdr_decode =
     sr_bind (on_snd ReadBuf_le_u8) (\<lambda>b.
     sr_bind (sr_ok_or Invalid (flags_from_bits MsgFlags_all b)) (\<lambda>fl.
     sr_then (on_fst (sr_modify (\<lambda>h. h\<lparr>ph_flags := fl\<rparr>))) (
     sr_bind (on_snd ReadBuf_le_u16) (\<lambda>s.
     sr_then (on_fst (sr_modify (\<lambda>h. h\<lparr>ph_sess_id := s\<rparr>))) (
     sr_bind (on_snd ReadBuf_le_u8) (\<lambda>b.
     sr_bind (sr_ok_or Invalid (flags_from_bits SecFlags_all b)) (\<lambda>sf.
     sr_then (on_fst (sr_modify (\<lambda>h. h\<lparr>ph_sec_flags := sf\<rparr>))) (
     sr_bind (on_snd ReadBuf_le_u32) (\<lambda>c.
     sr_then (on_fst (sr_modify (\<lambda>h. h\<lparr>ph_ctr := c\<rparr>))) (
     sr_then
       (if flags_contains fl SRC_ADDR_PRESENT
        then sr_bind (on_snd ReadBuf_le_u64) (\<lambda>n.
             on_fst (sr_modify (\<lambda>h. h\<lparr>ph_src_nodeid := n\<rparr>)))
        else sr_return ())
       (if \<not> flags_contains fl DSIZ_MASK
        then if flags_contains fl DSIZ_UNICAST_NODEID
             then sr_bind (on_snd ReadBuf_le_u64) (\<lambda>n.
                  on_fst (sr_modify (\<lambda>h. h\<lparr>ph_dst_nodeid := n\<rparr>)))
             else if flags_contains fl DSIZ_GROUPCAST_NODEID
             then sr_bind (on_snd ReadBuf_le_u16) (\<lambda>n.
                  on_fst (sr_modify (\<lambda>h. h\<lparr>ph_dst_nodeid := ucast n\<rparr>)))
             else sr_return ()
        else sr_return ())))))))))))"

definition PlainHdr_encode :: "PlainHdr \<Rightarrow> (WriteBuf, unit) sr" where
  "PlainHdr_encode h =
     sr_then (WriteBuf_le_u8 (ph_flags h)) (
     sr_then (WriteBuf_le_u16 (ph_sess_id h)) (
     sr_then (WriteBuf_le_u8 (ph_sec_flags h)) (
     sr_then (WriteBuf_le_u32 (ph_ctr h)) (
     sr_then (sr_when (flags_contains (ph_flags h) SRC_ADDR_PRESENT)
                (WriteBuf_le_u64 (ph_src_nodeid h)))
       (if \<not> flags_contains (ph_flags h) DSIZ_MASK
        then if flags_contains (ph_flags h) DSIZ_UNICAST_NODEID
             then WriteBuf_le_u64 (ph_dst_nodeid h)
             else if flags_contains (ph_flags h) DSIZ_GROUPCAST_NODEID
             then WriteBuf_le_u16 (ucast (ph_dst_nodeid h))
             else sr_return ()
        else sr_return ())))))"

definition PlainHdr_is_group_session :: "PlainHdr \<Rightarrow> bool" where
  "PlainHdr_is_group_session h = flags_contains (ph_sec_flags h) GROUP_SESSION"

definition PlainHdr_is_encrypted :: "PlainHdr \<Rightarrow> bool" where
  "PlainHdr_is_encrypted h \<longleftrightarrow> ph_sess_id h \<noteq> 0 \<or> PlainHdr_is_group_session h"

subsection \<open>The AEAD parameter\<close>

text \<open>
  \<open>aead_encrypt a key nonce aad data data_len\<close> and \<open>aead_decrypt a key nonce aad data\<close> return the
  outcome and the data buffer after the call, which both modify in place.
\<close>

record Aead =
  aead_encrypt :: "bytes \<Rightarrow> bytes \<Rightarrow> bytes \<Rightarrow> bytes \<Rightarrow> nat \<Rightarrow> unit res \<times> bytes"
  aead_decrypt :: "bytes \<Rightarrow> bytes \<Rightarrow> bytes \<Rightarrow> bytes \<Rightarrow> unit res \<times> bytes"

record Crypto =
  crypto_aead :: "Aead res"

definition AEAD_CANON_KEY_LEN :: nat where
  "AEAD_CANON_KEY_LEN = 16"

definition AEAD_NONCE_LEN :: nat where
  "AEAD_NONCE_LEN = 13"

definition AEAD_TAG_LEN :: nat where
  "AEAD_TAG_LEN = 16"

subsection \<open>The protocol header\<close>

abbreviation VENDOR :: u8 where "VENDOR \<equiv> 0x10"
abbreviation SECEX :: u8 where "SECEX \<equiv> 0x08"
abbreviation RELIABLE :: u8 where "RELIABLE \<equiv> 0x04"
abbreviation ACK :: u8 where "ACK \<equiv> 0x02"
abbreviation INITIATOR :: u8 where "INITIATOR \<equiv> 0x01"

definition ExchFlags_all :: u8 where
  "ExchFlags_all = VENDOR OR SECEX OR RELIABLE OR ACK OR INITIATOR"

record ProtoHdr =
  pr_exch_id :: u16
  pr_exch_flags :: u8
  pr_proto_id :: u16
  pr_proto_opcode :: u8
  pr_proto_vendor_id :: u16
  pr_ack_msg_ctr :: u32

definition ProtoHdr_MAX_LEN :: nat where
  "ProtoHdr_MAX_LEN = 1 + 1 + 2 + 2 + 2 + 4"

definition ProtoHdr_new :: ProtoHdr where
  "ProtoHdr_new = \<lparr>pr_exch_id = 0, pr_exch_flags = 0, pr_proto_id = 0xffff, pr_proto_opcode = 0xff,
     pr_proto_vendor_id = 0, pr_ack_msg_ctr = 0\<rparr>"

definition ProtoHdr_is_decoded :: "ProtoHdr \<Rightarrow> bool" where
  "ProtoHdr_is_decoded h \<longleftrightarrow> pr_proto_id h \<noteq> 0xffff \<and> pr_proto_opcode h \<noteq> 0xff"

text \<open>The opcode enum a caller asks for is given by its \<^verbatim>\<open>FromPrimitive::from_u8\<close>.\<close>

definition ProtoHdr_opcode :: "(u8 \<Rightarrow> 'o option) \<Rightarrow> ProtoHdr \<Rightarrow> 'o res" where
  "ProtoHdr_opcode from_u8 h =
     (case from_u8 (pr_proto_opcode h) of Some c \<Rightarrow> Ok c | None \<Rightarrow> Err Invalid)"

definition ProtoHdr_check_opcode :: "(u8 \<Rightarrow> 'o option) \<Rightarrow> 'o \<Rightarrow> ProtoHdr \<Rightarrow> unit res" where
  "ProtoHdr_check_opcode from_u8 opcode h =
     (case ProtoHdr_opcode from_u8 h of
        Ok c \<Rightarrow> if c = opcode then Ok () else Err Invalid
      | Err e \<Rightarrow> Err e | Panic \<Rightarrow> Panic)"

definition ProtoHdr_get_vendor :: "ProtoHdr \<Rightarrow> u16 option" where
  "ProtoHdr_get_vendor h =
     (if flags_contains (pr_exch_flags h) VENDOR then Some (pr_proto_vendor_id h) else None)"

definition ProtoHdr_set_vendor :: "u16 option \<Rightarrow> ProtoHdr \<Rightarrow> ProtoHdr" where
  "ProtoHdr_set_vendor v h = (case v of
     Some i \<Rightarrow> h\<lparr>pr_exch_flags := flags_insert (pr_exch_flags h) VENDOR, pr_proto_vendor_id := i\<rparr>
   | None \<Rightarrow> h\<lparr>pr_exch_flags := flags_remove (pr_exch_flags h) VENDOR, pr_proto_vendor_id := 0\<rparr>)"

definition ProtoHdr_is_security_ext :: "ProtoHdr \<Rightarrow> bool" where
  "ProtoHdr_is_security_ext h = flags_contains (pr_exch_flags h) SECEX"

definition ProtoHdr_is_reliable :: "ProtoHdr \<Rightarrow> bool" where
  "ProtoHdr_is_reliable h = flags_contains (pr_exch_flags h) RELIABLE"

definition ProtoHdr_unset_reliable :: "ProtoHdr \<Rightarrow> ProtoHdr" where
  "ProtoHdr_unset_reliable h = h\<lparr>pr_exch_flags := flags_remove (pr_exch_flags h) RELIABLE\<rparr>"

definition ProtoHdr_set_reliable :: "ProtoHdr \<Rightarrow> ProtoHdr" where
  "ProtoHdr_set_reliable h = h\<lparr>pr_exch_flags := flags_insert (pr_exch_flags h) RELIABLE\<rparr>"

definition ProtoHdr_get_ack :: "ProtoHdr \<Rightarrow> u32 option" where
  "ProtoHdr_get_ack h =
     (if flags_contains (pr_exch_flags h) ACK then Some (pr_ack_msg_ctr h) else None)"

definition ProtoHdr_set_ack :: "u32 option \<Rightarrow> ProtoHdr \<Rightarrow> ProtoHdr" where
  "ProtoHdr_set_ack a h = (case a of
     Some c \<Rightarrow> h\<lparr>pr_exch_flags := flags_insert (pr_exch_flags h) ACK, pr_ack_msg_ctr := c\<rparr>
   | None \<Rightarrow> h\<lparr>pr_exch_flags := flags_remove (pr_exch_flags h) ACK, pr_ack_msg_ctr := 0\<rparr>)"

definition ProtoHdr_is_initiator :: "ProtoHdr \<Rightarrow> bool" where
  "ProtoHdr_is_initiator h = flags_contains (pr_exch_flags h) INITIATOR"

definition ProtoHdr_unset_initiator :: "ProtoHdr \<Rightarrow> ProtoHdr" where
  "ProtoHdr_unset_initiator h = h\<lparr>pr_exch_flags := flags_remove (pr_exch_flags h) INITIATOR\<rparr>"

definition ProtoHdr_set_initiator :: "ProtoHdr \<Rightarrow> ProtoHdr" where
  "ProtoHdr_set_initiator h = h\<lparr>pr_exch_flags := flags_insert (pr_exch_flags h) INITIATOR\<rparr>"

definition ProtoHdr_toggle_initiator :: "ProtoHdr \<Rightarrow> ProtoHdr" where
  "ProtoHdr_toggle_initiator h =
     (if ProtoHdr_is_initiator h then ProtoHdr_unset_initiator h else ProtoHdr_set_initiator h)"

text \<open>The parameter \<^verbatim>\<open>rx\<close> only selects warnings in the log.\<close>

definition ProtoHdr_adjust_reliability :: "Address \<Rightarrow> ProtoHdr \<Rightarrow> ProtoHdr" where
  "ProtoHdr_adjust_reliability addr h =
     (if Address_is_reliable addr then ProtoHdr_set_ack None (ProtoHdr_unset_reliable h) else h)"

definition get_iv :: "u8 \<Rightarrow> u32 \<Rightarrow> u64 \<Rightarrow> bytes \<Rightarrow> unit res \<times> bytes" where
  "get_iv sec_flags recvd_ctr peer_nodeid iv =
     (case sr_then (WriteBuf_le_u8 sec_flags) (
           sr_then (WriteBuf_le_u32 recvd_ctr) (WriteBuf_le_u64 peer_nodeid)) (WriteBuf_new iv) of
        (r, w) \<Rightarrow> (r, wb_buf w))"

definition encrypt_in_place ::
    "Crypto \<Rightarrow> bytes \<Rightarrow> u8 \<Rightarrow> u32 \<Rightarrow> u64 \<Rightarrow> bytes \<Rightarrow> (WriteBuf, unit) sr" where
  "encrypt_in_place crypto key sec_flags send_ctr peer_nodeid aad =
     (case get_iv sec_flags send_ctr peer_nodeid (replicate AEAD_NONCE_LEN 0) of
        (Ok _, iv) \<Rightarrow>
          sr_then (WriteBuf_append (replicate AEAD_TAG_LEN 0))
            (WriteBuf_as_mut_slice (\<lambda>cipher_text.
               case crypto_aead crypto of
                 Ok a \<Rightarrow> (if length cipher_text < AEAD_TAG_LEN then (Panic, cipher_text)
                          else aead_encrypt a key iv aad cipher_text (length cipher_text - AEAD_TAG_LEN))
               | Err e \<Rightarrow> (Err e, cipher_text)
               | Panic \<Rightarrow> (Panic, cipher_text)))
      | (Err e, iv) \<Rightarrow> sr_err e
      | (Panic, iv) \<Rightarrow> sr_panic)"

definition decrypt_in_place ::
    "Crypto \<Rightarrow> bytes \<Rightarrow> u8 \<Rightarrow> u32 \<Rightarrow> u64 \<Rightarrow> (ReadBuf, unit) sr" where
  "decrypt_in_place crypto key sec_flags recvd_ctr peer_nodeid =
     sr_bind sr_get (\<lambda>p.
     sr_bind (sr_res (ReadBuf_parsed_as_slice p)) (\<lambda>aad.
     if PlainHdr_MAX_LEN < length aad then sr_panic
     else
       (case get_iv sec_flags recvd_ctr peer_nodeid (replicate AEAD_NONCE_LEN 0) of
          (Ok _, iv) \<Rightarrow>
            sr_then (ReadBuf_as_mut_slice (\<lambda>cipher_text.
               case crypto_aead crypto of
                 Ok a \<Rightarrow> aead_decrypt a key iv aad cipher_text
               | Err e \<Rightarrow> (Err e, cipher_text)
               | Panic \<Rightarrow> (Panic, cipher_text)))
            (sr_then (ReadBuf_tail AEAD_TAG_LEN) (sr_return ()))
        | (Err e, iv) \<Rightarrow> sr_err e
        | (Panic, iv) \<Rightarrow> sr_panic)))"

text \<open>The fields of \<^verbatim>\<open>decrypt_and_decode\<close> after the optional decryption.\<close>

definition ProtoHdr_decode_fields :: "(ProtoHdr \<times> ReadBuf, unit) sr" where
  "ProtoHdr_decode_fields =
     sr_bind (on_snd ReadBuf_le_u8) (\<lambda>b.
     sr_bind (sr_ok_or Invalid (flags_from_bits ExchFlags_all b)) (\<lambda>fl.
     sr_then (on_fst (sr_modify (\<lambda>h. h\<lparr>pr_exch_flags := fl\<rparr>))) (
     sr_bind (on_snd ReadBuf_le_u8) (\<lambda>c.
     sr_then (on_fst (sr_modify (\<lambda>h. h\<lparr>pr_proto_opcode := c\<rparr>))) (
     sr_bind (on_snd ReadBuf_le_u16) (\<lambda>e.
     sr_then (on_fst (sr_modify (\<lambda>h. h\<lparr>pr_exch_id := e\<rparr>))) (
     sr_bind (on_snd ReadBuf_le_u16) (\<lambda>i.
     sr_then (on_fst (sr_modify (\<lambda>h. h\<lparr>pr_proto_id := i\<rparr>))) (
     sr_then
       (if flags_contains fl VENDOR
        then sr_bind (on_snd ReadBuf_le_u16) (\<lambda>v.
             on_fst (sr_modify (\<lambda>h. h\<lparr>pr_proto_vendor_id := v\<rparr>)))
        else sr_return ())
       (if flags_contains fl ACK
        then sr_bind (on_snd ReadBuf_le_u32) (\<lambda>a.
             on_fst (sr_modify (\<lambda>h. h\<lparr>pr_ack_msg_ctr := a\<rparr>)))
        else sr_return ()))))))))))"

definition ProtoHdr_decrypt_and_decode ::
    "Crypto \<Rightarrow> bytes option \<Rightarrow> u64 \<Rightarrow> PlainHdr \<Rightarrow> (ProtoHdr \<times> ReadBuf, unit) sr" where
  "ProtoHdr_decrypt_and_decode crypto dec_key peer_nodeid plain =
     sr_then
       (case dec_key of
          Some key \<Rightarrow> on_snd (decrypt_in_place crypto key (ph_sec_flags plain) (ph_ctr plain) peer_nodeid)
        | None \<Rightarrow> sr_return ())
       ProtoHdr_decode_fields"

definition ProtoHdr_encode :: "ProtoHdr \<Rightarrow> (WriteBuf, unit) sr" where
  "ProtoHdr_encode h =
     sr_then (WriteBuf_le_u8 (pr_exch_flags h)) (
     sr_then (WriteBuf_le_u8 (pr_proto_opcode h)) (
     sr_then (WriteBuf_le_u16 (pr_exch_id h)) (
     sr_then (WriteBuf_le_u16 (pr_proto_id h)) (
     sr_then (case ProtoHdr_get_vendor h of Some v \<Rightarrow> WriteBuf_le_u16 v | None \<Rightarrow> sr_return ())
       (case ProtoHdr_get_ack h of Some a \<Rightarrow> WriteBuf_le_u32 a | None \<Rightarrow> sr_return ())))))"

subsection \<open>The packet\<close>

record PacketHdr =
  pk_plain :: PlainHdr
  pk_proto :: ProtoHdr

definition HDR_RESERVE :: nat where
  "HDR_RESERVE = PlainHdr_MAX_LEN + ProtoHdr_MAX_LEN"

definition TAIL_RESERVE :: nat where
  "TAIL_RESERVE = AEAD_TAG_LEN"

definition PacketHdr_new :: PacketHdr where
  "PacketHdr_new = \<lparr>pk_plain = PlainHdr_new, pk_proto = ProtoHdr_new\<rparr>"

definition PacketHdr_reset :: "PacketHdr \<Rightarrow> PacketHdr" where
  "PacketHdr_reset k = k\<lparr>pk_plain := PlainHdr_new, pk_proto := ProtoHdr_set_reliable ProtoHdr_new\<rparr>"

definition PacketHdr_load :: "PacketHdr \<Rightarrow> PacketHdr \<Rightarrow> PacketHdr" where
  "PacketHdr_load src k = k\<lparr>pk_plain := pk_plain src, pk_proto := pk_proto src\<rparr>"

definition PacketHdr_decode_plain_hdr :: "(PacketHdr \<times> ReadBuf, unit) sr" where
  "PacketHdr_decode_plain_hdr = (\<lambda>(k, p).
     case PlainHdr_decode (pk_plain k, p) of (r, (h, p')) \<Rightarrow> (r, (k\<lparr>pk_plain := h\<rparr>, p')))"

definition PacketHdr_decode_remaining ::
    "Crypto \<Rightarrow> bytes option \<Rightarrow> u64 \<Rightarrow> (PacketHdr \<times> ReadBuf, unit) sr" where
  "PacketHdr_decode_remaining crypto dec_key peer_nodeid = (\<lambda>(k, p).
     case ProtoHdr_decrypt_and_decode crypto dec_key peer_nodeid (pk_plain k) (pk_proto k, p) of
       (r, (h, p')) \<Rightarrow> (r, (k\<lparr>pk_proto := h\<rparr>, p')))"

definition PacketHdr_encode :: "PacketHdr \<Rightarrow> Crypto \<Rightarrow> bytes option \<Rightarrow> u64 \<Rightarrow> (WriteBuf, unit) sr" where
  "PacketHdr_encode k crypto enc_key local_nodeid =
     sr_bind (sr_local (ProtoHdr_encode (pk_proto k)) (WriteBuf_new (replicate ProtoHdr_MAX_LEN 0))) (\<lambda>w.
     sr_bind (sr_res (WriteBuf_as_slice w)) (\<lambda>proto_bytes.
     sr_then (WriteBuf_prepend proto_bytes) (
     sr_bind (sr_local (PlainHdr_encode (pk_plain k)) (WriteBuf_new (replicate PlainHdr_MAX_LEN 0))) (\<lambda>w.
     sr_bind (sr_res (WriteBuf_as_slice w)) (\<lambda>plain_hdr_bytes.
     sr_then
       (case enc_key of
          Some key \<Rightarrow> encrypt_in_place crypto key (ph_sec_flags (pk_plain k)) (ph_ctr (pk_plain k))
                        local_nodeid plain_hdr_bytes
        | None \<Rightarrow> sr_return ())
       (WriteBuf_prepend plain_hdr_bytes))))))"

subsection \<open>What the encoders write\<close>

definition PlainHdr_chunks :: "PlainHdr \<Rightarrow> bytes list" where
  "PlainHdr_chunks h =
     [[ph_flags h], to_le_bytes 2 (ph_sess_id h), [ph_sec_flags h], to_le_bytes 4 (ph_ctr h)] @
     (if flags_contains (ph_flags h) SRC_ADDR_PRESENT then [to_le_bytes 8 (ph_src_nodeid h)] else []) @
     (if ph_flags h AND DSIZ_MASK = DSIZ_UNICAST_NODEID then [to_le_bytes 8 (ph_dst_nodeid h)]
      else if ph_flags h AND DSIZ_MASK = DSIZ_GROUPCAST_NODEID
      then [to_le_bytes 2 (ucast (ph_dst_nodeid h) :: u16)] else [])"

definition PlainHdr_bytes :: "PlainHdr \<Rightarrow> bytes" where
  "PlainHdr_bytes h = concat (PlainHdr_chunks h)"

definition ProtoHdr_chunks :: "ProtoHdr \<Rightarrow> bytes list" where
  "ProtoHdr_chunks h =
     [[pr_exch_flags h], [pr_proto_opcode h], to_le_bytes 2 (pr_exch_id h), to_le_bytes 2 (pr_proto_id h)] @
     (if flags_contains (pr_exch_flags h) VENDOR then [to_le_bytes 2 (pr_proto_vendor_id h)] else []) @
     (if flags_contains (pr_exch_flags h) ACK then [to_le_bytes 4 (pr_ack_msg_ctr h)] else [])"

definition ProtoHdr_bytes :: "ProtoHdr \<Rightarrow> bytes" where
  "ProtoHdr_bytes h = concat (ProtoHdr_chunks h)"

lemma dsiz_cases:
  "flags_contains fl DSIZ_MASK \<longleftrightarrow> bit fl 0 \<and> bit fl 1"
  "fl AND DSIZ_MASK = DSIZ_UNICAST_NODEID \<longleftrightarrow> bit fl 0 \<and> \<not> bit fl 1"
  "fl AND DSIZ_MASK = DSIZ_GROUPCAST_NODEID \<longleftrightarrow> \<not> bit fl 0 \<and> bit fl 1"
  "fl AND DSIZ_MASK = 0 \<longleftrightarrow> \<not> bit fl 0 \<and> \<not> bit fl 1"
  by (auto simp: DSIZ_MASK_def flag_bit_simps flags_contains_def)

lemma bit_DSIZ_MASK: "bit DSIZ_MASK 0" "bit DSIZ_MASK (Suc 0)" "\<not> bit DSIZ_MASK 2"
  by (simp_all add: DSIZ_MASK_def)

lemmas write_ints = WriteBuf_le_u8_append WriteBuf_le_u16_def WriteBuf_le_u32_def WriteBuf_le_u64_def

lemma PlainHdr_encode_chunks:
  "PlainHdr_encode h = sr_seq (map WriteBuf_append (PlainHdr_chunks h))"
  by (simp add: PlainHdr_encode_def PlainHdr_chunks_def write_ints dsiz_cases flags_bits sr_when_def)

lemma ProtoHdr_encode_chunks:
  "ProtoHdr_encode h = sr_seq (map WriteBuf_append (ProtoHdr_chunks h))"
  by (simp add: ProtoHdr_encode_def ProtoHdr_chunks_def write_ints ProtoHdr_get_vendor_def
      ProtoHdr_get_ack_def)

lemma length_PlainHdr_bytes: "length (PlainHdr_bytes h) \<le> 24"
  by (simp add: PlainHdr_bytes_def PlainHdr_chunks_def)

lemma length_ProtoHdr_bytes: "length (ProtoHdr_bytes h) \<le> ProtoHdr_MAX_LEN"
  by (simp add: ProtoHdr_bytes_def ProtoHdr_chunks_def ProtoHdr_MAX_LEN_def)

text \<open>Encoding into a fresh buffer of the maximal length always succeeds.\<close>

lemma PlainHdr_encode_fresh:
  "\<exists>w. PlainHdr_encode h (WriteBuf_new (replicate PlainHdr_MAX_LEN 0)) = (Ok (), w) \<and>
     WriteBuf_as_slice w = Ok (PlainHdr_bytes h)"
  using wb.chunks_fit [of "WriteBuf_new (replicate PlainHdr_MAX_LEN 0)" "PlainHdr_chunks h"]
    length_PlainHdr_bytes [of h] WriteBuf_as_slice_view
  by (auto simp: PlainHdr_encode_chunks wf_intros PlainHdr_bytes_def PlainHdr_MAX_LEN_def)

lemma ProtoHdr_encode_fresh:
  "\<exists>w. ProtoHdr_encode h (WriteBuf_new (replicate ProtoHdr_MAX_LEN 0)) = (Ok (), w) \<and>
     WriteBuf_as_slice w = Ok (ProtoHdr_bytes h)"
  using wb.chunks_fit [of "WriteBuf_new (replicate ProtoHdr_MAX_LEN 0)" "ProtoHdr_chunks h"]
    length_ProtoHdr_bytes [of h] WriteBuf_as_slice_view
  by (auto simp: ProtoHdr_encode_chunks wf_intros ProtoHdr_bytes_def)

subsection \<open>Header invariants and what the decoders read\<close>

definition PlainHdr_wf :: "PlainHdr \<Rightarrow> bool" where
  "PlainHdr_wf h \<longleftrightarrow>
     ph_flags h AND NOT MsgFlags_all = 0 \<and> ph_sec_flags h AND NOT SecFlags_all = 0 \<and>
     \<not> flags_contains (ph_flags h) DSIZ_MASK \<and>
     (\<not> flags_contains (ph_flags h) SRC_ADDR_PRESENT \<longrightarrow> ph_src_nodeid h = 0) \<and>
     (ph_flags h AND DSIZ_MASK = 0 \<longrightarrow> ph_dst_nodeid h = 0) \<and>
     (ph_flags h AND DSIZ_MASK = DSIZ_GROUPCAST_NODEID \<longrightarrow>
        ph_dst_nodeid h = ucast (ucast (ph_dst_nodeid h) :: u16))"

definition ProtoHdr_wf :: "ProtoHdr \<Rightarrow> bool" where
  "ProtoHdr_wf h \<longleftrightarrow> pr_exch_flags h AND NOT ExchFlags_all = 0 \<and>
     (\<not> flags_contains (pr_exch_flags h) VENDOR \<longrightarrow> pr_proto_vendor_id h = 0) \<and>
     (\<not> flags_contains (pr_exch_flags h) ACK \<longrightarrow> pr_ack_msg_ctr h = 0)"

lemmas hdr_wf_simps = PlainHdr_wf_def ProtoHdr_wf_def MsgFlags_all_def SecFlags_all_def
  ExchFlags_all_def DSIZ_MASK_def flag_bit_simps

lemma ucast_ucast_u16: "ucast (ucast (ucast (a::u16) :: u64) :: u16) = (ucast a :: u64)"
  by (rule bit_word_eqI) (auto simp: bit_ucast_iff dest: bit_imp_le_length)

lemma ucast_down_u16 [simp]: "ucast (ucast (a::u16) :: u64) = a"
  by (rule bit_word_eqI) (auto simp: bit_ucast_iff)

lemma PlainHdr_new_wf [wf_intros]: "PlainHdr_wf PlainHdr_new"
  by (simp add: PlainHdr_new_def hdr_wf_simps)

lemma PlainHdr_set_src_nodeid_wf [wf_intros]:
  "PlainHdr_wf h \<Longrightarrow> PlainHdr_wf (PlainHdr_set_src_nodeid i h)"
  by (cases i) (simp_all add: PlainHdr_set_src_nodeid_def hdr_wf_simps)

lemma PlainHdr_set_dst_unicast_nodeid_wf [wf_intros]:
  "PlainHdr_wf h \<Longrightarrow> PlainHdr_wf (PlainHdr_set_dst_unicast_nodeid i h)"
  by (cases i) (simp_all add: PlainHdr_set_dst_unicast_nodeid_def hdr_wf_simps)

lemma PlainHdr_set_dst_groupcast_nodeid_wf [wf_intros]:
  "PlainHdr_wf h \<Longrightarrow> PlainHdr_wf (PlainHdr_set_dst_groupcast_nodeid i h)"
  by (cases i) (simp_all add: PlainHdr_set_dst_groupcast_nodeid_def hdr_wf_simps ucast_ucast_u16)

lemma ProtoHdr_new_wf [wf_intros]: "ProtoHdr_wf ProtoHdr_new"
  by (simp add: ProtoHdr_new_def hdr_wf_simps)

lemma ProtoHdr_set_vendor_wf [wf_intros]: "ProtoHdr_wf h \<Longrightarrow> ProtoHdr_wf (ProtoHdr_set_vendor i h)"
  by (cases i) (simp_all add: ProtoHdr_set_vendor_def hdr_wf_simps)

lemma ProtoHdr_set_ack_wf [wf_intros]: "ProtoHdr_wf h \<Longrightarrow> ProtoHdr_wf (ProtoHdr_set_ack i h)"
  by (cases i) (simp_all add: ProtoHdr_set_ack_def hdr_wf_simps)

lemma ProtoHdr_flag_setters_wf [wf_intros]:
  assumes "ProtoHdr_wf h"
  shows "ProtoHdr_wf (ProtoHdr_set_reliable h)" "ProtoHdr_wf (ProtoHdr_unset_reliable h)"
    "ProtoHdr_wf (ProtoHdr_set_initiator h)" "ProtoHdr_wf (ProtoHdr_unset_initiator h)"
    "ProtoHdr_wf (ProtoHdr_toggle_initiator h)"
  using assms
  by (simp_all add: ProtoHdr_set_reliable_def ProtoHdr_unset_reliable_def ProtoHdr_set_initiator_def
      ProtoHdr_unset_initiator_def ProtoHdr_toggle_initiator_def hdr_wf_simps)

lemma ProtoHdr_adjust_reliability_wf [wf_intros]:
  "ProtoHdr_wf h \<Longrightarrow> ProtoHdr_wf (ProtoHdr_adjust_reliability a h)"
  by (simp add: ProtoHdr_adjust_reliability_def wf_intros)

text \<open>
  Decoding into a header object \<open>h0\<close> that has been used before leaves the fields that are not on
  the wire as they were; for a well-formed \<open>h\<close> the getters do not read them.
\<close>

definition PlainHdr_over :: "PlainHdr \<Rightarrow> PlainHdr \<Rightarrow> PlainHdr" where
  "PlainHdr_over h0 h = h
     \<lparr>ph_src_nodeid := (if flags_contains (ph_flags h) SRC_ADDR_PRESENT
                        then ph_src_nodeid h else ph_src_nodeid h0),
      ph_dst_nodeid := (if ph_flags h AND DSIZ_MASK = 0 then ph_dst_nodeid h0 else ph_dst_nodeid h)\<rparr>"

definition ProtoHdr_over :: "ProtoHdr \<Rightarrow> ProtoHdr \<Rightarrow> ProtoHdr" where
  "ProtoHdr_over h0 h = h
     \<lparr>pr_proto_vendor_id := (if flags_contains (pr_exch_flags h) VENDOR
                             then pr_proto_vendor_id h else pr_proto_vendor_id h0),
      pr_ack_msg_ctr := (if flags_contains (pr_exch_flags h) ACK
                         then pr_ack_msg_ctr h else pr_ack_msg_ctr h0)\<rparr>"

lemma PlainHdr_decodes:
  assumes "PlainHdr_wf h"
  shows "decodes PlainHdr_decode h0 (PlainHdr_bytes h) () (PlainHdr_over h0 h)"
proof -
  have fl: "flags_from_bits MsgFlags_all (ph_flags h) = Some (ph_flags h)"
      "flags_from_bits SecFlags_all (ph_sec_flags h) = Some (ph_sec_flags h)"
      "\<not> (bit (ph_flags h) 0 \<and> bit (ph_flags h) 1)"
    using assms by (simp_all add: PlainHdr_wf_def dsiz_cases)
  have g: "\<not> bit (ph_flags h) 0 \<Longrightarrow> bit (ph_flags h) 1 \<Longrightarrow>
      ucast (ucast (ph_dst_nodeid h) :: u16) = ph_dst_nodeid h"
    using assms by (simp add: PlainHdr_wf_def dsiz_cases)
  show ?thesis
    using fl g
    by (cases h; cases h0; cases "bit (ph_flags h) 2"; cases "bit (ph_flags h) 0"; cases "bit (ph_flags h) 1")
       (simp_all add: PlainHdr_decode_def PlainHdr_bytes_def PlainHdr_chunks_def PlainHdr_over_def
         dsiz_cases flags_bits decodes_rules)
qed

lemma ProtoHdr_decodes:
  assumes "ProtoHdr_wf h"
  shows "decodes ProtoHdr_decode_fields h0 (ProtoHdr_bytes h) () (ProtoHdr_over h0 h)"
  using assms
  by (cases h; cases h0; cases "flags_contains (pr_exch_flags h) VENDOR"; cases "flags_contains (pr_exch_flags h) ACK")
     (simp_all add: ProtoHdr_decode_fields_def ProtoHdr_bytes_def ProtoHdr_chunks_def
       ProtoHdr_over_def ProtoHdr_wf_def decodes_rules)

subsection \<open>Encryption in place\<close>

text \<open>
  What the codec relies on of the cipher (\<^verbatim>\<open>crypto.rs\<close>, trait \<^verbatim>\<open>Aead\<close>; AES-CCM with a 16-byte key,
  a 13-byte nonce and a 16-byte tag, hence plaintexts of less than \<open>2\<^sup>1\<^sup>6\<close> bytes): encrypting the
  first \<open>data_len\<close> bytes of a buffer with room for the tag succeeds and fills the buffer, and
  decrypting the result with the same key, nonce and associated data restores the plaintext in
  front of the tag's place.
\<close>

definition Aead_correct :: "Aead \<Rightarrow> bool" where
  "Aead_correct a \<longleftrightarrow> (\<forall>key nonce aad pt tag.
     length key = AEAD_CANON_KEY_LEN \<and> length nonce = AEAD_NONCE_LEN \<and> length aad < 0xff00 \<and>
     length pt < 0x10000 \<and> length tag = AEAD_TAG_LEN \<longrightarrow>
     (\<exists>ct out. aead_encrypt a key nonce aad (pt @ tag) (length pt) = (Ok (), ct) \<and>
        length ct = length pt + AEAD_TAG_LEN \<and>
        aead_decrypt a key nonce aad ct = (Ok (), out) \<and> length out = length ct \<and>
        take (length pt) out = pt))"

definition iv_bytes :: "u8 \<Rightarrow> u32 \<Rightarrow> u64 \<Rightarrow> bytes" where
  "iv_bytes sec_flags ctr nodeid = sec_flags # to_le_bytes 4 ctr @ to_le_bytes 8 nodeid"

lemma length_iv_bytes [simp]: "length (iv_bytes s c n) = AEAD_NONCE_LEN"
  by (simp add: iv_bytes_def AEAD_NONCE_LEN_def)

lemma get_iv_bytes: "get_iv s c n (replicate AEAD_NONCE_LEN 0) = (Ok (), iv_bytes s c n)"
  by (simp add: get_iv_def write_ints WriteBuf_append_def WriteBuf_copy_from_slice_def
      WriteBuf_append_with_def WriteBuf_new_def WriteBuf_new_with_def slice_ok_def copy_into_def
      sr_bind_def sr_modify_def AEAD_NONCE_LEN_def iv_bytes_def)

lemma WriteBuf_overwrite:
  assumes inv: "WriteBuf_inv w" and len: "length bs = length (WriteBuf_view w)"
    and f: "f (WriteBuf_view w) = (Ok (), bs)"
  obtains w' where "WriteBuf_as_mut_slice f w = (Ok (), w')" "WriteBuf_inv w'"
    "WriteBuf_view w' = bs" "wb_start w' = wb_start w"
proof -
  let ?w = "w\<lparr>wb_buf := copy_into (wb_buf w) (wb_start w) bs\<rparr>"
  from inv have le: "wb_start w \<le> wb_end w" "wb_end w \<le> length (wb_buf w)"
    by (auto simp: WriteBuf_inv_def)
  with len have e: "wb_start w + length bs = wb_end w" by (simp add: WriteBuf_view_def)
  have "WriteBuf_as_mut_slice f w = (Ok (), ?w)"
    using f le by (simp add: WriteBuf_as_mut_slice_def WriteBuf_view_def slice_ok_def)
  moreover have "WriteBuf_inv ?w" using inv e le by (simp add: WriteBuf_inv_def)
  moreover have "WriteBuf_view ?w = bs"
    using slice_copy_into_same [of "wb_start w" bs "wb_buf w"] e le by (simp add: WriteBuf_view_def)
  ultimately show ?thesis using that [of ?w] by simp
qed

lemma encrypt_in_place_ok:
  assumes inv: "WriteBuf_inv w" and room: "AEAD_TAG_LEN \<le> WriteBuf_room w"
    and a: "crypto_aead crypto = Ok a"
    and enc: "aead_encrypt a key (iv_bytes sf c n) aad (WriteBuf_view w @ replicate AEAD_TAG_LEN 0)
        (length (WriteBuf_view w)) = (Ok (), ct)"
    and len: "length ct = length (WriteBuf_view w) + AEAD_TAG_LEN"
  obtains w' where "encrypt_in_place crypto key sf c n aad w = (Ok (), w')" "WriteBuf_inv w'"
    "WriteBuf_view w' = ct" "wb_start w' = wb_start w"
proof -
  let ?z = "replicate AEAD_TAG_LEN 0 :: bytes"
  define w1 where "w1 = w\<lparr>wb_buf := copy_into (wb_buf w) (wb_end w) ?z, wb_end := wb_end w + length ?z\<rparr>"
  have fits: "length ?z \<le> WriteBuf_room w" using room by simp
  have app: "WriteBuf_append ?z w = (Ok (), w1)"
    unfolding w1_def by (rule WriteBuf_append_ok [OF inv fits])
  have w1: "WriteBuf_inv w1" "WriteBuf_view w1 = WriteBuf_view w @ ?z" "wb_start w1 = wb_start w"
    using WriteBuf_append_keeps [OF inv fits w1_def] by (simp_all add: w1_def)
  let ?f = "\<lambda>cipher_text. case crypto_aead crypto of
       Ok a \<Rightarrow> (if length cipher_text < AEAD_TAG_LEN then (Panic, cipher_text)
                else aead_encrypt a key (iv_bytes sf c n) aad cipher_text (length cipher_text - AEAD_TAG_LEN))
     | Err e \<Rightarrow> (Err e, cipher_text) | Panic \<Rightarrow> (Panic, cipher_text)"
  have f: "?f (WriteBuf_view w1) = (Ok (), ct)" using enc by (simp add: w1 a)
  have l: "length ct = length (WriteBuf_view w1)" using len w1 by simp
  from WriteBuf_overwrite [where f = ?f, OF w1(1) l f] obtain w2 where w2:
      "WriteBuf_as_mut_slice ?f w1 = (Ok (), w2)" "WriteBuf_inv w2" "WriteBuf_view w2 = ct"
      "wb_start w2 = wb_start w1" .
  have "encrypt_in_place crypto key sf c n aad w = (Ok (), w2)"
    by (simp add: encrypt_in_place_def get_iv_bytes sr_bind_def app w2(1))
  with w2 w1(3) show ?thesis using that by simp
qed

lemma decrypt_in_place_ok:
  assumes inv: "ReadBuf_inv p" and a: "crypto_aead crypto = Ok a"
    and off: "rb_read_off p \<le> PlainHdr_MAX_LEN"
    and dec: "aead_decrypt a key (iv_bytes sf c n) (take (rb_read_off p) (rb_buf p)) (ReadBuf_rest p) = (Ok (), out)"
    and len: "length out = length (ReadBuf_rest p)" "AEAD_TAG_LEN \<le> length out"
  obtains p' where "decrypt_in_place crypto key sf c n p = (Ok (), p')" "ReadBuf_inv p'"
    "ReadBuf_rest p' = take (length out - AEAD_TAG_LEN) out"
proof -
  define p1 where "p1 = p\<lparr>rb_buf := copy_into (rb_buf p) (rb_read_off p) out\<rparr>"
  define p2 where "p2 = p1\<lparr>rb_left := rb_left p1 - AEAD_TAG_LEN\<rparr>"
  from inv have le: "rb_read_off p + rb_left p \<le> length (rb_buf p)" "rb_left p = length out"
    using len by (simp_all add: ReadBuf_inv_def)
  have parsed: "ReadBuf_parsed_as_slice p = Ok (take (rb_read_off p) (rb_buf p))"
    using le by (simp add: ReadBuf_parsed_as_slice_def slice_res_def slice_ok_def slice_of_def)
  have mut: "ReadBuf_as_mut_slice (\<lambda>ct. case crypto_aead crypto of
        Ok a \<Rightarrow> aead_decrypt a key (iv_bytes sf c n) (take (rb_read_off p) (rb_buf p)) ct
      | Err e \<Rightarrow> (Err e, ct) | Panic \<Rightarrow> (Panic, ct)) p = (Ok (), p1)"
    using dec le by (simp add: ReadBuf_as_mut_slice_def slice_ok_def a p1_def ReadBuf_rest_def)
  have p1: "ReadBuf_inv p1" "ReadBuf_rest p1 = out" "rb_left p1 = length out"
    using le slice_copy_into_same [of "rb_read_off p" out "rb_buf p"]
    by (simp_all add: ReadBuf_inv_def ReadBuf_rest_def p1_def)
  have tl: "ReadBuf_tail AEAD_TAG_LEN p1 = (Ok (drop (rb_left p1 - AEAD_TAG_LEN) (ReadBuf_rest p1)), p2)"
      "ReadBuf_rest p2 = take (rb_left p1 - AEAD_TAG_LEN) (ReadBuf_rest p1)"
    unfolding p2_def using ReadBuf_tail_ok [OF p1(1)] p1 len(2) by simp_all
  have "decrypt_in_place crypto key sf c n p = (Ok (), p2)"
    using off le by (simp add: decrypt_in_place_def get_iv_bytes sr_bind_def sr_get_def sr_res_def parsed
        mut tl sr_return_def)
  moreover have "ReadBuf_inv p2" using p1 by (auto simp: ReadBuf_inv_def p2_def)
  ultimately show ?thesis using that tl(2) p1 by simp
qed

subsection \<open>The whole packet\<close>

lemma WriteBuf_prepend_view:
  assumes "WriteBuf_inv w" and "length bs \<le> wb_start w"
  obtains w' where "WriteBuf_prepend bs w = (Ok (), w')" "WriteBuf_inv w'"
    "WriteBuf_view w' = bs @ WriteBuf_view w" "wb_start w' = wb_start w - length bs"
    "WriteBuf_room w' = WriteBuf_room w"
  using WriteBuf_prepend_ok [OF assms] WriteBuf_prepend_keeps [OF assms refl]
  by (simp add: WriteBuf_room_def)

text \<open>The encrypted or plain body of the packet, and what it takes to write it.\<close>

definition encryptable :: "Crypto \<Rightarrow> bytes option \<Rightarrow> nat \<Rightarrow> nat \<Rightarrow> bool" where
  "encryptable crypto key n room = (case key of
     None \<Rightarrow> True
   | Some k \<Rightarrow> length k = AEAD_CANON_KEY_LEN \<and> n < 0x10000 \<and> AEAD_TAG_LEN \<le> room \<and>
       (case crypto_aead crypto of Ok a \<Rightarrow> Aead_correct a | _ \<Rightarrow> False))"

definition opens :: "Crypto \<Rightarrow> bytes option \<Rightarrow> PlainHdr \<Rightarrow> u64 \<Rightarrow> bytes \<Rightarrow> bytes \<Rightarrow> bool" where
  "opens crypto key plain nodeid body pt = (case key of
     None \<Rightarrow> body = pt
   | Some k \<Rightarrow> (\<exists>a out. crypto_aead crypto = Ok a \<and>
       aead_decrypt a k (iv_bytes (ph_sec_flags plain) (ph_ctr plain) nodeid) (PlainHdr_bytes plain) body = (Ok (), out) \<and>
       length out = length body \<and> length body = length pt + AEAD_TAG_LEN \<and> take (length pt) out = pt))"

lemma encrypt_step:
  assumes inv: "WriteBuf_inv w" and ok: "encryptable crypto key (length (WriteBuf_view w)) (WriteBuf_room w)"
  obtains w' where "(case key of Some k \<Rightarrow> encrypt_in_place crypto k (ph_sec_flags plain) (ph_ctr plain) nodeid
        (PlainHdr_bytes plain) | None \<Rightarrow> sr_return ()) w = (Ok (), w')"
    "WriteBuf_inv w'" "opens crypto key plain nodeid (WriteBuf_view w') (WriteBuf_view w)"
    "wb_start w' = wb_start w"
proof (cases key)
  case None
  then show ?thesis using inv that [of w] by (simp add: sr_return_def opens_def)
next
  case (Some k)
  then obtain a where a: "crypto_aead crypto = Ok a" "Aead_correct a" "length k = AEAD_CANON_KEY_LEN"
      "length (WriteBuf_view w) < 0x10000" "AEAD_TAG_LEN \<le> WriteBuf_room w"
    using ok by (auto simp: encryptable_def split: res.splits)
  let ?iv = "iv_bytes (ph_sec_flags plain) (ph_ctr plain) nodeid"
  have "length (PlainHdr_bytes plain) < 0xff00" using length_PlainHdr_bytes [of plain] by simp
  then obtain ct out where enc: "aead_encrypt a k ?iv (PlainHdr_bytes plain)
        (WriteBuf_view w @ replicate AEAD_TAG_LEN 0) (length (WriteBuf_view w)) = (Ok (), ct)"
      "length ct = length (WriteBuf_view w) + AEAD_TAG_LEN"
      "aead_decrypt a k ?iv (PlainHdr_bytes plain) ct = (Ok (), out)" "length out = length ct"
      "take (length (WriteBuf_view w)) out = WriteBuf_view w"
    using a(2) [unfolded Aead_correct_def, rule_format, of k ?iv "PlainHdr_bytes plain" "WriteBuf_view w"
        "replicate AEAD_TAG_LEN 0"] a(3,4) by auto
  from encrypt_in_place_ok [OF inv a(5) a(1) enc(1,2)] obtain w' where w':
      "encrypt_in_place crypto k (ph_sec_flags plain) (ph_ctr plain) nodeid (PlainHdr_bytes plain) w = (Ok (), w')"
      "WriteBuf_inv w'" "WriteBuf_view w' = ct" "wb_start w' = wb_start w" .
  show ?thesis using that [of w'] w' enc a(1) by (simp add: Some opens_def)
qed

lemma PacketHdr_encode_ok:
  assumes inv: "WriteBuf_inv w" and head: "HDR_RESERVE \<le> wb_start w"
    and ok: "encryptable crypto key (ProtoHdr_MAX_LEN + length (WriteBuf_view w)) (WriteBuf_room w)"
  obtains w' body where "PacketHdr_encode k crypto key nodeid w = (Ok (), w')" "WriteBuf_inv w'"
    "WriteBuf_view w' = PlainHdr_bytes (pk_plain k) @ body"
    "opens crypto key (pk_plain k) nodeid body (ProtoHdr_bytes (pk_proto k) @ WriteBuf_view w)"
proof -
  let ?pr = "ProtoHdr_bytes (pk_proto k)" and ?pl = "PlainHdr_bytes (pk_plain k)"
  have len: "length ?pr + length ?pl \<le> wb_start w"
    using head length_ProtoHdr_bytes [of "pk_proto k"] length_PlainHdr_bytes [of "pk_plain k"]
    by (simp add: HDR_RESERVE_def PlainHdr_MAX_LEN_def)
  obtain b1 where b1: "ProtoHdr_encode (pk_proto k) (WriteBuf_new (replicate ProtoHdr_MAX_LEN 0)) = (Ok (), b1)"
      "WriteBuf_as_slice b1 = Ok ?pr" using ProtoHdr_encode_fresh by blast
  obtain b2 where b2: "PlainHdr_encode (pk_plain k) (WriteBuf_new (replicate PlainHdr_MAX_LEN 0)) = (Ok (), b2)"
      "WriteBuf_as_slice b2 = Ok ?pl" using PlainHdr_encode_fresh by blast
  obtain w1 where w1: "WriteBuf_prepend ?pr w = (Ok (), w1)" "WriteBuf_inv w1"
      "WriteBuf_view w1 = ?pr @ WriteBuf_view w" "wb_start w1 = wb_start w - length ?pr"
      "WriteBuf_room w1 = WriteBuf_room w"
    using WriteBuf_prepend_view [OF inv, of ?pr] len by auto
  have "encryptable crypto key (length (WriteBuf_view w1)) (WriteBuf_room w1)"
    using ok w1(3,5) length_ProtoHdr_bytes [of "pk_proto k"]
    by (auto simp: encryptable_def split: option.splits)
  from encrypt_step [OF w1(2) this, of "pk_plain k" nodeid] obtain w2 where w2:
      "(case key of Some e \<Rightarrow> encrypt_in_place crypto e (ph_sec_flags (pk_plain k)) (ph_ctr (pk_plain k)) nodeid ?pl
        | None \<Rightarrow> sr_return ()) w1 = (Ok (), w2)" "WriteBuf_inv w2"
      "opens crypto key (pk_plain k) nodeid (WriteBuf_view w2) (WriteBuf_view w1)" "wb_start w2 = wb_start w1"
    by blast
  obtain w3 where w3: "WriteBuf_prepend ?pl w2 = (Ok (), w3)" "WriteBuf_inv w3"
      "WriteBuf_view w3 = ?pl @ WriteBuf_view w2"
    using WriteBuf_prepend_view [OF w2(2), of ?pl] len w2(4) w1(4) by (metis add_le_imp_le_diff add.commute)
  have "PacketHdr_encode k crypto key nodeid w = (Ok (), w3)"
    by (simp add: PacketHdr_encode_def sr_bind_def sr_local_def sr_res_def b1 b2 w1(1) w2(1) w3(1))
  with w2 w3 w1 show ?thesis using that by simp
qed

text \<open>Decoding opens the body again, whatever was in the header object before.\<close>

lemma decrypt_step:
  assumes p: "ReadBuf_inv p" "rb_buf p = PlainHdr_bytes plain @ body"
      "rb_read_off p = length (PlainHdr_bytes plain)" "ReadBuf_rest p = body"
    and op: "opens crypto key plain nodeid body pt"
  obtains p' where "(case key of
      Some e \<Rightarrow> on_snd (decrypt_in_place crypto e (ph_sec_flags plain) (ph_ctr plain) nodeid)
    | None \<Rightarrow> sr_return ()) (h, p) = (Ok (), (h, p'))" "ReadBuf_inv p'" "ReadBuf_rest p' = pt"
proof (cases key)
  case None
  then show ?thesis using p op that [of p] by (simp add: sr_return_def opens_def)
next
  case (Some e)
  then obtain a out where o: "crypto_aead crypto = Ok a"
      "aead_decrypt a e (iv_bytes (ph_sec_flags plain) (ph_ctr plain) nodeid) (PlainHdr_bytes plain) body = (Ok (), out)"
      "length out = length body" "length body = length pt + AEAD_TAG_LEN" "take (length pt) out = pt"
    using op by (auto simp: opens_def)
  have dec: "aead_decrypt a e (iv_bytes (ph_sec_flags plain) (ph_ctr plain) nodeid)
      (take (rb_read_off p) (rb_buf p)) (ReadBuf_rest p) = (Ok (), out)"
    using o(2) p by simp
  have off: "rb_read_off p \<le> PlainHdr_MAX_LEN"
    using length_PlainHdr_bytes [of plain] p by (simp add: PlainHdr_MAX_LEN_def)
  have l: "length out = length (ReadBuf_rest p)" "AEAD_TAG_LEN \<le> length out"
    using o(3,4) p by simp_all
  from decrypt_in_place_ok [OF p(1) o(1) off dec l] obtain p2 where
    "decrypt_in_place crypto e (ph_sec_flags plain) (ph_ctr plain) nodeid p = (Ok (), p2)"
    "ReadBuf_inv p2" "ReadBuf_rest p2 = take (length out - AEAD_TAG_LEN) out" .
  then show ?thesis using that [of p2] o(3,4,5) by (simp add: Some on_snd_def)
qed

lemma PacketHdr_decode_ok:
  assumes wf: "PlainHdr_wf plain" "ProtoHdr_wf proto"
    and op: "opens crypto key plain nodeid body (ProtoHdr_bytes proto @ payload)"
  obtains p' where "sr_then PacketHdr_decode_plain_hdr (PacketHdr_decode_remaining crypto key nodeid)
      (k, ReadBuf_new (PlainHdr_bytes plain @ body)) =
      (Ok (), (k\<lparr>pk_plain := PlainHdr_over (pk_plain k) plain, pk_proto := ProtoHdr_over (pk_proto k) proto\<rparr>, p'))"
    "ReadBuf_inv p'" "ReadBuf_rest p' = payload"
proof -
  let ?p0 = "ReadBuf_new (PlainHdr_bytes plain @ body)" and ?o = "PlainHdr_over (pk_plain k) plain"
  let ?p1 = "ReadBuf_skip (length (PlainHdr_bytes plain)) ?p0"
  have d1: "PlainHdr_decode (pk_plain k, ?p0) = (Ok (), (?o, ?p1))"
    using PlainHdr_decodes [OF wf(1), of "pk_plain k"] by (simp add: decodes_def wf_intros)
  have p1: "ReadBuf_inv ?p1" "ReadBuf_rest ?p1 = body"
    using ReadBuf_skip_prefix [of ?p0 "PlainHdr_bytes plain" body] by (simp_all add: wf_intros)
  have buf: "rb_buf ?p1 = PlainHdr_bytes plain @ body" "rb_read_off ?p1 = length (PlainHdr_bytes plain)"
    by (simp_all add: ReadBuf_skip_def ReadBuf_new_def)
  from decrypt_step [OF p1(1) buf p1(2) op, of "pk_proto k"] obtain p2 where p2: "(case key of
        Some e \<Rightarrow> on_snd (decrypt_in_place crypto e (ph_sec_flags plain) (ph_ctr plain) nodeid)
      | None \<Rightarrow> sr_return ()) (pk_proto k, ?p1) = (Ok (), (pk_proto k, p2))"
      "ReadBuf_inv p2" "ReadBuf_rest p2 = ProtoHdr_bytes proto @ payload" .
  let ?p3 = "ReadBuf_skip (length (ProtoHdr_bytes proto)) p2"
  have over: "ph_sec_flags ?o = ph_sec_flags plain" "ph_ctr ?o = ph_ctr plain"
    by (simp_all add: PlainHdr_over_def)
  have "ProtoHdr_decode_fields (pk_proto k, p2) = (Ok (), (ProtoHdr_over (pk_proto k) proto, ?p3))"
    using ProtoHdr_decodes [OF wf(2), of "pk_proto k"] p2(2,3) by (simp add: decodes_def)
  then have d2: "ProtoHdr_decrypt_and_decode crypto key nodeid ?o (pk_proto k, ?p1) =
      (Ok (), (ProtoHdr_over (pk_proto k) proto, ?p3))"
    unfolding ProtoHdr_decrypt_and_decode_def over by (simp add: sr_bind_def p2(1))
  have "ReadBuf_inv ?p3 \<and> ReadBuf_rest ?p3 = payload" using ReadBuf_skip_prefix [OF p2(2,3)] by simp
  moreover have "sr_then PacketHdr_decode_plain_hdr (PacketHdr_decode_remaining crypto key nodeid) (k, ?p0) =
      (Ok (), (k\<lparr>pk_plain := ?o, pk_proto := ProtoHdr_over (pk_proto k) proto\<rparr>, ?p3))"
    by (simp add: sr_bind_def PacketHdr_decode_plain_hdr_def PacketHdr_decode_remaining_def d1 d2)
  ultimately show ?thesis using that by blast
qed

lemma over_new:
  "PlainHdr_wf h \<Longrightarrow> PlainHdr_over PlainHdr_new h = h" "ProtoHdr_wf g \<Longrightarrow> ProtoHdr_over ProtoHdr_new g = g"
  by (cases h; simp add: PlainHdr_over_def PlainHdr_wf_def PlainHdr_new_def)
     (cases g; simp add: ProtoHdr_over_def ProtoHdr_wf_def ProtoHdr_new_def)

subsection \<open>Robustness of the decoders\<close>

text \<open>What the decoder relies on of the cipher on arbitrary input: it fails or succeeds, in place.\<close>

definition Aead_total :: "Aead \<Rightarrow> bool" where
  "Aead_total a \<longleftrightarrow> (\<forall>key nonce aad data.
     fst (aead_decrypt a key nonce aad data) \<noteq> Panic \<and>
     length (snd (aead_decrypt a key nonce aad data)) = length data)"

lemma PlainHdr_decode_reads: "reads_safely 24 PlainHdr_decode"
  unfolding PlainHdr_decode_def
  by (rule reads_mono, (rule reads_bind reads_rules reads_if)+, simp)

lemma ProtoHdr_decode_reads: "reads_safely 12 ProtoHdr_decode_fields"
  unfolding ProtoHdr_decode_fields_def
  by (rule reads_mono, (rule reads_bind reads_rules reads_if)+, simp)

definition Crypto_total :: "Crypto \<Rightarrow> bool" where
  "Crypto_total crypto = (case crypto_aead crypto of Ok a \<Rightarrow> Aead_total a | Err _ \<Rightarrow> True | Panic \<Rightarrow> False)"

lemma ReadBuf_as_mut_slice_safe:
  assumes p: "ReadBuf_inv p" and f: "\<And>bs. fst (f bs) \<noteq> Panic" "\<And>bs. length (snd (f bs)) = length bs"
  obtains r p' where "ReadBuf_as_mut_slice f p = (r, p')" "r \<noteq> Panic" "ReadBuf_inv p'"
proof -
  let ?v = "slice_of (rb_buf p) (rb_read_off p) (rb_read_off p + rb_left p)"
  obtain r bs where r: "f ?v = (r, bs)" by fastforce
  with f [of ?v] p have "r \<noteq> Panic" "length bs = rb_left p" by (simp_all add: ReadBuf_inv_def)
  then show ?thesis
    using that [of r "p\<lparr>rb_buf := copy_into (rb_buf p) (rb_read_off p) bs\<rparr>"] p r
    by (simp add: ReadBuf_as_mut_slice_def ReadBuf_inv_def slice_ok_def)
qed

lemma ReadBuf_tail_safe:
  "ReadBuf_inv p \<Longrightarrow> fst (ReadBuf_tail n p) \<noteq> Panic \<and> ReadBuf_inv (snd (ReadBuf_tail n p))"
  by (auto simp: ReadBuf_tail_def slice_res_def slice_ok_def ReadBuf_inv_def)

lemma decrypt_in_place_safe:
  assumes p: "ReadBuf_inv p" "rb_read_off p \<le> PlainHdr_MAX_LEN" and c: "Crypto_total crypto"
  shows "fst (decrypt_in_place crypto key sf ctr n p) \<noteq> Panic \<and>
    ReadBuf_inv (snd (decrypt_in_place crypto key sf ctr n p))"
proof -
  let ?aad = "take (rb_read_off p) (rb_buf p)"
  let ?f = "\<lambda>ct. case crypto_aead crypto of
      Ok a \<Rightarrow> aead_decrypt a key (iv_bytes sf ctr n) ?aad ct | Err e \<Rightarrow> (Err e, ct) | Panic \<Rightarrow> (Panic, ct)"
  have f: "fst (?f bs) \<noteq> Panic" "length (snd (?f bs)) = length bs" for bs
    using c by (auto simp: Crypto_total_def Aead_total_def split: res.splits)
  obtain r p' where m: "ReadBuf_as_mut_slice ?f p = (r, p')" "r \<noteq> Panic" "ReadBuf_inv p'"
    using ReadBuf_as_mut_slice_safe [where f = ?f, OF p(1) f] .
  have parsed: "ReadBuf_parsed_as_slice p = Ok ?aad"
    using p by (simp add: ReadBuf_parsed_as_slice_def slice_res_def slice_ok_def slice_of_def ReadBuf_inv_def)
  have e: "decrypt_in_place crypto key sf ctr n p =
      sr_then (ReadBuf_as_mut_slice ?f) (sr_then (ReadBuf_tail AEAD_TAG_LEN) (sr_return ())) p"
    using p by (simp add: decrypt_in_place_def get_iv_bytes parsed ReadBuf_inv_def)
  show ?thesis
    using ReadBuf_tail_safe [OF m(3), of AEAD_TAG_LEN] m
    by (auto simp: e sr_bind_def sr_return_def split: res.splits prod.splits)
qed

lemma PacketHdr_decode_safe:
  assumes c: "Crypto_total crypto"
  shows "fst (sr_then PacketHdr_decode_plain_hdr (PacketHdr_decode_remaining crypto key nodeid)
    (k, ReadBuf_new bs)) \<noteq> Panic"
proof -
  have inv0: "ReadBuf_inv (ReadBuf_new bs)" "rb_read_off (ReadBuf_new bs) = 0"
    by (simp_all add: wf_intros) (simp add: ReadBuf_new_def)
  obtain r1 h1 p1 where d1: "PlainHdr_decode (pk_plain k, ReadBuf_new bs) = (r1, (h1, p1))"
    by (metis prod_cases3)
  have p1: "r1 \<noteq> Panic" "ReadBuf_inv p1" "rb_read_off p1 \<le> PlainHdr_MAX_LEN"
    using PlainHdr_decode_reads [unfolded reads_safely_def, rule_format, OF inv0(1), of "pk_plain k"] d1 inv0
    by (simp_all add: PlainHdr_MAX_LEN_def)
  let ?dec = "(case key of
      Some e \<Rightarrow> on_snd (decrypt_in_place crypto e (ph_sec_flags h1) (ph_ctr h1) nodeid)
    | None \<Rightarrow> sr_return ())"
  obtain r2 p2 where d2: "?dec (pk_proto k, p1) = (r2, (pk_proto k, p2))" "r2 \<noteq> Panic" "ReadBuf_inv p2"
  proof (cases key)
    case None
    then show ?thesis using that [of "Ok ()" p1] p1(2) by (simp add: sr_return_def)
  next
    case (Some e)
    then show ?thesis
      using that decrypt_in_place_safe [OF p1(2,3) c, of e "ph_sec_flags h1" "ph_ctr h1" nodeid]
      by (cases "decrypt_in_place crypto e (ph_sec_flags h1) (ph_ctr h1) nodeid p1") (simp add: on_snd_def)
  qed
  have d3: "fst (ProtoHdr_decode_fields (pk_proto k, p2)) \<noteq> Panic"
    using ProtoHdr_decode_reads d2(3) unfolding reads_safely_def by blast
  have "fst (ProtoHdr_decrypt_and_decode crypto key nodeid h1 (pk_proto k, p1)) \<noteq> Panic"
    using d3 d2(2) by (cases r2) (simp_all add: ProtoHdr_decrypt_and_decode_def sr_bind_def d2(1))
  with p1(1) show ?thesis
    by (cases r1) (auto simp: sr_bind_def PacketHdr_decode_plain_hdr_def PacketHdr_decode_remaining_def d1
        split: prod.splits)
qed

subsection \<open>A concrete cipher\<close>

text \<open>
  An instance of the cipher's contract, to run the codec on: it masks the plaintext with a byte of
  the key material and appends a checksum of everything it is given.
\<close>

definition xor_mac :: "bytes \<Rightarrow> bytes \<Rightarrow> bytes \<Rightarrow> bytes \<Rightarrow> bytes" where
  "xor_mac key nonce aad pt = replicate AEAD_TAG_LEN (sum_list (key @ nonce @ aad @ pt))"

definition xor_mask :: "bytes \<Rightarrow> bytes \<Rightarrow> bytes" where
  "xor_mask key bs = map (\<lambda>b. b XOR sum_list key) bs"

definition xor_aead :: Aead where
  "xor_aead = \<lparr>
     aead_encrypt = (\<lambda>key nonce aad data n.
       (Ok (), xor_mask key (take n data) @ xor_mac key nonce aad (take n data))),
     aead_decrypt = (\<lambda>key nonce aad data.
       if length data < AEAD_TAG_LEN then (Err InvalidData, data)
       else let n = length data - AEAD_TAG_LEN; pt = xor_mask key (take n data) in
         if drop n data = xor_mac key nonce aad pt then (Ok (), pt @ drop n data)
         else (Err InvalidData, data))\<rparr>"

lemma xor_mask_simps [simp]: "xor_mask key (xor_mask key bs) = bs" "length (xor_mask key bs) = length bs"
  by (simp_all add: xor_mask_def comp_def xor.assoc)

lemma length_xor_mac [simp]: "length (xor_mac key nonce aad pt) = AEAD_TAG_LEN"
  by (simp add: xor_mac_def)

lemma xor_aead_correct: "Aead_correct xor_aead"
  by (simp add: Aead_correct_def xor_aead_def Let_def)

lemma xor_aead_total: "Aead_total xor_aead"
  by (auto simp: Aead_total_def xor_aead_def Let_def)

subsection \<open>Properties\<close>

text \<open>
  Claim C7. Packets survive the wire: a message whose headers were built with the setters, encoded into a
  buffer with the reserved headroom, and encrypted when the session has a key, decodes on the
  other side (same key, same node id in the nonce) to exactly the same headers and payload. Both
  encoding and decoding succeed. For encrypted packets the cipher is assumed to be correct.
\<close>

theorem packet_roundtrip:
  assumes "PlainHdr_wf plain" and "ProtoHdr_wf proto"
    and "WriteBuf_inv w" and "WriteBuf_as_slice w = Ok payload" and "HDR_RESERVE \<le> wb_start w"
    and "encryptable crypto key (ProtoHdr_MAX_LEN + length payload) (WriteBuf_room w)"
  shows "\<exists>w' bs p'.
    PacketHdr_encode \<lparr>pk_plain = plain, pk_proto = proto\<rparr> crypto key nodeid w = (Ok (), w') \<and>
    WriteBuf_as_slice w' = Ok bs \<and>
    sr_then PacketHdr_decode_plain_hdr (PacketHdr_decode_remaining crypto key nodeid)
      (PacketHdr_new, ReadBuf_new bs) = (Ok (), (\<lparr>pk_plain = plain, pk_proto = proto\<rparr>, p')) \<and>
    ReadBuf_as_slice p' = Ok payload"
proof -
  let ?k = "\<lparr>pk_plain = plain, pk_proto = proto\<rparr>"
  have v: "WriteBuf_view w = payload" using WriteBuf_as_slice_view [OF assms(3)] assms(4) by simp
  obtain w' body where e: "PacketHdr_encode ?k crypto key nodeid w = (Ok (), w')" "WriteBuf_inv w'"
      "WriteBuf_view w' = PlainHdr_bytes plain @ body"
      "opens crypto key plain nodeid body (ProtoHdr_bytes proto @ payload)"
    using PacketHdr_encode_ok [OF assms(3,5), of crypto key ?k nodeid] assms(6) v by auto
  from PacketHdr_decode_ok [OF assms(1,2) e(4), of PacketHdr_new] obtain p' where
      "sr_then PacketHdr_decode_plain_hdr (PacketHdr_decode_remaining crypto key nodeid)
        (PacketHdr_new, ReadBuf_new (PlainHdr_bytes plain @ body)) = (Ok (), (?k, p'))"
      "ReadBuf_inv p'" "ReadBuf_rest p' = payload"
    by (auto simp: over_new assms PacketHdr_new_def)
  then show ?thesis
    using e WriteBuf_as_slice_view [OF e(2)] ReadBuf_as_slice_rest by metis
qed

theorem packet_roundtrip_witness:
  "\<exists>w' bs p'.
    PacketHdr_encode \<lparr>pk_plain = PlainHdr_set_src_nodeid (Some 5) (PlainHdr_new\<lparr>ph_sess_id := 3, ph_ctr := 9\<rparr>),
        pk_proto = ProtoHdr_set_ack (Some 77) ProtoHdr_new\<rparr> \<lparr>crypto_aead = Ok xor_aead\<rparr> (Some (replicate 16 7)) 5
      \<lparr>wb_buf = replicate 40 0 @ [1, 2, 3] @ replicate 21 0, wb_size = 64, wb_start = 40, wb_end = 43\<rparr> = (Ok (), w') \<and>
    WriteBuf_as_slice w' = Ok bs \<and>
    sr_then PacketHdr_decode_plain_hdr
      (PacketHdr_decode_remaining \<lparr>crypto_aead = Ok xor_aead\<rparr> (Some (replicate 16 7)) 5)
      (PacketHdr_new, ReadBuf_new bs) = (Ok (),
        (\<lparr>pk_plain = PlainHdr_set_src_nodeid (Some 5) (PlainHdr_new\<lparr>ph_sess_id := 3, ph_ctr := 9\<rparr>),
          pk_proto = ProtoHdr_set_ack (Some 77) ProtoHdr_new\<rparr>, p')) \<and>
    ReadBuf_as_slice p' = Ok [1, 2, 3]"
proof (rule packet_roundtrip)
  show "PlainHdr_wf (PlainHdr_set_src_nodeid (Some 5) (PlainHdr_new\<lparr>ph_sess_id := 3, ph_ctr := 9\<rparr>))"
    using PlainHdr_new_wf by (intro wf_intros) (simp add: PlainHdr_wf_def)
  show "ProtoHdr_wf (ProtoHdr_set_ack (Some 77) ProtoHdr_new)" by (intro wf_intros)
qed (simp_all add: WriteBuf_inv_def WriteBuf_as_slice_def slice_res_def slice_ok_def slice_of_def
    HDR_RESERVE_def PlainHdr_MAX_LEN_def ProtoHdr_MAX_LEN_def encryptable_def AEAD_CANON_KEY_LEN_def
    AEAD_TAG_LEN_def WriteBuf_room_def xor_aead_correct)



text \<open>
  Claim C39. The setters and getters of the headers agree and do not disturb each other: a header has
  at most one kind of destination, whatever was set before, setting a field to \<^verbatim>\<open>None\<close> removes it
  from the wire, and no setter of the protocol header changes another field.
\<close>

theorem header_fields_independent:
  "PlainHdr_get_src_nodeid (PlainHdr_set_src_nodeid s h) = s \<and>
   PlainHdr_get_dst_unicast_nodeid (PlainHdr_set_dst_unicast_nodeid u h) = u \<and>
   PlainHdr_get_dst_groupcast_nodeid (PlainHdr_set_dst_unicast_nodeid u h) = None \<and>
   PlainHdr_get_dst_groupcast_nodeid (PlainHdr_set_dst_groupcast_nodeid g h) = g \<and>
   PlainHdr_get_dst_unicast_nodeid (PlainHdr_set_dst_groupcast_nodeid g h) = None \<and>
   PlainHdr_get_src_nodeid (PlainHdr_set_dst_groupcast_nodeid g h) = PlainHdr_get_src_nodeid h \<and>
   PlainHdr_get_src_nodeid (PlainHdr_set_dst_unicast_nodeid u h) = PlainHdr_get_src_nodeid h \<and>
   ProtoHdr_get_ack (ProtoHdr_set_ack a p) = a \<and> ProtoHdr_get_vendor (ProtoHdr_set_vendor v p) = v \<and>
   ProtoHdr_get_ack (ProtoHdr_set_vendor v p) = ProtoHdr_get_ack p \<and>
   ProtoHdr_get_vendor (ProtoHdr_set_ack a p) = ProtoHdr_get_vendor p \<and>
   ProtoHdr_is_reliable (ProtoHdr_set_ack a p) = ProtoHdr_is_reliable p \<and>
   ProtoHdr_is_initiator (ProtoHdr_toggle_initiator p) = (\<not> ProtoHdr_is_initiator p) \<and>
   ProtoHdr_get_ack (ProtoHdr_toggle_initiator p) = ProtoHdr_get_ack p"
proof -
  have "PlainHdr_get_dst_groupcast_nodeid (PlainHdr_set_dst_groupcast_nodeid g h) = g"
    by (cases g) (simp_all add: PlainHdr_get_dst_groupcast_nodeid_def PlainHdr_set_dst_groupcast_nodeid_def
        dsiz_cases bit_flags_ops bit_DSIZ_MASK)
  then show ?thesis
    by (auto simp: PlainHdr_get_src_nodeid_def PlainHdr_set_src_nodeid_def
        PlainHdr_get_dst_unicast_nodeid_def PlainHdr_set_dst_unicast_nodeid_def
        PlainHdr_get_dst_groupcast_nodeid_def PlainHdr_set_dst_groupcast_nodeid_def
        ProtoHdr_get_ack_def ProtoHdr_set_ack_def ProtoHdr_get_vendor_def ProtoHdr_set_vendor_def
        ProtoHdr_is_reliable_def ProtoHdr_is_initiator_def ProtoHdr_toggle_initiator_def
        ProtoHdr_set_initiator_def ProtoHdr_unset_initiator_def
        dsiz_cases flags_bits bit_flags_ops bit_DSIZ_MASK split: option.splits)
qed

text \<open>
  Claim C36. Headers with unknown bits are refused: a message flags byte or a security flags byte with
  a bit that is not defined makes the decoder return \<^verbatim>\<open>Invalid\<close>, in the first case with the header
  object unchanged; a datagram that ends before the flags is a \<^verbatim>\<open>TruncatedPacket\<close>.
\<close>

theorem plain_decode_rejects:
  "PlainHdr_decode (h, ReadBuf_new []) = (Err TruncatedPacket, (h, ReadBuf_new [])) \<and>
   (b AND NOT 0x07 \<noteq> 0 \<longrightarrow>
      PlainHdr_decode (h, ReadBuf_new (b # bs)) = (Err Invalid, (h, ReadBuf_skip 1 (ReadBuf_new (b # bs))))) \<and>
   (s AND NOT 0x01 \<noteq> 0 \<longrightarrow> fst (PlainHdr_decode (h, ReadBuf_new (b # i # j # s # bs))) = Err Invalid)"
proof -
  have r1: "ReadBuf_le_u8 (ReadBuf_new (b # cs)) = (Ok b, ReadBuf_skip 1 (ReadBuf_new (b # cs))) \<and>
      ReadBuf_inv (ReadBuf_skip 1 (ReadBuf_new (b # cs))) \<and> ReadBuf_rest (ReadBuf_skip 1 (ReadBuf_new (b # cs))) = cs" for cs
    using ReadBuf_le_u8_prefix [of "ReadBuf_new (b # cs)" b cs] by (simp add: wf_intros)
  let ?p = "ReadBuf_skip 1 (ReadBuf_new (b # i # j # s # bs))"
  have r2: "ReadBuf_le_u16 ?p = (Ok (from_le_bytes [i, j]), ReadBuf_skip 2 ?p) \<and>
      ReadBuf_inv (ReadBuf_skip 2 ?p) \<and> ReadBuf_rest (ReadBuf_skip 2 ?p) = s # bs"
    unfolding ReadBuf_int_defs by (rule ReadBuf_array_prefix) (simp_all add: r1 [simplified])
  have r3: "ReadBuf_le_u8 (ReadBuf_skip 2 ?p) = (Ok s, ReadBuf_skip 1 (ReadBuf_skip 2 ?p))"
    using ReadBuf_le_u8_prefix [of "ReadBuf_skip 2 ?p" s bs] r2 by simp
  have e: "PlainHdr_decode (h, ReadBuf_new []) = (Err TruncatedPacket, (h, ReadBuf_new []))"
    by (simp add: PlainHdr_decode_def sr_bind_def on_snd_def ReadBuf_le_u8_def ReadBuf_parse_head_with_def
        ReadBuf_new_def)
  have f: "b AND NOT 0x07 \<noteq> 0 \<Longrightarrow>
      PlainHdr_decode (h, ReadBuf_new (b # cs)) = (Err Invalid, (h, ReadBuf_skip 1 (ReadBuf_new (b # cs))))" for cs
    using r1 [of cs] by (simp add: PlainHdr_decode_def sr_bind_def on_snd_def flags_from_bits_def sr_ok_or_def
        sr_err_def MsgFlags_all_def)
  have "s AND NOT 0x01 \<noteq> 0 \<Longrightarrow> b AND NOT 0x07 = 0 \<Longrightarrow>
      fst (PlainHdr_decode (h, ReadBuf_new (b # i # j # s # bs))) = Err Invalid"
    using r1 r2 r3 by (simp add: PlainHdr_decode_def sr_bind_def on_snd_def on_fst_def flags_from_bits_def sr_ok_or_def
        sr_err_def sr_return_def sr_modify_def MsgFlags_all_def SecFlags_all_def)
  with e f show ?thesis by (cases "b AND NOT 0x07 = 0") simp_all
qed

theorem plain_decode_rejects_witness:
  "fst (PlainHdr_decode (PlainHdr_new, ReadBuf_new [0x80, 1])) = Err Invalid \<and>
   fst (PlainHdr_decode (PlainHdr_new, ReadBuf_new [0x04, 1, 0, 0x02, 5])) = Err Invalid"
  using plain_decode_rejects [of PlainHdr_new "0x80" "[1]" 0 0 0]
    plain_decode_rejects [of PlainHdr_new "0x04" "[5]" "0x02" 1 0]
  by simp

end
