(* ===== verification/Mrp.thy ===== *)
theory Mrp
  imports Headers
begin

section \<open>The message reliability protocol\<close>

text \<open>
  \<^verbatim>\<open>transport/mrp.rs\<close>: per exchange, one message that waits for its acknowledgement (\<open>RetransEntry\<close>)
  and one received message that is still to be acknowledged (\<open>AckEntry\<close>). The clock \<^verbatim>\<open>epoch\<close> is
  a callback; the model passes the milliseconds it returns. Delays are computed in 64-bit
  arithmetic, which the model keeps.
\<close>

definition MRP_BASE_RETRY_INTERVAL_MS :: u32 where
  "MRP_BASE_RETRY_INTERVAL_MS = 300"

definition MRP_MAX_TRANSMISSIONS :: u16 where
  "MRP_MAX_TRANSMISSIONS = 10"

definition MRP_BACKOFF_THRESHOLD :: u16 where
  "MRP_BACKOFF_THRESHOLD = 1"

definition MRP_BACKOFF_BASE :: "u64 \<times> u64" where
  "MRP_BACKOFF_BASE = (16, 10)"

definition MRP_BACKOFF_JITTER :: "u64 \<times> u64" where
  "MRP_BACKOFF_JITTER = (25, 100)"

definition MRP_BACKOFF_MARGIN :: "u64 \<times> u64" where
  "MRP_BACKOFF_MARGIN = (11, 10)"

definition MRP_JITTER_RAND_MAX :: u8 where
  "MRP_JITTER_RAND_MAX = 0xff"

lemmas mrp_consts = MRP_BASE_RETRY_INTERVAL_MS_def MRP_MAX_TRANSMISSIONS_def MRP_BACKOFF_THRESHOLD_def
  MRP_BACKOFF_BASE_def MRP_BACKOFF_JITTER_def MRP_BACKOFF_MARGIN_def MRP_JITTER_RAND_MAX_def

subsection \<open>Retransmissions\<close>

record RetransEntry =
  re_base_delay_interval_ms :: u32
  re_msg_ctr :: u32
  re_counter :: u16

definition RetransEntry_new :: "u32 option \<Rightarrow> u32 \<Rightarrow> RetransEntry" where
  "RetransEntry_new base msg_ctr =
     \<lparr>re_base_delay_interval_ms = (case base of Some b \<Rightarrow> b | None \<Rightarrow> MRP_BASE_RETRY_INTERVAL_MS),
      re_msg_ctr = msg_ctr, re_counter = 0\<rparr>"

definition RetransEntry_get_msg_ctr :: "RetransEntry \<Rightarrow> u32" where
  "RetransEntry_get_msg_ctr e = re_msg_ctr e"

text \<open>The loop of \<^verbatim>\<open>delay_ms_counter\<close> and the computation around it.\<close>

primrec backoff_loop :: "nat \<Rightarrow> u64 \<Rightarrow> u64" where
  "backoff_loop 0 delay = delay"
| "backoff_loop (Suc n) delay =
     backoff_loop n (delay * fst MRP_BACKOFF_BASE div snd MRP_BACKOFF_BASE)"

definition RetransEntry_delay_ms_counter :: "u16 \<Rightarrow> u8 \<Rightarrow> RetransEntry \<Rightarrow> u64" where
  "RetransEntry_delay_ms_counter counter jitter_rand e =
     (let delay = ucast (re_base_delay_interval_ms e) * fst MRP_BACKOFF_MARGIN div snd MRP_BACKOFF_MARGIN;
          delay = (if counter > MRP_BACKOFF_THRESHOLD
                   then backoff_loop (unat (counter - MRP_BACKOFF_THRESHOLD)) delay else delay)
      in delay + (delay * ucast jitter_rand * fst MRP_BACKOFF_JITTER) div (255 * snd MRP_BACKOFF_JITTER))"

definition RetransEntry_delay_ms :: "u8 \<Rightarrow> RetransEntry \<Rightarrow> u64" where
  "RetransEntry_delay_ms jitter_rand e = RetransEntry_delay_ms_counter (re_counter e) jitter_rand e"

definition RetransEntry_max_delay_ms :: "RetransEntry \<Rightarrow> u64" where
  "RetransEntry_max_delay_ms e =
     RetransEntry_delay_ms_counter MRP_MAX_TRANSMISSIONS MRP_JITTER_RAND_MAX e"

definition RetransEntry_pre_send :: "u32 \<Rightarrow> (RetransEntry, unit) sr" where
  "RetransEntry_pre_send ctr = (\<lambda>e.
     if re_msg_ctr e = ctr then
       if re_counter e < MRP_MAX_TRANSMISSIONS
       then (Ok (), e\<lparr>re_counter := re_counter e + 1\<rparr>)
       else (Err TxTimeout, e)
     else (Panic, e))"

subsection \<open>Acknowledgements\<close>

record AckEntry =
  ae_msg_ctr :: u32
  ae_acknowledged :: bool

definition AckEntry_new :: "u32 \<Rightarrow> AckEntry res" where
  "AckEntry_new msg_ctr = Ok \<lparr>ae_msg_ctr = msg_ctr, ae_acknowledged = False\<rparr>"

definition AckEntry_get_msg_ctr :: "AckEntry \<Rightarrow> u32" where
  "AckEntry_get_msg_ctr a = ae_msg_ctr a"

record ReliableMessage =
  rm_retrans :: "RetransEntry option"
  rm_ack :: "AckEntry option"
  rm_received_at_ms :: "u64 option"

definition ReliableMessage_new :: ReliableMessage where
  "ReliableMessage_new = \<lparr>rm_retrans = None, rm_ack = None, rm_received_at_ms = None\<rparr>"

definition ReliableMessage_is_retrans_pending :: "ReliableMessage \<Rightarrow> bool" where
  "ReliableMessage_is_retrans_pending m \<longleftrightarrow> rm_retrans m \<noteq> None"

definition ReliableMessage_is_ack_pending :: "ReliableMessage \<Rightarrow> bool" where
  "ReliableMessage_is_ack_pending m =
     (case rm_ack m of Some a \<Rightarrow> \<not> ae_acknowledged a | None \<Rightarrow> False)"

text \<open>\<^verbatim>\<open>checked_add\<close> of two \<open>u64\<close> values.\<close>

definition checked_add_u64 :: "u64 \<Rightarrow> u64 \<Rightarrow> u64 option" where
  "checked_add_u64 a b = (if unat a + unat b < 2 ^ 64 then Some (a + b) else None)"

definition ReliableMessage_has_rx_timed_out :: "u64 \<Rightarrow> u64 \<Rightarrow> ReliableMessage \<Rightarrow> bool" where
  "ReliableMessage_has_rx_timed_out timeout_ms now m =
     (case rm_received_at_ms m of
        None \<Rightarrow> False
      | Some t \<Rightarrow> (case checked_add_u64 t timeout_ms of None \<Rightarrow> False | Some d \<Rightarrow> d \<le> now))"

text \<open>\<^verbatim>\<open>pre_send\<close> mutates the exchange's state and the header of the message it sends.\<close>

definition ReliableMessage_pre_send ::
    "PlainHdr \<Rightarrow> u32 option \<Rightarrow> u32 option \<Rightarrow> (ReliableMessage \<times> ProtoHdr, unit) sr" where
  "ReliableMessage_pre_send tx_plain active_ms idle_ms =
     sr_then (\<lambda>(m, tx_proto). case rm_ack m of
         Some ack \<Rightarrow> (Ok (), (m\<lparr>rm_ack := Some (ack\<lparr>ae_acknowledged := True\<rparr>)\<rparr>,
                              ProtoHdr_set_ack (Some (AckEntry_get_msg_ctr ack)) tx_proto))
       | None \<Rightarrow> (Ok (), (m, tx_proto)))
     (sr_then (\<lambda>(m, tx_proto).
         if ProtoHdr_is_reliable tx_proto then
           (case rm_retrans m of
              Some e \<Rightarrow>
                (case RetransEntry_pre_send (ph_ctr tx_plain) e of
                   (Ok _, e') \<Rightarrow> (Ok (), (m\<lparr>rm_retrans := Some e'\<rparr>, tx_proto))
                 | (Err _, e') \<Rightarrow> (Ok (), (m\<lparr>rm_retrans := None, rm_ack := None\<rparr>, tx_proto))
                 | (Panic, e') \<Rightarrow> (Panic, (m\<lparr>rm_retrans := Some e'\<rparr>, tx_proto)))
            | None \<Rightarrow> (Ok (), (m\<lparr>rm_retrans := Some (RetransEntry_new active_ms (ph_ctr tx_plain))\<rparr>, tx_proto)))
         else (Ok (), (m, tx_proto)))
     (on_fst (sr_modify (\<lambda>m. m\<lparr>rm_received_at_ms := None\<rparr>))))"

definition ReliableMessage_post_recv ::
    "PlainHdr \<Rightarrow> ProtoHdr \<Rightarrow> u64 \<Rightarrow> (ReliableMessage, unit) sr" where
  "ReliableMessage_post_recv rx_plain rx_proto now =
     sr_then (\<lambda>m. case ProtoHdr_get_ack rx_proto of
         Some ack_msg_ctr \<Rightarrow>
           (case rm_retrans m of
              Some entry \<Rightarrow>
                if RetransEntry_get_msg_ctr entry \<noteq> ack_msg_ctr then (Err Duplicate, m)
                else (Ok (), m\<lparr>rm_retrans := None, rm_ack := None\<rparr>)
            | None \<Rightarrow> (Ok (), m))
       | None \<Rightarrow> (Ok (), m))
     (sr_then (\<lambda>m.
         if ProtoHdr_is_reliable rx_proto
         then sr_bind (sr_res (AckEntry_new (ph_ctr rx_plain))) (\<lambda>a. sr_modify (\<lambda>m. m\<lparr>rm_ack := Some a\<rparr>)) m
         else (Ok (), m))
     (sr_modify (\<lambda>m. m\<lparr>rm_received_at_ms := Some now\<rparr>)))"

subsection \<open>The operations on each branch\<close>

lemma ReliableMessage_pre_send_cases:
  "ReliableMessage_pre_send plain act idle (m, h) =
    (let h' = (case rm_ack m of Some a \<Rightarrow> ProtoHdr_set_ack (Some (ae_msg_ctr a)) h | None \<Rightarrow> h);
         m' = m\<lparr>rm_ack := map_option (\<lambda>a. a\<lparr>ae_acknowledged := True\<rparr>) (rm_ack m)\<rparr> in
     if \<not> ProtoHdr_is_reliable h' then (Ok (), (m'\<lparr>rm_received_at_ms := None\<rparr>, h'))
     else case rm_retrans m of
       None \<Rightarrow> (Ok (), (m'\<lparr>rm_retrans := Some (RetransEntry_new act (ph_ctr plain)), rm_received_at_ms := None\<rparr>, h'))
     | Some e \<Rightarrow>
         if re_msg_ctr e \<noteq> ph_ctr plain then (Panic, (m', h'))
         else if re_counter e < MRP_MAX_TRANSMISSIONS
         then (Ok (), (m'\<lparr>rm_retrans := Some (e\<lparr>re_counter := re_counter e + 1\<rparr>), rm_received_at_ms := None\<rparr>, h'))
         else (Ok (), (m'\<lparr>rm_retrans := None, rm_ack := None, rm_received_at_ms := None\<rparr>, h')))"
  by (cases m)
     (auto simp: ReliableMessage_pre_send_def RetransEntry_pre_send_def AckEntry_get_msg_ctr_def Let_def
       sr_bind_def on_fst_def sr_modify_def split: option.splits)

lemma ReliableMessage_post_recv_cases:
  "ReliableMessage_post_recv plain h now m =
    (case (ProtoHdr_get_ack h, rm_retrans m) of
       (Some c, Some e) \<Rightarrow>
         if re_msg_ctr e \<noteq> c then (Err Duplicate, m)
         else (Ok (), m\<lparr>rm_retrans := None,
           rm_ack := (if ProtoHdr_is_reliable h then Some \<lparr>ae_msg_ctr = ph_ctr plain, ae_acknowledged = False\<rparr> else None),
           rm_received_at_ms := Some now\<rparr>)
     | _ \<Rightarrow> (Ok (), m\<lparr>
           rm_ack := (if ProtoHdr_is_reliable h then Some \<lparr>ae_msg_ctr = ph_ctr plain, ae_acknowledged = False\<rparr> else rm_ack m),
           rm_received_at_ms := Some now\<rparr>))"
  by (cases m)
     (auto simp: ReliableMessage_post_recv_def RetransEntry_get_msg_ctr_def AckEntry_new_def sr_bind_def
       sr_modify_def sr_res_def split: option.splits)

lemma set_ack_reliable [simp]: "ProtoHdr_is_reliable (ProtoHdr_set_ack a h) = ProtoHdr_is_reliable h"
  by (auto simp: ProtoHdr_is_reliable_def ProtoHdr_set_ack_def flags_bits bit_flags_ops split: option.splits)

lemma get_set_ack [simp]: "ProtoHdr_get_ack (ProtoHdr_set_ack a h) = a"
  by (auto simp: ProtoHdr_get_ack_def ProtoHdr_set_ack_def flags_bits bit_flags_ops split: option.splits)

subsection \<open>Delays\<close>

text \<open>The same computation on natural numbers, where nothing can wrap around.\<close>

definition backoff_nat :: "nat \<Rightarrow> nat" where
  "backoff_nat d = d * 16 div 10"

definition delay_base_nat :: "nat \<Rightarrow> nat \<Rightarrow> nat" where
  "delay_base_nat base counter = (backoff_nat ^^ (counter - 1)) (base * 11 div 10)"

definition delay_nat :: "nat \<Rightarrow> nat \<Rightarrow> nat \<Rightarrow> nat" where
  "delay_nat base counter jitter =
     (let d = delay_base_nat base counter in d + d * jitter * 25 div 25500)"

lemma backoff_bound: "d \<le> b \<Longrightarrow> (backoff_nat ^^ n) d \<le> b * 2 ^ n"
  by (induction n) (auto simp: backoff_nat_def)

lemma backoff_grows: "d \<le> (backoff_nat ^^ n) d"
proof (induction n)
  case (Suc n)
  have "(backoff_nat ^^ n) d \<le> backoff_nat ((backoff_nat ^^ n) d)"
    unfolding backoff_nat_def by (simp add: less_eq_div_iff_mult_less_eq)
  with Suc show ?case by simp
qed simp

lemma unat_mul_div:
  "unat (x::u64) * unat k < 2 ^ 64 \<Longrightarrow> unat (x * k div c) = unat x * unat k div unat c"
  by (simp add: unat_div unat_word_ariths)

lemma backoff_loop_nat:
  "unat d * 2 ^ n * 16 < 2 ^ 64 \<Longrightarrow> unat (backoff_loop n d) = (backoff_nat ^^ n) (unat d)"
proof (induction n arbitrary: d)
  case (Suc n)
  have "unat d * 16 \<le> unat d * 2 ^ Suc n * 16" by simp
  from le_less_trans [OF this Suc.prems] have "unat d * unat (16::u64) < 2 ^ 64" by simp
  from unat_mul_div [OF this, of 10] have s: "unat (d * 16 div 10) = backoff_nat (unat d)"
    by (simp add: backoff_nat_def)
  have "unat (d * 16 div 10) \<le> unat d * 2" unfolding s backoff_nat_def by simp
  then have "unat (d * 16 div 10) * 2 ^ n * 16 \<le> unat d * 2 * 2 ^ n * 16" by simp
  also have "\<dots> < 2 ^ 64" using Suc.prems by (simp add: ac_simps)
  finally have "unat (backoff_loop n (d * 16 div 10)) = (backoff_nat ^^ n) (unat (d * 16 div 10))"
    by (rule Suc.IH)
  then show ?case by (simp add: mrp_consts s funpow_swap1)
qed simp

lemma delay_base_bound:
  assumes "counter \<le> 10" and "base < 2 ^ 32"
  shows "delay_base_nat base counter < 2 ^ 42"
proof -
  have "delay_base_nat base counter \<le> (base * 11 div 10) * 2 ^ (counter - 1)"
    unfolding delay_base_nat_def by (rule backoff_bound) simp
  also have "\<dots> \<le> (base * 11 div 10) * 2 ^ 9"
    using assms(1) by (intro mult_left_mono power_increasing) auto
  also have "\<dots> < 2 ^ 42" using assms(2) by simp
  finally show ?thesis .
qed

lemma unat_le_10: "(c::u16) \<le> 10 \<Longrightarrow> unat c \<le> 10"
  by (simp add: word_le_nat_alt)

lemma delay_loop_nat:
  assumes "counter \<le> MRP_MAX_TRANSMISSIONS"
  shows "unat (let delay = ucast (re_base_delay_interval_ms e) * fst MRP_BACKOFF_MARGIN div snd MRP_BACKOFF_MARGIN
      in if counter > MRP_BACKOFF_THRESHOLD
         then backoff_loop (unat (counter - MRP_BACKOFF_THRESHOLD)) delay else delay)
    = delay_base_nat (unat (re_base_delay_interval_ms e)) (unat counter)"
proof -
  let ?b = "unat (re_base_delay_interval_ms e)" and ?d = "ucast (re_base_delay_interval_ms e) * 11 div 10 :: u64"
  have b: "?b < 2 ^ 32" using unat_bounds_u32 [of "re_base_delay_interval_ms e"] by simp
  have u: "unat (ucast (re_base_delay_interval_ms e) :: u64) = ?b"
    by (simp add: unat_ucast_up)
  have d: "unat ?d = ?b * 11 div 10"
    using unat_mul_div [of "ucast (re_base_delay_interval_ms e)" 11 10] b by (simp add: u)
  have c: "unat counter \<le> 10" using assms unat_le_10 by (simp add: mrp_consts)
  show ?thesis
  proof (cases "counter > 1")
    case True
    then have n: "unat (counter - 1) = unat counter - 1"
      using unat_sub [of 1 counter] by (simp add: order_less_imp_le)
    have "unat ?d * 2 ^ (unat counter - 1) * 16 \<le> (2 ^ 33) * 2 ^ 9 * 16"
      using c b unfolding d by (intro mult_mono power_increasing) auto
    then have "unat ?d * 2 ^ (unat counter - 1) * 16 < 2 ^ 64" by simp
    then show ?thesis using True n backoff_loop_nat [of ?d "unat counter - 1"]
      by (simp add: mrp_consts delay_base_nat_def d)
  next
    case False
    then have "unat counter - 1 = 0" by (simp add: word_less_nat_alt)
    with False show ?thesis by (simp add: mrp_consts delay_base_nat_def d)
  qed
qed

lemma delay_ms_counter_nat:
  assumes "counter \<le> MRP_MAX_TRANSMISSIONS"
  shows "unat (RetransEntry_delay_ms_counter counter jitter e) =
    delay_nat (unat (re_base_delay_interval_ms e)) (unat counter) (unat jitter)"
proof -
  define d where "d = (let delay = ucast (re_base_delay_interval_ms e) * fst MRP_BACKOFF_MARGIN div snd MRP_BACKOFF_MARGIN
      in if counter > MRP_BACKOFF_THRESHOLD
         then backoff_loop (unat (counter - MRP_BACKOFF_THRESHOLD)) delay else delay)"
  have un: "unat d = delay_base_nat (unat (re_base_delay_interval_ms e)) (unat counter)"
    unfolding d_def by (rule delay_loop_nat [OF assms])
  have "unat d < 2 ^ 42"
    unfolding un using assms unat_le_10 unat_bounds_u32 [of "re_base_delay_interval_ms e"]
    by (intro delay_base_bound) (auto simp: mrp_consts)
  moreover have j: "unat (ucast jitter :: u64) = unat jitter" "unat jitter < 2 ^ 8"
    using unat_bounds_u8 [of jitter] by (simp_all add: unat_ucast_up)
  ultimately have p: "unat d * unat jitter \<le> 2 ^ 42 * 2 ^ 8" by (intro mult_mono) auto
  then have m1: "unat (d * ucast jitter) = unat d * unat jitter" by (simp add: unat_word_ariths j)
  define x where "x = d * ucast jitter * 25 div 25500"
  have x: "unat x = unat d * unat jitter * 25 div 25500"
    using unat_mul_div [of "d * ucast jitter" 25 25500] p by (simp add: m1 x_def)
  have "unat x \<le> 2 ^ 50 * 25"
    unfolding x using p by (intro div_le_dividend [THEN le_trans] mult_right_mono) auto
  then have "unat (d + x) = unat d + unat d * unat jitter * 25 div 25500"
    using \<open>unat d < 2 ^ 42\<close> by (simp add: unat_word_ariths(1) flip: x)
  moreover have "RetransEntry_delay_ms_counter counter jitter e = d + x"
    by (simp add: RetransEntry_delay_ms_counter_def d_def x_def Let_def mrp_consts)
  ultimately show ?thesis by (simp add: delay_nat_def un Let_def ac_simps)
qed

lemma delay_base_mono: "c \<le> c' \<Longrightarrow> delay_base_nat b c \<le> delay_base_nat b c'"
proof -
  assume "c \<le> c'"
  then obtain k where "c' - 1 = k + (c - 1)" by (metis add.commute diff_le_mono le_add_diff_inverse)
  then show ?thesis unfolding delay_base_nat_def by (simp add: funpow_add backoff_grows)
qed

lemma delay_nat_mono: "c \<le> c' \<Longrightarrow> j \<le> j' \<Longrightarrow> delay_nat b c j \<le> delay_nat b c' j'"
  unfolding delay_nat_def Let_def by (intro add_mono div_le_mono mult_mono delay_base_mono) auto

subsection \<open>Repeated transmissions\<close>

lemma pre_send_first:
  "ProtoHdr_is_reliable h \<Longrightarrow> rm_retrans m = None \<Longrightarrow>
   \<exists>m' h'. ReliableMessage_pre_send plain act idle (m, h) = (Ok (), (m', h')) \<and>
    ProtoHdr_is_reliable h' \<and> rm_retrans m' = Some (RetransEntry_new act (ph_ctr plain))"
  by (cases "rm_ack m") (simp_all add: ReliableMessage_pre_send_cases Let_def)

lemma pre_send_again:
  "ProtoHdr_is_reliable h \<Longrightarrow> rm_retrans m = Some e \<Longrightarrow> re_msg_ctr e = ph_ctr plain \<Longrightarrow>
   \<exists>m' h'. ReliableMessage_pre_send plain act idle (m, h) = (Ok (), (m', h')) \<and>
    ProtoHdr_is_reliable h' \<and>
    rm_retrans m' = (if re_counter e < MRP_MAX_TRANSMISSIONS
       then Some (e\<lparr>re_counter := re_counter e + 1\<rparr>) else None)"
  by (cases "rm_ack m") (simp_all add: ReliableMessage_pre_send_cases Let_def)

lemma sr_seq_replicate_Suc:
  assumes "sr_seq (replicate n m) s = (Ok (), s')"
  shows "sr_seq (replicate (Suc n) m) s = m s'"
proof -
  have "replicate (Suc n) m = replicate n m @ [m]" by (simp add: replicate_append_same)
  then show ?thesis using assms by (simp add: sr_seq_append sr_bind_def [of "sr_seq _"] del: replicate_Suc)
qed

lemma resend_counter:
  assumes "ProtoHdr_is_reliable h" and "rm_retrans m = None" and "k \<le> 10"
  shows "\<exists>m' h'. sr_seq (replicate (Suc k) (ReliableMessage_pre_send plain act idle)) (m, h) = (Ok (), (m', h')) \<and>
    ProtoHdr_is_reliable h' \<and> rm_retrans m' = Some ((RetransEntry_new act (ph_ctr plain))\<lparr>re_counter := of_nat k\<rparr>)"
  using assms(3)
proof (induction k)
  case 0
  from pre_send_first [OF assms(1,2), of plain act idle] show ?case by (auto simp: RetransEntry_new_def)
next
  case (Suc k)
  let ?s = "ReliableMessage_pre_send plain act idle"
  let ?e = "(RetransEntry_new act (ph_ctr plain))\<lparr>re_counter := of_nat k\<rparr>"
  from Suc obtain m1 h1 where 1: "sr_seq (replicate (Suc k) ?s) (m, h) = (Ok (), (m1, h1))"
      "ProtoHdr_is_reliable h1" "rm_retrans m1 = Some ?e" by auto
  have lt: "(of_nat k :: u16) < 10" using Suc.prems by (simp add: word_less_nat_alt unat_of_nat)
  have c: "re_msg_ctr ?e = ph_ctr plain" by (simp add: RetransEntry_new_def)
  from pre_send_again [OF 1(2,3) c, of act idle] obtain m2 h2 where 2: "?s (m1, h1) = (Ok (), (m2, h2))"
      "ProtoHdr_is_reliable h2"
      "rm_retrans m2 = Some (?e\<lparr>re_counter := re_counter ?e + 1\<rparr>)"
    using lt by (auto simp: mrp_consts)
  have "sr_seq (replicate (Suc (Suc k)) ?s) (m, h) = (Ok (), (m2, h2))"
    using sr_seq_replicate_Suc [OF 1(1)] 2(1) by simp
  with 2 show ?case by (simp add: add.commute)
qed

subsection \<open>Properties\<close>

text \<open>
  Claim C33. The retransmission delay is exactly the formula of the protocol: up to the maximal number
  of transmissions the 64-bit computation never wraps around for any 32-bit base interval and any
  jitter, and no delay exceeds \<^verbatim>\<open>max_delay_ms\<close>, on which the receive timeout of an exchange is based.
\<close>

theorem mrp_delay_exact:
  assumes "counter \<le> MRP_MAX_TRANSMISSIONS"
  shows "unat (RetransEntry_delay_ms_counter counter jitter e) =
      delay_nat (unat (re_base_delay_interval_ms e)) (unat counter) (unat jitter) \<and>
    RetransEntry_delay_ms_counter counter jitter e \<le> RetransEntry_max_delay_ms e"
proof -
  have j: "unat jitter \<le> unat MRP_JITTER_RAND_MAX"
    using unat_bounds_u8 [of jitter] by (simp add: mrp_consts)
  have c: "unat counter \<le> unat MRP_MAX_TRANSMISSIONS"
    using assms by (simp add: word_le_nat_alt)
  show ?thesis
    using delay_ms_counter_nat [OF assms] delay_nat_mono [OF c j]
      delay_ms_counter_nat [OF order_refl, of MRP_JITTER_RAND_MAX]
    by (simp add: RetransEntry_max_delay_ms_def word_le_nat_alt)
qed

theorem mrp_delay_exact_witness:
  "unat (RetransEntry_delay_ms_counter 5 100 (RetransEntry_new None 1)) = delay_nat 300 5 100 \<and>
   delay_nat 300 5 100 = 2371"
proof -
  have "(5::u16) \<le> MRP_MAX_TRANSMISSIONS" by (simp add: mrp_consts)
  from mrp_delay_exact [OF this, of 100 "RetransEntry_new None 1"]
  have "unat (RetransEntry_delay_ms_counter 5 100 (RetransEntry_new None 1)) = delay_nat 300 5 100"
    by (simp add: RetransEntry_new_def mrp_consts)
  moreover have "delay_base_nat 300 5 = 2160"
  proof -
    have five: "(5::nat) - 1 = Suc (Suc (Suc (Suc 0)))" by simp
    show ?thesis unfolding delay_base_nat_def five by (simp add: backoff_nat_def)
  qed
  then have "delay_nat 300 5 100 = 2371" by (simp add: delay_nat_def)
  ultimately show ?thesis by simp
qed

text \<open>
  Claim C24. Retransmission ends: a reliable message that is never acknowledged is prepared for sending
  twelve times, the first time, ten counted retransmissions and a last one; it stays pending through
  the first eleven, and the twelfth call drops it and reports success to the caller, not a timeout.
\<close>

theorem mrp_gives_up:
  assumes "ProtoHdr_is_reliable h" and "rm_retrans m = None" and "0 < k" and "k \<le> 12"
  shows "\<exists>m' h'. sr_seq (replicate k (ReliableMessage_pre_send plain act idle)) (m, h) = (Ok (), (m', h')) \<and>
    ReliableMessage_is_retrans_pending m' = (k \<le> 11)"
proof (cases "k \<le> 11")
  case True
  with assms(3) obtain j where "k = Suc j" "j \<le> 10" by (cases k) auto
  with resend_counter [OF assms(1,2), of j plain act idle] True show ?thesis
    by (auto simp: ReliableMessage_is_retrans_pending_def)
next
  case False
  then have k: "k = Suc 11" using assms(4) by simp
  let ?s = "ReliableMessage_pre_send plain act idle"
  let ?e = "(RetransEntry_new act (ph_ctr plain))\<lparr>re_counter := of_nat 10\<rparr>"
  from resend_counter [OF assms(1,2), of 10 plain act idle] obtain m1 h1 where
    1: "sr_seq (replicate 11 ?s) (m, h) = (Ok (), (m1, h1))" "ProtoHdr_is_reliable h1" "rm_retrans m1 = Some ?e"
    by auto
  have c: "re_msg_ctr ?e = ph_ctr plain" by (simp add: RetransEntry_new_def)
  from pre_send_again [OF 1(2,3) c, of act idle] obtain m2 h2 where 2: "?s (m1, h1) = (Ok (), (m2, h2))" "rm_retrans m2 = None"
    by (auto simp: mrp_consts)
  have "sr_seq (replicate k ?s) (m, h) = (Ok (), (m2, h2))"
    using sr_seq_replicate_Suc [OF 1(1)] 2(1) by (simp add: k del: replicate_Suc)
  with 2(2) False show ?thesis by (simp add: ReliableMessage_is_retrans_pending_def)
qed

theorem mrp_gives_up_witness:
  "\<exists>m' h'. sr_seq (replicate 12 (ReliableMessage_pre_send (PlainHdr_new\<lparr>ph_ctr := 7\<rparr>) None None))
      (ReliableMessage_new, ProtoHdr_set_reliable ProtoHdr_new) = (Ok (), (m', h')) \<and>
    \<not> ReliableMessage_is_retrans_pending m'"
proof -
  have "ProtoHdr_is_reliable (ProtoHdr_set_reliable ProtoHdr_new)" by code_simp
  moreover have "rm_retrans ReliableMessage_new = None" by (simp add: ReliableMessage_new_def)
  ultimately show ?thesis
    using mrp_gives_up [of "ProtoHdr_set_reliable ProtoHdr_new" ReliableMessage_new 12 "PlainHdr_new\<lparr>ph_ctr := 7\<rparr>"]
    by simp
qed

text \<open>
  Claim C25. Every reliable message is acknowledged by the next message sent: after a reliable message
  with counter \<open>c\<close> was received and accepted, an acknowledgement is pending, and whatever is sent
  next on the exchange carries the acknowledgement of \<open>c\<close>, after which none is pending.
\<close>

theorem mrp_next_message_acks:
  assumes "ReliableMessage_post_recv rx_plain rx_proto now m = (Ok (), m1)" and "ProtoHdr_is_reliable rx_proto"
    and "ReliableMessage_pre_send tx_plain act idle (m1, tx_proto) = (Ok (), (m2, tx_proto'))"
  shows "ReliableMessage_is_ack_pending m1 \<and>
    ProtoHdr_get_ack tx_proto' = Some (ph_ctr rx_plain) \<and> \<not> ReliableMessage_is_ack_pending m2"
proof -
  have "rm_ack m1 = Some \<lparr>ae_msg_ctr = ph_ctr rx_plain, ae_acknowledged = False\<rparr>"
    using assms(1,2) by (auto simp: ReliableMessage_post_recv_cases split: option.splits if_splits)
  with assms(3) show ?thesis
    by (auto simp: ReliableMessage_pre_send_cases ReliableMessage_is_ack_pending_def Let_def
        split: option.splits if_splits)
qed

theorem mrp_next_message_acks_witness:
  "\<exists>m1 m2 h. ReliableMessage_post_recv (PlainHdr_new\<lparr>ph_ctr := 42\<rparr>) (ProtoHdr_set_reliable ProtoHdr_new) 5
      ReliableMessage_new = (Ok (), m1) \<and>
    ReliableMessage_pre_send PlainHdr_new None None (m1, ProtoHdr_new) = (Ok (), (m2, h)) \<and>
    ProtoHdr_get_ack h = Some 42"
proof -
  let ?m1 = "\<lparr>rm_retrans = None, rm_ack = Some \<lparr>ae_msg_ctr = 42, ae_acknowledged = False\<rparr>,
      rm_received_at_ms = Some 5\<rparr>"
  have 1: "ReliableMessage_post_recv (PlainHdr_new\<lparr>ph_ctr := 42\<rparr>) (ProtoHdr_set_reliable ProtoHdr_new) 5
      ReliableMessage_new = (Ok (), ?m1)" by code_simp
  have "\<not> ProtoHdr_is_reliable ProtoHdr_new" by code_simp
  then obtain m2 h where 2: "ReliableMessage_pre_send PlainHdr_new None None (?m1, ProtoHdr_new) = (Ok (), (m2, h))"
    by (simp add: ReliableMessage_pre_send_cases)
  have "ProtoHdr_is_reliable (ProtoHdr_set_reliable ProtoHdr_new)" by code_simp
  from mrp_next_message_acks [OF 1 this 2] 1 2 show ?thesis by auto
qed

text \<open>
  Claim C36. An acknowledgement ends the retransmission of exactly the message it names: a received
  message that acknowledges another counter than the pending one is a duplicate and changes nothing,
  one that acknowledges the pending message clears it, and one without an acknowledgement leaves the
  pending message alone.
\<close>

theorem mrp_ack_matches:
  assumes "rm_retrans m = Some e"
  shows "case ProtoHdr_get_ack rx_proto of
      None \<Rightarrow> (\<exists>m'. ReliableMessage_post_recv rx_plain rx_proto now m = (Ok (), m') \<and> rm_retrans m' = Some e)
    | Some c \<Rightarrow>
        if c = re_msg_ctr e
        then (\<exists>m'. ReliableMessage_post_recv rx_plain rx_proto now m = (Ok (), m') \<and> rm_retrans m' = None)
        else ReliableMessage_post_recv rx_plain rx_proto now m = (Err Duplicate, m)"
  using assms by (auto simp: ReliableMessage_post_recv_cases split: option.splits)

theorem mrp_ack_matches_witness:
  "ReliableMessage_post_recv PlainHdr_new (ProtoHdr_set_ack (Some 6) ProtoHdr_new) 9
     (ReliableMessage_new\<lparr>rm_retrans := Some (RetransEntry_new None 7)\<rparr>) =
   (Err Duplicate, ReliableMessage_new\<lparr>rm_retrans := Some (RetransEntry_new None 7)\<rparr>)"
  using mrp_ack_matches [where m = "ReliableMessage_new\<lparr>rm_retrans := Some (RetransEntry_new None 7)\<rparr>"
      and e = "RetransEntry_new None 7" and rx_proto = "ProtoHdr_set_ack (Some 6) ProtoHdr_new"
      and rx_plain = PlainHdr_new and now = 9]
  by (simp add: RetransEntry_new_def)

end
