(* ===== verification/Secure_Channel.thy ===== *)
theory Secure_Channel
  imports Headers
begin

section \<open>Opcodes and status reports\<close>

text \<open>
  The data of \<^verbatim>\<open>sc.rs\<close> (secure channel opcodes, status codes, the status report message) and the
  opcodes of \<^verbatim>\<open>im.rs\<close>. A \<^verbatim>\<open>FromPrimitive\<close> conversion looks the discriminant up in the list of the
  enum's variants.
\<close>

definition PROTO_ID_SECURE_CHANNEL :: u16 where
  "PROTO_ID_SECURE_CHANNEL = 0x00"

definition PROTO_ID_INTERACTION_MODEL :: u16 where
  "PROTO_ID_INTERACTION_MODEL = 0x01"

subsection \<open>Message meta data\<close>

record MessageMeta =
  mm_proto_id :: u16
  mm_proto_opcode :: u8
  mm_reliable :: bool

definition MessageMeta_new :: "u16 \<Rightarrow> u8 \<Rightarrow> bool \<Rightarrow> MessageMeta" where
  "MessageMeta_new proto_id proto_opcode reliable =
     \<lparr>mm_proto_id = proto_id, mm_proto_opcode = proto_opcode, mm_reliable = reliable\<rparr>"

definition MessageMeta_opcode :: "(u8 \<Rightarrow> 'o option) \<Rightarrow> MessageMeta \<Rightarrow> 'o res" where
  "MessageMeta_opcode from_u8 m =
     (case from_u8 (mm_proto_opcode m) of Some c \<Rightarrow> Ok c | None \<Rightarrow> Err InvalidOpcode)"

definition MessageMeta_check_opcode :: "(u8 \<Rightarrow> 'o option) \<Rightarrow> 'o \<Rightarrow> MessageMeta \<Rightarrow> unit res" where
  "MessageMeta_check_opcode from_u8 opcode m =
     (case MessageMeta_opcode from_u8 m of
        Ok c \<Rightarrow> if c = opcode then Ok () else Err Invalid
      | Err e \<Rightarrow> Err e | Panic \<Rightarrow> Panic)"

definition MessageMeta_from :: "ProtoHdr \<Rightarrow> MessageMeta" where
  "MessageMeta_from proto =
     \<lparr>mm_proto_id = pr_proto_id proto, mm_proto_opcode = pr_proto_opcode proto,
      mm_reliable = ProtoHdr_is_reliable proto\<rparr>"

definition MessageMeta_set_into :: "MessageMeta \<Rightarrow> ProtoHdr \<Rightarrow> ProtoHdr" where
  "MessageMeta_set_into m proto =
     (let proto = ProtoHdr_set_vendor None
            (proto\<lparr>pr_proto_id := mm_proto_id m, pr_proto_opcode := mm_proto_opcode m\<rparr>)
      in if mm_reliable m then ProtoHdr_set_reliable proto else ProtoHdr_unset_reliable proto)"

definition MessageMeta_reliable :: "bool \<Rightarrow> MessageMeta \<Rightarrow> MessageMeta" where
  "MessageMeta_reliable r m = m\<lparr>mm_reliable := r\<rparr>"

subsection \<open>Secure channel opcodes\<close>

datatype OpCode =
    MsgCounterSyncReq | MsgCounterSyncResp | MRPStandAloneAck | PBKDFParamRequest | PBKDFParamResponse
  | PASEPake1 | PASEPake2 | PASEPake3 | CASESigma1 | CASESigma2 | CASESigma3 | CASESigma2Resume
  | StatusReport

fun OpCode_as_u8 :: "OpCode \<Rightarrow> u8" where
  "OpCode_as_u8 MsgCounterSyncReq = 0x00"
| "OpCode_as_u8 MsgCounterSyncResp = 0x01"
| "OpCode_as_u8 MRPStandAloneAck = 0x10"
| "OpCode_as_u8 PBKDFParamRequest = 0x20"
| "OpCode_as_u8 PBKDFParamResponse = 0x21"
| "OpCode_as_u8 PASEPake1 = 0x22"
| "OpCode_as_u8 PASEPake2 = 0x23"
| "OpCode_as_u8 PASEPake3 = 0x24"
| "OpCode_as_u8 CASESigma1 = 0x30"
| "OpCode_as_u8 CASESigma2 = 0x31"
| "OpCode_as_u8 CASESigma3 = 0x32"
| "OpCode_as_u8 CASESigma2Resume = 0x33"
| "OpCode_as_u8 StatusReport = 0x40"

definition OpCode_all :: "OpCode list" where
  "OpCode_all = [MsgCounterSyncReq, MsgCounterSyncResp, MRPStandAloneAck, PBKDFParamRequest,
     PBKDFParamResponse, PASEPake1, PASEPake2, PASEPake3, CASESigma1, CASESigma2, CASESigma3,
     CASESigma2Resume, StatusReport]"

definition OpCode_from_u8 :: "u8 \<Rightarrow> OpCode option" where
  "OpCode_from_u8 b = find (\<lambda>c. OpCode_as_u8 c = b) OpCode_all"

definition OpCode_meta :: "OpCode \<Rightarrow> MessageMeta" where
  "OpCode_meta c = \<lparr>mm_proto_id = PROTO_ID_SECURE_CHANNEL, mm_proto_opcode = OpCode_as_u8 c,
     mm_reliable = (c \<noteq> MRPStandAloneAck)\<rparr>"

definition OpCode_is_tlv :: "OpCode \<Rightarrow> bool" where
  "OpCode_is_tlv c \<longleftrightarrow> c \<notin> {MRPStandAloneAck, StatusReport, MsgCounterSyncReq, MsgCounterSyncResp}"

subsection \<open>Interaction model opcodes\<close>

datatype ImOpCode =
    Reserved | StatusResponse | ReadRequest | SubscribeRequest | SubscribeResponse | ReportData
  | WriteRequest | WriteResponse | InvokeRequest | InvokeResponse | TimedRequest

definition ImOpCode_all :: "ImOpCode list" where
  "ImOpCode_all = [Reserved, StatusResponse, ReadRequest, SubscribeRequest, SubscribeResponse,
     ReportData, WriteRequest, WriteResponse, InvokeRequest, InvokeResponse, TimedRequest]"

fun ImOpCode_as_u8 :: "ImOpCode \<Rightarrow> u8" where
  "ImOpCode_as_u8 Reserved = 0"
| "ImOpCode_as_u8 StatusResponse = 1"
| "ImOpCode_as_u8 ReadRequest = 2"
| "ImOpCode_as_u8 SubscribeRequest = 3"
| "ImOpCode_as_u8 SubscribeResponse = 4"
| "ImOpCode_as_u8 ReportData = 5"
| "ImOpCode_as_u8 WriteRequest = 6"
| "ImOpCode_as_u8 WriteResponse = 7"
| "ImOpCode_as_u8 InvokeRequest = 8"
| "ImOpCode_as_u8 InvokeResponse = 9"
| "ImOpCode_as_u8 TimedRequest = 10"

definition ImOpCode_from_u8 :: "u8 \<Rightarrow> ImOpCode option" where
  "ImOpCode_from_u8 b = find (\<lambda>c. ImOpCode_as_u8 c = b) ImOpCode_all"

definition ImOpCode_meta :: "ImOpCode \<Rightarrow> MessageMeta" where
  "ImOpCode_meta c = \<lparr>mm_proto_id = PROTO_ID_INTERACTION_MODEL, mm_proto_opcode = ImOpCode_as_u8 c,
     mm_reliable = True\<rparr>"

definition ImOpCode_is_tlv :: "ImOpCode \<Rightarrow> bool" where
  "ImOpCode_is_tlv c \<longleftrightarrow> c \<noteq> Reserved"

subsection \<open>Classification of messages\<close>

definition MessageMeta_is_tlv :: "MessageMeta \<Rightarrow> bool" where
  "MessageMeta_is_tlv m =
     (if mm_proto_id m = PROTO_ID_SECURE_CHANNEL then
        (case MessageMeta_opcode OpCode_from_u8 m of Ok c \<Rightarrow> OpCode_is_tlv c | _ \<Rightarrow> False)
      else if mm_proto_id m = PROTO_ID_INTERACTION_MODEL then
        (case MessageMeta_opcode ImOpCode_from_u8 m of Ok c \<Rightarrow> ImOpCode_is_tlv c | _ \<Rightarrow> False)
      else False)"

definition MessageMeta_is_standalone_ack :: "MessageMeta \<Rightarrow> bool" where
  "MessageMeta_is_standalone_ack m \<longleftrightarrow>
     mm_proto_id m = PROTO_ID_SECURE_CHANNEL \<and> mm_proto_opcode m = OpCode_as_u8 MRPStandAloneAck"

definition MessageMeta_is_sc_status :: "MessageMeta \<Rightarrow> bool" where
  "MessageMeta_is_sc_status m \<longleftrightarrow>
     mm_proto_id m = PROTO_ID_SECURE_CHANNEL \<and> mm_proto_opcode m = OpCode_as_u8 StatusReport"

definition MessageMeta_is_new_session :: "MessageMeta \<Rightarrow> bool" where
  "MessageMeta_is_new_session m \<longleftrightarrow>
     mm_proto_id m = PROTO_ID_SECURE_CHANNEL \<and>
     (mm_proto_opcode m = OpCode_as_u8 PBKDFParamRequest \<or> mm_proto_opcode m = OpCode_as_u8 CASESigma1)"

definition MessageMeta_is_new_exchange :: "MessageMeta \<Rightarrow> bool" where
  "MessageMeta_is_new_exchange m \<longleftrightarrow>
     \<not> MessageMeta_is_standalone_ack m \<and> \<not> MessageMeta_is_sc_status m"

subsection \<open>Status reports\<close>

datatype GeneralCode =
    GC_Success | GC_Failure | GC_BadPrecondition | GC_OutOfRange | GC_BadRequest | GC_Unsupported
  | GC_Unexpected | GC_ResourceExhausted | GC_Busy | GC_Timeout | GC_Continue | GC_Aborted
  | GC_InvalidArgument | GC_NotFound | GC_AlreadyExists | GC_PermissionDenied | GC_DataLoss

definition GeneralCode_all :: "GeneralCode list" where
  "GeneralCode_all = [GC_Success, GC_Failure, GC_BadPrecondition, GC_OutOfRange, GC_BadRequest,
     GC_Unsupported, GC_Unexpected, GC_ResourceExhausted, GC_Busy, GC_Timeout, GC_Continue,
     GC_Aborted, GC_InvalidArgument, GC_NotFound, GC_AlreadyExists, GC_PermissionDenied, GC_DataLoss]"

fun GeneralCode_as_u16 :: "GeneralCode \<Rightarrow> u16" where
  "GeneralCode_as_u16 GC_Success = 0"
| "GeneralCode_as_u16 GC_Failure = 1"
| "GeneralCode_as_u16 GC_BadPrecondition = 2"
| "GeneralCode_as_u16 GC_OutOfRange = 3"
| "GeneralCode_as_u16 GC_BadRequest = 4"
| "GeneralCode_as_u16 GC_Unsupported = 5"
| "GeneralCode_as_u16 GC_Unexpected = 6"
| "GeneralCode_as_u16 GC_ResourceExhausted = 7"
| "GeneralCode_as_u16 GC_Busy = 8"
| "GeneralCode_as_u16 GC_Timeout = 9"
| "GeneralCode_as_u16 GC_Continue = 10"
| "GeneralCode_as_u16 GC_Aborted = 11"
| "GeneralCode_as_u16 GC_InvalidArgument = 12"
| "GeneralCode_as_u16 GC_NotFound = 13"
| "GeneralCode_as_u16 GC_AlreadyExists = 14"
| "GeneralCode_as_u16 GC_PermissionDenied = 15"
| "GeneralCode_as_u16 GC_DataLoss = 16"

definition GeneralCode_from_u16 :: "u16 \<Rightarrow> GeneralCode option" where
  "GeneralCode_from_u16 w = find (\<lambda>c. GeneralCode_as_u16 c = w) GeneralCode_all"

datatype SCStatusCodes =
    SessionEstablishmentSuccess | NoSharedTrustRoots | InvalidParameter | CloseSession | SC_Busy
  | SessionNotFound

fun SCStatusCodes_as_u16 :: "SCStatusCodes \<Rightarrow> u16" where
  "SCStatusCodes_as_u16 SessionEstablishmentSuccess = 0"
| "SCStatusCodes_as_u16 NoSharedTrustRoots = 1"
| "SCStatusCodes_as_u16 InvalidParameter = 2"
| "SCStatusCodes_as_u16 CloseSession = 3"
| "SCStatusCodes_as_u16 SC_Busy = 4"
| "SCStatusCodes_as_u16 SessionNotFound = 5"

definition SCStatusCodes_reliable :: "SCStatusCodes \<Rightarrow> bool" where
  "SCStatusCodes_reliable s \<longleftrightarrow> s \<noteq> CloseSession \<and> s \<noteq> SC_Busy"

record StatusReport =
  st_general_code :: GeneralCode
  st_proto_id :: u32
  st_proto_code :: u16
  st_proto_data :: bytes

definition SCStatusCodes_as_report :: "bytes \<Rightarrow> SCStatusCodes \<Rightarrow> StatusReport" where
  "SCStatusCodes_as_report payload s =
     \<lparr>st_general_code = (case s of
         SessionEstablishmentSuccess \<Rightarrow> GC_Success
       | CloseSession \<Rightarrow> GC_Success
       | SC_Busy \<Rightarrow> GC_Busy
       | InvalidParameter \<Rightarrow> GC_Failure
       | NoSharedTrustRoots \<Rightarrow> GC_Failure
       | SessionNotFound \<Rightarrow> GC_Failure),
      st_proto_id = ucast PROTO_ID_SECURE_CHANNEL, st_proto_code = SCStatusCodes_as_u16 s,
      st_proto_data = payload\<rparr>"

definition StatusReport_read :: "(ReadBuf, StatusReport) sr" where
  "StatusReport_read =
     sr_bind ReadBuf_le_u16 (\<lambda>g.
     sr_bind (sr_ok_or InvalidOpcode (GeneralCode_from_u16 g)) (\<lambda>general_code.
     sr_bind ReadBuf_le_u32 (\<lambda>proto_id.
     sr_bind ReadBuf_le_u16 (\<lambda>proto_code.
     sr_bind sr_get (\<lambda>p.
     sr_bind (sr_res (ReadBuf_as_slice p)) (\<lambda>proto_data.
     sr_return \<lparr>st_general_code = general_code, st_proto_id = proto_id, st_proto_code = proto_code,
       st_proto_data = proto_data\<rparr>))))))"

definition StatusReport_write :: "StatusReport \<Rightarrow> (WriteBuf, unit) sr" where
  "StatusReport_write s =
     sr_then (WriteBuf_le_u16 (GeneralCode_as_u16 (st_general_code s))) (
     sr_then (WriteBuf_le_u32 (st_proto_id s)) (
     sr_then (WriteBuf_le_u16 (st_proto_code s)) (WriteBuf_copy_from_slice (st_proto_data s))))"

definition sc_write :: "SCStatusCodes \<Rightarrow> bytes \<Rightarrow> (WriteBuf, MessageMeta option) sr" where
  "sc_write status_code payload =
     sr_then (StatusReport_write (SCStatusCodes_as_report payload status_code))
       (sr_return (Some (MessageMeta_reliable (SCStatusCodes_reliable status_code) (OpCode_meta StatusReport))))"

subsection \<open>Conversions are inverse\<close>

lemma OpCode_from_as [simp]: "OpCode_from_u8 (OpCode_as_u8 c) = Some c"
  by (cases c) (simp_all add: OpCode_from_u8_def OpCode_all_def)

lemma ImOpCode_from_as [simp]: "ImOpCode_from_u8 (ImOpCode_as_u8 c) = Some c"
  by (cases c) (simp_all add: ImOpCode_from_u8_def ImOpCode_all_def)

lemma GeneralCode_from_as [simp]: "GeneralCode_from_u16 (GeneralCode_as_u16 c) = Some c"
  by (cases c) (simp_all add: GeneralCode_from_u16_def GeneralCode_all_def)

lemma MessageMeta_from_set_into: "MessageMeta_from (MessageMeta_set_into m h) = m"
  by (cases m) (simp add: MessageMeta_from_def MessageMeta_set_into_def ProtoHdr_set_vendor_def
      ProtoHdr_set_reliable_def ProtoHdr_unset_reliable_def ProtoHdr_is_reliable_def Let_def flags_bits bit_flags_ops)

definition StatusReport_chunks :: "StatusReport \<Rightarrow> bytes list" where
  "StatusReport_chunks s = [to_le_bytes 2 (GeneralCode_as_u16 (st_general_code s)),
     to_le_bytes 4 (st_proto_id s), to_le_bytes 2 (st_proto_code s), st_proto_data s]"

lemma StatusReport_write_chunks:
  "StatusReport_write s = sr_seq (map WriteBuf_append (StatusReport_chunks s))"
  by (simp add: StatusReport_write_def StatusReport_chunks_def write_ints WriteBuf_append_def)

lemma StatusReport_read_bytes:
  assumes "ReadBuf_inv p" and "ReadBuf_rest p = concat (StatusReport_chunks s)"
  shows "fst (StatusReport_read p) = Ok s"
proof -
  let ?a = "to_le_bytes 2 (GeneralCode_as_u16 (st_general_code s))" and ?b = "to_le_bytes 4 (st_proto_id s)"
    and ?c = "to_le_bytes 2 (st_proto_code s)" and ?d = "st_proto_data s"
  let ?p1 = "ReadBuf_skip 2 p" let ?p2 = "ReadBuf_skip 4 ?p1" let ?p3 = "ReadBuf_skip 2 ?p2"
  have 1: "ReadBuf_le_u16 p = (Ok (GeneralCode_as_u16 (st_general_code s)), ?p1) \<and> ReadBuf_inv ?p1 \<and>
      ReadBuf_rest ?p1 = ?b @ ?c @ ?d"
    using ReadBuf_array_prefix [of p ?a "?b @ ?c @ ?d" 2 "from_le_bytes :: bytes \<Rightarrow> u16"] assms
    by (simp add: ReadBuf_int_defs StatusReport_chunks_def)
  then have 2: "ReadBuf_le_u32 ?p1 = (Ok (st_proto_id s), ?p2) \<and> ReadBuf_inv ?p2 \<and> ReadBuf_rest ?p2 = ?c @ ?d"
    using ReadBuf_array_prefix [of ?p1 ?b "?c @ ?d" 4 "from_le_bytes :: bytes \<Rightarrow> u32"]
    by (simp add: ReadBuf_int_defs)
  then have 3: "ReadBuf_le_u16 ?p2 = (Ok (st_proto_code s), ?p3) \<and> ReadBuf_inv ?p3 \<and> ReadBuf_rest ?p3 = ?d"
    using ReadBuf_array_prefix [of ?p2 ?c ?d 2 "from_le_bytes :: bytes \<Rightarrow> u16"]
    by (simp add: ReadBuf_int_defs)
  then have 4: "ReadBuf_as_slice ?p3 = Ok ?d" using ReadBuf_as_slice_rest by simp
  show ?thesis using 1 2 3 4
    by (simp add: StatusReport_read_def sr_bind_def sr_simps)
qed

subsection \<open>Properties\<close>

text \<open>
  Claim C33. Status reports survive the wire: every status report that fits a buffer is written
  without error and read back unchanged, for all general codes, protocols and payloads; the report
  of a secure channel status is written with the meta data of a status report, which never opens a
  new exchange.
\<close>

theorem status_report_roundtrip:
  assumes "8 + length payload \<le> length buf"
  shows "\<exists>w bs. sc_write code payload (WriteBuf_new buf) =
      (Ok (Some (MessageMeta_reliable (SCStatusCodes_reliable code) (OpCode_meta StatusReport))), w) \<and>
    WriteBuf_as_slice w = Ok bs \<and>
    fst (StatusReport_read (ReadBuf_new bs)) = Ok (SCStatusCodes_as_report payload code) \<and>
    \<not> MessageMeta_is_new_exchange (MessageMeta_reliable (SCStatusCodes_reliable code) (OpCode_meta StatusReport))"
proof -
  let ?s = "SCStatusCodes_as_report payload code"
  have "length (concat (StatusReport_chunks ?s)) = 8 + length payload"
    by (simp add: StatusReport_chunks_def SCStatusCodes_as_report_def)
  with assms obtain w where w: "StatusReport_write ?s (WriteBuf_new buf) = (Ok (), w)" "WriteBuf_inv w"
      "WriteBuf_view w = concat (StatusReport_chunks ?s)"
    using wb.chunks_fit [of "WriteBuf_new buf" "StatusReport_chunks ?s"]
    by (auto simp: StatusReport_write_chunks wf_intros)
  have "fst (StatusReport_read (ReadBuf_new (WriteBuf_view w))) = Ok ?s"
    using w(3) by (intro StatusReport_read_bytes) (simp_all add: wf_intros)
  then show ?thesis
    using w(1) WriteBuf_as_slice_view [OF w(2)]
    by (auto simp: sc_write_def sr_bind_def sr_return_def MessageMeta_is_new_exchange_def
        MessageMeta_is_sc_status_def MessageMeta_reliable_def OpCode_meta_def)
qed

theorem status_report_roundtrip_witness:
  "\<exists>w bs. sc_write CloseSession [1, 2] (WriteBuf_new (replicate 10 0)) =
      (Ok (Some (MessageMeta_reliable False (OpCode_meta StatusReport))), w) \<and>
    WriteBuf_as_slice w = Ok bs \<and>
    fst (StatusReport_read (ReadBuf_new bs)) = Ok (SCStatusCodes_as_report [1, 2] CloseSession)"
  using status_report_roundtrip [of "[1, 2]" "replicate 10 0" CloseSession]
  by (auto simp: SCStatusCodes_reliable_def)

end
