(* ===== verification/Exchange.thy ===== *)
theory Exchange
  imports Mrp Secure_Channel
begin

section \<open>Exchanges\<close>

text \<open>
  The state of an exchange and its identifier, \<^verbatim>\<open>transport/exchange.rs\<close>. An \<open>ExchangeId\<close> packs the
  unique id of a session (28 bits) and the index of one of its exchanges (4 bits) into 32 bits.
\<close>

datatype ExchangeId = ExchangeId u32

definition ExchangeId_new :: "u32 \<Rightarrow> nat \<Rightarrow> ExchangeId res" where
  "ExchangeId_new session_id exchange_index =
     (if session_id > 0x0fffffff then Panic
      else if exchange_index \<ge> 16 then Panic
      else Ok (ExchangeId (push_bit 28 (of_nat exchange_index) OR session_id)))"

definition ExchangeId_session_id :: "ExchangeId \<Rightarrow> u32" where
  "ExchangeId_session_id i = (case i of ExchangeId w \<Rightarrow> w AND 0x0fffffff)"

definition ExchangeId_exchange_index :: "ExchangeId \<Rightarrow> nat" where
  "ExchangeId_exchange_index i = (case i of ExchangeId w \<Rightarrow> unat (drop_bit 28 w))"

datatype InitiatorState = I_Owned | I_Dropped

datatype ResponderState = AcceptPending | R_Owned | R_Dropped

datatype Role = Initiator InitiatorState | Responder ResponderState

fun Role_is_dropped_state :: "Role \<Rightarrow> bool" where
  "Role_is_dropped_state (Initiator s) = (s = I_Dropped)"
| "Role_is_dropped_state (Responder s) = (s = R_Dropped)"

fun Role_set_dropped_state :: "Role \<Rightarrow> Role" where
  "Role_set_dropped_state (Initiator s) = Initiator I_Dropped"
| "Role_set_dropped_state (Responder s) = Responder R_Dropped"

definition is_responder :: "Role \<Rightarrow> bool" where
  "is_responder r = (case r of Responder _ \<Rightarrow> True | Initiator _ \<Rightarrow> False)"

record ExchangeState =
  ex_exch_id :: u16
  ex_role :: Role
  ex_mrp :: ReliableMessage

definition ExchangeState_is_for_rx :: "ProtoHdr \<Rightarrow> ExchangeState \<Rightarrow> bool" where
  "ExchangeState_is_for_rx rx_proto e \<longleftrightarrow>
     ex_exch_id e = pr_exch_id rx_proto \<and> ProtoHdr_is_initiator rx_proto = is_responder (ex_role e)"

definition ExchangeState_post_recv ::
    "PlainHdr \<Rightarrow> ProtoHdr \<Rightarrow> u64 \<Rightarrow> (ExchangeState, unit) sr" where
  "ExchangeState_post_recv rx_plain rx_proto now = (\<lambda>e.
     case ReliableMessage_post_recv rx_plain rx_proto now (ex_mrp e) of (r, m) \<Rightarrow> (r, e\<lparr>ex_mrp := m\<rparr>))"

definition ExchangeState_pre_send ::
    "PlainHdr \<Rightarrow> u32 option \<Rightarrow> u32 option \<Rightarrow> (ExchangeState \<times> ProtoHdr, unit) sr" where
  "ExchangeState_pre_send tx_plain active_ms idle_ms = (\<lambda>(e, tx_proto).
     let tx_proto = (case ex_role e of
           Initiator _ \<Rightarrow> ProtoHdr_set_initiator tx_proto
         | Responder _ \<Rightarrow> ProtoHdr_unset_initiator tx_proto);
         tx_proto = tx_proto\<lparr>pr_exch_id := ex_exch_id e\<rparr>
     in case ReliableMessage_pre_send tx_plain active_ms idle_ms (ex_mrp e, tx_proto) of
          (r, (m, tx_proto)) \<Rightarrow> (r, (e\<lparr>ex_mrp := m\<rparr>, tx_proto)))"

definition ExchangeState_retrans_delay_ms :: "u8 \<Rightarrow> ExchangeState \<Rightarrow> u64 option" where
  "ExchangeState_retrans_delay_ms jitter_rand e =
     map_option (RetransEntry_delay_ms jitter_rand) (rm_retrans (ex_mrp e))"

subsection \<open>Identifiers\<close>

lemma mask_28: "w AND 0x0fffffff = take_bit 28 (w :: u32)"
  by (simp add: take_bit_eq_mask mask_eq_exp_minus_1)

lemma take_bit_small: "unat w < 2 ^ n \<Longrightarrow> take_bit n w = (w :: 'a::len word)"
  by (rule unsigned_word_eqI [where 'a = nat]) (simp add: unsigned_take_bit_eq take_bit_nat_eq_self)

lemma session_id_bits:
  assumes "sid \<le> (0x0fffffff :: u32)"
  shows "take_bit 28 sid = sid" "\<And>n. bit sid n \<Longrightarrow> n < 28"
proof -
  have "unat sid < 2 ^ 28" using assms by (simp add: word_le_nat_alt)
  then show t: "take_bit 28 sid = sid" by (rule take_bit_small)
  show "bit sid n \<Longrightarrow> n < 28" for n by (subst (asm) t [symmetric]) (simp add: bit_take_bit_iff)
qed

lemma ExchangeId_parts:
  assumes "ExchangeId_new sid i = Ok x"
  shows "ExchangeId_session_id x = sid \<and> ExchangeId_exchange_index x = i"
proof -
  from assms have le: "sid \<le> 0x0fffffff" and i: "i < 16"
      and x: "x = ExchangeId (push_bit 28 (of_nat i) OR sid)"
    by (auto simp: ExchangeId_new_def split: if_splits)
  have "take_bit 28 (push_bit 28 (of_nat i) OR sid) = sid"
    using session_id_bits [OF le] by (simp add: take_bit_or take_bit_push_bit)
  then have s: "ExchangeId_session_id x = sid" by (simp add: ExchangeId_session_id_def x mask_28)
  have hi: "drop_bit 28 sid = 0"
    using session_id_bits(2) [OF le] by (intro bit_word_eqI) (auto simp: bit_drop_bit_eq)
  have "drop_bit 28 (push_bit 28 (of_nat i :: u32)) = take_bit 4 (of_nat i)"
    by (rule bit_word_eqI) (auto simp: bit_drop_bit_eq bit_push_bit_iff bit_take_bit_iff)
  also have "\<dots> = of_nat i" using i by (intro take_bit_small) (simp add: unat_of_nat)
  finally have "ExchangeId_exchange_index x = i"
    using i by (simp add: ExchangeId_exchange_index_def x drop_bit_or hi unat_of_nat)
  with s show ?thesis by simp
qed

subsection \<open>Properties\<close>

text \<open>
  Claim C38. Exchange identifiers are unambiguous: packing a session id and an exchange index into 32
  bits and unpacking gives both back, so different exchanges have different identifiers; values that
  do not fit are refused with a panic instead of being truncated.
\<close>

theorem exchange_id_roundtrip:
  "(case ExchangeId_new sid i of
      Ok x \<Rightarrow> ExchangeId_session_id x = sid \<and> ExchangeId_exchange_index x = i
    | Err _ \<Rightarrow> False
    | Panic \<Rightarrow> sid > 0x0fffffff \<or> i \<ge> 16)"
  using ExchangeId_parts [of sid i] by (auto simp: ExchangeId_new_def split: res.splits if_splits)

end
