(* ===== verification/Session.thy ===== *)
theory Session
  imports Exchange Dedup
begin

section \<open>Sessions\<close>

text \<open>
  \<^verbatim>\<open>transport/session.rs\<close>: a session with its keys, counters and exchanges, the table of all
  sessions, and the reservation of a slot during session establishment. A method that returns a
  mutable reference to a session returns the index of the session in the table. The clock is a
  callback: methods that read it get the time as \<open>now\<close> (a duration, or milliseconds for MRP).
  Counters wrap around, as in a release build.
\<close>

subsection \<open>Data\<close>

definition MAX_CAT_IDS_PER_NOC :: nat where
  "MAX_CAT_IDS_PER_NOC = 3"

definition ATT_CHALLENGE_LEN :: nat where
  "ATT_CHALLENGE_LEN = 16"

definition MAX_SESSIONS :: nat where
  "MAX_SESSIONS = 16"

definition MAX_EXCHANGES :: nat where
  "MAX_EXCHANGES = 5"

definition MATTER_MSG_CTR_RANGE :: u32 where
  "MATTER_MSG_CTR_RANGE = 0x0fffffff"

datatype SessionMode =
    Case u8 "u32 list"
  | Pase u8
  | Group u8 u16
  | PlainText

fun SessionMode_fab_idx :: "SessionMode \<Rightarrow> u8" where
  "SessionMode_fab_idx (Case fab_idx cat_ids) = fab_idx"
| "SessionMode_fab_idx (Pase fab_idx) = fab_idx"
| "SessionMode_fab_idx (Group fab_idx group_id) = fab_idx"
| "SessionMode_fab_idx PlainText = 0"

record Session =
  se_id :: u32
  se_peer_addr :: Address
  se_local_nodeid :: u64
  se_peer_nodeid :: "u64 option"
  se_dec_key :: bytes
  se_enc_key :: bytes
  se_att_challenge :: bytes
  se_local_sess_id :: u16
  se_peer_sess_id :: u16
  se_msg_ctr :: u32
  se_rx_ctr_state :: RxCtrState
  se_mode :: SessionMode
  se_exchanges :: "ExchangeState option list"
  se_last_use :: nat
  se_expired :: bool
  se_reserved :: bool

definition Session_new :: "u32 \<Rightarrow> u32 \<Rightarrow> bool \<Rightarrow> Address \<Rightarrow> u64 option \<Rightarrow> nat \<Rightarrow> Session" where
  "Session_new i msg_ctr reserved peer_addr peer_nodeid now =
     \<lparr>se_id = i, se_peer_addr = peer_addr, se_local_nodeid = 0, se_peer_nodeid = peer_nodeid,
      se_dec_key = replicate AEAD_CANON_KEY_LEN 0, se_enc_key = replicate AEAD_CANON_KEY_LEN 0,
      se_att_challenge = replicate ATT_CHALLENGE_LEN 0, se_local_sess_id = 0, se_peer_sess_id = 0,
      se_msg_ctr = msg_ctr AND MATTER_MSG_CTR_RANGE, se_rx_ctr_state = RxCtrState_new 0,
      se_mode = PlainText, se_exchanges = [], se_last_use = now, se_expired = False,
      se_reserved = reserved\<rparr>"

definition Session_set_local_nodeid :: "u64 \<Rightarrow> Session \<Rightarrow> Session" where
  "Session_set_local_nodeid nodeid s = s\<lparr>se_local_nodeid := nodeid\<rparr>"

definition Session_is_encrypted :: "Session \<Rightarrow> bool" where
  "Session_is_encrypted s = (case se_mode s of
     Case _ _ \<Rightarrow> True | Pase _ \<Rightarrow> True | Group _ _ \<Rightarrow> True | PlainText \<Rightarrow> False)"

definition Session_get_local_fabric_idx :: "Session \<Rightarrow> u8" where
  "Session_get_local_fabric_idx s = SessionMode_fab_idx (se_mode s)"

definition Session_set_session_mode :: "SessionMode \<Rightarrow> Session \<Rightarrow> Session" where
  "Session_set_session_mode m s = s\<lparr>se_mode := m\<rparr>"

definition Session_get_msg_ctr :: "Session \<Rightarrow> u32 \<times> Session" where
  "Session_get_msg_ctr s = (se_msg_ctr s, s\<lparr>se_msg_ctr := se_msg_ctr s + 1\<rparr>)"

definition Session_get_dec_key :: "Session \<Rightarrow> bytes option" where
  "Session_get_dec_key s = (case se_mode s of
     Case _ _ \<Rightarrow> Some (se_dec_key s) | Pase _ \<Rightarrow> Some (se_dec_key s)
   | Group _ _ \<Rightarrow> Some (se_dec_key s) | PlainText \<Rightarrow> None)"

definition Session_get_enc_key :: "Session \<Rightarrow> bytes option" where
  "Session_get_enc_key s = (case se_mode s of
     Case _ _ \<Rightarrow> Some (se_enc_key s) | Pase _ \<Rightarrow> Some (se_enc_key s)
   | Group _ _ \<Rightarrow> Some (se_enc_key s) | PlainText \<Rightarrow> None)"

definition Session_get_att_challenge :: "Session \<Rightarrow> bytes option" where
  "Session_get_att_challenge s = (case se_mode s of
     Case _ _ \<Rightarrow> Some (se_att_challenge s) | Pase _ \<Rightarrow> Some (se_att_challenge s)
   | PlainText \<Rightarrow> None | Group _ _ \<Rightarrow> None)"

definition Session_is_for_node :: "u8 \<Rightarrow> u64 \<Rightarrow> bool \<Rightarrow> Session \<Rightarrow> bool" where
  "Session_is_for_node fabric_idx peer_node_id secure s \<longleftrightarrow>
     Session_get_local_fabric_idx s = fabric_idx \<and> se_peer_nodeid s = Some peer_node_id \<and>
     Session_is_encrypted s = secure \<and> \<not> se_reserved s"

definition Session_is_for_rx :: "Address \<Rightarrow> PlainHdr \<Rightarrow> Session \<Rightarrow> bool" where
  "Session_is_for_rx rx_peer rx_plain s =
     (let nodeid_matches = (se_peer_nodeid s = None \<or> PlainHdr_get_src_nodeid rx_plain = None \<or>
            se_peer_nodeid s = PlainHdr_get_src_nodeid rx_plain);
          dest_nodeid_matches = (Session_is_encrypted s \<or> se_local_nodeid s = 0 \<or>
            PlainHdr_get_dst_unicast_nodeid rx_plain = None \<or>
            PlainHdr_get_dst_unicast_nodeid rx_plain = Some (se_local_nodeid s))
      in nodeid_matches \<and> dest_nodeid_matches \<and> se_local_sess_id s = ph_sess_id rx_plain \<and>
         se_peer_addr s = rx_peer \<and> Session_is_encrypted s = PlainHdr_is_encrypted rx_plain \<and>
         \<not> se_reserved s)"

definition Session_is_for_tx :: "u32 \<Rightarrow> Session \<Rightarrow> bool" where
  "Session_is_for_tx session_id s \<longleftrightarrow> se_id s = session_id"

definition Session_upgrade_fabric_idx :: "u8 \<Rightarrow> (Session, unit) sr" where
  "Session_upgrade_fabric_idx fabric_idx = (\<lambda>s. case se_mode s of
     Pase fab_idx \<Rightarrow>
       if fab_idx = 0 then (Ok (), s\<lparr>se_mode := Pase fabric_idx\<rparr>) else (Err Invalid, s)
   | _ \<Rightarrow> (Err Invalid, s))"

definition Session_update_last_used :: "nat \<Rightarrow> Session \<Rightarrow> Session" where
  "Session_update_last_used now s = s\<lparr>se_last_use := now\<rparr>"

subsection \<open>Exchanges of a session\<close>

text \<open>\<open>on_exch i m\<close> runs \<open>m\<close> on \<^verbatim>\<open>unwrap!(self.exchanges[i].as_mut())\<close>.\<close>

definition on_exch :: "nat \<Rightarrow> (ExchangeState, 'a) sr \<Rightarrow> (Session, 'a) sr" where
  "on_exch i m = (\<lambda>s.
     if i < length (se_exchanges s) then
       (case se_exchanges s ! i of
          Some e \<Rightarrow> (case m e of (r, e') \<Rightarrow> (r, s\<lparr>se_exchanges := (se_exchanges s)[i := Some e']\<rparr>))
        | None \<Rightarrow> (Panic, s))
     else (Panic, s))"

definition Session_get_exch_for_rx :: "ProtoHdr \<Rightarrow> Session \<Rightarrow> nat option" where
  "Session_get_exch_for_rx rx_proto s =
     position (\<lambda>exch. case exch of Some e \<Rightarrow> ExchangeState_is_for_rx rx_proto e | None \<Rightarrow> False)
       (se_exchanges s)"

definition Session_add_exch :: "u16 \<Rightarrow> Role \<Rightarrow> (Session, nat option) sr" where
  "Session_add_exch exch_id role = (\<lambda>s.
     let exch_state = Some \<lparr>ex_exch_id = exch_id, ex_role = role, ex_mrp = ReliableMessage_new\<rparr>;
         finish = (\<lambda>exch_index s. case ExchangeId_new (se_id s) exch_index of
           Ok _ \<Rightarrow> (Ok (Some exch_index), s) | Err e \<Rightarrow> (Err e, s) | Panic \<Rightarrow> (Panic, s))
     in if length (se_exchanges s) < MAX_EXCHANGES
        then finish (length (se_exchanges s)) (s\<lparr>se_exchanges := se_exchanges s @ [exch_state]\<rparr>)
        else case position (\<lambda>exch. exch = None) (se_exchanges s) of
          Some index \<Rightarrow> finish index (s\<lparr>se_exchanges := (se_exchanges s)[index := exch_state]\<rparr>)
        | None \<Rightarrow> (Ok None, s))"

definition Session_remove_exch :: "nat \<Rightarrow> (Session, bool) sr" where
  "Session_remove_exch index = (\<lambda>s.
     if index < length (se_exchanges s) then
       (case se_exchanges s ! index of
          None \<Rightarrow> (Panic, s)
        | Some e \<Rightarrow>
            (case ExchangeId_new (se_id s) index of
               Ok _ \<Rightarrow>
                 if ReliableMessage_is_retrans_pending (ex_mrp e) \<or> ReliableMessage_is_ack_pending (ex_mrp e)
                 then (Ok False, s\<lparr>se_exchanges :=
                   (se_exchanges s)[index := Some (e\<lparr>ex_role := Role_set_dropped_state (ex_role e)\<rparr>)]\<rparr>)
                 else (Ok True, s\<lparr>se_exchanges := (se_exchanges s)[index := None]\<rparr>)
             | Err e \<Rightarrow> (Err e, s) | Panic \<Rightarrow> (Panic, s)))
     else (Panic, s))"

subsection \<open>Receiving and sending\<close>

definition Session_post_recv :: "PacketHdr \<Rightarrow> u64 \<Rightarrow> (Session, bool) sr" where
  "Session_post_recv rx_header now = (\<lambda>s.
     case RxCtrState_post_recv (ph_ctr (pk_plain rx_header)) (Session_is_encrypted s) (se_rx_ctr_state s) of
       (accepted, rx) \<Rightarrow>
         (let s = s\<lparr>se_rx_ctr_state := rx\<rparr> in
          if \<not> accepted then (Err Duplicate, s)
          else case Session_get_exch_for_rx (pk_proto rx_header) s of
            Some exch_index \<Rightarrow>
              sr_then (on_exch exch_index
                  (ExchangeState_post_recv (pk_plain rx_header) (pk_proto rx_header) now))
                (sr_return False) s
          | None \<Rightarrow>
              if \<not> ProtoHdr_is_initiator (pk_proto rx_header) \<or>
                 \<not> MessageMeta_is_new_exchange (MessageMeta_from (pk_proto rx_header))
              then (Err NoExchange, s)
              else sr_bind (Session_add_exch (pr_exch_id (pk_proto rx_header)) (Responder AcceptPending))
                (\<lambda>idx. case idx of
                   Some exch_index \<Rightarrow>
                     sr_then (on_exch exch_index
                         (ExchangeState_post_recv (pk_plain rx_header) (pk_proto rx_header) now))
                       (sr_return True)
                 | None \<Rightarrow> sr_err NoSpaceExchanges) s))"

text \<open>The counter of the message \<^verbatim>\<open>pre_send\<close> finds waiting for an acknowledgement.\<close>

definition pending_ctr :: "nat option \<Rightarrow> Session \<Rightarrow> u32 option res" where
  "pending_ctr exch_index s = (case exch_index of
     None \<Rightarrow> Ok None
   | Some i \<Rightarrow>
       if i < length (se_exchanges s) then
         (case se_exchanges s ! i of
            Some e \<Rightarrow> Ok (map_option RetransEntry_get_msg_ctr (rm_retrans (ex_mrp e)))
          | None \<Rightarrow> Panic)
       else Panic)"

text \<open>The plain header \<^verbatim>\<open>pre_send\<close> fills in.\<close>

definition tx_plain_hdr :: "u32 \<Rightarrow> Session \<Rightarrow> PlainHdr \<Rightarrow> PlainHdr" where
  "tx_plain_hdr ctr s plain =
     PlainHdr_set_dst_unicast_nodeid (if se_mode s = PlainText then se_peer_nodeid s else None)
       (PlainHdr_set_src_nodeid
          (if \<not> Session_is_encrypted s \<and> se_local_nodeid s \<noteq> 0 then Some (se_local_nodeid s) else None)
          (plain\<lparr>ph_sess_id := se_peer_sess_id s, ph_ctr := ctr\<rparr>))"

definition Session_pre_send ::
    "nat option \<Rightarrow> u32 option \<Rightarrow> u32 option \<Rightarrow> (Session \<times> PacketHdr, Address \<times> bool) sr" where
  "Session_pre_send exch_index active_ms idle_ms = (\<lambda>(s, h).
     case pending_ctr exch_index s of
       Ok ctr \<Rightarrow>
         (let retransmission = (ctr \<noteq> None);
              (c, s) = (case ctr of Some c \<Rightarrow> (c, s) | None \<Rightarrow> Session_get_msg_ctr s);
              plain = tx_plain_hdr c s (pk_plain h);
              proto = ProtoHdr_adjust_reliability (se_peer_addr s) (pk_proto h)
          in case exch_index of
               None \<Rightarrow> (Ok (se_peer_addr s, retransmission), (s, h\<lparr>pk_plain := plain, pk_proto := proto\<rparr>))
             | Some i \<Rightarrow>
                 (case se_exchanges s ! i of
                    None \<Rightarrow> (Panic, (s, h\<lparr>pk_plain := plain, pk_proto := proto\<rparr>))
                  | Some e \<Rightarrow>
                      (case ExchangeState_pre_send plain active_ms idle_ms (e, proto) of
                         (r, (e', proto')) \<Rightarrow>
                           ((case r of Ok _ \<Rightarrow> Ok (se_peer_addr s, retransmission)
                             | Err e \<Rightarrow> Err e | Panic \<Rightarrow> Panic),
                            (s\<lparr>se_exchanges := (se_exchanges s)[i := Some e']\<rparr>,
                             h\<lparr>pk_plain := plain, pk_proto := proto'\<rparr>)))))
     | Err e \<Rightarrow> (Err e, (s, h))
     | Panic \<Rightarrow> (Panic, (s, h)))"

definition Session_decode_remaining ::
    "Crypto \<Rightarrow> Session \<Rightarrow> (PacketHdr \<times> ReadBuf, nat \<times> nat) sr" where
  "Session_decode_remaining crypto s =
     sr_then (PacketHdr_decode_remaining crypto (Session_get_dec_key s)
         (case se_peer_nodeid s of Some n \<Rightarrow> n | None \<Rightarrow> 0))
     (sr_then (on_fst (sr_modify (\<lambda>h. h\<lparr>pk_proto := ProtoHdr_adjust_reliability (se_peer_addr s) (pk_proto h)\<rparr>)))
     (sr_bind (on_snd sr_get) (\<lambda>pb. sr_return (ReadBuf_slice_range pb))))"

definition Session_encode :: "Crypto \<Rightarrow> PacketHdr \<Rightarrow> Session \<Rightarrow> (WriteBuf, unit) sr" where
  "Session_encode crypto tx s = PacketHdr_encode tx crypto (Session_get_enc_key s) (se_local_nodeid s)"

subsection \<open>The session table\<close>

record Sessions =
  ss_next_sess_unique_id :: u32
  ss_next_sess_id :: u16
  ss_next_exch_id :: u16
  ss_sessions :: "Session list"
  ss_group_ctr_store :: GroupCtrStore

definition Sessions_new :: Sessions where
  "Sessions_new = \<lparr>ss_next_sess_unique_id = 0, ss_next_sess_id = 1, ss_next_exch_id = 1,
     ss_sessions = [], ss_group_ctr_store = GroupCtrStore_new\<rparr>"

definition Sessions_reset :: "Sessions \<Rightarrow> Sessions" where
  "Sessions_reset t = t\<lparr>ss_sessions := [], ss_group_ctr_store := GroupCtrStore_new,
     ss_next_sess_id := 1, ss_next_exch_id := 1\<rparr>"

text \<open>The loop both id generators run, with the test of the existing ids as a parameter.\<close>

definition next_id :: "u16 \<Rightarrow> u16" where
  "next_id n = (if n + 1 = 0 then 1 else n + 1)"

partial_function (option) next_free_id :: "(u16 \<Rightarrow> bool) \<Rightarrow> u16 \<Rightarrow> (u16 \<times> u16) option" where
  "next_free_id used n = (if used n then next_free_id used (next_id n) else Some (n, next_id n))"

definition sess_id_used :: "Sessions \<Rightarrow> u16 \<Rightarrow> bool" where
  "sess_id_used t i \<longleftrightarrow> (\<exists>s \<in> set (ss_sessions t). se_local_sess_id s = i)"

definition Sessions_get_next_sess_id :: "Sessions \<Rightarrow> (u16 \<times> Sessions) option" where
  "Sessions_get_next_sess_id t =
     (case next_free_id (sess_id_used t) (ss_next_sess_id t) of
        None \<Rightarrow> None
      | Some (i, n) \<Rightarrow> Some (i, t\<lparr>ss_next_sess_id := n\<rparr>))"

definition exch_id_used :: "Sessions \<Rightarrow> u16 \<Rightarrow> bool" where
  "exch_id_used t i \<longleftrightarrow> (\<exists>s \<in> set (ss_sessions t). \<exists>exch \<in> set (se_exchanges s).
     case exch of Some e \<Rightarrow> is_responder (ex_role e) \<and> ex_exch_id e = i | None \<Rightarrow> False)"

definition Sessions_get_next_exch_id :: "Sessions \<Rightarrow> (u16 \<times> Sessions) option" where
  "Sessions_get_next_exch_id t =
     (case next_free_id (exch_id_used t) (ss_next_exch_id t) of
        None \<Rightarrow> None
      | Some (i, n) \<Rightarrow> Some (i, t\<lparr>ss_next_exch_id := n\<rparr>))"

definition evictable :: "Session \<Rightarrow> bool" where
  "evictable s \<longleftrightarrow> \<not> se_reserved s \<and> (\<forall>exch \<in> set (se_exchanges s). exch = None)"

fun eviction_scan :: "nat \<Rightarrow> Session list \<Rightarrow> nat option \<Rightarrow> nat \<Rightarrow> nat option" where
  "eviction_scan i [] lru_index lru_ts = lru_index"
| "eviction_scan i (s # ss) lru_index lru_ts =
     (if (se_expired s \<or> se_last_use s < lru_ts) \<and> evictable s
      then if se_expired s then Some i else eviction_scan (Suc i) ss (Some i) (se_last_use s)
      else eviction_scan (Suc i) ss lru_index lru_ts)"

definition Sessions_get_session_for_eviction :: "nat \<Rightarrow> Sessions \<Rightarrow> nat option" where
  "Sessions_get_session_for_eviction now t = eviction_scan 0 (ss_sessions t) None now"

definition Sessions_add ::
    "u32 \<Rightarrow> bool \<Rightarrow> Address \<Rightarrow> u64 option \<Rightarrow> nat \<Rightarrow> (Sessions, nat) sr" where
  "Sessions_add msg_ctr reserved peer_addr peer_nodeid now = (\<lambda>t.
     let session_id = ss_next_sess_unique_id t;
         n = session_id + 1;
         t = t\<lparr>ss_next_sess_unique_id := (if n > 0x0fffffff then 0 else n)\<rparr>
     in if length (ss_sessions t) < MAX_SESSIONS
        then (Ok (length (ss_sessions t)),
              t\<lparr>ss_sessions := ss_sessions t @ [Session_new session_id msg_ctr reserved peer_addr peer_nodeid now]\<rparr>)
        else (Err NoSpaceSessions, t))"

definition Sessions_remove :: "u32 \<Rightarrow> Sessions \<Rightarrow> Session option \<times> Sessions" where
  "Sessions_remove i t =
     (case position (\<lambda>s. se_id s = i) (ss_sessions t) of
        Some index \<Rightarrow> (Some (ss_sessions t ! index), t\<lparr>ss_sessions := swap_remove index (ss_sessions t)\<rparr>)
      | None \<Rightarrow> (None, t))"

text \<open>Marking the first session with a property, \<^verbatim>\<open>iter_mut().find(..)\<close>.\<close>

definition update_first :: "(Session \<Rightarrow> bool) \<Rightarrow> (Session \<Rightarrow> Session) \<Rightarrow> Sessions \<Rightarrow> nat option \<times> Sessions" where
  "update_first P f t =
     (case position P (ss_sessions t) of
        Some i \<Rightarrow> (Some i, t\<lparr>ss_sessions := (ss_sessions t)[i := f (ss_sessions t ! i)]\<rparr>)
      | None \<Rightarrow> (None, t))"

definition expire :: "Session \<Rightarrow> Session" where
  "expire s = s\<lparr>se_expired := True\<rparr>"

definition Sessions_remove_for_fabric :: "u8 \<Rightarrow> u32 option \<Rightarrow> Sessions \<Rightarrow> Sessions" where
  "Sessions_remove_for_fabric fabric_idx expire_sess_id t =
     (let t = t\<lparr>ss_sessions := remove_all_swap
            (\<lambda>s. Session_get_local_fabric_idx s = fabric_idx \<and> Some (se_id s) \<noteq> expire_sess_id)
            (ss_sessions t)\<rparr>
      in case expire_sess_id of
           Some e \<Rightarrow> snd (update_first (\<lambda>s. se_id s = e) expire t)
         | None \<Rightarrow> t)"

definition is_pase :: "Session \<Rightarrow> bool" where
  "is_pase s = (case se_mode s of Pase _ \<Rightarrow> True | _ \<Rightarrow> False)"

definition Sessions_remove_pase :: "u32 option \<Rightarrow> Sessions \<Rightarrow> Sessions" where
  "Sessions_remove_pase expire_sess_id t =
     (let t = t\<lparr>ss_sessions := remove_all_swap
            (\<lambda>s. is_pase s \<and> Some (se_id s) \<noteq> expire_sess_id) (ss_sessions t)\<rparr>
      in case expire_sess_id of
           Some e \<Rightarrow> snd (update_first (\<lambda>s. se_id s = e \<and> is_pase s) expire t)
         | None \<Rightarrow> t)"

definition Sessions_get :: "nat \<Rightarrow> u32 \<Rightarrow> Sessions \<Rightarrow> nat option \<times> Sessions" where
  "Sessions_get now i t = update_first (\<lambda>s. se_id s = i) (Session_update_last_used now) t"

text \<open>\<^verbatim>\<open>max_by_key\<close> picks the last of several maximal elements.\<close>

fun max_by_key_last :: "('a \<Rightarrow> nat) \<Rightarrow> 'a list \<Rightarrow> 'a option" where
  "max_by_key_last key [] = None"
| "max_by_key_last key (x # xs) =
     (case max_by_key_last key xs of
        None \<Rightarrow> Some x
      | Some y \<Rightarrow> if key y \<ge> key x then Some y else Some x)"

definition Sessions_get_for_node ::
    "nat \<Rightarrow> u8 \<Rightarrow> u64 \<Rightarrow> bool \<Rightarrow> Sessions \<Rightarrow> nat option \<times> Sessions" where
  "Sessions_get_for_node now fabric_idx peer_node_id secure t =
     (case max_by_key_last (\<lambda>(i, s). if Address_is_tcp (se_peer_addr s) then 1 else 0)
        (filter (\<lambda>(i, s). \<not> se_expired s \<and> Session_is_for_node fabric_idx peer_node_id secure s)
          (enumerate 0 (ss_sessions t))) of
        Some (i, s) \<Rightarrow>
          (Some i, t\<lparr>ss_sessions := (ss_sessions t)[i := Session_update_last_used now s]\<rparr>)
      | None \<Rightarrow> (None, t))"

definition Sessions_get_for_rx :: "nat \<Rightarrow> Address \<Rightarrow> PlainHdr \<Rightarrow> Sessions \<Rightarrow> nat option \<times> Sessions" where
  "Sessions_get_for_rx now rx_peer rx_plain t =
     update_first (\<lambda>s. \<not> se_expired s \<and> Session_is_for_rx rx_peer rx_plain s)
       (Session_update_last_used now) t"

definition Sessions_get_for_tx :: "nat \<Rightarrow> u32 \<Rightarrow> Sessions \<Rightarrow> nat option \<times> Sessions" where
  "Sessions_get_for_tx now session_id t =
     update_first (Session_is_for_tx session_id) (Session_update_last_used now) t"

text \<open>
  \<^verbatim>\<open>get_exch\<close> looks for the first exchange with a property over all sessions and then looks the
  session up by its id.
\<close>

definition exchanges_of :: "Sessions \<Rightarrow> (Session \<times> ExchangeState \<times> nat) list" where
  "exchanges_of t = concat (map (\<lambda>s.
     concat (map (\<lambda>(i, exch). case exch of Some e \<Rightarrow> [(s, e, i)] | None \<Rightarrow> [])
       (enumerate 0 (se_exchanges s)))) (ss_sessions t))"

definition Sessions_get_exch ::
    "nat \<Rightarrow> (Session \<Rightarrow> ExchangeState \<Rightarrow> bool) \<Rightarrow> (Sessions, (nat \<times> nat) option) sr" where
  "Sessions_get_exch now f = (\<lambda>t.
     case find (\<lambda>(s, e, i). f s e) (exchanges_of t) of
       Some (s, e, exch_index) \<Rightarrow>
         (case Sessions_get now (se_id s) t of
            (Some j, t) \<Rightarrow> (Ok (Some (j, exch_index)), t)
          | (None, t) \<Rightarrow> (Panic, t))
     | None \<Rightarrow> (Ok None, t))"

subsection \<open>Reserved sessions\<close>

record ReservedSession =
  rs_id :: u32
  rs_complete :: bool

text \<open>\<open>rand\<close> is what \<^verbatim>\<open>crypto.weak_rand()?.next_u32()\<close> yields.\<close>

definition ReservedSession_reserve_now :: "u32 res \<Rightarrow> nat \<Rightarrow> (Sessions, ReservedSession) sr" where
  "ReservedSession_reserve_now rand now =
     sr_bind (sr_res rand) (\<lambda>r.
     sr_bind (Sessions_add r True Address_new None now) (\<lambda>i.
     sr_bind sr_get (\<lambda>t. sr_return \<lparr>rs_id = se_id (ss_sessions t ! i), rs_complete = False\<rparr>)))"

definition ReservedSession_update_with_state ::
    "ReservedSession \<Rightarrow> u64 \<Rightarrow> u64 \<Rightarrow> u16 \<Rightarrow> u16 \<Rightarrow> Address \<Rightarrow> SessionMode \<Rightarrow> bytes option \<Rightarrow>
     bytes option \<Rightarrow> bytes option \<Rightarrow> nat \<Rightarrow> (Sessions, unit) sr" where
  "ReservedSession_update_with_state rs local_nodeid peer_nodeid peer_sessid local_sessid peer_addr mode
     dec_key enc_key att_challenge now = (\<lambda>t.
     case Sessions_get now (rs_id rs) t of
       (Some i, t) \<Rightarrow>
         (Ok (), t\<lparr>ss_sessions := (ss_sessions t)[i := (ss_sessions t ! i)
           \<lparr>se_local_nodeid := local_nodeid, se_peer_nodeid := Some peer_nodeid,
            se_peer_sess_id := peer_sessid, se_local_sess_id := local_sessid,
            se_peer_addr := peer_addr, se_mode := mode,
            se_dec_key := (case dec_key of Some k \<Rightarrow> k | None \<Rightarrow> se_dec_key (ss_sessions t ! i)),
            se_enc_key := (case enc_key of Some k \<Rightarrow> k | None \<Rightarrow> se_enc_key (ss_sessions t ! i)),
            se_att_challenge := (case att_challenge of Some c \<Rightarrow> c | None \<Rightarrow> se_att_challenge (ss_sessions t ! i))\<rparr>]\<rparr>)
     | (None, t) \<Rightarrow> (Err NoSession, t))"

definition ReservedSession_complete :: "ReservedSession \<Rightarrow> ReservedSession" where
  "ReservedSession_complete rs = rs\<lparr>rs_complete := True\<rparr>"

definition ReservedSession_drop :: "ReservedSession \<Rightarrow> nat \<Rightarrow> (Sessions, unit) sr" where
  "ReservedSession_drop rs now = (\<lambda>t.
     if rs_complete rs then
       (case Sessions_get now (rs_id rs) t of
          (Some i, t) \<Rightarrow>
            (Ok (), t\<lparr>ss_sessions := (ss_sessions t)[i := (ss_sessions t ! i)\<lparr>se_reserved := False\<rparr>]\<rparr>)
        | (None, t) \<Rightarrow> (Panic, t))
     else (Ok (), snd (Sessions_remove (rs_id rs) t)))"

subsection \<open>Invariants\<close>

definition Session_inv :: "Session \<Rightarrow> bool" where
  "Session_inv s \<longleftrightarrow> se_id s \<le> 0x0fffffff \<and> length (se_exchanges s) \<le> MAX_EXCHANGES"

definition Sessions_inv :: "Sessions \<Rightarrow> bool" where
  "Sessions_inv t \<longleftrightarrow> length (ss_sessions t) \<le> MAX_SESSIONS \<and> (\<forall>s \<in> set (ss_sessions t). Session_inv s) \<and>
     ss_next_sess_unique_id t \<le> 0x0fffffff \<and> ss_next_sess_id t \<noteq> 0 \<and> ss_next_exch_id t \<noteq> 0"

lemma ExchangeId_new_total:
  "Session_inv s \<Longrightarrow> i < MAX_EXCHANGES \<Longrightarrow> \<exists>x. ExchangeId_new (se_id s) i = Ok x"
  by (simp add: ExchangeId_new_def Session_inv_def MAX_EXCHANGES_def linorder_not_less)

text \<open>
  Adding an exchange to a session that satisfies the invariant: it gets a slot of its own, every
  other slot is left alone, and it fails exactly when all slots are taken.
\<close>

definition fresh_exchange :: "u16 \<Rightarrow> Role \<Rightarrow> ExchangeState" where
  "fresh_exchange exch_id role = \<lparr>ex_exch_id = exch_id, ex_role = role, ex_mrp = ReliableMessage_new\<rparr>"

lemma Session_add_exch_cases:
  assumes inv: "Session_inv s"
  obtains (added) i xs where
      "Session_add_exch exch_id role s = (Ok (Some i), s\<lparr>se_exchanges := xs\<rparr>)"
      "i < length xs" "length xs \<le> MAX_EXCHANGES" "xs ! i = Some (fresh_exchange exch_id role)"
      "i < length (se_exchanges s) \<Longrightarrow> se_exchanges s ! i = None"
      "\<And>j. j < length (se_exchanges s) \<Longrightarrow> j \<noteq> i \<Longrightarrow> xs ! j = se_exchanges s ! j"
  | (full) "Session_add_exch exch_id role s = (Ok None, s)" "length (se_exchanges s) = MAX_EXCHANGES"
      "\<forall>exch \<in> set (se_exchanges s). exch \<noteq> None"
proof (cases "length (se_exchanges s) < MAX_EXCHANGES")
  case True
  let ?xs = "se_exchanges s @ [Some (fresh_exchange exch_id role)]"
  have "\<exists>x. ExchangeId_new (se_id (s\<lparr>se_exchanges := ?xs\<rparr>)) (length (se_exchanges s)) = Ok x"
    using ExchangeId_new_total [OF inv True] by simp
  with True show ?thesis
    using added [of "length (se_exchanges s)" ?xs]
    by (auto simp: Session_add_exch_def fresh_exchange_def nth_append)
next
  case False
  with inv have len: "length (se_exchanges s) = MAX_EXCHANGES" by (simp add: Session_inv_def)
  show ?thesis
  proof (cases "position (\<lambda>exch. exch = None) (se_exchanges s)")
    case None
    then have "Session_add_exch exch_id role s = (Ok None, s)" by (simp add: Session_add_exch_def len Let_def)
    then show ?thesis using full None len by (simp add: position_None)
  next
    case (Some i)
    then have i: "i < length (se_exchanges s)" "se_exchanges s ! i = None"
      using position_SomeD [OF Some] by simp_all
    let ?xs = "(se_exchanges s)[i := Some (fresh_exchange exch_id role)]"
    have "\<exists>x. ExchangeId_new (se_id (s\<lparr>se_exchanges := ?xs\<rparr>)) i = Ok x"
      using ExchangeId_new_total [OF inv] i len by simp
    then show ?thesis
      using added [of i ?xs] Some i len by (auto simp: Session_add_exch_def fresh_exchange_def)
  qed
qed

lemma on_exch_some:
  "i < length (se_exchanges s) \<Longrightarrow> se_exchanges s ! i = Some e \<Longrightarrow>
   on_exch i m s = (fst (m e), s\<lparr>se_exchanges := (se_exchanges s)[i := Some (snd (m e))]\<rparr>)"
  by (simp add: on_exch_def split: prod.splits)

lemma on_exch_inv: "Session_inv s \<Longrightarrow> Session_inv (snd (on_exch i m s))"
  by (auto simp: on_exch_def Session_inv_def split: option.splits prod.splits)

lemma ExchangeState_post_recv_total: "fst (ExchangeState_post_recv p h now e) \<noteq> Panic"
  by (auto simp: ExchangeState_post_recv_def ReliableMessage_post_recv_cases split: option.splits prod.splits)

lemma get_exch_for_rx_some:
  assumes "Session_get_exch_for_rx h s = Some i"
  shows "i < length (se_exchanges s) \<and> (\<exists>e. se_exchanges s ! i = Some e \<and> ExchangeState_is_for_rx h e)"
  using position_SomeD [OF assms [unfolded Session_get_exch_for_rx_def]]
  by (auto split: option.splits)

lemma deliver_safe:
  assumes "Session_inv s" and "i < length (se_exchanges s)" and "se_exchanges s ! i = Some e"
  shows "fst (sr_then (on_exch i (ExchangeState_post_recv p h now)) (sr_return b) s) \<noteq> Panic \<and>
    Session_inv (snd (sr_then (on_exch i (ExchangeState_post_recv p h now)) (sr_return b) s))"
  using on_exch_some [OF assms(2,3), of "ExchangeState_post_recv p h now"]
    on_exch_inv [OF assms(1), of i "ExchangeState_post_recv p h now"]
    ExchangeState_post_recv_total [of p h now e]
  by (auto simp: sr_bind_def sr_return_def split: res.splits)

lemma Session_post_recv_safe:
  assumes inv: "Session_inv s"
  shows "fst (Session_post_recv h now s) \<noteq> Panic \<and> Session_inv (snd (Session_post_recv h now s))"
proof -
  obtain acc rx where rx: "RxCtrState_post_recv (ph_ctr (pk_plain h)) (Session_is_encrypted s) (se_rx_ctr_state s) = (acc, rx)"
    by fastforce
  define s1 where "s1 = s\<lparr>se_rx_ctr_state := rx\<rparr>"
  have inv1: "Session_inv s1" using inv by (simp add: s1_def Session_inv_def)
  note simps = Session_post_recv_def rx s1_def [symmetric]
  consider "\<not> acc"
    | i where "acc" "Session_get_exch_for_rx (pk_proto h) s1 = Some i"
    | "acc" "Session_get_exch_for_rx (pk_proto h) s1 = None"
        "\<not> ProtoHdr_is_initiator (pk_proto h) \<or> \<not> MessageMeta_is_new_exchange (MessageMeta_from (pk_proto h))"
    | "acc" "Session_get_exch_for_rx (pk_proto h) s1 = None"
        "ProtoHdr_is_initiator (pk_proto h) \<and> MessageMeta_is_new_exchange (MessageMeta_from (pk_proto h))"
    by (cases "Session_get_exch_for_rx (pk_proto h) s1") auto
  then show ?thesis
  proof cases
    case 2
    from get_exch_for_rx_some [OF 2(2)] obtain e where "i < length (se_exchanges s1)" "se_exchanges s1 ! i = Some e"
      by auto
    from deliver_safe [OF inv1 this] 2 show ?thesis by (simp add: simps)
  next
    case 4
    from inv1 show ?thesis
    proof (cases rule: Session_add_exch_cases [where exch_id = "pr_exch_id (pk_proto h)" and role = "Responder AcceptPending"])
      case (added i xs)
      have inv2: "Session_inv (s1\<lparr>se_exchanges := xs\<rparr>)" using inv1 added(3) by (simp add: Session_inv_def)
      have i: "i < length (se_exchanges (s1\<lparr>se_exchanges := xs\<rparr>))" using added(2) by simp
      have e: "se_exchanges (s1\<lparr>se_exchanges := xs\<rparr>) ! i =
          Some (fresh_exchange (pr_exch_id (pk_proto h)) (Responder AcceptPending))" using added(4) by simp
      from 4 added(1) deliver_safe [OF inv2 i e] show ?thesis
        by (simp add: simps sr_bind_def [of "Session_add_exch _ _"])
    qed (use 4 inv1 in \<open>simp add: simps sr_bind_def sr_err_def\<close>)
  qed (use inv1 in \<open>simp_all add: simps\<close>)
qed

subsection \<open>Sending\<close>

lemma ReliableMessage_pre_send_ok:
  assumes "map_option re_msg_ctr (rm_retrans m) \<in> {None, Some (ph_ctr plain)}"
  shows "\<exists>m' h'. ReliableMessage_pre_send plain act idle (m, h) = (Ok (), (m', h')) \<and> pr_exch_id h' = pr_exch_id h"
proof -
  have eid: "pr_exch_id (ProtoHdr_set_ack a g) = pr_exch_id g" for a g
    by (simp add: ProtoHdr_set_ack_def split: option.splits)
  show ?thesis
    using assms
    by (cases "rm_retrans m"; cases "rm_ack m") (simp_all add: ReliableMessage_pre_send_cases Let_def eid)
qed

lemma ExchangeState_pre_send_ok:
  assumes "map_option re_msg_ctr (rm_retrans (ex_mrp e)) \<in> {None, Some (ph_ctr plain)}"
  shows "\<exists>e' proto'. ExchangeState_pre_send plain act idle (e, proto) = (Ok (), (e', proto')) \<and>
    ex_exch_id e' = ex_exch_id e \<and> ex_role e' = ex_role e \<and> pr_exch_id proto' = ex_exch_id e"
proof -
  let ?p = "(case ex_role e of Initiator _ \<Rightarrow> ProtoHdr_set_initiator proto
      | Responder _ \<Rightarrow> ProtoHdr_unset_initiator proto)\<lparr>pr_exch_id := ex_exch_id e\<rparr>"
  from ReliableMessage_pre_send_ok [OF assms, of act idle ?p] obtain m' h' where
    "ReliableMessage_pre_send plain act idle (ex_mrp e, ?p) = (Ok (), (m', h'))" "pr_exch_id h' = pr_exch_id ?p"
    by blast
  then show ?thesis by (simp add: ExchangeState_pre_send_def Let_def)
qed

lemma tx_plain_hdr_ctr [simp]: "ph_ctr (tx_plain_hdr c s p) = c" "ph_sess_id (tx_plain_hdr c s p) = se_peer_sess_id s"
  by (simp_all add: tx_plain_hdr_def PlainHdr_set_dst_unicast_nodeid_def PlainHdr_set_src_nodeid_def split: option.splits)

text \<open>
  Sending on an existing exchange: a pending message is sent again with its own counter, anything else
  takes the next counter of the session. The panic of \<^verbatim>\<open>RetransEntry::pre_send\<close> is out of reach.
\<close>

definition session_sends :: "nat option \<Rightarrow> Session \<Rightarrow> bool" where
  "session_sends idx s = (case idx of None \<Rightarrow> True | Some i \<Rightarrow> i < length (se_exchanges s) \<and> se_exchanges s ! i \<noteq> None)"

lemma pre_send_on_exchange:
  assumes "pending_ctr (Some i) s = Ok ctr"
    and "(case ctr of Some c \<Rightarrow> (c, s) | None \<Rightarrow> Session_get_msg_ctr s) = (c, s1)"
    and "se_exchanges s1 ! i = Some e"
    and "ExchangeState_pre_send (tx_plain_hdr c s1 (pk_plain h)) act idle
        (e, ProtoHdr_adjust_reliability (se_peer_addr s1) (pk_proto h)) = (Ok (), (e', proto'))"
  shows "Session_pre_send (Some i) act idle (s, h) = (Ok (se_peer_addr s1, ctr \<noteq> None),
    (s1\<lparr>se_exchanges := (se_exchanges s1)[i := Some e']\<rparr>,
     h\<lparr>pk_plain := tx_plain_hdr c s1 (pk_plain h), pk_proto := proto'\<rparr>))"
  by (simp add: Session_pre_send_def assms)

lemma Session_pre_send_ok:
  assumes "session_sends idx s"
  obtains ctr s' h' where "pending_ctr idx s = Ok ctr"
    "Session_pre_send idx act idle (s, h) = (Ok (se_peer_addr s, ctr \<noteq> None), (s', h'))"
    "ph_ctr (pk_plain h') = (case ctr of Some c \<Rightarrow> c | None \<Rightarrow> se_msg_ctr s)"
    "se_msg_ctr s' = (case ctr of Some c \<Rightarrow> se_msg_ctr s | None \<Rightarrow> se_msg_ctr s + 1)"
    "se_id s' = se_id s" "length (se_exchanges s') = length (se_exchanges s)"
    "ph_sess_id (pk_plain h') = se_peer_sess_id s"
proof (cases idx)
  case None
  then show ?thesis
    using that [of None "s\<lparr>se_msg_ctr := se_msg_ctr s + 1\<rparr>"]
    by (simp add: pending_ctr_def Session_pre_send_def Session_get_msg_ctr_def)
next
  case (Some i)
  with assms obtain e where e: "i < length (se_exchanges s)" "se_exchanges s ! i = Some e"
    by (auto simp: session_sends_def)
  define ctr where "ctr = map_option re_msg_ctr (rm_retrans (ex_mrp e))"
  define c s1 where "c = (case ctr of Some c \<Rightarrow> c | None \<Rightarrow> se_msg_ctr s)"
    and "s1 = (case ctr of Some c \<Rightarrow> s | None \<Rightarrow> s\<lparr>se_msg_ctr := se_msg_ctr s + 1\<rparr>)"
  have p: "pending_ctr (Some i) s = Ok ctr"
    using e by (simp add: pending_ctr_def RetransEntry_get_msg_ctr_def [abs_def] ctr_def)
  have cs: "(case ctr of Some c \<Rightarrow> (c, s) | None \<Rightarrow> Session_get_msg_ctr s) = (c, s1)"
    by (cases ctr) (auto simp: c_def s1_def Session_get_msg_ctr_def)
  have s1: "se_exchanges s1 = se_exchanges s" "se_peer_addr s1 = se_peer_addr s" "se_id s1 = se_id s"
      "se_peer_sess_id s1 = se_peer_sess_id s"
    by (cases ctr; simp add: s1_def)+
  let ?plain = "tx_plain_hdr c s1 (pk_plain h)" and ?proto = "ProtoHdr_adjust_reliability (se_peer_addr s1) (pk_proto h)"
  have "map_option re_msg_ctr (rm_retrans (ex_mrp e)) \<in> {None, Some (ph_ctr ?plain)}"
    unfolding ctr_def [symmetric] by (cases ctr) (auto simp: c_def)
  then obtain e' proto' where x: "ExchangeState_pre_send ?plain act idle (e, ?proto) = (Ok (), (e', proto'))"
    using ExchangeState_pre_send_ok by blast
  from e(2) s1(1) have "se_exchanges s1 ! i = Some e" by simp
  from pre_send_on_exchange [OF p cs this x] show ?thesis
    using that [of ctr] p s1 by (simp add: Some c_def s1_def split: option.splits)
qed

subsection \<open>Fresh identifiers\<close>

text \<open>
  The contract of an id generator: the search starts at a nonzero id and fewer ids are taken than
  there are nonzero ones. Then the search ends, at an id that is free. Both generators of the table
  are instances.
\<close>

lemma unat_next_id: "n \<noteq> 0 \<Longrightarrow> unat (next_id n) = unat n mod 65535 + 1"
proof -
  assume n: "n \<noteq> 0"
  have b: "unat n < 65536" using unat_bounds_u16 [of n] by simp
  show ?thesis
  proof (cases "n + 1 = 0")
    case True
    then have "Suc (unat n) mod 65536 = 0" using unat_word_ariths(1) [of n 1] by simp
    then have "unat n = 65535" using b by (cases "Suc (unat n) < 65536") auto
    then show ?thesis using True by (simp add: next_id_def)
  next
    case False
    then have "unat (n + 1) \<noteq> 0" by (simp add: unat_eq_zero)
    then have "Suc (unat n) mod 65536 \<noteq> 0" using unat_word_ariths(1) [of n 1] by simp
    then have l: "unat n < 65535" using b by (cases "unat n = 65535") auto
    then have "unat (n + 1) = unat n + 1" using unat_word_ariths(1) [of n 1] by simp
    with l show ?thesis using False by (simp add: next_id_def)
  qed
qed

lemma unat_nth_id:
  assumes "n \<noteq> 0"
  shows "(next_id ^^ k) n \<noteq> 0 \<and> unat ((next_id ^^ k) n) = (unat n - 1 + k) mod 65535 + 1"
proof (induction k)
  case 0
  have "unat n \<noteq> 0" using assms by (simp add: unat_eq_zero)
  moreover have "unat n < 65536" using unat_bounds_u16 [of n] by simp
  ultimately show ?case using assms by simp
next
  case (Suc k)
  let ?m = "(next_id ^^ k) n"
  have u: "unat (next_id ?m) = unat ?m mod 65535 + 1" using Suc unat_next_id by blast
  then have "next_id ?m \<noteq> 0" by (metis Suc_eq_plus1 nat.distinct(1) unat_0)
  moreover have "unat ?m mod 65535 = (unat n - 1 + Suc k) mod 65535"
    using Suc by (simp add: mod_Suc_eq)
  ultimately show ?case using u by simp
qed

lemma every_id_is_reached: "n \<noteq> 0 \<Longrightarrow> v \<noteq> 0 \<Longrightarrow> \<exists>k. (next_id ^^ k) n = v"
proof -
  assume n: "n \<noteq> 0" and v: "v \<noteq> 0"
  let ?k = "unat v + 65535 - unat n"
  have "unat n \<noteq> 0" "unat v \<noteq> 0" using n v by (simp_all add: unat_eq_zero)
  moreover have "unat n < 65536" "unat v < 65536" using unat_bounds_u16 [of n] unat_bounds_u16 [of v] by simp_all
  ultimately have "unat n - 1 + ?k = unat v - 1 + 65535" "(unat v - 1) mod 65535 + 1 = unat v" by auto
  then have "unat ((next_id ^^ ?k) n) = unat v"
    using unat_nth_id [OF n, of ?k] mod_add_self2 [of "unat v - 1" 65535] by argo
  then have "(next_id ^^ ?k) n = v" by (rule unsigned_word_eqI)
  then show ?thesis by blast
qed

lemma next_free_id_finds:
  "\<not> used ((next_id ^^ k) n) \<Longrightarrow>
   \<exists>j. next_free_id used n = Some ((next_id ^^ j) n, (next_id ^^ Suc j) n) \<and> \<not> used ((next_id ^^ j) n)"
proof (induction k arbitrary: n)
  case 0
  then have "next_free_id used n = Some ((next_id ^^ 0) n, (next_id ^^ Suc 0) n)"
    by (subst next_free_id.simps) simp
  with 0 show ?case by (intro exI [of _ 0]) simp
next
  case (Suc k)
  show ?case
  proof (cases "used n")
    case True
    from Suc.prems have "\<not> used ((next_id ^^ k) (next_id n))" by (simp add: funpow_swap1)
    from Suc.IH [OF this] obtain j where
      "next_free_id used (next_id n) = Some ((next_id ^^ j) (next_id n), (next_id ^^ Suc j) (next_id n))"
      "\<not> used ((next_id ^^ j) (next_id n))" by blast
    with True show ?thesis
      by (intro exI [of _ "Suc j"]) (subst next_free_id.simps, simp add: funpow_swap1)
  next
    case False
    then show ?thesis by (intro exI [of _ 0]) (subst next_free_id.simps, simp)
  qed
qed

locale id_pool =
  fixes used :: "'s \<Rightarrow> u16 \<Rightarrow> bool" and start :: "'s \<Rightarrow> u16" and valid :: "'s \<Rightarrow> bool"
  assumes start_nonzero: "valid s \<Longrightarrow> start s \<noteq> 0"
    and few_used: "valid s \<Longrightarrow> card {i. used s i} < 65535"
begin

lemma next_free_total:
  assumes "valid s"
  obtains i n where "next_free_id (used s) (start s) = Some (i, n)" "\<not> used s i" "i \<noteq> 0" "n \<noteq> 0"
proof -
  have "{i. i \<noteq> (0::u16)} = UNIV - {0}" by auto
  then have "card {i. i \<noteq> (0::u16)} = 65535" by (simp add: card_word)
  then obtain v where v: "v \<noteq> 0" "\<not> used s v"
    using few_used [OF assms] card_mono [of "{i. used s i}" "{i. i \<noteq> 0}"] by fastforce
  then obtain k where "\<not> used s ((next_id ^^ k) (start s))"
    using every_id_is_reached [OF start_nonzero [OF assms]] by metis
  from next_free_id_finds [where used = "used s", OF this] obtain j where
    "next_free_id (used s) (start s) = Some ((next_id ^^ j) (start s), (next_id ^^ Suc j) (start s))"
    "\<not> used s ((next_id ^^ j) (start s))" by blast
  then show ?thesis using that unat_nth_id [OF start_nonzero [OF assms]] by blast
qed

end

lemma card_sess_ids: "card {i. sess_id_used t i} \<le> length (ss_sessions t)"
proof -
  have "{i. sess_id_used t i} = set (map se_local_sess_id (ss_sessions t))" by (auto simp: sess_id_used_def)
  then show ?thesis by (metis card_length length_map)
qed

lemma length_concat_bound: "(\<And>x. x \<in> set xs \<Longrightarrow> length (f x) \<le> b) \<Longrightarrow> length (concat (map f xs)) \<le> length xs * b"
  by (induction xs) (auto intro: add_mono)

lemma card_exch_ids:
  assumes "Sessions_inv t"
  shows "card {i. exch_id_used t i} \<le> length (ss_sessions t) * MAX_EXCHANGES"
proof -
  let ?f = "\<lambda>s. map (\<lambda>exch. case exch of Some e \<Rightarrow> ex_exch_id e | None \<Rightarrow> 0) (se_exchanges s)"
  let ?l = "concat (map ?f (ss_sessions t))"
  have "{i. exch_id_used t i} \<subseteq> set ?l" by (force simp: exch_id_used_def split: option.splits)
  then have "card {i. exch_id_used t i} \<le> length ?l" by (meson List.finite_set card_length card_mono le_trans)
  also have "\<dots> \<le> length (ss_sessions t) * MAX_EXCHANGES"
    by (rule length_concat_bound) (use assms in \<open>simp add: Sessions_inv_def Session_inv_def\<close>)
  finally show ?thesis .
qed

interpretation sess_ids: id_pool sess_id_used ss_next_sess_id Sessions_inv
proof unfold_locales
  fix t assume "Sessions_inv t"
  then show "ss_next_sess_id t \<noteq> 0" "card {i. sess_id_used t i} < 65535"
    using card_sess_ids [of t] by (simp_all add: Sessions_inv_def MAX_SESSIONS_def)
qed

interpretation exch_ids: id_pool exch_id_used ss_next_exch_id Sessions_inv
proof unfold_locales
  fix t assume inv: "Sessions_inv t"
  then show "ss_next_exch_id t \<noteq> 0" by (simp add: Sessions_inv_def)
  have "length (ss_sessions t) * MAX_EXCHANGES \<le> 16 * 5"
    using inv unfolding Sessions_inv_def MAX_SESSIONS_def MAX_EXCHANGES_def by (intro mult_mono) auto
  with card_exch_ids [OF inv] show "card {i. exch_id_used t i} < 65535" by simp
qed

subsection \<open>The table keeps its invariant\<close>

lemma Session_new_inv [wf_intros]: "i \<le> 0x0fffffff \<Longrightarrow> Session_inv (Session_new i c r a n now)"
  by (simp add: Session_inv_def Session_new_def)

lemma Session_simple_inv [wf_intros]:
  assumes "Session_inv s"
  shows "Session_inv (Session_update_last_used now s)" "Session_inv (expire s)"
    "Session_inv (Session_set_session_mode m s)" "Session_inv (Session_set_local_nodeid n s)"
    "Session_inv (snd (Session_upgrade_fabric_idx f s))"
  using assms
  by (simp_all add: Session_inv_def Session_update_last_used_def expire_def Session_set_session_mode_def
      Session_set_local_nodeid_def Session_upgrade_fabric_idx_def split: SessionMode.splits)

lemma Session_add_exch_inv [wf_intros]:
  assumes "Session_inv s"
  shows "Session_inv (snd (Session_add_exch i r s))"
  using assms by (rule Session_add_exch_cases [of s i r]) (use assms in \<open>auto simp: Session_inv_def\<close>)

lemma Session_remove_exch_inv [wf_intros]: "Session_inv s \<Longrightarrow> Session_inv (snd (Session_remove_exch i s))"
  by (auto simp: Session_remove_exch_def Session_inv_def split: option.splits res.splits)

lemma Session_pre_send_inv [wf_intros]:
  "Session_inv s \<Longrightarrow> Session_inv (fst (snd (Session_pre_send idx act idle (s, h))))"
proof (cases "session_sends idx s")
  case True
  assume inv: "Session_inv s"
  from True show ?thesis
  proof (rule Session_pre_send_ok [of idx s act idle h])
    fix ctr s' h' assume "Session_pre_send idx act idle (s, h) = (Ok (se_peer_addr s, ctr \<noteq> None), s', h')"
      "se_id s' = se_id s" "length (se_exchanges s') = length (se_exchanges s)"
    with inv show ?thesis by (simp add: Session_inv_def)
  qed
next
  case False
  then have "pending_ctr idx s = Panic"
    by (auto simp: session_sends_def pending_ctr_def split: option.splits)
  moreover assume "Session_inv s"
  ultimately show ?thesis by (simp add: Session_pre_send_def)
qed

lemmas Session_post_recv_inv [wf_intros] = Session_post_recv_safe [THEN conjunct2]

lemma Sessions_new_inv [wf_intros]: "Sessions_inv Sessions_new"
  by (simp add: Sessions_inv_def Sessions_new_def)

lemma Sessions_reset_inv [wf_intros]: "Sessions_inv t \<Longrightarrow> Sessions_inv (Sessions_reset t)"
  by (simp add: Sessions_inv_def Sessions_reset_def)

lemma Sessions_add_inv [wf_intros]:
  "Sessions_inv t \<Longrightarrow> Sessions_inv (snd (Sessions_add c r a n now t))"
  by (auto simp: Sessions_inv_def Sessions_add_def Let_def linorder_not_less intro: wf_intros)

lemma Sessions_list_inv:
  "Sessions_inv t \<Longrightarrow> length xs \<le> length (ss_sessions t) \<Longrightarrow> (\<And>s. s \<in> set xs \<Longrightarrow> Session_inv s) \<Longrightarrow>
   Sessions_inv (t\<lparr>ss_sessions := xs\<rparr>)"
  by (auto simp: Sessions_inv_def)

lemma set_swap_remove: "set (swap_remove i xs) \<subseteq> set xs"
proof (cases "xs = []")
  case False
  then have "set (xs[i := last xs]) \<subseteq> set xs" using set_update_subset_insert [of xs i "last xs"] by auto
  then show ?thesis unfolding swap_remove_def by (meson in_set_butlastD subset_iff)
qed (simp add: swap_remove_def)

lemma Sessions_remove_inv [wf_intros]: "Sessions_inv t \<Longrightarrow> Sessions_inv (snd (Sessions_remove i t))"
  using set_swap_remove
  by (auto simp: Sessions_remove_def Sessions_inv_def split: option.splits) fastforce+

lemma update_first_inv [wf_intros]:
  "Sessions_inv t \<Longrightarrow> (\<And>s. Session_inv s \<Longrightarrow> Session_inv (f s)) \<Longrightarrow> Sessions_inv (snd (update_first P f t))"
  by (auto simp: update_first_def Sessions_inv_def split: option.splits dest!: set_update_subset_insert [THEN subsetD] position_SomeD)

lemma update_nth_inv [wf_intros]:
  "Sessions_inv t \<Longrightarrow> Session_inv s \<Longrightarrow> Sessions_inv (t\<lparr>ss_sessions := (ss_sessions t)[i := s]\<rparr>)"
  by (rule Sessions_list_inv) (auto simp: Sessions_inv_def dest!: set_update_subset_insert [THEN subsetD])

lemma Sessions_get_inv [wf_intros]:
  assumes "Sessions_inv t"
  shows "Sessions_inv (snd (Sessions_get now i t))" "Sessions_inv (snd (Sessions_get_for_rx now a p t))"
    "Sessions_inv (snd (Sessions_get_for_tx now i t))"
  using assms unfolding Sessions_get_def Sessions_get_for_rx_def Sessions_get_for_tx_def
  by (auto intro!: wf_intros)

lemma remove_all_swap_inv [wf_intros]:
  "Sessions_inv t \<Longrightarrow> Sessions_inv (t\<lparr>ss_sessions := remove_all_swap P (ss_sessions t)\<rparr>)"
  by (rule Sessions_list_inv) (auto simp: Sessions_inv_def length_remove_all_swap set_remove_all_swap)

lemma Sessions_purge_inv [wf_intros]:
  assumes "Sessions_inv t"
  shows "Sessions_inv (Sessions_remove_for_fabric f e t)" "Sessions_inv (Sessions_remove_pase e t)"
  using assms unfolding Sessions_remove_for_fabric_def Sessions_remove_pase_def Let_def
  by (auto intro!: wf_intros split: option.splits)

lemma max_by_key_last_in: "max_by_key_last key xs = Some x \<Longrightarrow> x \<in> set xs"
  by (induction xs arbitrary: x) (auto split: option.splits if_splits)

lemma Sessions_get_for_node_cases:
  obtains "Sessions_get_for_node now f n sec t = (None, t)"
  | i where "i < length (ss_sessions t)" "\<not> se_expired (ss_sessions t ! i)"
      "Session_is_for_node f n sec (ss_sessions t ! i)"
      "Sessions_get_for_node now f n sec t =
        (Some i, t\<lparr>ss_sessions := (ss_sessions t)[i := Session_update_last_used now (ss_sessions t ! i)]\<rparr>)"
proof (cases "max_by_key_last (\<lambda>(i, s). if Address_is_tcp (se_peer_addr s) then 1 else 0)
        (filter (\<lambda>(i, s). \<not> se_expired s \<and> Session_is_for_node f n sec s) (enumerate 0 (ss_sessions t)))")
  case None
  then show ?thesis using that(1) by (simp add: Sessions_get_for_node_def)
next
  case (Some x)
  obtain i s where x: "x = (i, s)" by fastforce
  from max_by_key_last_in [OF Some] x have "(i, s) \<in> set (enumerate 0 (ss_sessions t))"
      "\<not> se_expired s" "Session_is_for_node f n sec s" by auto
  then have "i < length (ss_sessions t)" "s = ss_sessions t ! i" by (auto simp: in_set_enumerate_eq)
  then show ?thesis
    using that(2) [of i] Some \<open>\<not> se_expired s\<close> \<open>Session_is_for_node f n sec s\<close>
    by (simp add: Sessions_get_for_node_def x)
qed

lemma Sessions_get_for_node_inv [wf_intros]:
  assumes inv: "Sessions_inv t"
  shows "Sessions_inv (snd (Sessions_get_for_node now f n sec t))"
proof (rule Sessions_get_for_node_cases [of now f n sec t])
  fix i assume i: "i < length (ss_sessions t)" and "Sessions_get_for_node now f n sec t =
        (Some i, t\<lparr>ss_sessions := (ss_sessions t)[i := Session_update_last_used now (ss_sessions t ! i)]\<rparr>)"
  moreover from inv i have "Session_inv (ss_sessions t ! i)" by (simp add: Sessions_inv_def)
  ultimately show ?thesis using inv by (simp add: wf_intros)
qed (use inv in simp)

lemma next_sess_id_total:
  assumes "Sessions_inv t"
  shows "\<exists>i n. Sessions_get_next_sess_id t = Some (i, t\<lparr>ss_next_sess_id := n\<rparr>) \<and> \<not> sess_id_used t i \<and> i \<noteq> 0 \<and> n \<noteq> 0"
  by (rule sess_ids.next_free_total [OF assms]) (fastforce simp: Sessions_get_next_sess_id_def)

lemma next_exch_id_total:
  assumes "Sessions_inv t"
  shows "\<exists>i n. Sessions_get_next_exch_id t = Some (i, t\<lparr>ss_next_exch_id := n\<rparr>) \<and> \<not> exch_id_used t i \<and> i \<noteq> 0 \<and> n \<noteq> 0"
  by (rule exch_ids.next_free_total [OF assms]) (fastforce simp: Sessions_get_next_exch_id_def)

lemma next_ids_inv [wf_intros]:
  assumes "Sessions_inv t"
  shows "Sessions_get_next_sess_id t = Some (i, t') \<Longrightarrow> Sessions_inv t'"
    and "Sessions_get_next_exch_id t = Some (j, t'') \<Longrightarrow> Sessions_inv t''"
  using next_sess_id_total [OF assms] next_exch_id_total [OF assms] assms
  by (auto simp: Sessions_inv_def)

subsection \<open>Reserved slots\<close>

lemma ReservedSession_inv [wf_intros]:
  assumes inv: "Sessions_inv t"
  shows "Sessions_inv (snd (ReservedSession_reserve_now rand now t))"
    and "Sessions_inv (snd (ReservedSession_update_with_state rs ln pn ps ls pa mode dk ek ac now t))"
    and "Sessions_inv (snd (ReservedSession_drop rs now t))"
proof -
  have add: "Sessions_add c r a n now t = (x, t1) \<Longrightarrow> Sessions_inv t1" for c r a n x t1
    using Sessions_add_inv [OF inv] by (metis snd_conv)
  show "Sessions_inv (snd (ReservedSession_reserve_now rand now t))"
    using inv
    by (cases rand)
       (auto simp: ReservedSession_reserve_now_def sr_bind_def sr_simps split: res.splits prod.splits dest: add)
  have get: "Sessions_get now i t = (Some j, t1) \<Longrightarrow> Sessions_inv t1 \<and> Session_inv (ss_sessions t1 ! j)" for i j t1
  proof -
    assume g: "Sessions_get now i t = (Some j, t1)"
    have "Sessions_inv t1" using Sessions_get_inv(1) [OF inv, of now i] g by simp
    moreover have "j < length (ss_sessions t1)"
      using g by (auto simp: Sessions_get_def update_first_def dest: position_SomeD split: option.splits)
    ultimately show ?thesis by (simp add: Sessions_inv_def)
  qed
  have none: "Sessions_get now i t = (None, t1) \<Longrightarrow> Sessions_inv t1" for i t1
    using Sessions_get_inv(1) [OF inv, of now i] by simp
  have upd: "Session_inv s \<Longrightarrow> se_id s' = se_id s \<Longrightarrow> se_exchanges s' = se_exchanges s \<Longrightarrow> Session_inv s'" for s s'
    by (simp add: Session_inv_def)
  show "Sessions_inv (snd (ReservedSession_update_with_state rs ln pn ps ls pa mode dk ek ac now t))"
    unfolding ReservedSession_update_with_state_def
    by (auto split: prod.splits option.splits intro!: update_nth_inv dest: get none intro: upd)
  show "Sessions_inv (snd (ReservedSession_drop rs now t))"
    unfolding ReservedSession_drop_def using Sessions_remove_inv [OF inv]
    by (auto split: prod.splits option.splits intro!: update_nth_inv dest: get none intro: upd)
qed

subsection \<open>Reachable tables\<close>

text \<open>
  The operations the transport runs on one session of the table, and on the table itself, in any order
  and with any arguments; \<open>sessions_reachable\<close> are the tables that arise.
\<close>

inductive session_op :: "Session \<Rightarrow> Session \<Rightarrow> bool" where
  op_recv: "session_op s (snd (Session_post_recv h now s))"
| op_send: "session_op s (fst (snd (Session_pre_send idx act idle (s, h))))"
| op_add_exch: "session_op s (snd (Session_add_exch exch_id role s))"
| op_remove_exch: "session_op s (snd (Session_remove_exch i s))"
| op_upgrade: "session_op s (snd (Session_upgrade_fabric_idx f s))"
| op_nodeid: "session_op s (Session_set_local_nodeid n s)"
| op_mode: "session_op s (Session_set_session_mode m s)"

inductive sessions_step :: "Sessions \<Rightarrow> Sessions \<Rightarrow> bool" where
  step_session: "i < length (ss_sessions t) \<Longrightarrow> session_op (ss_sessions t ! i) s \<Longrightarrow>
     sessions_step t (t\<lparr>ss_sessions := (ss_sessions t)[i := s]\<rparr>)"
| step_add: "sessions_step t (snd (Sessions_add c r a n now t))"
| step_remove: "sessions_step t (snd (Sessions_remove i t))"
| step_remove_for_fabric: "sessions_step t (Sessions_remove_for_fabric f e t)"
| step_remove_pase: "sessions_step t (Sessions_remove_pase e t)"
| step_reset: "sessions_step t (Sessions_reset t)"
| step_get: "sessions_step t (snd (Sessions_get now i t))"
| step_get_for_node: "sessions_step t (snd (Sessions_get_for_node now f pn sec t))"
| step_get_for_rx: "sessions_step t (snd (Sessions_get_for_rx now a p t))"
| step_get_for_tx: "sessions_step t (snd (Sessions_get_for_tx now i t))"
| step_next_sess_id: "Sessions_get_next_sess_id t = Some (i, t') \<Longrightarrow> sessions_step t t'"
| step_next_exch_id: "Sessions_get_next_exch_id t = Some (i, t') \<Longrightarrow> sessions_step t t'"
| step_reserve: "sessions_step t (snd (ReservedSession_reserve_now rand now t))"
| step_update: "sessions_step t
     (snd (ReservedSession_update_with_state rs ln pn ps ls pa mode dk ek ac now t))"
| step_drop: "sessions_step t (snd (ReservedSession_drop rs now t))"

abbreviation sessions_reachable :: "Sessions \<Rightarrow> bool" where
  "sessions_reachable \<equiv> sessions_step\<^sup>*\<^sup>* Sessions_new"

lemma session_op_inv: "session_op s s' \<Longrightarrow> Session_inv s \<Longrightarrow> Session_inv s'"
  by (induction rule: session_op.induct) (auto intro: wf_intros)

lemma sessions_step_inv: "sessions_step t t' \<Longrightarrow> Sessions_inv t \<Longrightarrow> Sessions_inv t'"
proof (induction rule: sessions_step.induct)
  case (step_session i t s)
  then have "Session_inv (ss_sessions t ! i)" by (simp add: Sessions_inv_def)
  with step_session show ?case by (blast intro: wf_intros session_op_inv)
qed (auto intro: wf_intros)

lemma sessions_reachable_inv: "sessions_reachable t \<Longrightarrow> Sessions_inv t"
  by (induction rule: rtranclp_induct) (auto intro: wf_intros sessions_step_inv)

end
