(* ===== verification/Session_Safety.thy ===== *)
theory Session_Safety
  imports Session
begin

section \<open>What the session table guarantees\<close>

text \<open>
  Properties of the sessions of \<open>Session\<close>: every reachable table is within its bounds and no
  message makes it panic, removing a fabric or the commissioning sessions cuts their sessions off,
  eviction takes the right session, ids are fresh.
\<close>

subsection \<open>Removing sessions\<close>

lemma distinct_map_swap_remove:
  assumes "distinct (map f xs)" and "i < length xs"
  shows "distinct (map f (swap_remove i xs))"
proof -
  obtain ys z where xs: "xs = ys @ [z]" using assms(2) by (cases xs rule: rev_cases) auto
  have d: "distinct (map f ys)" "f z \<notin> set (map f ys)" using assms(1) by (auto simp: xs)
  show ?thesis
  proof (cases "i = length ys")
    case True
    with d show ?thesis by (simp add: swap_remove_def xs)
  next
    case False
    then have "swap_remove i xs = ys[i := z]"
      using assms(2) by (simp add: swap_remove_def xs list_update_append)
    then show ?thesis using distinct_list_update [OF d(1), of "f z" i] d(2) by (auto simp: map_update)
  qed
qed

lemma distinct_map_remove_all_swap:
  "distinct (map f xs) \<Longrightarrow> distinct (map f (remove_all_swap P xs))"
proof (induction P xs rule: remove_all_swap.induct)
  case (1 P xs)
  then show ?case
    by (subst remove_all_swap.simps)
       (auto split: option.splits dest: position_SomeD intro: distinct_map_swap_remove)
qed

lemma update_first_sessions:
  "ss_sessions (snd (update_first P g t)) =
    (case position P (ss_sessions t) of Some i \<Rightarrow> (ss_sessions t)[i := g (ss_sessions t ! i)] | None \<Rightarrow> ss_sessions t)"
  by (simp add: update_first_def split: option.splits)

text \<open>
  Both purges remove the doomed sessions except one and mark that one: afterwards every doomed session
  left is expired, when the ids are distinct.
\<close>

definition mark_expired :: "(Session \<Rightarrow> bool) \<Rightarrow> u32 option \<Rightarrow> Session list \<Rightarrow> Session list" where
  "mark_expired marked e ys =
     (case e of None \<Rightarrow> ys
      | Some i \<Rightarrow> (case position (\<lambda>s. se_id s = i \<and> marked s) ys of
          Some j \<Rightarrow> ys[j := expire (ys ! j)] | None \<Rightarrow> ys))"

definition purged :: "(Session \<Rightarrow> bool) \<Rightarrow> (Session \<Rightarrow> bool) \<Rightarrow> u32 option \<Rightarrow> Session list \<Rightarrow> Session list" where
  "purged doomed marked e xs = mark_expired marked e (remove_all_swap (\<lambda>s. doomed s \<and> Some (se_id s) \<noteq> e) xs)"

lemma remove_for_fabric_purged:
  "ss_sessions (Sessions_remove_for_fabric f e t) =
   purged (\<lambda>s. Session_get_local_fabric_idx s = f) (\<lambda>_. True) e (ss_sessions t)"
  by (auto simp: Sessions_remove_for_fabric_def purged_def mark_expired_def update_first_sessions Let_def split: option.splits)

lemma remove_pase_purged:
  "ss_sessions (Sessions_remove_pase e t) = purged is_pase is_pase e (ss_sessions t)"
  by (auto simp: Sessions_remove_pase_def purged_def mark_expired_def update_first_sessions Let_def split: option.splits)

lemma purged_expired:
  assumes d: "distinct (map se_id xs)" and m: "\<And>s. doomed s \<Longrightarrow> marked s"
    and s: "s \<in> set (purged doomed marked e xs)" "doomed s"
  shows "se_expired s"
proof -
  define ys where "ys = remove_all_swap (\<lambda>s. doomed s \<and> Some (se_id s) \<noteq> e) xs"
  have dy: "distinct (map se_id ys)" unfolding ys_def by (rule distinct_map_remove_all_swap [OF d])
  have left: "x \<in> set ys \<Longrightarrow> doomed x \<Longrightarrow> Some (se_id x) = e" for x
    by (simp add: ys_def set_remove_all_swap)
  have pd: "purged doomed marked e xs = mark_expired marked e ys" by (simp add: purged_def ys_def)
  show ?thesis
  proof (cases "s \<in> set ys")
    case True
    then obtain i where e: "e = Some i" "se_id s = i" using left s(2) by auto
    have "\<exists>x \<in> set ys. se_id x = i \<and> marked x" using True e m [OF s(2)] by auto
    then obtain j where j: "position (\<lambda>s. se_id s = i \<and> marked s) ys = Some j"
      by (rule position_Some_ex [THEN iffD1, THEN exE])
    then have jl: "j < length ys" "se_id (ys ! j) = i" using position_SomeD [OF j] by simp_all
    have s': "s \<in> set (ys[j := expire (ys ! j)])"
      using s(1) pd by (simp add: mark_expired_def e(1) j)
    show ?thesis
    proof (rule ccontr)
      assume ne: "\<not> se_expired s"
      then have "s \<noteq> expire (ys ! j)" by (auto simp: expire_def)
      moreover from s' obtain k where "k < length ys" "s = (ys[j := expire (ys ! j)]) ! k"
        by (auto simp: in_set_conv_nth)
      ultimately have k: "k < length ys" "k \<noteq> j" "s = ys ! k"
        using jl(1) by (cases "k = j"; simp)+
      then have "map se_id ys ! k = map se_id ys ! j" using jl e by simp
      then have "k = j" using nth_eq_iff_index_eq [OF dy] k(1) jl(1) by (simp only: length_map)
      with k(2) show False by simp
    qed
  next
    case False
    then obtain i j where "e = Some i" "position (\<lambda>s. se_id s = i \<and> marked s) ys = Some j"
      "s = expire (ys ! j)"
      using s(1) by (auto simp: pd mark_expired_def split: option.splits
          dest!: set_update_subset_insert [THEN subsetD])
    then show ?thesis by (simp add: expire_def)
  qed
qed

lemma purged_others:
  assumes "\<And>s. doomed (expire s) = doomed s"
  shows "filter_mset (\<lambda>s. \<not> doomed s \<and> Some (se_id s) \<noteq> e) (mset (purged doomed marked e xs)) =
    filter_mset (\<lambda>s. \<not> doomed s \<and> Some (se_id s) \<noteq> e) (mset xs)"
proof -
  let ?keep = "\<lambda>s. \<not> doomed s \<and> Some (se_id s) \<noteq> e"
  define ys where "ys = remove_all_swap (\<lambda>s. doomed s \<and> Some (se_id s) \<noteq> e) xs"
  have ys: "filter_mset ?keep (mset ys) = filter_mset ?keep (mset xs)"
    unfolding ys_def mset_remove_all_swap filter_filter_mset by (rule filter_mset_cong) auto
  have pd: "purged doomed marked e xs = mark_expired marked e ys" by (simp add: purged_def ys_def)
  show ?thesis
  proof (cases "\<exists>i j. e = Some i \<and> position (\<lambda>s. se_id s = i \<and> marked s) ys = Some j")
    case True
    then obtain i j where e: "e = Some i" and j: "position (\<lambda>s. se_id s = i \<and> marked s) ys = Some j" by blast
    then have jl: "j < length ys" "se_id (ys ! j) = i" using position_SomeD [OF j] by simp_all
    have "mset (ys[j := expire (ys ! j)]) = mset ys - {#ys ! j#} + {#expire (ys ! j)#}"
      using jl by (simp add: mset_update)
    then have "filter_mset ?keep (mset (ys[j := expire (ys ! j)])) = filter_mset ?keep (mset ys)"
      using jl e by (simp add: filter_diff_mset expire_def)
    moreover have "purged doomed marked e xs = ys[j := expire (ys ! j)]"
      unfolding pd by (simp add: mark_expired_def e j)
    ultimately show ?thesis using ys by simp
  next
    case False
    then have "purged doomed marked e xs = ys"
      by (auto simp: pd mark_expired_def split: option.splits)
    then show ?thesis using ys by simp
  qed
qed

lemma get_for_rx_not_expired:
  assumes "Sessions_get_for_rx now a p t = (Some i, t')"
  shows "i < length (ss_sessions t) \<and> \<not> se_expired (ss_sessions t ! i) \<and>
    Session_is_for_rx a p (ss_sessions t ! i)"
  using assms
  by (auto simp: Sessions_get_for_rx_def update_first_def dest: position_SomeD split: option.splits)

subsection \<open>Eviction\<close>

lemma eviction_scan_expired:
  "position (\<lambda>s. se_expired s \<and> evictable s) ss = Some j \<Longrightarrow> eviction_scan k ss best ts = Some (k + j)"
proof (induction ss arbitrary: k best ts j)
  case (Cons s ss)
  show ?case
  proof (cases "se_expired s \<and> evictable s")
    case True
    with Cons.prems show ?thesis by simp
  next
    case False
    then obtain j' where j': "position (\<lambda>s. se_expired s \<and> evictable s) ss = Some j'" "j = Suc j'"
      using Cons.prems by auto
    show ?thesis using False j' Cons.IH [OF j'(1)] by auto
  qed
qed simp

lemma eviction_scan_lru:
  assumes "\<forall>s \<in> set ss. \<not> (se_expired s \<and> evictable s)"
  shows "(eviction_scan k ss best ts = best \<and> (\<forall>s \<in> set ss. evictable s \<longrightarrow> ts \<le> se_last_use s)) \<or>
    (\<exists>j < length ss. eviction_scan k ss best ts = Some (k + j) \<and> evictable (ss ! j) \<and> se_last_use (ss ! j) < ts \<and>
       (\<forall>s \<in> set ss. evictable s \<longrightarrow> se_last_use (ss ! j) \<le> se_last_use s))"
  using assms
proof (induction ss arbitrary: k best ts)
  case (Cons s ss)
  show ?case
  proof (cases "se_last_use s < ts \<and> evictable s")
    case True
    then have step: "eviction_scan k (s # ss) best ts = eviction_scan (Suc k) ss (Some k) (se_last_use s)"
      using Cons.prems by simp
    from Cons.IH [of "Suc k" "Some k" "se_last_use s"] Cons.prems consider
        (here) "eviction_scan (Suc k) ss (Some k) (se_last_use s) = Some k"
          "\<forall>x \<in> set ss. evictable x \<longrightarrow> se_last_use s \<le> se_last_use x"
      | (later) j where "j < length ss" "eviction_scan (Suc k) ss (Some k) (se_last_use s) = Some (Suc k + j)"
          "evictable (ss ! j)" "se_last_use (ss ! j) < se_last_use s"
          "\<forall>x \<in> set ss. evictable x \<longrightarrow> se_last_use (ss ! j) \<le> se_last_use x" by auto
    then show ?thesis
    proof cases
      case here
      with True step show ?thesis by (intro disjI2 exI [of _ 0]) auto
    next
      case later
      with True step show ?thesis by (intro disjI2 exI [of _ "Suc j"]) auto
    qed
  next
    case False
    then have step: "eviction_scan k (s # ss) best ts = eviction_scan (Suc k) ss best ts"
      using Cons.prems by auto
    from Cons.IH [of "Suc k" best ts] Cons.prems consider
        (none) "eviction_scan (Suc k) ss best ts = best" "\<forall>x \<in> set ss. evictable x \<longrightarrow> ts \<le> se_last_use x"
      | (some) j where "j < length ss" "eviction_scan (Suc k) ss best ts = Some (Suc k + j)" "evictable (ss ! j)"
          "se_last_use (ss ! j) < ts" "\<forall>x \<in> set ss. evictable x \<longrightarrow> se_last_use (ss ! j) \<le> se_last_use x" by auto
    then show ?thesis
    proof cases
      case none
      with False step show ?thesis by auto
    next
      case some
      with False step show ?thesis by (intro disjI2 exI [of _ "Suc j"]) auto
    qed
  qed
qed simp

subsection \<open>Properties\<close>


definition one_session :: Sessions where
  "one_session = snd (Sessions_add 5 False Address_new None 0 Sessions_new)"

lemma one_session_reachable: "sessions_reachable one_session"
  unfolding one_session_def by (intro r_into_rtranclp step_add)




text \<open>A message sent on a session that waits for an acknowledgement goes out again under its own
  counter and leaves the session counter alone; any other message takes the next counter value.\<close>

theorem session_tx_counter:
  assumes "session_sends idx s"
  shows "\<exists>ctr s' h'. pending_ctr idx s = Ok ctr \<and>
    Session_pre_send idx act idle (s, h) = (Ok (se_peer_addr s, ctr \<noteq> None), (s', h')) \<and>
    (ctr = None \<longrightarrow> ph_ctr (pk_plain h') = se_msg_ctr s \<and> se_msg_ctr s' = se_msg_ctr s + 1) \<and>
    (\<forall>c. ctr = Some c \<longrightarrow> ph_ctr (pk_plain h') = c \<and> se_msg_ctr s' = se_msg_ctr s) \<and>
    ph_sess_id (pk_plain h') = se_peer_sess_id s"
proof (rule Session_pre_send_ok [OF assms, of act idle h])
  fix ctr s' h'
  assume "pending_ctr idx s = Ok ctr"
    "Session_pre_send idx act idle (s, h) = (Ok (se_peer_addr s, ctr \<noteq> None), (s', h'))"
    "ph_ctr (pk_plain h') = (case ctr of Some c \<Rightarrow> c | None \<Rightarrow> se_msg_ctr s)"
    "se_msg_ctr s' = (case ctr of Some c \<Rightarrow> se_msg_ctr s | None \<Rightarrow> se_msg_ctr s + 1)"
    "ph_sess_id (pk_plain h') = se_peer_sess_id s"
  then show ?thesis by (intro exI [of _ ctr] exI [of _ s'] exI [of _ h']) auto
qed

theorem session_tx_counter_witness:
  "\<exists>s' h'. Session_pre_send None None None (ss_sessions one_session ! 0, PacketHdr_new) =
     (Ok (Address_new, False), (s', h')) \<and> ph_ctr (pk_plain h') = 5 \<and> se_msg_ctr s' = 6"
proof -
  have s: "ss_sessions one_session ! 0 = Session_new 0 5 False Address_new None 0"
    by (simp add: one_session_def Sessions_add_def Sessions_new_def MAX_SESSIONS_def)
  have v: "pending_ctr None (ss_sessions one_session ! 0) = Ok None"
      "se_msg_ctr (ss_sessions one_session ! 0) = 5" "se_peer_addr (ss_sessions one_session ! 0) = Address_new"
    by (simp_all add: s pending_ctr_def Session_new_def MATTER_MSG_CTR_RANGE_def)
  show ?thesis
    using session_tx_counter [of None "ss_sessions one_session ! 0" None None PacketHdr_new]
    by (auto simp: v session_sends_def)
qed



text \<open>After the commissioning sessions are removed no inbound message is given to a PASE session, and
  all other sessions are still there.\<close>

theorem pase_removal_cuts_off:
  assumes "distinct (map se_id (ss_sessions t))" and "t' = Sessions_remove_pase e t"
  shows "(Sessions_get_for_rx now a p t' = (Some i, t'') \<longrightarrow> \<not> is_pase (ss_sessions t' ! i)) \<and>
    filter_mset (\<lambda>s. \<not> is_pase s \<and> Some (se_id s) \<noteq> e) (mset (ss_sessions t')) =
    filter_mset (\<lambda>s. \<not> is_pase s \<and> Some (se_id s) \<noteq> e) (mset (ss_sessions t))"
proof -
  have t': "ss_sessions t' = purged is_pase is_pase e (ss_sessions t)"
    using assms(2) by (simp add: remove_pase_purged)
  have dead: "s \<in> set (ss_sessions t') \<Longrightarrow> is_pase s \<Longrightarrow> se_expired s" for s
    using purged_expired [OF assms(1), of is_pase is_pase s e] by (simp add: t')
  have "Sessions_get_for_rx now a p t' = (Some i, t'') \<Longrightarrow> \<not> is_pase (ss_sessions t' ! i)"
    using get_for_rx_not_expired [of now a p t' i t''] dead by auto
  moreover have "is_pase (expire s) = is_pase s" for s by (simp add: is_pase_def expire_def)
  ultimately show ?thesis using purged_others [of is_pase e is_pase "ss_sessions t"] by (auto simp: t')
qed

theorem pase_removal_cuts_off_witness:
  "distinct (map se_id (ss_sessions one_session)) \<and>
   filter_mset (\<lambda>s. \<not> is_pase s \<and> Some (se_id s) \<noteq> None) (mset (ss_sessions (Sessions_remove_pase None one_session))) =
   filter_mset (\<lambda>s. \<not> is_pase s \<and> Some (se_id s) \<noteq> None) (mset (ss_sessions one_session))"
proof -
  have "distinct (map se_id (ss_sessions one_session))"
    by (simp add: one_session_def Sessions_add_def Sessions_new_def MAX_SESSIONS_def)
  then show ?thesis
    using pase_removal_cuts_off [of one_session "Sessions_remove_pase None one_session" None] by blast
qed

text \<open>The session evicted to make room never is a reserved one or one with an open exchange; an
  expired session goes before any other, otherwise the least recently used one goes.\<close>

theorem eviction_choice:
  assumes "Sessions_get_session_for_eviction now t = Some i"
  shows "i < length (ss_sessions t) \<and> evictable (ss_sessions t ! i) \<and>
    (se_expired (ss_sessions t ! i) \<or>
     (\<forall>s \<in> set (ss_sessions t). evictable s \<longrightarrow> \<not> se_expired s \<and> se_last_use (ss_sessions t ! i) \<le> se_last_use s))"
proof (cases "position (\<lambda>s. se_expired s \<and> evictable s) (ss_sessions t)")
  case (Some j)
  from eviction_scan_expired [OF this, of 0 None now] assms have "i = j"
    by (simp add: Sessions_get_session_for_eviction_def)
  with position_SomeD [OF Some] show ?thesis by simp
next
  case None
  then have none: "\<forall>s \<in> set (ss_sessions t). \<not> (se_expired s \<and> evictable s)" by (simp add: position_None)
  from eviction_scan_lru [OF this, of 0 None now] assms show ?thesis
    using none by (auto simp: Sessions_get_session_for_eviction_def)
qed

theorem eviction_choice_witness:
  "Sessions_get_session_for_eviction 9 one_session = Some 0 \<and> evictable (ss_sessions one_session ! 0)"
proof -
  have "Sessions_get_session_for_eviction 9 one_session = Some 0"
    by (simp add: Sessions_get_session_for_eviction_def one_session_def Sessions_add_def Sessions_new_def
        MAX_SESSIONS_def Session_new_def evictable_def)
  then show ?thesis using eviction_choice [of 9 one_session 0] by blast
qed

end
