(* ===== verification/Acl.thy ===== *)
theory Acl
  imports Session
begin

section \<open>Access control lists\<close>

text \<open>
  \<^verbatim>\<open>dm/types/privilege.rs\<close> and \<^verbatim>\<open>acl.rs\<close>: privileges, what an attribute or command demands, the
  subjects of an accessor, ACL entries and the test whether an entry grants a request. The generated
  accessors of an incoming entry (\<^verbatim>\<open>AccessControlEntryStruct\<close>) are the fields of a record whose
  values may be decoding errors. The sizes are those of the default features.
\<close>

subsection \<open>Privileges and demands\<close>

type_synonym Privilege = u8
type_synonym Access = u16

datatype AccessControlEntryPrivilegeEnum = View | ProxyView | Operate | Manage | Administer

definition Privilege_V :: Privilege where "Privilege_V = 0x01"

definition Privilege_O :: Privilege where "Privilege_O = 0x02"

definition Privilege_M :: Privilege where "Privilege_M = 0x04"

definition Privilege_A :: Privilege where "Privilege_A = 0x08"

definition Privilege_P :: Privilege where "Privilege_P = 0x10"

definition Privilege_VIEW :: Privilege where "Privilege_VIEW = Privilege_V"

definition Privilege_OPERATE :: Privilege where "Privilege_OPERATE = Privilege_V OR Privilege_O"

definition Privilege_MANAGE :: Privilege where "Privilege_MANAGE = Privilege_V OR Privilege_O OR Privilege_M"

definition Privilege_ADMIN :: Privilege where
  "Privilege_ADMIN = Privilege_V OR Privilege_O OR Privilege_M OR Privilege_A"

definition Privilege_PROXYVIEW :: Privilege where "Privilege_PROXYVIEW = Privilege_P"

definition Privilege_to_enum :: "Privilege \<Rightarrow> AccessControlEntryPrivilegeEnum res" where
  "Privilege_to_enum p =
     (if flags_contains p Privilege_A then Ok Administer
      else if flags_contains p Privilege_M then Ok Manage
      else if flags_contains p Privilege_O then Ok Operate
      else if flags_contains p Privilege_V then Ok View
      else if flags_contains p Privilege_P then Ok ProxyView
      else Panic)"

fun Privilege_from_enum :: "AccessControlEntryPrivilegeEnum \<Rightarrow> Privilege" where
  "Privilege_from_enum View = Privilege_VIEW"
| "Privilege_from_enum Manage = Privilege_MANAGE"
| "Privilege_from_enum Operate = Privilege_OPERATE"
| "Privilege_from_enum Administer = Privilege_ADMIN"
| "Privilege_from_enum ProxyView = Privilege_PROXYVIEW"

definition NEED_VIEW :: Access where "NEED_VIEW = 0x0001"

definition NEED_OPERATE :: Access where "NEED_OPERATE = 0x0002"

definition NEED_MANAGE :: Access where "NEED_MANAGE = 0x0004"

definition NEED_ADMIN :: Access where "NEED_ADMIN = 0x0008"

definition READ :: Access where "READ = 0x0010"

definition WRITE :: Access where "WRITE = 0x0020"

definition FAB_SCOPED :: Access where "FAB_SCOPED = 0x0040"

definition FAB_SENSITIVE :: Access where "FAB_SENSITIVE = 0x0080"

definition TIMED_ONLY :: Access where "TIMED_ONLY = 0x0100"

definition READ_PRIVILEGE_MASK :: Access where
  "READ_PRIVILEGE_MASK = NEED_VIEW OR NEED_MANAGE OR NEED_OPERATE OR NEED_ADMIN"

definition WRITE_PRIVILEGE_MASK :: Access where
  "WRITE_PRIVILEGE_MASK = NEED_MANAGE OR NEED_OPERATE OR NEED_ADMIN"

definition Access_RV :: Access where "Access_RV = READ OR NEED_VIEW"

definition Access_RWVA :: Access where "Access_RWVA = READ OR WRITE OR NEED_VIEW OR NEED_ADMIN"

definition Access_WO :: Access where "Access_WO = WRITE OR NEED_OPERATE OR NEED_MANAGE OR NEED_ADMIN"

definition access_contains :: "Access \<Rightarrow> Access \<Rightarrow> bool" where
  "access_contains a b \<longleftrightarrow> a AND b = b"

definition Access_is_ok :: "Access \<Rightarrow> Access \<Rightarrow> Privilege \<Rightarrow> bool" where
  "Access_is_ok self operation privilege =
     (let required =
        (if access_contains operation READ then Some (self AND READ_PRIVILEGE_MASK)
         else if access_contains operation WRITE then Some (self AND WRITE_PRIVILEGE_MASK)
         else None)
      in case required of
           None \<Rightarrow> False
         | Some required \<Rightarrow>
             if required = 0 then False
             else if ucast privilege AND required = 0 then False
             else access_contains self operation)"

subsection \<open>Subjects\<close>

datatype AccessControlEntryAuthModeEnum = PASE | CASE | GroupEnum

datatype AuthMode = AuthPase | AuthCase | AuthGroup

fun AuthMode_to_enum :: "AuthMode \<Rightarrow> AccessControlEntryAuthModeEnum" where
  "AuthMode_to_enum AuthPase = PASE"
| "AuthMode_to_enum AuthCase = CASE"
| "AuthMode_to_enum AuthGroup = GroupEnum"

fun AuthMode_from_enum :: "AccessControlEntryAuthModeEnum \<Rightarrow> AuthMode" where
  "AuthMode_from_enum PASE = AuthPase"
| "AuthMode_from_enum CASE = AuthCase"
| "AuthMode_from_enum GroupEnum = AuthGroup"

definition MAX_SUBJECTS_PER_ACL_ENTRY :: nat where "MAX_SUBJECTS_PER_ACL_ENTRY = 4"

definition MAX_TARGETS_PER_ACL_ENTRY :: nat where "MAX_TARGETS_PER_ACL_ENTRY = 3"

definition MAX_ACL_ENTRIES_PER_FABRIC :: nat where "MAX_ACL_ENTRIES_PER_FABRIC = 4"

definition MAX_ACCESSOR_SUBJECTS :: nat where "MAX_ACCESSOR_SUBJECTS = 1 + MAX_CAT_IDS_PER_NOC"

definition NOC_CAT_SUBJECT_PREFIX :: u64 where "NOC_CAT_SUBJECT_PREFIX = 0xFFFFFFFD00000000"

definition NOC_CAT_SUBJECT_MASK :: u64 where "NOC_CAT_SUBJECT_MASK = 0xFFFFFFFF00000000"

definition NOC_CAT_ID_MASK :: u64 where "NOC_CAT_ID_MASK = 0xFFFF0000"

definition NOC_CAT_VERSION_MASK :: u64 where "NOC_CAT_VERSION_MASK = 0xFFFF"

definition is_noc_cat :: "u64 \<Rightarrow> bool" where
  "is_noc_cat i \<longleftrightarrow> i AND NOC_CAT_SUBJECT_MASK = NOC_CAT_SUBJECT_PREFIX \<and>
     i AND (NOC_CAT_ID_MASK OR NOC_CAT_VERSION_MASK) > 0"

definition get_noc_cat_id :: "u64 \<Rightarrow> u64" where
  "get_noc_cat_id i = drop_bit 16 (i AND NOC_CAT_ID_MASK)"

definition get_noc_cat_version :: "u64 \<Rightarrow> u64" where
  "get_noc_cat_version i = i AND NOC_CAT_VERSION_MASK"

definition gen_noc_cat :: "u16 \<Rightarrow> u16 \<Rightarrow> u32" where
  "gen_noc_cat i version = push_bit 16 (ucast i) OR ucast version"

definition is_node :: "u64 \<Rightarrow> bool" where
  "is_node i \<longleftrightarrow> 1 \<le> i \<and> i \<le> 0xFFFFFFEFFFFFFFFF"

type_synonym AccessorSubjects = "u64 list"

definition AccessorSubjects_new :: "u64 \<Rightarrow> AccessorSubjects" where
  "AccessorSubjects_new i = i # replicate (MAX_ACCESSOR_SUBJECTS - 1) 0"

definition AccessorSubjects_add_catid :: "u32 \<Rightarrow> (AccessorSubjects, unit) sr" where
  "AccessorSubjects_add_catid subject = (\<lambda>a.
     case position (\<lambda>val. val = 0) a of
       Some i \<Rightarrow> (Ok (), a[i := NOC_CAT_SUBJECT_PREFIX OR ucast subject])
     | None \<Rightarrow> (Err ResourceExhausted, a))"

definition AccessorSubjects_matches :: "AccessorSubjects \<Rightarrow> u64 \<Rightarrow> bool" where
  "AccessorSubjects_matches a acl_subject \<longleftrightarrow>
     (\<exists>v \<in> set a. v \<noteq> 0 \<and>
        (v = acl_subject \<or>
         is_noc_cat v \<and> is_noc_cat acl_subject \<and> get_noc_cat_id v = get_noc_cat_id acl_subject \<and>
         get_noc_cat_version v \<ge> get_noc_cat_version acl_subject))"

record Accessor =
  ac_fab_idx :: u8
  ac_subjects :: AccessorSubjects
  ac_auth_mode :: "AuthMode option"

definition Accessor_new :: "u8 \<Rightarrow> AccessorSubjects \<Rightarrow> AuthMode option \<Rightarrow> Accessor" where
  "Accessor_new fab_idx subjects auth_mode =
     \<lparr>ac_fab_idx = fab_idx, ac_subjects = subjects, ac_auth_mode = auth_mode\<rparr>"

fun add_catids :: "u32 list \<Rightarrow> AccessorSubjects \<Rightarrow> AccessorSubjects" where
  "add_catids [] a = a"
| "add_catids (i # is) a = add_catids is (if i \<noteq> 0 then snd (AccessorSubjects_add_catid i a) else a)"

definition Accessor_for_session :: "Session \<Rightarrow> Accessor" where
  "Accessor_for_session s = (case se_mode s of
     Case fab_idx cat_ids \<Rightarrow>
       Accessor_new fab_idx
         (add_catids cat_ids (AccessorSubjects_new (case se_peer_nodeid s of Some n \<Rightarrow> n | None \<Rightarrow> 0)))
         (Some AuthCase)
   | Pase fab_idx \<Rightarrow> Accessor_new fab_idx (AccessorSubjects_new 1) (Some AuthPase)
   | Group fab_idx group_id \<Rightarrow> Accessor_new fab_idx (AccessorSubjects_new (ucast group_id)) (Some AuthGroup)
   | PlainText \<Rightarrow> Accessor_new 0 (AccessorSubjects_new 1) None)"

definition Accessor_fab_idx :: "Accessor \<Rightarrow> u8 res" where
  "Accessor_fab_idx a = (if ac_fab_idx a \<noteq> 0 then Ok (ac_fab_idx a) else Err UnsupportedAccess)"

definition Accessor_peer_node_id :: "Accessor \<Rightarrow> u64 option" where
  "Accessor_peer_node_id a =
     (if ac_auth_mode a = Some AuthCase
      then let i = ac_subjects a ! 0 in if is_node i then Some i else None
      else None)"

subsection \<open>Requests and entries\<close>

record GenericPath =
  gp_endpoint :: "u16 option"
  gp_cluster :: "u32 option"
  gp_leaf :: "u32 option"

definition GenericPath_new :: "u16 option \<Rightarrow> u32 option \<Rightarrow> u32 option \<Rightarrow> GenericPath" where
  "GenericPath_new e c l = \<lparr>gp_endpoint = e, gp_cluster = c, gp_leaf = l\<rparr>"

definition GenericPath_not_wildcard :: "GenericPath \<Rightarrow> (u16 \<times> u32 \<times> u32) res" where
  "GenericPath_not_wildcard p = (case (gp_endpoint p, gp_cluster p, gp_leaf p) of
     (Some e, Some c, Some l) \<Rightarrow> Ok (e, c, l) | _ \<Rightarrow> Err Invalid)"

definition GenericPath_is_wildcard :: "GenericPath \<Rightarrow> bool" where
  "GenericPath_is_wildcard p = (\<not> (case (gp_endpoint p, gp_cluster p, gp_leaf p) of
     (Some e, Some c, Some l) \<Rightarrow> True | _ \<Rightarrow> False))"

record DeviceType =
  dt_dtype :: u16
  dt_drev :: u16

record AccessDesc =
  ad_path :: GenericPath
  ad_target_perms :: "Access option"
  ad_operation :: Access
  ad_device_types :: "DeviceType list"

record AccessReq =
  ar_accessor :: Accessor
  ar_object :: AccessDesc

definition AccessReq_new_with_device_types ::
    "Accessor \<Rightarrow> GenericPath \<Rightarrow> Access \<Rightarrow> DeviceType list \<Rightarrow> AccessReq" where
  "AccessReq_new_with_device_types accessor path operation device_types =
     \<lparr>ar_accessor = accessor,
      ar_object = \<lparr>ad_path = path, ad_target_perms = None, ad_operation = operation,
                   ad_device_types = device_types\<rparr>\<rparr>"

definition AccessReq_new :: "Accessor \<Rightarrow> GenericPath \<Rightarrow> Access \<Rightarrow> AccessReq" where
  "AccessReq_new accessor path operation = AccessReq_new_with_device_types accessor path operation []"

definition AccessReq_set_target_perms :: "Access \<Rightarrow> AccessReq \<Rightarrow> AccessReq" where
  "AccessReq_set_target_perms perms r = r\<lparr>ar_object := (ar_object r)\<lparr>ad_target_perms := Some perms\<rparr>\<rparr>"

record Target =
  tg_cluster :: "u32 option"
  tg_endpoint :: "u16 option"
  tg_device_type :: "u32 option"

definition Target_new :: "u16 option \<Rightarrow> u32 option \<Rightarrow> u32 option \<Rightarrow> Target" where
  "Target_new endpoint cluster device_type =
     \<lparr>tg_cluster = cluster, tg_endpoint = endpoint, tg_device_type = device_type\<rparr>"

text \<open>\<^verbatim>\<open>Nullable<Vec<..>>\<close> is an optional list; the auxiliary type is kept as an opaque value.\<close>

record AclEntry =
  ae_privilege :: Privilege
  ae_auth_mode :: AuthMode
  ae_subjects :: "u64 list option"
  ae_targets :: "Target list option"
  ae_auxiliary_type :: "u8 option"
  ae_fab_idx :: "u8 option"

definition AclEntry_new :: "u8 option \<Rightarrow> Privilege \<Rightarrow> AuthMode \<Rightarrow> AclEntry" where
  "AclEntry_new fab_idx privilege auth_mode =
     \<lparr>ae_privilege = privilege, ae_auth_mode = auth_mode, ae_subjects = None, ae_targets = None,
      ae_auxiliary_type = None, ae_fab_idx = fab_idx\<rparr>"

definition AclEntry_normalize :: "AclEntry \<Rightarrow> AclEntry" where
  "AclEntry_normalize e =
     (let e = (if ae_subjects e = Some [] then e\<lparr>ae_subjects := None\<rparr> else e)
      in if ae_targets e = Some [] then e\<lparr>ae_targets := None\<rparr> else e)"

definition AclEntry_add_subject :: "u64 \<Rightarrow> (AclEntry, unit) sr" where
  "AclEntry_add_subject subject = (\<lambda>e.
     let xs = (case ae_subjects e of None \<Rightarrow> [] | Some xs \<Rightarrow> xs) in
     if length xs < MAX_SUBJECTS_PER_ACL_ENTRY
     then (Ok (), e\<lparr>ae_subjects := Some (xs @ [subject])\<rparr>)
     else (Err ResourceExhausted, e\<lparr>ae_subjects := Some xs\<rparr>))"

definition AclEntry_add_subject_catid :: "u32 \<Rightarrow> (AclEntry, unit) sr" where
  "AclEntry_add_subject_catid cat_id = AclEntry_add_subject (NOC_CAT_SUBJECT_PREFIX OR ucast cat_id)"

definition AclEntry_add_target :: "Target \<Rightarrow> (AclEntry, unit) sr" where
  "AclEntry_add_target target = (\<lambda>e.
     let xs = (case ae_targets e of None \<Rightarrow> [] | Some xs \<Rightarrow> xs) in
     if length xs < MAX_TARGETS_PER_ACL_ENTRY
     then (Ok (), e\<lparr>ae_targets := Some (xs @ [target])\<rparr>)
     else (Err ResourceExhausted, e\<lparr>ae_targets := Some xs\<rparr>))"

definition AclEntry_match_accessor :: "AclEntry \<Rightarrow> Accessor \<Rightarrow> bool" where
  "AclEntry_match_accessor e accessor =
     (if Some (ae_auth_mode e) \<noteq> ac_auth_mode accessor then False
      else (case ae_subjects e of
              None \<Rightarrow> True
            | Some subjects \<Rightarrow> subjects = [] \<or> (\<exists>s \<in> set subjects. AccessorSubjects_matches (ac_subjects accessor) s)) \<and>
           (case ae_fab_idx e of Some fab_idx \<Rightarrow> fab_idx = ac_fab_idx accessor | None \<Rightarrow> False))"

definition Target_match :: "AccessDesc \<Rightarrow> Target \<Rightarrow> bool" where
  "Target_match object t \<longleftrightarrow>
     (tg_endpoint t = None \<or> tg_endpoint t = gp_endpoint (ad_path object)) \<and>
     (tg_cluster t = None \<or> tg_cluster t = gp_cluster (ad_path object)) \<and>
     (case tg_device_type t of
        Some dt \<Rightarrow> (\<exists>d \<in> set (ad_device_types object). ucast (dt_dtype d) = dt) | None \<Rightarrow> True)"

definition AclEntry_match_access_desc :: "AclEntry \<Rightarrow> AccessDesc \<Rightarrow> bool" where
  "AclEntry_match_access_desc e object =
     (let allow = (case ae_targets e of
        None \<Rightarrow> True | Some targets \<Rightarrow> targets = [] \<or> (\<exists>t \<in> set targets. Target_match object t))
      in if allow
         then (case ad_target_perms object of
                 Some access \<Rightarrow> Access_is_ok access (ad_operation object) (ae_privilege e)
               | None \<Rightarrow> False)
         else False)"

definition AclEntry_allow :: "AclEntry \<Rightarrow> AccessReq \<Rightarrow> bool" where
  "AclEntry_allow e req \<longleftrightarrow>
     AclEntry_match_accessor e (ar_accessor req) \<and> AclEntry_match_access_desc e (ar_object req)"

subsection \<open>Entries from the network\<close>

record AccessControlTargetStruct =
  ts_endpoint :: "u16 option res"
  ts_cluster :: "u32 option res"
  ts_device_type :: "u32 option res"

record AccessControlEntryStruct =
  es_auth_mode :: "AccessControlEntryAuthModeEnum option res"
  es_privilege :: "AccessControlEntryPrivilegeEnum option res"
  es_subjects :: "u64 res list option option res"
  es_targets :: "AccessControlTargetStruct res list option option res"
  es_auxiliary_type :: "u8 option res"

text \<open>A field that must be present: \<^verbatim>\<open>map_err(|_| ConstraintError)?.ok_or(ConstraintError)?\<close>.\<close>

definition constrained :: "'a res \<Rightarrow> 'a res" where
  "constrained r = (case r of Err _ \<Rightarrow> Err ConstraintError | _ \<Rightarrow> r)"

definition required :: "'a option res \<Rightarrow> 'a res" where
  "required r = res_bind (constrained r) (\<lambda>x. case x of Some y \<Rightarrow> Ok y | None \<Rightarrow> Err ConstraintError)"

definition subject_ok :: "AccessControlEntryAuthModeEnum \<Rightarrow> u64 \<Rightarrow> bool" where
  "subject_ok auth_mode subject \<longleftrightarrow>
     \<not> (auth_mode = CASE \<and> \<not> is_node subject \<and> \<not> is_noc_cat subject) \<and>
     \<not> (auth_mode = GroupEnum \<and> (subject = 0 \<or> subject > 0xFFFF))"

fun init_subjects ::
    "AccessControlEntryAuthModeEnum \<Rightarrow> u64 res list \<Rightarrow> u64 list option \<Rightarrow> u64 list option res" where
  "init_subjects auth_mode [] esubjects = Ok esubjects"
| "init_subjects auth_mode (s # ss) esubjects =
     (let xs = (case esubjects of None \<Rightarrow> [] | Some xs \<Rightarrow> xs) in
      res_bind s (\<lambda>subject.
        if \<not> subject_ok auth_mode subject then Err ConstraintError
        else if length xs < MAX_SUBJECTS_PER_ACL_ENTRY
        then init_subjects auth_mode ss (Some (xs @ [subject]))
        else Err BufferTooSmall))"

definition init_target :: "AccessControlTargetStruct \<Rightarrow> Target res" where
  "init_target t =
     res_bind (ts_endpoint t) (\<lambda>endpoint.
     res_bind (ts_cluster t) (\<lambda>cluster.
     res_bind (ts_device_type t) (\<lambda>device_type.
       if (endpoint = None \<and> cluster = None \<and> device_type = None) \<or>
          (endpoint \<noteq> None \<and> device_type \<noteq> None)
       then Err ConstraintError
       else Ok (Target_new endpoint cluster device_type))))"

fun init_targets :: "AccessControlTargetStruct res list \<Rightarrow> Target list option \<Rightarrow> Target list option res" where
  "init_targets [] etargets = Ok etargets"
| "init_targets (t # ts) etargets =
     (let xs = (case etargets of None \<Rightarrow> [] | Some xs \<Rightarrow> xs) in
      res_bind t (\<lambda>target.
      res_bind (init_target target) (\<lambda>x.
        if length xs < MAX_TARGETS_PER_ACL_ENTRY then init_targets ts (Some (xs @ [x]))
        else Err BufferTooSmall)))"

definition AclEntry_init_with :: "u8 \<Rightarrow> AccessControlEntryStruct \<Rightarrow> AclEntry res" where
  "AclEntry_init_with fab_idx entry =
     res_bind (required (es_auth_mode entry)) (\<lambda>auth_mode.
     res_bind (required (es_privilege entry)) (\<lambda>privilege.
     res_bind (required (es_subjects entry)) (\<lambda>subjects.
     res_bind (required (es_targets entry)) (\<lambda>targets.
     res_bind (constrained (es_auxiliary_type entry)) (\<lambda>auxiliary_type.
       if auth_mode = PASE \<or> auth_mode = GroupEnum \<and> privilege = Administer then Err ConstraintError
       else
         res_bind (init_subjects auth_mode (case subjects of Some ss \<Rightarrow> ss | None \<Rightarrow> []) None) (\<lambda>esubjects.
         res_bind (init_targets (case targets of Some ts \<Rightarrow> ts | None \<Rightarrow> []) None) (\<lambda>etargets.
           Ok \<lparr>ae_privilege = Privilege_from_enum privilege, ae_auth_mode = AuthMode_from_enum auth_mode,
               ae_subjects = esubjects, ae_targets = etargets, ae_auxiliary_type = auxiliary_type,
               ae_fab_idx = Some fab_idx\<rparr>)))))))"

text \<open>
  What \<^verbatim>\<open>read_into\<close> hands to the builder of the attribute value: an entry of another fabric shows
  nothing but its auxiliary type and its fabric index.
\<close>

record AclEntryView =
  av_privilege :: "AccessControlEntryPrivilegeEnum option"
  av_auth_mode :: "AccessControlEntryAuthModeEnum option"
  av_subjects :: "u64 list option option"
  av_targets :: "Target list option option"
  av_auxiliary_type :: "u8 option"
  av_fabric_index :: "u8 option"

definition AclEntry_read_into :: "u8 \<Rightarrow> u8 option \<Rightarrow> AclEntry \<Rightarrow> AclEntryView res" where
  "AclEntry_read_into accessing_fab_idx fab_idx e =
     (let same_fab_idx = (Some accessing_fab_idx = fab_idx) in
      res_bind (if same_fab_idx then res_bind (Privilege_to_enum (ae_privilege e)) (\<lambda>p. Ok (Some p)) else Ok None)
        (\<lambda>privilege. Ok
           \<lparr>av_privilege = privilege,
            av_auth_mode = (if same_fab_idx then Some (AuthMode_to_enum (ae_auth_mode e)) else None),
            av_subjects = (if same_fab_idx then Some (ae_subjects e) else None),
            av_targets = (if same_fab_idx then Some (ae_targets e) else None),
            av_auxiliary_type = ae_auxiliary_type e,
            av_fabric_index = fab_idx\<rparr>))"

end
