(* ===== verification/Fabric.thy ===== *)
theory Fabric
  imports Acl
begin

section \<open>Fabrics\<close>

text \<open>
  \<^verbatim>\<open>group_keys.rs\<close> and \<^verbatim>\<open>fabric.rs\<close>: the fabrics a node belongs to, each with its certificates,
  its access control list and its groups. The key derivation, the HMAC and the accessors of a
  certificate are a parameter (\<open>Fabric_env\<close>); the capacities of the group tables are selected by
  features and are a parameter too (\<open>Group_caps\<close>). Strings are their UTF-8 bytes. Loading from and
  storing to the key-value store is not part of this theory.
\<close>

subsection \<open>Parameters\<close>

record Fabric_env =
  fe_get_node_id :: "bytes \<Rightarrow> u64 res"
  fe_get_fabric_id :: "bytes \<Rightarrow> u64 res"
  fe_pubkey :: "bytes \<Rightarrow> bytes res"
  fe_kdf :: "unit res"
  fe_expand :: "bytes \<Rightarrow> bytes \<Rightarrow> bytes \<Rightarrow> nat \<Rightarrow> bytes res"
  fe_hmac :: "bytes \<Rightarrow> unit res"
  fe_mac :: "bytes \<Rightarrow> bytes \<Rightarrow> bytes res"

record Group_caps =
  gc_keys :: nat
  gc_groups :: nat
  gc_endpoints :: nat

definition MAX_CERT_TLV_LEN :: nat where "MAX_CERT_TLV_LEN = 400"

definition MAX_FABRICS :: nat where "MAX_FABRICS = 5"

definition MAX_GROUP_NAME_LEN :: nat where "MAX_GROUP_NAME_LEN = 16"

definition COMPRESSED_FABRIC_ID_LEN :: nat where "COMPRESSED_FABRIC_ID_LEN = 8"

definition VID_VERIFICATION_STATEMENT_LEN :: nat where "VID_VERIFICATION_STATEMENT_LEN = 85"

definition PKC_CANON_PUBLIC_KEY_LEN :: nat where "PKC_CANON_PUBLIC_KEY_LEN = 65"

definition to_be_bytes_u64 :: "u64 \<Rightarrow> bytes" where
  "to_be_bytes_u64 w = rev (to_le_bytes 8 w)"

definition from_be_bytes_u64 :: "bytes \<Rightarrow> u64" where
  "from_be_bytes_u64 bs = from_le_bytes (rev bs)"

text \<open>\<^verbatim>\<open>clear()\<close> followed by \<^verbatim>\<open>extend_from_slice\<close> on a vector of the given capacity.\<close>

definition refill :: "nat \<Rightarrow> bytes \<Rightarrow> bytes option" where
  "refill cap bs = (if length bs \<le> cap then Some bs else None)"

subsection \<open>Groups\<close>

record GroupEpochKeyEntry =
  gk_epoch_key :: bytes
  gk_epoch_start_time :: u64

record GroupKeySet =
  ks_group_key_set_id :: u16
  ks_group_key_security_policy :: u8
  ks_epoch_keys :: "GroupEpochKeyEntry list"

record GroupEndpointMapping =
  gm_group_id :: u16
  gm_endpoints :: "u16 list"
  gm_group_name :: bytes

record GroupKeyMapping =
  km_group_id :: u16
  km_group_key_set_id :: u16

record Groups =
  gr_key_sets :: "GroupKeySet list"
  gr_key_map :: "GroupKeyMapping list"
  gr_endpoint_mapping :: "GroupEndpointMapping list"

definition Groups_init :: Groups where
  "Groups_init = \<lparr>gr_key_sets = [], gr_key_map = [], gr_endpoint_mapping = []\<rparr>"

definition Groups_key_set_get :: "u16 \<Rightarrow> Groups \<Rightarrow> GroupKeySet option" where
  "Groups_key_set_get i g = find (\<lambda>e. ks_group_key_set_id e = i) (gr_key_sets g)"

definition Groups_key_set_add :: "Group_caps \<Rightarrow> GroupKeySet \<Rightarrow> (Groups, unit) sr" where
  "Groups_key_set_add caps entry = (\<lambda>g.
     case position (\<lambda>e. ks_group_key_set_id e = ks_group_key_set_id entry) (gr_key_sets g) of
       Some i \<Rightarrow> (Ok (), g\<lparr>gr_key_sets := (gr_key_sets g)[i := entry]\<rparr>)
     | None \<Rightarrow>
         if length (gr_key_sets g) < gc_keys caps
         then (Ok (), g\<lparr>gr_key_sets := gr_key_sets g @ [entry]\<rparr>)
         else (Err ResourceExhausted, g))"

definition Groups_key_map_remove_by_key_set :: "u16 \<Rightarrow> Groups \<Rightarrow> Groups" where
  "Groups_key_map_remove_by_key_set key_set_id g =
     g\<lparr>gr_key_map := filter (\<lambda>e. km_group_key_set_id e \<noteq> key_set_id) (gr_key_map g)\<rparr>"

definition Groups_key_set_remove :: "u16 \<Rightarrow> (Groups, unit) sr" where
  "Groups_key_set_remove i = (\<lambda>g.
     let g' = g\<lparr>gr_key_sets := filter (\<lambda>e. ks_group_key_set_id e \<noteq> i) (gr_key_sets g)\<rparr>;
         removed = length (gr_key_sets g') < length (gr_key_sets g);
         g' = Groups_key_map_remove_by_key_set i g'
     in if removed then (Ok (), g') else (Err NotFound, g'))"

definition Groups_key_map_add :: "Group_caps \<Rightarrow> GroupKeyMapping \<Rightarrow> (Groups, unit) sr" where
  "Groups_key_map_add caps entry = (\<lambda>g.
     if length (gr_key_map g) < gc_groups caps
     then (Ok (), g\<lparr>gr_key_map := gr_key_map g @ [entry]\<rparr>) else (Err Failure, g))"

fun key_map_push_all :: "Group_caps \<Rightarrow> GroupKeyMapping list \<Rightarrow> (Groups, unit) sr" where
  "key_map_push_all caps [] g = (Ok (), g)"
| "key_map_push_all caps (e # es) g =
     (if length (gr_key_map g) < gc_groups caps
      then key_map_push_all caps es (g\<lparr>gr_key_map := gr_key_map g @ [e]\<rparr>)
      else (Err ResourceExhausted, g))"

definition Groups_key_map_replace :: "Group_caps \<Rightarrow> GroupKeyMapping list \<Rightarrow> (Groups, unit) sr" where
  "Groups_key_map_replace caps entries = (\<lambda>g. key_map_push_all caps entries (g\<lparr>gr_key_map := []\<rparr>))"

definition Groups_get :: "u16 \<Rightarrow> Groups \<Rightarrow> GroupEndpointMapping option" where
  "Groups_get group_id g = find (\<lambda>e. gm_group_id e = group_id) (gr_endpoint_mapping g)"

text \<open>The rest of \<^verbatim>\<open>Groups::add\<close> once the entry of the group is there, at index \<open>i\<close>.\<close>

definition group_join :: "Group_caps \<Rightarrow> nat \<Rightarrow> u16 \<Rightarrow> bytes \<Rightarrow> (Groups, bool) sr" where
  "group_join caps i endpoint_id group_name = (\<lambda>g.
     if length group_name \<le> MAX_GROUP_NAME_LEN then
       (let entry = (gr_endpoint_mapping g ! i)\<lparr>gm_group_name := group_name\<rparr>;
            set_entry = (\<lambda>e. g\<lparr>gr_endpoint_mapping := (gr_endpoint_mapping g)[i := e]\<rparr>)
        in if endpoint_id \<in> set (gm_endpoints entry) then (Ok True, set_entry entry)
           else if length (gm_endpoints entry) < gc_endpoints caps
           then (Ok False, set_entry (entry\<lparr>gm_endpoints := gm_endpoints entry @ [endpoint_id]\<rparr>))
           else (Err ResourceExhausted, set_entry entry))
     else (Panic, g))"

definition Groups_add :: "Group_caps \<Rightarrow> u16 \<Rightarrow> u16 \<Rightarrow> bytes \<Rightarrow> (Groups, bool) sr" where
  "Groups_add caps endpoint_id group_id group_name = (\<lambda>g.
     case position (\<lambda>e. gm_group_id e = group_id) (gr_endpoint_mapping g) of
       Some i \<Rightarrow> group_join caps i endpoint_id group_name g
     | None \<Rightarrow>
         if length group_name > MAX_GROUP_NAME_LEN then (Panic, g)
         else if length (gr_endpoint_mapping g) < gc_groups caps
         then group_join caps (length (gr_endpoint_mapping g)) endpoint_id group_name
                (g\<lparr>gr_endpoint_mapping := gr_endpoint_mapping g @
                    [\<lparr>gm_group_id = group_id, gm_endpoints = [], gm_group_name = group_name\<rparr>]\<rparr>)
         else (Err ResourceExhausted, g))"

definition leave_group :: "u16 \<Rightarrow> u16 option \<Rightarrow> GroupEndpointMapping \<Rightarrow> GroupEndpointMapping" where
  "leave_group endpoint_id group_id e =
     (case group_id of
        Some i \<Rightarrow> if i \<noteq> gm_group_id e then e
                  else e\<lparr>gm_endpoints := filter (\<lambda>ep. ep \<noteq> endpoint_id) (gm_endpoints e)\<rparr>
      | None \<Rightarrow> e\<lparr>gm_endpoints := filter (\<lambda>ep. ep \<noteq> endpoint_id) (gm_endpoints e)\<rparr>)"

definition Groups_remove :: "u16 \<Rightarrow> u16 option \<Rightarrow> Groups \<Rightarrow> bool \<times> Groups" where
  "Groups_remove endpoint_id group_id g =
     (let after = map (leave_group endpoint_id group_id) (gr_endpoint_mapping g);
          removed = (\<exists>(e, e') \<in> set (zip (gr_endpoint_mapping g) after).
                       length (gm_endpoints e') < length (gm_endpoints e))
      in (removed, g\<lparr>gr_endpoint_mapping := filter (\<lambda>e. gm_endpoints e \<noteq> []) after\<rparr>))"

subsection \<open>One fabric\<close>

record KeySet =
  key_epoch_key :: bytes
  key_op_key :: bytes

definition KeySet_new :: KeySet where
  "KeySet_new = \<lparr>key_epoch_key = replicate AEAD_CANON_KEY_LEN 0, key_op_key = replicate AEAD_CANON_KEY_LEN 0\<rparr>"

definition GRP_KEY_INFO :: bytes where
  "GRP_KEY_INFO = [0x47, 0x72, 0x6f, 0x75, 0x70, 0x4b, 0x65, 0x79, 0x20, 0x76, 0x31, 0x2e, 0x30]"

definition KeySet_update :: "Fabric_env \<Rightarrow> bytes \<Rightarrow> u64 \<Rightarrow> (KeySet, unit) sr" where
  "KeySet_update env epoch_key compressed_fabric_id = (\<lambda>k.
     case fe_kdf env of
       Ok _ \<Rightarrow>
         (case fe_expand env (to_be_bytes_u64 compressed_fabric_id) epoch_key GRP_KEY_INFO AEAD_CANON_KEY_LEN of
            Ok op \<Rightarrow> (Ok (), \<lparr>key_epoch_key = epoch_key, key_op_key = op\<rparr>)
          | Err _ \<Rightarrow> (Err InvalidData, k)
          | Panic \<Rightarrow> (Panic, k))
     | Err e \<Rightarrow> (Err e, k)
     | Panic \<Rightarrow> (Panic, k))"

record Fabric =
  fa_fab_idx :: u8
  fa_node_id :: u64
  fa_fabric_id :: u64
  fa_vendor_id :: u16
  fa_compressed_fabric_id :: u64
  fa_secret_key :: bytes
  fa_root_ca :: bytes
  fa_icac_or_vvsc :: bytes
  fa_vvsc_set :: bool
  fa_noc :: bytes
  fa_ipk :: KeySet
  fa_label :: bytes
  fa_acl :: "AclEntry list"
  fa_groups :: Groups
  fa_vid_verification_statement :: bytes

definition Fabric_init :: "u8 \<Rightarrow> Fabric" where
  "Fabric_init fab_idx =
     \<lparr>fa_fab_idx = fab_idx, fa_node_id = 0, fa_fabric_id = 0, fa_vendor_id = 0, fa_compressed_fabric_id = 0,
      fa_secret_key = replicate 32 0, fa_root_ca = [], fa_icac_or_vvsc = [], fa_vvsc_set = False, fa_noc = [],
      fa_ipk = KeySet_new, fa_label = [], fa_acl = [], fa_groups = Groups_init,
      fa_vid_verification_statement = []\<rparr>"

definition COMPRESSED_FABRIC_ID_INFO :: bytes where
  "COMPRESSED_FABRIC_ID_INFO =
     [0x43, 0x6f, 0x6d, 0x70, 0x72, 0x65, 0x73, 0x73, 0x65, 0x64, 0x46, 0x61, 0x62, 0x72, 0x69, 0x63]"

definition Fabric_compute_compressed_fabric_id :: "Fabric_env \<Rightarrow> bytes \<Rightarrow> u64 \<Rightarrow> u64 res" where
  "Fabric_compute_compressed_fabric_id env root_pubkey fabric_id =
     (case fe_kdf env of
        Ok _ \<Rightarrow>
          (case fe_expand env (to_be_bytes_u64 fabric_id) (drop 1 root_pubkey) COMPRESSED_FABRIC_ID_INFO
                  COMPRESSED_FABRIC_ID_LEN of
             Ok out \<Rightarrow> Ok (from_be_bytes_u64 out)
           | _ \<Rightarrow> Panic)
      | _ \<Rightarrow> Panic)"

definition canon_public_key :: "bytes \<Rightarrow> bytes res" where
  "canon_public_key bs = (if length bs = PKC_CANON_PUBLIC_KEY_LEN then Ok bs else Err InvalidData)"

text \<open>The steps of \<^verbatim>\<open>Fabric::update\<close>, each a state change with its early return.\<close>

definition set_root_ca :: "bytes option \<Rightarrow> (Fabric, unit) sr" where
  "set_root_ca root_ca = (\<lambda>f. case root_ca of
     None \<Rightarrow> (Ok (), f)
   | Some bs \<Rightarrow> (case refill MAX_CERT_TLV_LEN bs of
       Some bs \<Rightarrow> (Ok (), f\<lparr>fa_root_ca := bs\<rparr>)
     | None \<Rightarrow> (Err BufferTooSmall, f\<lparr>fa_root_ca := []\<rparr>)))"

definition set_icac :: "bytes \<Rightarrow> (Fabric, unit) sr" where
  "set_icac icac = (\<lambda>f. case refill MAX_CERT_TLV_LEN icac of
     Some bs \<Rightarrow> (Ok (), f\<lparr>fa_icac_or_vvsc := bs, fa_vvsc_set := False\<rparr>)
   | None \<Rightarrow> (Err BufferTooSmall, f\<lparr>fa_icac_or_vvsc := []\<rparr>))"

definition set_noc :: "bytes \<Rightarrow> (Fabric, unit) sr" where
  "set_noc noc = (\<lambda>f. case refill MAX_CERT_TLV_LEN noc of
     Some bs \<Rightarrow> (Ok (), f\<lparr>fa_noc := bs\<rparr>)
   | None \<Rightarrow> (Err BufferTooSmall, f\<lparr>fa_noc := []\<rparr>))"

definition set_ids :: "Fabric_env \<Rightarrow> bytes \<Rightarrow> (Fabric, unit) sr" where
  "set_ids env noc =
     sr_bind (sr_res (fe_get_node_id env noc)) (\<lambda>node_id.
     sr_then (sr_modify (\<lambda>f. f\<lparr>fa_node_id := node_id\<rparr>))
     (sr_bind (sr_res (fe_get_fabric_id env noc)) (\<lambda>fabric_id.
     sr_then (sr_modify (\<lambda>f. f\<lparr>fa_fabric_id := fabric_id\<rparr>))
     (sr_bind sr_get (\<lambda>f.
     sr_bind (sr_res (res_bind (fe_pubkey env (fa_root_ca f)) canon_public_key)) (\<lambda>pubkey.
     sr_bind (sr_res (Fabric_compute_compressed_fabric_id env pubkey fabric_id)) (\<lambda>c.
     sr_modify (\<lambda>f. f\<lparr>fa_compressed_fabric_id := c\<rparr>))))))))"

definition set_ipk :: "Fabric_env \<Rightarrow> bytes option \<Rightarrow> (Fabric, unit) sr" where
  "set_ipk env epoch_key = (\<lambda>f. case epoch_key of
     None \<Rightarrow> (Ok (), f)
   | Some k \<Rightarrow>
       (case KeySet_update env k (fa_compressed_fabric_id f) (fa_ipk f) of
          (r, ipk) \<Rightarrow> (r, f\<lparr>fa_ipk := ipk\<rparr>)))"

definition set_admin :: "u64 option \<Rightarrow> (Fabric, unit) sr" where
  "set_admin case_admin_subject = (\<lambda>f. case case_admin_subject of
     None \<Rightarrow> (Ok (), f)
   | Some subject \<Rightarrow>
       (case AclEntry_add_subject subject
          ((AclEntry_new None Privilege_ADMIN AuthCase)\<lparr>ae_fab_idx := Some (fa_fab_idx f)\<rparr>) of
          (Ok _, e) \<Rightarrow>
            if 0 < MAX_ACL_ENTRIES_PER_FABRIC then (Ok (), f\<lparr>fa_acl := [e]\<rparr>)
            else (Err ResourceExhausted, f\<lparr>fa_acl := []\<rparr>)
        | (Err x, e) \<Rightarrow> (Err x, f\<lparr>fa_acl := []\<rparr>)
        | (Panic, e) \<Rightarrow> (Panic, f\<lparr>fa_acl := []\<rparr>)))"

definition Fabric_update ::
    "Fabric_env \<Rightarrow> bytes option \<Rightarrow> bytes \<Rightarrow> bytes \<Rightarrow> bytes \<Rightarrow> bytes option \<Rightarrow> u16 option \<Rightarrow> u64 option \<Rightarrow>
     (Fabric, unit) sr" where
  "Fabric_update env root_ca noc icac secret_key epoch_key vendor_id case_admin_subject =
     sr_then (set_root_ca root_ca)
     (sr_then (set_icac icac)
     (sr_then (set_noc noc)
     (sr_then (set_ids env noc)
     (sr_then (set_ipk env epoch_key)
     (sr_then (sr_modify (\<lambda>f. case vendor_id of Some v \<Rightarrow> f\<lparr>fa_vendor_id := v\<rparr> | None \<Rightarrow> f))
     (sr_then (set_admin case_admin_subject)
     (sr_modify (\<lambda>f. f\<lparr>fa_secret_key := secret_key\<rparr>))))))))"

definition dest_id_for :: "Fabric_env \<Rightarrow> Fabric \<Rightarrow> bytes \<Rightarrow> u64 \<Rightarrow> bytes res" where
  "dest_id_for env f random node_id =
     res_bind (fe_hmac env (key_op_key (fa_ipk f))) (\<lambda>_.
     res_bind (fe_pubkey env (fa_root_ca f)) (\<lambda>pubkey.
       fe_mac env (key_op_key (fa_ipk f))
         (random @ pubkey @ to_le_bytes 8 (fa_fabric_id f) @ to_le_bytes 8 node_id)))"

definition Fabric_compute_dest_id :: "Fabric_env \<Rightarrow> bytes \<Rightarrow> u64 \<Rightarrow> Fabric \<Rightarrow> bytes res" where
  "Fabric_compute_dest_id env random target_node_id f = dest_id_for env f random target_node_id"

definition Fabric_is_dest_id :: "Fabric_env \<Rightarrow> bytes \<Rightarrow> bytes \<Rightarrow> Fabric \<Rightarrow> unit res" where
  "Fabric_is_dest_id env random target f =
     res_bind (dest_id_for env f random (fa_node_id f)) (\<lambda>i.
       if i = target then Ok () else Err NotFound)"

definition Fabric_icac :: "Fabric \<Rightarrow> bytes" where
  "Fabric_icac f = (if fa_vvsc_set f then [] else fa_icac_or_vvsc f)"

definition Fabric_vvsc :: "Fabric \<Rightarrow> bytes" where
  "Fabric_vvsc f = (if fa_vvsc_set f then fa_icac_or_vvsc f else [])"

definition set_vvsc :: "bytes option \<Rightarrow> (Fabric, unit) sr" where
  "set_vvsc vvsc = (\<lambda>f. case vvsc of
     None \<Rightarrow> (Ok (), f)
   | Some v \<Rightarrow>
       if v \<noteq> [] then
         (case refill MAX_CERT_TLV_LEN v of
            Some bs \<Rightarrow> (Ok (), f\<lparr>fa_icac_or_vvsc := bs, fa_vvsc_set := True\<rparr>)
          | None \<Rightarrow> (Err BufferTooSmall, f\<lparr>fa_icac_or_vvsc := []\<rparr>))
       else if fa_vvsc_set f then (Ok (), f\<lparr>fa_icac_or_vvsc := [], fa_vvsc_set := False\<rparr>)
       else (Ok (), f))"

definition Fabric_set_vid_verification ::
    "u16 option \<Rightarrow> bytes option \<Rightarrow> bytes option \<Rightarrow> (Fabric, unit) sr" where
  "Fabric_set_vid_verification vendor_id vid_verification_statement vvsc =
     sr_then (sr_modify (\<lambda>f. case vendor_id of Some v \<Rightarrow> f\<lparr>fa_vendor_id := v\<rparr> | None \<Rightarrow> f))
     (sr_then (\<lambda>f. case vid_verification_statement of
         None \<Rightarrow> (Ok (), f)
       | Some vvs \<Rightarrow> (case refill VID_VERIFICATION_STATEMENT_LEN vvs of
           Some bs \<Rightarrow> (Ok (), f\<lparr>fa_vid_verification_statement := bs\<rparr>)
         | None \<Rightarrow> (Err BufferTooSmall, f\<lparr>fa_vid_verification_statement := []\<rparr>)))
     (set_vvsc vvsc))"

definition Fabric_acl_add :: "AclEntry \<Rightarrow> (Fabric, nat) sr" where
  "Fabric_acl_add entry = (\<lambda>f.
     if ae_auth_mode entry = AuthPase then (Err ConstraintError, f)
     else if length (fa_acl f) < MAX_ACL_ENTRIES_PER_FABRIC
     then (Ok (length (fa_acl f)), f\<lparr>fa_acl := fa_acl f @ [entry\<lparr>ae_fab_idx := Some (fa_fab_idx f)\<rparr>]\<rparr>)
     else (Err ResourceExhausted, f))"

text \<open>The initializer argument of the next two is its outcome.\<close>

definition Fabric_acl_add_init :: "AclEntry res \<Rightarrow> (Fabric, nat) sr" where
  "Fabric_acl_add_init init = (\<lambda>f.
     if length (fa_acl f) < MAX_ACL_ENTRIES_PER_FABRIC
     then (case init of
             Ok entry \<Rightarrow> (Ok (length (fa_acl f)),
               f\<lparr>fa_acl := fa_acl f @ [entry\<lparr>ae_fab_idx := Some (fa_fab_idx f)\<rparr>]\<rparr>)
           | Err e \<Rightarrow> (Err e, f) | Panic \<Rightarrow> (Panic, f))
     else (Err ResourceExhausted, f))"

definition Fabric_acl_update_init :: "nat \<Rightarrow> AclEntry res \<Rightarrow> (Fabric, unit) sr" where
  "Fabric_acl_update_init idx init = (\<lambda>f.
     if length (fa_acl f) \<le> idx then (Err NotFound, f)
     else (case init of
             Ok entry \<Rightarrow> (Ok (), f\<lparr>fa_acl := (fa_acl f)[idx := entry\<lparr>ae_fab_idx := Some (fa_fab_idx f)\<rparr>]\<rparr>)
           | Err e \<Rightarrow> (Err e, f) | Panic \<Rightarrow> (Panic, f)))"

definition Fabric_acl_update :: "nat \<Rightarrow> AclEntry \<Rightarrow> (Fabric, unit) sr" where
  "Fabric_acl_update idx entry = (\<lambda>f.
     if length (fa_acl f) \<le> idx then (Err NotFound, f)
     else (Ok (), f\<lparr>fa_acl := (fa_acl f)[idx := entry\<lparr>ae_fab_idx := Some (fa_fab_idx f)\<rparr>]\<rparr>))"

definition Fabric_acl_remove :: "nat \<Rightarrow> (Fabric, unit) sr" where
  "Fabric_acl_remove idx = (\<lambda>f.
     if length (fa_acl f) \<le> idx then (Err NotFound, f)
     else (Ok (), f\<lparr>fa_acl := take idx (fa_acl f) @ drop (Suc idx) (fa_acl f)\<rparr>))"

definition Fabric_acl_remove_all :: "Fabric \<Rightarrow> Fabric" where
  "Fabric_acl_remove_all f = f\<lparr>fa_acl := []\<rparr>"

definition Fabric_allow :: "AccessReq \<Rightarrow> Fabric \<Rightarrow> bool" where
  "Fabric_allow req f \<longleftrightarrow> (\<exists>e \<in> set (fa_acl f). AclEntry_allow e req)"

subsection \<open>All fabrics\<close>

record Fabrics =
  fs_fabrics :: "Fabric list"

definition Fabrics_new :: Fabrics where
  "Fabrics_new = \<lparr>fs_fabrics = []\<rparr>"

definition Fabrics_reset :: "Fabrics \<Rightarrow> Fabrics" where
  "Fabrics_reset fs = fs\<lparr>fs_fabrics := []\<rparr>"

definition Fabrics_get :: "u8 \<Rightarrow> Fabrics \<Rightarrow> Fabric option" where
  "Fabrics_get fab_idx fs = find (\<lambda>f. fa_fab_idx f = fab_idx) (fs_fabrics fs)"

definition Fabrics_fabric :: "u8 \<Rightarrow> Fabrics \<Rightarrow> Fabric res" where
  "Fabrics_fabric fab_idx fs = (case Fabrics_get fab_idx fs of Some f \<Rightarrow> Ok f | None \<Rightarrow> Err NotFound)"

text \<open>\<^verbatim>\<open>fabric_mut(fab_idx)?\<close> followed by a method of the fabric.\<close>

definition on_fabric :: "u8 \<Rightarrow> (Fabric, 'a) sr \<Rightarrow> (Fabrics, 'a) sr" where
  "on_fabric fab_idx m = (\<lambda>fs.
     case position (\<lambda>f. fa_fab_idx f = fab_idx) (fs_fabrics fs) of
       Some i \<Rightarrow> (case m (fs_fabrics fs ! i) of (r, f) \<Rightarrow> (r, fs\<lparr>fs_fabrics := (fs_fabrics fs)[i := f]\<rparr>))
     | None \<Rightarrow> (Err NotFound, fs))"

definition next_fab_idx :: "Fabrics \<Rightarrow> u8 option" where
  "next_fab_idx fs =
     (let max_fab_idx = fold max (map fa_fab_idx (fs_fabrics fs)) 0 in
      if max_fab_idx < 254 then Some (max_fab_idx + 1)
      else find (\<lambda>i. \<forall>f \<in> set (fs_fabrics fs). fa_fab_idx f \<noteq> i) (map of_nat [1..<255]))"

definition Fabrics_add_with_post_init :: "(Fabric, unit) sr \<Rightarrow> (Fabrics, Fabric) sr" where
  "Fabrics_add_with_post_init post_init = (\<lambda>fs.
     case next_fab_idx fs of
       None \<Rightarrow> (Err ResourceExhausted, fs)
     | Some fab_idx \<Rightarrow>
         if fab_idx = 0 then (Panic, fs)
         else if length (fs_fabrics fs) < MAX_FABRICS
         then (case post_init (Fabric_init fab_idx) of
                 (Ok _, f) \<Rightarrow> (Ok f, fs\<lparr>fs_fabrics := fs_fabrics fs @ [f]\<rparr>)
               | (Err e, f) \<Rightarrow> (Err e, fs)
               | (Panic, f) \<Rightarrow> (Panic, fs))
         else (Err ResourceExhausted, fs))"

definition Fabrics_add ::
    "Fabric_env \<Rightarrow> bytes \<Rightarrow> bytes \<Rightarrow> bytes \<Rightarrow> bytes \<Rightarrow> bytes option \<Rightarrow> u16 \<Rightarrow> u64 \<Rightarrow> (Fabrics, Fabric) sr" where
  "Fabrics_add env secret_key root_ca noc icac epoch_key vendor_id case_admin_subject =
     Fabrics_add_with_post_init
       (Fabric_update env (Some root_ca) noc icac secret_key epoch_key (Some vendor_id) (Some case_admin_subject))"

definition Fabrics_update :: "Fabric_env \<Rightarrow> u8 \<Rightarrow> bytes \<Rightarrow> bytes \<Rightarrow> bytes \<Rightarrow> (Fabrics, unit) sr" where
  "Fabrics_update env fab_idx secret_key noc icac =
     on_fabric fab_idx (Fabric_update env None noc icac secret_key None None None)"

definition Fabrics_update_label :: "u8 \<Rightarrow> bytes \<Rightarrow> (Fabrics, unit) sr" where
  "Fabrics_update_label fab_idx label = (\<lambda>fs.
     if \<exists>f \<in> set (fs_fabrics fs). fa_fab_idx f \<noteq> fab_idx \<and> fa_label f \<noteq> [] \<and> fa_label f = label
     then (Err Invalid, fs)
     else on_fabric fab_idx (\<lambda>f.
       if length label \<le> 32 then (Ok (), f\<lparr>fa_label := label\<rparr>)
       else (Err ConstraintError, f\<lparr>fa_label := []\<rparr>)) fs)"

definition Fabrics_remove :: "u8 \<Rightarrow> (Fabrics, unit) sr" where
  "Fabrics_remove fab_idx = (\<lambda>fs.
     case Fabrics_fabric fab_idx fs of
       Ok _ \<Rightarrow> (Ok (), fs\<lparr>fs_fabrics := filter (\<lambda>f. fa_fab_idx f \<noteq> fab_idx) (fs_fabrics fs)\<rparr>)
     | Err e \<Rightarrow> (Err e, fs)
     | Panic \<Rightarrow> (Panic, fs))"

definition Fabrics_get_by_dest_id :: "Fabric_env \<Rightarrow> bytes \<Rightarrow> bytes \<Rightarrow> Fabrics \<Rightarrow> Fabric option" where
  "Fabrics_get_by_dest_id env random target fs =
     find (\<lambda>f. Fabric_is_dest_id env random target f = Ok ()) (fs_fabrics fs)"

definition Fabrics_allow :: "AccessReq \<Rightarrow> Fabrics \<Rightarrow> bool" where
  "Fabrics_allow req fs =
     (if ac_auth_mode (ar_accessor req) = Some AuthPase then True
      else case Accessor_fab_idx (ar_accessor req) of
             Ok fab_idx \<Rightarrow>
               (case Fabrics_get fab_idx fs of
                  Some f \<Rightarrow> Fabric_allow req f
                | None \<Rightarrow> False)
           | _ \<Rightarrow> False)"

text \<open>The parts of the accessor that look into the fabrics.\<close>

definition Accessor_is_endpoint_accessible :: "Fabrics \<Rightarrow> u16 \<Rightarrow> Accessor \<Rightarrow> bool" where
  "Accessor_is_endpoint_accessible fs endpoint_id a =
     (if ac_auth_mode a \<noteq> Some AuthGroup then True
      else if ac_fab_idx a = 0 then False
      else case Fabrics_get (ac_fab_idx a) fs of
             None \<Rightarrow> False
           | Some f \<Rightarrow>
               (case Groups_get (ucast (ac_subjects a ! 0)) (fa_groups f) of
                  None \<Rightarrow> False
                | Some e \<Rightarrow> endpoint_id \<in> set (gm_endpoints e)))"

definition Accessor_node_id :: "Fabrics \<Rightarrow> Accessor \<Rightarrow> u64 option" where
  "Accessor_node_id fs a =
     (if ac_fab_idx a = 0 then None else map_option fa_node_id (Fabrics_get (ac_fab_idx a) fs))"

end
