(* ===== verification/Access_Control.thy ===== *)
theory Access_Control
  imports Fabric
begin

section \<open>What access control guarantees\<close>

text \<open>
  Properties of \<open>Acl\<close> and \<open>Fabric\<close>: the privilege levels form a hierarchy, a request is granted by an
  entry of the accessor's own fabric or not at all, CASE authenticated tags match by identifier and
  version, entries from the network are validated, and the table of fabrics keeps its invariant.
\<close>

subsection \<open>Privilege levels\<close>

fun priv_level :: "AccessControlEntryPrivilegeEnum \<Rightarrow> nat" where
  "priv_level ProxyView = 0"
| "priv_level View = 1"
| "priv_level Operate = 2"
| "priv_level Manage = 3"
| "priv_level Administer = 4"

lemmas privilege_defs = Privilege_VIEW_def Privilege_OPERATE_def Privilege_MANAGE_def Privilege_ADMIN_def
  Privilege_PROXYVIEW_def Privilege_V_def Privilege_O_def Privilege_M_def Privilege_A_def Privilege_P_def

lemma bit_privilege:
  "n < 4 \<Longrightarrow> bit (Privilege_from_enum p) n \<longleftrightarrow> n < priv_level p"
proof -
  assume "n < 4"
  then have "n = 0 \<or> n = 1 \<or> n = 2 \<or> n = 3" by auto
  then show ?thesis by (cases p) (auto simp: privilege_defs)
qed

lemma read_mask: "READ_PRIVILEGE_MASK = mask 4"
  unfolding READ_PRIVILEGE_MASK_def NEED_VIEW_def NEED_MANAGE_def NEED_OPERATE_def NEED_ADMIN_def
  by (simp add: mask_eq_exp_minus_1)

lemma write_mask: "WRITE_PRIVILEGE_MASK = push_bit 1 (mask 3)"
  unfolding WRITE_PRIVILEGE_MASK_def NEED_MANAGE_def NEED_OPERATE_def NEED_ADMIN_def
  by (simp add: mask_eq_exp_minus_1)

lemma bit_write_mask: "bit WRITE_PRIVILEGE_MASK n \<longleftrightarrow> 0 < n \<and> n < 4"
  unfolding write_mask by (auto simp only: bit_push_bit_iff bit_mask_iff) simp_all

lemma word_nonzero_bit: "w \<noteq> 0 \<longleftrightarrow> (\<exists>n. bit (w :: 'a::len word) n)"
  by (metis bit_0_eq bot_apply bot_bool_def bit_eqI)

lemma Access_is_ok_bits:
  "Access_is_ok a op p \<longleftrightarrow> access_contains a op \<and>
     (if access_contains op READ then \<exists>n < 4. bit a n \<and> bit p n
      else access_contains op WRITE \<and> (\<exists>n < 4. 0 < n \<and> bit a n \<and> bit p n))"
proof -
  have "bit (ucast p AND (a AND READ_PRIVILEGE_MASK)) n \<longleftrightarrow> n < 4 \<and> bit a n \<and> bit p n" for n
    unfolding read_mask by (auto simp: bit_simps)
  then have r: "ucast p AND (a AND READ_PRIVILEGE_MASK) \<noteq> 0 \<longleftrightarrow> (\<exists>n < 4. bit a n \<and> bit p n)"
    unfolding word_nonzero_bit by auto
  have "bit (ucast p AND (a AND WRITE_PRIVILEGE_MASK)) n \<longleftrightarrow> n < 4 \<and> 0 < n \<and> bit a n \<and> bit p n" for n
    by (auto simp: bit_and_iff bit_ucast_iff bit_write_mask)
  then have w: "ucast p AND (a AND WRITE_PRIVILEGE_MASK) \<noteq> 0 \<longleftrightarrow> (\<exists>n < 4. 0 < n \<and> bit a n \<and> bit p n)"
    unfolding word_nonzero_bit by auto
  show ?thesis
    using r w by (auto simp: Access_is_ok_def Let_def)
qed

text \<open>An entry with one of the five privileges of the specification permits an operation exactly when
  the object supports the operation and demands, for reading, some level the privilege reaches, and
  for writing some level above View it reaches; the privileges are ordered View, Operate, Manage,
  Administer, and ProxyView reaches none.\<close>

theorem privilege_hierarchy:
  "Access_is_ok a op (Privilege_from_enum p) \<longleftrightarrow> access_contains a op \<and>
     (if access_contains op READ then \<exists>n < priv_level p. bit a n
      else access_contains op WRITE \<and> (\<exists>n < priv_level p. 0 < n \<and> bit a n))"
proof -
  have "priv_level p \<le> 4" by (cases p) simp_all
  then show ?thesis unfolding Access_is_ok_bits using bit_privilege by (auto intro: order_less_le_trans)
qed

subsection \<open>CASE authenticated tags\<close>

lemma cat_masks:
  "NOC_CAT_SUBJECT_MASK = push_bit 32 (mask 32)" "NOC_CAT_ID_MASK = push_bit 16 (mask 16)"
  "NOC_CAT_VERSION_MASK = mask 16" "NOC_CAT_ID_MASK OR NOC_CAT_VERSION_MASK = mask 32"
  "NOC_CAT_SUBJECT_PREFIX = push_bit 32 0xFFFFFFFD"
  unfolding NOC_CAT_SUBJECT_MASK_def NOC_CAT_ID_MASK_def NOC_CAT_VERSION_MASK_def NOC_CAT_SUBJECT_PREFIX_def
  by (simp_all add: mask_eq_exp_minus_1)

definition cat_subject :: "u32 \<Rightarrow> u64" where
  "cat_subject c = NOC_CAT_SUBJECT_PREFIX OR ucast c"

lemma bit_cat_prefix: "bit NOC_CAT_SUBJECT_PREFIX n \<Longrightarrow> 32 \<le> n"
  unfolding cat_masks(5) by (simp only: bit_push_bit_iff)

lemma bit_cat_subject:
  "bit (cat_subject c) n \<longleftrightarrow> (if n < 32 then bit c n else bit NOC_CAT_SUBJECT_PREFIX n)"
  by (auto simp: cat_subject_def bit_or_iff bit_ucast_iff dest: bit_imp_le_length bit_cat_prefix)

lemma cat_subject_parts:
  "get_noc_cat_id (cat_subject c) = ucast (drop_bit 16 c)"
  "get_noc_cat_version (cat_subject c) = ucast (take_bit 16 c)"
  "cat_subject c AND NOC_CAT_SUBJECT_MASK = NOC_CAT_SUBJECT_PREFIX"
  "cat_subject c AND (NOC_CAT_ID_MASK OR NOC_CAT_VERSION_MASK) = ucast c"
proof -
  show "get_noc_cat_id (cat_subject c) = ucast (drop_bit 16 c)"
    by (rule bit_word_eqI) (auto simp: get_noc_cat_id_def bit_simps bit_cat_subject cat_masks(2) dest: bit_imp_le_length)
  show "get_noc_cat_version (cat_subject c) = ucast (take_bit 16 c)"
    by (rule bit_word_eqI) (auto simp: get_noc_cat_version_def bit_simps bit_cat_subject cat_masks(3) dest: bit_imp_le_length)
  show "cat_subject c AND NOC_CAT_SUBJECT_MASK = NOC_CAT_SUBJECT_PREFIX"
    by (rule bit_word_eqI)
       (auto simp: bit_and_iff bit_cat_subject cat_masks(1) bit_push_bit_iff bit_mask_iff dest: bit_cat_prefix)
  show "cat_subject c AND (NOC_CAT_ID_MASK OR NOC_CAT_VERSION_MASK) = ucast c"
    unfolding cat_masks(4)
    by (rule bit_word_eqI) (auto simp: bit_simps bit_cat_subject dest: bit_imp_le_length)
qed

lemma is_noc_cat_subject: "is_noc_cat (cat_subject c) \<longleftrightarrow> c \<noteq> 0"
proof -
  have "(ucast c :: u64) = 0 \<longleftrightarrow> c = 0"
    using unat_ucast_up [where 'a = 32 and 'b = 64, of c] by (simp add: unat_eq_zero [symmetric] del: unat_eq_zero)
  then show ?thesis unfolding is_noc_cat_def cat_subject_parts by (simp add: word_gt_0)
qed

lemma node_not_cat: "is_node i \<Longrightarrow> \<not> is_noc_cat i"
proof
  assume "is_node i" "is_noc_cat i"
  then have "NOC_CAT_SUBJECT_PREFIX \<le> i" "i \<le> 0xFFFFFFEFFFFFFFFF"
    using word_and_le2 [of i NOC_CAT_SUBJECT_MASK] by (simp_all add: is_node_def is_noc_cat_def)
  then have "NOC_CAT_SUBJECT_PREFIX \<le> 0xFFFFFFEFFFFFFFFF" by (rule order_trans)
  then show False by (simp add: NOC_CAT_SUBJECT_PREFIX_def)
qed

text \<open>The two halves of a tag.\<close>

definition cat_id :: "u32 \<Rightarrow> u16" where
  "cat_id c = ucast (drop_bit 16 c)"

definition cat_version :: "u32 \<Rightarrow> u16" where
  "cat_version c = ucast c"

lemma gen_noc_cat_parts [simp]: "cat_id (gen_noc_cat i v) = i" "cat_version (gen_noc_cat i v) = v"
  by (rule bit_word_eqI, auto simp: cat_id_def cat_version_def gen_noc_cat_def bit_ucast_iff bit_drop_bit_eq
      bit_or_iff bit_push_bit_iff dest: bit_imp_le_length)+

lemma cat_subject_halves:
  "get_noc_cat_id (cat_subject c) = ucast (cat_id c)" "get_noc_cat_version (cat_subject c) = ucast (cat_version c)"
  unfolding cat_subject_parts
  by (rule bit_word_eqI, auto simp: cat_id_def cat_version_def bit_ucast_iff bit_drop_bit_eq bit_take_bit_iff
      dest: bit_imp_le_length)+

lemma ucast_u16_u64: "(ucast a :: u64) = ucast b \<longleftrightarrow> a = b" "(ucast a :: u64) \<le> ucast b \<longleftrightarrow> a \<le> b" for a b :: u16
  using unat_ucast_up [where 'a = 16 and 'b = 64, of a] unat_ucast_up [where 'a = 16 and 'b = 64, of b]
  by (simp_all add: word_le_nat_alt) (metis unsigned_word_eqI)

lemma cat_subject_nonzero: "cat_subject c \<noteq> 0"
proof
  assume "cat_subject c = 0"
  then have "NOC_CAT_SUBJECT_PREFIX = 0" using cat_subject_parts(3) [of c] by simp
  then show False by (simp add: NOC_CAT_SUBJECT_PREFIX_def)
qed

lemma position_first_zero:
  "0 \<notin> set xs \<Longrightarrow> position (\<lambda>v. v = 0) (xs @ 0 # ys) = Some (length xs)"
  by (induction xs) auto

lemma add_catids_fills:
  "0 \<notin> set xs \<Longrightarrow> length (filter (\<lambda>c. c \<noteq> 0) cs) \<le> k \<Longrightarrow>
   add_catids cs (xs @ replicate k 0) =
     xs @ map cat_subject (filter (\<lambda>c. c \<noteq> 0) cs) @ replicate (k - length (filter (\<lambda>c. c \<noteq> 0) cs)) 0"
proof (induction cs arbitrary: xs k)
  case (Cons c cs)
  show ?case
  proof (cases "c = 0")
    case False
    then obtain k' where k: "k = Suc k'" using Cons.prems(2) by (cases k) auto
    have step: "snd (AccessorSubjects_add_catid c (xs @ replicate k 0)) = (xs @ [cat_subject c]) @ replicate k' 0"
      using position_first_zero [OF Cons.prems(1)]
      by (simp add: AccessorSubjects_add_catid_def k cat_subject_def)
    have "0 \<notin> set (xs @ [cat_subject c])" using Cons.prems(1) cat_subject_nonzero [of c] by auto
    from Cons.IH [OF this, of k'] Cons.prems(2) False step show ?thesis by (simp add: k)
  qed (use Cons in simp)
qed simp

lemma case_subjects:
  assumes "se_mode s = Case f cats" and "se_peer_nodeid s = Some n" and "n \<noteq> 0" and "length cats = 3"
  shows "v \<in> set (ac_subjects (Accessor_for_session s)) \<and> v \<noteq> 0 \<longleftrightarrow>
    v = n \<or> (\<exists>c \<in> set cats. c \<noteq> 0 \<and> v = cat_subject c)"
proof -
  have "length (filter (\<lambda>c. c \<noteq> 0) cats) \<le> 3" using length_filter_le [of _ cats] assms(4) by auto
  from add_catids_fills [of "[n]" cats 3, OF _ this] assms(3) show ?thesis
    by (auto simp: Accessor_for_session_def Accessor_new_def AccessorSubjects_new_def assms(1,2)
        MAX_ACCESSOR_SUBJECTS_def MAX_CAT_IDS_PER_NOC_def cat_subject_nonzero numeral_eq_Suc)
qed

text \<open>The accessor of a CASE session matches a tag subject exactly when one of the tags in the peer's
  certificate has the same identifier and at least the same version, and matches a node subject
  exactly when it is the peer's node id.\<close>

theorem case_subject_matching:
  assumes "se_mode s = Case f cats" and "se_peer_nodeid s = Some n" and "is_node n" and "length cats = 3"
  shows "(gen_noc_cat i v \<noteq> 0 \<longrightarrow>
      AccessorSubjects_matches (ac_subjects (Accessor_for_session s)) (NOC_CAT_SUBJECT_PREFIX OR ucast (gen_noc_cat i v)) =
        (\<exists>c \<in> set cats. c \<noteq> 0 \<and> cat_id c = i \<and> v \<le> cat_version c)) \<and>
    (is_node m \<longrightarrow> AccessorSubjects_matches (ac_subjects (Accessor_for_session s)) m = (m = n))"
proof -
  have n0: "n \<noteq> 0" using assms(3) by (auto simp: is_node_def)
  have nc: "\<not> is_noc_cat n" by (rule node_not_cat [OF assms(3)])
  have m: "AccessorSubjects_matches (ac_subjects (Accessor_for_session s)) x \<longleftrightarrow>
      n = x \<or> (\<exists>c \<in> set cats. c \<noteq> 0 \<and> (cat_subject c = x \<or> is_noc_cat x \<and>
        get_noc_cat_id (cat_subject c) = get_noc_cat_id x \<and> get_noc_cat_version x \<le> get_noc_cat_version (cat_subject c)))" for x
  proof -
    let ?A = "ac_subjects (Accessor_for_session s)"
    let ?hit = "\<lambda>v. v = x \<or> is_noc_cat v \<and> is_noc_cat x \<and> get_noc_cat_id v = get_noc_cat_id x \<and>
        get_noc_cat_version x \<le> get_noc_cat_version v"
    have "AccessorSubjects_matches ?A x \<longleftrightarrow> (\<exists>v. (v \<in> set ?A \<and> v \<noteq> 0) \<and> ?hit v)"
      unfolding AccessorSubjects_matches_def by blast
    also have "\<dots> \<longleftrightarrow> ?hit n \<or> (\<exists>c \<in> set cats. c \<noteq> 0 \<and> ?hit (cat_subject c))"
      unfolding case_subjects [OF assms(1,2) n0 assms(4)] by blast
    finally show ?thesis using nc by (simp add: is_noc_cat_subject) blast
  qed
  have eq_halves: "cat_id c = i \<and> v = cat_version c" if "cat_subject c = cat_subject (gen_noc_cat i v)" for c
    using arg_cong [OF that, of get_noc_cat_id] arg_cong [OF that, of get_noc_cat_version]
    by (simp add: cat_subject_halves ucast_u16_u64)
  have tag: "gen_noc_cat i v \<noteq> 0 \<Longrightarrow>
      AccessorSubjects_matches (ac_subjects (Accessor_for_session s)) (cat_subject (gen_noc_cat i v)) =
        (\<exists>c \<in> set cats. c \<noteq> 0 \<and> cat_id c = i \<and> v \<le> cat_version c)"
    using nc is_noc_cat_subject [of "gen_noc_cat i v"] eq_halves unfolding m
    by (auto simp: cat_subject_halves ucast_u16_u64)
  have node: "is_node x \<Longrightarrow> AccessorSubjects_matches (ac_subjects (Accessor_for_session s)) x = (x = n)" for x
    unfolding m using node_not_cat [of x] is_noc_cat_subject by auto
  show ?thesis using tag node by (simp add: cat_subject_def)
qed

definition case_session :: Session where
  "case_session = (Session_new 1 0 False Address_new (Some 0x1234) 0)\<lparr>se_mode := Case 1 [gen_noc_cat 0xABCD 3, 0, 0]\<rparr>"

theorem case_subject_matching_witness:
  "AccessorSubjects_matches (ac_subjects (Accessor_for_session case_session))
     (NOC_CAT_SUBJECT_PREFIX OR ucast (gen_noc_cat 0xABCD 2)) \<and>
   \<not> AccessorSubjects_matches (ac_subjects (Accessor_for_session case_session)) 0x1235"
proof -
  have m: "se_mode case_session = Case 1 [gen_noc_cat 0xABCD 3, 0, 0]" "se_peer_nodeid case_session = Some 0x1234"
    by (simp_all add: case_session_def Session_new_def)
  have n: "is_node 0x1234" "is_node 0x1235" by (simp_all add: is_node_def)
  have "gen_noc_cat 0xABCD 2 \<noteq> 0" "gen_noc_cat 0xABCD 3 \<noteq> 0" by (simp_all add: gen_noc_cat_def)
  then show ?thesis using case_subject_matching [OF m n(1), of "0xABCD" 2 "0x1235"] n(2) by simp
qed

subsection \<open>The table of fabrics\<close>

definition Fabric_inv :: "Fabric \<Rightarrow> bool" where
  "Fabric_inv f \<longleftrightarrow> fa_fab_idx f \<noteq> 0 \<and> fa_fab_idx f \<noteq> 255 \<and> length (fa_acl f) \<le> MAX_ACL_ENTRIES_PER_FABRIC \<and>
     (\<forall>e \<in> set (fa_acl f). ae_fab_idx e = Some (fa_fab_idx f))"

definition labels_unique :: "Fabric list \<Rightarrow> bool" where
  "labels_unique fs \<longleftrightarrow> (\<forall>f \<in> set fs. \<forall>g \<in> set fs. fa_label f = fa_label g \<and> fa_label f \<noteq> [] \<longrightarrow> fa_fab_idx f = fa_fab_idx g)"

definition Fabrics_inv :: "Fabrics \<Rightarrow> bool" where
  "Fabrics_inv fs \<longleftrightarrow> length (fs_fabrics fs) \<le> MAX_FABRICS \<and> distinct (map fa_fab_idx (fs_fabrics fs)) \<and>
     (\<forall>f \<in> set (fs_fabrics fs). Fabric_inv f) \<and> labels_unique (fs_fabrics fs)"

lemma labels_uniqueD:
  "labels_unique fs \<Longrightarrow> f \<in> set fs \<Longrightarrow> g \<in> set fs \<Longrightarrow> fa_label f = fa_label g \<Longrightarrow> fa_label f \<noteq> [] \<Longrightarrow>
   fa_fab_idx f = fa_fab_idx g"
  unfolding labels_unique_def by blast

lemma labels_uniqueI:
  "(\<And>f g. f \<in> set fs \<Longrightarrow> g \<in> set fs \<Longrightarrow> fa_label f = fa_label g \<Longrightarrow> fa_label f \<noteq> [] \<Longrightarrow> fa_fab_idx f = fa_fab_idx g) \<Longrightarrow>
   labels_unique fs"
  unfolding labels_unique_def by blast

text \<open>The operations on one fabric of the table, and on the table.\<close>

inductive fabric_op :: "Fabric \<Rightarrow> Fabric \<Rightarrow> bool" where
  op_acl_add: "fabric_op f (snd (Fabric_acl_add e f))"
| op_acl_add_init: "fabric_op f (snd (Fabric_acl_add_init r f))"
| op_acl_update: "fabric_op f (snd (Fabric_acl_update i e f))"
| op_acl_update_init: "fabric_op f (snd (Fabric_acl_update_init i r f))"
| op_acl_remove: "fabric_op f (snd (Fabric_acl_remove i f))"
| op_acl_remove_all: "fabric_op f (Fabric_acl_remove_all f)"
| op_update: "fabric_op f (snd (Fabric_update env ca noc icac sk ek vid subj f))"
| op_vid: "fabric_op f (snd (Fabric_set_vid_verification vid vvs vvsc f))"
| op_groups: "fabric_op f (f\<lparr>fa_groups := g\<rparr>)"

inductive fabrics_step :: "Fabrics \<Rightarrow> Fabrics \<Rightarrow> bool" where
  step_fabric: "i < length (fs_fabrics fs) \<Longrightarrow> fabric_op (fs_fabrics fs ! i) f \<Longrightarrow>
     fabrics_step fs (fs\<lparr>fs_fabrics := (fs_fabrics fs)[i := f]\<rparr>)"
| step_add_fabric: "fabrics_step fs (snd (Fabrics_add env sk ca noc icac ek vid subj fs))"
| step_label: "fabrics_step fs (snd (Fabrics_update_label i l fs))"
| step_remove_fabric: "fabrics_step fs (snd (Fabrics_remove i fs))"
| step_reset_fabrics: "fabrics_step fs (Fabrics_reset fs)"

abbreviation fabrics_reachable :: "Fabrics \<Rightarrow> bool" where
  "fabrics_reachable \<equiv> fabrics_step\<^sup>*\<^sup>* Fabrics_new"

text \<open>
  What no operation on a fabric changes (index and label), and that the access control list stays
  bounded and owned; the steps of \<^verbatim>\<open>Fabric::update\<close> compose.
\<close>

definition keeps :: "(Fabric, 'a) sr \<Rightarrow> bool" where
  "keeps m \<longleftrightarrow> (\<forall>f. fa_fab_idx (snd (m f)) = fa_fab_idx f \<and> fa_label (snd (m f)) = fa_label f \<and>
     (Fabric_inv f \<longrightarrow> Fabric_inv (snd (m f))))"

lemma keeps_bind [wf_intros]: "keeps m \<Longrightarrow> (\<And>x. keeps (k x)) \<Longrightarrow> keeps (sr_bind m k)"
  unfolding keeps_def sr_bind_def by (auto split: prod.splits res.splits) (metis snd_conv)+

lemma keeps_basic [wf_intros]:
  "keeps (sr_res r)" "keeps sr_get"
  "(\<And>f. fa_fab_idx (g f) = fa_fab_idx f \<and> fa_label (g f) = fa_label f \<and> fa_acl (g f) = fa_acl f) \<Longrightarrow> keeps (sr_modify g)"
  by (auto simp: keeps_def Fabric_inv_def sr_simps)

lemma keeps_steps [wf_intros]:
  "keeps (set_root_ca ca)" "keeps (set_icac icac)" "keeps (set_noc noc)" "keeps (set_ipk env ek)"
  "keeps (set_vvsc vvsc)"
  unfolding keeps_def set_root_ca_def set_icac_def set_noc_def set_ipk_def set_vvsc_def Fabric_inv_def
  by (auto split: option.splits prod.splits)

lemma AclEntry_add_subject_fab_idx: "ae_fab_idx (snd (AclEntry_add_subject x e)) = ae_fab_idx e"
  by (simp add: AclEntry_add_subject_def Let_def)

lemma keeps_admin [wf_intros]: "keeps (set_admin subj)"
  unfolding keeps_def set_admin_def Fabric_inv_def
  by (auto split: option.splits prod.splits res.splits simp: AclEntry_add_subject_def AclEntry_new_def
      MAX_ACL_ENTRIES_PER_FABRIC_def Let_def)

lemma keeps_set_ids [wf_intros]: "keeps (set_ids env noc)"
  unfolding set_ids_def by (intro wf_intros) simp_all

lemma keeps_update: "keeps (Fabric_update env ca noc icac sk ek vid subj)"
  unfolding Fabric_update_def by (intro wf_intros) (simp_all split: option.splits)

lemma keeps_vid: "keeps (Fabric_set_vid_verification vid vvs vvsc)"
  unfolding Fabric_set_vid_verification_def
  by (intro wf_intros) (auto simp: keeps_def Fabric_inv_def split: option.splits)

lemma fabric_op_keeps:
  "fabric_op f f' \<Longrightarrow> fa_fab_idx f' = fa_fab_idx f \<and> fa_label f' = fa_label f \<and> (Fabric_inv f \<longrightarrow> Fabric_inv f')"
proof (induction rule: fabric_op.induct)
  case (op_acl_remove f i)
  then show ?case
    by (auto simp: Fabric_acl_remove_def Fabric_inv_def dest: in_set_takeD in_set_dropD)
next
  case (op_acl_update f i e)
  then show ?case
    by (auto simp: Fabric_acl_update_def Fabric_inv_def dest!: set_update_subset_insert [THEN subsetD])
next
  case (op_acl_update_init f i r)
  then show ?case
    by (auto simp: Fabric_acl_update_init_def Fabric_inv_def split: res.splits
        dest!: set_update_subset_insert [THEN subsetD])
next
  case (op_update f env ca noc icac sk ek vid subj)
  then show ?case using keeps_update by (auto simp: keeps_def)
next
  case (op_vid f vid vvs vvsc)
  then show ?case using keeps_vid by (auto simp: keeps_def)
qed (auto simp: Fabric_acl_add_def Fabric_acl_add_init_def Fabric_acl_remove_all_def Fabric_inv_def split: res.splits)

lemma fold_max_ge: "a \<le> fold max xs a \<and> (\<forall>x \<in> set xs. x \<le> fold max xs (a :: u8))"
proof (induction xs arbitrary: a)
  case (Cons y ys)
  from Cons.IH [of "max y a"] show ?case by auto
qed simp

lemma fab_idx_free:
  assumes "length fs \<le> 5"
  shows "\<exists>i \<in> set (map of_nat [1..<255]). \<forall>f \<in> set fs. fa_fab_idx f \<noteq> (i :: u8)"
proof (rule ccontr)
  assume "\<not> ?thesis"
  then have "set (map of_nat [1..<255]) \<subseteq> fa_fab_idx ` set fs" by force
  then have "card (set (map (of_nat :: nat \<Rightarrow> u8) [1..<255])) \<le> length fs"
    by (meson List.finite_set card_image_le card_length card_mono finite_imageI order_trans)
  moreover have "inj_on (of_nat :: nat \<Rightarrow> u8) (set [1..<255])"
  proof (rule inj_onI)
    fix a b :: nat assume "a \<in> set [1..<255]" "b \<in> set [1..<255]" "(of_nat a :: u8) = of_nat b"
    then have "unat (of_nat a :: u8) = unat (of_nat b :: u8)" "a < 255" "b < 255" by simp_all
    then show "a = b" by (simp add: unat_of_nat)
  qed
  then have "card (set (map (of_nat :: nat \<Rightarrow> u8) [1..<255])) = 254"
    by (simp only: set_map card_image) simp
  ultimately show False using assms by simp
qed

lemma next_fab_idx_fresh:
  assumes "length (fs_fabrics fs) \<le> MAX_FABRICS"
  obtains i where "next_fab_idx fs = Some i" "i \<noteq> 0" "i \<noteq> 255" "\<forall>f \<in> set (fs_fabrics fs). fa_fab_idx f \<noteq> i"
proof (cases "fold max (map fa_fab_idx (fs_fabrics fs)) 0 < 254")
  case True
  let ?m = "fold max (map fa_fab_idx (fs_fabrics fs)) 0"
  have u: "unat (?m + 1) = unat ?m + 1" "unat ?m < 254"
    using True by (simp_all add: word_less_nat_alt unat_word_ariths)
  have "?m + 1 \<noteq> 0" "?m + 1 \<noteq> 255"
    using u by (metis Suc_eq_plus1 nat.distinct(1) unat_0, auto dest: arg_cong [of _ _ unat])
  moreover have "\<forall>f \<in> set (fs_fabrics fs). fa_fab_idx f \<noteq> ?m + 1"
  proof
    fix f assume "f \<in> set (fs_fabrics fs)"
    then have "fa_fab_idx f \<le> ?m" using fold_max_ge [of 0 "map fa_fab_idx (fs_fabrics fs)"] by simp
    then have "unat (fa_fab_idx f) \<le> unat ?m" by (simp add: word_le_nat_alt)
    then show "fa_fab_idx f \<noteq> ?m + 1" using u by auto
  qed
  ultimately show ?thesis using that [of "?m + 1"] True by (simp add: next_fab_idx_def)
next
  case False
  let ?P = "\<lambda>i. \<forall>f \<in> set (fs_fabrics fs). fa_fab_idx f \<noteq> i"
  obtain i where i: "find ?P (map of_nat [1..<255]) = Some i"
    using fab_idx_free [of "fs_fabrics fs"] assms
    by (cases "find ?P (map of_nat [1..<255])") (auto simp: find_None_iff MAX_FABRICS_def)
  from find_SomeD [OF this] obtain n where n: "1 \<le> n" "n < 255" "i = of_nat n" "?P i" by auto
  then have "unat i = n" by (simp add: unat_of_nat)
  then have "i \<noteq> 0" "i \<noteq> 255" using n by auto
  then show ?thesis using that [of i] i n(4) False by (simp add: next_fab_idx_def)
qed

lemma distinct_map_update:
  "i < length xs \<Longrightarrow> g x = g (xs ! i) \<Longrightarrow> map g (xs[i := x]) = map g xs"
  by (simp add: map_update list_update_same_conv)

lemma step_fabric_inv:
  assumes inv: "Fabrics_inv fs" and i: "i < length (fs_fabrics fs)" and op: "fabric_op (fs_fabrics fs ! i) f"
  shows "Fabrics_inv (fs\<lparr>fs_fabrics := (fs_fabrics fs)[i := f]\<rparr>)"
proof -
  let ?xs = "fs_fabrics fs" and ?ys = "(fs_fabrics fs)[i := f]"
  have k: "fa_fab_idx f = fa_fab_idx (?xs ! i)" "fa_label f = fa_label (?xs ! i)" "Fabric_inv f"
    using fabric_op_keeps [OF op] inv i by (auto simp: Fabrics_inv_def)
  have m: "map fa_fab_idx ?ys = map fa_fab_idx ?xs" using i k(1) by (rule distinct_map_update)
  have lab: "\<exists>h' \<in> set ?xs. fa_label h' = fa_label h \<and> fa_fab_idx h' = fa_fab_idx h" if h: "h \<in> set ?ys" for h
    using set_update_subset_insert [THEN subsetD, OF h] k nth_mem [OF i] by auto
  have "labels_unique ?ys"
  proof (rule labels_uniqueI)
    fix g h assume gh: "g \<in> set ?ys" "h \<in> set ?ys" and l: "fa_label g = fa_label h" "fa_label g \<noteq> []"
    obtain g' h' where "g' \<in> set ?xs" "h' \<in> set ?xs" "fa_label g' = fa_label g" "fa_label h' = fa_label h"
      "fa_fab_idx g' = fa_fab_idx g" "fa_fab_idx h' = fa_fab_idx h" using lab [OF gh(1)] lab [OF gh(2)] by blast
    moreover have "labels_unique ?xs" using inv by (simp add: Fabrics_inv_def)
    ultimately show "fa_fab_idx g = fa_fab_idx h" using l labels_uniqueD [of ?xs g' h'] by simp
  qed
  moreover have "\<forall>h \<in> set ?ys. Fabric_inv h"
    using inv k(3) by (auto simp: Fabrics_inv_def dest!: set_update_subset_insert [THEN subsetD])
  ultimately show ?thesis using inv m by (simp add: Fabrics_inv_def)
qed

lemma add_fabric_inv:
  assumes inv: "Fabrics_inv fs"
  shows "Fabrics_inv (snd (Fabrics_add env sk ca noc icac ek vid subj fs))"
proof -
  let ?post = "Fabric_update env (Some ca) noc icac sk ek (Some vid) (Some subj)"
  from inv have "length (fs_fabrics fs) \<le> MAX_FABRICS" by (simp add: Fabrics_inv_def)
  then obtain i where i: "next_fab_idx fs = Some i" "i \<noteq> 0" "i \<noteq> 255" "\<forall>f \<in> set (fs_fabrics fs). fa_fab_idx f \<noteq> i"
    by (rule next_fab_idx_fresh)
  obtain r f where f: "?post (Fabric_init i) = (r, f)" by fastforce
  have "Fabric_inv (Fabric_init i)" using i by (simp add: Fabric_inv_def Fabric_init_def)
  then have "fa_fab_idx f = i" "fa_label f = []" "Fabric_inv f"
    using keeps_update [of env "Some ca" noc icac sk ek "Some vid" "Some subj"] f
    by (auto simp: keeps_def Fabric_init_def dest!: spec [of _ "Fabric_init i"])
  moreover from this inv have "labels_unique (fs_fabrics fs @ [f])"
    by (intro labels_uniqueI) (auto simp: Fabrics_inv_def dest: labels_uniqueD)
  ultimately have "length (fs_fabrics fs) < MAX_FABRICS \<Longrightarrow> Fabrics_inv (fs\<lparr>fs_fabrics := fs_fabrics fs @ [f]\<rparr>)"
    using inv i(4) by (auto simp: Fabrics_inv_def)
  then show ?thesis
    using inv i f by (auto simp: Fabrics_add_def Fabrics_add_with_post_init_def split: res.splits)
qed

lemma on_fabric_list:
  assumes "position (\<lambda>f. fa_fab_idx f = j) (fs_fabrics fs) = Some i"
  shows "snd (on_fabric j m fs) = fs\<lparr>fs_fabrics := (fs_fabrics fs)[i := snd (m (fs_fabrics fs ! i))]\<rparr>"
  using assms by (simp add: on_fabric_def split: prod.splits)

lemma update_label_inv:
  assumes inv: "Fabrics_inv fs"
  shows "Fabrics_inv (snd (Fabrics_update_label j l fs))"
proof (cases "\<exists>f \<in> set (fs_fabrics fs). fa_fab_idx f \<noteq> j \<and> fa_label f \<noteq> [] \<and> fa_label f = l")
  case False
  let ?m = "\<lambda>f. if length l \<le> 32 then (Ok (), f\<lparr>fa_label := l\<rparr>) else (Err ConstraintError, f\<lparr>fa_label := []\<rparr>)"
  let ?xs = "fs_fabrics fs"
  show ?thesis
  proof (cases "position (\<lambda>f. fa_fab_idx f = j) ?xs")
    case None
    with inv False show ?thesis by (auto simp: Fabrics_update_label_def on_fabric_def)
  next
    case (Some i)
    then have i: "i < length ?xs" "fa_fab_idx (?xs ! i) = j" using position_SomeD [OF Some] by simp_all
    let ?f = "snd (?m (?xs ! i))"
    have f: "fa_fab_idx ?f = j" "fa_label ?f \<in> {l, []}" "Fabric_inv ?f"
      using i inv by (auto simp: Fabrics_inv_def Fabric_inv_def)
    have "map fa_fab_idx (?xs[i := ?f]) = map fa_fab_idx ?xs" by (rule distinct_map_update) (use i f in simp_all)
    moreover have "labels_unique (?xs[i := ?f])"
    proof (rule labels_uniqueI)
      fix g h assume "g \<in> set (?xs[i := ?f])" "h \<in> set (?xs[i := ?f])" and l: "fa_label g = fa_label h" "fa_label g \<noteq> []"
      then have "g = ?f \<or> g \<in> set ?xs" "h = ?f \<or> h \<in> set ?xs" by (auto dest!: set_update_subset_insert [THEN subsetD])
      moreover have "labels_unique ?xs" using inv by (simp add: Fabrics_inv_def)
      moreover have "x \<in> set ?xs \<Longrightarrow> fa_label x = fa_label ?f \<Longrightarrow> fa_label x \<noteq> [] \<Longrightarrow> fa_fab_idx x = fa_fab_idx ?f" for x
        using False f(1,2) by fastforce
      ultimately show "fa_fab_idx g = fa_fab_idx h" using l by (metis labels_uniqueD)
    qed
    moreover have "\<forall>h \<in> set (?xs[i := ?f]). Fabric_inv h"
      using inv f(3) by (auto simp: Fabrics_inv_def dest!: set_update_subset_insert [THEN subsetD])
    ultimately have "Fabrics_inv (fs\<lparr>fs_fabrics := ?xs[i := ?f]\<rparr>)" using inv by (simp add: Fabrics_inv_def)
    then show ?thesis using False by (simp only: Fabrics_update_label_def on_fabric_list [OF Some] if_False)
  qed
qed (use inv in \<open>simp add: Fabrics_update_label_def\<close>)

lemma reset_fabrics_inv: "Fabrics_inv (Fabrics_reset fs)"
  by (simp add: Fabrics_reset_def Fabrics_inv_def labels_unique_def)

lemma fabrics_step_inv: "fabrics_step fs fs' \<Longrightarrow> Fabrics_inv fs \<Longrightarrow> Fabrics_inv fs'"
proof (induction rule: fabrics_step.induct)
  case (step_remove_fabric fs i)
  then show ?case
    by (auto simp: Fabrics_remove_def Fabrics_fabric_def Fabrics_inv_def distinct_map_filter
        intro: le_trans [OF length_filter_le] intro!: labels_uniqueI dest: labels_uniqueD split: option.splits)
qed (blast intro: step_fabric_inv add_fabric_inv update_label_inv reset_fabrics_inv)+

lemma fabrics_reachable_inv: "fabrics_reachable fs \<Longrightarrow> Fabrics_inv fs"
proof (induction rule: rtranclp_induct)
  case base
  then show ?case by (simp add: Fabrics_new_def Fabrics_inv_def labels_unique_def)
qed (rule fabrics_step_inv)

subsection \<open>Properties\<close>

definition fab_env :: Fabric_env where
  "fab_env = \<lparr>fe_get_node_id = (\<lambda>_. Ok 0x1234), fe_get_fabric_id = (\<lambda>_. Ok 1), fe_pubkey = (\<lambda>_. Ok (replicate 65 4)),
     fe_kdf = Ok (), fe_expand = (\<lambda>_ _ _ n. Ok (replicate n 7)), fe_hmac = (\<lambda>_. Ok ()), fe_mac = (\<lambda>_ m. Ok m)\<rparr>"

definition one_fabric :: Fabrics where
  "one_fabric = snd (Fabrics_add fab_env [1] [2] [3] [] None 0xFFF1 112233 Fabrics_new)"

lemma one_fabric_reachable: "fabrics_reachable one_fabric"
  unfolding one_fabric_def by (intro r_into_rtranclp step_add_fabric)

lemmas add_fabric_defs =
  Fabrics_add_def Fabrics_add_with_post_init_def next_fab_idx_def Fabrics_new_def
  MAX_FABRICS_def Fabric_update_def set_root_ca_def set_icac_def set_noc_def set_ids_def set_ipk_def set_admin_def
  refill_def MAX_CERT_TLV_LEN_def sr_bind_def fab_env_def canon_public_key_def
  PKC_CANON_PUBLIC_KEY_LEN_def Fabric_compute_compressed_fabric_id_def COMPRESSED_FABRIC_ID_LEN_def
  AclEntry_add_subject_def AclEntry_new_def MAX_SUBJECTS_PER_ACL_ENTRY_def MAX_ACL_ENTRIES_PER_FABRIC_def
  Fabric_init_def

lemma one_fabric_value:
  "fs_fabrics one_fabric = [(Fabric_init 1)\<lparr>fa_node_id := 0x1234, fa_fabric_id := 1, fa_vendor_id := 0xFFF1,
     fa_compressed_fabric_id := from_be_bytes_u64 (replicate 8 7), fa_secret_key := [1], fa_root_ca := [2], fa_noc := [3],
     fa_acl := [(AclEntry_new (Some 1) Privilege_ADMIN AuthCase)\<lparr>ae_subjects := Some [112233]\<rparr>]\<rparr>]"
  by (simp add: one_fabric_def add_fabric_defs sr_simps)



text \<open>What the specification grants: an entry of the accessor's own fabric, with the accessor's authentication
  mode, one of whose subjects matches the accessor (or that names none), one of whose targets covers the
  object (or that names none), and whose privilege suffices for the operation on that object.\<close>

definition entry_grants :: "AccessReq \<Rightarrow> AclEntry \<Rightarrow> bool" where
  "entry_grants req e \<longleftrightarrow>
     ac_auth_mode (ar_accessor req) = Some (ae_auth_mode e) \<and>
     (ae_subjects e \<in> {None, Some []} \<or>
        (\<exists>s \<in> set (the (ae_subjects e)). AccessorSubjects_matches (ac_subjects (ar_accessor req)) s)) \<and>
     (ae_targets e \<in> {None, Some []} \<or> (\<exists>t \<in> set (the (ae_targets e)). Target_match (ar_object req) t)) \<and>
     (\<exists>a. ad_target_perms (ar_object req) = Some a \<and> Access_is_ok a (ad_operation (ar_object req)) (ae_privilege e))"

lemma AclEntry_allow_grants:
  "AclEntry_allow e req \<longleftrightarrow> entry_grants req e \<and> ae_fab_idx e = Some (ac_fab_idx (ar_accessor req))"
  by (auto simp: AclEntry_allow_def entry_grants_def AclEntry_match_accessor_def AclEntry_match_access_desc_def Let_def
      split: option.splits)

lemma Fabrics_get_unique:
  assumes "Fabrics_inv fs" and "f \<in> set (fs_fabrics fs)"
  shows "Fabrics_get (fa_fab_idx f) fs = Some f"
proof (cases "Fabrics_get (fa_fab_idx f) fs")
  case None
  then show ?thesis using assms(2) by (auto simp: Fabrics_get_def find_None_iff)
next
  case (Some g)
  then have "g \<in> set (fs_fabrics fs)" "fa_fab_idx g = fa_fab_idx f"
    using find_SomeD by (fastforce simp: Fabrics_get_def)+
  then have "g = f" using assms by (auto simp: Fabrics_inv_def distinct_map dest: inj_onD)
  with Some show ?thesis by simp
qed

lemma Fabrics_get_SomeD: "Fabrics_get i fs = Some f \<Longrightarrow> f \<in> set (fs_fabrics fs) \<and> fa_fab_idx f = i"
  unfolding Fabrics_get_def by (rule find_SomeD)

lemma allow_iff_entry:
  assumes inv: "Fabrics_inv fs"
  shows "Fabrics_allow req fs \<longleftrightarrow> ac_auth_mode (ar_accessor req) = Some AuthPase \<or>
    (\<exists>f \<in> set (fs_fabrics fs). fa_fab_idx f = ac_fab_idx (ar_accessor req) \<and> (\<exists>e \<in> set (fa_acl f). entry_grants req e))"
proof -
  have own: "f \<in> set (fs_fabrics fs) \<Longrightarrow> e \<in> set (fa_acl f) \<Longrightarrow> ae_fab_idx e = Some (fa_fab_idx f) \<and> fa_fab_idx f \<noteq> 0" for f e
    using inv by (auto simp: Fabrics_inv_def Fabric_inv_def)
  let ?i = "ac_fab_idx (ar_accessor req)"
  have "(\<exists>f. ?i \<noteq> 0 \<and> Fabrics_get ?i fs = Some f \<and> Fabric_allow req f) \<longleftrightarrow>
      (\<exists>f \<in> set (fs_fabrics fs). fa_fab_idx f = ?i \<and> (\<exists>e \<in> set (fa_acl f). entry_grants req e))"
    unfolding Fabric_allow_def AclEntry_allow_grants
    using own Fabrics_get_unique [OF inv] Fabrics_get_SomeD [of ?i fs] by metis
  moreover have "Fabrics_allow req fs \<longleftrightarrow> ac_auth_mode (ar_accessor req) = Some AuthPase \<or>
      (\<exists>f. ?i \<noteq> 0 \<and> Fabrics_get ?i fs = Some f \<and> Fabric_allow req f)"
    by (auto simp: Fabrics_allow_def Accessor_fab_idx_def split: option.splits)
  ultimately show ?thesis by simp
qed


definition admin_request :: AccessReq where
  "admin_request = AccessReq_set_target_perms Access_RWVA
     (AccessReq_new (Accessor_new 1 (AccessorSubjects_new 112233) (Some AuthCase)) (GenericPath_new (Some 0) (Some 31) (Some 0)) WRITE)"


lemma find_update_other:
  "i < length xs \<Longrightarrow> \<not> P (xs ! i) \<Longrightarrow> \<not> P x \<Longrightarrow> find P (xs[i := x]) = find P xs"
  by (induction xs arbitrary: i) (auto split: nat.splits)

lemma find_filter_other: "(\<And>x. P x \<Longrightarrow> Q x) \<Longrightarrow> find P (filter Q xs) = find P xs"
  by (induction xs) auto

lemma Fabrics_allow_cong:
  "Fabrics_get (ac_fab_idx (ar_accessor req)) fs = Fabrics_get (ac_fab_idx (ar_accessor req)) fs' \<Longrightarrow>
   Fabrics_allow req fs = Fabrics_allow req fs'"
  by (simp add: Fabrics_allow_def Accessor_fab_idx_def)



lemma sr_then_ok_snd: "sr_then m k s = (Ok x, s') \<Longrightarrow> \<exists>y t. m s = (Ok y, t) \<and> k t = (Ok x, s')"
  by (auto simp: sr_bind_ok_iff)

lemma Fabric_update_admin:
  assumes "Fabric_update env ca noc icac sk ek vid (Some subj) f0 = (Ok (), f)"
  shows "fa_acl f = [(AclEntry_new (Some (fa_fab_idx f0)) Privilege_ADMIN AuthCase)\<lparr>ae_subjects := Some [subj]\<rparr>] \<and>
    fa_fab_idx f = fa_fab_idx f0"
proof -
  let ?before = "sr_then (set_root_ca ca) (sr_then (set_icac icac) (sr_then (set_noc noc) (sr_then (set_ids env noc)
     (sr_then (set_ipk env ek) (sr_modify (\<lambda>f. case vid of Some v \<Rightarrow> f\<lparr>fa_vendor_id := v\<rparr> | None \<Rightarrow> f))))))"
  have "keeps ?before" by (intro wf_intros) (simp_all split: option.splits)
  moreover have split: "Fabric_update env ca noc icac sk ek vid (Some subj) =
      sr_then ?before (sr_then (set_admin (Some subj)) (sr_modify (\<lambda>f. f\<lparr>fa_secret_key := sk\<rparr>)))"
    by (simp add: Fabric_update_def sr_bind_assoc)
  from assms [unfolded split] obtain y f1 where
    "?before f0 = (Ok y, f1)" "sr_then (set_admin (Some subj)) (sr_modify (\<lambda>f. f\<lparr>fa_secret_key := sk\<rparr>)) f1 = (Ok (), f)"
    by (blast dest: sr_then_ok_snd)
  ultimately have "fa_fab_idx f1 = fa_fab_idx f0"
    "sr_then (set_admin (Some subj)) (sr_modify (\<lambda>f. f\<lparr>fa_secret_key := sk\<rparr>)) f1 = (Ok (), f)"
    by (auto simp: keeps_def dest!: spec [of _ f0])
  then show ?thesis
    by (auto simp: set_admin_def AclEntry_add_subject_def AclEntry_new_def MAX_SUBJECTS_PER_ACL_ENTRY_def
        MAX_ACL_ENTRIES_PER_FABRIC_def sr_bind_def sr_simps)
qed

text \<open>Adding a fabric that succeeds gives it exactly one access control entry, which lets the given
  administrator do over CASE whatever an object supports, and nobody else anything; the fabrics before it
  are untouched.\<close>

theorem new_fabric_admin:
  assumes "fabrics_reachable fs" and "Fabrics_add env sk ca noc icac ek vid subj fs = (Ok f, fs')"
    and "ac_auth_mode (ar_accessor req) \<noteq> Some AuthPase" and "ac_fab_idx (ar_accessor req) = fa_fab_idx f"
    and "ad_target_perms (ar_object req) = Some a"
  shows "fs_fabrics fs' = fs_fabrics fs @ [f] \<and>
    (Fabrics_allow req fs' \<longleftrightarrow>
       ac_auth_mode (ar_accessor req) = Some AuthCase \<and>
       AccessorSubjects_matches (ac_subjects (ar_accessor req)) subj \<and>
       Access_is_ok a (ad_operation (ar_object req)) Privilege_ADMIN)"
proof -
  have inv: "Fabrics_inv fs'"
    using assms(2) add_fabric_inv [OF fabrics_reachable_inv [OF assms(1)], of env sk ca noc icac ek vid subj] by simp
  obtain i where i: "Fabric_update env (Some ca) noc icac sk ek (Some vid) (Some subj) (Fabric_init i) = (Ok (), f)"
      "fs_fabrics fs' = fs_fabrics fs @ [f]"
    using assms(2) by (auto simp: Fabrics_add_def Fabrics_add_with_post_init_def split: option.splits if_splits prod.splits res.splits)
  have acl: "fa_acl f = [(AclEntry_new (Some i) Privilege_ADMIN AuthCase)\<lparr>ae_subjects := Some [subj]\<rparr>]"
    using Fabric_update_admin [OF i(1)] by (simp add: Fabric_init_def)
  have f: "f \<in> set (fs_fabrics fs')" by (simp add: i(2))
  moreover have "g \<in> set (fs_fabrics fs') \<Longrightarrow> fa_fab_idx g = fa_fab_idx f \<Longrightarrow> g = f" for g
    using Fabrics_get_unique [OF inv, of g] Fabrics_get_unique [OF inv f] by (metis option.inject)
  ultimately have "Fabrics_allow req fs' \<longleftrightarrow> (\<exists>e \<in> set (fa_acl f). entry_grants req e)"
    unfolding allow_iff_entry [OF inv] using assms(3,4) by metis
  then show ?thesis
    using i(2) assms(3,5) by (auto simp: acl entry_grants_def AclEntry_new_def)
qed

theorem new_fabric_admin_witness:
  "Fabrics_allow admin_request one_fabric"
proof -
  have "fabrics_reachable Fabrics_new" by simp
  moreover have "fst (Fabrics_add fab_env [1] [2] [3] [] None 0xFFF1 112233 Fabrics_new) = Ok (hd (fs_fabrics one_fabric))"
    by (simp add: one_fabric_value, simp add: add_fabric_defs sr_simps)
  then have "Fabrics_add fab_env [1] [2] [3] [] None 0xFFF1 112233 Fabrics_new = (Ok (hd (fs_fabrics one_fabric)), one_fabric)"
    by (simp add: one_fabric_def prod_eq_iff)
  moreover have "ac_auth_mode (ar_accessor admin_request) = Some AuthCase"
      "ac_fab_idx (ar_accessor admin_request) = fa_fab_idx (hd (fs_fabrics one_fabric))"
      "ad_target_perms (ar_object admin_request) = Some Access_RWVA"
      "AccessorSubjects_matches (ac_subjects (ar_accessor admin_request)) 112233"
      "Access_is_ok Access_RWVA (ad_operation (ar_object admin_request)) Privilege_ADMIN"
    by (simp_all add: admin_request_def AccessReq_set_target_perms_def AccessReq_new_def one_fabric_value Fabric_init_def
        AccessReq_new_with_device_types_def Accessor_new_def AccessorSubjects_matches_def AccessorSubjects_new_def
        Access_is_ok_def Access_RWVA_def READ_def WRITE_def NEED_VIEW_def NEED_ADMIN_def
        NEED_MANAGE_def NEED_OPERATE_def WRITE_PRIVILEGE_MASK_def access_contains_def privilege_defs)
  ultimately show ?thesis
    using new_fabric_admin [of Fabrics_new fab_env "[1]" "[2]" "[3]" "[]" None "0xFFF1" 112233
        "hd (fs_fabrics one_fabric)" one_fabric admin_request Access_RWVA] by simp
qed

subsection \<open>Entries from the network\<close>

text \<open>Both loops check one element at a time and push it into a bounded vector that starts as null.\<close>

definition pushed :: "'a list option \<Rightarrow> 'a list" where
  "pushed acc = (case acc of None \<Rightarrow> [] | Some xs \<Rightarrow> xs)"

fun push_checked :: "('a \<Rightarrow> 'b res) \<Rightarrow> nat \<Rightarrow> 'a list \<Rightarrow> 'b list option \<Rightarrow> 'b list option res" where
  "push_checked f cap [] acc = Ok acc"
| "push_checked f cap (s # ss) acc =
     res_bind (f s) (\<lambda>x. if length (pushed acc) < cap then push_checked f cap ss (Some (pushed acc @ [x]))
                          else Err BufferTooSmall)"

lemma init_subjects_push:
  "init_subjects m ss acc = push_checked (\<lambda>s. res_bind s (\<lambda>x. if subject_ok m x then Ok x else Err ConstraintError))
     MAX_SUBJECTS_PER_ACL_ENTRY ss acc"
  by (induction m ss acc rule: init_subjects.induct) (auto simp: Let_def res_bind_def pushed_def split: res.splits)

lemma init_targets_push:
  "init_targets ts acc = push_checked (\<lambda>t. res_bind t init_target) MAX_TARGETS_PER_ACL_ENTRY ts acc"
  by (induction ts acc rule: init_targets.induct) (auto simp: Let_def res_bind_def pushed_def split: res.splits)

lemma push_checked_ok:
  "push_checked f cap ss acc = Ok r \<Longrightarrow> length (pushed acc) \<le> cap \<Longrightarrow>
   \<exists>xs. map f ss = map Ok xs \<and> length (pushed acc) + length xs \<le> cap \<and>
     r = (if xs = [] then acc else Some (pushed acc @ xs))"
proof (induction ss arbitrary: acc)
  case (Cons s ss)
  then obtain x where x: "f s = Ok x" "length (pushed acc) < cap" "push_checked f cap ss (Some (pushed acc @ [x])) = Ok r"
    by (auto simp: res_bind_ok_iff split: if_splits)
  from Cons.IH [OF x(3)] x(2) obtain xs where
    xs: "map f ss = map Ok xs" "Suc (length (pushed acc) + length xs) \<le> cap" "r = Some (pushed acc @ [x] @ xs)"
    by (auto simp: pushed_def split: if_splits)
  show ?case using x(1) xs by (intro exI [of _ "x # xs"]) simp
qed simp

lemma push_checked_fits:
  "map f ss = map Ok xs \<Longrightarrow> length (pushed acc) + length xs \<le> cap \<Longrightarrow>
   push_checked f cap ss acc = Ok (if xs = [] then acc else Some (pushed acc @ xs))"
proof (induction ss arbitrary: acc xs)
  case (Cons s ss)
  then obtain x ys where xs: "xs = x # ys" by (cases xs) auto
  then have fs: "f s = Ok x" "map f ss = map Ok ys" using Cons.prems(1) by simp_all
  have "length (pushed (Some (pushed acc @ [x]))) + length ys \<le> cap" using Cons.prems(2) by (simp add: xs pushed_def)
  from Cons.IH [OF fs(2) this] fs(1) Cons.prems(2) show ?case by (auto simp: xs pushed_def)
qed simp

lemma push_checked_None:
  "push_checked f cap ss None = Ok r \<longleftrightarrow>
     (\<exists>xs. map f ss = map Ok xs \<and> length xs \<le> cap \<and> r = (if xs = [] then None else Some xs))"
proof
  assume "push_checked f cap ss None = Ok r"
  from push_checked_ok [OF this] obtain xs where
    "map f ss = map Ok xs" "length xs \<le> cap" "r = (if xs = [] then None else Some xs)"
    by (auto simp: pushed_def)
  then show "\<exists>xs. map f ss = map Ok xs \<and> length xs \<le> cap \<and> r = (if xs = [] then None else Some xs)" by blast
next
  assume "\<exists>xs. map f ss = map Ok xs \<and> length xs \<le> cap \<and> r = (if xs = [] then None else Some xs)"
  then obtain xs where xs: "map f ss = map Ok xs" "length xs \<le> cap" "r = (if xs = [] then None else Some xs)" by blast
  show "push_checked f cap ss None = Ok r"
    using push_checked_fits [OF xs(1), of None cap] xs(2,3) by (simp add: pushed_def)
qed

lemma checked_subjects:
  "map (\<lambda>s. res_bind s (\<lambda>x. if subject_ok m x then Ok x else Err ConstraintError)) ss = map Ok xs \<longleftrightarrow>
   ss = map Ok xs \<and> (\<forall>x \<in> set xs. subject_ok m x)"
proof (induction ss arbitrary: xs)
  case (Cons s ss)
  show ?case
  proof (cases xs)
    case (Cons y ys)
    then show ?thesis using Cons.IH [of ys] by (auto simp: res_bind_def split: res.splits)
  qed simp
qed auto

text \<open>The rules of the specification for a subject and for a target.\<close>

fun valid_subject :: "AccessControlEntryAuthModeEnum \<Rightarrow> u64 \<Rightarrow> bool" where
  "valid_subject CASE x \<longleftrightarrow> is_node x \<or> is_noc_cat x"
| "valid_subject GroupEnum x \<longleftrightarrow> 0 < x \<and> x \<le> 0xFFFF"
| "valid_subject PASE x \<longleftrightarrow> True"

definition valid_target :: "AccessControlTargetStruct res \<Rightarrow> Target \<Rightarrow> bool" where
  "valid_target t x \<longleftrightarrow> (\<exists>u. t = Ok u \<and> ts_endpoint u = Ok (tg_endpoint x) \<and> ts_cluster u = Ok (tg_cluster x) \<and>
     ts_device_type u = Ok (tg_device_type x)) \<and>
     (tg_endpoint x \<noteq> None \<or> tg_cluster x \<noteq> None \<or> tg_device_type x \<noteq> None) \<and> (tg_endpoint x = None \<or> tg_device_type x = None)"

lemma subject_ok_valid: "subject_ok m x \<longleftrightarrow> valid_subject m x"
  by (cases m) (auto simp: subject_ok_def word_gt_0 not_less)

lemma init_target_valid: "res_bind t init_target = Ok x \<longleftrightarrow> valid_target t x"
  by (cases x) (auto simp: valid_target_def init_target_def Target_new_def res_bind_def split: res.splits)

lemma map_eq_Ok_all2: "map f ts = map Ok xs \<longleftrightarrow> list_all2 (\<lambda>t x. f t = Ok x) ts xs"
  by (induction ts arbitrary: xs) (auto simp: list_all2_Cons1 map_eq_Cons_conv)

lemma required_ok_iff: "required r = Ok x \<longleftrightarrow> r = Ok (Some x)"
  by (auto simp: required_def constrained_def res_bind_def split: res.splits option.splits)

lemma constrained_ok_iff: "constrained r = Ok x \<longleftrightarrow> r = Ok x"
  by (auto simp: constrained_def split: res.splits)

text \<open>Claim C21: an entry from the network is stored exactly when all its mandatory fields decode, its
  authentication mode is CASE or Group and not Group with Administer, its at most four subjects are node
  ids or tags for CASE and nonzero 16-bit group ids for Group, and its at most three targets name
  something and not both an endpoint and a device type; it is then stored unchanged, an empty list as null.\<close>

theorem acl_entry_validated:
  "AclEntry_init_with fab_idx entry = Ok a \<longleftrightarrow>
    (\<exists>auth priv subjects targets aux xs ts.
       es_auth_mode entry = Ok (Some auth) \<and> es_privilege entry = Ok (Some priv) \<and>
       es_subjects entry = Ok (Some subjects) \<and> es_targets entry = Ok (Some targets) \<and> es_auxiliary_type entry = Ok aux \<and>
       auth \<noteq> PASE \<and> \<not> (auth = GroupEnum \<and> priv = Administer) \<and>
       (case subjects of Some ss \<Rightarrow> ss | None \<Rightarrow> []) = map Ok xs \<and> (\<forall>x \<in> set xs. valid_subject auth x) \<and> length xs \<le> 4 \<and>
       list_all2 valid_target (case targets of Some ts \<Rightarrow> ts | None \<Rightarrow> []) ts \<and> length ts \<le> 3 \<and>
       a = \<lparr>ae_privilege = Privilege_from_enum priv, ae_auth_mode = AuthMode_from_enum auth,
            ae_subjects = (if xs = [] then None else Some xs), ae_targets = (if ts = [] then None else Some ts),
            ae_auxiliary_type = aux, ae_fab_idx = Some fab_idx\<rparr>)" (is "?l \<longleftrightarrow> ?r")
proof -
  have s: "init_subjects m ss None = Ok r \<longleftrightarrow> (\<exists>xs. ss = map Ok xs \<and> (\<forall>x \<in> set xs. valid_subject m x) \<and> length xs \<le> 4 \<and>
      r = (if xs = [] then None else Some xs))" for m ss r
    unfolding init_subjects_push push_checked_None checked_subjects MAX_SUBJECTS_PER_ACL_ENTRY_def
    unfolding subject_ok_valid by (simp only: conj_assoc)
  have t: "init_targets ts None = Ok r \<longleftrightarrow> (\<exists>xs. list_all2 valid_target ts xs \<and> length xs \<le> 3 \<and>
      r = (if xs = [] then None else Some xs))" for ts r
    unfolding init_targets_push push_checked_None map_eq_Ok_all2 init_target_valid MAX_TARGETS_PER_ACL_ENTRY_def by (rule refl)
  show ?thesis
  proof
    assume ?l
    then obtain auth priv subjects targets aux where f:
      "es_auth_mode entry = Ok (Some auth)" "es_privilege entry = Ok (Some priv)" "es_subjects entry = Ok (Some subjects)"
      "es_targets entry = Ok (Some targets)" "es_auxiliary_type entry = Ok aux"
      unfolding AclEntry_init_with_def res_bind_ok_iff required_ok_iff constrained_ok_iff by blast
    from \<open>?l\<close> have g: "auth \<noteq> PASE \<and> \<not> (auth = GroupEnum \<and> priv = Administer)"
      by (simp add: AclEntry_init_with_def f required_def constrained_def split: if_splits)
    with \<open>?l\<close> obtain es et where x:
      "init_subjects auth (case subjects of Some ss \<Rightarrow> ss | None \<Rightarrow> []) None = Ok es"
      "init_targets (case targets of Some ts \<Rightarrow> ts | None \<Rightarrow> []) None = Ok et"
      "a = \<lparr>ae_privilege = Privilege_from_enum priv, ae_auth_mode = AuthMode_from_enum auth, ae_subjects = es,
            ae_targets = et, ae_auxiliary_type = aux, ae_fab_idx = Some fab_idx\<rparr>"
      by (auto simp: AclEntry_init_with_def f required_def constrained_def res_bind_ok_iff)
    from f g x(3) x(1,2) [unfolded s t] show ?r by blast
  next
    assume ?r
    then obtain auth priv subjects targets aux xs ts where f:
      "es_auth_mode entry = Ok (Some auth)" "es_privilege entry = Ok (Some priv)" "es_subjects entry = Ok (Some subjects)"
      "es_targets entry = Ok (Some targets)" "es_auxiliary_type entry = Ok aux" 
      "auth \<noteq> PASE" "\<not> (auth = GroupEnum \<and> priv = Administer)"
      and x: "init_subjects auth (case subjects of Some ss \<Rightarrow> ss | None \<Rightarrow> []) None = Ok (if xs = [] then None else Some xs)"
      "init_targets (case targets of Some ts \<Rightarrow> ts | None \<Rightarrow> []) None = Ok (if ts = [] then None else Some ts)"
      and a: "a = \<lparr>ae_privilege = Privilege_from_enum priv, ae_auth_mode = AuthMode_from_enum auth,
            ae_subjects = (if xs = [] then None else Some xs), ae_targets = (if ts = [] then None else Some ts),
            ae_auxiliary_type = aux, ae_fab_idx = Some fab_idx\<rparr>" unfolding s t by blast
    then show ?l by (auto simp: AclEntry_init_with_def required_def constrained_def)
  qed
qed

theorem acl_entry_validated_witness:
  "AclEntry_init_with 1 \<lparr>es_auth_mode = Ok (Some CASE), es_privilege = Ok (Some Operate), es_subjects = Ok (Some (Some [Ok 5])),
     es_targets = Ok (Some None), es_auxiliary_type = Ok None\<rparr> =
   Ok \<lparr>ae_privilege = Privilege_OPERATE, ae_auth_mode = AuthCase, ae_subjects = Some [5], ae_targets = None,
     ae_auxiliary_type = None, ae_fab_idx = Some 1\<rparr>"
proof -
  have "valid_subject CASE 5" by (simp add: is_node_def)
  then show ?thesis
    by (intro acl_entry_validated [THEN iffD2] exI [of _ CASE] exI [of _ Operate] exI [of _ "Some [Ok 5]"] exI [of _ None]
        exI [of _ "[5]"] exI [of _ "[]"]) simp
qed

end
