(* ===== verification/Persist.thy ===== *)
theory Persist
  imports Storage "HOL-Library.AList"
begin

section \<open>Persistence\<close>

text \<open>
  \<^verbatim>\<open>persist.rs\<close>: the keys, the trait \<^verbatim>\<open>KvBlobStore\<close> as a record of its methods, \<^verbatim>\<open>Persist\<close>, and the two stores on
  files. A method of a store gets a buffer it may use; only \<open>load\<close> of the directory store and the length of the buffer matter.
  Of the file system the model has the content of the files and whether files can be created; a file that was created
  takes all bytes written to it. How many bytes one \<^verbatim>\<open>read\<close> returns is an argument. The locale \<open>kv_device\<close> is what the rest of the program relies on:
  what was stored successfully is what is loaded after a restart.
\<close>

subsection \<open>Keys\<close>

definition VENDOR_KEYS_START :: u16 where "VENDOR_KEYS_START = 0x1000"

definition FABRIC_KEYS_START :: u16 where "FABRIC_KEYS_START = 0"

definition BASIC_INFO_KEY :: u16 where "BASIC_INFO_KEY = FABRIC_KEYS_START + 256"

definition EVENT_EPOCH_KEY :: u16 where "EVENT_EPOCH_KEY = BASIC_INFO_KEY + 1"

definition NETWORKS_KEY :: u16 where "NETWORKS_KEY = EVENT_EPOCH_KEY + 1"

definition USER_LABELS_KEY :: u16 where "USER_LABELS_KEY = NETWORKS_KEY + 1"

definition BINDINGS_KEY :: u16 where "BINDINGS_KEY = USER_LABELS_KEY + 1"

subsection \<open>The store trait and \<^verbatim>\<open>Persist\<close>\<close>

record 's KvBlobStore =
  kvb_load :: "u16 \<Rightarrow> bytes \<Rightarrow> ('s, bytes option) sr"
  kvb_store :: "u16 \<Rightarrow> bytes \<Rightarrow> bytes \<Rightarrow> ('s, unit) sr"
  kvb_remove :: "u16 \<Rightarrow> bytes \<Rightarrow> ('s, unit) sr"

definition DummyKvBlobStore :: "unit KvBlobStore" where
  "DummyKvBlobStore = \<lparr>kvb_load = (\<lambda>key buf. sr_return None), kvb_store = (\<lambda>key data buf. sr_return ()),
     kvb_remove = (\<lambda>key buf. sr_return ())\<rparr>"

text \<open>The store and the buffer that \<^verbatim>\<open>KvBlobStoreAccess::access\<close> hands to its closure.\<close>

record 's SharedKvBlobStore =
  skv_store :: 's
  skv_buf :: bytes

definition SharedKvBlobStore_new :: "'s \<Rightarrow> bytes \<Rightarrow> 's SharedKvBlobStore" where
  "SharedKvBlobStore_new store buf = \<lparr>skv_store = store, skv_buf = buf\<rparr>"

definition DummyKvBlobStoreAccess :: "unit SharedKvBlobStore" where
  "DummyKvBlobStoreAccess = \<lparr>skv_store = (), skv_buf = []\<rparr>"

definition SharedKvBlobStore_access ::
    "('s \<Rightarrow> bytes \<Rightarrow> 'a res \<times> 's \<times> bytes) \<Rightarrow> ('s SharedKvBlobStore, 'a) sr" where
  "SharedKvBlobStore_access f = (\<lambda>a. case f (skv_store a) (skv_buf a) of
     (r, s, b) \<Rightarrow> (r, a\<lparr>skv_store := s, skv_buf := b\<rparr>))"

definition Persist_store :: "'s KvBlobStore \<Rightarrow> u16 \<Rightarrow> (bytes \<Rightarrow> nat option res \<times> bytes) \<Rightarrow>
    ('s SharedKvBlobStore, unit) sr" where
  "Persist_store kv key f = SharedKvBlobStore_access (\<lambda>s buf.
     if buf = [] then (Ok (), s, buf)
     else case f buf of
         (Ok (Some len), b) \<Rightarrow>
           (if length b < len then (Panic, s, b)
            else case kvb_store kv key (take len b) (drop len b) s of (r, s') \<Rightarrow> (r, s', b))
       | (Ok None, b) \<Rightarrow> (Ok (), s, b)
       | (Err e, b) \<Rightarrow> (Err e, s, b)
       | (Panic, b) \<Rightarrow> (Panic, s, b))"

definition Persist_store_tlv :: "'s KvBlobStore \<Rightarrow> u16 \<Rightarrow> (WriteBuf, unit) sr \<Rightarrow>
    ('s SharedKvBlobStore, unit) sr" where
  "Persist_store_tlv kv key to_tlv = Persist_store kv key (\<lambda>buf.
     case to_tlv (WriteBuf_new buf) of
         (Ok _, wb) \<Rightarrow> (Ok (Some (WriteBuf_get_tail wb)), wb_buf wb)
       | (Err e, wb) \<Rightarrow> (Err e, wb_buf wb)
       | (Panic, wb) \<Rightarrow> (Panic, wb_buf wb))"

definition Persist_remove :: "'s KvBlobStore \<Rightarrow> u16 \<Rightarrow> ('s SharedKvBlobStore, unit) sr" where
  "Persist_remove kv key = SharedKvBlobStore_access (\<lambda>s buf.
     if buf = [] then (Ok (), s, buf)
     else case kvb_remove kv key buf s of (r, s') \<Rightarrow> (r, s', buf))"

definition Persist_run :: "('s SharedKvBlobStore, unit) sr" where
  "Persist_run = sr_return ()"

subsection \<open>One file per key\<close>

record DirKvBlobStore =
  dkv_files :: "string \<rightharpoonup> bytes"
  dkv_writable :: bool

definition hex_digit :: "nat \<Rightarrow> char" where
  "hex_digit d = ''0123456789abcdef'' ! d"

definition DirKvBlobStore_key_path :: "u16 \<Rightarrow> string" where
  "DirKvBlobStore_key_path key = ''k_'' @ map (\<lambda>i. hex_digit (unat key div 16 ^ i mod 16)) [3, 2, 1, 0]"

text \<open>
  \<^verbatim>\<open>File::read\<close> at an offset returns some of the bytes that are left, as many as \<open>rd\<close> chooses, at most what the
  buffer has room for.
\<close>

definition file_read :: "(nat \<Rightarrow> nat \<Rightarrow> nat) \<Rightarrow> bytes \<Rightarrow> nat \<Rightarrow> nat \<Rightarrow> bytes" where
  "file_read rd file offset room =
     take (min room (rd (length file - offset) room)) (drop offset file)"

function DirKvBlobStore_read_loop ::
    "(nat \<Rightarrow> nat \<Rightarrow> nat) \<Rightarrow> bytes \<Rightarrow> nat \<Rightarrow> bytes \<Rightarrow> nat res \<times> bytes" where
  "DirKvBlobStore_read_loop rd file offset buf =
     (if offset = length buf then (Err NoSpace, buf)
      else let data = file_read rd file offset (length buf - offset) in
        if length data = 0 then (Ok offset, buf)
        else DirKvBlobStore_read_loop rd file (offset + length data) (copy_into buf offset data))"
  by pat_completeness auto

lemma length_file_read: "length (file_read rd file offset room) \<le> room"
  by (simp add: file_read_def)

termination DirKvBlobStore_read_loop
proof (relation "measure (\<lambda>(rd, file, offset, buf). length buf - offset)", simp, clarsimp)
  fix rd content offset and buf :: bytes
  assume "offset \<noteq> length buf" "file_read rd content offset (length buf - offset) \<noteq> []"
  then show "length (copy_into buf offset (file_read rd content offset (length buf - offset)))
      - (offset + length (file_read rd content offset (length buf - offset))) < length buf - offset"
    using length_file_read [of rd content offset "length buf - offset"]
    by (cases "offset < length buf") (auto simp flip: length_greater_0_conv)
qed

declare DirKvBlobStore_read_loop.simps [simp del]

definition DirKvBlobStore_load :: "(nat \<Rightarrow> nat \<Rightarrow> nat) \<Rightarrow> u16 \<Rightarrow> bytes \<Rightarrow> (DirKvBlobStore, bytes option) sr" where
  "DirKvBlobStore_load rd key buf = (\<lambda>s. (case dkv_files s (DirKvBlobStore_key_path key) of
       Some file \<Rightarrow> (case DirKvBlobStore_read_loop rd file 0 buf of
         (r, b) \<Rightarrow> res_bind r (\<lambda>len. Ok (Some (take len b))))
     | None \<Rightarrow> Ok None, s))"

definition DirKvBlobStore_store :: "u16 \<Rightarrow> bytes \<Rightarrow> (DirKvBlobStore, unit) sr" where
  "DirKvBlobStore_store key data = (\<lambda>s.
     if dkv_writable s then (Ok (), s\<lparr>dkv_files := (dkv_files s)(DirKvBlobStore_key_path key \<mapsto> data)\<rparr>)
     else (Err StdIoError, s))"

definition DirKvBlobStore_remove :: "u16 \<Rightarrow> (DirKvBlobStore, unit) sr" where
  "DirKvBlobStore_remove key = (\<lambda>s.
     (Ok (), if dkv_writable s then s\<lparr>dkv_files := (dkv_files s)(DirKvBlobStore_key_path key := None)\<rparr> else s))"

definition DirKvBlobStore_methods :: "(nat \<Rightarrow> nat \<Rightarrow> nat) \<Rightarrow> DirKvBlobStore KvBlobStore" where
  "DirKvBlobStore_methods rd = \<lparr>kvb_load = DirKvBlobStore_load rd,
     kvb_store = (\<lambda>key data buf. DirKvBlobStore_store key data),
     kvb_remove = (\<lambda>key buf. DirKvBlobStore_remove key)\<rparr>"

subsection \<open>All keys in one file\<close>

text \<open>
  The hash map is an association list with distinct keys, whose order stands for the order of iteration. The file is
  read when the first operation comes and written whole after every change.
\<close>

type_synonym blobs = "(u16 \<times> bytes) list"

record FileKvBlobStore =
  fkv_file :: "bytes option"
  fkv_writable :: bool
  fkv_blobs :: "blobs option"

definition FileKvBlobStore_new :: "bytes option \<Rightarrow> bool \<Rightarrow> FileKvBlobStore" where
  "FileKvBlobStore_new file writable = \<lparr>fkv_file = file, fkv_writable = writable, fkv_blobs = None\<rparr>"

function FileKvBlobStore_load_loop :: "bytes \<Rightarrow> blobs \<Rightarrow> blobs res" where
  "FileKvBlobStore_load_loop file blobs =
     (if length file < 2 then Ok blobs
      else let key = from_le_bytes (take 2 file); file1 = drop 2 file in
        if length file1 < 4 then Err StdIoError
        else let len = unat (from_le_bytes (take 4 file1) :: u32); file2 = drop 4 file1 in
          if length file2 < len then Err StdIoError
          else FileKvBlobStore_load_loop (drop len file2) (AList.update key (take len file2) blobs))"
  by pat_completeness auto

termination FileKvBlobStore_load_loop
  by (relation "measure (length \<circ> fst)") auto

declare FileKvBlobStore_load_loop.simps [simp del]

definition FileKvBlobStore_load_all :: "bytes option \<Rightarrow> blobs \<Rightarrow> blobs res" where
  "FileKvBlobStore_load_all file blobs = (case file of
     Some bs \<Rightarrow> FileKvBlobStore_load_loop bs blobs | None \<Rightarrow> Ok blobs)"

definition FileKvBlobStore_save_all :: "blobs \<Rightarrow> (FileKvBlobStore, unit) sr" where
  "FileKvBlobStore_save_all blobs = (\<lambda>s.
     if fkv_writable s then (Ok (), s\<lparr>fkv_file := Some (concat (map (\<lambda>(key, data).
         to_le_bytes 2 key @ to_le_bytes 4 (of_nat (length data) :: u32) @ data) blobs))\<rparr>)
     else (Err StdIoError, s))"

definition FileKvBlobStore_initialize :: "(FileKvBlobStore, unit) sr" where
  "FileKvBlobStore_initialize = sr_bind sr_get (\<lambda>s.
     if fkv_blobs s = None
     then sr_bind (sr_res (FileKvBlobStore_load_all (fkv_file s) []))
            (\<lambda>blobs. sr_modify (\<lambda>s. s\<lparr>fkv_blobs := Some blobs\<rparr>))
     else sr_return ())"

definition FileKvBlobStore_load :: "u16 \<Rightarrow> bytes \<Rightarrow> (FileKvBlobStore, bytes option) sr" where
  "FileKvBlobStore_load key buf = sr_then FileKvBlobStore_initialize (sr_bind sr_get (\<lambda>s.
     case fkv_blobs s of
       None \<Rightarrow> sr_panic
     | Some blobs \<Rightarrow> (case map_of blobs key of
         Some blob \<Rightarrow> if length buf < length blob then sr_err NoSpace else sr_return (Some blob)
       | None \<Rightarrow> sr_return None)))"

definition FileKvBlobStore_change :: "(blobs \<Rightarrow> blobs) \<Rightarrow> (FileKvBlobStore, unit) sr" where
  "FileKvBlobStore_change f = sr_then FileKvBlobStore_initialize (sr_bind sr_get (\<lambda>s.
     case fkv_blobs s of
       None \<Rightarrow> sr_panic
     | Some blobs \<Rightarrow> sr_then (sr_modify (\<lambda>s. s\<lparr>fkv_blobs := Some (f blobs)\<rparr>))
         (FileKvBlobStore_save_all (f blobs))))"

definition FileKvBlobStore_store :: "u16 \<Rightarrow> bytes \<Rightarrow> (FileKvBlobStore, unit) sr" where
  "FileKvBlobStore_store key data = FileKvBlobStore_change (AList.update key data)"

definition FileKvBlobStore_remove :: "u16 \<Rightarrow> (FileKvBlobStore, unit) sr" where
  "FileKvBlobStore_remove key = FileKvBlobStore_change (AList.delete key)"

definition FileKvBlobStore_methods :: "FileKvBlobStore KvBlobStore" where
  "FileKvBlobStore_methods = \<lparr>kvb_load = FileKvBlobStore_load,
     kvb_store = (\<lambda>key data buf. FileKvBlobStore_store key data),
     kvb_remove = (\<lambda>key buf. FileKvBlobStore_remove key)\<rparr>"

subsection \<open>What the program relies on\<close>

text \<open>
  \<open>stored\<close> is what the device holds, \<open>restart\<close> what a new instance of the store finds, \<open>env\<close> what may happen to the device
  in between; \<open>fits\<close> says which blobs a buffer is big enough for.
\<close>

locale kv_device =
  fixes kv :: "'s KvBlobStore" and restart :: "'s \<Rightarrow> 's" and env :: "'s \<Rightarrow> 's \<Rightarrow> bool"
    and ok :: "'s \<Rightarrow> bool" and stored :: "'s \<Rightarrow> u16 \<rightharpoonup> bytes" and fits :: "bytes \<Rightarrow> bytes \<Rightarrow> bool"
  assumes restart_keeps: "ok s \<Longrightarrow> ok (restart s) \<and> stored (restart s) = stored s"
    and env_keeps: "ok s \<Longrightarrow> env s s' \<Longrightarrow> ok s' \<and> stored s' = stored s"
    and store_ok: "ok s \<Longrightarrow> length data < 2 ^ 32 \<Longrightarrow> kvb_store kv key data buf s = (Ok (), s') \<Longrightarrow>
      ok s' \<and> stored s' = (stored s)(key \<mapsto> data)"
    and store_err: "ok s \<Longrightarrow> length data < 2 ^ 32 \<Longrightarrow> kvb_store kv key data buf s = (Err e, s') \<Longrightarrow>
      ok s' \<and> stored s' = stored s"
    and store_no_panic: "ok s \<Longrightarrow> fst (kvb_store kv key data buf s) \<noteq> Panic"
    and load_restart: "ok s \<Longrightarrow> \<exists>s'. kvb_load kv key buf (restart s) =
      ((case stored s key of None \<Rightarrow> Ok None
        | Some d \<Rightarrow> if fits d buf then Ok (Some d) else Err NoSpace), s') \<and> ok s' \<and> stored s' = stored s"
begin

text \<open>A blob that was stored is there after a restart, if the buffer is big enough for it.\<close>

lemma store_then_load:
  assumes "ok s" "length data < 2 ^ 32" "kvb_store kv key data buf s = (Ok (), s')" "fits data buf'"
  shows "fst (kvb_load kv key buf' (restart s')) = Ok (Some data)"
proof -
  from store_ok [OF assms(1-3)] have "ok s'" "stored s' key = Some data" by simp_all
  with load_restart [of s' key buf'] assms(4) show ?thesis by auto
qed

text \<open>Storing under one key does not change what is loaded under another.\<close>

lemma store_other_key:
  assumes "ok s" "length data < 2 ^ 32" "kvb_store kv key data buf s = (r, s')" "key' \<noteq> key"
  shows "fst (kvb_load kv key' buf' (restart s')) = fst (kvb_load kv key' buf' (restart s))"
proof -
  have "ok s' \<and> stored s' key' = stored s key'"
    using assms store_ok [of s data key buf s'] store_err [of s data key buf _ s'] store_no_panic [of s key data buf]
    by (cases r) auto
  with load_restart [of s' key' buf'] load_restart [of s key' buf'] assms(1) show ?thesis by auto
qed

end

subsection \<open>The directory\<close>

lemma hex_digit_inj: "a < 16 \<Longrightarrow> b < 16 \<Longrightarrow> hex_digit a = hex_digit b \<longleftrightarrow> a = b"
proof -
  have "distinct ''0123456789abcdef''" "length ''0123456789abcdef'' = 16" by simp_all
  then show "a < 16 \<Longrightarrow> b < 16 \<Longrightarrow> hex_digit a = hex_digit b \<longleftrightarrow> a = b"
    unfolding hex_digit_def by (simp only: nth_eq_iff_index_eq)
qed

lemma nibble_eq: "n mod 16 = m mod 16 \<Longrightarrow> n div 16 = m div 16 \<Longrightarrow> n = (m :: nat)"
  by (metis div_mult_mod_eq)

lemma key_path_inj: "DirKvBlobStore_key_path a = DirKvBlobStore_key_path b \<longleftrightarrow> a = b"
proof
  assume "DirKvBlobStore_key_path a = DirKvBlobStore_key_path b"
  then have eq: "unat a div 4096 mod 16 = unat b div 4096 mod 16" "unat a div 256 mod 16 = unat b div 256 mod 16"
      "unat a div 16 mod 16 = unat b div 16 mod 16" "unat a mod 16 = unat b mod 16"
    by (simp_all add: DirKvBlobStore_key_path_def hex_digit_inj)
  have top: "unat w div 4096 mod 16 = unat w div 4096" for w :: u16
    using less_mult_imp_div_less [of "unat w" 16 4096] unsigned_less [of w, where 'a = nat] by simp
  have steps: "n div 256 div 16 = n div 4096" "n div 16 div 16 = n div 256" for n :: nat
    using div_mult2_eq [of n 256 16] div_mult2_eq [of n 16 16] by simp_all
  have "unat a div 256 = unat b div 256"
    by (rule nibble_eq) (use eq(1,2) in \<open>simp_all only: top steps\<close>)
  then have "unat a div 16 = unat b div 16"
    by - (rule nibble_eq, use eq(3) in \<open>simp_all only: steps\<close>)
  with eq(4) have "unat a = unat b" by (rule nibble_eq)
  then show "a = b" by (simp only: word_unat_eq_iff)
qed simp

text \<open>A read returns at least one byte unless the file is at its end or the buffer has no room.\<close>

definition reads_on :: "(nat \<Rightarrow> nat \<Rightarrow> nat) \<Rightarrow> bool" where
  "reads_on rd \<longleftrightarrow> (\<forall>left room. 0 < left \<longrightarrow> 0 < room \<longrightarrow> 0 < rd left room)"

lemma read_loop:
  "reads_on rd \<Longrightarrow> offset \<le> length content \<Longrightarrow> offset \<le> length buf \<Longrightarrow>
   take offset buf = take offset content \<Longrightarrow>
   (case DirKvBlobStore_read_loop rd content offset buf of (r, b) \<Rightarrow> res_bind r (\<lambda>len. Ok (Some (take len b)))) =
     (if length content < length buf then Ok (Some content) else Err NoSpace)"
proof (induction rd content offset buf rule: DirKvBlobStore_read_loop.induct)
  case (1 rd content offset buf)
  let ?d = "file_read rd content offset (length buf - offset)"
  have d: "length ?d \<le> length buf - offset" "length ?d \<le> length content - offset"
    "take (offset + length ?d) content = take offset content @ ?d"
    using 1(2-4) by (auto simp: file_read_def take_add min_def)
  have "0 < rd (length content - offset) (length buf - offset)" if "offset < length content" "offset < length buf"
    using 1(2) that by (simp add: reads_on_def)
  then have nil: "?d = [] \<longleftrightarrow> offset = length content \<or> offset = length buf"
    using 1(3,4) by (fastforce simp: file_read_def)
  show ?case
  proof (cases "offset = length buf \<or> ?d = []")
    case True
    with 1(3-5) nil show ?thesis by (auto simp: DirKvBlobStore_read_loop.simps [of rd content offset buf] Let_def)
  next
    case False
    let ?b = "copy_into buf offset ?d"
    have len: "length ?b = length buf" using d(1) 1(4) by simp
    have tk: "take (offset + length ?d) ?b = take (offset + length ?d) content"
      using 1(3-5) d(3) by (simp add: copy_into_def)
    have "DirKvBlobStore_read_loop rd content offset buf = DirKvBlobStore_read_loop rd content (offset + length ?d) ?b"
      using False by (subst DirKvBlobStore_read_loop.simps) (simp add: Let_def)
    moreover have "(case DirKvBlobStore_read_loop rd content (offset + length ?d) ?b of
          (r, b) \<Rightarrow> res_bind r (\<lambda>len. Ok (Some (take len b)))) =
        (if length content < length ?b then Ok (Some content) else Err NoSpace)"
    proof (rule 1(1) [OF _ refl _ 1(2) _ _ tk])
      show "offset + length ?d \<le> length content" "offset + length ?d \<le> length ?b"
        unfolding len using d(1,2) 1(3,4) by linarith+
    qed (use False in simp_all)
    ultimately show ?thesis by (simp only: len)
  qed
qed

text \<open>
  Claim C28: a blob stored in the directory store is loaded after it, whatever pieces the file is read in, exactly when it is
  shorter than the buffer it is loaded into; a blob of just the length of the buffer is refused with \<open>NoSpace\<close>, although
  storing it was not. Blobs of other keys stay what they were.
\<close>

theorem dir_store_roundtrip:
  assumes "reads_on rd" "DirKvBlobStore_store key data s = (Ok (), s')"
  shows "fst (DirKvBlobStore_load rd key buf s') = (if length data < length buf then Ok (Some data) else Err NoSpace) \<and>
    (\<forall>key'. key' \<noteq> key \<longrightarrow> fst (DirKvBlobStore_load rd key' buf s') = fst (DirKvBlobStore_load rd key' buf s))"
  using assms read_loop [of rd 0 data buf]
  by (auto simp: DirKvBlobStore_store_def DirKvBlobStore_load_def key_path_inj split: if_splits)

theorem dir_store_roundtrip_witness:
  "\<exists>s'. DirKvBlobStore_store 7 [1, 2, 3] \<lparr>dkv_files = Map.empty, dkv_writable = True\<rparr> = (Ok (), s') \<and>
     fst (DirKvBlobStore_load (\<lambda>left room. 1) 7 [0, 0, 0, 0] s') = Ok (Some [1, 2, 3]) \<and>
     fst (DirKvBlobStore_load (\<lambda>left room. 1) 7 [0, 0, 0] s') = Err NoSpace"
proof -
  obtain s' where s': "DirKvBlobStore_store 7 [1, 2, 3] \<lparr>dkv_files = Map.empty, dkv_writable = True\<rparr> = (Ok (), s')"
    by (simp add: DirKvBlobStore_store_def)
  have "reads_on (\<lambda>left room. 1)" by (simp add: reads_on_def)
  from dir_store_roundtrip [OF this s', of "[0, 0, 0, 0]"] dir_store_roundtrip [OF this s', of "[0, 0, 0]"] s'
  show ?thesis by (intro exI [of _ s']) simp
qed

definition dir_env :: "DirKvBlobStore \<Rightarrow> DirKvBlobStore \<Rightarrow> bool" where
  "dir_env s s' \<longleftrightarrow> dkv_files s' = dkv_files s"

definition dir_stored :: "DirKvBlobStore \<Rightarrow> u16 \<rightharpoonup> bytes" where
  "dir_stored s key = dkv_files s (DirKvBlobStore_key_path key)"

definition read_all :: "nat \<Rightarrow> nat \<Rightarrow> nat" where
  "read_all left room = left"

interpretation dir: kv_device "DirKvBlobStore_methods read_all" "\<lambda>s. s" dir_env "\<lambda>s. True" dir_stored
  "\<lambda>data buf. length data < length buf"
proof
  have rd: "reads_on read_all" by (simp add: reads_on_def read_all_def)
  show "\<exists>s'. kvb_load (DirKvBlobStore_methods read_all) key buf s = ((case dir_stored s key of None \<Rightarrow> Ok None
      | Some d \<Rightarrow> if length d < length buf then Ok (Some d) else Err NoSpace), s') \<and> True \<and> dir_stored s' = dir_stored s"
    for s key buf
    using read_loop [OF rd, of 0 _ buf]
    by (auto simp: DirKvBlobStore_methods_def DirKvBlobStore_load_def dir_stored_def split: option.splits)
qed (auto simp: dir_env_def dir_stored_def DirKvBlobStore_methods_def DirKvBlobStore_store_def key_path_inj
    fun_eq_iff split: if_splits)

subsection \<open>The single file\<close>

definition blobs_wf :: "blobs \<Rightarrow> bool" where
  "blobs_wf bl \<longleftrightarrow> distinct (map fst bl) \<and> (\<forall>(key, data) \<in> set bl. length data < 2 ^ 32)"

lemma blobs_wf_update: "blobs_wf bl \<Longrightarrow> length data < 2 ^ 32 \<Longrightarrow> blobs_wf (AList.update key data bl)"
proof (unfold blobs_wf_def, elim conjE, intro conjI)
  assume bl: "distinct (map fst bl)" "\<forall>(key, data) \<in> set bl. length data < 2 ^ 32" and d: "length data < 2 ^ 32"
  show dist: "distinct (map fst (AList.update key data bl))" using bl(1) by (rule distinct_update)
  have "length d < 2 ^ 32" if "(k, d) \<in> set (AList.update key data bl)" for k d
  proof -
    from that dist have "map_of (AList.update key data bl) k = Some d" by simp
    then have "k = key \<and> d = data \<or> map_of bl k = Some d" by (auto simp: update_conv' split: if_splits)
    with bl(2) d show ?thesis by (auto dest: map_of_SomeD)
  qed
  then show "\<forall>(key, data) \<in> set (AList.update key data bl). length data < 2 ^ 32" by auto
qed

lemma blobs_wf_delete: "blobs_wf bl \<Longrightarrow> blobs_wf (AList.delete key bl)"
  using distinct_delete [of bl key] by (auto simp: blobs_wf_def AList.delete_eq)

lemma less_length_u32: "unat (w :: u32) < 4294967296"
  using unsigned_less [of w, where 'a = nat] by simp

lemma load_loop_wf: "FileKvBlobStore_load_loop bs acc = Ok bl \<Longrightarrow> blobs_wf acc \<Longrightarrow> blobs_wf bl"
proof (induction bs acc rule: FileKvBlobStore_load_loop.induct)
  case (1 bs acc)
  from 1(2,3) show ?case
    by (subst (asm) FileKvBlobStore_load_loop.simps)
      (auto simp: Let_def split: if_splits intro!: 1(1) [OF _ refl refl _ refl refl] blobs_wf_update
        simp: less_length_u32)
qed

definition save_bytes :: "blobs \<Rightarrow> bytes" where
  "save_bytes bl = concat (map (\<lambda>(key, data).
     to_le_bytes 2 key @ to_le_bytes 4 (of_nat (length data) :: u32) @ data) bl)"

lemma load_save:
  "\<forall>(key, data) \<in> set bl. length data < 2 ^ 32 \<Longrightarrow>
   FileKvBlobStore_load_loop (save_bytes bl) acc = Ok (fold (\<lambda>(key, data). AList.update key data) bl acc)"
proof (induction bl arbitrary: acc)
  case Nil
  then show ?case by (simp add: save_bytes_def FileKvBlobStore_load_loop.simps)
next
  case (Cons e bl)
  obtain key data where e: "e = (key, data)" by fastforce
  have "save_bytes (e # bl) = to_le_bytes 2 key @ to_le_bytes 4 (of_nat (length data) :: u32) @ data @ save_bytes bl"
    by (simp add: save_bytes_def e)
  with Cons e show ?case
    by (subst FileKvBlobStore_load_loop.simps) (simp add: Let_def unat_of_nat)
qed

lemma map_of_fold_update:
  "distinct (map fst bl) \<Longrightarrow> map_of (fold (\<lambda>(key, data). AList.update key data) bl acc) = map_of acc ++ map_of bl"
proof (induction bl arbitrary: acc)
  case (Cons e bl)
  then have "map_of (fold (\<lambda>(key, data). AList.update key data) (e # bl) acc) =
      (map_of acc)(fst e \<mapsto> snd e) ++ map_of bl" by (simp add: split_def update_conv')
  also have "\<dots> = map_of acc ++ map_of (e # bl)" using Cons.prems
    by (auto simp: fun_eq_iff map_add_def map_of_eq_None_iff image_iff split: option.splits)
  finally show ?case .
qed simp

lemma load_save_all:
  assumes "blobs_wf bl"
  shows "\<exists>bl'. FileKvBlobStore_load_all (Some (save_bytes bl)) [] = Ok bl' \<and> map_of bl' = map_of bl"
  using assms load_save [of bl "[]"] map_of_fold_update [of bl "[]"]
  by (auto simp: FileKvBlobStore_load_all_def blobs_wf_def)

definition file_stored :: "FileKvBlobStore \<Rightarrow> u16 \<rightharpoonup> bytes" where
  "file_stored s = (case FileKvBlobStore_load_all (fkv_file s) [] of Ok bl \<Rightarrow> map_of bl | _ \<Rightarrow> Map.empty)"

text \<open>The file can be read, and the blobs in memory are those of the file.\<close>

definition file_ok :: "FileKvBlobStore \<Rightarrow> bool" where
  "file_ok s \<longleftrightarrow> fkv_writable s \<and> (\<exists>bl. FileKvBlobStore_load_all (fkv_file s) [] = Ok bl) \<and>
     (\<forall>bl. fkv_blobs s = Some bl \<longrightarrow> blobs_wf bl \<and> map_of bl = file_stored s)"

definition file_restart :: "FileKvBlobStore \<Rightarrow> FileKvBlobStore" where
  "file_restart s = FileKvBlobStore_new (fkv_file s) (fkv_writable s)"

lemma load_all_wf: "FileKvBlobStore_load_all f [] = Ok bl \<Longrightarrow> blobs_wf bl"
  by (auto simp: FileKvBlobStore_load_all_def blobs_wf_def [of "[]"] split: option.splits dest: load_loop_wf)

lemma file_initialize:
  assumes "file_ok s"
  shows "\<exists>bl. FileKvBlobStore_initialize s = (Ok (), s\<lparr>fkv_blobs := Some bl\<rparr>) \<and> blobs_wf bl \<and> map_of bl = file_stored s"
proof (cases "fkv_blobs s")
  case None
  with assms show ?thesis
    by (auto simp: FileKvBlobStore_initialize_def file_ok_def file_stored_def sr_defs sr_bind_def dest: load_all_wf)
next
  case (Some bl)
  then have "s\<lparr>fkv_blobs := Some bl\<rparr> = s" by simp
  with assms Some show ?thesis
    by (intro exI [of _ bl]) (simp add: FileKvBlobStore_initialize_def file_ok_def sr_return_def)
qed

lemma file_change:
  assumes "file_ok s" and f: "\<And>bl. blobs_wf bl \<Longrightarrow> blobs_wf (f bl)" "\<And>bl. map_of (f bl) = g (map_of bl)"
  shows "\<exists>s'. FileKvBlobStore_change f s = (Ok (), s') \<and> file_ok s' \<and> file_stored s' = g (file_stored s)"
proof -
  from file_initialize [OF assms(1)] obtain bl where init: "FileKvBlobStore_initialize s = (Ok (), s\<lparr>fkv_blobs := Some bl\<rparr>)"
    and bl: "blobs_wf bl" "map_of bl = file_stored s" by blast
  let ?s' = "s\<lparr>fkv_blobs := Some (f bl), fkv_file := Some (save_bytes (f bl))\<rparr>"
  have w: "fkv_writable s" using assms(1) by (simp add: file_ok_def)
  have "FileKvBlobStore_change f s = (Ok (), ?s')"
    using w by (simp add: FileKvBlobStore_change_def sr_bind_ok [where m = FileKvBlobStore_initialize, OF init] FileKvBlobStore_save_all_def save_bytes_def)
  moreover obtain bl' where "FileKvBlobStore_load_all (Some (save_bytes (f bl))) [] = Ok bl'" "map_of bl' = map_of (f bl)"
    using load_save_all [OF f(1) [OF bl(1)]] by blast
  then have "file_stored ?s' = g (file_stored s)" "file_ok ?s'"
    using f bl w by (simp_all add: file_ok_def file_stored_def)
  ultimately show ?thesis by blast
qed

lemma file_store:
  assumes "file_ok s" "length data < 2 ^ 32"
  shows "\<exists>s'. FileKvBlobStore_store key data s = (Ok (), s') \<and> file_ok s' \<and> file_stored s' = (file_stored s)(key \<mapsto> data)"
  unfolding FileKvBlobStore_store_def
  using assms by (intro file_change blobs_wf_update update_conv')

lemma file_load:
  assumes "file_ok s"
  shows "\<exists>s'. FileKvBlobStore_load key buf s = ((case file_stored s key of None \<Rightarrow> Ok None
      | Some d \<Rightarrow> if length d \<le> length buf then Ok (Some d) else Err NoSpace), s') \<and> file_ok s' \<and> file_stored s' = file_stored s"
proof -
  from file_initialize [OF assms] obtain bl where init: "FileKvBlobStore_initialize s = (Ok (), s\<lparr>fkv_blobs := Some bl\<rparr>)"
    and bl: "blobs_wf bl" "map_of bl = file_stored s" by blast
  have "file_ok (s\<lparr>fkv_blobs := Some bl\<rparr>)" "file_stored (s\<lparr>fkv_blobs := Some bl\<rparr>) = file_stored s"
    using assms bl by (simp_all add: file_ok_def file_stored_def)
  then show ?thesis
    by (intro exI [of _ "s\<lparr>fkv_blobs := Some bl\<rparr>"])
      (auto simp: FileKvBlobStore_load_def sr_bind_ok [where m = FileKvBlobStore_initialize, OF init] bl(2) sr_return_def sr_err_def split: option.splits)
qed

lemma file_store_panic:
  assumes "file_ok s"
  shows "fst (FileKvBlobStore_store key data s) \<noteq> Panic"
proof -
  from file_initialize [OF assms] obtain bl where init: "FileKvBlobStore_initialize s = (Ok (), s\<lparr>fkv_blobs := Some bl\<rparr>)" by blast
  then show ?thesis
    by (simp add: FileKvBlobStore_store_def FileKvBlobStore_change_def sr_bind_ok [where m = FileKvBlobStore_initialize, OF init] FileKvBlobStore_save_all_def)
qed

interpretation single_file: kv_device FileKvBlobStore_methods file_restart "\<lambda>s s'. s' = s" file_ok file_stored
  "\<lambda>data buf. length data \<le> length buf"
proof
  show restart: "file_ok (file_restart s) \<and> file_stored (file_restart s) = file_stored s" if "file_ok s" for s
    using that by (simp add: file_ok_def file_restart_def FileKvBlobStore_new_def file_stored_def)
  show "file_ok s' \<and> file_stored s' = (file_stored s)(key \<mapsto> data)"
    if "file_ok s" "length data < 2 ^ 32" "kvb_store FileKvBlobStore_methods key data buf s = (Ok (), s')" for s data key buf s'
    using file_store [OF that(1,2), of key] that(3) by (auto simp: FileKvBlobStore_methods_def)
  show "file_ok s' \<and> file_stored s' = file_stored s"
    if "file_ok s" "length data < 2 ^ 32" "kvb_store FileKvBlobStore_methods key data buf s = (Err e, s')" for s data key buf e s'
    using file_store [OF that(1,2), of key] that(3) by (auto simp: FileKvBlobStore_methods_def)
  show "\<exists>s'. kvb_load FileKvBlobStore_methods key buf (file_restart s) = ((case file_stored s key of None \<Rightarrow> Ok None
      | Some d \<Rightarrow> if length d \<le> length buf then Ok (Some d) else Err NoSpace), s') \<and> file_ok s' \<and> file_stored s' = file_stored s"
    if "file_ok s" for s key buf
    using file_load [of "file_restart s" key buf] restart [OF that] by (simp add: FileKvBlobStore_methods_def)
qed (auto simp: FileKvBlobStore_methods_def file_store_panic)

text \<open>
  Claim C27: what the single-file store has written under a key is what a new instance reads from the file under that key,
  whatever the order the map is iterated in, and the blobs of all other keys are unchanged.
\<close>

theorem file_store_roundtrip:
  assumes "file_ok s" "length data < 2 ^ 32" "length data \<le> length buf"
  shows "\<exists>s'. FileKvBlobStore_store key data s = (Ok (), s') \<and>
    fst (FileKvBlobStore_load key buf (file_restart s')) = Ok (Some data) \<and>
    (\<forall>key'. key' \<noteq> key \<longrightarrow>
      fst (FileKvBlobStore_load key' buf (file_restart s')) = fst (FileKvBlobStore_load key' buf (file_restart s)))"
proof -
  obtain s' where s': "FileKvBlobStore_store key data s = (Ok (), s')" using file_store [OF assms(1,2)] by blast
  note sf = single_file.store_then_load [of s data key buf s' buf] single_file.store_other_key [of s data key buf "Ok ()" s']
  show ?thesis using sf assms s' by (intro exI [of _ s']) (simp add: FileKvBlobStore_methods_def)
qed

theorem file_store_roundtrip_witness:
  "\<exists>s'. FileKvBlobStore_store 257 [4, 5] (FileKvBlobStore_new (Some [1, 0, 1, 0, 0, 0, 9]) True) = (Ok (), s') \<and>
     fst (FileKvBlobStore_load 257 [0, 0] (file_restart s')) = Ok (Some [4, 5])"
proof -
  let ?s = "FileKvBlobStore_new (Some [1, 0, 1, 0, 0, 0, 9]) True"
  have "file_ok ?s"
    by (simp add: file_ok_def FileKvBlobStore_new_def FileKvBlobStore_load_all_def FileKvBlobStore_load_loop.simps)
  from file_store_roundtrip [OF this, of "[4, 5]" "[0, 0]" 257] show ?thesis by auto
qed

text \<open>
  When the file cannot be created the error is reported, but the new blob stays in memory: it is loaded
  until the restart and gone after it.
\<close>

theorem file_store_failure_visible:
  "let (r, s) = FileKvBlobStore_store 7 [1] (FileKvBlobStore_new None False)
   in r = Err StdIoError \<and> fst (FileKvBlobStore_load 7 [0] s) = Ok (Some [1]) \<and>
      fst (FileKvBlobStore_load 7 [0] (file_restart s)) = Ok None"
  by (simp add: FileKvBlobStore_store_def FileKvBlobStore_change_def FileKvBlobStore_initialize_def
      FileKvBlobStore_new_def FileKvBlobStore_load_all_def FileKvBlobStore_save_all_def FileKvBlobStore_load_def
      file_restart_def sr_bind_def sr_defs)

end
