(* ===== verification/Fail_Safe.thy ===== *)
theory Fail_Safe
  imports Fabric Persist
begin

section \<open>The fail-safe of commissioning\<close>

text \<open>
  \<^verbatim>\<open>failsafe.rs\<close>: a commissioner arms the fail-safe, stages a root certificate, asks for a key pair and hands over
  the operational certificate; when the timer runs out first, everything goes back to what the key-value
  store holds. The part of the state of the node these functions work on is one record (\<open>NodeState\<close>): the
  fail-safe itself, the fabric table, the session table, the networks and the list of notifications
  that went out. The networks are of any type, with their two operations as parameters, as are the
  key-value store and what certificates and keys are asked for (\<open>Cert_env\<close>, \<open>Store_env\<close>). An instant is a number of nanoseconds;
  the functions that read the clock get it as \<open>now\<close>.
\<close>

subsection \<open>Parameters\<close>

record Cert_env =
  ce_fabric :: Fabric_env
  ce_is_authority :: "bytes \<Rightarrow> bytes \<Rightarrow> bool res"
  ce_as_asn1 :: "bytes \<Rightarrow> bytes res"
  ce_signature :: "bytes \<Rightarrow> bytes res"
  ce_pub_key :: "bytes \<Rightarrow> unit res"
  ce_verify :: "bytes \<Rightarrow> bytes \<Rightarrow> bytes \<Rightarrow> bool res"
  ce_pub_key_of :: "bytes \<Rightarrow> bytes res"

record 'n Store_env =
  st_load :: "u16 \<Rightarrow> bytes option res"
  st_fabric :: "bytes \<Rightarrow> Fabric res"
  st_networks_load :: "bytes \<Rightarrow> ('n, unit) sr"
  st_networks_reset :: "('n, unit) sr"

definition PKC_SIGNATURE_LEN :: nat where "PKC_SIGNATURE_LEN = 64"

subsection \<open>State\<close>

definition ADD_CSR_REQ_RECVD :: u8 where "ADD_CSR_REQ_RECVD = 0x01"

definition UPDATE_CSR_REQ_RECVD :: u8 where "UPDATE_CSR_REQ_RECVD = 0x02"

definition ADD_ROOT_CERT_RECVD :: u8 where "ADD_ROOT_CERT_RECVD = 0x04"

definition ADD_NOC_RECVD :: u8 where "ADD_NOC_RECVD = 0x08"

definition UPDATE_NOC_RECVD :: u8 where "UPDATE_NOC_RECVD = 0x10"

record ArmedCtx =
  ax_armed_at :: nat
  ax_timeout_secs :: u16
  ax_fab_idx :: u8
  ax_flags :: u8

datatype State = Idle | Armed ArmedCtx

record FailSafe =
  fl_state :: State
  fl_secret_key :: bytes
  fl_root_ca :: bytes
  fl_breadcrumb :: u64

definition FailSafe_new :: FailSafe where
  "FailSafe_new = \<lparr>fl_state = Idle, fl_secret_key = replicate 32 0, fl_root_ca = [], fl_breadcrumb = 0\<rparr>"

datatype Notification = MdnsChanged | ClusterChanged u16 u32

record 'n NodeState =
  nd_failsafe :: FailSafe
  nd_fabrics :: Fabrics
  nd_sessions :: Sessions
  nd_networks :: 'n
  nd_notified :: "Notification list"

definition on_failsafe :: "(FailSafe, 'a) sr \<Rightarrow> ('n NodeState, 'a) sr" where
  "on_failsafe m = (\<lambda>n. case m (nd_failsafe n) of (r, x) \<Rightarrow> (r, n\<lparr>nd_failsafe := x\<rparr>))"

definition on_fabrics :: "(Fabrics, 'a) sr \<Rightarrow> ('n NodeState, 'a) sr" where
  "on_fabrics m = (\<lambda>n. case m (nd_fabrics n) of (r, x) \<Rightarrow> (r, n\<lparr>nd_fabrics := x\<rparr>))"

definition on_networks :: "('n, 'a) sr \<Rightarrow> ('n NodeState, 'a) sr" where
  "on_networks m = (\<lambda>n. case m (nd_networks n) of (r, x) \<Rightarrow> (r, n\<lparr>nd_networks := x\<rparr>))"

definition notify :: "Notification list \<Rightarrow> ('n NodeState, unit) sr" where
  "notify ns = sr_modify (\<lambda>n. n\<lparr>nd_notified := nd_notified n @ ns\<rparr>)"

subsection \<open>Guards\<close>

fun is_case_mode :: "SessionMode \<Rightarrow> bool" where
  "is_case_mode (Case fab_idx cat_ids) = True"
| "is_case_mode _ = False"

fun FailSafe_get_case_fab_idx :: "SessionMode \<Rightarrow> u8 res" where
  "FailSafe_get_case_fab_idx (Case fab_idx cat_ids) = Ok fab_idx"
| "FailSafe_get_case_fab_idx _ = Err GennCommInvalidAuthentication"

definition FailSafe_check_state :: "SessionMode \<Rightarrow> u8 \<Rightarrow> u8 \<Rightarrow> u8 \<Rightarrow> FailSafe \<Rightarrow> unit res" where
  "FailSafe_check_state session_mode present absent op fl = (case fl_state fl of
     Armed ctx \<Rightarrow>
       if session_mode = PlainText then Err GennCommInvalidAuthentication
       else if op = UPDATE_NOC_RECVD \<and> \<not> is_case_mode session_mode then Err GennCommInvalidAuthentication
       else if ax_fab_idx ctx \<noteq> SessionMode_fab_idx session_mode then Err NocInvalidFabricIndex
       else if \<not> flags_contains (ax_flags ctx) present then
         (let any_csr = ax_flags ctx AND (ADD_CSR_REQ_RECVD OR UPDATE_CSR_REQ_RECVD) \<noteq> 0
          in if (op = ADD_NOC_RECVD \<or> op = UPDATE_NOC_RECVD) \<and> \<not> any_csr then Err NocMissingCsr
             else Err ConstraintError)
       else if ax_flags ctx AND absent \<noteq> 0 then Err ConstraintError
       else Ok ()
   | Idle \<Rightarrow> Err FailSafeRequired)"

definition FailSafe_check_armed :: "SessionMode \<Rightarrow> FailSafe \<Rightarrow> unit res" where
  "FailSafe_check_armed session_mode fl = FailSafe_check_state session_mode 0 0 0 fl"

definition FailSafe_add_flags :: "u8 \<Rightarrow> (FailSafe, unit) sr" where
  "FailSafe_add_flags flags = (\<lambda>fl. case fl_state fl of
     Armed ctx \<Rightarrow> (Ok (), fl\<lparr>fl_state := Armed (ctx\<lparr>ax_flags := flags_insert (ax_flags ctx) flags\<rparr>)\<rparr>)
   | Idle \<Rightarrow> (Panic, fl))"

definition FailSafe_is_armed :: "FailSafe \<Rightarrow> bool" where
  "FailSafe_is_armed fl \<longleftrightarrow> fl_state fl \<noteq> Idle"

definition FailSafe_is_armed_for :: "u8 \<Rightarrow> FailSafe \<Rightarrow> bool" where
  "FailSafe_is_armed_for caller_fab_idx fl = (case fl_state fl of
     Idle \<Rightarrow> False | Armed ctx \<Rightarrow> ax_fab_idx ctx = caller_fab_idx)"

definition FailSafe_has_pending_noc_for :: "u8 \<Rightarrow> FailSafe \<Rightarrow> bool" where
  "FailSafe_has_pending_noc_for caller_fab_idx fl = (case fl_state fl of
     Idle \<Rightarrow> False
   | Armed ctx \<Rightarrow> ax_fab_idx ctx = caller_fab_idx \<and> ax_flags ctx AND (ADD_NOC_RECVD OR UPDATE_NOC_RECVD) \<noteq> 0)"

definition FailSafe_pending_root_ca :: "FailSafe \<Rightarrow> bytes option" where
  "FailSafe_pending_root_ca fl = (case fl_state fl of
     Idle \<Rightarrow> None
   | Armed ctx \<Rightarrow>
       if \<not> flags_contains (ax_flags ctx) ADD_ROOT_CERT_RECVD then None
       else if ax_flags ctx AND (ADD_NOC_RECVD OR UPDATE_NOC_RECVD) \<noteq> 0 then None
       else if fl_root_ca fl \<noteq> [] then Some (fl_root_ca fl) else None)"

definition FailSafe_set_breadcrumb :: "u64 \<Rightarrow> FailSafe \<Rightarrow> FailSafe" where
  "FailSafe_set_breadcrumb value fl = fl\<lparr>fl_breadcrumb := value\<rparr>"

subsection \<open>Arming and disarming\<close>

text \<open>\<open>comm_window\<close> says whether a commissioning window is open.\<close>

definition FailSafe_arm :: "u16 \<Rightarrow> u64 \<Rightarrow> SessionMode \<Rightarrow> bool \<Rightarrow> nat \<Rightarrow> (FailSafe, unit) sr" where
  "FailSafe_arm timeout_secs breadcrumb session_mode comm_window now = (\<lambda>fl. case fl_state fl of
     Idle \<Rightarrow>
       if session_mode = PlainText then (Err GennCommInvalidAuthentication, fl)
       else if comm_window \<and> is_case_mode session_mode then (Err Busy, fl)
       else (Ok (), fl\<lparr>fl_state := Armed \<lparr>ax_armed_at = now, ax_timeout_secs = timeout_secs,
               ax_fab_idx = SessionMode_fab_idx session_mode, ax_flags = 0\<rparr>, fl_breadcrumb := breadcrumb\<rparr>)
   | Armed ctx \<Rightarrow>
       (case FailSafe_check_state session_mode 0 0 0 fl of
          Ok _ \<Rightarrow>
            if timeout_secs > 0
            then (Ok (), fl\<lparr>fl_state := Armed (ctx\<lparr>ax_armed_at := now, ax_timeout_secs := timeout_secs\<rparr>),
                    fl_breadcrumb := breadcrumb\<rparr>)
            else (Ok (), fl\<lparr>fl_state := Idle, fl_breadcrumb := 0\<rparr>)
        | Err e \<Rightarrow> (Err e, fl)
        | Panic \<Rightarrow> (Panic, fl)))"

definition FailSafe_disarm :: "SessionMode \<Rightarrow> ('n NodeState, Fabric) sr" where
  "FailSafe_disarm session_mode =
     sr_bind sr_get (\<lambda>n.
     if fl_state (nd_failsafe n) = Idle then sr_err FailSafeRequired
     else
       sr_bind (sr_res (FailSafe_get_case_fab_idx session_mode)) (\<lambda>fab_idx.
       sr_then (sr_res (FailSafe_check_state session_mode 0 0 0 (nd_failsafe n)))
       (sr_bind (sr_res (Fabrics_fabric fab_idx (nd_fabrics n))) (\<lambda>fabric.
       sr_then (on_failsafe (sr_modify (\<lambda>fl. fl\<lparr>fl_state := Idle, fl_breadcrumb := 0\<rparr>)))
       (sr_return fabric)))))"

subsection \<open>Expiry\<close>

definition Fabrics_add_load :: "'n Store_env \<Rightarrow> u8 \<Rightarrow> (Fabrics, unit) sr" where
  "Fabrics_add_load store fab_idx =
     sr_bind (sr_res (st_load store (FABRIC_KEYS_START + ucast fab_idx))) (\<lambda>data. case data of
       None \<Rightarrow> sr_return ()
     | Some data \<Rightarrow>
         sr_bind sr_get (\<lambda>fs.
         if length (fs_fabrics fs) < MAX_FABRICS
         then sr_bind (sr_res (st_fabric store data)) (\<lambda>f. sr_modify (\<lambda>fs. fs\<lparr>fs_fabrics := fs_fabrics fs @ [f]\<rparr>))
         else sr_err ResourceExhausted))"

text \<open>The rollback of the fabric the fail-safe is armed for, and of the networks.\<close>

definition restore_fabric :: "'n Store_env \<Rightarrow> u8 \<Rightarrow> ('n NodeState, unit) sr" where
  "restore_fabric store fab_idx =
     sr_when (fab_idx \<noteq> 0) (sr_then (on_fabrics (Fabrics_remove fab_idx)) (on_fabrics (Fabrics_add_load store fab_idx)))"

definition restore_networks :: "'n Store_env \<Rightarrow> ('n NodeState, unit) sr" where
  "restore_networks store =
     sr_bind (sr_res (st_load store NETWORKS_KEY)) (\<lambda>data. on_networks (case data of
       Some data \<Rightarrow> st_networks_load store data
     | None \<Rightarrow> st_networks_reset store))"

definition FailSafe_expire :: "'n Store_env \<Rightarrow> u32 option \<Rightarrow> ('n NodeState, bool) sr" where
  "FailSafe_expire store expire_sess_id =
     sr_bind sr_get (\<lambda>n. case fl_state (nd_failsafe n) of
       Idle \<Rightarrow> sr_return False
     | Armed ctx \<Rightarrow>
         sr_then (restore_fabric store (ax_fab_idx ctx))
         (sr_then (restore_networks store)
         (sr_then (sr_modify (\<lambda>n. n\<lparr>nd_sessions := Sessions_remove_pase expire_sess_id (nd_sessions n)\<rparr>))
         (sr_then (on_failsafe (sr_modify (\<lambda>fl. fl\<lparr>fl_state := Idle, fl_breadcrumb := 0\<rparr>)))
         (sr_then (notify [MdnsChanged, ClusterChanged 0 62, ClusterChanged 0 49])
         (sr_return True))))))"

definition expires_at :: "ArmedCtx \<Rightarrow> nat" where
  "expires_at ctx = ax_armed_at ctx + unat (ax_timeout_secs ctx) * 1000000000"

definition FailSafe_check_failsafe_timeout :: "'n Store_env \<Rightarrow> nat \<Rightarrow> ('n NodeState, bool) sr" where
  "FailSafe_check_failsafe_timeout store now =
     sr_bind sr_get (\<lambda>n. case fl_state (nd_failsafe n) of
       Idle \<Rightarrow> sr_return False
     | Armed ctx \<Rightarrow>
         if expires_at ctx \<le> now
         then sr_then (FailSafe_expire store None) (sr_return True)
         else sr_return False)"

subsection \<open>Certificate chains\<close>

definition canon_signature :: "bytes \<Rightarrow> bytes res" where
  "canon_signature bs = (if length bs = PKC_SIGNATURE_LEN then Ok bs else Err InvalidData)"

definition CertVerifier_add_cert :: "Cert_env \<Rightarrow> bytes \<Rightarrow> bytes \<Rightarrow> bytes res" where
  "CertVerifier_add_cert env cert parent =
     res_bind (ce_is_authority env cert parent) (\<lambda>authority.
     if \<not> authority then Err InvalidAuthKey
     else
       res_bind (ce_as_asn1 env cert) (\<lambda>asn1.
       res_bind (res_bind (fe_pubkey (ce_fabric env) parent) canon_public_key) (\<lambda>pubkey.
       res_bind (ce_pub_key env pubkey) (\<lambda>_.
       res_bind (res_bind (ce_signature env cert) canon_signature) (\<lambda>signature.
       res_bind (ce_verify env pubkey asn1 signature) (\<lambda>result.
         if \<not> result then Err InvalidSignature else Ok parent))))))"

definition CertVerifier_finalise :: "Cert_env \<Rightarrow> bytes \<Rightarrow> unit res" where
  "CertVerifier_finalise env cert = res_bind (CertVerifier_add_cert env cert cert) (\<lambda>_. Ok ())"

definition FailSafe_validate_certs :: "Cert_env \<Rightarrow> bytes \<Rightarrow> bytes option \<Rightarrow> bytes \<Rightarrow> unit res" where
  "FailSafe_validate_certs env noc icac root =
     res_bind (case icac of
         Some icac \<Rightarrow> res_bind (ce_is_authority env icac icac) (\<lambda>self_signed.
           if self_signed then Err InvalidData else CertVerifier_add_cert env noc icac)
       | None \<Rightarrow> Ok noc) (\<lambda>verifier.
     res_bind (CertVerifier_add_cert env verifier root) (CertVerifier_finalise env))"

definition map_err :: "ErrorCode \<Rightarrow> 'a res \<Rightarrow> 'a res" where
  "map_err e r = (case r of Err _ \<Rightarrow> Err e | _ \<Rightarrow> r)"

text \<open>The public key of the certificate must be that of the key pair the last request made.\<close>

definition check_csr_key :: "Cert_env \<Rightarrow> bytes \<Rightarrow> FailSafe \<Rightarrow> unit res" where
  "check_csr_key env noc fl =
     res_bind (ce_pub_key_of env (fl_secret_key fl)) (\<lambda>csr_pubkey.
     res_bind (fe_pubkey (ce_fabric env) noc) (\<lambda>noc_pubkey.
       if csr_pubkey \<noteq> noc_pubkey then Err NocInvalidPublicKey else Ok ()))"

subsection \<open>The commands\<close>

definition FailSafe_add_trusted_root_cert :: "Cert_env \<Rightarrow> SessionMode \<Rightarrow> bytes \<Rightarrow> (FailSafe, unit) sr" where
  "FailSafe_add_trusted_root_cert env session_mode root_ca =
     sr_bind sr_get (\<lambda>fl.
     sr_then (sr_res (FailSafe_check_state session_mode 0 ADD_ROOT_CERT_RECVD ADD_ROOT_CERT_RECVD fl))
     (sr_then (sr_res (map_err InvalidCommand (CertVerifier_finalise env root_ca)))
     (sr_then (\<lambda>fl. case refill MAX_CERT_TLV_LEN root_ca of
         Some bs \<Rightarrow> (Ok (), fl\<lparr>fl_root_ca := bs\<rparr>)
       | None \<Rightarrow> (Err InvalidCommand, fl\<lparr>fl_root_ca := []\<rparr>))
     (FailSafe_add_flags ADD_ROOT_CERT_RECVD))))"

text \<open>\<open>new_key\<close> is what the crypto backend generates.\<close>

definition FailSafe_add_csr_req :: "bytes res \<Rightarrow> SessionMode \<Rightarrow> (FailSafe, bytes) sr" where
  "FailSafe_add_csr_req new_key session_mode =
     sr_bind sr_get (\<lambda>fl.
     sr_then (sr_res (FailSafe_check_state session_mode 0 (ADD_CSR_REQ_RECVD OR UPDATE_CSR_REQ_RECVD) ADD_CSR_REQ_RECVD fl))
     (sr_bind (sr_res new_key) (\<lambda>key.
     sr_then (sr_modify (\<lambda>fl. fl\<lparr>fl_secret_key := key\<rparr>))
     (sr_then (FailSafe_add_flags ADD_CSR_REQ_RECVD)
     (sr_return key)))))"

definition FailSafe_update_csr_req :: "bytes res \<Rightarrow> SessionMode \<Rightarrow> (FailSafe, bytes) sr" where
  "FailSafe_update_csr_req new_key session_mode =
     sr_then (sr_res (FailSafe_get_case_fab_idx session_mode))
     (sr_bind sr_get (\<lambda>fl.
     sr_then (sr_res (FailSafe_check_state session_mode 0 (ADD_CSR_REQ_RECVD OR UPDATE_CSR_REQ_RECVD) UPDATE_CSR_REQ_RECVD fl))
     (sr_bind (sr_res new_key) (\<lambda>key.
     sr_then (sr_modify (\<lambda>fl. fl\<lparr>fl_secret_key := key\<rparr>))
     (sr_then (FailSafe_add_flags UPDATE_CSR_REQ_RECVD)
     (sr_return key))))))"

definition set_armed_fab_idx :: "u8 \<Rightarrow> (FailSafe, unit) sr" where
  "set_armed_fab_idx fab_idx = (\<lambda>fl. case fl_state fl of
     Armed ctx \<Rightarrow> (Ok (), fl\<lparr>fl_state := Armed (ctx\<lparr>ax_fab_idx := fab_idx\<rparr>)\<rparr>)
   | Idle \<Rightarrow> (Panic, fl))"

definition check_update_noc :: "Cert_env \<Rightarrow> SessionMode \<Rightarrow> bytes option \<Rightarrow> bytes \<Rightarrow> 'n NodeState \<Rightarrow> u8 res" where
  "check_update_noc env session_mode icac noc n =
     res_bind (FailSafe_get_case_fab_idx session_mode) (\<lambda>fab_idx.
     res_bind (FailSafe_check_state session_mode UPDATE_CSR_REQ_RECVD
       (ADD_ROOT_CERT_RECVD OR ADD_NOC_RECVD OR ADD_CSR_REQ_RECVD OR UPDATE_NOC_RECVD) UPDATE_NOC_RECVD (nd_failsafe n)) (\<lambda>_.
     res_bind (Fabrics_fabric fab_idx (nd_fabrics n)) (\<lambda>fabric.
     res_bind (map_err NocInvalidNoc (FailSafe_validate_certs env noc icac (fa_root_ca fabric))) (\<lambda>_.
     res_bind (check_csr_key env noc (nd_failsafe n)) (\<lambda>_.
     res_bind (fe_get_fabric_id (ce_fabric env) noc) (\<lambda>fabric_id.
       if fabric_id \<noteq> fa_fabric_id fabric then Err NocFabricConflict else Ok fab_idx))))))"

definition FailSafe_update_noc :: "Cert_env \<Rightarrow> SessionMode \<Rightarrow> bytes option \<Rightarrow> bytes \<Rightarrow> ('n NodeState, Fabric) sr" where
  "FailSafe_update_noc env session_mode icac noc =
     sr_bind sr_get (\<lambda>n.
     sr_bind (sr_res (check_update_noc env session_mode icac noc n)) (\<lambda>fab_idx.
     sr_then (on_fabrics (Fabrics_update (ce_fabric env) fab_idx (fl_secret_key (nd_failsafe n)) noc
       (case icac of Some icac \<Rightarrow> icac | None \<Rightarrow> [])))
     (sr_bind sr_get (\<lambda>n.
     sr_bind (sr_res (Fabrics_fabric fab_idx (nd_fabrics n))) (\<lambda>fabric.
     sr_then (on_failsafe (set_armed_fab_idx (fa_fab_idx fabric)))
     (sr_then (on_failsafe (FailSafe_add_flags UPDATE_NOC_RECVD))
     (sr_then (notify [MdnsChanged])
     (sr_return fabric))))))))"

fun check_no_conflict :: "Cert_env \<Rightarrow> u64 \<Rightarrow> bytes \<Rightarrow> Fabric list \<Rightarrow> unit res" where
  "check_no_conflict env fabric_id root_pubkey [] = Ok ()"
| "check_no_conflict env fabric_id root_pubkey (f # fs) =
     (if fabric_id = fa_fabric_id f
      then res_bind (fe_pubkey (ce_fabric env) (fa_root_ca f)) (\<lambda>p.
        if root_pubkey = p then Err NocFabricConflict else check_no_conflict env fabric_id root_pubkey fs)
      else check_no_conflict env fabric_id root_pubkey fs)"

definition check_add_noc ::
    "Cert_env \<Rightarrow> SessionMode \<Rightarrow> bytes option \<Rightarrow> bytes \<Rightarrow> bytes \<Rightarrow> u64 \<Rightarrow> 'n NodeState \<Rightarrow> unit res" where
  "check_add_noc env session_mode icac noc ipk case_admin_subject n =
     res_bind (FailSafe_check_state session_mode (ADD_ROOT_CERT_RECVD OR ADD_CSR_REQ_RECVD)
       (ADD_NOC_RECVD OR UPDATE_CSR_REQ_RECVD OR UPDATE_NOC_RECVD) ADD_NOC_RECVD (nd_failsafe n)) (\<lambda>_.
     if \<not> is_node case_admin_subject \<and> \<not> is_noc_cat case_admin_subject then Err NocInvalidAdminSubject
     else
       res_bind (map_err NocInvalidNoc (FailSafe_validate_certs env noc icac (fl_root_ca (nd_failsafe n)))) (\<lambda>_.
       res_bind (check_csr_key env noc (nd_failsafe n)) (\<lambda>_.
       res_bind (fe_get_fabric_id (ce_fabric env) noc) (\<lambda>fabric_id.
       res_bind (fe_pubkey (ce_fabric env) (fl_root_ca (nd_failsafe n))) (\<lambda>root_pubkey.
       res_bind (check_no_conflict env fabric_id root_pubkey (fs_fabrics (nd_fabrics n))) (\<lambda>_.
         if length ipk = AEAD_CANON_KEY_LEN then Ok () else Err InvalidData))))))"

definition FailSafe_add_noc ::
    "Cert_env \<Rightarrow> SessionMode \<Rightarrow> u16 \<Rightarrow> bytes option \<Rightarrow> bytes \<Rightarrow> bytes \<Rightarrow> u64 \<Rightarrow> ('n NodeState, Fabric) sr" where
  "FailSafe_add_noc env session_mode vendor_id icac noc ipk case_admin_subject =
     sr_bind sr_get (\<lambda>n.
     sr_then (sr_res (check_add_noc env session_mode icac noc ipk case_admin_subject n))
     (sr_bind (on_fabrics (\<lambda>fs. case Fabrics_add (ce_fabric env) (fl_secret_key (nd_failsafe n)) (fl_root_ca (nd_failsafe n)) noc
           (case icac of Some icac \<Rightarrow> icac | None \<Rightarrow> []) (Some ipk) vendor_id case_admin_subject fs of
         (Err e, fs) \<Rightarrow> (Err (if e = ResourceExhausted then NocFabricTableFull else e), fs)
       | out \<Rightarrow> out)) (\<lambda>fabric.
     sr_then (on_failsafe (set_armed_fab_idx (fa_fab_idx fabric)))
     (sr_then (on_failsafe (FailSafe_add_flags ADD_NOC_RECVD))
     (sr_then (notify [MdnsChanged])
     (sr_return fabric))))))"

end
