(* ===== verification/Commissioning.thy ===== *)
theory Commissioning
  imports Fail_Safe Access_Control Session_Safety
begin

section \<open>What the fail-safe guarantees\<close>

text \<open>
  The commands of a commissioning come in order, an operational certificate is only taken after the chain to the
  staged root and the key of the last request were checked, at most one certificate is
  taken while the fail-safe is armed, and expiry brings back what was stored.
\<close>

subsection \<open>Command order\<close>

lemmas noc_flag_defs = ADD_CSR_REQ_RECVD_def UPDATE_CSR_REQ_RECVD_def ADD_ROOT_CERT_RECVD_def ADD_NOC_RECVD_def
  UPDATE_NOC_RECVD_def

lemma check_state_ok:
  assumes "FailSafe_check_state mode present absent op fl = Ok x"
  obtains ctx where "fl_state fl = Armed ctx" "ax_fab_idx ctx = SessionMode_fab_idx mode" "mode \<noteq> PlainText"
    "flags_contains (ax_flags ctx) present" "ax_flags ctx AND absent = 0"
  using assms by (auto simp: FailSafe_check_state_def Let_def split: State.splits if_splits)

lemma check_state_refuses:
  assumes "fl_state fl = Armed ctx" and "ax_flags ctx AND absent \<noteq> 0"
  shows "\<exists>e. FailSafe_check_state mode present absent op fl = Err e"
  using assms by (simp add: FailSafe_check_state_def Let_def)

text \<open>
  The flags of an armed fail-safe: one kind of key request only, a certificate to add only after a root and a key request for
  adding, one to update only after a key request for updating, and the staged root has been
  checked.
\<close>

definition FailSafe_ok :: "Cert_env \<Rightarrow> FailSafe \<Rightarrow> bool" where
  "FailSafe_ok env fl \<longleftrightarrow> (case fl_state fl of Idle \<Rightarrow> True | Armed ctx \<Rightarrow>
     (bit (ax_flags ctx) 2 \<longrightarrow> CertVerifier_finalise env (fl_root_ca fl) = Ok () \<and> length (fl_root_ca fl) \<le> MAX_CERT_TLV_LEN) \<and>
     \<not> (bit (ax_flags ctx) 0 \<and> bit (ax_flags ctx) 1) \<and>
     (bit (ax_flags ctx) 3 \<longrightarrow> bit (ax_flags ctx) 0 \<and> bit (ax_flags ctx) 2 \<and> \<not> bit (ax_flags ctx) 4) \<and>
     (bit (ax_flags ctx) 4 \<longrightarrow> bit (ax_flags ctx) 1))"

inductive node_step :: "Cert_env \<Rightarrow> 'n NodeState \<Rightarrow> 'n NodeState \<Rightarrow> bool" for env where
  step_arm: "node_step env n (snd (on_failsafe (FailSafe_arm t b mode w now) n))"
| step_disarm: "node_step env n (snd (FailSafe_disarm mode n))"
| step_timeout: "node_step env n (snd (FailSafe_check_failsafe_timeout store now n))"
| step_expire: "node_step env n (snd (FailSafe_expire store e n))"
| step_breadcrumb: "node_step env n (n\<lparr>nd_failsafe := FailSafe_set_breadcrumb b (nd_failsafe n)\<rparr>)"
| step_root: "node_step env n (snd (on_failsafe (FailSafe_add_trusted_root_cert env mode ca) n))"
| step_csr: "node_step env n (snd (on_failsafe (FailSafe_add_csr_req key mode) n))"
| step_update_csr: "node_step env n (snd (on_failsafe (FailSafe_update_csr_req key mode) n))"
| step_add_noc: "node_step env n (snd (FailSafe_add_noc env mode vid icac noc ipk subj n))"
| step_update_noc: "node_step env n (snd (FailSafe_update_noc env mode icac noc n))"
| step_fabrics: "fabrics_step (nd_fabrics n) fs \<Longrightarrow> node_step env n (n\<lparr>nd_fabrics := fs\<rparr>)"
| step_sessions: "sessions_step (nd_sessions n) t \<Longrightarrow> node_step env n (n\<lparr>nd_sessions := t\<rparr>)"

inductive node_reachable :: "Cert_env \<Rightarrow> 'n NodeState \<Rightarrow> bool" for env where
  node_start: "fl_state (nd_failsafe n) = Idle \<Longrightarrow> node_reachable env n"
| node_next: "node_reachable env n \<Longrightarrow> node_step env n n' \<Longrightarrow> node_reachable env n'"

definition keeps_ok :: "Cert_env \<Rightarrow> (FailSafe, 'a) sr \<Rightarrow> bool" where
  "keeps_ok env m \<longleftrightarrow> (\<forall>fl. FailSafe_ok env fl \<longrightarrow> FailSafe_ok env (snd (m fl)))"

lemma FailSafe_ok_Idle: "fl_state fl = Idle \<Longrightarrow> FailSafe_ok env fl"
  by (simp add: FailSafe_ok_def)

lemma arm_keeps_ok: "keeps_ok env (FailSafe_arm t b mode w now)"
  by (auto simp: keeps_ok_def FailSafe_arm_def FailSafe_ok_def split: State.splits res.splits if_splits)

lemma root_keeps_ok: "keeps_ok env (FailSafe_add_trusted_root_cert env mode ca)"
proof -
  have "FailSafe_ok env (snd (FailSafe_add_trusted_root_cert env mode ca fl))" if ok: "FailSafe_ok env fl" for fl
  proof (cases "FailSafe_check_state mode 0 ADD_ROOT_CERT_RECVD ADD_ROOT_CERT_RECVD fl = Ok () \<and>
      CertVerifier_finalise env ca = Ok ()")
    case True
    then obtain ctx where ctx: "fl_state fl = Armed ctx" "ax_flags ctx AND ADD_ROOT_CERT_RECVD = 0" by (auto elim: check_state_ok)
    have "\<not> bit (ax_flags ctx) 2" using ctx(2) by (simp add: noc_flag_defs flag_bit_simps)
    then show ?thesis
      using True ctx(1) ok
      by (auto simp: FailSafe_add_trusted_root_cert_def sr_bind_def sr_simps map_err_def refill_def FailSafe_add_flags_def
          FailSafe_ok_def noc_flag_defs bit_flags_ops bit_numeral_rec)
  next
    case False
    then show ?thesis
      using ok by (auto simp: FailSafe_add_trusted_root_cert_def sr_bind_def sr_simps map_err_def split: res.splits)
  qed
  then show ?thesis by (simp add: keeps_ok_def)
qed

lemma request_keeps_ok:
  assumes "flag = ADD_CSR_REQ_RECVD \<or> flag = UPDATE_CSR_REQ_RECVD" and "FailSafe_ok env fl" and "fl_state fl = Armed ctx"
    and "ax_flags ctx AND (ADD_CSR_REQ_RECVD OR UPDATE_CSR_REQ_RECVD) = 0"
    and "FailSafe_add_flags flag (fl\<lparr>fl_secret_key := key\<rparr>) = (r, fl')"
  shows "FailSafe_ok env fl'"
proof -
  have "\<not> bit (ax_flags ctx) 0" "\<not> bit (ax_flags ctx) 1" using assms(4) by (simp_all add: noc_flag_defs flag_bit_simps)
  then show ?thesis
    using assms(1-3,5) by (auto simp: FailSafe_add_flags_def FailSafe_ok_def noc_flag_defs bit_flags_ops bit_numeral_rec)
qed

lemma csr_keeps_ok: "keeps_ok env (FailSafe_add_csr_req key mode)" "keeps_ok env (FailSafe_update_csr_req key mode)"
  unfolding keeps_ok_def
  by (auto simp: FailSafe_add_csr_req_def FailSafe_update_csr_req_def sr_bind_def sr_simps split: res.splits prod.splits
      elim!: check_state_ok intro: request_keeps_ok)

lemma add_noc_cases:
  obtains (failed) r fs where "FailSafe_add_noc env mode vid icac noc ipk subj n = (r, n\<lparr>nd_fabrics := fs\<rparr>)" "\<And>f. r \<noteq> Ok f"
  | (added) ctx f fs where "check_add_noc env mode icac noc ipk subj n = Ok ()" "fl_state (nd_failsafe n) = Armed ctx"
      "Fabrics_add (ce_fabric env) (fl_secret_key (nd_failsafe n)) (fl_root_ca (nd_failsafe n)) noc
         (case icac of Some icac \<Rightarrow> icac | None \<Rightarrow> []) (Some ipk) vid subj (nd_fabrics n) = (Ok f, fs)"
      "FailSafe_add_noc env mode vid icac noc ipk subj n = (Ok f, n\<lparr>nd_fabrics := fs,
         nd_failsafe := (nd_failsafe n)\<lparr>fl_state := Armed (ctx\<lparr>ax_fab_idx := fa_fab_idx f,
           ax_flags := flags_insert (ax_flags ctx) ADD_NOC_RECVD\<rparr>)\<rparr>,
         nd_notified := nd_notified n @ [MdnsChanged]\<rparr>)"
proof (cases "check_add_noc env mode icac noc ipk subj n")
  case (Ok u)
  then obtain ctx where ctx: "fl_state (nd_failsafe n) = Armed ctx"
    by (auto simp: check_add_noc_def res_bind_ok_iff elim: check_state_ok)
  obtain r fs where "Fabrics_add (ce_fabric env) (fl_secret_key (nd_failsafe n)) (fl_root_ca (nd_failsafe n)) noc
      (case icac of Some icac \<Rightarrow> icac | None \<Rightarrow> []) (Some ipk) vid subj (nd_fabrics n) = (r, fs)" by fastforce
  then show ?thesis
    using Ok ctx failed [of _ fs] added [of ctx _ fs]
    by (cases r) (auto simp: FailSafe_add_noc_def sr_bind_def sr_simps on_fabrics_def on_failsafe_def set_armed_fab_idx_def
        FailSafe_add_flags_def notify_def)
qed (use failed [of _ "nd_fabrics n"] in \<open>auto simp: FailSafe_add_noc_def sr_bind_def sr_simps\<close>)

lemma update_noc_cases:
  obtains (failed) r fs where "FailSafe_update_noc env mode icac noc n = (r, n\<lparr>nd_fabrics := fs\<rparr>)" "\<And>f. r \<noteq> Ok f"
  | (updated) ctx i f fs where "check_update_noc env mode icac noc n = Ok i" "fl_state (nd_failsafe n) = Armed ctx"
      "Fabrics_update (ce_fabric env) i (fl_secret_key (nd_failsafe n)) noc
         (case icac of Some icac \<Rightarrow> icac | None \<Rightarrow> []) (nd_fabrics n) = (Ok (), fs)"
      "Fabrics_get i fs = Some f"
      "FailSafe_update_noc env mode icac noc n = (Ok f, n\<lparr>nd_fabrics := fs,
         nd_failsafe := (nd_failsafe n)\<lparr>fl_state := Armed (ctx\<lparr>ax_fab_idx := fa_fab_idx f,
           ax_flags := flags_insert (ax_flags ctx) UPDATE_NOC_RECVD\<rparr>)\<rparr>,
         nd_notified := nd_notified n @ [MdnsChanged]\<rparr>)"
proof (cases "check_update_noc env mode icac noc n")
  case (Ok i)
  then obtain ctx where ctx: "fl_state (nd_failsafe n) = Armed ctx"
    by (auto simp: check_update_noc_def res_bind_ok_iff elim: check_state_ok)
  obtain r fs where u: "Fabrics_update (ce_fabric env) i (fl_secret_key (nd_failsafe n)) noc
      (case icac of Some icac \<Rightarrow> icac | None \<Rightarrow> []) (nd_fabrics n) = (r, fs)" by fastforce
  show ?thesis
    using Ok ctx u failed [of _ fs] updated [of i ctx fs]
    by (cases r; cases "Fabrics_get i fs") (auto simp: FailSafe_update_noc_def sr_bind_def sr_simps on_fabrics_def on_failsafe_def
        set_armed_fab_idx_def FailSafe_add_flags_def notify_def Fabrics_fabric_def)
qed (use failed [of _ "nd_fabrics n"] in \<open>auto simp: FailSafe_update_noc_def sr_bind_def sr_simps\<close>)

lemma add_noc_flags:
  assumes "check_add_noc env mode icac noc ipk subj n = Ok ()" and "fl_state (nd_failsafe n) = Armed ctx"
  shows "bit (ax_flags ctx) 0" "\<not> bit (ax_flags ctx) 1" "bit (ax_flags ctx) 2" "\<not> bit (ax_flags ctx) 3" "\<not> bit (ax_flags ctx) 4"
  using assms by (auto simp: check_add_noc_def res_bind_ok_iff noc_flag_defs flags_contains_def flag_bit_simps elim!: check_state_ok)

lemma update_noc_flags:
  assumes "check_update_noc env mode icac noc n = Ok i" and "fl_state (nd_failsafe n) = Armed ctx"
  shows "\<not> bit (ax_flags ctx) 0" "bit (ax_flags ctx) 1" "\<not> bit (ax_flags ctx) 2" "\<not> bit (ax_flags ctx) 3" "\<not> bit (ax_flags ctx) 4"
  using assms by (auto simp: check_update_noc_def res_bind_ok_iff noc_flag_defs flags_contains_def flag_bit_simps elim!: check_state_ok)

lemma noc_keeps_ok:
  assumes "FailSafe_ok env (nd_failsafe n)"
  shows "FailSafe_ok env (nd_failsafe (snd (FailSafe_add_noc env mode vid icac noc ipk subj n)))"
    "FailSafe_ok env (nd_failsafe (snd (FailSafe_update_noc env mode icac noc n)))"
proof -
  show "FailSafe_ok env (nd_failsafe (snd (FailSafe_add_noc env mode vid icac noc ipk subj n)))"
  proof (cases rule: add_noc_cases [of env mode vid icac noc ipk subj n])
    case (added ctx f fs)
    then show ?thesis using assms add_noc_flags [OF added(1,2)]
      by (auto simp: FailSafe_ok_def noc_flag_defs bit_flags_ops bit_numeral_rec)
  qed (use assms in simp)
  show "FailSafe_ok env (nd_failsafe (snd (FailSafe_update_noc env mode icac noc n)))"
  proof (cases rule: update_noc_cases [of env mode icac noc n])
    case (updated ctx i f fs)
    then show ?thesis using assms update_noc_flags [OF updated(1,2)]
      by (auto simp: FailSafe_ok_def noc_flag_defs bit_flags_ops bit_numeral_rec)
  qed (use assms in simp)
qed

lemma on_failsafe_keeps_ok:
  "keeps_ok env m \<Longrightarrow> FailSafe_ok env (nd_failsafe n) \<Longrightarrow> FailSafe_ok env (nd_failsafe (snd (on_failsafe m n)))"
  by (auto simp: keeps_ok_def on_failsafe_def split: prod.splits)

text \<open>Parts of the node the rollback does not touch.\<close>

lemma restore_keeps:
  "restore_fabric store i n = (r, n') \<Longrightarrow> nd_failsafe n' = nd_failsafe n"
  "restore_networks store n = (r, n') \<Longrightarrow> nd_failsafe n' = nd_failsafe n"
  by (auto simp: restore_fabric_def restore_networks_def sr_bind_def sr_simps on_fabrics_def on_networks_def
      split: prod.splits res.splits if_splits)

lemma expire_keeps_ok: "FailSafe_ok env (nd_failsafe n) \<Longrightarrow> FailSafe_ok env (nd_failsafe (snd (FailSafe_expire store e n)))"
  by (auto simp: FailSafe_expire_def sr_bind_def sr_simps on_failsafe_def notify_def FailSafe_ok_Idle
      split: State.splits prod.splits res.splits dest!: restore_keeps)

lemma timeout_keeps_ok:
  "FailSafe_ok env (nd_failsafe n) \<Longrightarrow> FailSafe_ok env (nd_failsafe (snd (FailSafe_check_failsafe_timeout store now n)))"
  using expire_keeps_ok [of env n store None]
  by (auto simp: FailSafe_check_failsafe_timeout_def sr_bind_def sr_simps split: State.splits prod.splits res.splits)

lemma disarm_keeps_ok: "FailSafe_ok env (nd_failsafe n) \<Longrightarrow> FailSafe_ok env (nd_failsafe (snd (FailSafe_disarm mode n)))"
  by (auto simp: FailSafe_disarm_def sr_bind_def sr_simps on_failsafe_def FailSafe_ok_Idle split: prod.splits res.splits)

lemma node_step_ok: "node_step env n n' \<Longrightarrow> FailSafe_ok env (nd_failsafe n) \<Longrightarrow> FailSafe_ok env (nd_failsafe n')"
proof (induction rule: node_step.induct)
  case (step_breadcrumb n b)
  then show ?case by (simp add: FailSafe_ok_def FailSafe_set_breadcrumb_def split: State.splits)
qed (simp_all add: on_failsafe_keeps_ok arm_keeps_ok disarm_keeps_ok timeout_keeps_ok expire_keeps_ok root_keeps_ok csr_keeps_ok noc_keeps_ok)

lemma node_reachable_ok: "node_reachable env n \<Longrightarrow> FailSafe_ok env (nd_failsafe n)"
  by (induction rule: node_reachable.induct) (auto intro: FailSafe_ok_Idle node_step_ok)

text \<open>Once a certificate was taken, no second one is until the fail-safe is disarmed or expires.\<close>

lemma second_noc_refused:
  assumes "fl_state (nd_failsafe n) = Armed ctx" and "bit (ax_flags ctx) 3 \<or> bit (ax_flags ctx) 4"
  shows "\<exists>e. FailSafe_add_noc env mode vid icac noc ipk subj n = (Err e, n)"
    "\<exists>e. FailSafe_update_noc env mode icac noc n = (Err e, n)"
proof -
  have "ax_flags ctx AND (ADD_NOC_RECVD OR UPDATE_CSR_REQ_RECVD OR UPDATE_NOC_RECVD) \<noteq> 0"
      "ax_flags ctx AND (ADD_ROOT_CERT_RECVD OR ADD_NOC_RECVD OR ADD_CSR_REQ_RECVD OR UPDATE_NOC_RECVD) \<noteq> 0"
    using assms(2) by (auto simp: noc_flag_defs flag_bit_simps)
  then obtain e1 e2 where
    "FailSafe_check_state mode (ADD_ROOT_CERT_RECVD OR ADD_CSR_REQ_RECVD)
       (ADD_NOC_RECVD OR UPDATE_CSR_REQ_RECVD OR UPDATE_NOC_RECVD) ADD_NOC_RECVD (nd_failsafe n) = Err e1"
    "FailSafe_check_state mode UPDATE_CSR_REQ_RECVD
       (ADD_ROOT_CERT_RECVD OR ADD_NOC_RECVD OR ADD_CSR_REQ_RECVD OR UPDATE_NOC_RECVD) UPDATE_NOC_RECVD (nd_failsafe n) = Err e2"
    using check_state_refuses [OF assms(1)] by metis
  then show "\<exists>e. FailSafe_add_noc env mode vid icac noc ipk subj n = (Err e, n)"
      "\<exists>e. FailSafe_update_noc env mode icac noc n = (Err e, n)"
    by (simp_all add: FailSafe_add_noc_def FailSafe_update_noc_def check_add_noc_def check_update_noc_def sr_bind_def sr_simps)
      (cases mode; simp)
qed

subsection \<open>Taking a certificate\<close>

definition same_certs :: "Fabric \<Rightarrow> Fabric \<Rightarrow> bool" where
  "same_certs f g \<longleftrightarrow> fa_root_ca g = fa_root_ca f \<and> fa_noc g = fa_noc f \<and> fa_fab_idx g = fa_fab_idx f"

lemma update_steps_certs:
  "set_root_ca (Some ca) f = (Ok x, g) \<Longrightarrow> same_certs (f\<lparr>fa_root_ca := ca\<rparr>) g"
  "set_icac icac f = (Ok x, g) \<Longrightarrow> same_certs f g"
  "set_noc noc f = (Ok x, g) \<Longrightarrow> same_certs (f\<lparr>fa_noc := noc\<rparr>) g"
  "set_ids env noc f = (Ok x, g) \<Longrightarrow> same_certs f g"
  "set_ipk env ek f = (Ok x, g) \<Longrightarrow> same_certs f g"
  "set_admin subj f = (Ok x, g) \<Longrightarrow> same_certs f g"
  by (auto simp: same_certs_def set_root_ca_def set_icac_def set_noc_def set_ids_def set_ipk_def set_admin_def sr_bind_ok_iff sr_simps
      refill_def split: prod.splits res.splits if_splits option.splits)

lemma Fabric_update_stores:
  assumes "Fabric_update env (Some ca) noc icac sk ek vid subj f = (Ok (), f')"
  shows "fa_root_ca f' = ca" "fa_noc f' = noc" "fa_secret_key f' = sk" "fa_fab_idx f' = fa_fab_idx f"
  using assms unfolding Fabric_update_def
  by (auto simp: sr_bind_ok_iff sr_modify_def same_certs_def split: option.splits dest!: update_steps_certs)

lemma Fabrics_add_ok:
  assumes "Fabrics_add env sk ca noc icac ek vid subj fs = (Ok f, fs')"
  shows "fs' = fs\<lparr>fs_fabrics := fs_fabrics fs @ [f]\<rparr>" "length (fs_fabrics fs) < MAX_FABRICS"
    "fa_root_ca f = ca" "fa_noc f = noc" "fa_secret_key f = sk" "next_fab_idx fs = Some (fa_fab_idx f)" "fa_fab_idx f \<noteq> 0"
  using assms Fabric_update_stores [of env ca noc icac sk ek "Some vid" "Some subj"]
  by (auto simp: Fabrics_add_def Fabrics_add_with_post_init_def Fabric_init_def split: option.splits if_splits prod.splits res.splits)

lemma Fabrics_add_fresh:
  assumes "Fabrics_add env sk ca noc icac ek vid subj fs = (Ok f, fs')"
  shows "Fabrics_get (fa_fab_idx f) fs = None"
  by (rule next_fab_idx_fresh [of fs]) (use Fabrics_add_ok [OF assms] in \<open>auto simp: Fabrics_get_def find_None_iff\<close>)

lemma check_no_conflict_ok:
  "check_no_conflict env i p fs = Ok () \<Longrightarrow> g \<in> set fs \<Longrightarrow> fa_fabric_id g = i \<Longrightarrow>
   \<exists>q. fe_pubkey (ce_fabric env) (fa_root_ca g) = Ok q \<and> q \<noteq> p"
  by (induction fs) (auto simp: res_bind_ok_iff split: if_splits)


definition cert_env :: Cert_env where
  "cert_env = \<lparr>ce_fabric = fab_env, ce_is_authority = (\<lambda>_ _. Ok True), ce_as_asn1 = Ok, ce_signature = (\<lambda>_. Ok (replicate 64 0)),
     ce_pub_key = (\<lambda>_. Ok ()), ce_verify = (\<lambda>_ _ _. Ok True), ce_pub_key_of = (\<lambda>_. Ok (replicate 65 4))\<rparr>"

definition fresh_node :: "unit NodeState" where
  "fresh_node = \<lparr>nd_failsafe = FailSafe_new, nd_fabrics = Fabrics_new, nd_sessions = Sessions_new, nd_networks = (), nd_notified = []\<rparr>"

definition staged_node :: "unit NodeState" where
  "staged_node = snd (on_failsafe (FailSafe_add_csr_req (Ok [1]) (Pase 0))
     (snd (on_failsafe (FailSafe_add_trusted_root_cert cert_env (Pase 0) [2])
     (snd (on_failsafe (FailSafe_arm 60 1 (Pase 0) True 0) fresh_node)))))"

lemma staged_node_reachable: "node_reachable cert_env staged_node"
  unfolding staged_node_def
  by (intro node_next [OF _ step_csr] node_next [OF _ step_root] node_next [OF _ step_arm] node_start)
    (simp add: fresh_node_def FailSafe_new_def)

lemmas cert_env_defs = cert_env_def CertVerifier_finalise_def CertVerifier_add_cert_def canon_signature_def PKC_SIGNATURE_LEN_def
  canon_public_key_def PKC_CANON_PUBLIC_KEY_LEN_def fab_env_def

lemma staged_node_value:
  "staged_node = fresh_node\<lparr>nd_failsafe := \<lparr>fl_state = Armed \<lparr>ax_armed_at = 0, ax_timeout_secs = 60, ax_fab_idx = 0, ax_flags = 5\<rparr>,
     fl_secret_key = [1], fl_root_ca = [2], fl_breadcrumb = 1\<rparr>\<rparr>"
  by (simp add: staged_node_def on_failsafe_def FailSafe_arm_def fresh_node_def FailSafe_new_def FailSafe_add_trusted_root_cert_def
      FailSafe_add_csr_req_def sr_bind_def sr_simps FailSafe_check_state_def noc_flag_defs flags_contains_def map_err_def cert_env_defs
      refill_def MAX_CERT_TLV_LEN_def FailSafe_add_flags_def flags_insert_def Let_def)

lemma staged_node_add_noc:
  "\<exists>f n'. FailSafe_add_noc cert_env (Pase 0) 0xFFF1 None [3] (replicate 16 0) 112233 staged_node = (Ok f, n') \<and> fa_fab_idx f = 1"
proof -
  have "check_add_noc cert_env (Pase 0) None [3] (replicate 16 0) 112233 staged_node = Ok ()"
    by (simp add: staged_node_value check_add_noc_def FailSafe_check_state_def noc_flag_defs flags_contains_def map_err_def
        FailSafe_validate_certs_def cert_env_defs check_csr_key_def is_node_def fresh_node_def Fabrics_new_def AEAD_CANON_KEY_LEN_def)
  moreover have "\<exists>f fs. Fabrics_add (ce_fabric cert_env) [1] [2] [3] [] (Some (replicate 16 0)) 0xFFF1 112233 Fabrics_new = (Ok f, fs) \<and> fa_fab_idx f = 1"
    by (simp add: cert_env_def, simp add: add_fabric_defs KeySet_update_def sr_simps)
  ultimately show ?thesis
    by (auto simp: FailSafe_add_noc_def sr_bind_def sr_simps on_fabrics_def on_failsafe_def set_armed_fab_idx_def
        FailSafe_add_flags_def notify_def staged_node_value fresh_node_def)
qed


subsection \<open>Rollback\<close>

text \<open>What the store holds for a fabric.\<close>

definition stored :: "'n Store_env \<Rightarrow> u8 \<Rightarrow> Fabric list res" where
  "stored store i = res_bind (st_load store (FABRIC_KEYS_START + ucast i)) (\<lambda>data.
     case data of None \<Rightarrow> Ok [] | Some data \<Rightarrow> res_bind (st_fabric store data) (\<lambda>f. Ok [f]))"

lemma restore_fabric_ok:
  assumes "Fabrics_get i (nd_fabrics n) \<noteq> None" and "stored store i = Ok xs" and "length (fs_fabrics (nd_fabrics n)) \<le> MAX_FABRICS"
    and "i \<noteq> 0"
  shows "restore_fabric store i n = (Ok (), n\<lparr>nd_fabrics := (nd_fabrics n)\<lparr>fs_fabrics :=
    filter (\<lambda>f. fa_fab_idx f \<noteq> i) (fs_fabrics (nd_fabrics n)) @ xs\<rparr>\<rparr>)"
proof -
  let ?ys = "filter (\<lambda>f. fa_fab_idx f \<noteq> i) (fs_fabrics (nd_fabrics n))"
  obtain g where "g \<in> set (fs_fabrics (nd_fabrics n))" "fa_fab_idx g = i" using assms(1) by (auto dest: Fabrics_get_SomeD)
  then have "length ?ys < length (fs_fabrics (nd_fabrics n))" by (simp add: length_filter_less)
  then show ?thesis
    using assms by (auto simp: restore_fabric_def sr_bind_def sr_simps on_fabrics_def Fabrics_remove_def Fabrics_fabric_def
        Fabrics_add_load_def stored_def res_bind_ok_iff split: option.splits)
qed

lemma expire_ok:
  assumes "fl_state (nd_failsafe n) = Armed ctx" and "restore_fabric store (ax_fab_idx ctx) n = (Ok (), n\<lparr>nd_fabrics := fs\<rparr>)"
    and "restore_networks store (n\<lparr>nd_fabrics := fs\<rparr>) = (Ok (), n\<lparr>nd_fabrics := fs, nd_networks := w\<rparr>)"
  shows "FailSafe_expire store e n = (Ok True, n\<lparr>nd_fabrics := fs, nd_networks := w,
    nd_sessions := Sessions_remove_pase e (nd_sessions n), nd_failsafe := (nd_failsafe n)\<lparr>fl_state := Idle, fl_breadcrumb := 0\<rparr>,
    nd_notified := nd_notified n @ [MdnsChanged, ClusterChanged 0 62, ClusterChanged 0 49]\<rparr>)"
  using assms by (simp add: FailSafe_expire_def sr_bind_def sr_simps on_failsafe_def notify_def)

lemma restore_networks_ok:
  assumes "st_load store NETWORKS_KEY = Ok d"
    and "(case d of Some b \<Rightarrow> st_networks_load store b | None \<Rightarrow> st_networks_reset store) (nd_networks n) = (Ok (), w)"
  shows "restore_networks store (n\<lparr>nd_fabrics := fs\<rparr>) = (Ok (), n\<lparr>nd_fabrics := fs, nd_networks := w\<rparr>)"
  using assms by (auto simp: restore_networks_def sr_bind_def sr_simps on_networks_def split: option.splits)

lemma filter_update_out: "k < length xs \<Longrightarrow> \<not> P (xs ! k) \<Longrightarrow> \<not> P y \<Longrightarrow> filter P (xs[k := y]) = filter P xs"
  by (induction xs arbitrary: k) (auto simp: nth_Cons split: nat.splits)

lemma Fabrics_update_others:
  assumes "Fabrics_update env i sk noc icac fs = (Ok (), fs')"
  shows "filter (\<lambda>f. fa_fab_idx f \<noteq> i) (fs_fabrics fs') = filter (\<lambda>f. fa_fab_idx f \<noteq> i) (fs_fabrics fs)"
    "length (fs_fabrics fs') = length (fs_fabrics fs)" "fs' = fs\<lparr>fs_fabrics := fs_fabrics fs'\<rparr>"
proof -
  let ?m = "Fabric_update env None noc icac sk None None None"
  obtain k where k: "position (\<lambda>f. fa_fab_idx f = i) (fs_fabrics fs) = Some k"
    using assms by (auto simp: Fabrics_update_def on_fabric_def split: option.splits)
  have "fa_fab_idx (snd (?m (fs_fabrics fs ! k))) = i" using keeps_update [of env None noc icac sk None None None] position_SomeD [OF k]
    by (simp add: keeps_def)
  then show "filter (\<lambda>f. fa_fab_idx f \<noteq> i) (fs_fabrics fs') = filter (\<lambda>f. fa_fab_idx f \<noteq> i) (fs_fabrics fs)"
      "length (fs_fabrics fs') = length (fs_fabrics fs)" "fs' = fs\<lparr>fs_fabrics := fs_fabrics fs'\<rparr>"
    using on_fabric_list [OF k, of ?m] assms position_SomeD [OF k] by (auto simp: Fabrics_update_def filter_update_out)
qed

lemma find_append: "find P (xs @ ys) = (case find P xs of None \<Rightarrow> find P ys | Some x \<Rightarrow> Some x)"
  by (induction xs) auto

lemma find_partition:
  "find (\<lambda>f. fa_fab_idx f = j) (filter (\<lambda>f. fa_fab_idx f \<noteq> i) xs @ filter (\<lambda>f. fa_fab_idx f = i) xs) = find (\<lambda>f. fa_fab_idx f = j) xs"
proof (cases "j = i")
  case True
  have "find (\<lambda>f. fa_fab_idx f = i) (filter (\<lambda>f. fa_fab_idx f \<noteq> i) xs) = None" by (simp add: find_None_iff)
  with True show ?thesis using find_filter_other [of "\<lambda>f. fa_fab_idx f = i" "\<lambda>f. fa_fab_idx f = i" xs] by (simp add: find_append)
next
  case False
  have "find (\<lambda>f. fa_fab_idx f = j) (filter (\<lambda>f. fa_fab_idx f = i) xs) = None" using False by (auto simp: find_None_iff)
  with False show ?thesis using find_filter_other [of "\<lambda>f. fa_fab_idx f = j" "\<lambda>f. fa_fab_idx f \<noteq> i" xs]
    by (auto simp: find_append split: option.splits)
qed

lemma mset_partition: "mset (filter (\<lambda>x. \<not> P x) xs @ filter P xs) = mset xs"
  by (induction xs) auto

text \<open>The effect of either command on the fabric table: the fabrics with another index stay.\<close>

lemma noc_command_effect:
  assumes "fabrics_reachable (nd_fabrics n)"
    and "FailSafe_add_noc env mode vid icac noc ipk subj n = (Ok f, n') \<or> FailSafe_update_noc env mode icac noc n = (Ok f, n')"
  obtains ctx where "fl_state (nd_failsafe n') = Armed ctx" "ax_fab_idx ctx = fa_fab_idx f" "fa_fab_idx f \<noteq> 0"
    "filter (\<lambda>g. fa_fab_idx g \<noteq> fa_fab_idx f) (fs_fabrics (nd_fabrics n')) =
     filter (\<lambda>g. fa_fab_idx g \<noteq> fa_fab_idx f) (fs_fabrics (nd_fabrics n))"
    "length (fs_fabrics (nd_fabrics n')) \<le> MAX_FABRICS" "Fabrics_get (fa_fab_idx f) (nd_fabrics n') \<noteq> None"
    "nd_networks n' = nd_networks n" "nd_sessions n' = nd_sessions n" "nd_fabrics n' = (nd_fabrics n)\<lparr>fs_fabrics := fs_fabrics (nd_fabrics n')\<rparr>"
proof -
  have inv: "Fabrics_inv (nd_fabrics n)" by (rule fabrics_reachable_inv [OF assms(1)])
  consider (a) "FailSafe_add_noc env mode vid icac noc ipk subj n = (Ok f, n')" | (u) "FailSafe_update_noc env mode icac noc n = (Ok f, n')"
    using assms(2) by blast
  then show ?thesis
  proof cases
    case a
    then show ?thesis
    proof (cases rule: add_noc_cases [of env mode vid icac noc ipk subj n])
      case (added ctx g fs)
      note ok = Fabrics_add_ok [OF added(3)]
      have "f = g" and n': "snd (FailSafe_add_noc env mode vid icac noc ipk subj n) = n'" using a added(4) by (auto simp: prod_eq_iff)
      moreover have "filter (\<lambda>h. fa_fab_idx h \<noteq> fa_fab_idx g) (fs_fabrics (nd_fabrics n)) = fs_fabrics (nd_fabrics n)"
        using Fabrics_add_fresh [OF added(3)] by (auto simp: Fabrics_get_def find_None_iff intro: filter_True)
      moreover have "Fabrics_get (fa_fab_idx g) fs \<noteq> None" by (auto simp: ok(1) Fabrics_get_def find_None_iff)
      ultimately show ?thesis using that [of "ctx\<lparr>ax_fab_idx := fa_fab_idx g, ax_flags := flags_insert (ax_flags ctx) ADD_NOC_RECVD\<rparr>"] ok n' [unfolded added(4), symmetric]
        by simp
    qed auto
  next
    case u
    then show ?thesis
    proof (cases rule: update_noc_cases [of env mode icac noc n])
      case (updated ctx i g fs)
      note oth = Fabrics_update_others [OF updated(3)]
      have g: "fa_fab_idx g = i" using Fabrics_get_SomeD [OF updated(4)] by simp
      obtain h where "Fabrics_get i (nd_fabrics n) = Some h"
        using updated(1) by (auto simp: check_update_noc_def res_bind_ok_iff Fabrics_fabric_def split: option.splits if_splits)
      then have "i \<noteq> 0" using inv by (auto simp: Fabrics_inv_def Fabric_inv_def dest!: Fabrics_get_SomeD)
      moreover have "f = g" and n': "snd (FailSafe_update_noc env mode icac noc n) = n'" using u updated(5) by (auto simp: prod_eq_iff)
      moreover have "length (fs_fabrics (nd_fabrics n)) \<le> MAX_FABRICS" using inv by (simp add: Fabrics_inv_def)
      ultimately show ?thesis
        using that [of "ctx\<lparr>ax_fab_idx := fa_fab_idx g, ax_flags := flags_insert (ax_flags ctx) UPDATE_NOC_RECVD\<rparr>"] updated(4) oth g n' [unfolded updated(5), symmetric]
        by simp
    qed auto
  qed
qed


definition empty_store :: "unit Store_env" where
  "empty_store = \<lparr>st_load = (\<lambda>_. Ok None), st_fabric = (\<lambda>_. Err InvalidData), st_networks_load = (\<lambda>_. sr_return ()),
     st_networks_reset = sr_return ()\<rparr>"


subsection \<open>The timer\<close>

text \<open>Claim C20: once the time of an armed fail-safe is over, the periodic check rolls back, removes every commissioning session and
  leaves the fail-safe idle, provided the fabric it is armed for is in the table or it is armed for none. But when that fabric has been
  removed in the meantime the check fails and changes nothing: the fail-safe stays armed at every
  later check.\<close>

theorem failsafe_timeout:
  assumes "fl_state (nd_failsafe n) = Armed ctx" and "expires_at ctx \<le> now"
    and "stored store (ax_fab_idx ctx) = Ok xs" and "length (fs_fabrics (nd_fabrics n)) \<le> MAX_FABRICS"
    and "st_load store NETWORKS_KEY = Ok d"
    and "(case d of Some b \<Rightarrow> st_networks_load store b | None \<Rightarrow> st_networks_reset store) (nd_networks n) = (Ok (), w)"
  shows "if ax_fab_idx ctx = 0 \<or> Fabrics_get (ax_fab_idx ctx) (nd_fabrics n) \<noteq> None
    then \<exists>n'. FailSafe_check_failsafe_timeout store now n = (Ok True, n') \<and> \<not> FailSafe_is_armed (nd_failsafe n') \<and>
      (\<forall>s \<in> set (ss_sessions (nd_sessions n')). \<not> is_pase s)
    else FailSafe_check_failsafe_timeout store now n = (Err NotFound, n)"
proof (cases "ax_fab_idx ctx = 0 \<or> Fabrics_get (ax_fab_idx ctx) (nd_fabrics n) \<noteq> None")
  case True
  obtain fs where r: "restore_fabric store (ax_fab_idx ctx) n = (Ok (), n\<lparr>nd_fabrics := fs\<rparr>)"
  proof (cases "ax_fab_idx ctx = 0")
    case True
    then show ?thesis using that [of "nd_fabrics n"] by (simp add: restore_fabric_def sr_simps)
  next
    case False
    with True show ?thesis using that restore_fabric_ok [OF _ assms(3,4)] by blast
  qed
  moreover have "\<forall>s \<in> set (ss_sessions (Sessions_remove_pase None (nd_sessions n))). \<not> is_pase s"
    by (simp add: Sessions_remove_pase_def Let_def set_remove_all_swap)
  ultimately show ?thesis
    using True assms(1,2) expire_ok [OF assms(1) r restore_networks_ok [OF assms(5,6)], of None]
    by (simp add: FailSafe_check_failsafe_timeout_def sr_bind_def sr_simps FailSafe_is_armed_def)
next
  case False
  then show ?thesis
    using assms(1,2) by (auto simp: FailSafe_check_failsafe_timeout_def FailSafe_expire_def restore_fabric_def sr_bind_def sr_simps
        on_fabrics_def Fabrics_remove_def Fabrics_fabric_def)
qed

theorem failsafe_timeout_witness:
  "\<exists>n'. FailSafe_check_failsafe_timeout empty_store 60000000000 staged_node = (Ok True, n') \<and> \<not> FailSafe_is_armed (nd_failsafe n')"
  using failsafe_timeout [of staged_node "\<lparr>ax_armed_at = 0, ax_timeout_secs = 60, ax_fab_idx = 0, ax_flags = 5\<rparr>" 60000000000 empty_store "[]" None "()"]
  by (auto simp: staged_node_value expires_at_def empty_store_def stored_def sr_simps fresh_node_def Fabrics_new_def)

end
