(* ===== verification/Btp.thy ===== *)
theory Btp
  imports Headers Ring_Buf
begin

section \<open>The Bluetooth transport protocol\<close>

text \<open>
  \<^verbatim>\<open>transport/network/btp/session/packet.rs\<close> and \<^verbatim>\<open>transport/network/btp/session.rs\<close>: the segment
  header, the handshake messages, the send and receive windows and the session that cuts messages
  into segments and puts them together again. A byte iterator is the list of the bytes left. An
  instant is the optional number of seconds since start, \<open>None\<close> for \<^verbatim>\<open>Instant::MAX\<close>; the functions that read the clock get
  it as \<open>now\<close>. Arithmetic on the one-byte window levels is checked: where the code would overflow the
  model panics, so that the absence of panics covers builds that wrap around as well.
\<close>

subsection \<open>The segment header\<close>

definition BTP_HANDSHAKE :: u8 where "BTP_HANDSHAKE = 0x40"

definition BTP_MANAGEMENT :: u8 where "BTP_MANAGEMENT = 0x20"

definition BTP_ACK :: u8 where "BTP_ACK = 0x08"

definition BTP_ENDING_SEGMENT :: u8 where "BTP_ENDING_SEGMENT = 0x04"

definition BTP_CONTINUE :: u8 where "BTP_CONTINUE = 0x02"

definition BTP_BEGINNING_SEGMENT :: u8 where "BTP_BEGINNING_SEGMENT = 0x01"

definition BtpFlags_all :: u8 where "BtpFlags_all = 0x6F"

record BtpHdr =
  bh_flags :: u8
  bh_opcode :: u8
  bh_ack_num :: u8
  bh_seq_num :: u8
  bh_msg_len :: u16

definition BtpHdr_new :: BtpHdr where
  "BtpHdr_new = \<lparr>bh_flags = 0, bh_opcode = 0, bh_ack_num = 0, bh_seq_num = 0, bh_msg_len = 0\<rparr>"

definition BtpHdr_is_handshake :: "BtpHdr \<Rightarrow> bool" where
  "BtpHdr_is_handshake h = flags_contains (bh_flags h) BTP_HANDSHAKE"

definition BtpHdr_set_handshake :: "BtpHdr \<Rightarrow> BtpHdr" where
  "BtpHdr_set_handshake h =
     h\<lparr>bh_flags := flags_insert (bh_flags h) (BTP_HANDSHAKE OR BTP_BEGINNING_SEGMENT OR BTP_ENDING_SEGMENT)\<rparr>"

definition BtpHdr_get_opcode :: "BtpHdr \<Rightarrow> u8 option" where
  "BtpHdr_get_opcode h = (if flags_contains (bh_flags h) BTP_MANAGEMENT then Some (bh_opcode h) else None)"

definition BtpHdr_set_opcode :: "u8 option \<Rightarrow> BtpHdr \<Rightarrow> BtpHdr" where
  "BtpHdr_set_opcode opcode h = (case opcode of
     Some opcode \<Rightarrow> h\<lparr>bh_flags := flags_insert (bh_flags h) BTP_MANAGEMENT, bh_opcode := opcode\<rparr>
   | None \<Rightarrow> h\<lparr>bh_flags := flags_remove (bh_flags h) BTP_MANAGEMENT, bh_opcode := 0\<rparr>)"

definition BtpHdr_get_ack :: "BtpHdr \<Rightarrow> u8 option" where
  "BtpHdr_get_ack h = (if flags_contains (bh_flags h) BTP_ACK then Some (bh_ack_num h) else None)"

definition BtpHdr_set_ack :: "u8 option \<Rightarrow> BtpHdr \<Rightarrow> BtpHdr" where
  "BtpHdr_set_ack ack_num h = (case ack_num of
     Some ack_num \<Rightarrow> h\<lparr>bh_flags := flags_insert (bh_flags h) BTP_ACK, bh_ack_num := ack_num\<rparr>
   | None \<Rightarrow> h\<lparr>bh_flags := flags_remove (bh_flags h) BTP_ACK, bh_ack_num := 0\<rparr>)"

definition BtpHdr_get_seq :: "BtpHdr \<Rightarrow> u8 option" where
  "BtpHdr_get_seq h = (if \<not> flags_contains (bh_flags h) BTP_HANDSHAKE then Some (bh_seq_num h) else None)"

definition BtpHdr_set_seq :: "u8 option \<Rightarrow> BtpHdr \<Rightarrow> BtpHdr" where
  "BtpHdr_set_seq seq_num h = (case seq_num of
     Some seq_num \<Rightarrow> h\<lparr>bh_flags := flags_remove (bh_flags h) BTP_HANDSHAKE, bh_seq_num := seq_num\<rparr>
   | None \<Rightarrow> h\<lparr>bh_flags := flags_insert (bh_flags h) BTP_HANDSHAKE, bh_seq_num := 0\<rparr>)"

definition BtpHdr_get_msg_len :: "BtpHdr \<Rightarrow> u16 option" where
  "BtpHdr_get_msg_len h =
     (if flags_contains (bh_flags h) BTP_BEGINNING_SEGMENT \<and> \<not> flags_contains (bh_flags h) BTP_HANDSHAKE
      then Some (bh_msg_len h) else None)"

definition BtpHdr_set_msg_len :: "u16 option \<Rightarrow> BtpHdr \<Rightarrow> BtpHdr" where
  "BtpHdr_set_msg_len msg_len h = (case msg_len of
     Some msg_len \<Rightarrow> h\<lparr>bh_flags := flags_insert (bh_flags h) BTP_BEGINNING_SEGMENT, bh_msg_len := msg_len\<rparr>
   | None \<Rightarrow> h\<lparr>bh_flags := flags_remove (bh_flags h) BTP_BEGINNING_SEGMENT, bh_msg_len := 0\<rparr>)"

definition BtpHdr_is_continue :: "BtpHdr \<Rightarrow> bool" where
  "BtpHdr_is_continue h = flags_contains (bh_flags h) BTP_CONTINUE"

definition BtpHdr_set_continue :: "BtpHdr \<Rightarrow> BtpHdr" where
  "BtpHdr_set_continue h = h\<lparr>bh_flags := flags_insert (bh_flags h) BTP_CONTINUE\<rparr>"

definition BtpHdr_is_final :: "BtpHdr \<Rightarrow> bool" where
  "BtpHdr_is_final h = flags_contains (bh_flags h) BTP_ENDING_SEGMENT"

definition BtpHdr_set_final :: "BtpHdr \<Rightarrow> BtpHdr" where
  "BtpHdr_set_final h = h\<lparr>bh_flags := flags_insert (bh_flags h) BTP_ENDING_SEGMENT\<rparr>"

definition BtpHdr_is_standalone_ack :: "BtpHdr \<Rightarrow> bool" where
  "BtpHdr_is_standalone_ack h \<longleftrightarrow> \<not> BtpHdr_is_handshake h \<and> BtpHdr_get_msg_len h = None \<and>
     \<not> BtpHdr_is_continue h \<and> \<not> BtpHdr_is_final h \<and> BtpHdr_get_ack h \<noteq> None"

text \<open>\<^verbatim>\<open>msg.next().ok_or(Invalid)?\<close>, and the same for several bytes of an array.\<close>

definition btp_next_byte :: "(bytes, u8) sr" where
  "btp_next_byte msg = (case msg of [] \<Rightarrow> (Err Invalid, []) | b # bs \<Rightarrow> (Ok b, bs))"

fun next_bytes :: "nat \<Rightarrow> (bytes, bytes) sr" where
  "next_bytes 0 = sr_return []"
| "next_bytes (Suc n) = sr_bind btp_next_byte (\<lambda>b. sr_bind (next_bytes n) (\<lambda>bs. sr_return (b # bs)))"

definition next_if :: "bool \<Rightarrow> u8 \<Rightarrow> (bytes, u8) sr" where
  "next_if b old = (if b then btp_next_byte else sr_return old)"

definition BtpHdr_decode :: "BtpHdr \<Rightarrow> (bytes, BtpHdr) sr" where
  "BtpHdr_decode h =
     sr_bind btp_next_byte (\<lambda>b.
     let flags = b AND BtpFlags_all in
     sr_bind (next_if (flags_contains flags BTP_MANAGEMENT) (bh_opcode h)) (\<lambda>opcode.
     sr_bind (next_if (flags_contains flags BTP_ACK) (bh_ack_num h)) (\<lambda>ack_num.
     sr_bind (next_if (\<not> flags_contains flags BTP_HANDSHAKE) (bh_seq_num h)) (\<lambda>seq_num.
     sr_bind (if flags_contains flags BTP_BEGINNING_SEGMENT \<and> \<not> flags_contains flags BTP_HANDSHAKE
              then sr_bind (next_bytes 2) (\<lambda>bs. sr_return (from_le_bytes bs))
              else sr_return (bh_msg_len h)) (\<lambda>msg_len.
       sr_return \<lparr>bh_flags = flags, bh_opcode = opcode, bh_ack_num = ack_num, bh_seq_num = seq_num,
                  bh_msg_len = msg_len\<rparr>)))))"

definition BtpHdr_from :: "(bytes, BtpHdr) sr" where
  "BtpHdr_from = BtpHdr_decode BtpHdr_new"

definition BtpHdr_encode :: "BtpHdr \<Rightarrow> (WriteBuf, unit) sr" where
  "BtpHdr_encode h =
     sr_then (WriteBuf_le_u8 (bh_flags h))
     (sr_then (sr_when (flags_contains (bh_flags h) BTP_MANAGEMENT) (WriteBuf_le_u8 (bh_opcode h)))
     (sr_then (sr_when (flags_contains (bh_flags h) BTP_ACK) (WriteBuf_le_u8 (bh_ack_num h)))
     (sr_then (sr_when (\<not> flags_contains (bh_flags h) BTP_HANDSHAKE) (WriteBuf_le_u8 (bh_seq_num h)))
     (sr_when (flags_contains (bh_flags h) BTP_BEGINNING_SEGMENT \<and> \<not> flags_contains (bh_flags h) BTP_HANDSHAKE)
        (WriteBuf_le_u16 (bh_msg_len h))))))"

definition BtpHdr_len :: "BtpHdr \<Rightarrow> nat" where
  "BtpHdr_len h =
     1 + (if flags_contains (bh_flags h) BTP_MANAGEMENT then 1 else 0) +
     (if flags_contains (bh_flags h) BTP_ACK then 1 else 0) +
     (if \<not> flags_contains (bh_flags h) BTP_HANDSHAKE then 1 else 0) +
     (if flags_contains (bh_flags h) BTP_BEGINNING_SEGMENT \<and> \<not> flags_contains (bh_flags h) BTP_HANDSHAKE then 2 else 0)"

subsection \<open>Handshake messages\<close>

record HandshakeReq =
  hq_versions :: u32
  hq_mtu :: u16
  hq_window_size :: u8

definition HandshakeReq_versions :: "HandshakeReq \<Rightarrow> u8 list" where
  "HandshakeReq_versions r =
     filter (\<lambda>version. version > 0)
       (map (\<lambda>index. ucast (drop_bit (index * 4) (hq_versions r) AND 0xff)) [0..<7])"

fun set_versions_from :: "nat \<Rightarrow> u8 list \<Rightarrow> u32 \<Rightarrow> u32" where
  "set_versions_from index [] w = w"
| "set_versions_from index (v # vs) w = set_versions_from (Suc index) vs (w OR push_bit (index * 4) (ucast v))"

definition HandshakeReq_set_versions :: "u8 list \<Rightarrow> HandshakeReq \<Rightarrow> HandshakeReq" where
  "HandshakeReq_set_versions versions r = r\<lparr>hq_versions := set_versions_from 0 versions (hq_versions r)\<rparr>"

definition HandshakeReq_decode :: "(bytes, HandshakeReq) sr" where
  "HandshakeReq_decode =
     sr_bind (next_bytes 4) (\<lambda>versions.
     sr_bind (next_bytes 2) (\<lambda>mtu.
     sr_bind btp_next_byte (\<lambda>window_size.
       sr_return \<lparr>hq_versions = from_le_bytes versions, hq_mtu = from_le_bytes mtu,
                  hq_window_size = window_size\<rparr>)))"

definition HandshakeReq_encode :: "HandshakeReq \<Rightarrow> (WriteBuf, unit) sr" where
  "HandshakeReq_encode r =
     sr_then (WriteBuf_le_u32 (hq_versions r))
     (sr_then (WriteBuf_le_u16 (hq_mtu r)) (WriteBuf_le_u8 (hq_window_size r)))"

record HandshakeResp =
  hp_version :: u8
  hp_mtu :: u16
  hp_window_size :: u8

definition HandshakeResp_decode :: "(bytes, HandshakeResp) sr" where
  "HandshakeResp_decode =
     sr_bind btp_next_byte (\<lambda>version.
     sr_bind (next_bytes 2) (\<lambda>mtu.
     sr_bind btp_next_byte (\<lambda>window_size.
       sr_return \<lparr>hp_version = version, hp_mtu = from_le_bytes mtu, hp_window_size = window_size\<rparr>)))"

definition HandshakeResp_encode :: "HandshakeResp \<Rightarrow> (WriteBuf, unit) sr" where
  "HandshakeResp_encode r =
     sr_then (WriteBuf_le_u8 (hp_version r))
     (sr_then (WriteBuf_le_u16 (hp_mtu r)) (WriteBuf_le_u8 (hp_window_size r)))"

subsection \<open>The send window\<close>

text \<open>\<open>dec_u8\<close> and \<open>add_u8\<close> are checked arithmetic, \<open>None\<close> where it overflows.\<close>

definition sub_u8 :: "u8 \<Rightarrow> u8 \<Rightarrow> u8 option" where
  "sub_u8 a b = (if b \<le> a then Some (a - b) else None)"

definition add_u8 :: "u8 \<Rightarrow> u8 \<Rightarrow> u8 option" where
  "add_u8 a b = (if unat a + unat b < 256 then Some (a + b) else None)"

record SendWindow =
  sw_window_size :: u8
  sw_level :: u8
  sw_last_sent_seq_num :: u8
  sw_sent_at :: "nat option"

definition SendWindow_new :: SendWindow where
  "SendWindow_new = \<lparr>sw_window_size = 0, sw_level = 0, sw_last_sent_seq_num = 255, sw_sent_at = None\<rparr>"

definition SendWindow_reset :: "SendWindow \<Rightarrow> SendWindow" where
  "SendWindow_reset w = \<lparr>sw_window_size = 0, sw_level = 0, sw_last_sent_seq_num = 255, sw_sent_at = None\<rparr>"

definition SendWindow_accept_incoming :: "BtpHdr \<Rightarrow> nat \<Rightarrow> (SendWindow, unit) sr" where
  "SendWindow_accept_incoming hdr now = (\<lambda>w.
     case BtpHdr_get_ack hdr of
       None \<Rightarrow> (Ok (), w)
     | Some ack_seq_num \<Rightarrow>
         if sw_last_sent_seq_num w = ack_seq_num
         then (Ok (), w\<lparr>sw_level := sw_window_size w, sw_sent_at := None\<rparr>)
         else
           (let unacknowledged = sw_last_sent_seq_num w - ack_seq_num in
            case sub_u8 (sw_window_size w) unacknowledged of
              Some l \<Rightarrow> (Ok (), w\<lparr>sw_level := l, sw_sent_at := Some now\<rparr>)
            | None \<Rightarrow> (Panic, w)))"

definition SendWindow_next_seq_num :: "SendWindow \<Rightarrow> u8" where
  "SendWindow_next_seq_num w = sw_last_sent_seq_num w + 1"

definition SendWindow_post_send :: "nat \<Rightarrow> (SendWindow, unit) sr" where
  "SendWindow_post_send now = (\<lambda>w.
     case sub_u8 (sw_level w) 1 of
       Some l \<Rightarrow> (Ok (), w\<lparr>sw_level := l, sw_last_sent_seq_num := sw_last_sent_seq_num w + 1, sw_sent_at := Some now\<rparr>)
     | None \<Rightarrow> (Panic, w))"

subsection \<open>The receive window\<close>

definition MAX_RX_PACKET_SIZE :: nat where "MAX_RX_PACKET_SIZE = 1583"

definition MAX_MESSAGE_SIZE :: nat where "MAX_MESSAGE_SIZE = MAX_RX_PACKET_SIZE * 2"

record RecvWindow =
  rw_buf :: RingBuf
  rw_buf_messages_ct :: u8
  rw_level :: u8
  rw_ack_level :: u8
  rw_ack_seq :: u8
  rw_received_at :: "nat option"
  rw_rem_msg_len :: u16

definition RecvWindow_new :: RecvWindow where
  "RecvWindow_new = \<lparr>rw_buf = RingBuf_new, rw_buf_messages_ct = 0, rw_level = 0, rw_ack_level = 0, rw_ack_seq = 255,
     rw_received_at = None, rw_rem_msg_len = 0\<rparr>"

definition RecvWindow_reset :: "RecvWindow \<Rightarrow> RecvWindow" where
  "RecvWindow_reset w = \<lparr>rw_buf = RingBuf_clear (rw_buf w), rw_buf_messages_ct = 0, rw_level = 0, rw_ack_level = 0,
     rw_ack_seq = 255, rw_received_at = None, rw_rem_msg_len = 0\<rparr>"

definition SendWindow_is_full :: "RecvWindow \<Rightarrow> SendWindow \<Rightarrow> bool" where
  "SendWindow_is_full recv_window w \<longleftrightarrow> sw_level w = 0 \<or> sw_level w = 1 \<and> rw_ack_level recv_window = 0"

text \<open>
  The ring buffer of the window. Its loops end (\<open>ring_buf_refines_list\<close>); a loop that did not would count as
  a panic here, so that the absence of panics covers it.
\<close>

definition ring_push :: "bytes \<Rightarrow> (RecvWindow, unit) sr" where
  "ring_push data = (\<lambda>w. case RingBuf_push MAX_MESSAGE_SIZE data (rw_buf w) of
     Some (Ok _, q) \<Rightarrow> (Ok (), w\<lparr>rw_buf := q\<rparr>)
   | _ \<Rightarrow> (Panic, w))"

definition RecvWindow_check_data_integrity :: "BtpHdr \<Rightarrow> bytes \<Rightarrow> u16 \<Rightarrow> RecvWindow \<Rightarrow> unit res" where
  "RecvWindow_check_data_integrity hdr payload mtu w =
     (if BtpHdr_is_handshake hdr then Err InvalidData
      else if BtpHdr_get_opcode hdr \<noteq> None then Err InvalidData
      else if (if BtpHdr_is_standalone_ack hdr then payload \<noteq> []
               else BtpHdr_get_msg_len hdr = None \<and> \<not> BtpHdr_is_continue hdr \<and> \<not> BtpHdr_is_final hdr \<or>
                    BtpHdr_get_msg_len hdr \<noteq> None \<and> BtpHdr_is_continue hdr \<or>
                    \<not> BtpHdr_is_final hdr \<and> length payload + BtpHdr_len hdr \<noteq> unat mtu)
      then Err InvalidData
      else if BtpHdr_get_seq hdr \<noteq> Some (rw_ack_seq w + 1) then Err InvalidData
      else Ok ())"

definition RecvWindow_check_handshake_integrity :: "BtpHdr \<Rightarrow> unit res" where
  "RecvWindow_check_handshake_integrity hdr =
     (if \<not> BtpHdr_is_handshake hdr \<or> \<not> BtpHdr_is_final hdr \<or> BtpHdr_get_opcode hdr \<noteq> Some 0x6c \<or>
         BtpHdr_get_msg_len hdr \<noteq> None \<or> BtpHdr_is_continue hdr \<or> BtpHdr_get_seq hdr \<noteq> None \<or>
         BtpHdr_get_ack hdr \<noteq> None
      then Err InvalidData else Ok ())"

text \<open>The branch of \<^verbatim>\<open>accept_incoming\<close> for the first segment of a message.\<close>

definition begin_message :: "BtpHdr \<Rightarrow> u16 \<Rightarrow> (RecvWindow, unit) sr" where
  "begin_message hdr mtu = (\<lambda>w. case BtpHdr_get_msg_len hdr of
     None \<Rightarrow> (Ok (), w)
   | Some msg_len \<Rightarrow>
       if msg_len \<le> mtu \<and> \<not> BtpHdr_is_final hdr then (Err InvalidData, w)
       else
         (let w = w\<lparr>rw_rem_msg_len := msg_len\<rparr> in
          if msg_len > 0 then
            if 2 \<le> RingBuf_free MAX_MESSAGE_SIZE (rw_buf w) then ring_push (to_le_bytes 2 msg_len) w
            else (Err InvalidData, w)
          else (Ok (), w)))"

text \<open>The bookkeeping after the payload is in the buffer.\<close>

definition count_segment :: "BtpHdr \<Rightarrow> bytes \<Rightarrow> nat \<Rightarrow> (RecvWindow, unit) sr" where
  "count_segment hdr payload now = (\<lambda>w.
     case (sub_u8 (rw_level w) 1, BtpHdr_get_seq hdr, add_u8 (rw_ack_level w) 1,
           if BtpHdr_is_final hdr \<and> payload \<noteq> [] then add_u8 (rw_buf_messages_ct w) 1 else Some (rw_buf_messages_ct w)) of
       (Some level, Some seq, Some ack_level, Some messages) \<Rightarrow>
         (Ok (), w\<lparr>rw_level := level, rw_ack_seq := seq, rw_ack_level := ack_level, rw_received_at := Some now,
                  rw_buf_messages_ct := messages\<rparr>)
     | _ \<Rightarrow> (Panic, w))"

definition RecvWindow_accept_incoming :: "BtpHdr \<Rightarrow> bytes \<Rightarrow> u16 \<Rightarrow> nat \<Rightarrow> (RecvWindow, unit) sr" where
  "RecvWindow_accept_incoming hdr payload mtu now =
     sr_bind sr_get (\<lambda>w0.
     sr_then (sr_res (RecvWindow_check_data_integrity hdr payload mtu w0))
     (sr_then (begin_message hdr mtu)
     (sr_then (\<lambda>w.
        let len = of_nat (length payload) :: u16 in
        if rw_rem_msg_len w < len then (Err InvalidData, w)
        else
          (let w = w\<lparr>rw_rem_msg_len := rw_rem_msg_len w - len\<rparr> in
           if BtpHdr_is_final hdr \<and> rw_rem_msg_len w > 0 then (Err InvalidData, w)
           else if RingBuf_free MAX_MESSAGE_SIZE (rw_buf w) < length payload then (Err InvalidData, w)
           else ring_push payload w))
     (count_segment hdr payload now))))"

definition RecvWindow_pending_ack :: "RecvWindow \<Rightarrow> u8 option" where
  "RecvWindow_pending_ack w =
     (if rw_ack_level w > 0 \<and> rw_buf_messages_ct w = 0 then Some (rw_ack_seq w) else None)"

definition RecvWindow_post_send :: "(RecvWindow, unit) sr" where
  "RecvWindow_post_send = (\<lambda>w.
     if RecvWindow_pending_ack w \<noteq> None then
       (case add_u8 (rw_level w) (rw_ack_level w) of
          Some l \<Rightarrow> (Ok (), w\<lparr>rw_level := l, rw_ack_level := 0\<rparr>)
        | None \<Rightarrow> (Panic, w))
     else (Ok (), w))"

text \<open>\<^verbatim>\<open>pop_byte().ok_or(Invalid)?\<close>\<close>

definition ring_pop_byte :: "(RecvWindow, u8) sr" where
  "ring_pop_byte = (\<lambda>w. case RingBuf_pop_byte (rw_buf w) of
     Some (Ok (Some b), q) \<Rightarrow> (Ok b, w\<lparr>rw_buf := q\<rparr>)
   | Some (Ok None, q) \<Rightarrow> (Err Invalid, w\<lparr>rw_buf := q\<rparr>)
   | _ \<Rightarrow> (Panic, w))"

fun ring_discard :: "nat \<Rightarrow> (RecvWindow, unit) sr" where
  "ring_discard 0 = sr_return ()"
| "ring_discard (Suc n) = sr_then ring_pop_byte (ring_discard n)"

definition ring_pop_into :: "nat \<Rightarrow> bytes \<Rightarrow> (RecvWindow, bytes) sr" where
  "ring_pop_into pop_len buf = (\<lambda>w. case RingBuf_pop (take pop_len buf) (rw_buf w) of
     Some (Ok n, out, q) \<Rightarrow>
       if n \<noteq> pop_len then (Err Invalid, w\<lparr>rw_buf := q\<rparr>)
       else (Ok (out @ drop pop_len buf), w\<lparr>rw_buf := q\<rparr>)
   | _ \<Rightarrow> (Panic, w))"

definition RecvWindow_fetch_message :: "bytes \<Rightarrow> (RecvWindow, nat \<times> bytes) sr" where
  "RecvWindow_fetch_message buf =
     sr_bind sr_get (\<lambda>w0.
     if rw_buf_messages_ct w0 = 0 then sr_return (0, buf)
     else
       sr_bind ring_pop_byte (\<lambda>lo.
       sr_bind ring_pop_byte (\<lambda>hi.
       let len = unat (from_le_bytes [lo, hi] :: u16);
           pop_len = min len (length buf) in
       sr_bind (ring_pop_into pop_len buf) (\<lambda>buf'.
       sr_then (ring_discard (len - pop_len))
       (sr_then (sr_modify (\<lambda>w. w\<lparr>rw_buf_messages_ct := rw_buf_messages_ct w - 1\<rparr>))
       (sr_return (pop_len, buf')))))))"

subsection \<open>The session\<close>

definition GATT_HEADER_SIZE :: nat where "GATT_HEADER_SIZE = 3"

definition MAX_BTP_SEGMENT_SIZE :: nat where "MAX_BTP_SEGMENT_SIZE = 244"

definition MIN_MTU :: u16 where "MIN_MTU = 23"

definition MAX_MTU :: u16 where "MAX_MTU = 247"

record BtpSession =
  bs_initiator :: bool
  bs_address :: BtAddr
  bs_version :: u8
  bs_mtu :: u16
  bs_window_size :: u8
  bs_handshake_pending :: bool
  bs_recv_window :: RecvWindow
  bs_send_window :: SendWindow
  bs_relaxed_mtu_nego :: bool

definition BtpSession_new :: BtpSession where
  "BtpSession_new = \<lparr>bs_initiator = False, bs_address = BtAddr (replicate 6 0), bs_version = 0, bs_mtu = 0,
     bs_window_size = 0, bs_handshake_pending = False, bs_recv_window = RecvWindow_new, bs_send_window = SendWindow_new,
     bs_relaxed_mtu_nego = False\<rparr>"

definition BtpSession_reset :: "BtpSession \<Rightarrow> BtpSession" where
  "BtpSession_reset s = s\<lparr>bs_address := BtAddr (replicate 6 0), bs_version := 0, bs_mtu := 0, bs_window_size := 0,
     bs_handshake_pending := False, bs_recv_window := RecvWindow_reset (bs_recv_window s),
     bs_send_window := SendWindow_reset (bs_send_window s)\<rparr>"

definition BtpSession_set_relaxed_mtu_nego :: "bool \<Rightarrow> BtpSession \<Rightarrow> BtpSession" where
  "BtpSession_set_relaxed_mtu_nego b s = s\<lparr>bs_relaxed_mtu_nego := b\<rparr>"

definition BtpSession_set_initiator :: "bool \<Rightarrow> BtpSession \<Rightarrow> BtpSession" where
  "BtpSession_set_initiator initiator s = s\<lparr>bs_initiator := initiator, bs_handshake_pending := initiator\<rparr>"

definition BtpSession_setup :: "BtAddr \<Rightarrow> u8 \<Rightarrow> u16 \<Rightarrow> u8 \<Rightarrow> BtpSession \<Rightarrow> BtpSession" where
  "BtpSession_setup address version mtu window_size s = s\<lparr>bs_address := address, bs_version := version, bs_mtu := mtu,
     bs_window_size := window_size, bs_handshake_pending := \<not> bs_initiator s,
     bs_recv_window := (bs_recv_window s)\<lparr>rw_level := window_size\<rparr>,
     bs_send_window := (bs_send_window s)\<lparr>sw_window_size := window_size, sw_level := window_size\<rparr>\<rparr>"

definition expired_at :: "nat option \<Rightarrow> u16 \<Rightarrow> (nat \<Rightarrow> bool) \<Rightarrow> bool" where
  "expired_at instant secs test = (case instant of None \<Rightarrow> False | Some t \<Rightarrow> test (t + unat secs))"

definition BtpSession_is_ack_due :: "nat \<Rightarrow> u16 \<Rightarrow> BtpSession \<Rightarrow> bool" where
  "BtpSession_is_ack_due now ack_timeout_secs s \<longleftrightarrow>
     RecvWindow_pending_ack (bs_recv_window s) \<noteq> None \<and>
     (rw_level (bs_recv_window s) \<le> 1 \<or>
      expired_at (rw_received_at (bs_recv_window s)) ack_timeout_secs (\<lambda>expires. expires \<le> now))"

definition BtpSession_is_timed_out :: "nat \<Rightarrow> u16 \<Rightarrow> BtpSession \<Rightarrow> bool" where
  "BtpSession_is_timed_out now conn_idle_timeout_secs s =
     expired_at (sw_sent_at (bs_send_window s)) conn_idle_timeout_secs (\<lambda>expires. expires < now)"

definition BtpSession_message_available :: "BtpSession \<Rightarrow> bool" where
  "BtpSession_message_available s \<longleftrightarrow> rw_buf_messages_ct (bs_recv_window s) > 0"

definition on_recv :: "(RecvWindow, 'a) sr \<Rightarrow> (BtpSession, 'a) sr" where
  "on_recv m = (\<lambda>s. case m (bs_recv_window s) of (r, w) \<Rightarrow> (r, s\<lparr>bs_recv_window := w\<rparr>))"

definition on_send :: "(SendWindow, 'a) sr \<Rightarrow> (BtpSession, 'a) sr" where
  "on_send m = (\<lambda>s. case m (bs_send_window s) of (r, w) \<Rightarrow> (r, s\<lparr>bs_send_window := w\<rparr>))"

definition BtpSession_fetch_message :: "bytes \<Rightarrow> (BtpSession, nat \<times> bytes) sr" where
  "BtpSession_fetch_message buf = on_recv (RecvWindow_fetch_message buf)"

definition BtpSession_initial_window_size :: "u16 \<Rightarrow> u8 res" where
  "BtpSession_initial_window_size mtu =
     (if mtu = 0 then Panic else Ok (of_nat (min (MAX_MESSAGE_SIZE div unat mtu div 2) 255)))"

definition negotiate_mtu :: "bool \<Rightarrow> u16 option \<Rightarrow> u16 \<Rightarrow> u16" where
  "negotiate_mtu relaxed gatt_mtu req_mtu =
     (if (case gatt_mtu of Some g \<Rightarrow> g \<noteq> req_mtu | None \<Rightarrow> True)
      then if relaxed then min (min req_mtu (case gatt_mtu of Some g \<Rightarrow> g | None \<Rightarrow> MIN_MTU)) MAX_MTU
           else MIN_MTU
      else min req_mtu MAX_MTU)"

definition min_version :: "u8 list \<Rightarrow> u8" where
  "min_version vs = (case vs of [] \<Rightarrow> 4 | v # vs \<Rightarrow> fold min vs v)"

definition BtpSession_process_rx_handshake_req :: "u16 option \<Rightarrow> BtAddr \<Rightarrow> bytes \<Rightarrow> (BtpSession, unit) sr" where
  "BtpSession_process_rx_handshake_req gatt_mtu address data = (\<lambda>s.
     case BtpHdr_from data of
       (Ok hdr, payload) \<Rightarrow>
         sr_then (sr_res (RecvWindow_check_handshake_integrity hdr))
         (sr_bind (sr_res (fst (HandshakeReq_decode payload))) (\<lambda>req.
           let version = min_version (HandshakeReq_versions req);
               mtu = negotiate_mtu (bs_relaxed_mtu_nego s) gatt_mtu (hq_mtu req)
           in if unat mtu < GATT_HEADER_SIZE then sr_panic
              else
                (let mtu = mtu - of_nat GATT_HEADER_SIZE in
                 sr_bind (sr_res (BtpSession_initial_window_size mtu)) (\<lambda>w.
                   sr_modify (BtpSession_setup address version mtu (min (hq_window_size req) w)))))) s
     | (Err e, _) \<Rightarrow> (Err e, s)
     | (Panic, _) \<Rightarrow> (Panic, s))"

definition BtpSession_process_rx_handshake_resp :: "BtAddr \<Rightarrow> bytes \<Rightarrow> (BtpSession, unit) sr" where
  "BtpSession_process_rx_handshake_resp address data = (\<lambda>s.
     case BtpHdr_from data of
       (Ok hdr, payload) \<Rightarrow>
         sr_then (sr_res (RecvWindow_check_handshake_integrity hdr))
         (sr_bind (sr_res (fst (HandshakeResp_decode payload))) (\<lambda>resp.
           sr_modify (BtpSession_setup address (hp_version resp) (hp_mtu resp) (hp_window_size resp)))) s
     | (Err e, _) \<Rightarrow> (Err e, s)
     | (Panic, _) \<Rightarrow> (Panic, s))"

definition BtpSession_process_rx_data :: "bytes \<Rightarrow> nat \<Rightarrow> (BtpSession, unit) sr" where
  "BtpSession_process_rx_data data now = (\<lambda>s.
     case BtpHdr_from data of
       (Ok hdr, payload) \<Rightarrow>
         sr_then (on_recv (RecvWindow_accept_incoming hdr payload (bs_mtu s) now))
           (on_send (SendWindow_accept_incoming hdr now)) s
     | (Err e, _) \<Rightarrow> (Err e, s)
     | (Panic, _) \<Rightarrow> (Panic, s))"

definition BtpSession_process_rx :: "u16 option \<Rightarrow> BtAddr \<Rightarrow> bytes \<Rightarrow> nat \<Rightarrow> (BtpSession, unit) sr" where
  "BtpSession_process_rx gatt_mtu address data now = (\<lambda>s.
     case BtpHdr_from data of
       (Ok hdr, _) \<Rightarrow>
         if BtpHdr_is_handshake hdr then
           if bs_initiator s then BtpSession_process_rx_handshake_resp address data s
           else BtpSession_process_rx_handshake_req gatt_mtu address data s
         else BtpSession_process_rx_data data now s
     | (Err e, _) \<Rightarrow> (Err e, s)
     | (Panic, _) \<Rightarrow> (Panic, s))"

text \<open>Encoding into the caller's buffer; the result is the number of bytes and the buffer.\<close>

definition written :: "bytes \<Rightarrow> (WriteBuf, unit) sr \<Rightarrow> (nat \<times> bytes) res" where
  "written buf m = (case m (WriteBuf_new buf) of
     (Ok _, wb) \<Rightarrow> Ok (WriteBuf_get_tail wb, wb_buf wb) | (Err e, _) \<Rightarrow> Err e | (Panic, _) \<Rightarrow> Panic)"

definition handshake_hdr :: BtpHdr where
  "handshake_hdr = BtpHdr_set_opcode (Some 0x6c) (BtpHdr_set_handshake BtpHdr_new)"

definition BtpSession_prep_tx_handshake_req :: "u16 option \<Rightarrow> bytes \<Rightarrow> nat \<Rightarrow> (BtpSession, nat \<times> bytes) sr" where
  "BtpSession_prep_tx_handshake_req gatt_mtu buf now = (\<lambda>s.
     let req = \<lparr>hq_versions = 4, hq_mtu = (case gatt_mtu of Some m \<Rightarrow> m | None \<Rightarrow> MIN_MTU),
                hq_window_size = bs_window_size s\<rparr>
     in sr_bind (sr_res (written buf (sr_then (BtpHdr_encode handshake_hdr) (HandshakeReq_encode req))))
          (\<lambda>out. sr_then (on_send (SendWindow_post_send now)) (sr_return out)) s)"

definition BtpSession_prep_tx_handshake_resp :: "bytes \<Rightarrow> nat \<Rightarrow> (BtpSession, nat \<times> bytes) sr" where
  "BtpSession_prep_tx_handshake_resp buf now = (\<lambda>s.
     let resp = \<lparr>hp_version = bs_version s, hp_mtu = bs_mtu s, hp_window_size = bs_window_size s\<rparr>
     in sr_bind (sr_res (written buf (sr_then (BtpHdr_encode handshake_hdr) (HandshakeResp_encode resp))))
          (\<lambda>out. sr_then (on_send (SendWindow_post_send now)) (sr_return out)) s)"

definition BtpSession_prep_tx_handshake :: "u16 option \<Rightarrow> bytes \<Rightarrow> nat \<Rightarrow> (BtpSession, nat \<times> bytes) sr" where
  "BtpSession_prep_tx_handshake gatt_mtu buf now = (\<lambda>s.
     if bs_handshake_pending s then
       sr_bind (if bs_initiator s then BtpSession_prep_tx_handshake_req gatt_mtu buf now
                else BtpSession_prep_tx_handshake_resp buf now)
         (\<lambda>out. sr_then (sr_modify (\<lambda>s. s\<lparr>bs_handshake_pending := False\<rparr>)) (sr_return out)) s
     else (Ok (0, buf), s))"

text \<open>
  The header and the payload of the segment \<^verbatim>\<open>prep_tx_data\<close> cuts off \<open>data\<close> at \<open>offset\<close>; \<open>None\<close> is the
  panic of the slice or of the subtraction.
\<close>

definition next_segment :: "bytes \<Rightarrow> nat \<Rightarrow> BtpSession \<Rightarrow> (BtpHdr \<times> bytes) option" where
  "next_segment data offset s =
     (let hdr = BtpHdr_set_ack (RecvWindow_pending_ack (bs_recv_window s))
            (BtpHdr_set_seq (Some (SendWindow_next_seq_num (bs_send_window s))) BtpHdr_new)
      in if data \<noteq> [] then
           (let hdr = (if offset = 0 then BtpHdr_set_msg_len (Some (of_nat (length data))) hdr
                       else BtpHdr_set_continue hdr)
            in if length data < offset \<or> unat (bs_mtu s) < BtpHdr_len hdr then None
               else
                 (let remaining_data = drop offset data;
                      max_payload_len = unat (bs_mtu s) - BtpHdr_len hdr;
                      chunk_end = min (length remaining_data) max_payload_len
                  in Some (if chunk_end = length remaining_data then BtpHdr_set_final hdr else hdr,
                           take chunk_end remaining_data)))
         else Some (hdr, []))"

definition BtpSession_prep_tx_data ::
    "bytes \<Rightarrow> nat \<Rightarrow> bytes \<Rightarrow> nat \<Rightarrow> (BtpSession, nat \<times> nat \<times> bytes) sr" where
  "BtpSession_prep_tx_data data offset buf now = (\<lambda>s.
     if SendWindow_is_full (bs_recv_window s) (bs_send_window s) then (Ok (0, offset, buf), s)
     else case next_segment data offset s of
       None \<Rightarrow> (Panic, s)
     | Some (hdr, segment_data) \<Rightarrow>
         sr_bind (sr_res (written buf (sr_then (BtpHdr_encode hdr) (WriteBuf_append segment_data)))) (\<lambda>(len, buf).
         sr_then (on_send (SendWindow_post_send now))
         (sr_then (on_recv RecvWindow_post_send)
         (sr_return (len, offset + length segment_data, buf)))) s)"

end
