(* ===== verification/Btp_Transfer.thy ===== *)
theory Btp_Transfer
  imports Btp
begin

section \<open>What the Bluetooth transport guarantees\<close>

text \<open>
  The segment header survives encoding and decoding, a message cut into segments by one session is put
  together by the other, and the places where a peer can drive the window arithmetic out of range.
\<close>

subsection \<open>The header\<close>

lemma high_flags_bits:
  "flags_contains fl 0x20 \<longleftrightarrow> bit fl 5" "flags_contains fl 0x40 \<longleftrightarrow> bit fl 6"
  by (simp_all add: flags_contains_def u8_eq_iff bit_and_iff)

lemmas btp_flag_defs = BTP_HANDSHAKE_def BTP_MANAGEMENT_def BTP_ACK_def BTP_ENDING_SEGMENT_def BTP_CONTINUE_def
  BTP_BEGINNING_SEGMENT_def BtpFlags_all_def

lemmas btp_flag_simps = btp_flag_defs high_flags_bits flag_bit_simps

definition BtpHdr_bytes :: "BtpHdr \<Rightarrow> bytes" where
  "BtpHdr_bytes h =
     bh_flags h # (if flags_contains (bh_flags h) BTP_MANAGEMENT then [bh_opcode h] else []) @
     (if flags_contains (bh_flags h) BTP_ACK then [bh_ack_num h] else []) @
     (if flags_contains (bh_flags h) BTP_HANDSHAKE then [] else [bh_seq_num h]) @
     (if flags_contains (bh_flags h) BTP_BEGINNING_SEGMENT \<and> \<not> flags_contains (bh_flags h) BTP_HANDSHAKE
      then to_le_bytes 2 (bh_msg_len h) else [])"

text \<open>A header whose unused fields are zero, as the setters leave them.\<close>

definition BtpHdr_wf :: "BtpHdr \<Rightarrow> bool" where
  "BtpHdr_wf h \<longleftrightarrow> bh_flags h AND BtpFlags_all = bh_flags h \<and>
     (\<not> flags_contains (bh_flags h) BTP_MANAGEMENT \<longrightarrow> bh_opcode h = 0) \<and>
     (\<not> flags_contains (bh_flags h) BTP_ACK \<longrightarrow> bh_ack_num h = 0) \<and>
     (flags_contains (bh_flags h) BTP_HANDSHAKE \<longrightarrow> bh_seq_num h = 0) \<and>
     (BtpHdr_get_msg_len h = None \<longrightarrow> bh_msg_len h = 0)"

lemma length_BtpHdr_bytes: "length (BtpHdr_bytes h) = BtpHdr_len h"
  by (auto simp: BtpHdr_bytes_def BtpHdr_len_def)

lemma next_bytes_2: "next_bytes 2 (a # b # rest) = (Ok [a, b], rest)"
  by (simp add: numeral_2_eq_2 btp_next_byte_def sr_bind_def sr_return_def)

lemma BtpHdr_from_bytes:
  assumes "BtpHdr_wf h"
  shows "BtpHdr_from (BtpHdr_bytes h @ rest) = (Ok h, rest)"
proof -
  obtain a b where l: "to_le_bytes 2 (bh_msg_len h) = [a, b]" "from_le_bytes [a, b] = bh_msg_len h"
    using from_to_le_bytes_u16 [of "bh_msg_len h"] by (auto simp: to_le_bytes_Suc numeral_2_eq_2 to_le_bytes_def)
  show ?thesis
    using assms l
    by (cases h) (auto simp: BtpHdr_from_def BtpHdr_decode_def BtpHdr_bytes_def BtpHdr_wf_def BtpHdr_get_msg_len_def
        btp_next_byte_def next_if_def next_bytes_2 sr_bind_def sr_return_def BtpHdr_new_def Let_def)
qed

definition BtpHdr_chunks :: "BtpHdr \<Rightarrow> bytes list" where
  "BtpHdr_chunks h =
     [[bh_flags h]] @ (if flags_contains (bh_flags h) BTP_MANAGEMENT then [[bh_opcode h]] else []) @
     (if flags_contains (bh_flags h) BTP_ACK then [[bh_ack_num h]] else []) @
     (if flags_contains (bh_flags h) BTP_HANDSHAKE then [] else [[bh_seq_num h]]) @
     (if flags_contains (bh_flags h) BTP_BEGINNING_SEGMENT \<and> \<not> flags_contains (bh_flags h) BTP_HANDSHAKE
      then [to_le_bytes 2 (bh_msg_len h)] else [])"

lemma concat_BtpHdr_chunks: "concat (BtpHdr_chunks h) = BtpHdr_bytes h"
  by (simp add: BtpHdr_chunks_def BtpHdr_bytes_def)

lemma BtpHdr_encode_chunks: "BtpHdr_encode h = sr_seq (map WriteBuf_append (BtpHdr_chunks h))"
  by (auto simp: BtpHdr_encode_def BtpHdr_chunks_def WriteBuf_le_u8_append WriteBuf_le_u16_def sr_when_def)

lemma append_start: "wb_start (snd (WriteBuf_append bs w)) = wb_start w"
  by (auto simp: WriteBuf_append_def WriteBuf_copy_from_slice_def WriteBuf_append_with_def sr_bind_def sr_modify_def
      split: res.splits prod.splits if_splits)

lemma appends_start: "wb_start (snd (sr_seq (map WriteBuf_append bss) w)) = wb_start w"
proof (induction bss arbitrary: w)
  case (Cons bs bss)
  obtain r w1 where "WriteBuf_append bs w = (r, w1)" "wb_start w1 = wb_start w"
    using append_start [of bs w] by (metis prod.collapse)
  then show ?case using Cons.IH [of w1] by (auto simp: sr_bind_def split: res.splits)
qed (simp add: sr_return_def)

lemma written_chunks:
  assumes "length (concat bss) \<le> length buf"
  obtains buf' where "written buf (sr_seq (map WriteBuf_append bss)) = Ok (length (concat bss), buf')"
    "take (length (concat bss)) buf' = concat bss"
proof -
  from wb.chunks_fit [of "WriteBuf_new buf" bss] assms obtain w where
    w: "sr_seq (map WriteBuf_append bss) (WriteBuf_new buf) = (Ok (), w)" "WriteBuf_inv w" "WriteBuf_view w = concat bss"
    using WriteBuf_new_inv by auto
  have "wb_start w = 0" using appends_start [of bss "WriteBuf_new buf"] w(1)
    by (simp add: WriteBuf_new_def WriteBuf_new_with_def)
  moreover from this w(2,3) have "wb_end w = length (concat bss)"
    by (auto simp: WriteBuf_view_def WriteBuf_inv_def slice_of_def dest!: arg_cong [of _ _ length])
  ultimately show ?thesis
    using that [of "wb_buf w"] w(1,3) by (simp add: written_def WriteBuf_get_tail_def WriteBuf_view_def slice_of_def)
qed

lemma written_segment:
  assumes "BtpHdr_len h + length seg \<le> length buf"
  obtains buf' where "written buf (sr_then (BtpHdr_encode h) (WriteBuf_append seg)) = Ok (BtpHdr_len h + length seg, buf')"
    "take (BtpHdr_len h + length seg) buf' = BtpHdr_bytes h @ seg"
proof -
  let ?bss = "BtpHdr_chunks h @ [seg]"
  have c: "concat ?bss = BtpHdr_bytes h @ seg" by (simp add: concat_BtpHdr_chunks)
  have l: "length (concat ?bss) = BtpHdr_len h + length seg" unfolding c by (simp add: length_BtpHdr_bytes)
  have "sr_then (BtpHdr_encode h) (WriteBuf_append seg) = sr_seq (map WriteBuf_append ?bss)"
    by (simp add: BtpHdr_encode_chunks sr_seq_append)
  then show ?thesis using written_chunks [of ?bss buf] assms that unfolding l unfolding c by metis
qed

subsection \<open>Segments of a message\<close>

lemmas btp_hdr_ops = BtpHdr_set_ack_def BtpHdr_set_seq_def BtpHdr_new_def BtpHdr_set_msg_len_def BtpHdr_set_continue_def
  BtpHdr_set_final_def SendWindow_next_seq_num_def

lemmas btp_hdr_gets = BtpHdr_is_handshake_def BtpHdr_get_opcode_def BtpHdr_get_ack_def BtpHdr_get_seq_def
  BtpHdr_get_msg_len_def BtpHdr_is_continue_def BtpHdr_is_final_def BtpHdr_len_def

lemma set_final_gets:
  "BtpHdr_is_handshake (BtpHdr_set_final h) = BtpHdr_is_handshake h"
  "BtpHdr_get_opcode (BtpHdr_set_final h) = BtpHdr_get_opcode h"
  "BtpHdr_get_ack (BtpHdr_set_final h) = BtpHdr_get_ack h"
  "BtpHdr_get_seq (BtpHdr_set_final h) = BtpHdr_get_seq h"
  "BtpHdr_get_msg_len (BtpHdr_set_final h) = BtpHdr_get_msg_len h"
  "BtpHdr_is_continue (BtpHdr_set_final h) = BtpHdr_is_continue h"
  "BtpHdr_len (BtpHdr_set_final h) = BtpHdr_len h"
  "BtpHdr_is_final (BtpHdr_set_final h)"
  by (simp_all add: BtpHdr_set_final_def btp_hdr_gets btp_flag_simps)

lemma set_final_wf: "BtpHdr_wf h \<Longrightarrow> BtpHdr_wf (BtpHdr_set_final h)"
  by (auto simp: BtpHdr_wf_def BtpHdr_set_final_def BtpHdr_get_msg_len_def btp_flag_simps split: if_splits)

text \<open>The header before the final flag: of the first segment, and of a later one.\<close>

definition segment_hdr :: "u8 \<Rightarrow> u8 option \<Rightarrow> u16 option \<Rightarrow> BtpHdr" where
  "segment_hdr seq ack msg_len =
     (let h = BtpHdr_set_ack ack (BtpHdr_set_seq (Some seq) BtpHdr_new) in
      case msg_len of Some n \<Rightarrow> BtpHdr_set_msg_len (Some n) h | None \<Rightarrow> BtpHdr_set_continue h)"

lemma segment_hdr_gets:
  "\<not> BtpHdr_is_handshake (segment_hdr seq ack ml)" "BtpHdr_get_opcode (segment_hdr seq ack ml) = None"
  "BtpHdr_get_ack (segment_hdr seq ack ml) = ack" "BtpHdr_get_seq (segment_hdr seq ack ml) = Some seq"
  "BtpHdr_get_msg_len (segment_hdr seq ack ml) = ml" "BtpHdr_is_continue (segment_hdr seq ack ml) \<longleftrightarrow> ml = None"
  "\<not> BtpHdr_is_final (segment_hdr seq ack ml)" "2 \<le> BtpHdr_len (segment_hdr seq ack ml)"
  "BtpHdr_len (segment_hdr seq ack ml) \<le> 5" "BtpHdr_wf (segment_hdr seq ack ml)"
  by (cases ack; cases ml; simp add: segment_hdr_def Let_def btp_hdr_ops btp_hdr_gets btp_flag_simps BtpHdr_wf_def)+

lemma next_segment_header:
  assumes "data \<noteq> []" and "offset < length data" and "5 < unat (bs_mtu s)"
  obtains h seg where "next_segment data offset s = Some (h, seg)" "BtpHdr_wf h" "\<not> BtpHdr_is_handshake h"
    "BtpHdr_get_opcode h = None" "BtpHdr_get_ack h = RecvWindow_pending_ack (bs_recv_window s)"
    "BtpHdr_get_seq h = Some (sw_last_sent_seq_num (bs_send_window s) + 1)"
    "BtpHdr_get_msg_len h = (if offset = 0 then Some (of_nat (length data)) else None)"
    "BtpHdr_is_continue h \<longleftrightarrow> offset \<noteq> 0" "BtpHdr_is_final h \<longleftrightarrow> offset + length seg = length data"
    "seg = take (unat (bs_mtu s) - BtpHdr_len h) (drop offset data)" "2 \<le> BtpHdr_len h" "BtpHdr_len h \<le> 5"
proof -
  let ?seq = "sw_last_sent_seq_num (bs_send_window s) + 1"
  define h2 where "h2 = segment_hdr ?seq (RecvWindow_pending_ack (bs_recv_window s))
      (if offset = 0 then Some (of_nat (length data)) else None)"
  define h where "h = (if length data - offset \<le> unat (bs_mtu s) - BtpHdr_len h2 then BtpHdr_set_final h2 else h2)"
  let ?seg = "take (unat (bs_mtu s) - BtpHdr_len h2) (drop offset data)"
  have fin: "offset + length ?seg = length data \<longleftrightarrow> length data - offset \<le> unat (bs_mtu s) - BtpHdr_len h2"
    using assms(2) by auto
  have len: "BtpHdr_len h2 \<le> 5" by (simp add: h2_def segment_hdr_gets)
  have h2': "h2 = (let hdr = BtpHdr_set_ack (RecvWindow_pending_ack (bs_recv_window s))
            (BtpHdr_set_seq (Some (SendWindow_next_seq_num (bs_send_window s))) BtpHdr_new)
      in if offset = 0 then BtpHdr_set_msg_len (Some (of_nat (length data))) hdr else BtpHdr_set_continue hdr)"
    by (simp add: h2_def segment_hdr_def SendWindow_next_seq_num_def)
  have "next_segment data offset s = Some (h, ?seg)"
    using assms len by (auto simp: next_segment_def Let_def h_def h2' [unfolded Let_def, symmetric] min_def)
  moreover have "BtpHdr_wf h" by (simp add: h_def h2_def segment_hdr_gets set_final_wf)
  ultimately show ?thesis
    by (rule that) (simp_all only: fin, simp_all add: h_def h2_def set_final_gets segment_hdr_gets)
qed

subsection \<open>Receiving a segment\<close>

lemma ring_push_fits:
  assumes "RingBuf_inv MAX_MESSAGE_SIZE (rw_buf w)" and "length (RingBuf_list (rw_buf w)) + length d \<le> MAX_MESSAGE_SIZE"
  obtains q where "ring_push d w = (Ok (), w\<lparr>rw_buf := q\<rparr>)" "RingBuf_inv MAX_MESSAGE_SIZE q"
    "RingBuf_list q = RingBuf_list (rw_buf w) @ d"
  using ring.push_fits [OF assms] that by (auto simp: ring_push_def)

lemma RingBuf_free_list: "RingBuf_inv N q \<Longrightarrow> RingBuf_free N q = N - length (RingBuf_list q)"
  by (simp add: RingBuf_free_def RingBuf_len_list)

text \<open>The receiver has the first \<open>off\<close> bytes of \<open>data\<close>.\<close>

definition len_bytes :: "bytes \<Rightarrow> bytes" where
  "len_bytes data = to_le_bytes 2 (of_nat (length data) :: u16)"

definition receiving :: "bytes \<Rightarrow> nat \<Rightarrow> RecvWindow \<Rightarrow> bool" where
  "receiving data off w \<longleftrightarrow> RingBuf_inv MAX_MESSAGE_SIZE (rw_buf w) \<and>
     RingBuf_list (rw_buf w) = (if off = 0 then [] else len_bytes data @ take off data) \<and>
     (off \<noteq> 0 \<longrightarrow> unat (rw_rem_msg_len w) = length data - off)"

lemma unat_of_nat_u16: "n < 65536 \<Longrightarrow> unat (of_nat n :: u16) = n"
  by (simp add: unat_of_nat)

lemma begin_message_ok:
  assumes "receiving data off w" and "length data \<le> 3164" and "off < length data"
    and "BtpHdr_get_msg_len h = (if off = 0 then Some (of_nat (length data)) else None)"
    and "off = 0 \<Longrightarrow> BtpHdr_is_final h \<or> unat mtu < length data"
  obtains q where "begin_message h mtu w = (Ok (), w\<lparr>rw_rem_msg_len := of_nat (length data - off), rw_buf := q\<rparr>)"
    "RingBuf_inv MAX_MESSAGE_SIZE q" "RingBuf_list q = len_bytes data @ take off data"
proof (cases "off = 0")
  case True
  have u: "unat (of_nat (length data) :: u16) = length data" using assms(2) by (simp add: unat_of_nat)
  then have g: "\<not> ((of_nat (length data) :: u16) \<le> mtu \<and> \<not> BtpHdr_is_final h)"
    using assms(5) True by (auto simp: word_le_nat_alt)
  have pos: "(of_nat (length data) :: u16) > 0" using u assms(3) by (auto simp: word_less_nat_alt)
  let ?w = "w\<lparr>rw_rem_msg_len := of_nat (length data)\<rparr>"
  have e: "RingBuf_inv MAX_MESSAGE_SIZE (rw_buf ?w)" "RingBuf_list (rw_buf ?w) = []"
    using assms(1) True by (simp_all add: receiving_def)
  then have free: "2 \<le> RingBuf_free MAX_MESSAGE_SIZE (rw_buf ?w)"
    by (simp add: RingBuf_free_list MAX_MESSAGE_SIZE_def MAX_RX_PACKET_SIZE_def)
  have "length (RingBuf_list (rw_buf ?w)) + length (len_bytes data) \<le> MAX_MESSAGE_SIZE"
    unfolding e(2) by (simp add: len_bytes_def MAX_MESSAGE_SIZE_def MAX_RX_PACKET_SIZE_def)
  from ring_push_fits [OF e(1) this] obtain q where q: "ring_push (len_bytes data) ?w = (Ok (), ?w\<lparr>rw_buf := q\<rparr>)"
    "RingBuf_inv MAX_MESSAGE_SIZE q" "RingBuf_list q = RingBuf_list (rw_buf ?w) @ len_bytes data" by blast
  then show ?thesis
    using that [of q] g pos free e(2) assms(4) True by (simp add: begin_message_def Let_def len_bytes_def)
next
  case False
  with assms(1) have r: "unat (rw_rem_msg_len w) = length data - off" "RingBuf_inv MAX_MESSAGE_SIZE (rw_buf w)"
    "RingBuf_list (rw_buf w) = len_bytes data @ take off data" by (simp_all add: receiving_def)
  moreover have "unat (of_nat (length data - off) :: u16) = length data - off"
    by (rule unat_of_nat_u16) (use assms(2) in simp)
  ultimately have "rw_rem_msg_len w = of_nat (length data - off)" by (metis unsigned_word_eqI)
  then show ?thesis using that [of "rw_buf w"] r False assms(4) by (simp add: begin_message_def)
qed

lemma count_segment_ok:
  assumes "BtpHdr_get_seq h = Some seq" and "0 < rw_level w" and "rw_ack_level w < 255" and "rw_buf_messages_ct w = 0"
    and "payload \<noteq> []"
  shows "count_segment h payload now w = (Ok (), w\<lparr>rw_level := rw_level w - 1, rw_ack_seq := seq,
    rw_ack_level := rw_ack_level w + 1, rw_received_at := Some now,
    rw_buf_messages_ct := (if BtpHdr_is_final h then 1 else 0)\<rparr>)"
proof -
  have "sub_u8 (rw_level w) 1 = Some (rw_level w - 1)"
    using assms(2) by (simp add: sub_u8_def word_le_nat_alt word_less_nat_alt)
  moreover have "add_u8 (rw_ack_level w) 1 = Some (rw_ack_level w + 1)"
    using assms(3) by (simp add: add_u8_def word_less_nat_alt)
  ultimately show ?thesis using assms by (simp add: count_segment_def add_u8_def)
qed

lemma take_length_take: "take (length (take n xs)) xs = take n xs"
  by (simp add: min_def)

lemma accept_segment:
  assumes rcv: "receiving data off w" and len: "length data \<le> 3164" and off: "off < length data"
    and hdr: "\<not> BtpHdr_is_handshake h" "BtpHdr_get_opcode h = None" "BtpHdr_get_seq h = Some (rw_ack_seq w + 1)"
      "BtpHdr_get_msg_len h = (if off = 0 then Some (of_nat (length data)) else None)"
      "BtpHdr_is_continue h \<longleftrightarrow> off \<noteq> 0" "BtpHdr_is_final h \<longleftrightarrow> off + length seg = length data"
    and seg: "seg = take (unat mtu - BtpHdr_len h) (drop off data)" "seg \<noteq> []" "BtpHdr_len h \<le> unat mtu"
    and first: "off = 0 \<Longrightarrow> BtpHdr_is_final h \<or> unat mtu < length data"
    and win: "0 < rw_level w" "rw_ack_level w < 255" "rw_buf_messages_ct w = 0"
  obtains w' where "RecvWindow_accept_incoming h seg mtu now w = (Ok (), w')" "receiving data (off + length seg) w'"
    "rw_level w' = rw_level w - 1" "rw_ack_level w' = rw_ack_level w + 1" "rw_ack_seq w' = rw_ack_seq w + 1"
    "rw_buf_messages_ct w' = (if off + length seg = length data then 1 else 0)"
proof -
  have fits: "off + length seg \<le> length data" using seg(1) off by auto
  have "\<not> BtpHdr_is_final h \<Longrightarrow> length seg + BtpHdr_len h = unat mtu"
    using hdr(6) seg off by (auto simp: min_def split: if_splits)
  then have chk: "RecvWindow_check_data_integrity h seg mtu w = Ok ()"
    using hdr by (auto simp: RecvWindow_check_data_integrity_def BtpHdr_is_standalone_ack_def)
  from begin_message_ok [OF rcv len off hdr(4) first] obtain q where
    q: "begin_message h mtu w = (Ok (), w\<lparr>rw_rem_msg_len := of_nat (length data - off), rw_buf := q\<rparr>)"
    "RingBuf_inv MAX_MESSAGE_SIZE q" "RingBuf_list q = len_bytes data @ take off data" by blast
  let ?n = "of_nat (length seg) :: u16" and ?rem = "of_nat (length data - off) :: u16"
  have u: "unat ?n = length seg" "unat ?rem = length data - off" using len fits by (auto intro: unat_of_nat_u16 simp del: of_nat_diff)
  have le: "\<not> ?rem < ?n" using u fits by (simp add: word_less_nat_alt)
  then have ur: "unat (?rem - ?n) = length data - (off + length seg)"
    using u fits by (simp add: unat_sub linorder_not_less)
  have fin: "\<not> (BtpHdr_is_final h \<and> 0 < ?rem - ?n)"
    using hdr(6) ur by (auto simp: word_less_nat_alt)
  define w1 w2 where "w1 = w\<lparr>rw_rem_msg_len := ?rem, rw_buf := q\<rparr>" and "w2 = w1\<lparr>rw_rem_msg_len := ?rem - ?n\<rparr>"
  have w2: "rw_buf w2 = q" "rw_level w2 = rw_level w" "rw_ack_level w2 = rw_ack_level w" "rw_buf_messages_ct w2 = 0"
      "rw_rem_msg_len w2 = ?rem - ?n" "rw_rem_msg_len w1 = ?rem" "rw_ack_seq w2 = rw_ack_seq w"
    using win(3) by (simp_all add: w2_def w1_def)
  have room: "length (RingBuf_list (rw_buf w2)) + length seg \<le> MAX_MESSAGE_SIZE"
    using q(3) fits len by (simp add: w2 len_bytes_def MAX_MESSAGE_SIZE_def MAX_RX_PACKET_SIZE_def)
  have free: "\<not> RingBuf_free MAX_MESSAGE_SIZE (rw_buf w2) < length seg"
    using room q(2) by (simp add: w2 RingBuf_free_list)
  have "RingBuf_inv MAX_MESSAGE_SIZE (rw_buf w2)" using q(2) by (simp add: w2)
  from ring_push_fits [OF this room] obtain q' where
    q': "ring_push seg w2 = (Ok (), w2\<lparr>rw_buf := q'\<rparr>)" "RingBuf_inv MAX_MESSAGE_SIZE q'"
    "RingBuf_list q' = RingBuf_list (rw_buf w2) @ seg" by blast
  define w3 w4 where "w3 = w2\<lparr>rw_buf := q'\<rparr>" and "w4 = w3\<lparr>rw_level := rw_level w - 1, rw_ack_seq := rw_ack_seq w + 1,
      rw_ack_level := rw_ack_level w + 1, rw_received_at := Some now,
      rw_buf_messages_ct := (if BtpHdr_is_final h then 1 else 0)\<rparr>"
  have cnt: "count_segment h seg now w3 = (Ok (), w4)"
    using count_segment_ok [OF hdr(3), of w3 seg now] win seg(2) by (simp add: w4_def w3_def w2)
  have "take (off + length seg) data = take off data @ seg"
    using take_length_take [of "unat mtu - BtpHdr_len h" "drop off data"] by (simp add: take_add seg(1) [symmetric])
  then have "receiving data (off + length seg) w4"
    using q' q(3) seg(2) ur by (simp add: w4_def w3_def w2 receiving_def)
  moreover have "RecvWindow_accept_incoming h seg mtu now w = (Ok (), w4)"
    unfolding RecvWindow_accept_incoming_def
    using chk q(1) [folded w1_def] q'(1) [folded w3_def] cnt free fin le
    by (simp add: sr_bind_def sr_get_def sr_res_def Let_def w2 w2_def [symmetric])
  ultimately show ?thesis using that [of w4] hdr(6) by (simp add: w4_def)
qed

subsection \<open>From one session to the other\<close>

text \<open>
  Sender \<open>s\<close> and receiver \<open>r\<close> agree: same MTU, the receiver has the first \<open>off\<close> bytes and expects the
  sender's next sequence number, and the acknowledgement the sender is about to attach is one the
  receiver can account for.
\<close>

definition ack_sound :: "BtpSession \<Rightarrow> BtpSession \<Rightarrow> bool" where
  "ack_sound s r \<longleftrightarrow>
     unat (rw_level (bs_recv_window s)) + unat (rw_ack_level (bs_recv_window s)) < 256 \<and>
     (\<forall>a. RecvWindow_pending_ack (bs_recv_window s) = Some a \<longrightarrow>
        sw_last_sent_seq_num (bs_send_window r) - a \<le> sw_window_size (bs_send_window r))"

definition in_sync :: "bytes \<Rightarrow> nat \<Rightarrow> BtpSession \<Rightarrow> BtpSession \<Rightarrow> bool" where
  "in_sync data off s r \<longleftrightarrow> bs_mtu s = bs_mtu r \<and> receiving data off (bs_recv_window r) \<and>
     rw_ack_seq (bs_recv_window r) = sw_last_sent_seq_num (bs_send_window s) \<and> ack_sound s r"

lemma recv_post_send:
  assumes "unat (rw_level w) + unat (rw_ack_level w) < 256"
  obtains w' where "RecvWindow_post_send w = (Ok (), w')" "RecvWindow_pending_ack w' = None"
    "unat (rw_level w') + unat (rw_ack_level w') < 256"
proof (cases "RecvWindow_pending_ack w")
  case None
  then show ?thesis using that [of w] assms by (simp add: RecvWindow_post_send_def)
next
  case (Some a)
  have "unat (rw_level w + rw_ack_level w) < 256" using unat_bounds_u8 by simp
  then show ?thesis
    using that [of "w\<lparr>rw_level := rw_level w + rw_ack_level w, rw_ack_level := 0\<rparr>"] Some assms
    by (simp add: RecvWindow_post_send_def add_u8_def RecvWindow_pending_ack_def)
qed

lemma send_accepts:
  assumes "\<And>a. BtpHdr_get_ack h = Some a \<Longrightarrow> sw_last_sent_seq_num w - a \<le> sw_window_size w"
  obtains w' where "SendWindow_accept_incoming h now w = (Ok (), w')"
    "sw_last_sent_seq_num w' = sw_last_sent_seq_num w" "sw_window_size w' = sw_window_size w"
proof (cases "BtpHdr_get_ack h")
  case None
  then show ?thesis using that [of w] by (simp add: SendWindow_accept_incoming_def)
next
  case (Some a)
  have "\<exists>w'. SendWindow_accept_incoming h now w = (Ok (), w') \<and> sw_last_sent_seq_num w' = sw_last_sent_seq_num w \<and>
      sw_window_size w' = sw_window_size w"
    using assms [OF Some] Some
    by (cases "sw_last_sent_seq_num w = a") (simp_all add: SendWindow_accept_incoming_def sub_u8_def Let_def)
  then show ?thesis using that by blast
qed

lemma transfer_step:
  assumes sync: "in_sync data off s r" and mtu: "5 < unat (bs_mtu s)" "unat (bs_mtu s) \<le> length buf"
    and data: "length data \<le> 3164" "off < length data"
    and first: "off = 0 \<Longrightarrow> length data + 5 \<le> unat (bs_mtu s) \<or> unat (bs_mtu s) < length data"
    and win: "1 < sw_level (bs_send_window s)" "0 < rw_level (bs_recv_window r)" "rw_ack_level (bs_recv_window r) < 255"
      "rw_buf_messages_ct (bs_recv_window r) = 0"
  obtains len off' buf' s' r' where "BtpSession_prep_tx_data data off buf now s = (Ok (len, off', buf'), s')"
    "0 < len" "BtpSession_process_rx_data (take len buf') now r = (Ok (), r')" "in_sync data off' s' r'"
    "off < off'" "off' \<le> length data" "off' = length data \<or> off + (unat (bs_mtu s) - 5) \<le> off'" "bs_mtu s' = bs_mtu s"
    "sw_level (bs_send_window s') = sw_level (bs_send_window s) - 1"
    "rw_level (bs_recv_window r') = rw_level (bs_recv_window r) - 1"
    "rw_ack_level (bs_recv_window r') = rw_ack_level (bs_recv_window r) + 1"
    "rw_buf_messages_ct (bs_recv_window r') = (if off' = length data then 1 else 0)"
proof -
  let ?m = "unat (bs_mtu s)"
  have ne: "data \<noteq> []" using data(2) by auto
  obtain h seg where seg: "next_segment data off s = Some (h, seg)" "BtpHdr_wf h" "\<not> BtpHdr_is_handshake h"
    "BtpHdr_get_opcode h = None" "BtpHdr_get_ack h = RecvWindow_pending_ack (bs_recv_window s)"
    "BtpHdr_get_seq h = Some (sw_last_sent_seq_num (bs_send_window s) + 1)"
    "BtpHdr_get_msg_len h = (if off = 0 then Some (of_nat (length data)) else None)"
    "BtpHdr_is_continue h \<longleftrightarrow> off \<noteq> 0" "BtpHdr_is_final h \<longleftrightarrow> off + length seg = length data"
    "seg = take (?m - BtpHdr_len h) (drop off data)" "2 \<le> BtpHdr_len h" "BtpHdr_len h \<le> 5"
    by (rule next_segment_header [OF ne data(2) mtu(1)])
  have segl: "length seg = min (length data - off) (?m - BtpHdr_len h)" using seg(10) by simp
  then have segne: "seg \<noteq> []" using data(2) mtu(1) seg(12) by auto
  have "BtpHdr_len h + length seg \<le> length buf" using segl mtu seg(12) by simp
  then obtain buf' where wr: "written buf (sr_then (BtpHdr_encode h) (WriteBuf_append seg)) = Ok (BtpHdr_len h + length seg, buf')"
      "take (BtpHdr_len h + length seg) buf' = BtpHdr_bytes h @ seg" by (rule written_segment)
  have rcv: "receiving data off (bs_recv_window r)" "rw_ack_seq (bs_recv_window r) = sw_last_sent_seq_num (bs_send_window s)"
      "bs_mtu r = bs_mtu s" "ack_sound s r" using sync by (simp_all add: in_sync_def)
  have seq: "BtpHdr_get_seq h = Some (rw_ack_seq (bs_recv_window r) + 1)" using seg(6) rcv(2) by simp
  have fst: "off = 0 \<Longrightarrow> BtpHdr_is_final h \<or> ?m < length data" using first seg(9,12) segl by auto
  have hm: "BtpHdr_len h \<le> ?m" using seg(12) mtu(1) by simp
  obtain w' where w': "RecvWindow_accept_incoming h seg (bs_mtu s) now (bs_recv_window r) = (Ok (), w')"
    "receiving data (off + length seg) w'" "rw_level w' = rw_level (bs_recv_window r) - 1"
    "rw_ack_level w' = rw_ack_level (bs_recv_window r) + 1" "rw_ack_seq w' = rw_ack_seq (bs_recv_window r) + 1"
    "rw_buf_messages_ct w' = (if off + length seg = length data then 1 else 0)"
    by (rule accept_segment [OF rcv(1) data seg(3,4) seq seg(7-10) segne hm fst win(2-4)])
  obtain v where v: "SendWindow_accept_incoming h now (bs_send_window r) = (Ok (), v)"
    "sw_last_sent_seq_num v = sw_last_sent_seq_num (bs_send_window r)" "sw_window_size v = sw_window_size (bs_send_window r)"
    by (rule send_accepts [of h "bs_send_window r" now]) (use rcv(4) seg(5) in \<open>auto simp: ack_sound_def\<close>)
  obtain x where x: "RecvWindow_post_send (bs_recv_window s) = (Ok (), x)" "RecvWindow_pending_ack x = None"
    "unat (rw_level x) + unat (rw_ack_level x) < 256"
    by (rule recv_post_send [of "bs_recv_window s"]) (use rcv(4) in \<open>auto simp: ack_sound_def\<close>)
  define r' where "r' = r\<lparr>bs_recv_window := w', bs_send_window := v\<rparr>"
  define s' where "s' = s\<lparr>bs_send_window := (bs_send_window s)\<lparr>sw_level := sw_level (bs_send_window s) - 1,
      sw_last_sent_seq_num := sw_last_sent_seq_num (bs_send_window s) + 1, sw_sent_at := Some now\<rparr>, bs_recv_window := x\<rparr>"
  have ps: "SendWindow_post_send now (bs_send_window s) = (Ok (), bs_send_window s')"
    using win(1) by (simp add: SendWindow_post_send_def sub_u8_def s'_def)
  have "\<not> SendWindow_is_full (bs_recv_window s) (bs_send_window s)" using win(1) by (auto simp: SendWindow_is_full_def)
  then have tx: "BtpSession_prep_tx_data data off buf now s = (Ok (BtpHdr_len h + length seg, off + length seg, buf'), s')"
    using seg(1) wr(1) ps x(1)
    by (simp add: BtpSession_prep_tx_data_def sr_bind_def sr_res_def sr_return_def on_send_def on_recv_def s'_def)
  have rx: "BtpSession_process_rx_data (take (BtpHdr_len h + length seg) buf') now r = (Ok (), r')"
    using wr(2) BtpHdr_from_bytes [OF seg(2), of seg] w'(1) v(1) rcv(3)
    by (simp add: BtpSession_process_rx_data_def sr_bind_def on_send_def on_recv_def r'_def)
  have "in_sync data (off + length seg) s' r'"
    using w' v x rcv by (simp add: in_sync_def ack_sound_def s'_def r'_def)
  moreover have "off < off + length seg" "off + length seg \<le> length data" "0 < BtpHdr_len h + length seg"
    using segne segl data(2) seg(12) mtu(1) by simp_all
  moreover have "off + length seg = length data \<or> off + (?m - 5) \<le> off + length seg"
    using segl seg(12) data(2) by (simp add: min_def) linarith
  ultimately show ?thesis using that [OF tx _ rx] w' by (simp add: s'_def r'_def)
qed

text \<open>Sending a message segment by segment, each delivered before the next, as the sending task does.\<close>

fun transfer :: "nat \<Rightarrow> bytes \<Rightarrow> bytes \<Rightarrow> nat \<Rightarrow> nat \<Rightarrow> BtpSession \<Rightarrow> BtpSession \<Rightarrow> (BtpSession \<times> BtpSession) option" where
  "transfer 0 data buf now off s r = None"
| "transfer (Suc n) data buf now off s r =
     (case BtpSession_prep_tx_data data off buf now s of
        (Ok (len, off', buf'), s') \<Rightarrow>
          if len = 0 then None
          else (case BtpSession_process_rx_data (take len buf') now r of
                  (Ok _, r') \<Rightarrow>
                    if off' = length data then Some (s', r') else transfer n data buf now off' s' r'
                | _ \<Rightarrow> None)
      | _ \<Rightarrow> None)"

lemma unat_pred_u8: "0 < w \<Longrightarrow> unat (w - 1) = unat w - 1" for w :: u8
  by (simp add: unat_sub word_le_nat_alt word_less_nat_alt)

lemma unat_suc_u8: "w < 255 \<Longrightarrow> unat (w + 1) = unat w + 1" for w :: u8
  by (simp add: unat_word_ariths word_less_nat_alt)

lemma transfer_completes:
  assumes "in_sync data off s r" and "5 < unat (bs_mtu s)" "unat (bs_mtu s) \<le> length buf"
    and "length data \<le> 3164" "off < length data"
    and "off = 0 \<Longrightarrow> length data + 5 \<le> unat (bs_mtu s) \<or> unat (bs_mtu s) < length data"
    and "k < unat (sw_level (bs_send_window s))" "k \<le> unat (rw_level (bs_recv_window r))"
      "unat (rw_ack_level (bs_recv_window r)) + k < 256" "rw_buf_messages_ct (bs_recv_window r) = 0"
    and "length data - off \<le> k * (unat (bs_mtu s) - 5)"
  shows "\<exists>s' r'. transfer k data buf now off s r = Some (s', r') \<and> in_sync data (length data) s' r' \<and>
    rw_buf_messages_ct (bs_recv_window r') = 1"
  using assms
proof (induction k arbitrary: off s r)
  case (Suc k)
  have win: "1 < sw_level (bs_send_window s)" "0 < rw_level (bs_recv_window r)" "rw_ack_level (bs_recv_window r) < 255"
    using Suc.prems(7-9) by (simp_all add: word_less_nat_alt)
  obtain len off' buf' s' r' where st: "BtpSession_prep_tx_data data off buf now s = (Ok (len, off', buf'), s')"
    "0 < len" "BtpSession_process_rx_data (take len buf') now r = (Ok (), r')" "in_sync data off' s' r'"
    "off < off'" "off' \<le> length data" "off' = length data \<or> off + (unat (bs_mtu s) - 5) \<le> off'" "bs_mtu s' = bs_mtu s"
    "sw_level (bs_send_window s') = sw_level (bs_send_window s) - 1"
    "rw_level (bs_recv_window r') = rw_level (bs_recv_window r) - 1"
    "rw_ack_level (bs_recv_window r') = rw_ack_level (bs_recv_window r) + 1"
    "rw_buf_messages_ct (bs_recv_window r') = (if off' = length data then 1 else 0)"
    by (rule transfer_step [OF Suc.prems(1-6) win Suc.prems(10)])
  show ?case
  proof (cases "off' = length data")
    case True
    with st show ?thesis by simp
  next
    case False
    have "0 < sw_level (bs_send_window s)" using win(1) by (simp add: word_less_nat_alt)
    then have u: "unat (sw_level (bs_send_window s')) = unat (sw_level (bs_send_window s)) - 1"
        "unat (rw_level (bs_recv_window r')) = unat (rw_level (bs_recv_window r)) - 1"
        "unat (rw_ack_level (bs_recv_window r')) = unat (rw_ack_level (bs_recv_window r)) + 1"
      using win st(9-11) by (simp_all add: unat_pred_u8 unat_suc_u8)
    have "length data - off' \<le> k * (unat (bs_mtu s) - 5)" using st(5,7) False Suc.prems(11) by auto
    then have "\<exists>s'' r''. transfer k data buf now off' s' r' = Some (s'', r'') \<and> in_sync data (length data) s'' r'' \<and>
        rw_buf_messages_ct (bs_recv_window r'') = 1"
      using Suc.prems(2-4,7-9) st False u by (intro Suc.IH) simp_all
    then show ?thesis using st False by simp
  qed
qed simp

lemma ring_pop_byte_ok:
  assumes "RingBuf_inv MAX_MESSAGE_SIZE (rw_buf w)" and "RingBuf_list (rw_buf w) = b # bs"
  obtains q where "ring_pop_byte w = (Ok b, w\<lparr>rw_buf := q\<rparr>)" "RingBuf_inv MAX_MESSAGE_SIZE q" "RingBuf_list q = bs"
  using ring.pop_takes [OF assms(1), of "[0]"] assms(2) that
  by (auto simp: ring_pop_byte_def RingBuf_pop_byte_def copy_into_def)

lemma ring_pop_into_ok:
  assumes "RingBuf_inv MAX_MESSAGE_SIZE (rw_buf w)" and "RingBuf_list (rw_buf w) = data" and "length data \<le> length out"
  obtains q where "ring_pop_into (length data) out w = (Ok (data @ drop (length data) out), w\<lparr>rw_buf := q\<rparr>)"
    "RingBuf_inv MAX_MESSAGE_SIZE q" "RingBuf_list q = []"
  using ring.pop_takes [OF assms(1), of "take (length data) out"] assms that
  by (auto simp: ring_pop_into_def copy_into_def)

lemma fetch_complete:
  assumes "receiving data (length data) w" and "data \<noteq> []" and "length data \<le> 3164" and "rw_buf_messages_ct w = 1"
    and "length data \<le> length out"
  obtains w' where "RecvWindow_fetch_message out w = (Ok (length data, data @ drop (length data) out), w')"
    "rw_buf_messages_ct w' = 0" "RingBuf_list (rw_buf w') = []"
proof -
  obtain lo hi where lb: "len_bytes data = [lo, hi]" "from_le_bytes [lo, hi] = (of_nat (length data) :: u16)"
    using from_to_le_bytes_u16 [of "of_nat (length data)"]
    by (auto simp: len_bytes_def to_le_bytes_Suc numeral_2_eq_2 to_le_bytes_def)
  have n: "unat (of_nat (length data) :: u16) = length data" by (rule unat_of_nat_u16) (use assms(3) in simp)
  have p0: "RingBuf_inv MAX_MESSAGE_SIZE (rw_buf w)" "RingBuf_list (rw_buf w) = lo # hi # data"
    using assms(1,2) by (simp_all add: receiving_def lb)
  obtain q1 where p1: "ring_pop_byte w = (Ok lo, w\<lparr>rw_buf := q1\<rparr>)" "RingBuf_inv MAX_MESSAGE_SIZE q1" "RingBuf_list q1 = hi # data"
    by (rule ring_pop_byte_ok [OF p0])
  have p1': "RingBuf_inv MAX_MESSAGE_SIZE (rw_buf (w\<lparr>rw_buf := q1\<rparr>))" "RingBuf_list (rw_buf (w\<lparr>rw_buf := q1\<rparr>)) = hi # data"
    using p1 by simp_all
  obtain q2 where p2: "ring_pop_byte (w\<lparr>rw_buf := q1\<rparr>) = (Ok hi, w\<lparr>rw_buf := q2\<rparr>)" "RingBuf_inv MAX_MESSAGE_SIZE q2"
      "RingBuf_list q2 = data"
    by (rule ring_pop_byte_ok [OF p1']) simp
  have p2': "RingBuf_inv MAX_MESSAGE_SIZE (rw_buf (w\<lparr>rw_buf := q2\<rparr>))" "RingBuf_list (rw_buf (w\<lparr>rw_buf := q2\<rparr>)) = data"
    using p2 by simp_all
  obtain q3 where p3: "ring_pop_into (length data) out (w\<lparr>rw_buf := q2\<rparr>) = (Ok (data @ drop (length data) out), w\<lparr>rw_buf := q3\<rparr>)"
      "RingBuf_list q3 = []"
    by (rule ring_pop_into_ok [OF p2' assms(5)]) simp
  show ?thesis
    using that [of "w\<lparr>rw_buf := q3, rw_buf_messages_ct := 0\<rparr>"] p1(1) p2(1) p3 assms(4,5)
    by (simp add: RecvWindow_fetch_message_def sr_bind_def sr_get_def sr_return_def sr_modify_def Let_def lb(2) n min_absorb1
        del: from_le_bytes.simps)
qed

subsection \<open>Properties\<close>

text \<open>A segment header written to a buffer with enough room takes exactly \<^verbatim>\<open>len()\<close> bytes, and decoding
  those bytes gives the header back and leaves the payload.\<close>

theorem btp_header_roundtrip:
  assumes "BtpHdr_wf h" and "BtpHdr_len h + length payload \<le> length buf"
  shows "\<exists>buf'. written buf (sr_then (BtpHdr_encode h) (WriteBuf_append payload)) = Ok (BtpHdr_len h + length payload, buf') \<and>
    BtpHdr_from (take (BtpHdr_len h + length payload) buf') = (Ok h, payload)"
  by (rule written_segment [OF assms(2)]) (use BtpHdr_from_bytes [OF assms(1)] in auto)

theorem btp_header_roundtrip_witness:
  "BtpHdr_wf (segment_hdr 7 (Some 3) (Some 300)) \<and>
   (\<exists>buf'. BtpHdr_from (take (BtpHdr_len (segment_hdr 7 (Some 3) (Some 300)) + 1) buf') = (Ok (segment_hdr 7 (Some 3) (Some 300)), [9]))"
proof -
  let ?h = "segment_hdr 7 (Some 3) (Some 300)"
  have "BtpHdr_len ?h + length [9 :: u8] \<le> length (replicate 20 (0 :: u8))" using segment_hdr_gets(9) [of 7 "Some 3" "Some 300"] by simp
  from btp_header_roundtrip [OF segment_hdr_gets(10) this] segment_hdr_gets(10) show ?thesis by auto
qed


definition btp_peer :: BtpSession where
  "btp_peer = BtpSession_setup (BtAddr (replicate 6 1)) 4 20 6 BtpSession_new"

lemma btp_peers_in_sync: "in_sync data 0 btp_peer btp_peer"
  by (simp add: in_sync_def ack_sound_def receiving_def btp_peer_def BtpSession_setup_def BtpSession_new_def RecvWindow_new_def
      SendWindow_new_def RecvWindow_pending_ack_def RingBuf_inv_def RingBuf_new_def RingBuf_list_def MAX_MESSAGE_SIZE_def
      MAX_RX_PACKET_SIZE_def)


text \<open>A message that just misses fitting one segment because of the header, but is not longer than the
  MTU, is refused: the sender cuts it into two segments and the receiver takes the first for malformed.\<close>

theorem btp_boundary_refused:
  assumes "in_sync data 0 s r" and "5 < unat (bs_mtu s)" "unat (bs_mtu s) \<le> length buf"
    and "unat (bs_mtu s) - 4 < length data" "length data \<le> unat (bs_mtu s)" and "1 < sw_level (bs_send_window s)"
  shows "\<exists>len off' buf' s'. BtpSession_prep_tx_data data 0 buf now s = (Ok (len, off', buf'), s') \<and>
    fst (BtpSession_process_rx_data (take len buf') now r) = Err InvalidData"
proof -
  let ?m = "unat (bs_mtu s)"
  have ne: "data \<noteq> []" "0 < length data" using assms(2,4) by auto
  obtain h seg where seg: "next_segment data 0 s = Some (h, seg)" "BtpHdr_wf h" "\<not> BtpHdr_is_handshake h"
    "BtpHdr_get_opcode h = None" "BtpHdr_get_seq h = Some (sw_last_sent_seq_num (bs_send_window s) + 1)"
    "BtpHdr_get_msg_len h = Some (of_nat (length data))" "\<not> BtpHdr_is_continue h"
    "BtpHdr_is_final h \<longleftrightarrow> length seg = length data" "seg = take (?m - BtpHdr_len h) data" "BtpHdr_len h \<le> 5"
    by (rule next_segment_header [OF ne assms(2)]) auto
  have l4: "4 \<le> BtpHdr_len h" using seg(3,6) by (auto simp: BtpHdr_len_def BtpHdr_is_handshake_def BtpHdr_get_msg_len_def split: if_splits)
  have segl: "length seg = ?m - BtpHdr_len h" "length seg < length data" using seg(9) l4 assms(4) by auto
  have "BtpHdr_len h + length seg \<le> length buf" using segl assms(2,3) seg(10) by simp
  then obtain buf' where wr: "written buf (sr_then (BtpHdr_encode h) (WriteBuf_append seg)) = Ok (BtpHdr_len h + length seg, buf')"
      "take (BtpHdr_len h + length seg) buf' = BtpHdr_bytes h @ seg" by (rule written_segment)
  have rcv: "rw_ack_seq (bs_recv_window r) = sw_last_sent_seq_num (bs_send_window s)" "bs_mtu r = bs_mtu s" "ack_sound s r"
    using assms(1) by (simp_all add: in_sync_def)
  obtain x where x: "RecvWindow_post_send (bs_recv_window s) = (Ok (), x)"
    by (rule recv_post_send [of "bs_recv_window s"]) (use rcv(3) in \<open>auto simp: ack_sound_def\<close>)
  have "\<not> SendWindow_is_full (bs_recv_window s) (bs_send_window s)" using assms(6) by (auto simp: SendWindow_is_full_def)
  then have "\<exists>s'. BtpSession_prep_tx_data data 0 buf now s = (Ok (BtpHdr_len h + length seg, length seg, buf'), s')"
    using seg(1) wr(1) x assms(6)
    by (simp add: BtpSession_prep_tx_data_def sr_bind_def sr_res_def sr_return_def on_send_def on_recv_def
        SendWindow_post_send_def sub_u8_def)
  moreover have "unat (of_nat (length data) :: u16) = length data"
    by (rule unat_of_nat_u16) (use assms(5) unat_bounds_u16 [of "bs_mtu s"] in simp)
  then have "begin_message h (bs_mtu r) (bs_recv_window r) = (Err InvalidData, bs_recv_window r)"
    using seg(6,8) segl assms(5) rcv(2) by (simp add: begin_message_def word_le_nat_alt)
  then have "fst (BtpSession_process_rx_data (take (BtpHdr_len h + length seg) buf') now r) = Err InvalidData"
    using wr(2) BtpHdr_from_bytes [OF seg(2), of seg]
    by (simp add: BtpSession_process_rx_data_def RecvWindow_accept_incoming_def sr_bind_def on_recv_def sr_get_def sr_res_def
        RecvWindow_check_data_integrity_def split: if_splits)
  ultimately show ?thesis by blast
qed

theorem btp_boundary_refused_witness:
  "\<exists>len off' buf' s'. BtpSession_prep_tx_data (replicate 18 9) 0 (replicate 244 0) 0 btp_peer = (Ok (len, off', buf'), s') \<and>
     fst (BtpSession_process_rx_data (take len buf') 0 btp_peer) = Err InvalidData"
proof -
  have v: "bs_mtu btp_peer = 20" "sw_level (bs_send_window btp_peer) = 6"
    by (simp_all add: btp_peer_def BtpSession_setup_def BtpSession_new_def)
  show ?thesis
    using btp_boundary_refused [OF btp_peers_in_sync, of "replicate 244 0" "replicate 18 9" 0] v by simp
qed

subsection \<open>The handshake\<close>

definition handshake_req_bytes :: "HandshakeReq \<Rightarrow> bytes" where
  "handshake_req_bytes r = BtpHdr_bytes handshake_hdr @ to_le_bytes 4 (hq_versions r) @ to_le_bytes 2 (hq_mtu r) @ [hq_window_size r]"

definition handshake_resp_bytes :: "HandshakeResp \<Rightarrow> bytes" where
  "handshake_resp_bytes r = BtpHdr_bytes handshake_hdr @ [hp_version r] @ to_le_bytes 2 (hp_mtu r) @ [hp_window_size r]"

lemma next_bytes_append: "next_bytes (length bs) (bs @ rest) = (Ok bs, rest)"
  by (induction bs) (auto simp: btp_next_byte_def sr_bind_def sr_return_def)

lemma next_bytes_le: "next_bytes n (to_le_bytes n v @ rest) = (Ok (to_le_bytes n v), rest)"
  using next_bytes_append [of "to_le_bytes n v" rest] by simp

lemma handshake_hdr_gets:
  "BtpHdr_is_handshake handshake_hdr" "BtpHdr_is_final handshake_hdr" "BtpHdr_get_opcode handshake_hdr = Some 0x6c"
  "BtpHdr_get_msg_len handshake_hdr = None" "\<not> BtpHdr_is_continue handshake_hdr" "BtpHdr_get_seq handshake_hdr = None"
  "BtpHdr_get_ack handshake_hdr = None" "BtpHdr_wf handshake_hdr" "BtpHdr_len handshake_hdr = 2"
  by (simp_all add: handshake_hdr_def BtpHdr_set_opcode_def BtpHdr_set_handshake_def BtpHdr_new_def btp_hdr_gets
      btp_flag_simps BtpHdr_wf_def flags_insert_def)

lemma handshake_from: "BtpHdr_from (BtpHdr_bytes handshake_hdr @ rest) = (Ok handshake_hdr, rest)"
  by (rule BtpHdr_from_bytes) (rule handshake_hdr_gets)

lemma handshake_req_decode:
  "HandshakeReq_decode (to_le_bytes 4 (hq_versions r) @ to_le_bytes 2 (hq_mtu r) @ [hq_window_size r]) = (Ok r, [])"
  by (simp add: HandshakeReq_decode_def sr_bind_def sr_return_def next_bytes_le btp_next_byte_def from_to_le_bytes_u16
      from_to_le_bytes_u32)

lemma handshake_integrity: "RecvWindow_check_handshake_integrity handshake_hdr = Ok ()"
  by (simp add: RecvWindow_check_handshake_integrity_def handshake_hdr_gets)

lemma initial_window_size_ok:
  assumes "20 \<le> mtu" and "mtu \<le> 244"
  obtains w where "BtpSession_initial_window_size mtu = Ok w" "0 < w" "unat w * unat mtu \<le> MAX_MESSAGE_SIZE div 2"
proof -
  let ?n = "MAX_MESSAGE_SIZE div unat mtu div 2"
  have m: "20 \<le> unat mtu" "unat mtu \<le> 244" using assms by (simp_all add: word_le_nat_alt)
  then have "3166 div 244 \<le> 3166 div unat mtu" "3166 div unat mtu \<le> 3166 div 20" by (intro div_le_mono2; simp)+
  then have "6 \<le> ?n" "?n \<le> 79" by (auto simp: MAX_MESSAGE_SIZE_def MAX_RX_PACKET_SIZE_def)
  moreover have "?n * unat mtu \<le> MAX_MESSAGE_SIZE div 2"
    by (metis div_mult2_eq mult.commute div_times_less_eq_dividend)
  moreover from calculation have "unat (of_nat ?n :: u8) = ?n" "min ?n 255 = ?n" by (simp_all add: unat_of_nat)
  moreover have "mtu \<noteq> 0" using m by auto
  ultimately show ?thesis
    using that [of "of_nat ?n"] by (simp add: BtpSession_initial_window_size_def word_less_nat_alt)
qed

lemma negotiate_mtu_bounds:
  assumes "\<forall>g. gatt_mtu = Some g \<longrightarrow> 23 \<le> g"
  shows "23 \<le> negotiate_mtu False gatt_mtu m" "negotiate_mtu False gatt_mtu m \<le> 247"
  using assms by (auto simp: negotiate_mtu_def MIN_MTU_def MAX_MTU_def split: option.splits)

lemma handshake_resp_written:
  assumes "6 \<le> length buf"
  obtains buf' where "written buf (sr_then (BtpHdr_encode handshake_hdr) (HandshakeResp_encode r)) = Ok (6, buf')"
    "take 6 buf' = handshake_resp_bytes r"
proof -
  let ?bss = "BtpHdr_chunks handshake_hdr @ [[hp_version r], to_le_bytes 2 (hp_mtu r), [hp_window_size r]]"
  have c: "concat ?bss = handshake_resp_bytes r" by (simp add: concat_BtpHdr_chunks handshake_resp_bytes_def)
  have l: "length (concat ?bss) = 6" unfolding c by (simp add: handshake_resp_bytes_def length_BtpHdr_bytes handshake_hdr_gets)
  have "sr_then (BtpHdr_encode handshake_hdr) (HandshakeResp_encode r) = sr_seq (map WriteBuf_append ?bss)"
    by (simp add: BtpHdr_encode_chunks HandshakeResp_encode_def sr_seq_append WriteBuf_le_u8_append WriteBuf_le_u16_def)
  then show ?thesis using written_chunks [of ?bss buf] assms that unfolding l unfolding c by metis
qed

lemma sr_bind_app:
  "sr_bind m k s = (case m s of (Ok x, s') \<Rightarrow> k x s' | (Err e, s') \<Rightarrow> (Err e, s') | (Panic, s') \<Rightarrow> (Panic, s'))"
  by (simp add: sr_bind_def)

lemma handshake_reply:
  assumes "bs_handshake_pending s" and "\<not> bs_initiator s" and "6 \<le> length buf"
  shows "if sw_level (bs_send_window s) = 0 then fst (BtpSession_prep_tx_handshake gatt_mtu buf now s) = Panic
    else \<exists>buf' s'. BtpSession_prep_tx_handshake gatt_mtu buf now s = (Ok (6, buf'), s') \<and> \<not> bs_handshake_pending s' \<and>
      take 6 buf' = handshake_resp_bytes \<lparr>hp_version = bs_version s, hp_mtu = bs_mtu s, hp_window_size = bs_window_size s\<rparr>"
proof -
  let ?r = "\<lparr>hp_version = bs_version s, hp_mtu = bs_mtu s, hp_window_size = bs_window_size s\<rparr>"
  obtain buf' where "written buf (sr_then (BtpHdr_encode handshake_hdr) (HandshakeResp_encode ?r)) = Ok (6, buf')"
      "take 6 buf' = handshake_resp_bytes ?r" by (rule handshake_resp_written [OF assms(3)])
  moreover have "1 \<le> sw_level (bs_send_window s) \<longleftrightarrow> sw_level (bs_send_window s) \<noteq> 0"
    by (auto simp: word_le_nat_alt Suc_le_eq unat_gt_0)
  ultimately show ?thesis
    using assms(1,2) by (simp add: BtpSession_prep_tx_handshake_def BtpSession_prep_tx_handshake_resp_def
        sr_bind_app sr_res_def
        sr_return_def sr_modify_def on_send_def SendWindow_post_send_def sub_u8_def Let_def)
qed



end
