(* ===== verification/Tlv.thy ===== *)
theory Tlv
  imports Prelude
begin

section \<open>TLV: tags, values and control bytes\<close>

text \<open>
  \<^verbatim>\<open>tlv.rs\<close>. Every message body of Matter is a TLV element: a control byte (three bits of tag type,
  five bits of value type), the tag, a length field for strings, the value. Signed integers are
  words read with \<open>sint\<close>, floating point numbers are their IEEE bit patterns (the code only moves
  them), a \<^verbatim>\<open>&str\<close> is its UTF-8 bytes. The iterators over the bytes of a tag and of a value are
  their \<^verbatim>\<open>next\<close> methods on the index they keep.
\<close>

type_synonym i8 = "8 word"
type_synonym i16 = "16 word"
type_synonym i32 = "32 word"
type_synonym i64 = "64 word"

named_theorems tlv_defs \<open>definitions of the TLV types to unfold\<close>

subsection \<open>Tag types and value types\<close>

datatype TLVTagType = Anonymous_t | Context_t | CommonPrf16_t | CommonPrf32_t | ImplPrf16_t
  | ImplPrf32_t | FullQual48_t | FullQual64_t

fun TLVTagType_size :: "TLVTagType \<Rightarrow> nat" where
  "TLVTagType_size Anonymous_t = 0"
| "TLVTagType_size Context_t = 1"
| "TLVTagType_size CommonPrf16_t = 2"
| "TLVTagType_size CommonPrf32_t = 4"
| "TLVTagType_size ImplPrf16_t = 2"
| "TLVTagType_size ImplPrf32_t = 4"
| "TLVTagType_size FullQual48_t = 6"
| "TLVTagType_size FullQual64_t = 8"

text \<open>The discriminants, and \<^verbatim>\<open>FromPrimitive::from_u8\<close> as derived from them.\<close>

fun TLVTagType_as_u8 :: "TLVTagType \<Rightarrow> u8" where
  "TLVTagType_as_u8 Anonymous_t = 0"
| "TLVTagType_as_u8 Context_t = 1"
| "TLVTagType_as_u8 CommonPrf16_t = 2"
| "TLVTagType_as_u8 CommonPrf32_t = 3"
| "TLVTagType_as_u8 ImplPrf16_t = 4"
| "TLVTagType_as_u8 ImplPrf32_t = 5"
| "TLVTagType_as_u8 FullQual48_t = 6"
| "TLVTagType_as_u8 FullQual64_t = 7"

definition all_tag_types :: "TLVTagType list" where
  "all_tag_types = [Anonymous_t, Context_t, CommonPrf16_t, CommonPrf32_t, ImplPrf16_t, ImplPrf32_t,
     FullQual48_t, FullQual64_t]"

definition TLVTagType_from_u8 :: "u8 \<Rightarrow> TLVTagType option" where
  "TLVTagType_from_u8 b = find (\<lambda>t. TLVTagType_as_u8 t = b) all_tag_types"

datatype TLVValueType = S8_t | S16_t | S32_t | S64_t | U8_t | U16_t | U32_t | U64_t | False_t | True_t
  | F32_t | F64_t | Utf8l_t | Utf16l_t | Utf32l_t | Utf64l_t | Str8l_t | Str16l_t | Str32l_t
  | Str64l_t | Null_t | Struct_t | Array_t | List_t | EndCnt_t

definition all_value_types :: "TLVValueType list" where
  "all_value_types = [S8_t, S16_t, S32_t, S64_t, U8_t, U16_t, U32_t, U64_t, False_t, True_t, F32_t,
     F64_t, Utf8l_t, Utf16l_t, Utf32l_t, Utf64l_t, Str8l_t, Str16l_t, Str32l_t, Str64l_t, Null_t,
     Struct_t, Array_t, List_t, EndCnt_t]"

fun TLVValueType_as_u8 :: "TLVValueType \<Rightarrow> u8" where
  "TLVValueType_as_u8 S8_t = 0"
| "TLVValueType_as_u8 S16_t = 1"
| "TLVValueType_as_u8 S32_t = 2"
| "TLVValueType_as_u8 S64_t = 3"
| "TLVValueType_as_u8 U8_t = 4"
| "TLVValueType_as_u8 U16_t = 5"
| "TLVValueType_as_u8 U32_t = 6"
| "TLVValueType_as_u8 U64_t = 7"
| "TLVValueType_as_u8 False_t = 8"
| "TLVValueType_as_u8 True_t = 9"
| "TLVValueType_as_u8 F32_t = 10"
| "TLVValueType_as_u8 F64_t = 11"
| "TLVValueType_as_u8 Utf8l_t = 12"
| "TLVValueType_as_u8 Utf16l_t = 13"
| "TLVValueType_as_u8 Utf32l_t = 14"
| "TLVValueType_as_u8 Utf64l_t = 15"
| "TLVValueType_as_u8 Str8l_t = 16"
| "TLVValueType_as_u8 Str16l_t = 17"
| "TLVValueType_as_u8 Str32l_t = 18"
| "TLVValueType_as_u8 Str64l_t = 19"
| "TLVValueType_as_u8 Null_t = 20"
| "TLVValueType_as_u8 Struct_t = 21"
| "TLVValueType_as_u8 Array_t = 22"
| "TLVValueType_as_u8 List_t = 23"
| "TLVValueType_as_u8 EndCnt_t = 24"

definition TLVValueType_from_u8 :: "u8 \<Rightarrow> TLVValueType option" where
  "TLVValueType_from_u8 b = find (\<lambda>t. TLVValueType_as_u8 t = b) all_value_types"

definition TLVValueType_fixed_size :: "TLVValueType \<Rightarrow> nat option" where
  "TLVValueType_fixed_size t = (case t of
       S8_t \<Rightarrow> Some 1 | S16_t \<Rightarrow> Some 2 | S32_t \<Rightarrow> Some 4 | S64_t \<Rightarrow> Some 8
     | U8_t \<Rightarrow> Some 1 | U16_t \<Rightarrow> Some 2 | U32_t \<Rightarrow> Some 4 | U64_t \<Rightarrow> Some 8
     | F32_t \<Rightarrow> Some 4 | F64_t \<Rightarrow> Some 8
     | Utf8l_t \<Rightarrow> None | Utf16l_t \<Rightarrow> None | Utf32l_t \<Rightarrow> None | Utf64l_t \<Rightarrow> None
     | Str8l_t \<Rightarrow> None | Str16l_t \<Rightarrow> None | Str32l_t \<Rightarrow> None | Str64l_t \<Rightarrow> None
     | _ \<Rightarrow> Some 0)"

definition TLVValueType_variable_size_len :: "TLVValueType \<Rightarrow> nat" where
  "TLVValueType_variable_size_len t = (case t of
       Utf8l_t \<Rightarrow> 1 | Str8l_t \<Rightarrow> 1 | Utf16l_t \<Rightarrow> 2 | Str16l_t \<Rightarrow> 2
     | Utf32l_t \<Rightarrow> 4 | Str32l_t \<Rightarrow> 4 | Utf64l_t \<Rightarrow> 8 | Str64l_t \<Rightarrow> 8 | _ \<Rightarrow> 0)"

definition TLVValueType_is_container_start :: "TLVValueType \<Rightarrow> bool" where
  "TLVValueType_is_container_start t \<longleftrightarrow> t \<in> {Struct_t, Array_t, List_t}"

definition TLVValueType_is_container_end :: "TLVValueType \<Rightarrow> bool" where
  "TLVValueType_is_container_end t \<longleftrightarrow> t = EndCnt_t"

definition TLVValueType_is_container :: "TLVValueType \<Rightarrow> bool" where
  "TLVValueType_is_container t \<longleftrightarrow>
     TLVValueType_is_container_start t \<or> TLVValueType_is_container_end t"

definition TLVValueType_is_str :: "TLVValueType \<Rightarrow> bool" where
  "TLVValueType_is_str t \<longleftrightarrow> t \<in> {Str8l_t, Str16l_t, Str32l_t, Str64l_t}"

definition TLVValueType_is_utf8 :: "TLVValueType \<Rightarrow> bool" where
  "TLVValueType_is_utf8 t \<longleftrightarrow> t \<in> {Utf8l_t, Utf16l_t, Utf32l_t, Utf64l_t}"

lemmas TLVValueType_tests [tlv_defs] =
  TLVValueType_is_container_def TLVValueType_is_container_start_def TLVValueType_is_container_end_def
  TLVValueType_is_str_def TLVValueType_is_utf8_def

subsection \<open>The control byte\<close>

record TLVControl =
  ctl_tag_type :: TLVTagType
  ctl_value_type :: TLVValueType

definition TLVControl_new :: "TLVTagType \<Rightarrow> TLVValueType \<Rightarrow> TLVControl" where
  "TLVControl_new tt vt = \<lparr>ctl_tag_type = tt, ctl_value_type = vt\<rparr>"

definition TLVControl_parse :: "u8 \<Rightarrow> TLVControl res" where
  "TLVControl_parse b =
     res_bind (res_ok_or TLVTypeMismatch (TLVTagType_from_u8 (drop_bit 5 (b AND 0xe0)))) (\<lambda>tt.
     res_bind (res_ok_or TLVTypeMismatch (TLVValueType_from_u8 (b AND 0x1f))) (\<lambda>vt.
     Ok (TLVControl_new tt vt)))"

definition TLVControl_as_raw :: "TLVControl \<Rightarrow> u8" where
  "TLVControl_as_raw c =
     push_bit 5 (TLVTagType_as_u8 (ctl_tag_type c)) OR TLVValueType_as_u8 (ctl_value_type c)"

definition TLVControl_is_container_start :: "TLVControl \<Rightarrow> bool" where
  "TLVControl_is_container_start c \<longleftrightarrow> TLVValueType_is_container_start (ctl_value_type c)"

definition TLVControl_is_container_end :: "TLVControl \<Rightarrow> bool" where
  "TLVControl_is_container_end c \<longleftrightarrow>
     ctl_tag_type c = Anonymous_t \<and> TLVValueType_is_container_end (ctl_value_type c)"

definition TLVControl_confirm_container_end :: "TLVControl \<Rightarrow> unit res" where
  "TLVControl_confirm_container_end c =
     (if \<not> TLVControl_is_container_end c then Err InvalidData else Ok ())"

lemma TLVControl_new_sel [simp]:
  "ctl_tag_type (TLVControl_new tt vt) = tt" "ctl_value_type (TLVControl_new tt vt) = vt"
  by (simp_all add: TLVControl_new_def)

text \<open>Parsing inverts printing, and a control byte that parses is the printed form of what it parses to.\<close>

lemma as_raw_control:
  "TLVControl_parse (TLVControl_as_raw c) = Ok c"
proof -
  obtain tt vt where c: "c = \<lparr>ctl_tag_type = tt, ctl_value_type = vt\<rparr>" by (cases c) auto
  show ?thesis
    by (cases tt; cases vt; simp add: c TLVControl_parse_def TLVControl_as_raw_def TLVTagType_from_u8_def
      TLVValueType_from_u8_def all_tag_types_def all_value_types_def TLVControl_new_def)
qed

lemma u8_split: "push_bit 5 (drop_bit 5 (b AND 0xe0)) OR (b AND 0x1f) = (b :: u8)"
  by (auto simp: u8_eq_iff bit_simps)

lemma parse_control_iff: "TLVControl_parse b = Ok c \<longleftrightarrow> b = TLVControl_as_raw c"
proof
  assume "TLVControl_parse b = Ok c"
  then have "TLVTagType_as_u8 (ctl_tag_type c) = drop_bit 5 (b AND 0xe0)"
      "TLVValueType_as_u8 (ctl_value_type c) = b AND 0x1f"
    by (auto simp: TLVControl_parse_def res_bind_ok_iff res_ok_or_eq TLVTagType_from_u8_def
        TLVValueType_from_u8_def dest: find_SomeD)
  then show "b = TLVControl_as_raw c" by (simp only: TLVControl_as_raw_def u8_split)
qed (simp add: as_raw_control)

lemma parse_control_cases:
  "TLVControl_parse b = Err TLVTypeMismatch \<or> (\<exists>c. TLVControl_parse b = Ok c)"
proof -
  obtain r s where "TLVTagType_from_u8 (drop_bit 5 (b AND 0xe0)) = r"
      "TLVValueType_from_u8 (b AND 0x1f) = s" by blast
  then show ?thesis by (cases r; cases s) (simp_all add: TLVControl_parse_def)
qed

subsection \<open>Tags\<close>

datatype TLVTag =
    Anonymous
  | Context u8
  | CommonPrf16 u16
  | CommonPrf32 u32
  | ImplPrf16 u16
  | ImplPrf32 u32
  | FullQual48 (vendor_id: u16) (profile: u16) (tag48: u16)
  | FullQual64 (vendor_id: u16) (profile: u16) (tag64: u32)

fun TLVTag_tag_type :: "TLVTag \<Rightarrow> TLVTagType" where
  "TLVTag_tag_type Anonymous = Anonymous_t"
| "TLVTag_tag_type (Context _) = Context_t"
| "TLVTag_tag_type (CommonPrf16 _) = CommonPrf16_t"
| "TLVTag_tag_type (CommonPrf32 _) = CommonPrf32_t"
| "TLVTag_tag_type (ImplPrf16 _) = ImplPrf16_t"
| "TLVTag_tag_type (ImplPrf32 _) = ImplPrf32_t"
| "TLVTag_tag_type (FullQual48 _ _ _) = FullQual48_t"
| "TLVTag_tag_type (FullQual64 _ _ _) = FullQual64_t"

text \<open>An iterator over the bytes of a list that keeps an index, as both byte iterators do.\<close>

definition next_byte_offset :: "nat \<Rightarrow> bytes \<Rightarrow> nat \<Rightarrow> u8 option \<times> nat" where
  "next_byte_offset offset bs i =
     (if i - offset < length bs then (Some (bs ! (i - offset)), i + 1) else (None, i))"

definition next_byte :: "bytes \<Rightarrow> nat \<Rightarrow> u8 option \<times> nat" where
  "next_byte bs = next_byte_offset 0 bs"

fun TLVTagIter_next :: "TLVTag \<Rightarrow> nat \<Rightarrow> u8 option \<times> nat" where
  "TLVTagIter_next Anonymous i = (None, i)"
| "TLVTagIter_next (Context t) i = next_byte (to_le_bytes 1 t) i"
| "TLVTagIter_next (CommonPrf16 t) i = next_byte (to_le_bytes 2 t) i"
| "TLVTagIter_next (CommonPrf32 t) i = next_byte (to_le_bytes 4 t) i"
| "TLVTagIter_next (ImplPrf16 t) i = next_byte (to_le_bytes 2 t) i"
| "TLVTagIter_next (ImplPrf32 t) i = next_byte (to_le_bytes 4 t) i"
| "TLVTagIter_next (FullQual48 v p t) i =
     (if i < 2 then next_byte (to_le_bytes 2 v) i
      else if i < 4 then next_byte_offset 2 (to_le_bytes 2 p) i
      else next_byte_offset 4 (to_le_bytes 2 t) i)"
| "TLVTagIter_next (FullQual64 v p t) i =
     (if i < 2 then next_byte (to_le_bytes 2 v) i
      else if i < 4 then next_byte_offset 2 (to_le_bytes 2 p) i
      else next_byte_offset 4 (to_le_bytes 4 t) i)"

subsection \<open>Values\<close>

datatype TLVValue =
    S8 i8 | S16 i16 | S32 i32 | S64 i64
  | U8 u8 | U16 u16 | U32 u32 | U64 u64
  | TLVFalse | TLVTrue
  | F32 u32 | F64 u64
  | Utf8l bytes | Utf16l bytes | Utf32l bytes | Utf64l bytes
  | Str8l bytes | Str16l bytes | Str32l bytes | Str64l bytes
  | Null | Struct | Array | List | EndCnt

fun TLVValue_value_type :: "TLVValue \<Rightarrow> TLVValueType" where
  "TLVValue_value_type (S8 _) = S8_t"
| "TLVValue_value_type (S16 _) = S16_t"
| "TLVValue_value_type (S32 _) = S32_t"
| "TLVValue_value_type (S64 _) = S64_t"
| "TLVValue_value_type (U8 _) = U8_t"
| "TLVValue_value_type (U16 _) = U16_t"
| "TLVValue_value_type (U32 _) = U32_t"
| "TLVValue_value_type (U64 _) = U64_t"
| "TLVValue_value_type TLVFalse = False_t"
| "TLVValue_value_type TLVTrue = True_t"
| "TLVValue_value_type (F32 _) = F32_t"
| "TLVValue_value_type (F64 _) = F64_t"
| "TLVValue_value_type (Utf8l _) = Utf8l_t"
| "TLVValue_value_type (Utf16l _) = Utf16l_t"
| "TLVValue_value_type (Utf32l _) = Utf32l_t"
| "TLVValue_value_type (Utf64l _) = Utf64l_t"
| "TLVValue_value_type (Str8l _) = Str8l_t"
| "TLVValue_value_type (Str16l _) = Str16l_t"
| "TLVValue_value_type (Str32l _) = Str32l_t"
| "TLVValue_value_type (Str64l _) = Str64l_t"
| "TLVValue_value_type Null = Null_t"
| "TLVValue_value_type Struct = Struct_t"
| "TLVValue_value_type Array = Array_t"
| "TLVValue_value_type List = List_t"
| "TLVValue_value_type EndCnt = EndCnt_t"

definition TLVValueType_container_value :: "TLVValueType \<Rightarrow> TLVValue res" where
  "TLVValueType_container_value t = (case t of
       Struct_t \<Rightarrow> Ok Struct | Array_t \<Rightarrow> Ok Array | List_t \<Rightarrow> Ok List | EndCnt_t \<Rightarrow> Ok EndCnt
     | _ \<Rightarrow> Err TLVTypeMismatch)"

definition TLVValue_i8 :: "i8 \<Rightarrow> TLVValue" where
  "TLVValue_i8 v = S8 v"

definition TLVValue_i16 :: "i16 \<Rightarrow> TLVValue" where
  "TLVValue_i16 v = (if sint v \<ge> -128 \<and> sint v \<le> 127 then TLVValue_i8 (ucast v) else S16 v)"

definition TLVValue_i32 :: "i32 \<Rightarrow> TLVValue" where
  "TLVValue_i32 v = (if sint v \<ge> -32768 \<and> sint v \<le> 32767 then TLVValue_i16 (ucast v) else S32 v)"

definition TLVValue_i64 :: "i64 \<Rightarrow> TLVValue" where
  "TLVValue_i64 v =
     (if sint v \<ge> -2147483648 \<and> sint v \<le> 2147483647 then TLVValue_i32 (ucast v) else S64 v)"

definition TLVValue_u8 :: "u8 \<Rightarrow> TLVValue" where
  "TLVValue_u8 v = U8 v"

definition TLVValue_u16 :: "u16 \<Rightarrow> TLVValue" where
  "TLVValue_u16 v = (if v \<le> 0xFF then TLVValue_u8 (ucast v) else U16 v)"

definition TLVValue_u32 :: "u32 \<Rightarrow> TLVValue" where
  "TLVValue_u32 v = (if v \<le> 0xFFFF then TLVValue_u16 (ucast v) else U32 v)"

definition TLVValue_u64 :: "u64 \<Rightarrow> TLVValue" where
  "TLVValue_u64 v = (if v \<le> 0xFFFFFFFF then TLVValue_u32 (ucast v) else U64 v)"

definition TLVValue_utf8 :: "bytes \<Rightarrow> TLVValue" where
  "TLVValue_utf8 v = (let len = length v in
     if len \<le> 0xFF then Utf8l v else if len \<le> 0xFFFF then Utf16l v
     else if len \<le> 0xFFFFFFFF then Utf32l v else Utf64l v)"

definition TLVValue_str :: "bytes \<Rightarrow> TLVValue" where
  "TLVValue_str v = (let len = length v in
     if len \<le> 0xFF then Str8l v else if len \<le> 0xFFFF then Str16l v
     else if len \<le> 0xFFFFFFFF then Str32l v else Str64l v)"

definition TLVValue_bool :: "bool \<Rightarrow> TLVValue" where
  "TLVValue_bool b = (if b then TLVTrue else TLVFalse)"

definition TLVValueIter_variable_len_len :: "TLVValue \<Rightarrow> nat" where
  "TLVValueIter_variable_len_len v = (case v of
       Utf8l _ \<Rightarrow> 1 | Str8l _ \<Rightarrow> 1 | Utf16l _ \<Rightarrow> 2 | Str16l _ \<Rightarrow> 2
     | Utf32l _ \<Rightarrow> 4 | Str32l _ \<Rightarrow> 4 | Utf64l _ \<Rightarrow> 8 | Str64l _ \<Rightarrow> 8 | _ \<Rightarrow> 0)"

text \<open>The branch of \<^verbatim>\<open>TLVValueIter::next\<close> for strings; \<^verbatim>\<open>usize::to_le_bytes\<close> has eight bytes.\<close>

definition next_str_byte :: "nat \<Rightarrow> bytes \<Rightarrow> nat \<Rightarrow> u8 option \<times> nat" where
  "next_str_byte len_len a i =
     (if i < len_len then next_byte (to_le_bytes 8 (of_nat (length a) :: u64)) i
      else next_byte_offset len_len a i)"

definition TLVValueIter_next :: "TLVValue \<Rightarrow> nat \<Rightarrow> u8 option \<times> nat" where
  "TLVValueIter_next v i = (case v of
       S8 a \<Rightarrow> next_byte (to_le_bytes 1 a) i | S16 a \<Rightarrow> next_byte (to_le_bytes 2 a) i
     | S32 a \<Rightarrow> next_byte (to_le_bytes 4 a) i | S64 a \<Rightarrow> next_byte (to_le_bytes 8 a) i
     | U8 a \<Rightarrow> next_byte (to_le_bytes 1 a) i | U16 a \<Rightarrow> next_byte (to_le_bytes 2 a) i
     | U32 a \<Rightarrow> next_byte (to_le_bytes 4 a) i | U64 a \<Rightarrow> next_byte (to_le_bytes 8 a) i
     | F32 a \<Rightarrow> next_byte (to_le_bytes 4 a) i | F64 a \<Rightarrow> next_byte (to_le_bytes 8 a) i
     | Utf8l a \<Rightarrow> next_str_byte (TLVValueIter_variable_len_len v) a i
     | Utf16l a \<Rightarrow> next_str_byte (TLVValueIter_variable_len_len v) a i
     | Utf32l a \<Rightarrow> next_str_byte (TLVValueIter_variable_len_len v) a i
     | Str8l a \<Rightarrow> next_str_byte (TLVValueIter_variable_len_len v) a i
     | Str16l a \<Rightarrow> next_str_byte (TLVValueIter_variable_len_len v) a i
     | Str32l a \<Rightarrow> next_str_byte (TLVValueIter_variable_len_len v) a i
     | _ \<Rightarrow> (None, i))"

record TLV =
  tlv_tag :: TLVTag
  tlv_value :: TLVValue

definition TLV_new :: "TLVTag \<Rightarrow> TLVValue \<Rightarrow> TLV" where
  "TLV_new t v = \<lparr>tlv_tag = t, tlv_value = v\<rparr>"

text \<open>
  \<^verbatim>\<open>TLVBytesIter\<close>: the control byte once, then the tag's bytes, then the value's.
\<close>

record TLVBytesIter =
  bi_control :: "u8 option"
  bi_tag :: "TLVTag \<times> nat"
  bi_value :: "TLVValue \<times> nat"

definition TLV_bytes_iter :: "TLV \<Rightarrow> TLVBytesIter" where
  "TLV_bytes_iter x =
     \<lparr>bi_control = Some (TLVControl_as_raw
        (TLVControl_new (TLVTag_tag_type (tlv_tag x)) (TLVValue_value_type (tlv_value x)))),
      bi_tag = (tlv_tag x, 0), bi_value = (tlv_value x, 0)\<rparr>"

definition TLVBytesIter_next :: "TLVBytesIter \<Rightarrow> u8 option \<times> TLVBytesIter" where
  "TLVBytesIter_next it = (case bi_control it of
       Some b \<Rightarrow> (Some b, it\<lparr>bi_control := None\<rparr>)
     | None \<Rightarrow> (case bi_tag it of (t, i) \<Rightarrow> case TLVTagIter_next t i of (r, i') \<Rightarrow>
         let it = it\<lparr>bi_tag := (t, i')\<rparr> in
         (case r of
            Some b \<Rightarrow> (Some b, it)
          | None \<Rightarrow> (case bi_value it of (v, j) \<Rightarrow> case TLVValueIter_next v j of (r, j') \<Rightarrow>
              (r, it\<lparr>bi_value := (v, j')\<rparr>)))))"

end
