(* ===== verification/Tlv_Read.thy ===== *)
theory Tlv_Read
  imports Tlv
begin

section \<open>The TLV reader\<close>

text \<open>
  \<^verbatim>\<open>tlv/read.rs\<close>. A \<^verbatim>\<open>TLVElement\<close> and a \<^verbatim>\<open>TLVSequence\<close> are newtypes over a byte slice; every method
  parses on demand. A slice may reach past the element it stands for. The loops over the slices
  end because every step drops at least the control byte. \<^verbatim>\<open>usize\<close> has 64 bits here; a sum of
  lengths that does not fit, and a nesting level that does not fit into the \<^verbatim>\<open>i32\<close> the loops
  count it in, is a panic (the overflow check of the debug profile).
\<close>

type_synonym TLVSequence = bytes
type_synonym TLVElement = bytes

subsection \<open>\<^verbatim>\<open>core::str::from_utf8\<close>\<close>

definition utf8_cont :: "u8 \<Rightarrow> bool" where
  "utf8_cont b \<longleftrightarrow> 0x80 \<le> b \<and> b \<le> 0xBF"

text \<open>The well-formed byte sequences of Unicode, which \<^verbatim>\<open>from_utf8\<close> accepts and no others.\<close>

fun utf8_valid :: "bytes \<Rightarrow> bool" where
  "utf8_valid [] = True"
| "utf8_valid (a # bs) =
     (if a < 0x80 then utf8_valid bs
      else if 0xC2 \<le> a \<and> a \<le> 0xDF then
        (case bs of b # cs \<Rightarrow> utf8_cont b \<and> utf8_valid cs | _ \<Rightarrow> False)
      else if 0xE0 \<le> a \<and> a \<le> 0xEF then
        (case bs of b # c # ds \<Rightarrow>
           (if a = 0xE0 then 0xA0 \<le> b \<and> b \<le> 0xBF
            else if a = 0xED then 0x80 \<le> b \<and> b \<le> 0x9F else utf8_cont b) \<and>
           utf8_cont c \<and> utf8_valid ds
         | _ \<Rightarrow> False)
      else if 0xF0 \<le> a \<and> a \<le> 0xF4 then
        (case bs of b # c # d # es \<Rightarrow>
           (if a = 0xF0 then 0x90 \<le> b \<and> b \<le> 0xBF
            else if a = 0xF4 then 0x80 \<le> b \<and> b \<le> 0x8F else utf8_cont b) \<and>
           utf8_cont c \<and> utf8_cont d \<and> utf8_valid es
         | _ \<Rightarrow> False)
      else False)"

definition from_utf8 :: "bytes \<Rightarrow> bytes option" where
  "from_utf8 bs = (if utf8_valid bs then Some bs else None)"

subsection \<open>Fields of the first element\<close>

definition TLVSequence_control :: "TLVSequence \<Rightarrow> TLVControl res" where
  "TLVSequence_control s =
     res_bind (res_ok_or TLVTypeMismatch (case s of [] \<Rightarrow> None | b # _ \<Rightarrow> Some b)) TLVControl_parse"

definition TLVSequence_tag_start :: "TLVSequence \<Rightarrow> bytes res" where
  "TLVSequence_tag_start s = res_ok_or TLVTypeMismatch (get_from 1 s)"

definition TLVSequence_tag :: "TLVTagType \<Rightarrow> TLVSequence \<Rightarrow> bytes res" where
  "TLVSequence_tag tt s = res_bind (TLVSequence_tag_start s) (\<lambda>t.
     res_ok_or TLVTypeMismatch (get_to (TLVTagType_size tt) t))"

definition TLVSequence_value_len_start :: "TLVTagType \<Rightarrow> TLVSequence \<Rightarrow> bytes res" where
  "TLVSequence_value_len_start tt s = (case TLVSequence_tag_start s of
       Ok t \<Rightarrow> res_ok_or TLVTypeMismatch (get_from (TLVTagType_size tt) t)
     | _ \<Rightarrow> Panic)"

definition TLVSequence_value_start :: "TLVControl \<Rightarrow> TLVSequence \<Rightarrow> bytes res" where
  "TLVSequence_value_start c s = res_bind (TLVSequence_value_len_start (ctl_tag_type c) s) (\<lambda>t.
     res_ok_or TLVTypeMismatch (get_from (TLVValueType_variable_size_len (ctl_value_type c)) t))"

definition TLVSequence_value_len :: "TLVControl \<Rightarrow> TLVSequence \<Rightarrow> nat res" where
  "TLVSequence_value_len c s = (case TLVValueType_fixed_size (ctl_value_type c) of
       Some n \<Rightarrow> Ok n
     | None \<Rightarrow> (let size_len = TLVValueType_variable_size_len (ctl_value_type c) in
         res_bind (TLVSequence_value_len_start (ctl_tag_type c) s) (\<lambda>t.
         res_bind (res_ok_or TLVTypeMismatch (get_to size_len t)) (\<lambda>l.
           if size_len = 1 then Ok (unat (from_le_bytes l :: u8))
           else if size_len = 2 then Ok (unat (from_le_bytes l :: u16))
           else if size_len = 4 then Ok (unat (from_le_bytes l :: u32))
           else if size_len = 8 then Ok (unat (from_le_bytes l :: u64))
           else Panic))))"

definition TLVSequence_value :: "TLVControl \<Rightarrow> TLVSequence \<Rightarrow> bytes res" where
  "TLVSequence_value c s = res_bind (TLVSequence_value_len c s) (\<lambda>n.
     res_bind (TLVSequence_value_start c s) (\<lambda>t. res_ok_or TLVTypeMismatch (get_to n t)))"

text \<open>Lengths are added with the overflow check.\<close>

definition usize_add :: "nat \<Rightarrow> nat \<Rightarrow> nat res" where
  "usize_add a b = (if a + b < 2 ^ 64 then Ok (a + b) else Panic)"

definition TLVSequence_len :: "TLVSequence \<Rightarrow> nat res" where
  "TLVSequence_len s = res_bind (TLVSequence_control s) (\<lambda>c.
     res_bind (TLVSequence_value_len c s) (\<lambda>n.
       usize_add (1 + TLVTagType_size (ctl_tag_type c) +
         TLVValueType_variable_size_len (ctl_value_type c)) n))"

definition TLVSequence_next_start :: "TLVControl \<Rightarrow> TLVSequence \<Rightarrow> bytes res" where
  "TLVSequence_next_start c s = res_bind (TLVSequence_value_len c s) (\<lambda>n.
     res_bind (TLVSequence_value_start c s) (\<lambda>t. res_ok_or TLVTypeMismatch (get_from n t)))"

definition TLVSequence_next_enter :: "TLVSequence \<Rightarrow> TLVSequence res" where
  "TLVSequence_next_enter s = (if s = [] then Ok [] else
     res_bind (TLVSequence_control s) (\<lambda>c. TLVSequence_next_start c s))"

subsubsection \<open>Every step goes forward\<close>

lemma control_nonempty: "TLVSequence_control s = Ok c \<Longrightarrow> s \<noteq> []"
  by (auto simp: TLVSequence_control_def)

lemma control_Cons [simp]: "TLVSequence_control (b # bs) = TLVControl_parse b"
  by (simp add: TLVSequence_control_def)

lemma tag_start_Cons [simp]: "TLVSequence_tag_start (b # bs) = Ok bs"
  by (simp add: TLVSequence_tag_start_def get_from_def)

lemma value_len_start_ok:
  "TLVSequence_value_len_start tt s = Ok t \<Longrightarrow> s \<noteq> [] \<and> 1 + TLVTagType_size tt \<le> length s \<and>
     t = drop (1 + TLVTagType_size tt) s"
  by (cases s) (auto simp: TLVSequence_value_len_start_def res_ok_or_eq TLVSequence_tag_start_def
      dest!: get_SomeD split: res.splits)

lemma value_start_ok:
  "TLVSequence_value_start c s = Ok t \<Longrightarrow>
   s \<noteq> [] \<and> t = drop (1 + TLVTagType_size (ctl_tag_type c) +
      TLVValueType_variable_size_len (ctl_value_type c)) s \<and>
   1 + TLVTagType_size (ctl_tag_type c) + TLVValueType_variable_size_len (ctl_value_type c) \<le> length s"
  by (auto simp: TLVSequence_value_start_def res_bind_ok_iff res_ok_or_eq add.commute
      add.left_commute dest!: value_len_start_ok get_SomeD)

lemma next_start_shorter: "TLVSequence_next_start c s = Ok t \<Longrightarrow> length t < length s"
  by (auto simp: TLVSequence_next_start_def res_bind_ok_iff res_ok_or_eq dest!: value_start_ok get_SomeD)

lemma next_enter_shorter: "TLVSequence_next_enter s = Ok t \<Longrightarrow> s \<noteq> [] \<Longrightarrow> length t < length s"
  by (auto simp: TLVSequence_next_enter_def res_bind_ok_iff dest: next_start_shorter)

lemma next_enter_le: "TLVSequence_next_enter s = Ok t \<Longrightarrow> length t \<le> length s"
  by (cases "s = []") (auto simp: TLVSequence_next_enter_def res_bind_ok_iff
      dest: next_start_shorter)

subsection \<open>Skipping a container, and its length\<close>

text \<open>What both loops do with the control byte at nesting \<open>level\<close>.\<close>

definition level_step :: "TLVControl \<Rightarrow> nat \<Rightarrow> nat res" where
  "level_step c level =
     (if TLVValueType_is_container_end (ctl_value_type c)
      then res_bind (TLVControl_confirm_container_end c) (\<lambda>_. Ok (level - 1))
      else if TLVValueType_is_container (ctl_value_type c)
      then (if level + 1 < 2 ^ 31 then Ok (level + 1) else Panic)
      else Ok level)"

function container_next_loop :: "TLVSequence \<Rightarrow> nat \<Rightarrow> TLVSequence res" where
  "container_next_loop next level = (if level = 0 then Ok next else
     res_bind (TLVSequence_control next) (\<lambda>c.
     res_bind (level_step c level) (\<lambda>level'.
     res_bind (TLVSequence_next_enter next) (\<lambda>next'. container_next_loop next' level'))))"
  by pat_completeness auto

termination container_next_loop
  by (relation "measure (length \<circ> fst)") (auto dest: control_nonempty next_enter_shorter)

declare container_next_loop.simps [simp del]

definition TLVSequence_container_next :: "TLVSequence \<Rightarrow> TLVSequence res" where
  "TLVSequence_container_next s = (if s = [] then Ok [] else
     res_bind (TLVSequence_control s) (\<lambda>c.
       if TLVValueType_is_container_end (ctl_value_type c)
       then res_bind (TLVControl_confirm_container_end c) (\<lambda>_. Ok s)
       else res_bind (TLVSequence_next_enter s) (\<lambda>next.
         if TLVValueType_is_container (ctl_value_type c) then container_next_loop next 1
         else Ok next)))"

function container_value_len_loop :: "TLVSequence \<Rightarrow> nat \<Rightarrow> nat \<Rightarrow> nat res" where
  "container_value_len_loop next len level = (if level = 0 then Ok len else
     res_bind (TLVSequence_next_enter next) (\<lambda>next'.
     res_bind (TLVSequence_len next') (\<lambda>n.
     res_bind (usize_add len n) (\<lambda>len'.
     res_bind (TLVSequence_control next') (\<lambda>c.
     res_bind (level_step c level) (\<lambda>level'.
       container_value_len_loop next' len' level'))))))"
  by pat_completeness auto

lemma next_enter_nonempty: "TLVSequence_next_enter s = Ok t \<Longrightarrow> t \<noteq> [] \<Longrightarrow> length t < length s"
  by (cases "s = []") (auto simp: TLVSequence_next_enter_def res_bind_ok_iff dest: next_start_shorter)

termination container_value_len_loop
  by (relation "measure (length \<circ> fst)") (auto dest: control_nonempty next_enter_nonempty)

declare container_value_len_loop.simps [simp del]

definition TLVSequence_container_value_len :: "TLVControl \<Rightarrow> TLVSequence \<Rightarrow> nat res" where
  "TLVSequence_container_value_len c s =
     (if TLVValueType_is_container (ctl_value_type c) then container_value_len_loop s 0 1
      else TLVSequence_value_len c s)"

definition TLVSequence_container_value :: "TLVControl \<Rightarrow> TLVSequence \<Rightarrow> bytes res" where
  "TLVSequence_container_value c s = res_bind (TLVSequence_container_value_len c s) (\<lambda>n.
     res_bind (TLVSequence_value_start c s) (\<lambda>t. res_ok_or TLVTypeMismatch (get_to n t)))"

definition TLVSequence_container_len :: "TLVSequence \<Rightarrow> nat res" where
  "TLVSequence_container_len s = res_bind (TLVSequence_control s) (\<lambda>c.
     res_bind (TLVSequence_container_value_len c s) (\<lambda>n.
       usize_add (1 + TLVTagType_size (ctl_tag_type c) +
         TLVValueType_variable_size_len (ctl_value_type c)) n))"

definition TLVSequence_raw_value :: "TLVSequence \<Rightarrow> bytes res" where
  "TLVSequence_raw_value s =
     res_bind (TLVSequence_control s) (\<lambda>c. TLVSequence_container_value c s)"

definition TLVSequence_current :: "TLVSequence \<Rightarrow> TLVElement res" where
  "TLVSequence_current s = (if s = [] then Ok [] else
     res_bind (TLVSequence_control s) (\<lambda>c.
       if TLVValueType_is_container_end (ctl_value_type c)
       then res_bind (TLVControl_confirm_container_end c) (\<lambda>_. Ok [])
       else Ok s))"

subsection \<open>Iterators\<close>

text \<open>
  \<^verbatim>\<open>TLVSequenceIter::next\<close> on the sequence it keeps. It returns an \<^verbatim>\<open>Option<Result<TLVElement>>\<close>,
  the \<^verbatim>\<open>transpose\<close> of the \<^verbatim>\<open>Result<Option<TLVElement>>\<close> modelled here.
\<close>

definition TLVSequenceIter_advance :: "(TLVSequence, unit) sr" where
  "TLVSequenceIter_advance = sr_bind sr_get (\<lambda>s.
     sr_bind (sr_res (TLVSequence_container_next s)) (\<lambda>s'. sr_modify (\<lambda>_. s')))"

definition TLVSequenceIter_next :: "(TLVSequence, TLVElement option) sr" where
  "TLVSequenceIter_next = sr_bind sr_get (\<lambda>s.
     sr_bind (sr_res (TLVSequence_current s)) (\<lambda>current.
     sr_then TLVSequenceIter_advance
       (sr_return (if current = [] then None else Some current))))"

lemma current_ok:
  "TLVSequence_current s = Ok e \<Longrightarrow> e = [] \<or> (e = s \<and> s \<noteq> [] \<and>
     (\<exists>c. TLVSequence_control s = Ok c \<and> \<not> TLVValueType_is_container_end (ctl_value_type c)))"
  by (auto simp: TLVSequence_current_def res_bind_ok_iff split: if_splits)

lemma container_next_loop_le: "container_next_loop s level = Ok t \<Longrightarrow> length t \<le> length s"
proof (induction s level rule: container_next_loop.induct)
  case (1 s level)
  show ?case
  proof (cases "level = 0")
    case True
    with 1(2) show ?thesis by (simp add: container_next_loop.simps)
  next
    case False
    with 1(2) obtain c l n where s: "TLVSequence_control s = Ok c" "level_step c level = Ok l"
        "TLVSequence_next_enter s = Ok n" "container_next_loop n l = Ok t"
      by (subst (asm) container_next_loop.simps) (auto simp: res_bind_ok_iff)
    from 1(1) [OF False s] next_enter_le [OF s(3)] show ?thesis by simp
  qed
qed

lemma container_next_shorter:
  assumes "TLVSequence_current s = Ok e" "e \<noteq> []" "TLVSequence_container_next s = Ok t"
  shows "length t < length s"
  using assms current_ok [OF assms(1)]
  by (auto simp: TLVSequence_container_next_def res_bind_ok_iff split: if_splits
      dest!: container_next_loop_le next_enter_shorter)

lemma iter_next_ok:
  "TLVSequenceIter_next s = (Ok (Some e), s') \<longleftrightarrow>
     TLVSequence_current s = Ok e \<and> e \<noteq> [] \<and> TLVSequence_container_next s = Ok s'"
  "TLVSequenceIter_next s = (Ok None, s') \<longleftrightarrow>
     TLVSequence_current s = Ok [] \<and> TLVSequence_container_next s = Ok s'"
  by (cases "TLVSequence_current s"; cases "TLVSequence_container_next s";
      auto simp: TLVSequenceIter_next_def TLVSequenceIter_advance_def sr_bind_def sr_simps)+

lemma iter_next_shorter: "(Ok (Some e), s') = TLVSequenceIter_next s \<Longrightarrow> length s' < length s"
  using container_next_shorter iter_next_ok(1) by metis

text \<open>The \<^verbatim>\<open>for elem in seq.iter() { let elem = elem?; .. }\<close> loop: all elements or the first error.\<close>

function TLVSequence_elements :: "TLVSequence \<Rightarrow> TLVElement list res" where
  "TLVSequence_elements s = (case TLVSequenceIter_next s of
       (Ok None, _) \<Rightarrow> Ok []
     | (Ok (Some e), s') \<Rightarrow> res_bind (TLVSequence_elements s') (\<lambda>es. Ok (e # es))
     | (Err e, _) \<Rightarrow> Err e
     | (Panic, _) \<Rightarrow> Panic)"
  by pat_completeness auto

termination TLVSequence_elements
  by (relation "measure length") (auto dest: iter_next_shorter)

declare TLVSequence_elements.simps [simp del]

subsection \<open>Accessors of an element\<close>

definition TLVElement_tag :: "TLVElement \<Rightarrow> TLVTag res" where
  "TLVElement_tag e = res_bind (TLVSequence_control e) (\<lambda>c. let tt = ctl_tag_type c in
     res_bind (TLVSequence_tag_start e) (\<lambda>t.
     res_bind (res_ok_or TLVTypeMismatch (get_to (TLVTagType_size tt) t)) (\<lambda>b.
     Ok (case tt of
          Anonymous_t \<Rightarrow> Anonymous
        | Context_t \<Rightarrow> Context (b ! 0)
        | CommonPrf16_t \<Rightarrow> CommonPrf16 (from_le_bytes b)
        | CommonPrf32_t \<Rightarrow> CommonPrf32 (from_le_bytes b)
        | ImplPrf16_t \<Rightarrow> ImplPrf16 (from_le_bytes b)
        | ImplPrf32_t \<Rightarrow> ImplPrf32 (from_le_bytes b)
        | FullQual48_t \<Rightarrow> FullQual48 (from_le_bytes [b ! 0, b ! 1]) (from_le_bytes [b ! 2, b ! 3])
            (from_le_bytes [b ! 4, b ! 5])
        | FullQual64_t \<Rightarrow> FullQual64 (from_le_bytes [b ! 0, b ! 1]) (from_le_bytes [b ! 2, b ! 3])
            (from_le_bytes [b ! 4, b ! 5, b ! 6, b ! 7])))))"

text \<open>\<^verbatim>\<open>unwrap!(slice.try_into())\<close> into an array of \<open>n\<close> bytes.\<close>

definition unwrap_array :: "nat \<Rightarrow> bytes \<Rightarrow> ('a::len word \<Rightarrow> 'b) \<Rightarrow> 'b res" where
  "unwrap_array n b f = (if length b = n then Ok (f (from_le_bytes b)) else Panic)"

definition utf8_value :: "(bytes \<Rightarrow> TLVValue) \<Rightarrow> bytes \<Rightarrow> TLVValue res" where
  "utf8_value f b = res_bind (res_ok_or TLVTypeMismatch (from_utf8 b)) (\<lambda>s. Ok (f s))"

definition parse_value :: "TLVValueType \<Rightarrow> bytes \<Rightarrow> TLVValue res" where
  "parse_value vt b = (case vt of
       S8_t \<Rightarrow> unwrap_array 1 b S8 | S16_t \<Rightarrow> unwrap_array 2 b S16
     | S32_t \<Rightarrow> unwrap_array 4 b S32 | S64_t \<Rightarrow> unwrap_array 8 b S64
     | U8_t \<Rightarrow> unwrap_array 1 b U8 | U16_t \<Rightarrow> unwrap_array 2 b U16
     | U32_t \<Rightarrow> unwrap_array 4 b U32 | U64_t \<Rightarrow> unwrap_array 8 b U64
     | False_t \<Rightarrow> Ok TLVFalse | True_t \<Rightarrow> Ok TLVTrue
     | F32_t \<Rightarrow> unwrap_array 4 b F32 | F64_t \<Rightarrow> unwrap_array 8 b F64
     | Utf8l_t \<Rightarrow> utf8_value Utf8l b | Utf16l_t \<Rightarrow> utf8_value Utf16l b
     | Utf32l_t \<Rightarrow> utf8_value Utf32l b | Utf64l_t \<Rightarrow> utf8_value Utf64l b
     | Str8l_t \<Rightarrow> Ok (Str8l b) | Str16l_t \<Rightarrow> Ok (Str16l b)
     | Str32l_t \<Rightarrow> Ok (Str32l b) | Str64l_t \<Rightarrow> Ok (Str64l b)
     | Null_t \<Rightarrow> Ok Null | Struct_t \<Rightarrow> Ok Struct | Array_t \<Rightarrow> Ok Array | List_t \<Rightarrow> Ok List
     | EndCnt_t \<Rightarrow> Ok EndCnt)"

definition TLVElement_value :: "TLVElement \<Rightarrow> TLVValue res" where
  "TLVElement_value e = res_bind (TLVSequence_control e) (\<lambda>c.
     res_bind (TLVSequence_container_value c e) (\<lambda>b. parse_value (ctl_value_type c) b))"

definition TLVElement_tlv :: "TLVElement \<Rightarrow> TLV res" where
  "TLVElement_tlv e = res_bind (TLVElement_tag e) (\<lambda>t.
     res_bind (TLVElement_value e) (\<lambda>v. Ok \<lparr>tlv_tag = t, tlv_value = v\<rparr>))"

text \<open>
  The integer accessors: the value of the accessor's own type is read at its width, any other type
  is left to the next smaller accessor. \<^verbatim>\<open>try_into().map_err(|_| InvalidData)\<close> is \<open>array_or_invalid\<close>.
\<close>

definition array_or_invalid :: "nat \<Rightarrow> bytes \<Rightarrow> 'a::len word res" where
  "array_or_invalid n b = (if length b = n then Ok (from_le_bytes b) else Err InvalidData)"

definition TLVElement_i8 :: "TLVElement \<Rightarrow> i8 res" where
  "TLVElement_i8 e = res_bind (TLVSequence_control e) (\<lambda>c.
     if ctl_value_type c = S8_t then res_bind (TLVSequence_value c e) (array_or_invalid 1)
     else Err TLVTypeMismatch)"

definition TLVElement_u8 :: "TLVElement \<Rightarrow> u8 res" where
  "TLVElement_u8 e = res_bind (TLVSequence_control e) (\<lambda>c.
     if ctl_value_type c = U8_t then res_bind (TLVSequence_value c e) (array_or_invalid 1)
     else Err TLVTypeMismatch)"

definition TLVElement_i16 :: "TLVElement \<Rightarrow> i16 res" where
  "TLVElement_i16 e = res_bind (TLVSequence_control e) (\<lambda>c.
     if ctl_value_type c = S16_t then res_bind (TLVSequence_value c e) (array_or_invalid 2)
     else res_bind (TLVElement_i8 e) (\<lambda>a. Ok (scast a)))"

definition TLVElement_u16 :: "TLVElement \<Rightarrow> u16 res" where
  "TLVElement_u16 e = res_bind (TLVSequence_control e) (\<lambda>c.
     if ctl_value_type c = U16_t then res_bind (TLVSequence_value c e) (array_or_invalid 2)
     else res_bind (TLVElement_u8 e) (\<lambda>a. Ok (ucast a)))"

definition TLVElement_i32 :: "TLVElement \<Rightarrow> i32 res" where
  "TLVElement_i32 e = res_bind (TLVSequence_control e) (\<lambda>c.
     if ctl_value_type c = S32_t then res_bind (TLVSequence_value c e) (array_or_invalid 4)
     else res_bind (TLVElement_i16 e) (\<lambda>a. Ok (scast a)))"

definition TLVElement_u32 :: "TLVElement \<Rightarrow> u32 res" where
  "TLVElement_u32 e = res_bind (TLVSequence_control e) (\<lambda>c.
     if ctl_value_type c = U32_t then res_bind (TLVSequence_value c e) (array_or_invalid 4)
     else res_bind (TLVElement_u16 e) (\<lambda>a. Ok (ucast a)))"

definition TLVElement_i64 :: "TLVElement \<Rightarrow> i64 res" where
  "TLVElement_i64 e = res_bind (TLVSequence_control e) (\<lambda>c.
     if ctl_value_type c = S64_t then res_bind (TLVSequence_value c e) (array_or_invalid 8)
     else res_bind (TLVElement_i32 e) (\<lambda>a. Ok (scast a)))"

definition TLVElement_u64 :: "TLVElement \<Rightarrow> u64 res" where
  "TLVElement_u64 e = res_bind (TLVSequence_control e) (\<lambda>c.
     if ctl_value_type c = U64_t then res_bind (TLVSequence_value c e) (array_or_invalid 8)
     else res_bind (TLVElement_u32 e) (\<lambda>a. Ok (ucast a)))"

definition TLVElement_f32 :: "TLVElement \<Rightarrow> u32 res" where
  "TLVElement_f32 e = res_bind (TLVSequence_control e) (\<lambda>c.
     if ctl_value_type c = F32_t then res_bind (TLVSequence_value c e) (array_or_invalid 4)
     else Err TLVTypeMismatch)"

definition TLVElement_f64 :: "TLVElement \<Rightarrow> u64 res" where
  "TLVElement_f64 e = res_bind (TLVSequence_control e) (\<lambda>c.
     if ctl_value_type c = F64_t then res_bind (TLVSequence_value c e) (array_or_invalid 8)
     else Err TLVTypeMismatch)"

definition TLVElement_str :: "TLVElement \<Rightarrow> bytes res" where
  "TLVElement_str e = res_bind (TLVSequence_control e) (\<lambda>c.
     if \<not> TLVValueType_is_str (ctl_value_type c) then Err Invalid else TLVSequence_value c e)"

definition TLVElement_utf8 :: "TLVElement \<Rightarrow> bytes res" where
  "TLVElement_utf8 e = res_bind (TLVSequence_control e) (\<lambda>c.
     if \<not> TLVValueType_is_utf8 (ctl_value_type c) then Err Invalid
     else res_bind (TLVSequence_value c e) (\<lambda>b. res_ok_or InvalidData (from_utf8 b)))"

definition TLVElement_octets :: "TLVElement \<Rightarrow> bytes res" where
  "TLVElement_octets e = res_bind (TLVSequence_control e) (\<lambda>c.
     if TLVValueType_variable_size_len (ctl_value_type c) = 0 then Err Invalid
     else TLVSequence_value c e)"

definition TLVElement_bool :: "TLVElement \<Rightarrow> bool res" where
  "TLVElement_bool e = res_bind (TLVSequence_control e) (\<lambda>c. case ctl_value_type c of
       False_t \<Rightarrow> Ok False | True_t \<Rightarrow> Ok True | _ \<Rightarrow> Err TLVTypeMismatch)"

definition TLVElement_is_container :: "TLVElement \<Rightarrow> bool res" where
  "TLVElement_is_container e = res_bind (TLVSequence_control e) (\<lambda>c.
     Ok (TLVValueType_is_container (ctl_value_type c)))"

definition TLVElement_null :: "TLVElement \<Rightarrow> unit res" where
  "TLVElement_null e = res_bind (TLVSequence_control e) (\<lambda>c.
     if ctl_value_type c = Null_t then Ok () else Err InvalidData)"

definition TLVElement_struct :: "TLVElement \<Rightarrow> TLVSequence res" where
  "TLVElement_struct e = res_bind (TLVSequence_control e) (\<lambda>c.
     if ctl_value_type c = Struct_t then TLVSequence_next_enter e else Err TLVTypeMismatch)"

definition TLVElement_structure :: "TLVElement \<Rightarrow> TLVSequence res" where
  "TLVElement_structure e = TLVElement_struct e"

definition TLVElement_array :: "TLVElement \<Rightarrow> TLVSequence res" where
  "TLVElement_array e = res_bind (TLVSequence_control e) (\<lambda>c.
     if ctl_value_type c = Array_t then TLVSequence_next_enter e else Err InvalidData)"

definition TLVElement_list :: "TLVElement \<Rightarrow> TLVSequence res" where
  "TLVElement_list e = res_bind (TLVSequence_control e) (\<lambda>c.
     if ctl_value_type c = List_t then TLVSequence_next_enter e else Err TLVTypeMismatch)"

definition TLVElement_container :: "TLVElement \<Rightarrow> TLVSequence res" where
  "TLVElement_container e = res_bind (TLVSequence_control e) (\<lambda>c.
     if ctl_value_type c \<in> {List_t, Array_t, Struct_t} then TLVSequence_next_enter e
     else Err TLVTypeMismatch)"

definition TLVElement_confirm_anon :: "TLVElement \<Rightarrow> unit res" where
  "TLVElement_confirm_anon e = res_bind (TLVSequence_control e) (\<lambda>c.
     if ctl_tag_type c = Anonymous_t then Ok () else Err TLVTypeMismatch)"

definition TLVElement_try_ctx :: "TLVElement \<Rightarrow> u8 option res" where
  "TLVElement_try_ctx e = res_bind (TLVSequence_control e) (\<lambda>c.
     if ctl_tag_type c = Context_t
     then res_bind (TLVSequence_tag (ctl_tag_type c) e) (\<lambda>t.
       res_bind (res_ok_or TLVTypeMismatch (case t of [] \<Rightarrow> None | b # _ \<Rightarrow> Some b)) (\<lambda>b. Ok (Some b)))
     else Ok None)"

definition TLVElement_ctx :: "TLVElement \<Rightarrow> u8 res" where
  "TLVElement_ctx e = res_bind (TLVElement_try_ctx e) (res_ok_or TLVTypeMismatch)"

definition get_root_node_struct :: "bytes \<Rightarrow> TLVElement res" where
  "get_root_node_struct data = res_bind (TLVElement_structure data) (\<lambda>_. Ok data)"

subsection \<open>Looking up context tags\<close>

function TLVSequence_find_ctx :: "u8 \<Rightarrow> TLVSequence \<Rightarrow> TLVElement res" where
  "TLVSequence_find_ctx ctx s = (case TLVSequenceIter_next s of
       (Ok None, _) \<Rightarrow> Ok []
     | (Ok (Some e), s') \<Rightarrow> res_bind (TLVElement_try_ctx e) (\<lambda>t.
         if t = Some ctx then Ok e else TLVSequence_find_ctx ctx s')
     | (Err e, _) \<Rightarrow> Err e
     | (Panic, _) \<Rightarrow> Panic)"
  by pat_completeness auto

termination TLVSequence_find_ctx
  by (relation "measure (length \<circ> snd)") (auto dest: iter_next_shorter)

declare TLVSequence_find_ctx.simps [simp del]

definition TLVSequence_ctx :: "u8 \<Rightarrow> TLVSequence \<Rightarrow> TLVElement res" where
  "TLVSequence_ctx ctx s = res_bind (TLVSequence_find_ctx ctx s) (\<lambda>e.
     if e = [] then Err NotFound else Ok e)"

text \<open>
  \<^verbatim>\<open>scan_map\<close> loops until the closure returns a result; a closure that returns none for the empty
  element that stands for the end makes it run forever, which is the value \<open>None\<close>.
\<close>

partial_function (option) TLVSequence_scan_map ::
    "(TLVElement \<Rightarrow> 'a option res) \<Rightarrow> TLVSequence \<Rightarrow> ('a res \<times> TLVSequence) option" where
  "TLVSequence_scan_map f s = (case res_bind (TLVSequence_current s) f of
       Ok (Some x) \<Rightarrow> Some (Ok x, s)
     | Ok None \<Rightarrow> (case TLVSequence_container_next s of
           Ok s' \<Rightarrow> TLVSequence_scan_map f s'
         | Err e \<Rightarrow> Some (Err e, s)
         | Panic \<Rightarrow> Some (Panic, s))
     | Err e \<Rightarrow> Some (Err e, s)
     | Panic \<Rightarrow> Some (Panic, s))"

declare TLVSequence_scan_map.simps [code]

definition scan_ctx_closure :: "u8 \<Rightarrow> TLVElement \<Rightarrow> TLVElement option res" where
  "scan_ctx_closure ctx e = (if e = [] then Ok (Some e) else
     res_bind (TLVElement_try_ctx e) (\<lambda>t. case t of
         Some c \<Rightarrow> (if c = ctx then Ok (Some e) else if c > ctx then Ok (Some []) else Ok None)
       | None \<Rightarrow> Ok None))"

definition TLVSequence_scan_ctx :: "u8 \<Rightarrow> TLVSequence \<Rightarrow> (TLVElement res \<times> TLVSequence) option" where
  "TLVSequence_scan_ctx ctx s = TLVSequence_scan_map (scan_ctx_closure ctx) s"

subsection \<open>The flattening iterator\<close>

record TLVSequenceTLVIter =
  ti_seq :: TLVSequence
  ti_nesting :: nat

definition TLVSequence_tlv_iter :: "TLVSequence \<Rightarrow> TLVSequenceTLVIter" where
  "TLVSequence_tlv_iter s = \<lparr>ti_seq = s, ti_nesting = 0\<rparr>"

definition TLVSequenceTLVIter_advance :: "(TLVSequenceTLVIter, unit) sr" where
  "TLVSequenceTLVIter_advance = sr_bind sr_get (\<lambda>it.
     sr_bind (if ti_nesting it > 0 then sr_return True
        else if ti_seq it \<noteq> [] then sr_bind (sr_res (TLVSequence_control (ti_seq it))) (\<lambda>c.
          sr_return (\<not> TLVControl_is_container_end c))
        else sr_return False) (\<lambda>go.
     if \<not> go then sr_return () else
     sr_bind (sr_res (TLVSequence_next_enter (ti_seq it))) (\<lambda>s'.
     sr_then (sr_modify (\<lambda>it. it\<lparr>ti_seq := s'\<rparr>))
     (sr_bind (sr_res (TLVSequence_control s')) (\<lambda>c.
       if TLVControl_is_container_start c
       then sr_modify (\<lambda>it. it\<lparr>ti_nesting := ti_nesting it + 1\<rparr>)
       else if TLVControl_is_container_end c
       then (if ti_nesting it = 0 then sr_panic
             else sr_modify (\<lambda>it. it\<lparr>ti_nesting := ti_nesting it - 1\<rparr>))
       else sr_return ())))))"

definition TLVSequenceTLVIter_try_next :: "(TLVSequenceTLVIter, TLV option) sr" where
  "TLVSequenceTLVIter_try_next = sr_bind sr_get (\<lambda>it.
     sr_bind (sr_res (TLVSequence_current (ti_seq it))) (\<lambda>current.
     if current = [] then sr_return None else
     sr_then TLVSequenceTLVIter_advance
     (sr_bind (sr_res (TLVElement_tag current)) (\<lambda>t.
      sr_bind (sr_res (TLVElement_value current)) (\<lambda>v. sr_return (Some (TLV_new t v)))))))"

end
