(* ===== verification/Tlv_Write.thy ===== *)
theory Tlv_Write
  imports Tlv Storage
begin

section \<open>The TLV writer\<close>

text \<open>
  \<^verbatim>\<open>tlv/write.rs\<close>: the trait \<^verbatim>\<open>TLVWrite\<close> with its provided methods, as its implementation for
  \<^verbatim>\<open>WriteBuf\<close> runs them. Everything is appended byte by byte; a failure leaves the bytes written so far.
\<close>

definition TLVWrite_write :: "u8 \<Rightarrow> (WriteBuf, unit) sr" where
  "TLVWrite_write b = WriteBuf_append [b]"

fun TLVWrite_write_raw_data :: "bytes \<Rightarrow> (WriteBuf, unit) sr" where
  "TLVWrite_write_raw_data [] = sr_return ()"
| "TLVWrite_write_raw_data (b # bs) = sr_then (TLVWrite_write b) (TLVWrite_write_raw_data bs)"

definition TLVWrite_raw_value :: "TLVTag \<Rightarrow> TLVValueType \<Rightarrow> bytes \<Rightarrow> (WriteBuf, unit) sr" where
  "TLVWrite_raw_value tag vt payload =
     sr_then (TLVWrite_write (TLVControl_as_raw (TLVControl_new (TLVTag_tag_type tag) vt)))
     (sr_then (case tag of
          Anonymous \<Rightarrow> sr_return ()
        | Context v \<Rightarrow> TLVWrite_write_raw_data (to_le_bytes 1 v)
        | CommonPrf16 v \<Rightarrow> TLVWrite_write_raw_data (to_le_bytes 2 v)
        | ImplPrf16 v \<Rightarrow> TLVWrite_write_raw_data (to_le_bytes 2 v)
        | CommonPrf32 v \<Rightarrow> TLVWrite_write_raw_data (to_le_bytes 4 v)
        | ImplPrf32 v \<Rightarrow> TLVWrite_write_raw_data (to_le_bytes 4 v)
        | FullQual48 v p t \<Rightarrow>
            sr_then (TLVWrite_write_raw_data (to_le_bytes 2 v))
            (sr_then (TLVWrite_write_raw_data (to_le_bytes 2 p))
            (TLVWrite_write_raw_data (to_le_bytes 2 t)))
        | FullQual64 v p t \<Rightarrow>
            sr_then (TLVWrite_write_raw_data (to_le_bytes 2 v))
            (sr_then (TLVWrite_write_raw_data (to_le_bytes 2 p))
            (TLVWrite_write_raw_data (to_le_bytes 4 t))))
     (TLVWrite_write_raw_data payload))"

definition TLVWrite_tlv :: "TLVTag \<Rightarrow> TLVValue \<Rightarrow> (WriteBuf, unit) sr" where
  "TLVWrite_tlv tag v =
     sr_then (TLVWrite_raw_value tag (TLVValue_value_type v) [])
     (sr_then (case v of
          Str8l a \<Rightarrow> TLVWrite_write_raw_data (to_le_bytes 1 (of_nat (length a) :: u8))
        | Str16l a \<Rightarrow> TLVWrite_write_raw_data (to_le_bytes 2 (of_nat (length a) :: u16))
        | Str32l a \<Rightarrow> TLVWrite_write_raw_data (to_le_bytes 4 (of_nat (length a) :: u32))
        | Str64l a \<Rightarrow> TLVWrite_write_raw_data (to_le_bytes 8 (of_nat (length a) :: u64))
        | Utf8l a \<Rightarrow> TLVWrite_write_raw_data (to_le_bytes 1 (of_nat (length a) :: u8))
        | Utf16l a \<Rightarrow> TLVWrite_write_raw_data (to_le_bytes 2 (of_nat (length a) :: u16))
        | Utf32l a \<Rightarrow> TLVWrite_write_raw_data (to_le_bytes 4 (of_nat (length a) :: u32))
        | Utf64l a \<Rightarrow> TLVWrite_write_raw_data (to_le_bytes 8 (of_nat (length a) :: u64))
        | _ \<Rightarrow> sr_return ())
     (case v of
          S8 a \<Rightarrow> TLVWrite_write_raw_data (to_le_bytes 1 a)
        | S16 a \<Rightarrow> TLVWrite_write_raw_data (to_le_bytes 2 a)
        | S32 a \<Rightarrow> TLVWrite_write_raw_data (to_le_bytes 4 a)
        | S64 a \<Rightarrow> TLVWrite_write_raw_data (to_le_bytes 8 a)
        | U8 a \<Rightarrow> TLVWrite_write_raw_data (to_le_bytes 1 a)
        | U16 a \<Rightarrow> TLVWrite_write_raw_data (to_le_bytes 2 a)
        | U32 a \<Rightarrow> TLVWrite_write_raw_data (to_le_bytes 4 a)
        | U64 a \<Rightarrow> TLVWrite_write_raw_data (to_le_bytes 8 a)
        | F32 a \<Rightarrow> TLVWrite_write_raw_data (to_le_bytes 4 a)
        | F64 a \<Rightarrow> TLVWrite_write_raw_data (to_le_bytes 8 a)
        | Utf8l a \<Rightarrow> TLVWrite_write_raw_data a
        | Utf16l a \<Rightarrow> TLVWrite_write_raw_data a
        | Utf32l a \<Rightarrow> TLVWrite_write_raw_data a
        | Utf64l a \<Rightarrow> TLVWrite_write_raw_data a
        | Str8l a \<Rightarrow> TLVWrite_write_raw_data a
        | Str16l a \<Rightarrow> TLVWrite_write_raw_data a
        | Str32l a \<Rightarrow> TLVWrite_write_raw_data a
        | Str64l a \<Rightarrow> TLVWrite_write_raw_data a
        | _ \<Rightarrow> sr_return ()))"

subsection \<open>Scalars\<close>

definition TLVWrite_i8 :: "TLVTag \<Rightarrow> i8 \<Rightarrow> (WriteBuf, unit) sr" where
  "TLVWrite_i8 tag d = TLVWrite_raw_value tag S8_t (to_le_bytes 1 d)"

definition TLVWrite_u8 :: "TLVTag \<Rightarrow> u8 \<Rightarrow> (WriteBuf, unit) sr" where
  "TLVWrite_u8 tag d = TLVWrite_raw_value tag U8_t (to_le_bytes 1 d)"

definition TLVWrite_i16 :: "TLVTag \<Rightarrow> i16 \<Rightarrow> (WriteBuf, unit) sr" where
  "TLVWrite_i16 tag d = (if sint d \<ge> -128 \<and> sint d \<le> 127 then TLVWrite_i8 tag (ucast d)
     else TLVWrite_raw_value tag S16_t (to_le_bytes 2 d))"

definition TLVWrite_u16 :: "TLVTag \<Rightarrow> u16 \<Rightarrow> (WriteBuf, unit) sr" where
  "TLVWrite_u16 tag d = (if d \<le> 0xFF then TLVWrite_u8 tag (ucast d)
     else TLVWrite_raw_value tag U16_t (to_le_bytes 2 d))"

definition TLVWrite_i32 :: "TLVTag \<Rightarrow> i32 \<Rightarrow> (WriteBuf, unit) sr" where
  "TLVWrite_i32 tag d = (if sint d \<ge> -32768 \<and> sint d \<le> 32767 then TLVWrite_i16 tag (ucast d)
     else TLVWrite_raw_value tag S32_t (to_le_bytes 4 d))"

definition TLVWrite_u32 :: "TLVTag \<Rightarrow> u32 \<Rightarrow> (WriteBuf, unit) sr" where
  "TLVWrite_u32 tag d = (if d \<le> 0xFFFF then TLVWrite_u16 tag (ucast d)
     else TLVWrite_raw_value tag U32_t (to_le_bytes 4 d))"

definition TLVWrite_i64 :: "TLVTag \<Rightarrow> i64 \<Rightarrow> (WriteBuf, unit) sr" where
  "TLVWrite_i64 tag d =
     (if sint d \<ge> -2147483648 \<and> sint d \<le> 2147483647 then TLVWrite_i32 tag (ucast d)
      else TLVWrite_raw_value tag S64_t (to_le_bytes 8 d))"

definition TLVWrite_u64 :: "TLVTag \<Rightarrow> u64 \<Rightarrow> (WriteBuf, unit) sr" where
  "TLVWrite_u64 tag d = (if d \<le> 0xFFFFFFFF then TLVWrite_u32 tag (ucast d)
     else TLVWrite_raw_value tag U64_t (to_le_bytes 8 d))"

definition TLVWrite_f32 :: "TLVTag \<Rightarrow> u32 \<Rightarrow> (WriteBuf, unit) sr" where
  "TLVWrite_f32 tag d = TLVWrite_raw_value tag F32_t (to_le_bytes 4 d)"

definition TLVWrite_f64 :: "TLVTag \<Rightarrow> u64 \<Rightarrow> (WriteBuf, unit) sr" where
  "TLVWrite_f64 tag d = TLVWrite_raw_value tag F64_t (to_le_bytes 8 d)"

definition TLVWrite_null :: "TLVTag \<Rightarrow> (WriteBuf, unit) sr" where
  "TLVWrite_null tag = TLVWrite_raw_value tag Null_t []"

definition TLVWrite_bool :: "TLVTag \<Rightarrow> bool \<Rightarrow> (WriteBuf, unit) sr" where
  "TLVWrite_bool tag b = TLVWrite_raw_value tag (if b then True_t else False_t) []"

subsection \<open>Strings\<close>

definition TLVWrite_stri :: "TLVTag \<Rightarrow> nat \<Rightarrow> bytes \<Rightarrow> (WriteBuf, unit) sr" where
  "TLVWrite_stri tag len d = sr_then
     (if len \<le> 0xFF then TLVWrite_raw_value tag Str8l_t (to_le_bytes 1 (of_nat len :: u8))
      else if len \<le> 0xFFFF then TLVWrite_raw_value tag Str16l_t (to_le_bytes 2 (of_nat len :: u16))
      else if len \<le> 0xFFFFFFFF then TLVWrite_raw_value tag Str32l_t (to_le_bytes 4 (of_nat len :: u32))
      else TLVWrite_raw_value tag Str64l_t (to_le_bytes 8 (of_nat len :: u64)))
     (TLVWrite_write_raw_data d)"

definition TLVWrite_str :: "TLVTag \<Rightarrow> bytes \<Rightarrow> (WriteBuf, unit) sr" where
  "TLVWrite_str tag d = TLVWrite_stri tag (length d) d"

definition TLVWrite_utf8i :: "TLVTag \<Rightarrow> nat \<Rightarrow> bytes \<Rightarrow> (WriteBuf, unit) sr" where
  "TLVWrite_utf8i tag len d = sr_then
     (if len \<le> 0xFF then TLVWrite_raw_value tag Utf8l_t (to_le_bytes 1 (of_nat len :: u8))
      else if len \<le> 0xFFFF then TLVWrite_raw_value tag Utf16l_t (to_le_bytes 2 (of_nat len :: u16))
      else if len \<le> 0xFFFFFFFF then TLVWrite_raw_value tag Utf32l_t (to_le_bytes 4 (of_nat len :: u32))
      else TLVWrite_raw_value tag Utf64l_t (to_le_bytes 8 (of_nat len :: u64)))
     (TLVWrite_write_raw_data d)"

definition TLVWrite_utf8 :: "TLVTag \<Rightarrow> bytes \<Rightarrow> (WriteBuf, unit) sr" where
  "TLVWrite_utf8 tag d = TLVWrite_utf8i tag (length d) d"

subsection \<open>Containers\<close>

definition TLVWrite_start_struct :: "TLVTag \<Rightarrow> (WriteBuf, unit) sr" where
  "TLVWrite_start_struct tag = TLVWrite_raw_value tag Struct_t []"

definition TLVWrite_start_array :: "TLVTag \<Rightarrow> (WriteBuf, unit) sr" where
  "TLVWrite_start_array tag = TLVWrite_raw_value tag Array_t []"

definition TLVWrite_start_list :: "TLVTag \<Rightarrow> (WriteBuf, unit) sr" where
  "TLVWrite_start_list tag = TLVWrite_raw_value tag List_t []"

definition TLVWrite_start_container :: "TLVTag \<Rightarrow> TLVValueType \<Rightarrow> (WriteBuf, unit) sr" where
  "TLVWrite_start_container tag vt =
     (if \<not> TLVValueType_is_container vt then sr_err TLVTypeMismatch
      else TLVWrite_raw_value tag vt [])"

definition TLVWrite_end_container :: "(WriteBuf, unit) sr" where
  "TLVWrite_end_container = TLVWrite_write (TLVControl_as_raw (TLVControl_new Anonymous_t EndCnt_t))"

subsection \<open>Strings written by a callback\<close>

text \<open>
  \<^verbatim>\<open>finalize_len_header\<close>: the buffer holds a header with a two-byte length field before
  \<open>value_offset\<close>; a short string gets the one-byte header and moves one byte to the front.
\<close>

definition WriteBuf_finalize_len_header ::
    "nat \<Rightarrow> nat \<Rightarrow> nat \<Rightarrow> TLVTagType \<Rightarrow> TLVValueType \<Rightarrow> (WriteBuf, unit) sr" where
  "WriteBuf_finalize_len_header control_offset value_offset len tt short_vt = (\<lambda>w.
     if len \<le> 0xFF then
       (if control_offset < length (wb_buf w) \<and> 2 \<le> value_offset \<and>
           value_offset + len \<le> length (wb_buf w) \<and> 1 \<le> wb_end w
        then let b = (wb_buf w)[control_offset := TLVControl_as_raw (TLVControl_new tt short_vt)];
                 b = b[value_offset - 2 := of_nat len];
                 b = copy_into b (value_offset - 1) (slice_of b value_offset (value_offset + len))
             in (Ok (), WriteBuf_rewind_tail_to (WriteBuf_get_tail w - 1) (w\<lparr>wb_buf := b\<rparr>))
        else (Panic, w))
     else if len \<le> 0xFFFF then
       (if 2 \<le> value_offset \<and> value_offset \<le> length (wb_buf w)
        then (Ok (), w\<lparr>wb_buf := copy_into (wb_buf w) (value_offset - 2)
               (to_le_bytes 2 (of_nat len :: u16))\<rparr>)
        else (Panic, w))
     else (Panic, w))"

definition WriteBuf_str_cb :: "TLVTag \<Rightarrow> (bytes \<Rightarrow> nat res \<times> bytes) \<Rightarrow> (WriteBuf, unit) sr" where
  "WriteBuf_str_cb tag cb = sr_bind sr_get (\<lambda>w0. let control_offset = WriteBuf_get_tail w0 in
     sr_then (TLVWrite_raw_value tag Str16l_t (to_le_bytes 2 (0 :: u16)))
     (sr_bind sr_get (\<lambda>w1. let value_offset = WriteBuf_get_tail w1 in
     sr_bind (WriteBuf_append_with_buf cb) (\<lambda>len.
       WriteBuf_finalize_len_header control_offset value_offset len (TLVTag_tag_type tag) Str8l_t))))"

definition WriteBuf_utf8_cb :: "TLVTag \<Rightarrow> (bytes \<Rightarrow> nat res \<times> bytes) \<Rightarrow> (WriteBuf, unit) sr" where
  "WriteBuf_utf8_cb tag cb = sr_bind sr_get (\<lambda>w0. let control_offset = WriteBuf_get_tail w0 in
     sr_then (TLVWrite_raw_value tag Utf16l_t (to_le_bytes 2 (0 :: u16)))
     (sr_bind sr_get (\<lambda>w1. let value_offset = WriteBuf_get_tail w1 in
     sr_bind (WriteBuf_append_with_buf cb) (\<lambda>len.
       WriteBuf_finalize_len_header control_offset value_offset len (TLVTag_tag_type tag) Utf8l_t))))"

end
