(* ===== verification/Tlv_Codec.thy ===== *)
theory Tlv_Codec
  imports Tlv_Read Tlv_Write
begin

section \<open>What the TLV writer writes, the reader reads\<close>

text \<open>
  The encoding as a byte string (\<open>tlv_bytes\<close> of one element, \<open>enc\<close> of a tree of elements), the
  writer and the byte iterators measured against it, and the reader's operations on it.
\<close>

subsection \<open>The encoding\<close>

fun tag_bytes :: "TLVTag \<Rightarrow> bytes" where
  "tag_bytes Anonymous = []"
| "tag_bytes (Context t) = [t]"
| "tag_bytes (CommonPrf16 t) = to_le_bytes 2 t"
| "tag_bytes (CommonPrf32 t) = to_le_bytes 4 t"
| "tag_bytes (ImplPrf16 t) = to_le_bytes 2 t"
| "tag_bytes (ImplPrf32 t) = to_le_bytes 4 t"
| "tag_bytes (FullQual48 v p t) = to_le_bytes 2 v @ to_le_bytes 2 p @ to_le_bytes 2 t"
| "tag_bytes (FullQual64 v p t) = to_le_bytes 2 v @ to_le_bytes 2 p @ to_le_bytes 4 t"

definition payload :: "TLVValue \<Rightarrow> bytes" where
  "payload v = (case v of
       S8 a \<Rightarrow> [a] | S16 a \<Rightarrow> to_le_bytes 2 a | S32 a \<Rightarrow> to_le_bytes 4 a | S64 a \<Rightarrow> to_le_bytes 8 a
     | U8 a \<Rightarrow> [a] | U16 a \<Rightarrow> to_le_bytes 2 a | U32 a \<Rightarrow> to_le_bytes 4 a | U64 a \<Rightarrow> to_le_bytes 8 a
     | F32 a \<Rightarrow> to_le_bytes 4 a | F64 a \<Rightarrow> to_le_bytes 8 a
     | Utf8l a \<Rightarrow> a | Utf16l a \<Rightarrow> a | Utf32l a \<Rightarrow> a | Utf64l a \<Rightarrow> a
     | Str8l a \<Rightarrow> a | Str16l a \<Rightarrow> a | Str32l a \<Rightarrow> a | Str64l a \<Rightarrow> a | _ \<Rightarrow> [])"

text \<open>The length field has as many low bytes of the length as the type says.\<close>

definition tlv_len_bytes :: "TLVValue \<Rightarrow> bytes" where
  "tlv_len_bytes v = to_le_bytes (TLVValueType_variable_size_len (TLVValue_value_type v))
     (of_nat (length (payload v)) :: u64)"

definition tlv_bytes :: "TLVTag \<Rightarrow> TLVValue \<Rightarrow> bytes" where
  "tlv_bytes t v = TLVControl_as_raw (TLVControl_new (TLVTag_tag_type t) (TLVValue_value_type v)) #
     tag_bytes t @ tlv_len_bytes v @ payload v"

lemma to_le_bytes_1 [simp]: "to_le_bytes 1 (w :: u8) = [w]" "to_le_bytes (Suc 0) (w :: u8) = [w]"
  by (simp_all add: to_le_bytes_def)

lemma to_le_bytes_of_nat:
  assumes "8 * n \<le> LENGTH('a::len)" "LENGTH('a) \<le> 64"
  shows "to_le_bytes n (of_nat k :: 'a word) = to_le_bytes n (of_nat k :: u64)"
proof -
  have "ucast (drop_bit (8 * i) (of_nat k :: 'a word)) = (ucast (drop_bit (8 * i) (of_nat k :: u64)) :: u8)"
    if "i < n" for i
  proof (rule bit_word_eqI)
    fix j assume "j < LENGTH(8)"
    then have "8 * i + j < LENGTH('a)" using that assms by simp
    then show "bit (ucast (drop_bit (8 * i) (of_nat k :: 'a word)) :: u8) j =
        bit (ucast (drop_bit (8 * i) (of_nat k :: u64)) :: u8) j"
      using assms by (simp add: bit_ucast_iff bit_drop_bit_eq bit_simps)
  qed
  then show ?thesis by (simp add: to_le_bytes_def)
qed

lemma to_le_bytes_len [simp]:
  "to_le_bytes 2 (of_nat k :: u16) = to_le_bytes 2 (of_nat k :: u64)"
  "to_le_bytes 4 (of_nat k :: u32) = to_le_bytes 4 (of_nat k :: u64)"
  by (rule to_le_bytes_of_nat; simp)+

lemma to_le_bytes_len1: "to_le_bytes 1 (of_nat k :: u64) = [of_nat k]"
  using to_le_bytes_of_nat [of 1, where 'a = 8, of k] by simp

subsection \<open>Writing\<close>

text \<open>A write operation that appends \<open>bs\<close> byte by byte, as far as there is room.\<close>

definition append_upto :: "bytes \<Rightarrow> WriteBuf \<Rightarrow> WriteBuf" where
  "append_upto bs w = (let cs = take (WriteBuf_room w) bs in
     w\<lparr>wb_buf := copy_into (wb_buf w) (wb_end w) cs, wb_end := wb_end w + length cs\<rparr>)"

definition writes :: "(WriteBuf, unit) sr \<Rightarrow> bytes \<Rightarrow> bool" where
  "writes m bs \<longleftrightarrow> (\<forall>w. WriteBuf_inv w \<longrightarrow>
     m w = (if length bs \<le> WriteBuf_room w then Ok () else Err NoSpace, append_upto bs w))"

lemma append_upto_keeps:
  assumes "WriteBuf_inv w"
  shows "WriteBuf_inv (append_upto bs w)"
    "WriteBuf_view (append_upto bs w) = WriteBuf_view w @ take (WriteBuf_room w) bs"
    "WriteBuf_room (append_upto bs w) = WriteBuf_room w - length bs"
  using WriteBuf_append_keeps [OF assms _ refl, of "take (WriteBuf_room w) bs"]
  by (auto simp: append_upto_def Let_def min_def)

lemma copy_into_append:
  "a + length xs + length ys \<le> length zs \<Longrightarrow>
   copy_into (copy_into zs a xs) (a + length xs) ys = copy_into zs a (xs @ ys)"
  by (simp add: copy_into_def add.commute add.left_commute)

lemma copy_into_nil [simp]: "copy_into xs a [] = xs"
  by (simp add: copy_into_def)

lemma append_upto_append:
  assumes inv: "WriteBuf_inv w"
  shows "append_upto ys (append_upto xs w) = append_upto (xs @ ys) w"
proof -
  have le: "wb_end w + WriteBuf_room w \<le> length (wb_buf w)"
    using inv by (auto simp: WriteBuf_inv_def WriteBuf_room_def)
  have r: "WriteBuf_room (append_upto xs w) = WriteBuf_room w - length xs"
    by (rule append_upto_keeps(3) [OF inv])
  show ?thesis
    using le by (auto simp: append_upto_def [of ys] append_upto_def [of "xs @ ys"] Let_def r)
      (auto simp: append_upto_def Let_def copy_into_append min_def)
qed

lemma append_upto_full:
  "\<not> length xs \<le> WriteBuf_room w \<Longrightarrow> append_upto (xs @ ys) w = append_upto xs w"
  by (simp add: append_upto_def Let_def)

lemma writes_nil: "writes (sr_return ()) []"
  by (simp add: writes_def append_upto_def sr_return_def copy_into_def)

lemma writes_then:
  assumes m: "writes m xs" and n: "writes n ys"
  shows "writes (sr_then m n) (xs @ ys)"
  unfolding writes_def
proof (intro allI impI)
  fix w assume inv: "WriteBuf_inv w"
  note keeps = append_upto_keeps [OF inv, of xs]
  show "sr_then m n w = (if length (xs @ ys) \<le> WriteBuf_room w then Ok () else Err NoSpace,
      append_upto (xs @ ys) w)"
  proof (cases "length xs \<le> WriteBuf_room w")
    case True
    then show ?thesis using m n keeps inv
      by (auto simp: writes_def sr_bind_def append_upto_append)
  next
    case False
    then show ?thesis using m inv by (simp add: writes_def sr_bind_def append_upto_full)
  qed
qed

lemma writes_byte: "writes (TLVWrite_write b) [b]"
  unfolding writes_def
proof (intro allI impI)
  fix w assume "WriteBuf_inv w"
  then show "TLVWrite_write b w = (if length [b] \<le> WriteBuf_room w then Ok () else Err NoSpace, append_upto [b] w)"
    using WriteBuf_append_ok [of w "[b]"] WriteBuf_append_nospace [of w "[b]"]
    by (cases "WriteBuf_room w") (auto simp: TLVWrite_write_def append_upto_def copy_into_def)
qed

lemma writes_raw_data: "writes (TLVWrite_write_raw_data bs) bs"
proof (induction bs)
  case (Cons b bs)
  then show ?case using writes_then [OF writes_byte] by fastforce
qed (simp add: writes_nil)

lemma writes_eq: "writes m bs \<Longrightarrow> writes n bs \<Longrightarrow> WriteBuf_inv w \<Longrightarrow> m w = n w"
  by (simp add: writes_def)

lemma writes_ok:
  "writes m bs \<Longrightarrow> WriteBuf_inv w \<Longrightarrow> length bs \<le> WriteBuf_room w \<Longrightarrow>
   \<exists>w'. m w = (Ok (), w') \<and> WriteBuf_inv w' \<and> WriteBuf_view w' = WriteBuf_view w @ bs \<and>
        WriteBuf_room w' = WriteBuf_room w - length bs"
  by (simp add: writes_def append_upto_keeps)

lemma writes_raw_value:
  "writes (TLVWrite_raw_value t vt p)
     (TLVControl_as_raw (TLVControl_new (TLVTag_tag_type t) vt) # tag_bytes t @ p)"
proof -
  have tag: "writes (case t of
          Anonymous \<Rightarrow> sr_return ()
        | Context v \<Rightarrow> TLVWrite_write_raw_data (to_le_bytes 1 v)
        | CommonPrf16 v \<Rightarrow> TLVWrite_write_raw_data (to_le_bytes 2 v)
        | ImplPrf16 v \<Rightarrow> TLVWrite_write_raw_data (to_le_bytes 2 v)
        | CommonPrf32 v \<Rightarrow> TLVWrite_write_raw_data (to_le_bytes 4 v)
        | ImplPrf32 v \<Rightarrow> TLVWrite_write_raw_data (to_le_bytes 4 v)
        | FullQual48 v p t \<Rightarrow>
            sr_then (TLVWrite_write_raw_data (to_le_bytes 2 v))
            (sr_then (TLVWrite_write_raw_data (to_le_bytes 2 p))
            (TLVWrite_write_raw_data (to_le_bytes 2 t)))
        | FullQual64 v p t \<Rightarrow>
            sr_then (TLVWrite_write_raw_data (to_le_bytes 2 v))
            (sr_then (TLVWrite_write_raw_data (to_le_bytes 2 p))
            (TLVWrite_write_raw_data (to_le_bytes 4 t)))) (tag_bytes t)" (is "writes ?m _")
    using writes_raw_data by (cases t) (auto intro!: writes_nil writes_then simp del: TLVWrite_write_raw_data.simps)
  show ?thesis
    using writes_then [OF writes_byte writes_then [OF tag writes_raw_data]]
    by (simp add: TLVWrite_raw_value_def)
qed

lemma writes_raw_nil:
  "writes (TLVWrite_raw_value t vt []) (TLVControl_as_raw (TLVControl_new (TLVTag_tag_type t) vt) # tag_bytes t)"
  using writes_raw_value [of t vt "[]"] by simp

lemma writes_raw_then:
  "writes (sr_then (TLVWrite_raw_value t vt p) (TLVWrite_write_raw_data d))
     (TLVControl_as_raw (TLVControl_new (TLVTag_tag_type t) vt) # tag_bytes t @ p @ d)"
  using writes_then [OF writes_raw_value writes_raw_data] by fastforce

lemma value_len_sizes [simp]:
  "length (tag_bytes t) = TLVTagType_size (TLVTag_tag_type t)"
  "length (tlv_len_bytes v) = TLVValueType_variable_size_len (TLVValue_value_type v)"
  by (cases t; simp) (simp add: tlv_len_bytes_def)

lemma writes_tlv: "writes (TLVWrite_tlv t v) (tlv_bytes t v)"
proof -
  have len: "writes (case v of
          Str8l a \<Rightarrow> TLVWrite_write_raw_data (to_le_bytes 1 (of_nat (length a) :: u8))
        | Str16l a \<Rightarrow> TLVWrite_write_raw_data (to_le_bytes 2 (of_nat (length a) :: u16))
        | Str32l a \<Rightarrow> TLVWrite_write_raw_data (to_le_bytes 4 (of_nat (length a) :: u32))
        | Str64l a \<Rightarrow> TLVWrite_write_raw_data (to_le_bytes 8 (of_nat (length a) :: u64))
        | Utf8l a \<Rightarrow> TLVWrite_write_raw_data (to_le_bytes 1 (of_nat (length a) :: u8))
        | Utf16l a \<Rightarrow> TLVWrite_write_raw_data (to_le_bytes 2 (of_nat (length a) :: u16))
        | Utf32l a \<Rightarrow> TLVWrite_write_raw_data (to_le_bytes 4 (of_nat (length a) :: u32))
        | Utf64l a \<Rightarrow> TLVWrite_write_raw_data (to_le_bytes 8 (of_nat (length a) :: u64))
        | _ \<Rightarrow> sr_return ()) (tlv_len_bytes v)"
    using writes_raw_data writes_nil
    by (cases v) (simp_all add: tlv_len_bytes_def payload_def TLVValueType_variable_size_len_def
        to_le_bytes_len1 [simplified] to_le_bytes_def [of 0] del: TLVWrite_write_raw_data.simps)
  have pay: "writes (case v of
          S8 a \<Rightarrow> TLVWrite_write_raw_data (to_le_bytes 1 a)
        | S16 a \<Rightarrow> TLVWrite_write_raw_data (to_le_bytes 2 a)
        | S32 a \<Rightarrow> TLVWrite_write_raw_data (to_le_bytes 4 a)
        | S64 a \<Rightarrow> TLVWrite_write_raw_data (to_le_bytes 8 a)
        | U8 a \<Rightarrow> TLVWrite_write_raw_data (to_le_bytes 1 a)
        | U16 a \<Rightarrow> TLVWrite_write_raw_data (to_le_bytes 2 a)
        | U32 a \<Rightarrow> TLVWrite_write_raw_data (to_le_bytes 4 a)
        | U64 a \<Rightarrow> TLVWrite_write_raw_data (to_le_bytes 8 a)
        | F32 a \<Rightarrow> TLVWrite_write_raw_data (to_le_bytes 4 a)
        | F64 a \<Rightarrow> TLVWrite_write_raw_data (to_le_bytes 8 a)
        | Utf8l a \<Rightarrow> TLVWrite_write_raw_data a
        | Utf16l a \<Rightarrow> TLVWrite_write_raw_data a
        | Utf32l a \<Rightarrow> TLVWrite_write_raw_data a
        | Utf64l a \<Rightarrow> TLVWrite_write_raw_data a
        | Str8l a \<Rightarrow> TLVWrite_write_raw_data a
        | Str16l a \<Rightarrow> TLVWrite_write_raw_data a
        | Str32l a \<Rightarrow> TLVWrite_write_raw_data a
        | Str64l a \<Rightarrow> TLVWrite_write_raw_data a
        | _ \<Rightarrow> sr_return ()) (payload v)"
    using writes_raw_data writes_nil
    by (cases v) (simp_all add: payload_def del: TLVWrite_write_raw_data.simps)
  show ?thesis
    using writes_then [OF writes_raw_value [of t "TLVValue_value_type v" "[]"] writes_then [OF len pay]]
    by (simp add: TLVWrite_tlv_def tlv_bytes_def)
qed

text \<open>The width each integer writer and each string writer chooses is the one of the value constructors.\<close>

lemma writes_ints:
  "writes (TLVWrite_u8 t a) (tlv_bytes t (TLVValue_u8 a))"
  "writes (TLVWrite_u16 t b) (tlv_bytes t (TLVValue_u16 b))"
  "writes (TLVWrite_u32 t c) (tlv_bytes t (TLVValue_u32 c))"
  "writes (TLVWrite_u64 t d) (tlv_bytes t (TLVValue_u64 d))"
  "writes (TLVWrite_i8 t a) (tlv_bytes t (TLVValue_i8 a))"
  "writes (TLVWrite_i16 t b) (tlv_bytes t (TLVValue_i16 b))"
  "writes (TLVWrite_i32 t c) (tlv_bytes t (TLVValue_i32 c))"
  "writes (TLVWrite_i64 t d) (tlv_bytes t (TLVValue_i64 d))"
  using writes_raw_value
  by (simp_all add: TLVWrite_u8_def TLVWrite_u16_def TLVWrite_u32_def TLVWrite_u64_def TLVWrite_i8_def
      TLVWrite_i16_def TLVWrite_i32_def TLVWrite_i64_def TLVValue_u8_def TLVValue_u16_def
      TLVValue_u32_def TLVValue_u64_def TLVValue_i8_def TLVValue_i16_def TLVValue_i32_def
      TLVValue_i64_def tlv_bytes_def tlv_len_bytes_def payload_def TLVValueType_variable_size_len_def
      to_le_bytes_def [of 0])

lemma writes_simple:
  "writes (TLVWrite_null t) (tlv_bytes t Null)"
  "writes (TLVWrite_bool t b) (tlv_bytes t (TLVValue_bool b))"
  "writes (TLVWrite_f32 t c) (tlv_bytes t (F32 c))"
  "writes (TLVWrite_f64 t d) (tlv_bytes t (F64 d))"
  "writes (TLVWrite_start_struct t) (tlv_bytes t Struct)"
  "writes (TLVWrite_start_array t) (tlv_bytes t Array)"
  "writes (TLVWrite_start_list t) (tlv_bytes t List)"
  using writes_raw_value writes_raw_nil
  by (simp_all add: TLVWrite_null_def TLVWrite_bool_def TLVWrite_f32_def TLVWrite_f64_def
      TLVWrite_start_struct_def TLVWrite_start_array_def TLVWrite_start_list_def TLVValue_bool_def
      tlv_bytes_def tlv_len_bytes_def payload_def TLVValueType_variable_size_len_def to_le_bytes_def [of 0])

lemma writes_end: "writes TLVWrite_end_container [0x18]"
  using writes_byte [of "0x18"]
  by (simp add: TLVWrite_end_container_def TLVControl_as_raw_def)

lemma writes_strings:
  "writes (TLVWrite_str t d) (tlv_bytes t (TLVValue_str d))"
  "writes (TLVWrite_utf8 t d) (tlv_bytes t (TLVValue_utf8 d))"
  using writes_raw_then writes_raw_then [of _ _ "[x]" for x]
  by (simp_all add: TLVWrite_str_def TLVWrite_stri_def TLVWrite_utf8_def TLVWrite_utf8i_def Let_def
      TLVValue_str_def TLVValue_utf8_def tlv_bytes_def tlv_len_bytes_def payload_def
      TLVValueType_variable_size_len_def to_le_bytes_len1 [simplified])

subsection \<open>Reading one element\<close>

definition wf_value :: "TLVValue \<Rightarrow> bool" where
  "wf_value v \<longleftrightarrow> (TLVValueType_is_utf8 (TLVValue_value_type v) \<longrightarrow> utf8_valid (payload v)) \<and>
     (TLVValueType_fixed_size (TLVValue_value_type v) = None \<longrightarrow>
        length (payload v) < 2 ^ (8 * TLVValueType_variable_size_len (TLVValue_value_type v)))"

definition ctl :: "TLVTag \<Rightarrow> TLVValue \<Rightarrow> TLVControl" where
  "ctl t v = TLVControl_new (TLVTag_tag_type t) (TLVValue_value_type v)"

lemma ctl_sel [simp]: "ctl_tag_type (ctl t v) = TLVTag_tag_type t"
  "ctl_value_type (ctl t v) = TLVValue_value_type v"
  by (simp_all add: ctl_def)

lemma from_le_bytes_len:
  assumes "8 * n = LENGTH('a::len)" "LENGTH('a) \<le> 64" "k < 2 ^ (8 * n)"
  shows "unat (from_le_bytes (to_le_bytes n (of_nat k :: u64)) :: 'a word) = k"
proof -
  have "(from_le_bytes (to_le_bytes n (of_nat k :: u64)) :: 'a word) = of_nat k"
    using assms to_le_bytes_of_nat [of n, where 'a = 'a, of k, symmetric] by (simp add: from_to_le_bytes)
  then show ?thesis using assms by (simp add: unat_of_nat)
qed

lemma tlv_control: "TLVSequence_control (tlv_bytes t v @ r) = Ok (ctl t v)"
  by (simp add: tlv_bytes_def as_raw_control ctl_def)

lemma tlv_value_len_start:
  "TLVSequence_value_len_start (TLVTag_tag_type t) (tlv_bytes t v @ r) = Ok (tlv_len_bytes v @ payload v @ r)"
  using get_append(2) [of "tag_bytes t" "tlv_len_bytes v @ payload v @ r"]
  by (simp add: tlv_bytes_def TLVSequence_value_len_start_def)

lemma tlv_value_start:
  "TLVSequence_value_start (ctl t v) (tlv_bytes t v @ r) = Ok (payload v @ r)"
  using get_append(2) [of "tlv_len_bytes v" "payload v @ r"]
  by (simp add: TLVSequence_value_start_def tlv_value_len_start)

lemma tlv_value_len:
  assumes "wf_value v"
  shows "TLVSequence_value_len (ctl t v) (tlv_bytes t v @ r) = Ok (length (payload v))"
proof (cases "TLVValueType_fixed_size (TLVValue_value_type v)")
  case None
  let ?n = "TLVValueType_variable_size_len (TLVValue_value_type v)"
  have g: "get_to ?n (tlv_len_bytes v @ payload v @ r) = Some (tlv_len_bytes v)"
    using get_append(1) [of "tlv_len_bytes v" "payload v @ r"] by simp
  have k: "length (payload v) < 2 ^ (8 * ?n)" using assms None by (simp add: wf_value_def)
  have n: "?n \<in> {1, 2, 4, 8}" using None
    by (cases v) (simp_all add: TLVValueType_fixed_size_def TLVValueType_variable_size_len_def)
  have r8: "?n = 1 \<Longrightarrow> unat (from_le_bytes (tlv_len_bytes v) :: u8) = length (payload v)"
    using k from_le_bytes_len [of 1 "length (payload v)", where 'a = 8] by (simp add: tlv_len_bytes_def)
  have r16: "?n = 2 \<Longrightarrow> unat (from_le_bytes (tlv_len_bytes v) :: u16) = length (payload v)"
    using k from_le_bytes_len [of 2 "length (payload v)", where 'a = 16] by (simp add: tlv_len_bytes_def)
  have r32: "?n = 4 \<Longrightarrow> unat (from_le_bytes (tlv_len_bytes v) :: u32) = length (payload v)"
    using k from_le_bytes_len [of 4 "length (payload v)", where 'a = 32] by (simp add: tlv_len_bytes_def)
  have r64: "?n = 8 \<Longrightarrow> unat (from_le_bytes (tlv_len_bytes v) :: u64) = length (payload v)"
    using k from_le_bytes_len [of 8 "length (payload v)", where 'a = 64] by (simp add: tlv_len_bytes_def)
  show ?thesis
    using n r8 r16 r32 r64 by (auto simp: TLVSequence_value_len_def None tlv_value_len_start g Let_def)
next
  case (Some n)
  then have "length (payload v) = n"
    by (cases v) (auto simp: TLVValueType_fixed_size_def payload_def)
  with Some show ?thesis by (simp add: TLVSequence_value_len_def)
qed

lemma tlv_value:
  assumes "wf_value v"
  shows "TLVSequence_value (ctl t v) (tlv_bytes t v @ r) = Ok (payload v)"
    "TLVSequence_next_start (ctl t v) (tlv_bytes t v @ r) = Ok r"
  by (simp_all add: TLVSequence_value_def TLVSequence_next_start_def tlv_value_len [OF assms] tlv_value_start)

lemma tlv_next_enter: "wf_value v \<Longrightarrow> TLVSequence_next_enter (tlv_bytes t v @ r) = Ok r"
  using tlv_value(2) [of v t r] tlv_control [of t v r]
  by (auto simp: TLVSequence_next_enter_def tlv_bytes_def)

lemma tlv_tag: "TLVElement_tag (tlv_bytes t v @ r) = Ok t"
proof -
  have g: "get_to (TLVTagType_size (TLVTag_tag_type t)) (tag_bytes t @ tlv_len_bytes v @ payload v @ r) =
      Some (tag_bytes t)"
    using get_append(1) [of "tag_bytes t" "tlv_len_bytes v @ payload v @ r"] by simp
  have s: "TLVSequence_tag_start (tlv_bytes t v @ r) = Ok (tag_bytes t @ tlv_len_bytes v @ payload v @ r)"
    by (simp add: tlv_bytes_def)
  have sp: "[to_le_bytes 2 x ! 0, to_le_bytes 2 x ! Suc 0] = to_le_bytes 2 x" for x :: u16
    by (simp add: to_le_bytes_def numeral_2_eq_2)
  have sp4: "[to_le_bytes 4 x ! 0, to_le_bytes 4 x ! Suc 0, to_le_bytes 4 x ! 2, to_le_bytes 4 x ! 3] =
      to_le_bytes 4 x" for x :: u32
    by (simp add: to_le_bytes_def eval_nat_numeral)
  show ?thesis
    by (cases t) (use g s in \<open>simp_all add: TLVElement_tag_def tlv_control Let_def nth_append sp sp4 del: from_le_bytes.simps\<close>)
qed

lemma parse_payload: "wf_value v \<Longrightarrow> parse_value (TLVValue_value_type v) (payload v) = Ok v"
  by (cases v) (auto simp: parse_value_def payload_def unwrap_array_def utf8_value_def from_utf8_def
      wf_value_def TLVValueType_is_utf8_def)

subsection \<open>Trees of elements\<close>

datatype tlv_tree = Leaf TLVTag TLVValue | Node TLVTag TLVValue "tlv_tree list"

fun enc :: "tlv_tree \<Rightarrow> bytes" where
  "enc (Leaf t v) = tlv_bytes t v"
| "enc (Node t v ts) = tlv_bytes t v @ concat (map enc ts) @ [0x18]"

abbreviation enc_all :: "tlv_tree list \<Rightarrow> bytes" where
  "enc_all ts \<equiv> concat (map enc ts)"

fun root_tag :: "tlv_tree \<Rightarrow> TLVTag" where
  "root_tag (Leaf t _) = t"
| "root_tag (Node t _ _) = t"

fun root_value :: "tlv_tree \<Rightarrow> TLVValue" where
  "root_value (Leaf _ v) = v"
| "root_value (Node _ v _) = v"

fun wf_tree :: "tlv_tree \<Rightarrow> bool" where
  "wf_tree (Leaf t v) \<longleftrightarrow> wf_value v \<and> \<not> TLVValueType_is_container (TLVValue_value_type v)"
| "wf_tree (Node t v ts) \<longleftrightarrow> v \<in> {Struct, Array, List} \<and> (\<forall>c \<in> set ts. wf_tree c)"

text \<open>Writing a tree with the operations of the writer.\<close>

fun write_tree :: "tlv_tree \<Rightarrow> (WriteBuf, unit) sr" where
  "write_tree (Leaf t v) = TLVWrite_tlv t v"
| "write_tree (Node t v ts) =
     sr_then (TLVWrite_start_container t (TLVValue_value_type v))
     (sr_then (sr_seq (map write_tree ts)) TLVWrite_end_container)"

lemma writes_seq: "(\<And>t. t \<in> set ts \<Longrightarrow> writes (f t) (g t)) \<Longrightarrow> writes (sr_seq (map f ts)) (concat (map g ts))"
  by (induction ts) (auto intro!: writes_nil writes_then)

lemma container_value [simp]: "v \<in> {Struct, Array, List} \<Longrightarrow> wf_value v"
  "v \<in> {Struct, Array, List} \<Longrightarrow> TLVValueType_is_container (TLVValue_value_type v)"
  "v \<in> {Struct, Array, List} \<Longrightarrow> \<not> TLVValueType_is_container_end (TLVValue_value_type v)"
  "v \<in> {Struct, Array, List} \<Longrightarrow> tlv_len_bytes v @ payload v = []"
  by (auto simp: wf_value_def tlv_defs tlv_len_bytes_def payload_def TLVValueType_variable_size_len_def
      TLVValueType_fixed_size_def to_le_bytes_def)

lemma writes_tree: "wf_tree t \<Longrightarrow> writes (write_tree t) (enc t)"
proof (induction t)
  case (Leaf t v)
  then show ?case by (simp add: writes_tlv)
next
  case (Node t v ts)
  then have v: "v \<in> {Struct, Array, List}" and ts: "\<And>c. c \<in> set ts \<Longrightarrow> writes (write_tree c) (enc c)"
    by auto
  have "writes (TLVWrite_start_container t (TLVValue_value_type v)) (tlv_bytes t v)"
    using writes_raw_nil container_value(4) [OF v]
    by (simp add: TLVWrite_start_container_def container_value(2) [OF v] tlv_bytes_def)
  then show ?case using writes_then [OF _ writes_then [OF writes_seq [OF ts] writes_end]] by simp
qed

text \<open>The first bytes of an encoded tree are those of its root.\<close>

definition enc_rest :: "tlv_tree \<Rightarrow> bytes" where
  "enc_rest t = (case t of Leaf _ _ \<Rightarrow> [] | Node _ _ ts \<Rightarrow> enc_all ts @ [0x18])"

lemma enc_root: "enc t = tlv_bytes (root_tag t) (root_value t) @ enc_rest t"
  by (cases t) (simp_all add: enc_rest_def)

lemma wf_root: "wf_tree t \<Longrightarrow> wf_value (root_value t)"
  "wf_tree t \<Longrightarrow> \<not> TLVValueType_is_container_end (TLVValue_value_type (root_value t))"
  by (cases t; auto simp: tlv_defs)+

lemma enc_nonempty [simp]: "enc t \<noteq> []" "tlv_bytes g v \<noteq> []"
  by (simp_all add: enc_root tlv_bytes_def)

lemma enc_control: "TLVSequence_control (enc t @ r) = Ok (ctl (root_tag t) (root_value t))"
  by (simp add: enc_root tlv_control)

lemma enc_next_enter: "wf_tree t \<Longrightarrow> TLVSequence_next_enter (enc t @ r) = Ok (enc_rest t @ r)"
  using tlv_next_enter [OF wf_root(1), of t] by (simp add: enc_root)

lemma enc_tag: "TLVElement_tag (enc t @ r) = Ok (root_tag t)"
  by (simp add: enc_root tlv_tag)

text \<open>The end marker.\<close>

lemma end_control: "TLVControl_parse 0x18 = Ok (TLVControl_new Anonymous_t EndCnt_t)"
  using as_raw_control [of "TLVControl_new Anonymous_t EndCnt_t"] by (simp add: TLVControl_as_raw_def)

lemma end_next_enter: "TLVSequence_next_enter (0x18 # r) = Ok r"
  by (simp add: TLVSequence_next_enter_def end_control TLVSequence_next_start_def TLVSequence_value_len_def
      TLVValueType_fixed_size_def TLVSequence_value_start_def TLVSequence_value_len_start_def
      TLVValueType_variable_size_len_def)

lemma end_level [simp]: "level_step (TLVControl_new Anonymous_t EndCnt_t) n = Ok (n - 1)"
  by (simp add: level_step_def tlv_defs TLVControl_confirm_container_end_def TLVControl_is_container_end_def)

subsubsection \<open>Skipping\<close>

lemma enc_all_length: "t \<in> set ts \<Longrightarrow> length (enc t) \<le> length (enc_all ts)"
  by (induction ts) auto

lemma skip_tree:
  "wf_tree t \<Longrightarrow> 0 < n \<Longrightarrow> n + length (enc t) < 2 ^ 31 \<Longrightarrow>
   container_next_loop (enc t @ r) n = container_next_loop r n"
proof (induction t arbitrary: n r)
  case (Leaf g v)
  then have "level_step (ctl g v) n = Ok n" by (simp add: level_step_def TLVValueType_is_container_def)
  with Leaf show ?case
    by (subst container_next_loop.simps) (simp add: tlv_control tlv_next_enter)
next
  case (Node g v ts)
  then have v: "v \<in> {Struct, Array, List}" by simp
  have step: "level_step (ctl g v) n = Ok (Suc n)"
    using Node.prems container_value(2,3) [OF v] by (simp add: level_step_def)
  have ts: "container_next_loop (enc_all us @ r') (Suc n) = container_next_loop r' (Suc n)"
    if "set us \<subseteq> set ts" for us r'
    using that
  proof (induction us arbitrary: r')
    case (Cons u us)
    then have u: "u \<in> set ts" by simp
    then have "Suc n + length (enc u) < 2 ^ 31"
      using Node.prems(3) enc_all_length [OF u] by (simp add: enc_root [of "Node g v ts"] enc_rest_def)
    with Node.IH [OF u] Node.prems u Cons show ?case by simp
  qed simp
  have "container_next_loop (enc (Node g v ts) @ r) n = container_next_loop (enc_all ts @ 0x18 # r) (Suc n)"
    using Node.prems tlv_next_enter [OF container_value(1) [OF v]]
    by (subst container_next_loop.simps) (simp add: tlv_control step)
  also have "\<dots> = container_next_loop (0x18 # r) (Suc n)" by (rule ts) simp
  also have "\<dots> = container_next_loop r n"
    by (subst container_next_loop.simps) (simp add: end_control end_next_enter)
  finally show ?case .
qed

lemma skip_trees:
  "\<forall>t \<in> set ts. wf_tree t \<Longrightarrow> 0 < n \<Longrightarrow> n + length (enc_all ts) < 2 ^ 31 \<Longrightarrow>
   container_next_loop (enc_all ts @ r) n = container_next_loop r n"
  by (induction ts arbitrary: r) (simp_all add: skip_tree)

lemma enc_container_next:
  assumes wf: "wf_tree t" and len: "length (enc t) < 2 ^ 31"
  shows "TLVSequence_container_next (enc t @ r) = Ok r"
proof (cases t)
  case (Leaf g v)
  then show ?thesis using wf enc_next_enter [OF wf, of r] enc_control [of t r]
    by (simp add: TLVSequence_container_next_def TLVValueType_is_container_def enc_rest_def)
next
  case (Node g v ts)
  with wf have v: "v \<in> {Struct, Array, List}" by simp
  have "container_next_loop (enc_all ts @ 0x18 # r) 1 = container_next_loop (0x18 # r) 1"
    using Node wf len by (intro skip_trees) (auto simp: enc_root [of "Node g v ts"] enc_rest_def)
  also have "\<dots> = Ok r"
    by (subst container_next_loop.simps) (simp add: end_control end_next_enter container_next_loop.simps)
  finally show ?thesis
    using Node wf enc_next_enter [OF wf, of r] enc_control [of t r] container_value(2,3) [OF v]
    by (simp add: TLVSequence_container_next_def enc_rest_def)
qed

subsubsection \<open>The value of an element\<close>

lemma length_tlv_bytes: "length (tlv_bytes t v) = 1 + TLVTagType_size (TLVTag_tag_type t) +
    TLVValueType_variable_size_len (TLVValue_value_type v) + length (payload v)"
  by (simp add: tlv_bytes_def)

lemma len_enc:
  assumes "wf_tree t" "length (enc t @ r) < 2 ^ 64"
  shows "TLVSequence_len (enc t @ r) = Ok (length (tlv_bytes (root_tag t) (root_value t)))"
  using assms tlv_value_len [OF wf_root(1), of t "root_tag t" "enc_rest t @ r"]
  by (simp add: TLVSequence_len_def enc_root tlv_control usize_add_def length_tlv_bytes)

lemma len_loop_step:
  assumes wf: "wf_tree t" and e: "TLVSequence_next_enter s = Ok (enc t @ r)"
    and l: "len + length (enc t @ r) < 2 ^ 64" and n: "0 < n"
  shows "container_value_len_loop s len n =
     res_bind (level_step (ctl (root_tag t) (root_value t)) n)
       (container_value_len_loop (enc t @ r) (len + length (tlv_bytes (root_tag t) (root_value t))))"
proof -
  have a: "TLVSequence_len (enc t @ r) = Ok (length (tlv_bytes (root_tag t) (root_value t)))"
    using l by (intro len_enc wf) simp
  have b: "usize_add len (length (tlv_bytes (root_tag t) (root_value t))) =
      Ok (len + length (tlv_bytes (root_tag t) (root_value t)))"
    using l by (simp add: usize_add_def enc_root)
  show ?thesis using n
    by (subst container_value_len_loop.simps) (simp add: e a b enc_control)
qed

lemma len_end:
  assumes "TLVSequence_next_enter s = Ok (0x18 # r)" "len + 1 < 2 ^ 64"
  shows "container_value_len_loop s len (Suc n) = container_value_len_loop (0x18 # r) (len + 1) n"
proof -
  have "TLVSequence_len (0x18 # r) = Ok 1"
    by (simp add: TLVSequence_len_def end_control TLVSequence_value_len_def TLVValueType_fixed_size_def
        TLVValueType_variable_size_len_def usize_add_def)
  then show ?thesis using assms(2)
    by (subst container_value_len_loop.simps) (simp add: assms(1) end_control usize_add_def)
qed

text \<open>
  The length loop keeps the last element it looked at; after a whole tree it has added the
  length of the tree and stands on an element after which the rest begins.
\<close>

lemma len_tree:
  "wf_tree t \<Longrightarrow> 0 < n \<Longrightarrow> n + length (enc t) < 2 ^ 31 \<Longrightarrow> len + length (enc t @ r) < 2 ^ 64 \<Longrightarrow>
   TLVSequence_next_enter s = Ok (enc t @ r) \<Longrightarrow>
   \<exists>s'. TLVSequence_next_enter s' = Ok r \<and>
     container_value_len_loop s len n = container_value_len_loop s' (len + length (enc t)) n"
proof (induction t arbitrary: n r s len)
  case (Leaf g v)
  then have step: "level_step (ctl g v) n = Ok n" by (simp add: level_step_def TLVValueType_is_container_def)
  from len_loop_step [of "Leaf g v" s r len n] Leaf step
  show ?case by (intro exI [of _ "enc (Leaf g v) @ r"]) (simp add: tlv_next_enter)
next
  case (Node g v ts)
  then have v: "v \<in> {Struct, Array, List}" by simp
  have step: "level_step (ctl g v) n = Ok (Suc n)"
    using Node.prems container_value(2,3) [OF v] by (simp add: level_step_def)
  let ?e = "enc (Node g v ts) @ r" and ?l0 = "len + length (tlv_bytes g v)"
  have ts: "\<exists>s'. TLVSequence_next_enter s' = Ok r' \<and>
      container_value_len_loop s len (Suc n) = container_value_len_loop s' (len + length (enc_all us)) (Suc n)"
    if "set us \<subseteq> set ts" "TLVSequence_next_enter s = Ok (enc_all us @ r')"
      "len + length (enc_all us @ r') < 2 ^ 64" for us s r' len
    using that
  proof (induction us arbitrary: s r' len)
    case (Cons u us)
    then have u: "u \<in> set ts" by simp
    then have b: "Suc n + length (enc u) < 2 ^ 31"
      using Node.prems(3) enc_all_length [OF u] by (simp add: enc_root [of "Node g v ts"] enc_rest_def)
    have "\<exists>s'. TLVSequence_next_enter s' = Ok (enc_all us @ r') \<and>
        container_value_len_loop s len (Suc n) = container_value_len_loop s' (len + length (enc u)) (Suc n)"
      using Cons.prems Node.prems u by (intro Node.IH [OF u] b) auto
    then obtain s' where s': "TLVSequence_next_enter s' = Ok (enc_all us @ r')"
        "container_value_len_loop s len (Suc n) = container_value_len_loop s' (len + length (enc u)) (Suc n)"
      by blast
    with Cons.IH [of s' r' "len + length (enc u)"] Cons.prems show ?case by (simp add: add.assoc)
  qed auto
  have "container_value_len_loop s len n = container_value_len_loop ?e ?l0 (Suc n)"
    using len_loop_step [of "Node g v ts" s r len n] Node.prems by (simp add: step)
  moreover have "TLVSequence_next_enter ?e = Ok (enc_all ts @ 0x18 # r)"
    using enc_next_enter [of "Node g v ts" r] Node.prems by (simp add: enc_rest_def)
  ultimately obtain s' where s': "TLVSequence_next_enter s' = Ok (0x18 # r)"
      "container_value_len_loop s len n = container_value_len_loop s' (?l0 + length (enc_all ts)) (Suc n)"
    using ts [of ts ?e "0x18 # r" ?l0] Node.prems(4) by auto
  then have "container_value_len_loop s len n =
      container_value_len_loop (0x18 # r) (len + length (enc (Node g v ts))) n"
    using len_end [OF s'(1), of "?l0 + length (enc_all ts)" n] Node.prems(4) by (simp add: add.assoc)
  then show ?case by (intro exI [of _ "0x18 # r"]) (simp add: end_next_enter)
qed

lemma len_trees:
  "\<forall>t \<in> set ts. wf_tree t \<Longrightarrow> 0 < n \<Longrightarrow> n + length (enc_all ts) < 2 ^ 31 \<Longrightarrow>
   len + length (enc_all ts @ r) < 2 ^ 64 \<Longrightarrow> TLVSequence_next_enter s = Ok (enc_all ts @ r) \<Longrightarrow>
   \<exists>s'. TLVSequence_next_enter s' = Ok r \<and>
     container_value_len_loop s len n = container_value_len_loop s' (len + length (enc_all ts)) n"
proof (induction ts arbitrary: s len)
  case (Cons u us)
  then have "\<exists>s'. TLVSequence_next_enter s' = Ok (enc_all us @ r) \<and>
      container_value_len_loop s len n = container_value_len_loop s' (len + length (enc u)) n"
    by (intro len_tree) auto
  then obtain s' where "TLVSequence_next_enter s' = Ok (enc_all us @ r)"
      "container_value_len_loop s len n = container_value_len_loop s' (len + length (enc u)) n" by blast
  with Cons.IH [of "len + length (enc u)" s'] Cons.prems show ?case by (simp add: add.assoc)
qed auto

text \<open>The raw value of a container is its children with the end marker.\<close>

lemma enc_container_value:
  assumes wf: "wf_tree t" and len: "length (enc t) < 2 ^ 31" "length (enc t @ r) < 2 ^ 64"
  shows "TLVSequence_container_value (ctl (root_tag t) (root_value t)) (enc t @ r) =
    Ok (case t of Leaf _ v \<Rightarrow> payload v | Node _ _ ts \<Rightarrow> enc_all ts @ [0x18])"
proof (cases t)
  case (Leaf g v)
  then show ?thesis using wf tlv_value_len [of v g r] tlv_value_start [of g v r]
    by (simp add: TLVSequence_container_value_def TLVSequence_container_value_len_def)
next
  case (Node g v ts)
  with wf have v: "v \<in> {Struct, Array, List}" by simp
  have "TLVSequence_next_enter (enc t @ r) = Ok (enc_all ts @ 0x18 # r)"
    using enc_next_enter [OF wf, of r] Node by (simp add: enc_rest_def)
  moreover have "length (enc_all ts) + 2 \<le> length (enc t)"
    using Node by (cases "tlv_bytes g v") auto
  ultimately obtain s' where s': "TLVSequence_next_enter s' = Ok (0x18 # r)"
      "container_value_len_loop (enc t @ r) 0 1 = container_value_len_loop s' (length (enc_all ts)) 1"
    using len_trees [of ts 1 0 "0x18 # r" "enc t @ r"] wf Node len by auto
  have "container_value_len_loop (enc t @ r) 0 1 = Ok (length (enc_all ts @ [0x18]))"
    using len_end [OF s'(1), of "length (enc_all ts)" 0] s'(2) \<open>length (enc_all ts) + 2 \<le> length (enc t)\<close> len
    by (simp add: container_value_len_loop.simps)
  moreover have "payload v = []" "tlv_len_bytes v = []" using container_value(4) [OF v] by auto
  ultimately show ?thesis
    using Node container_value(2) [OF v] tlv_value_start [of g v "enc_all ts @ 0x18 # r"]
      get_append(1) [of "enc_all ts @ [0x18]" r]
    by (simp add: TLVSequence_container_value_def TLVSequence_container_value_len_def)
qed

lemma parse_container: "v \<in> {Struct, Array, List} \<Longrightarrow> parse_value (TLVValue_value_type v) b = Ok v"
  by (auto simp: parse_value_def)

lemma enc_value:
  assumes wf: "wf_tree t" and len: "length (enc t) < 2 ^ 31" "length (enc t @ r) < 2 ^ 64"
  shows "TLVElement_value (enc t @ r) = Ok (root_value t)"
  using enc_container_value [OF assms] wf
  by (cases t) (use enc_control [of t r] parse_container in \<open>auto simp: TLVElement_value_def parse_payload\<close>)

subsection \<open>Reading sequences\<close>

text \<open>What follows the elements of a sequence: the end of the slice, or the end of the container.\<close>

definition seq_end :: "bytes \<Rightarrow> bool" where
  "seq_end r \<longleftrightarrow> r = [] \<or> hd r = 0x18"

lemma seq_end_iter: "seq_end r \<Longrightarrow> TLVSequence_current r = Ok [] \<and> TLVSequence_container_next r = Ok r"
  by (cases r) (auto simp: seq_end_def TLVSequence_current_def TLVSequence_container_next_def end_control
      tlv_defs TLVControl_confirm_container_end_def TLVControl_is_container_end_def)

lemma seq_end_next: "seq_end r \<Longrightarrow> TLVSequenceIter_next r = (Ok None, r)"
  by (simp add: iter_next_ok seq_end_iter)

lemma enc_current: "wf_tree t \<Longrightarrow> TLVSequence_current (enc t @ r) = Ok (enc t @ r)"
  by (simp add: TLVSequence_current_def enc_control wf_root)

lemma enc_iter_next:
  assumes "wf_tree t" "length (enc t) < 2 ^ 31"
  shows "TLVSequenceIter_next (enc t @ r) = (Ok (Some (enc t @ r)), r)"
  using assms by (simp add: iter_next_ok enc_current enc_container_next)

text \<open>The suffixes of the encoding at which its elements start.\<close>

fun element_slices :: "tlv_tree list \<Rightarrow> bytes \<Rightarrow> bytes list" where
  "element_slices [] r = []"
| "element_slices (t # ts) r = (enc t @ enc_all ts @ r) # element_slices ts r"

lemma enc_elements:
  "\<forall>t \<in> set ts. wf_tree t \<Longrightarrow> length (enc_all ts) < 2 ^ 31 \<Longrightarrow> seq_end r \<Longrightarrow>
   TLVSequence_elements (enc_all ts @ r) = Ok (element_slices ts r)"
proof (induction ts)
  case Nil
  then show ?case by (simp add: TLVSequence_elements.simps seq_end_next)
next
  case (Cons t ts)
  then show ?case by (subst TLVSequence_elements.simps) (simp add: enc_iter_next)
qed

subsubsection \<open>Reading a whole tree\<close>

lemma elements_length:
  "TLVSequence_elements s = Ok es \<Longrightarrow> e \<in> set es \<Longrightarrow> length e \<le> length s"
proof (induction s arbitrary: es e rule: TLVSequence_elements.induct)
  case (1 s)
  from 1(2) show ?case
  proof (cases "TLVSequenceIter_next s")
    case (Pair res s')
    show ?thesis
    proof (cases res)
      case (Ok o')
      show ?thesis
      proof (cases o')
        case None
        with 1(2,3) Pair Ok show ?thesis by (subst (asm) TLVSequence_elements.simps) simp
      next
        case (Some e')
        with Pair Ok have n: "TLVSequenceIter_next s = (Ok (Some e'), s')" by simp
        then obtain es' where es: "TLVSequence_elements s' = Ok es'" "es = e' # es'"
          using 1(2) by (subst (asm) TLVSequence_elements.simps) (auto simp: res_bind_ok_iff)
        have "e' = s" "length s' < length s"
          using n iter_next_ok(1) [of s e' s'] current_ok [of s e'] iter_next_shorter by force+
        with 1(1) [OF n [symmetric] refl refl es(1), of e] 1(3) es show ?thesis by auto
      qed
    qed (use 1(2) Pair in \<open>subst (asm) TLVSequence_elements.simps; simp\<close>)+
  qed
qed

lemma container_shorter: "TLVElement_container e = Ok s \<Longrightarrow> length s < length e"
  by (auto simp: TLVElement_container_def res_bind_ok_iff split: if_splits
      dest: control_nonempty next_enter_shorter)

text \<open>The traversal of \<^verbatim>\<open>TLVElement::fmt\<close>, with the tree it prints as its result.\<close>

function TLVElement_fmt_tree :: "TLVElement \<Rightarrow> tlv_tree res" where
  "TLVElement_fmt_tree e = res_bind (TLVElement_tag e) (\<lambda>t.
     res_bind (TLVElement_value e) (\<lambda>v.
       if TLVValueType_is_container (TLVValue_value_type v)
       then res_bind (TLVElement_container e) (\<lambda>s.
         res_bind (TLVSequence_elements s) (\<lambda>es.
         res_bind (res_mapM TLVElement_fmt_tree es) (\<lambda>ts. Ok (Node t v ts))))
       else Ok (Leaf t v)))"
  by pat_completeness auto

termination TLVElement_fmt_tree
  by (relation "measure length") (use elements_length container_shorter in \<open>auto, fastforce\<close>)

declare TLVElement_fmt_tree.simps [simp del]

lemma enc_container:
  assumes wf: "wf_tree (Node g v ts)"
  shows "TLVElement_container (enc (Node g v ts) @ r) = Ok (enc_all ts @ 0x18 # r)"
  using enc_next_enter [OF wf, of r] wf enc_control [of "Node g v ts" r]
  by (auto simp: TLVElement_container_def enc_rest_def)

lemma mapM_slices:
  "(\<And>t r'. t \<in> set ts \<Longrightarrow> length (enc t @ r') \<le> length (enc_all ts @ r) \<Longrightarrow> f (enc t @ r') = Ok t) \<Longrightarrow>
   res_mapM f (element_slices ts r) = Ok ts"
  by (induction ts) auto

lemma fmt_enc:
  "wf_tree t \<Longrightarrow> length (enc t) < 2 ^ 31 \<Longrightarrow> length (enc t @ r) < 2 ^ 64 \<Longrightarrow>
   TLVElement_fmt_tree (enc t @ r) = Ok t"
proof (induction t arbitrary: r)
  case (Leaf g v)
  then show ?case using enc_tag [of "Leaf g v" r] enc_value [of "Leaf g v" r]
    by (subst TLVElement_fmt_tree.simps) simp
next
  case (Node g v ts)
  then have v: "v \<in> {Struct, Array, List}" by simp
  have le: "length (enc_all ts) < 2 ^ 31" using Node.prems by simp
  have e: "TLVSequence_elements (enc_all ts @ 0x18 # r) = Ok (element_slices ts (0x18 # r))"
    using Node.prems le by (intro enc_elements) (auto simp: seq_end_def)
  have "res_mapM TLVElement_fmt_tree (element_slices ts (0x18 # r)) = Ok ts"
  proof (rule mapM_slices)
    fix t r' assume t: "t \<in> set ts" and "length (enc t @ r') \<le> length (enc_all ts @ 0x18 # r)"
    then show "TLVElement_fmt_tree (enc t @ r') = Ok t"
      using Node.prems le enc_all_length [OF t] by (intro Node.IH [OF t]) auto
  qed
  then show ?case
    using enc_tag [of "Node g v ts" r] enc_value [OF Node.prems] enc_container [OF Node.prems(1), of r] e
      container_value(2) [OF v]
    by (subst TLVElement_fmt_tree.simps) simp
qed

text \<open>
  Claim C6: a tree of elements (structures, arrays and lists nested to any depth, with tags of
  all kinds and values of all types) that is written with the operations of the writer is read back
  as the same tree by the traversal of the reader, whatever follows it in the slice, and skipping the
  element leads exactly to what follows it.
\<close>

theorem tlv_tree_roundtrip:
  assumes "wf_tree t" "WriteBuf_inv w" "length (enc t) \<le> WriteBuf_room w" "WriteBuf_room w < 2 ^ 31"
    "length r < 2 ^ 63"
  shows "\<exists>w' bs. write_tree t w = (Ok (), w') \<and> WriteBuf_inv w' \<and>
    WriteBuf_view w' = WriteBuf_view w @ bs \<and> TLVElement_fmt_tree (bs @ r) = Ok t \<and>
    TLVSequence_container_next (bs @ r) = Ok r"
proof -
  obtain w' where "write_tree t w = (Ok (), w')" "WriteBuf_inv w'" "WriteBuf_view w' = WriteBuf_view w @ enc t"
    using writes_ok [OF writes_tree [OF assms(1)] assms(2,3)] by blast
  moreover have "TLVElement_fmt_tree (enc t @ r) = Ok t" "TLVSequence_container_next (enc t @ r) = Ok r"
    using assms by (auto intro!: fmt_enc enc_container_next)
  ultimately show ?thesis by blast
qed

definition demo_tree :: tlv_tree where
  "demo_tree = Node Anonymous Struct [Leaf (Context 0) (U16 500),
     Node (Context 1) Array [Leaf Anonymous (Utf8l [0x68, 0x69]), Node Anonymous List []],
     Leaf (FullQual48 1 2 3) TLVTrue]"

definition demo_buf :: WriteBuf where
  "demo_buf = WriteBuf_new (replicate 64 0)"

lemma demo_tree_ok: "wf_tree demo_tree" "length (enc demo_tree) = 22"
  by (simp_all add: demo_tree_def wf_value_def tlv_defs TLVValueType_fixed_size_def payload_def
      TLVValueType_variable_size_len_def length_tlv_bytes)

lemma demo_buf_ok: "WriteBuf_inv demo_buf" "WriteBuf_room demo_buf = 64" "WriteBuf_view demo_buf = []"
  by (simp_all add: demo_buf_def WriteBuf_new_inv)

theorem tlv_tree_roundtrip_witness:
  "\<exists>w' bs. write_tree demo_tree demo_buf = (Ok (), w') \<and> WriteBuf_view w' = bs \<and>
     TLVElement_fmt_tree (bs @ [0x18]) = Ok demo_tree"
  using tlv_tree_roundtrip [OF demo_tree_ok(1) demo_buf_ok(1), of "[0x18]"] demo_tree_ok(2) demo_buf_ok(2,3)
  by auto

text \<open>
  When the element does not fit, the writer says so; it has then written exactly the part
  that did fit, and the buffer is full.
\<close>

theorem tlv_write_no_space:
  assumes "wf_tree t" "WriteBuf_inv w" "WriteBuf_room w < length (enc t)"
  shows "\<exists>w'. write_tree t w = (Err NoSpace, w') \<and> WriteBuf_inv w' \<and> WriteBuf_room w' = 0 \<and>
    WriteBuf_view w' = WriteBuf_view w @ take (WriteBuf_room w) (enc t)"
  using writes_tree [OF assms(1)] append_upto_keeps [OF assms(2), of "enc t"] assms(2,3)
  by (auto simp: writes_def)

theorem tlv_write_no_space_witness:
  "\<exists>w'. write_tree demo_tree (WriteBuf_new (replicate 10 0)) = (Err NoSpace, w') \<and>
     WriteBuf_view w' = take 10 (enc demo_tree)"
  using tlv_write_no_space [OF demo_tree_ok(1) WriteBuf_new_inv [of "replicate 10 0"]] demo_tree_ok(2) by auto

end
