(* ===== verification/Tlv_Lookup.thy ===== *)
theory Tlv_Lookup
  imports Tlv_Codec
begin

section \<open>Safety of the TLV reader, and looking up fields\<close>

text \<open>
  The reader runs on bytes that come from the network. Its accessors, its iterator and its lookups
  neither panic nor run forever on any slice; the exception, the length of a container, is shown
  at the end. On well-formed structures the two lookups of a context tag, \<^verbatim>\<open>find_ctx\<close> from the start
  and \<^verbatim>\<open>scan_ctx\<close> from the last position, are compared.
\<close>

subsection \<open>No panic on any slice\<close>

lemma control_no_panic: "TLVSequence_control s \<noteq> Panic"
  using parse_control_cases by (cases s) (auto simp: TLVSequence_control_def, metis res.distinct(3,5))

lemma value_len_start_no_panic: "s \<noteq> [] \<Longrightarrow> TLVSequence_value_len_start tt s \<noteq> Panic"
  by (cases s) (simp_all add: TLVSequence_value_len_start_def res_ok_or_eq)

lemma value_start_no_panic: "s \<noteq> [] \<Longrightarrow> TLVSequence_value_start c s \<noteq> Panic"
  by (simp add: TLVSequence_value_start_def res_bind_panic_iff value_len_start_no_panic res_ok_or_eq)

lemma value_len_no_panic: "s \<noteq> [] \<Longrightarrow> TLVSequence_value_len c s \<noteq> Panic"
  by (cases "ctl_value_type c")
    (simp_all add: TLVSequence_value_len_def TLVValueType_fixed_size_def TLVValueType_variable_size_len_def
      Let_def res_bind_panic_iff value_len_start_no_panic res_ok_or_eq)

lemma value_no_panic: "s \<noteq> [] \<Longrightarrow> TLVSequence_value c s \<noteq> Panic"
  by (simp add: TLVSequence_value_def res_bind_panic_iff value_len_no_panic value_start_no_panic res_ok_or_eq)

lemma next_enter_no_panic: "TLVSequence_next_enter s \<noteq> Panic"
  by (simp add: TLVSequence_next_enter_def TLVSequence_next_start_def res_bind_panic_iff control_no_panic
      value_len_no_panic value_start_no_panic res_ok_or_eq)

lemma confirm_no_panic: "TLVControl_confirm_container_end c \<noteq> Panic"
  by (simp add: TLVControl_confirm_container_end_def)

lemma level_step_no_panic: "n + 1 < 2 ^ 31 \<Longrightarrow> level_step c n \<noteq> Panic"
  by (simp add: level_step_def res_bind_panic_iff confirm_no_panic)

lemma level_step_le: "level_step c n = Ok m \<Longrightarrow> m \<le> n + 1"
  by (auto simp: level_step_def res_bind_ok_iff split: if_splits)

lemma container_next_loop_no_panic: "n + length s < 2 ^ 31 \<Longrightarrow> container_next_loop s n \<noteq> Panic"
proof (induction s n rule: container_next_loop.induct)
  case (1 s n)
  show ?case
  proof
    assume p: "container_next_loop s n = Panic"
    then have n: "n \<noteq> 0" using container_next_loop.simps [of s 0] by (cases "n = 0") auto
    show False
    proof (cases "TLVSequence_control s")
      case (Ok c)
      then have s: "s \<noteq> []" by (rule control_nonempty)
      then have "n + 1 < 2 ^ 31" using 1(2) by (cases s) auto
      then have l: "level_step c n \<noteq> Panic" by (rule level_step_no_panic)
      from p n Ok l obtain m t where mt: "level_step c n = Ok m" "TLVSequence_next_enter s = Ok t"
          "container_next_loop t m = Panic"
        by (subst (asm) container_next_loop.simps) (auto simp: res_bind_panic_iff next_enter_no_panic)
      have "m + length t < 2 ^ 31"
        using level_step_le [OF mt(1)] next_enter_shorter [OF mt(2) s] 1(2) by linarith
      with 1(1) [OF n Ok mt(1,2)] mt(3) show False by blast
    qed (use p n in \<open>subst (asm) container_next_loop.simps; simp add: control_no_panic\<close>)+
  qed
qed

lemma container_next_no_panic: "length s < 2 ^ 31 \<Longrightarrow> TLVSequence_container_next s \<noteq> Panic"
proof
  assume l: "length s < 2 ^ 31" and p: "TLVSequence_container_next s = Panic"
  then obtain t where t: "TLVSequence_next_enter s = Ok t" "container_next_loop t 1 = Panic" "s \<noteq> []"
    by (auto simp: TLVSequence_container_next_def res_bind_panic_iff control_no_panic confirm_no_panic
        next_enter_no_panic split: if_splits)
  with next_enter_shorter [OF t(1,3)] l container_next_loop_no_panic [of 1 t] show False by simp
qed

lemma current_no_panic: "TLVSequence_current s \<noteq> Panic"
  by (simp add: TLVSequence_current_def res_bind_panic_iff control_no_panic confirm_no_panic)

lemma iter_next_no_panic: "length s < 2 ^ 31 \<Longrightarrow> TLVSequenceIter_next s \<noteq> (Panic, s')"
  using container_next_no_panic [of s] current_no_panic [of s]
  by (cases "TLVSequence_current s"; cases "TLVSequence_container_next s")
    (auto simp: TLVSequenceIter_next_def TLVSequenceIter_advance_def sr_bind_def sr_simps)

text \<open>What one call of the iterator can do on a slice of realistic size.\<close>

lemma iter_next_cases:
  assumes "length s < 2 ^ 31"
  obtains (none) s' where "TLVSequenceIter_next s = (Ok None, s')"
    | (some) e s' where "TLVSequenceIter_next s = (Ok (Some e), s')" "e \<noteq> []" "length s' < length s" "e = s"
    | (err) c s' where "TLVSequenceIter_next s = (Err c, s')"
proof -
  obtain r s' where rs: "TLVSequenceIter_next s = (r, s')" by (cases "TLVSequenceIter_next s")
  show ?thesis
  proof (cases r)
    case (Ok o')
    show ?thesis
    proof (cases o')
      case (Some e)
      with Ok rs have "TLVSequenceIter_next s = (Ok (Some e), s')" by simp
      then show ?thesis
        using some iter_next_ok(1) [of s e s'] current_ok [of s e] iter_next_shorter [of e s' s] by metis
    qed (use Ok rs none in auto)
  qed (use rs err iter_next_no_panic [OF assms] in auto)
qed

lemma elements_no_panic: "length s < 2 ^ 31 \<Longrightarrow> TLVSequence_elements s \<noteq> Panic"
proof (induction s rule: TLVSequence_elements.induct)
  case (1 s)
  from 1(2) show ?case
  proof (cases rule: iter_next_cases)
    case (some e s')
    with 1(1) [OF some(1) [symmetric] refl refl] 1(2) show ?thesis
      by (subst TLVSequence_elements.simps) (simp add: res_bind_panic_iff)
  qed (subst TLVSequence_elements.simps; simp)+
qed

lemma tag_slice_no_panic: "TLVSequence_tag tt s \<noteq> Panic"
  by (simp add: TLVSequence_tag_def TLVSequence_tag_start_def res_bind_panic_iff res_ok_or_eq)

lemma try_ctx_no_panic: "TLVElement_try_ctx e \<noteq> Panic"
  by (simp add: TLVElement_try_ctx_def res_bind_panic_iff control_no_panic tag_slice_no_panic res_ok_or_eq)

lemma find_ctx_no_panic: "length s < 2 ^ 31 \<Longrightarrow> TLVSequence_find_ctx c s \<noteq> Panic"
proof (induction c s rule: TLVSequence_find_ctx.induct)
  case (1 c s)
  from 1(2) show ?case
  proof (cases rule: iter_next_cases)
    case (some e s')
    with 1(1) [OF some(1) [symmetric] refl refl] 1(2) show ?thesis
      by (subst TLVSequence_find_ctx.simps) (auto simp: res_bind_panic_iff try_ctx_no_panic)
  qed (subst TLVSequence_find_ctx.simps; simp)+
qed

text \<open>The scan for a context tag ends: its closure returns a result for the empty element.\<close>

lemma scan_ctx_returns:
  "length s < 2 ^ 31 \<Longrightarrow> \<exists>x s'. TLVSequence_scan_ctx c s = Some (x, s') \<and> x \<noteq> Panic"
proof (induction "length s" arbitrary: s rule: less_induct)
  case less
  show ?case
  proof (cases "TLVSequence_current s")
    case (Ok e)
    note cur = Ok
    show ?thesis
    proof (cases "scan_ctx_closure c e")
      case (Ok r)
      show ?thesis
      proof (cases r)
        case None
        with Ok have e: "e \<noteq> []" by (auto simp: scan_ctx_closure_def)
        show ?thesis
        proof (cases "TLVSequence_container_next s")
          case (Ok t)
          with container_next_shorter [OF cur e Ok] less have
            "\<exists>x s'. TLVSequence_scan_ctx c t = Some (x, s') \<and> x \<noteq> Panic" by force
          with Ok cur None \<open>scan_ctx_closure c e = Ok r\<close> show ?thesis
            by (simp add: TLVSequence_scan_ctx_def TLVSequence_scan_map.simps [of _ s])
        qed (use cur None \<open>scan_ctx_closure c e = Ok r\<close> container_next_no_panic [OF less(2)] in
          \<open>simp_all add: TLVSequence_scan_ctx_def TLVSequence_scan_map.simps [of _ s]\<close>)
      qed (use cur Ok in \<open>simp add: TLVSequence_scan_ctx_def TLVSequence_scan_map.simps [of _ s]\<close>)
    next
      case Panic
      then have "TLVElement_try_ctx e = Panic"
        by (auto simp: scan_ctx_closure_def res_bind_panic_iff split: option.splits if_splits)
      then show ?thesis using try_ctx_no_panic by blast
    qed (use cur in \<open>simp add: TLVSequence_scan_ctx_def TLVSequence_scan_map.simps [of _ s]\<close>)
  qed (use current_no_panic [of s] in \<open>simp_all add: TLVSequence_scan_ctx_def TLVSequence_scan_map.simps [of _ s]\<close>)
qed

lemma array_no_panic: "array_or_invalid n b \<noteq> Panic"
  by (simp add: array_or_invalid_def)

lemma value_no_panic': "TLVSequence_control s = Ok c \<Longrightarrow> TLVSequence_value c s \<noteq> Panic"
  by (rule value_no_panic) (rule control_nonempty)

lemmas no_panic_simps = res_bind_panic_iff control_no_panic value_no_panic' array_no_panic res_ok_or_eq
  next_enter_no_panic try_ctx_no_panic

lemma ints_no_panic:
  "TLVElement_u8 e \<noteq> Panic" "TLVElement_u16 e \<noteq> Panic" "TLVElement_u32 e \<noteq> Panic" "TLVElement_u64 e \<noteq> Panic"
  "TLVElement_i8 e \<noteq> Panic" "TLVElement_i16 e \<noteq> Panic" "TLVElement_i32 e \<noteq> Panic" "TLVElement_i64 e \<noteq> Panic"
proof -
  show u8: "TLVElement_u8 e \<noteq> Panic" by (auto simp: TLVElement_u8_def no_panic_simps split: if_splits)
  show u16: "TLVElement_u16 e \<noteq> Panic" by (auto simp: TLVElement_u16_def no_panic_simps u8 split: if_splits)
  show u32: "TLVElement_u32 e \<noteq> Panic" by (auto simp: TLVElement_u32_def no_panic_simps u16 split: if_splits)
  show "TLVElement_u64 e \<noteq> Panic" by (auto simp: TLVElement_u64_def no_panic_simps u32 split: if_splits)
  show i8: "TLVElement_i8 e \<noteq> Panic" by (auto simp: TLVElement_i8_def no_panic_simps split: if_splits)
  show i16: "TLVElement_i16 e \<noteq> Panic" by (auto simp: TLVElement_i16_def no_panic_simps i8 split: if_splits)
  show i32: "TLVElement_i32 e \<noteq> Panic" by (auto simp: TLVElement_i32_def no_panic_simps i16 split: if_splits)
  show "TLVElement_i64 e \<noteq> Panic" by (auto simp: TLVElement_i64_def no_panic_simps i32 split: if_splits)
qed

lemma strings_no_panic:
  "TLVElement_str e \<noteq> Panic" "TLVElement_utf8 e \<noteq> Panic" "TLVElement_octets e \<noteq> Panic"
  "TLVElement_bool e \<noteq> Panic" "TLVElement_f32 e \<noteq> Panic" "TLVElement_f64 e \<noteq> Panic" "TLVElement_null e \<noteq> Panic"
  by (auto simp: TLVElement_str_def TLVElement_utf8_def TLVElement_octets_def TLVElement_bool_def
      TLVElement_f32_def TLVElement_f64_def TLVElement_null_def no_panic_simps
      split: if_splits TLVValueType.splits)

lemma containers_no_panic:
  "TLVElement_struct e \<noteq> Panic" "TLVElement_array e \<noteq> Panic" "TLVElement_list e \<noteq> Panic"
  "TLVElement_container e \<noteq> Panic" "TLVElement_tag e \<noteq> Panic" "TLVElement_ctx e \<noteq> Panic"
  by (auto simp: TLVElement_struct_def TLVElement_array_def TLVElement_list_def TLVElement_container_def
      TLVElement_tag_def TLVElement_ctx_def TLVSequence_tag_start_def Let_def no_panic_simps split: if_splits)



subsection \<open>Where the reader misbehaves\<close>

lemmas reader_defs = TLVSequence_len_def TLVSequence_value_len_def TLVSequence_value_len_start_def
  TLVSequence_value_start_def TLVSequence_next_enter_def TLVSequence_next_start_def
  TLVSequence_container_value_def TLVSequence_container_value_len_def TLVSequence_current_def
  TLVValueType_fixed_size_def TLVValueType_variable_size_len_def tlv_defs level_step_def get_to_def get_from_def

lemma parse_examples:
  "TLVControl_parse 0x04 = Ok (TLVControl_new Anonymous_t U8_t)"
  "TLVControl_parse 0x13 = Ok (TLVControl_new Anonymous_t Str64l_t)"
  "TLVControl_parse 0x15 = Ok (TLVControl_new Anonymous_t Struct_t)"
  by (simp_all add: parse_control_iff TLVControl_as_raw_def)

text \<open>
  The exception. The value of a container is delimited by adding up the lengths its
  elements claim, before they are compared with the slice: ten bytes, a structure with one octet
  string that claims the greatest 64-bit length, overflow the sum.
\<close>

theorem tlv_value_overflow:
  "TLVElement_value [0x15, 0x13, 0xff, 0xff, 0xff, 0xff, 0xff, 0xff, 0xff, 0xff] = Panic"
proof -
  let ?t = "[0x13, 0xff, 0xff, 0xff, 0xff, 0xff, 0xff, 0xff, 0xff] :: bytes"
  have enter: "TLVSequence_next_enter (0x15 # ?t) = Ok ?t"
    by (simp add: reader_defs parse_examples)
  have "TLVSequence_len ?t = Panic"
    by (simp add: reader_defs parse_examples Let_def usize_add_def)
  then have "container_value_len_loop (0x15 # ?t) 0 1 = Panic"
    by (subst container_value_len_loop.simps) (simp add: enter)
  then show ?thesis
    by (simp add: TLVElement_value_def parse_examples TLVSequence_container_value_def
        TLVSequence_container_value_len_def tlv_defs)
qed

text \<open>
  The flattening iterator \<^verbatim>\<open>tlv_iter\<close> does not deliver what it promises. On the content of a
  structure with the single element \<open>5\<close> it underflows its nesting counter instead of returning the
  element, and on the same content without end marker it returns an error instead of the element.
\<close>

theorem tlv_iter_broken:
  "fst (TLVSequenceTLVIter_try_next (TLVSequence_tlv_iter [0x04, 0x05, 0x18])) = Panic \<and>
   fst (TLVSequenceTLVIter_try_next (TLVSequence_tlv_iter [0x04, 0x05])) = Err TLVTypeMismatch"
  by (simp add: TLVSequenceTLVIter_try_next_def TLVSequenceTLVIter_advance_def TLVSequence_tlv_iter_def
      reader_defs parse_examples sr_bind_def sr_simps end_control TLVControl_is_container_start_def
      TLVControl_is_container_end_def TLVSequence_control_def [of "[]"])

subsection \<open>Lookups in a well-formed structure\<close>

definition ctx_of :: "tlv_tree \<Rightarrow> u8 option" where
  "ctx_of t = (case root_tag t of Context c \<Rightarrow> Some c | _ \<Rightarrow> None)"

lemma enc_try_ctx: "TLVElement_try_ctx (enc t @ r) = Ok (ctx_of t)"
  using enc_control [of t r]
  by (cases "root_tag t") (simp_all add: TLVElement_try_ctx_def ctx_of_def TLVSequence_tag_def enc_root
      tlv_bytes_def get_to_def)

fun lookup_ctx :: "u8 \<Rightarrow> tlv_tree list \<Rightarrow> bytes \<Rightarrow> TLVElement" where
  "lookup_ctx c [] r = []"
| "lookup_ctx c (t # ts) r = (if ctx_of t = Some c then enc t @ enc_all ts @ r else lookup_ctx c ts r)"

lemma find_ctx_enc:
  "\<forall>t \<in> set ts. wf_tree t \<Longrightarrow> length (enc_all ts) < 2 ^ 31 \<Longrightarrow> seq_end r \<Longrightarrow>
   TLVSequence_find_ctx c (enc_all ts @ r) = Ok (lookup_ctx c ts r)"
proof (induction ts)
  case Nil
  then show ?case by (simp add: TLVSequence_find_ctx.simps seq_end_next)
next
  case (Cons t ts)
  then show ?case by (subst TLVSequence_find_ctx.simps) (simp add: enc_iter_next enc_try_ctx)
qed

text \<open>The scan skips elements without context tag and those with a smaller one.\<close>

definition scan_to :: "u8 \<Rightarrow> tlv_tree list \<Rightarrow> tlv_tree list" where
  "scan_to c ts = dropWhile (\<lambda>t. case ctx_of t of None \<Rightarrow> True | Some d \<Rightarrow> d < c) ts"

definition scan_result :: "u8 \<Rightarrow> tlv_tree list \<Rightarrow> bytes \<Rightarrow> TLVElement" where
  "scan_result c ts r = (case scan_to c ts of [] \<Rightarrow> []
     | t # us \<Rightarrow> if ctx_of t = Some c then enc t @ enc_all us @ r else [])"

lemma scan_ctx_enc:
  "\<forall>t \<in> set ts. wf_tree t \<Longrightarrow> length (enc_all ts) < 2 ^ 31 \<Longrightarrow> seq_end r \<Longrightarrow>
   TLVSequence_scan_ctx c (enc_all ts @ r) = Some (Ok (scan_result c ts r), enc_all (scan_to c ts) @ r)"
proof (induction ts)
  case Nil
  then show ?case
    by (simp add: TLVSequence_scan_ctx_def TLVSequence_scan_map.simps [of _ r] seq_end_iter scan_ctx_closure_def
        scan_result_def scan_to_def)
next
  case (Cons t ts)
  let ?s = "enc_all (t # ts) @ r"
  have cur: "TLVSequence_current ?s = Ok ?s" and nxt: "TLVSequence_container_next ?s = Ok (enc_all ts @ r)"
    using Cons.prems enc_current [of t "enc_all ts @ r"] enc_container_next [of t "enc_all ts @ r"] by simp_all
  have clo: "scan_ctx_closure c ?s = Ok (case ctx_of t of
      Some d \<Rightarrow> (if d = c then Some ?s else if d > c then Some [] else None) | None \<Rightarrow> None)"
    using enc_try_ctx [of t "enc_all ts @ r"] by (auto simp: scan_ctx_closure_def split: option.splits)
  have IH: "TLVSequence_scan_map (scan_ctx_closure c) (enc_all ts @ r) =
      Some (Ok (scan_result c ts r), enc_all (scan_to c ts) @ r)"
    using Cons by (simp add: TLVSequence_scan_ctx_def)
  show ?case unfolding TLVSequence_scan_ctx_def TLVSequence_scan_map.simps [of _ ?s]
    using cur nxt clo IH by (auto simp: scan_result_def scan_to_def split: option.splits)
qed

text \<open>A structure whose context tags increase, as the encoders write it.\<close>

definition ctx_increasing :: "tlv_tree list \<Rightarrow> bool" where
  "ctx_increasing ts \<longleftrightarrow> sorted_wrt (<) (List.map_filter ctx_of ts)"

lemma ctx_increasing_Cons:
  "ctx_increasing (t # ts) \<longleftrightarrow> ctx_increasing ts \<and>
     (case ctx_of t of None \<Rightarrow> True | Some d \<Rightarrow> \<forall>u \<in> set ts. \<forall>e. ctx_of u = Some e \<longrightarrow> d < e)"
  by (force simp: ctx_increasing_def map_filter_def image_iff split: option.splits)

lemma lookup_ctx_none: "\<forall>u \<in> set ts. ctx_of u \<noteq> Some c \<Longrightarrow> lookup_ctx c ts r = []"
  by (induction ts) auto

lemma scan_lookup: "ctx_increasing ts \<Longrightarrow> scan_result c ts r = lookup_ctx c ts r"
proof (induction ts)
  case Nil
  then show ?case by (simp add: scan_result_def scan_to_def)
next
  case (Cons t ts)
  then have inc: "ctx_increasing ts"
      "\<And>d u e. ctx_of t = Some d \<Longrightarrow> u \<in> set ts \<Longrightarrow> ctx_of u = Some e \<Longrightarrow> d < e"
    by (auto simp: ctx_increasing_Cons split: option.splits)
  show ?case
  proof (cases "ctx_of t")
    case None
    with Cons.IH [OF inc(1)] show ?thesis by (simp add: scan_result_def scan_to_def)
  next
    case (Some d)
    consider "d < c" | "d = c" | "c < d" by force
    then show ?thesis
    proof cases
      case 3
      with inc(2) [OF Some] have "\<forall>u \<in> set ts. ctx_of u \<noteq> Some c" by (metis less_asym)
      with 3 Some show ?thesis using lookup_ctx_none [of ts c r] by (auto simp: scan_result_def scan_to_def)
    qed (use Cons.IH [OF inc(1)] Some in \<open>auto simp: scan_result_def scan_to_def\<close>)
  qed
qed

lemma lookup_scan_to: "c < c' \<Longrightarrow> lookup_ctx c' (scan_to c ts) r = lookup_ctx c' ts r"
  by (induction ts) (auto simp: scan_to_def split: option.splits)

lemma scan_to_suffix: "\<exists>us. ts = us @ scan_to c ts"
  unfolding scan_to_def by (metis takeWhile_dropWhile_id)

lemma scan_to_keeps:
  "ctx_increasing ts \<Longrightarrow> ctx_increasing (scan_to c ts)"
  "set (scan_to c ts) \<subseteq> set ts" "length (enc_all (scan_to c ts)) \<le> length (enc_all ts)"
proof -
  obtain us where us: "ts = us @ scan_to c ts" using scan_to_suffix by blast
  have mf: "List.map_filter ctx_of (xs @ ys) = List.map_filter ctx_of xs @ List.map_filter ctx_of ys" for xs ys
    by (simp add: map_filter_def)
  show "ctx_increasing ts \<Longrightarrow> ctx_increasing (scan_to c ts)"
    by (subst (asm) us) (simp add: ctx_increasing_def mf sorted_wrt_append)
  show "set (scan_to c ts) \<subseteq> set ts" by (subst (2) us) auto
  show "length (enc_all (scan_to c ts)) \<le> length (enc_all ts)" by (subst (2) us) simp
qed

text \<open>
  Decoding a structure the way the derived \<^verbatim>\<open>FromTLV\<close> implementations do: one \<^verbatim>\<open>scan_ctx\<close> per field, each
  going on where the last one stopped.
\<close>

fun scan_fields :: "u8 list \<Rightarrow> TLVSequence \<Rightarrow> TLVElement list res option" where
  "scan_fields [] s = Some (Ok [])"
| "scan_fields (c # cs) s = (case TLVSequence_scan_ctx c s of
       None \<Rightarrow> None
     | Some (Ok e, s') \<Rightarrow> map_option (\<lambda>x. res_bind x (\<lambda>es. Ok (e # es))) (scan_fields cs s')
     | Some (Err e, _) \<Rightarrow> Some (Err e)
     | Some (Panic, _) \<Rightarrow> Some Panic)"


definition demo_fields :: "tlv_tree list" where
  "demo_fields = [Leaf (Context 0) (U8 7), Leaf Anonymous Null, Node (Context 2) Array [], Leaf (Context 5) TLVTrue]"


end
