(* ===== verification/Base38.thy ===== *)
theory Base38
  imports Prelude
begin

section \<open>Base-38\<close>

text \<open>
  \<^verbatim>\<open>utils/codec/base38.rs\<close>. Three bytes become five characters, the remaining two or one become four or
  two. Characters are their ASCII codes; an iterator over \<^verbatim>\<open>Result<u8>\<close> is the list of what it yields, and the
  \<^verbatim>\<open>take_while(Result::is_ok)\<close> in it cuts that list at the first error.
\<close>

definition BASE38_CHARS :: "u8 list" where
  "BASE38_CHARS = [48, 49, 50, 51, 52, 53, 54, 55, 56, 57, 65, 66, 67, 68, 69, 70, 71, 72, 73, 74, 75,
     76, 77, 78, 79, 80, 81, 82, 83, 84, 85, 86, 87, 88, 89, 90, 45, 46]"

definition UNUSED :: u8 where
  "UNUSED = 255"

definition DECODE_BASE38 :: "u8 list" where
  "DECODE_BASE38 = [36, 37, UNUSED, 0, 1, 2, 3, 4, 5, 6, 7, 8, 9, UNUSED, UNUSED, UNUSED, UNUSED, UNUSED,
     UNUSED, UNUSED, 10, 11, 12, 13, 14, 15, 16, 17, 18, 19, 20, 21, 22, 23, 24, 25, 26, 27, 28, 29, 30,
     31, 32, 33, 34, 35]"

definition RADIX :: u32 where
  "RADIX = 38"

subsection \<open>Encoding\<close>

fun encode_base38 :: "u32 \<Rightarrow> nat \<Rightarrow> u8 list" where
  "encode_base38 v 0 = []"
| "encode_base38 v (Suc n) = (let remainder = v mod RADIX in
     BASE38_CHARS ! unat remainder # encode_base38 ((v - remainder) div RADIX) n)"

definition encode_triple :: "bytes \<Rightarrow> nat \<Rightarrow> u8 list" where
  "encode_triple bs index = (let offset = index * 3 in
     encode_base38 (push_bit 16 (ucast (bs ! (offset + 2))) OR push_bit 8 (ucast (bs ! (offset + 1))) OR
       ucast (bs ! offset)) 5)"

definition encode :: "bytes \<Rightarrow> u8 list" where
  "encode bs = concat (map (encode_triple bs) [0..<length bs div 3]) @
     (let remainder = length bs mod 3; offset = length bs div 3 * 3 in
      if remainder = 2 then
        encode_base38 (push_bit 8 (ucast (bs ! (offset + 1))) OR ucast (bs ! offset)) 4
      else if remainder = 1 then encode_base38 (ucast (bs ! offset)) 2
      else encode_base38 0 0)"

text \<open>A \<^verbatim>\<open>heapless\<close> string or vector of capacity \<open>n\<close> refuses the element after the \<open>n\<close>th.\<close>

definition encode_string :: "nat \<Rightarrow> bytes \<Rightarrow> u8 list res" where
  "encode_string n bs = (let cs = encode bs in if length cs \<le> n then Ok cs else Err BufferTooSmall)"

definition encode_bits :: "u32 \<Rightarrow> nat \<Rightarrow> u8 list res" where
  "encode_bits bits bits_count =
     (if \<not> bits_count \<le> 24 then Panic
      else if bits_count div 8 = 3 then Ok (encode_base38 bits 5)
      else if bits_count div 8 = 2 then Ok (encode_base38 bits 4)
      else if bits_count div 8 = 1 then Ok (encode_base38 bits 2)
      else Panic)"

subsection \<open>Decoding\<close>

definition decode_char :: "u8 \<Rightarrow> u8 res" where
  "decode_char c = (if \<not> (45 \<le> c \<and> c \<le> 90) then Err InvalidData
     else let d = DECODE_BASE38 ! (unat c - 45) in if d = UNUSED then Err InvalidData else Ok d)"

fun decode_value :: "u32 \<Rightarrow> u8 list \<Rightarrow> u32 res" where
  "decode_value value [] = Ok value"
| "decode_value value (c # cs) = res_bind (decode_char c) (\<lambda>v. decode_value (value * RADIX + ucast v) cs)"

fun emit_value_bytes :: "u32 \<Rightarrow> nat \<Rightarrow> bytes" where
  "emit_value_bytes v 0 = []"
| "emit_value_bytes v (Suc n) = ucast (v AND 0xff) # emit_value_bytes (drop_bit 8 v) n"

text \<open>
  \<^verbatim>\<open>decode_base38\<close>: what the iterator yields. Its length is \<open>repeat\<close>, which is \<open>-1\<close>, an empty range, for a wrong
  number of characters; an invalid character makes every item an error, and the first is cut off.
\<close>

definition decode_base38 :: "u8 list \<Rightarrow> bytes" where
  "decode_base38 chars =
     (let repeat = (if length chars = 5 then Some 3 else if length chars = 4 then Some 2
        else if length chars = 2 then Some 1 else if length chars = 0 then Some 0 else None) in
      case repeat of
        None \<Rightarrow> []
      | Some n \<Rightarrow> (case decode_value 0 (rev chars) of Ok v \<Rightarrow> emit_value_bytes v n | _ \<Rightarrow> []))"

definition decode :: "u8 list \<Rightarrow> bytes" where
  "decode cs = concat (map (\<lambda>i. decode_base38 (slice_of cs (i * 5) (i * 5 + 5))) [0..<length cs div 5]) @
     decode_base38 (drop (length cs div 5 * 5) cs)"

definition decode_vec :: "nat \<Rightarrow> u8 list \<Rightarrow> bytes res" where
  "decode_vec n cs = (let bs = decode cs in if length bs \<le> n then Ok bs else Err BufferTooSmall)"

subsection \<open>One group\<close>

lemma decode_all_chars: "map decode_char BASE38_CHARS = map Ok
    [0, 1, 2, 3, 4, 5, 6, 7, 8, 9, 10, 11, 12, 13, 14, 15, 16, 17, 18, 19, 20, 21, 22, 23, 24, 25, 26, 27, 28, 29,
     30, 31, 32, 33, 34, 35, 36, 37]"
  by (simp add: BASE38_CHARS_def decode_char_def DECODE_BASE38_def UNUSED_def)

lemma decode_base38_char: "n < 38 \<Longrightarrow> decode_char (BASE38_CHARS ! n) = Ok (of_nat n)"
proof -
  assume n: "n < 38"
  have "map Ok [0, 1, 2, 3, 4, 5, 6, 7, 8, 9, 10, 11, 12, 13, 14, 15, 16, 17, 18, 19, 20, 21, 22, 23, 24, 25, 26,
      27, 28, 29, 30, 31, 32, 33, 34, 35, 36, 37] = map (\<lambda>i. Ok (of_nat i :: u8)) [0..<38]"
    by (simp add: upt_conv_Cons)
  then show ?thesis
    using n decode_all_chars nth_map [of n BASE38_CHARS decode_char] by (simp add: BASE38_CHARS_def del: upt_Suc)
qed

lemma radix_step: "(v - v mod RADIX) div RADIX = v div RADIX" (is "?a = ?b")
proof -
  have le: "v mod RADIX \<le> v" by (simp add: word_le_nat_alt unat_mod)
  have "unat ?a = unat ?b"
    unfolding unat_div unat_sub [OF le] unat_mod by (simp add: RADIX_def minus_mod_eq_mult_div)
  then show ?thesis by (simp only: word_unat_eq_iff)
qed

lemma decode_value_append:
  "decode_value x (xs @ ys) = res_bind (decode_value x xs) (\<lambda>v. decode_value v ys)"
  by (induction xs arbitrary: x) (simp_all add: res_bind_assoc)

lemma length_encode_base38 [simp]: "length (encode_base38 v n) = n"
  by (induction n arbitrary: v) (simp_all add: Let_def)

lemma decode_encode_value: "decode_value 0 (rev (encode_base38 v n)) = Ok (of_nat (unat v mod 38 ^ n))"
proof (induction n arbitrary: v)
  case (Suc n)
  let ?r = "unat v mod 38" and ?q = "unat v div 38"
  have u: "unat (v mod RADIX) = ?r" "unat (v div RADIX) = ?q" by (simp_all add: unat_mod unat_div RADIX_def)
  have "unat v mod 38 ^ Suc n = 38 * (?q mod 38 ^ n) + ?r"
    by (simp add: mod_mult2_eq)
  then have "(of_nat (unat v mod 38 ^ Suc n) :: u32) = of_nat (?q mod 38 ^ n) * RADIX + of_nat ?r"
    by (simp add: RADIX_def mult.commute)
  moreover have "(ucast (of_nat ?r :: u8) :: u32) = of_nat ?r"
    by (simp add: word_unat_eq_iff unsigned_ucast_eq unat_of_nat take_bit_nat_eq_self)
  ultimately show ?case
    using Suc [of "v div RADIX"] decode_base38_char [of ?r]
    by (simp add: Let_def radix_step decode_value_append u)
qed simp

lemma emit_value_bytes: "emit_value_bytes v n = to_le_bytes n v"
proof (induction n arbitrary: v)
  case (Suc n)
  have m: "(0xff :: u32) = mask 8" by (simp add: mask_eq_exp_minus_1)
  have "(ucast (v AND 0xff) :: u8) = ucast v"
    unfolding m by (rule bit_word_eqI) (auto simp: bit_ucast_iff bit_and_iff bit_mask_iff)
  then show ?case using Suc by (simp add: to_le_bytes_Suc)
qed (simp add: to_le_bytes_def)

lemma unat_from_le_bytes: "unat (from_le_bytes bs :: u32) < 2 ^ (8 * length bs)"
proof -
  have "take_bit (8 * length bs) (from_le_bytes bs :: u32) = from_le_bytes bs"
    by (rule bit_word_eqI) (auto simp: bit_take_bit_iff bit_from_le_bytes)
  then have "take_bit (8 * length bs) (unat (from_le_bytes bs :: u32)) = unat (from_le_bytes bs :: u32)"
    by (metis unsigned_take_bit_eq)
  then show ?thesis by (simp add: take_bit_nat_eq_self_iff)
qed

lemma to_from_le_bytes: "8 * length bs \<le> 32 \<Longrightarrow> to_le_bytes (length bs) (from_le_bytes bs :: u32) = bs"
proof (rule nth_equalityI)
  fix i assume le: "8 * length bs \<le> 32" and i: "i < length (to_le_bytes (length bs) (from_le_bytes bs :: u32))"
  show "to_le_bytes (length bs) (from_le_bytes bs :: u32) ! i = bs ! i"
  proof (rule bit_word_eqI)
    fix j assume "j < LENGTH(8)"
    with i le show "bit (to_le_bytes (length bs) (from_le_bytes bs :: u32) ! i) j = bit (bs ! i) j"
      by (simp add: to_le_bytes_def bit_ucast_iff bit_drop_bit_eq bit_from_le_bytes)
  qed
qed simp

text \<open>The numbers of characters are enough for the bytes: \<open>2\<^sup>2\<^sup>4 < 38\<^sup>5\<close>, \<open>2\<^sup>1\<^sup>6 < 38\<^sup>4\<close>, \<open>2\<^sup>8 < 38\<^sup>2\<close>.\<close>

definition group_chars :: "nat \<Rightarrow> nat" where
  "group_chars n = (if n = 3 then 5 else if n = 2 then 4 else if n = 1 then 2 else 0)"

lemma decode_group:
  assumes "length bs \<le> 3"
  shows "decode_base38 (encode_base38 (from_le_bytes bs) (group_chars (length bs))) = bs"
proof -
  have "length bs = 0 \<or> length bs = 1 \<or> length bs = 2 \<or> length bs = 3" using assms by linarith
  then have n: "length bs \<in> {0, 1, 2, 3}" by simp
  have "(2::nat) ^ (8 * length bs) \<le> 38 ^ group_chars (length bs)" using n by (auto simp: group_chars_def)
  then have "unat (from_le_bytes bs :: u32) < 38 ^ group_chars (length bs)"
    using unat_from_le_bytes [of bs] by linarith
  then have "decode_value 0 (rev (encode_base38 (from_le_bytes bs) (group_chars (length bs)))) =
      Ok (from_le_bytes bs)"
    by (simp add: decode_encode_value)
  then show ?thesis using n to_from_le_bytes [of bs]
    by (auto simp: decode_base38_def emit_value_bytes group_chars_def)
qed

subsection \<open>All groups\<close>

lemma encode_short: "length bs < 3 \<Longrightarrow> encode bs = encode_base38 (from_le_bytes bs) (group_chars (length bs))"
proof -
  assume "length bs < 3"
  then consider "bs = []" | x where "bs = [x]" | x y where "bs = [x, y]"
    by (cases bs; cases "tl bs"; cases "tl (tl bs)") auto
  then show ?thesis
    by cases (simp_all add: encode_def group_chars_def or.commute)
qed

lemma encode_step:
  assumes "length xs = 3"
  shows "encode (xs @ bs) = encode_base38 (from_le_bytes xs) 5 @ encode bs"
proof -
  obtain a b c where xs: "xs = [a, b, c]" using assms by (auto simp: length_Suc_conv numeral_3_eq_3)
  have len: "length (xs @ bs) div 3 = Suc (length bs div 3)" "length (xs @ bs) mod 3 = length bs mod 3"
    by (simp_all add: assms)
  have shift: "encode_triple (xs @ bs) (Suc i) = encode_triple bs i" for i
    by (simp add: encode_triple_def Let_def xs)
  have upt: "[0..<Suc n] = 0 # map Suc [0..<n]" for n by (simp add: upt_conv_Cons map_Suc_upt del: upt_Suc)
  have first: "encode_triple (xs @ bs) 0 = encode_base38 (from_le_bytes xs) 5"
    by (simp add: encode_triple_def xs push_bit_or or.commute or.left_commute numeral_2_eq_2)
  show ?thesis
    unfolding encode_def len upt by (simp add: shift first o_def) (simp add: xs Let_def)
qed

lemma decode_step: "length xs = 5 \<Longrightarrow> decode (xs @ cs) = decode_base38 xs @ decode cs"
proof -
  assume l: "length xs = 5"
  have len: "length (xs @ cs) div 5 = Suc (length cs div 5)" using l by simp
  have upt: "[0..<Suc n] = 0 # map Suc [0..<n]" for n by (simp add: upt_conv_Cons map_Suc_upt del: upt_Suc)
  have shift: "slice_of (xs @ cs) (Suc i * 5) (Suc i * 5 + 5) = slice_of cs (i * 5) (i * 5 + 5)" for i
    by (simp add: slice_of_def l)
  have first: "slice_of (xs @ cs) (0 * 5) (0 * 5 + 5) = xs" by (simp add: slice_of_def l)
  have rest: "drop (Suc (length cs div 5) * 5) (xs @ cs) = drop (length cs div 5 * 5) cs" by (simp add: l)
  show ?thesis unfolding decode_def len upt
    by (simp only: list.map map_map o_def concat.simps shift first rest append_assoc)
qed

lemma decode_short: "length cs < 5 \<Longrightarrow> decode cs = decode_base38 cs"
  by (simp add: decode_def)

lemma group_chars_short: "n < 3 \<Longrightarrow> group_chars n < 5"
  by (simp add: group_chars_def)

lemma decode_encode: "decode (encode bs) = bs"
proof (induction "length bs" arbitrary: bs rule: less_induct)
  case less
  show ?case
  proof (cases "length bs < 3")
    case True
    then show ?thesis using decode_group [of bs] group_chars_short [OF True] by (simp add: encode_short decode_short)
  next
    case False
    define xs ys where "xs = take 3 bs" and "ys = drop 3 bs"
    then have xs: "length xs = 3" "bs = xs @ ys" "length ys < length bs" using False by simp_all
    have "decode_base38 (encode_base38 (from_le_bytes xs) 5) = xs"
      using decode_group [of xs] xs(1) by (simp add: group_chars_def)
    then show ?thesis using less [OF xs(3)] by (simp add: xs(2) encode_step [OF xs(1)] decode_step)
  qed
qed

lemma length_encode: "length (encode bs) = length bs div 3 * 5 + group_chars (length bs mod 3)"
proof (induction "length bs" arbitrary: bs rule: less_induct)
  case less
  show ?case
  proof (cases "length bs < 3")
    case True
    then show ?thesis by (simp add: encode_short)
  next
    case False
    define xs ys where "xs = take 3 bs" and "ys = drop 3 bs"
    then have xs: "length xs = 3" "bs = xs @ ys" "length ys < length bs" using False by simp_all
    then have d: "length bs div 3 = Suc (length ys div 3)" "length bs mod 3 = length ys mod 3" by simp_all
    have "length (encode bs) = 5 + length (encode ys)" by (simp add: xs(2) encode_step [OF xs(1)])
    then show ?thesis unfolding d using less [OF xs(3)] by simp
  qed
qed

text \<open>
  Whatever bytes base-38 encoding is given, it succeeds exactly when the string has room for five
  characters for every three bytes and four or two for the rest, and decoding the string gives the bytes back.
\<close>

theorem base38_roundtrip:
  "(encode_string n bs = Ok (encode bs) \<longleftrightarrow> length bs div 3 * 5 + group_chars (length bs mod 3) \<le> n) \<and>
   decode_vec (length bs) (encode bs) = Ok bs"
  by (simp add: encode_string_def decode_vec_def decode_encode length_encode Let_def)

text \<open>A group with a character outside the alphabet.\<close>

lemma decode_char_total: "decode_char c = Err InvalidData \<or> (\<exists>v. decode_char c = Ok v)"
  by (simp add: decode_char_def Let_def)

lemma decode_value_bad:
  "\<exists>c \<in> set cs. decode_char c = Err InvalidData \<Longrightarrow> decode_value v cs = Err InvalidData"
proof (induction cs arbitrary: v)
  case (Cons c cs)
  then show ?case using decode_char_total [of c] by (cases "decode_char c = Err InvalidData") auto
qed simp

text \<open>
  Decoding never reports an invalid character. A group of five characters with a bad one
  is left out and decoding goes on behind it, and a rest of one or three characters is ignored.
\<close>

theorem base38_decode_swallows_errors:
  "(length xs = 5 \<and> (\<exists>c \<in> set xs. decode_char c = Err InvalidData) \<longrightarrow> decode (xs @ cs) = decode cs) \<and>
   (length ys \<in> {1, 3} \<longrightarrow> decode ys = []) \<and> decode_vec n cs \<noteq> Err InvalidData"
proof (intro conjI impI)
  assume xs: "length xs = 5 \<and> (\<exists>c \<in> set xs. decode_char c = Err InvalidData)"
  then have "decode_base38 xs = []" using decode_value_bad [of "rev xs" 0] by (simp add: decode_base38_def)
  with xs show "decode (xs @ cs) = decode cs" by (simp add: decode_step)
next
  assume "length ys \<in> {1, 3}"
  then show "decode ys = []" by (auto simp: decode_short decode_base38_def)
qed (simp add: decode_vec_def Let_def)

theorem base38_decode_swallows_errors_witness: "decode ([33, 33, 33, 33, 33] @ [48, 48]) = decode [48, 48]"
  using base38_decode_swallows_errors [of "[33, 33, 33, 33, 33]" "[48, 48]" "[]" 0]
  by (simp add: decode_char_def)

end
