(* ===== verification/Tlv_Scalars.thy ===== *)
theory Tlv_Scalars
  imports Tlv_Codec
begin

section \<open>TLV scalars, strings and byte iterators\<close>

text \<open>
  The integer writers choose the shortest width, and every accessor reads back what fits into its
  own type and refuses the rest. A string written through a callback is byte for byte the string
  written from a slice, and the byte iterator emits what the writer appends.
\<close>

subsection \<open>Integers\<close>

lemmas scalar_defs = TLVElement_u8_def TLVElement_u16_def TLVElement_u32_def TLVElement_u64_def
  TLVElement_i8_def TLVElement_i16_def TLVElement_i32_def TLVElement_i64_def

lemma wf_scalars [simp]: "wf_value (U8 a)" "wf_value (U16 b)" "wf_value (U32 c)" "wf_value (U64 d)"
  "wf_value (S8 a)" "wf_value (S16 b)" "wf_value (S32 c)" "wf_value (S64 d)"
  by (simp_all add: wf_value_def TLVValueType_is_utf8_def TLVValueType_fixed_size_def)

lemma from_le_bytes_single [simp]: "from_le_bytes [b] = (b :: u8)"
  by simp

lemma ucast_up:
  assumes "LENGTH('a::len) \<le> LENGTH('b::len)"
  shows "(ucast (ucast (w :: 'a word) :: 'b word) :: 'c::len word) = ucast w"
  by (rule bit_word_eqI) (use assms in \<open>auto simp: bit_ucast_iff dest: bit_imp_le_length\<close>)

text \<open>What each accessor returns for each unsigned and each signed value.\<close>

lemma read_unsigned:
  "TLVElement_u8 (tlv_bytes t (U8 a) @ r) = Ok a"
  "TLVElement_u16 (tlv_bytes t (U8 a) @ r) = Ok (ucast a)"
  "TLVElement_u32 (tlv_bytes t (U8 a) @ r) = Ok (ucast a)"
  "TLVElement_u64 (tlv_bytes t (U8 a) @ r) = Ok (ucast a)"
  "TLVElement_u8 (tlv_bytes t (U16 b) @ r) = Err TLVTypeMismatch"
  "TLVElement_u16 (tlv_bytes t (U16 b) @ r) = Ok b"
  "TLVElement_u32 (tlv_bytes t (U16 b) @ r) = Ok (ucast b)"
  "TLVElement_u64 (tlv_bytes t (U16 b) @ r) = Ok (ucast b)"
  "TLVElement_u8 (tlv_bytes t (U32 c) @ r) = Err TLVTypeMismatch"
  "TLVElement_u16 (tlv_bytes t (U32 c) @ r) = Err TLVTypeMismatch"
  "TLVElement_u32 (tlv_bytes t (U32 c) @ r) = Ok c"
  "TLVElement_u64 (tlv_bytes t (U32 c) @ r) = Ok (ucast c)"
  "TLVElement_u8 (tlv_bytes t (U64 d) @ r) = Err TLVTypeMismatch"
  "TLVElement_u16 (tlv_bytes t (U64 d) @ r) = Err TLVTypeMismatch"
  "TLVElement_u32 (tlv_bytes t (U64 d) @ r) = Err TLVTypeMismatch"
  "TLVElement_u64 (tlv_bytes t (U64 d) @ r) = Ok d"
  by (simp_all add: scalar_defs tlv_control tlv_value payload_def array_or_invalid_def ucast_up
      del: from_le_bytes.simps)

lemma read_signed:
  "TLVElement_i8 (tlv_bytes t (S8 a) @ r) = Ok a"
  "TLVElement_i16 (tlv_bytes t (S8 a) @ r) = Ok (scast a)"
  "TLVElement_i32 (tlv_bytes t (S8 a) @ r) = Ok (scast (scast a :: i16))"
  "TLVElement_i64 (tlv_bytes t (S8 a) @ r) = Ok (scast (scast (scast a :: i16) :: i32))"
  "TLVElement_i8 (tlv_bytes t (S16 b) @ r) = Err TLVTypeMismatch"
  "TLVElement_i16 (tlv_bytes t (S16 b) @ r) = Ok b"
  "TLVElement_i32 (tlv_bytes t (S16 b) @ r) = Ok (scast b)"
  "TLVElement_i64 (tlv_bytes t (S16 b) @ r) = Ok (scast (scast b :: i32))"
  "TLVElement_i8 (tlv_bytes t (S32 c) @ r) = Err TLVTypeMismatch"
  "TLVElement_i16 (tlv_bytes t (S32 c) @ r) = Err TLVTypeMismatch"
  "TLVElement_i32 (tlv_bytes t (S32 c) @ r) = Ok c"
  "TLVElement_i64 (tlv_bytes t (S32 c) @ r) = Ok (scast c)"
  "TLVElement_i8 (tlv_bytes t (S64 d) @ r) = Err TLVTypeMismatch"
  "TLVElement_i16 (tlv_bytes t (S64 d) @ r) = Err TLVTypeMismatch"
  "TLVElement_i32 (tlv_bytes t (S64 d) @ r) = Err TLVTypeMismatch"
  "TLVElement_i64 (tlv_bytes t (S64 d) @ r) = Ok d"
  by (simp_all add: scalar_defs tlv_control tlv_value payload_def array_or_invalid_def
      del: from_le_bytes.simps)

text \<open>Casting down and up again gives the value back when it fits.\<close>

lemma ucast_down_up:
  assumes "unat (w :: 'b::len word) < 2 ^ LENGTH('a::len)"
  shows "(ucast (ucast w :: 'a word) :: 'c::len word) = ucast w"
proof (rule bit_word_eqI)
  fix n assume n: "n < LENGTH('c)"
  have "take_bit LENGTH('a) (unat w) = unat w" using assms by (simp add: take_bit_nat_eq_self)
  then have "bit (unat w) n \<longleftrightarrow> n < LENGTH('a) \<and> bit (unat w) n" by (metis bit_take_bit_iff)
  then show "bit (ucast (ucast w :: 'a word) :: 'c word) n = bit (ucast w :: 'c word) n"
    using n by (auto simp: bit_ucast_iff bit_unsigned_iff)
qed

lemma scast_down_up:
  assumes "- (2 ^ (LENGTH('a::len) - 1)) \<le> sint (w :: 'b::len word)" "sint w < 2 ^ (LENGTH('a) - 1)"
    "LENGTH('a) \<le> LENGTH('b)"
  shows "sint (ucast w :: 'a word) = sint w"
proof -
  have "sint (ucast w :: 'a word) = signed_take_bit (LENGTH('a) - 1) (sint w)"
    using assms(3) by (auto simp: sint_uint unsigned_ucast_eq signed_take_bit_take_bit min_def)
  then show ?thesis using assms(1,2) by (simp add: signed_take_bit_int_eq_self)
qed

lemma sint_scast_up:
  assumes "LENGTH('a::len) \<le> LENGTH('b::len)"
  shows "sint (scast (w :: 'a word) :: 'b word) = sint w"
proof -
  note sint_ge [of w] sint_lt [of w]
  moreover have "(2::int) ^ (LENGTH('a) - 1) \<le> 2 ^ (LENGTH('b) - 1)" using assms by simp
  ultimately have "- (2 ^ (LENGTH('b) - 1)) \<le> sint w" "sint w < 2 ^ (LENGTH('b) - 1)" by linarith+
  then show ?thesis by (simp add: signed_scast_eq signed_take_bit_int_eq_self)
qed

lemma unat_ucast_fits: "unat w < 2 ^ LENGTH('a::len) \<Longrightarrow> unat (ucast w :: 'a word) = unat w"
  by (simp add: unsigned_ucast_eq take_bit_nat_eq_self)

lemma ucast_down: "LENGTH('a::len) \<le> LENGTH('b::len) \<Longrightarrow> (ucast (ucast w :: 'b word) :: 'a word) = ucast w"
  by (rule bit_word_eqI) (auto simp: bit_ucast_iff)

lemma read_u16:
  "TLVElement_u64 (tlv_bytes t (TLVValue_u16 b) @ r) = Ok (ucast b)"
  "TLVElement_u32 (tlv_bytes t (TLVValue_u16 b) @ r) = Ok (ucast b)"
  "TLVElement_u16 (tlv_bytes t (TLVValue_u16 b) @ r) = Ok b"
  "TLVElement_u8 (tlv_bytes t (TLVValue_u16 b) @ r) =
     (if unat b < 2 ^ 8 then Ok (ucast b) else Err TLVTypeMismatch)"
  by (simp_all add: TLVValue_u16_def TLVValue_u8_def word_le_nat_alt read_unsigned ucast_down_up)

lemma read_u32:
  "TLVElement_u64 (tlv_bytes t (TLVValue_u32 c) @ r) = Ok (ucast c)"
  "TLVElement_u32 (tlv_bytes t (TLVValue_u32 c) @ r) = Ok c"
  "TLVElement_u16 (tlv_bytes t (TLVValue_u32 c) @ r) =
     (if unat c < 2 ^ 16 then Ok (ucast c) else Err TLVTypeMismatch)"
  "TLVElement_u8 (tlv_bytes t (TLVValue_u32 c) @ r) =
     (if unat c < 2 ^ 8 then Ok (ucast c) else Err TLVTypeMismatch)"
  using unat_ucast_fits [of c, where 'a = 16]
  by (simp_all add: TLVValue_u32_def word_le_nat_alt read_unsigned read_u16 ucast_down_up)

lemma read_u64:
  "TLVElement_u64 (tlv_bytes t (TLVValue_u64 d) @ r) = Ok d"
  "TLVElement_u32 (tlv_bytes t (TLVValue_u64 d) @ r) =
     (if unat d < 2 ^ 32 then Ok (ucast d) else Err TLVTypeMismatch)"
  "TLVElement_u16 (tlv_bytes t (TLVValue_u64 d) @ r) =
     (if unat d < 2 ^ 16 then Ok (ucast d) else Err TLVTypeMismatch)"
  "TLVElement_u8 (tlv_bytes t (TLVValue_u64 d) @ r) =
     (if unat d < 2 ^ 8 then Ok (ucast d) else Err TLVTypeMismatch)"
  using unat_ucast_fits [of d, where 'a = 32]
  by (simp_all add: TLVValue_u64_def word_le_nat_alt read_unsigned read_u32 ucast_down_up)

lemma scast_cong: "sint a = sint b \<Longrightarrow> scast a = scast b"
  by (metis scast_eq)

lemma scast_fits:
  assumes "- (2 ^ (LENGTH('a::len) - 1)) \<le> sint (w :: 'b::len word)" "sint w < 2 ^ (LENGTH('a) - 1)"
    "LENGTH('a) \<le> LENGTH('b)"
  shows "(scast (ucast w :: 'a word) :: 'c::len word) = scast w"
  by (rule scast_cong) (rule scast_down_up [OF assms])

lemma scast_up:
  "LENGTH('a::len) \<le> LENGTH('b::len) \<Longrightarrow> (scast (scast (w :: 'a word) :: 'b word) :: 'c::len word) = scast w"
  by (rule scast_cong) (rule sint_scast_up)

lemmas scast_fits_i8 = scast_fits [where 'a = 8, simplified]
lemmas scast_fits_i16 = scast_fits [where 'a = 16, simplified]
lemmas scast_fits_i32 = scast_fits [where 'a = 32, simplified]
lemmas sint_fits_i16 = scast_down_up [where 'a = 16, simplified]
lemmas sint_fits_i32 = scast_down_up [where 'a = 32, simplified]

lemma read_i16:
  "TLVElement_i64 (tlv_bytes t (TLVValue_i16 b) @ r) = Ok (scast b)"
  "TLVElement_i32 (tlv_bytes t (TLVValue_i16 b) @ r) = Ok (scast b)"
  "TLVElement_i16 (tlv_bytes t (TLVValue_i16 b) @ r) = Ok b"
  "TLVElement_i8 (tlv_bytes t (TLVValue_i16 b) @ r) =
     (if sint b \<in> {-128..127} then Ok (ucast b) else Err TLVTypeMismatch)"
  by (simp_all add: TLVValue_i16_def TLVValue_i8_def read_signed scast_up scast_fits_i8)

lemma read_i32:
  "TLVElement_i64 (tlv_bytes t (TLVValue_i32 c) @ r) = Ok (scast c)"
  "TLVElement_i32 (tlv_bytes t (TLVValue_i32 c) @ r) = Ok c"
  "TLVElement_i16 (tlv_bytes t (TLVValue_i32 c) @ r) =
     (if sint c \<in> {-32768..32767} then Ok (ucast c) else Err TLVTypeMismatch)"
  "TLVElement_i8 (tlv_bytes t (TLVValue_i32 c) @ r) =
     (if sint c \<in> {-128..127} then Ok (ucast c) else Err TLVTypeMismatch)"
  by (auto simp: TLVValue_i32_def read_signed read_i16 scast_up scast_fits_i16 sint_fits_i16 ucast_down)

lemma read_i64:
  "TLVElement_i64 (tlv_bytes t (TLVValue_i64 d) @ r) = Ok d"
  "TLVElement_i32 (tlv_bytes t (TLVValue_i64 d) @ r) =
     (if sint d \<in> {-2147483648..2147483647} then Ok (ucast d) else Err TLVTypeMismatch)"
  "TLVElement_i16 (tlv_bytes t (TLVValue_i64 d) @ r) =
     (if sint d \<in> {-32768..32767} then Ok (ucast d) else Err TLVTypeMismatch)"
  "TLVElement_i8 (tlv_bytes t (TLVValue_i64 d) @ r) =
     (if sint d \<in> {-128..127} then Ok (ucast d) else Err TLVTypeMismatch)"
  by (auto simp: TLVValue_i64_def read_signed read_i32 scast_fits_i32 sint_fits_i32 ucast_down)

lemma length_tlv_int: "length (tlv_bytes t (TLVValue_u64 d)) \<le> 17" "length (tlv_bytes t (TLVValue_i64 e)) \<le> 17"
proof -
  have "TLVTagType_size (TLVTag_tag_type t) \<le> 8" by (cases t) auto
  then have l: "length (payload v) \<le> 8 \<Longrightarrow> TLVValueType_variable_size_len (TLVValue_value_type v) = 0 \<Longrightarrow>
      length (tlv_bytes t v) \<le> 17" for v
    by (simp add: length_tlv_bytes)
  show "length (tlv_bytes t (TLVValue_u64 d)) \<le> 17" "length (tlv_bytes t (TLVValue_i64 e)) \<le> 17"
    by (auto simp: TLVValue_u64_def TLVValue_u32_def TLVValue_u16_def TLVValue_u8_def TLVValue_i64_def
        TLVValue_i32_def TLVValue_i16_def TLVValue_i8_def payload_def
        TLVValueType_variable_size_len_def intro!: l)
qed

text \<open>
  An integer written by \<open>u64\<close> or \<open>i64\<close> (which choose the narrowest TLV type) is read back
  by the accessor of every width that holds the value, and refused with a type mismatch by the
  narrower ones; seventeen bytes of room are always enough to write it.
\<close>

theorem tlv_integers:
  assumes "WriteBuf_inv w" "17 \<le> WriteBuf_room w"
  shows "(\<exists>w' bs. TLVWrite_u64 t d w = (Ok (), w') \<and> WriteBuf_view w' = WriteBuf_view w @ bs \<and>
      TLVElement_tag (bs @ r) = Ok t \<and> TLVElement_u64 (bs @ r) = Ok d \<and>
      TLVElement_u32 (bs @ r) = (if unat d < 2 ^ 32 then Ok (ucast d) else Err TLVTypeMismatch) \<and>
      TLVElement_u16 (bs @ r) = (if unat d < 2 ^ 16 then Ok (ucast d) else Err TLVTypeMismatch) \<and>
      TLVElement_u8 (bs @ r) = (if unat d < 2 ^ 8 then Ok (ucast d) else Err TLVTypeMismatch)) \<and>
    (\<exists>w' bs. TLVWrite_i64 t e w = (Ok (), w') \<and> WriteBuf_view w' = WriteBuf_view w @ bs \<and>
      TLVElement_tag (bs @ r) = Ok t \<and> TLVElement_i64 (bs @ r) = Ok e \<and>
      TLVElement_i32 (bs @ r) =
        (if sint e \<in> {-2147483648..2147483647} then Ok (ucast e) else Err TLVTypeMismatch) \<and>
      TLVElement_i16 (bs @ r) = (if sint e \<in> {-32768..32767} then Ok (ucast e) else Err TLVTypeMismatch) \<and>
      TLVElement_i8 (bs @ r) = (if sint e \<in> {-128..127} then Ok (ucast e) else Err TLVTypeMismatch))"
proof
  obtain w' where "TLVWrite_u64 t d w = (Ok (), w')"
      "WriteBuf_view w' = WriteBuf_view w @ tlv_bytes t (TLVValue_u64 d)"
    using writes_ok [OF writes_ints(4) assms(1), of t d] length_tlv_int(1) [of t d] assms(2) by auto
  then show "\<exists>w' bs. TLVWrite_u64 t d w = (Ok (), w') \<and> WriteBuf_view w' = WriteBuf_view w @ bs \<and>
      TLVElement_tag (bs @ r) = Ok t \<and> TLVElement_u64 (bs @ r) = Ok d \<and>
      TLVElement_u32 (bs @ r) = (if unat d < 2 ^ 32 then Ok (ucast d) else Err TLVTypeMismatch) \<and>
      TLVElement_u16 (bs @ r) = (if unat d < 2 ^ 16 then Ok (ucast d) else Err TLVTypeMismatch) \<and>
      TLVElement_u8 (bs @ r) = (if unat d < 2 ^ 8 then Ok (ucast d) else Err TLVTypeMismatch)"
    by (intro exI conjI) (assumption | rule tlv_tag read_u64)+
next
  obtain w' where "TLVWrite_i64 t e w = (Ok (), w')"
      "WriteBuf_view w' = WriteBuf_view w @ tlv_bytes t (TLVValue_i64 e)"
    using writes_ok [OF writes_ints(8) assms(1), of t e] length_tlv_int(2) [of t e] assms(2) by auto
  then show "\<exists>w' bs. TLVWrite_i64 t e w = (Ok (), w') \<and> WriteBuf_view w' = WriteBuf_view w @ bs \<and>
      TLVElement_tag (bs @ r) = Ok t \<and> TLVElement_i64 (bs @ r) = Ok e \<and>
      TLVElement_i32 (bs @ r) =
        (if sint e \<in> {-2147483648..2147483647} then Ok (ucast e) else Err TLVTypeMismatch) \<and>
      TLVElement_i16 (bs @ r) = (if sint e \<in> {-32768..32767} then Ok (ucast e) else Err TLVTypeMismatch) \<and>
      TLVElement_i8 (bs @ r) = (if sint e \<in> {-128..127} then Ok (ucast e) else Err TLVTypeMismatch)"
    by (intro exI conjI) (assumption | rule tlv_tag read_i64)+
qed

definition tlv_demo_buf :: WriteBuf where
  "tlv_demo_buf = WriteBuf_new (replicate 32 0)"

lemma tlv_demo_buf_ok: "WriteBuf_inv tlv_demo_buf" "WriteBuf_room tlv_demo_buf = 32"
  "WriteBuf_view tlv_demo_buf = []"
  by (simp_all add: tlv_demo_buf_def WriteBuf_new_inv)

theorem tlv_integers_witness:
  "\<exists>w' bs. TLVWrite_u64 (Context 7) 300 tlv_demo_buf = (Ok (), w') \<and> WriteBuf_view w' = bs \<and>
     TLVElement_u16 (bs @ []) = Ok 300 \<and> TLVElement_u8 (bs @ []) = Err TLVTypeMismatch"
  using tlv_integers [OF tlv_demo_buf_ok(1), of "Context 7" 300 "[]" 0] tlv_demo_buf_ok by auto

subsection \<open>The byte iterator\<close>

text \<open>The bytes an iterator yields in its first \<open>n\<close> calls of \<^verbatim>\<open>next\<close>.\<close>

fun iter_bytes :: "('s \<Rightarrow> u8 option \<times> 's) \<Rightarrow> nat \<Rightarrow> 's \<Rightarrow> bytes" where
  "iter_bytes nxt 0 s = []"
| "iter_bytes nxt (Suc n) s = (case nxt s of (None, _) \<Rightarrow> [] | (Some b, s') \<Rightarrow> b # iter_bytes nxt n s')"

lemma tag_iter_next:
  "TLVTagIter_next t i = (if i < length (tag_bytes t) then (Some (tag_bytes t ! i), i + 1) else (None, i))"
  by (cases t) (auto simp: next_byte_def next_byte_offset_def nth_append nth_Cons' split: if_splits)

definition value_iter_bytes :: "TLVValue \<Rightarrow> bytes" where
  "value_iter_bytes v = (case v of Utf64l _ \<Rightarrow> [] | Str64l _ \<Rightarrow> [] | _ \<Rightarrow> tlv_len_bytes v @ payload v)"

lemma to_le_bytes_nth: "i < m \<Longrightarrow> i < n \<Longrightarrow> to_le_bytes m w ! i = to_le_bytes n w ! i"
  by (simp add: to_le_bytes_def)

lemma next_str_byte:
  assumes "k \<le> 8"
  shows "next_str_byte k a i = (let bs = to_le_bytes k (of_nat (length a) :: u64) @ a in
    if i < length bs then (Some (bs ! i), i + 1) else (None, i))"
  using assms to_le_bytes_nth [of i 8 k]
  by (auto simp: next_str_byte_def next_byte_def next_byte_offset_def nth_append Let_def)

lemma value_iter_next:
  "TLVValueIter_next v i =
     (if i < length (value_iter_bytes v) then (Some (value_iter_bytes v ! i), i + 1) else (None, i))"
  by (cases v) (auto simp: TLVValueIter_next_def value_iter_bytes_def TLVValueIter_variable_len_len_def
      tlv_len_bytes_def payload_def TLVValueType_variable_size_len_def next_str_byte next_byte_def
      next_byte_offset_def Let_def to_le_bytes_def [of 0])

lemma bytes_iter_from:
  "iter_bytes TLVBytesIter_next n \<lparr>bi_control = None, bi_tag = (t, i), bi_value = (v, j)\<rparr> =
     take n (drop i (tag_bytes t) @ drop j (value_iter_bytes v))"
proof (induction n arbitrary: i j)
  case (Suc n)
  show ?case
  proof (cases "i < length (tag_bytes t)")
    case True
    then have "drop i (tag_bytes t) = tag_bytes t ! i # drop (Suc i) (tag_bytes t)" by (simp add: Cons_nth_drop_Suc)
    with True Suc [of "i + 1" j] show ?thesis by (simp add: TLVBytesIter_next_def tag_iter_next)
  next
    case False
    show ?thesis
    proof (cases "j < length (value_iter_bytes v)")
      case True
      then have "drop j (value_iter_bytes v) = value_iter_bytes v ! j # drop (Suc j) (value_iter_bytes v)"
        by (simp add: Cons_nth_drop_Suc)
      with True False Suc [of i "j + 1"] show ?thesis
        by (simp add: TLVBytesIter_next_def tag_iter_next value_iter_next)
    qed (use False in \<open>simp add: TLVBytesIter_next_def tag_iter_next value_iter_next\<close>)
  qed
qed simp

text \<open>
  The iterator over the bytes of a TLV yields exactly what the writer appends, except for
  strings with an eight-byte length field, of which it yields neither length nor content.
\<close>

theorem tlv_bytes_iter_equals_write:
  assumes "WriteBuf_inv w" "length (tlv_bytes t v) \<le> WriteBuf_room w" "length (tlv_bytes t v) \<le> n"
  shows "\<exists>w'. TLVWrite_tlv t v w = (Ok (), w') \<and>
     WriteBuf_view w' = WriteBuf_view w @ iter_bytes TLVBytesIter_next n (TLV_bytes_iter (TLV_new t v)) @
       (if TLVValue_value_type v \<in> {Utf64l_t, Str64l_t} then tlv_len_bytes v @ payload v else [])"
proof -
  have "iter_bytes TLVBytesIter_next (Suc m) (TLV_bytes_iter (TLV_new t v)) =
      TLVControl_as_raw (TLVControl_new (TLVTag_tag_type t) (TLVValue_value_type v)) #
        take m (tag_bytes t @ value_iter_bytes v)" for m
    using bytes_iter_from [of m t 0 v 0] by (simp add: TLV_bytes_iter_def TLV_new_def TLVBytesIter_next_def)
  moreover obtain m where "n = Suc m" using assms(3) by (cases n) (auto simp: tlv_bytes_def)
  moreover have "length (tag_bytes t @ value_iter_bytes v) \<le> m"
    using assms(3) \<open>n = Suc m\<close> by (cases v) (simp_all add: value_iter_bytes_def tlv_bytes_def)
  ultimately have "iter_bytes TLVBytesIter_next n (TLV_bytes_iter (TLV_new t v)) @
      (if TLVValue_value_type v \<in> {Utf64l_t, Str64l_t} then tlv_len_bytes v @ payload v else []) = tlv_bytes t v"
    by (cases v) (simp_all add: value_iter_bytes_def tlv_bytes_def)
  then show ?thesis using writes_ok [OF writes_tlv assms(1,2)] by auto
qed

theorem tlv_bytes_iter_equals_write_witness:
  "\<exists>w'. TLVWrite_tlv (Context 1) (Str8l [5, 6]) tlv_demo_buf = (Ok (), w') \<and>
     WriteBuf_view w' = iter_bytes TLVBytesIter_next 5 (TLV_bytes_iter (TLV_new (Context 1) (Str8l [5, 6])))"
  using tlv_bytes_iter_equals_write [OF tlv_demo_buf_ok(1), of "Context 1" "Str8l [5, 6]" 5] tlv_demo_buf_ok
  by (simp add: length_tlv_bytes payload_def TLVValueType_variable_size_len_def)

subsection \<open>Strings written by a callback\<close>

lemma list_update_prefix: "i = length xs \<Longrightarrow> (xs @ x # ys)[i := y] = xs @ y # ys"
  by (simp add: list_update_append)

lemma slice_mid: "slice_of (A @ d @ X) (length A) (length A + length d) = d"
  by (simp add: slice_of_def)

lemma view_prefix:
  "wb_buf w = S @ Y \<Longrightarrow> wb_end w = length S \<Longrightarrow> wb_start w \<le> length S \<Longrightarrow>
   WriteBuf_view w = drop (wb_start w) S"
  by (simp add: WriteBuf_view_def slice_of_def)

text \<open>The buffer after the header was rewritten, in its two cases.\<close>

lemma finalize_short:
  fixes P tb d X :: bytes
  assumes n: "length d \<le> 0xFF"
    and buf: "wb_buf w = P @ c # tb @ [x, y] @ d @ X"
    and e: "wb_end w = length P + 3 + length tb + length d"
  shows "WriteBuf_finalize_len_header (length P) (length P + 3 + length tb) (length d) tt vt w =
    (Ok (), w\<lparr>wb_buf := P @ TLVControl_as_raw (TLVControl_new tt vt) # tb @ of_nat (length d) # d @
        drop (Suc (length P + 1 + length tb + length d)) (wb_buf w),
      wb_end := wb_end w - 1\<rparr>)"
proof -
  let ?c = "TLVControl_as_raw (TLVControl_new tt vt)" and ?l = "of_nat (length d) :: u8"
  have u1: "(wb_buf w)[length P := ?c] = (P @ ?c # tb) @ x # y # d @ X"
    by (simp add: buf)
  have u2: "((P @ ?c # tb) @ x # y # d @ X)[length P + Suc (length tb) := ?l] = (P @ ?c # tb @ [?l]) @ y # d @ X"
    by (subst list_update_prefix) simp_all
  have d: "slice_of ((P @ ?c # tb @ [?l]) @ y # d @ X) (length P + 3 + length tb)
      (length P + 3 + length tb + length d) = d"
    using slice_mid [of "P @ ?c # tb @ [?l, y]" d X]
    by (simp add: add.commute add.left_commute numeral_3_eq_3)
  have "copy_into ((P @ ?c # tb @ [?l]) @ y # d @ X) (length P + 2 + length tb) d =
      P @ ?c # tb @ ?l # d @ drop (Suc (length P + 1 + length tb + length d)) (wb_buf w)"
    by (simp add: copy_into_def buf drop_Cons')
  with n u1 u2 d e show ?thesis
    by (simp add: WriteBuf_finalize_len_header_def buf Let_def WriteBuf_rewind_tail_to_def WriteBuf_get_tail_def)
qed

lemma finalize_long:
  fixes P tb d X :: bytes
  assumes n: "0xFF < length d" "length d \<le> 0xFFFF" and buf: "wb_buf w = P @ c # tb @ [x, y] @ d @ X"
  shows "WriteBuf_finalize_len_header (length P) (length P + 3 + length tb) (length d) tt vt w =
    (Ok (), w\<lparr>wb_buf := P @ c # tb @ to_le_bytes 2 (of_nat (length d) :: u16) @ d @ X\<rparr>)"
proof -
  have "copy_into ((P @ c # tb) @ [x, y] @ d @ X) (length (P @ c # tb)) (to_le_bytes 2 (of_nat (length d) :: u16)) =
      (P @ c # tb) @ to_le_bytes 2 (of_nat (length d) :: u16) @ d @ X"
    by (simp add: copy_into_def numeral_3_eq_3 del: to_le_bytes_len)
  then show ?thesis using n
    by (simp add: WriteBuf_finalize_len_header_def buf del: to_le_bytes_len)
qed

text \<open>Both callback writers, with the long and the short string type.\<close>

definition cb_with :: "TLVValueType \<Rightarrow> TLVValueType \<Rightarrow> TLVTag \<Rightarrow> (bytes \<Rightarrow> nat res \<times> bytes) \<Rightarrow> (WriteBuf, unit) sr" where
  "cb_with vt16 vt8 tag cb = sr_bind sr_get (\<lambda>w0. let control_offset = WriteBuf_get_tail w0 in
     sr_then (TLVWrite_raw_value tag vt16 (to_le_bytes 2 (0 :: u16)))
     (sr_bind sr_get (\<lambda>w1. let value_offset = WriteBuf_get_tail w1 in
     sr_bind (WriteBuf_append_with_buf cb) (\<lambda>len.
       WriteBuf_finalize_len_header control_offset value_offset len (TLVTag_tag_type tag) vt8))))"

lemma str_cb_with: "WriteBuf_str_cb = cb_with Str16l_t Str8l_t" "WriteBuf_utf8_cb = cb_with Utf16l_t Utf8l_t"
  by (intro ext; simp add: WriteBuf_str_cb_def WriteBuf_utf8_cb_def cb_with_def)+

text \<open>The callback fills the front of the empty part of the buffer with \<open>d\<close> and says so.\<close>

definition cb_fills :: "(bytes \<Rightarrow> nat res \<times> bytes) \<Rightarrow> bytes \<Rightarrow> bool" where
  "cb_fills cb d \<longleftrightarrow> (\<forall>buf. length d \<le> length buf \<longrightarrow>
     (\<exists>ys. cb buf = (Ok (length d), d @ ys) \<and> length (d @ ys) = length buf))"

lemma cb_writes:
  assumes inv: "WriteBuf_inv w" and cb: "cb_fills cb d" and n: "length d \<le> 0xFFFF"
    and room: "3 + length (tag_bytes t) + length d \<le> WriteBuf_room w"
  shows "\<exists>w'. cb_with vt16 vt8 t cb w = (Ok (), w') \<and> WriteBuf_inv w' \<and>
    WriteBuf_view w' = WriteBuf_view w @
      (if length d \<le> 0xFF
       then TLVControl_as_raw (TLVControl_new (TLVTag_tag_type t) vt8) # tag_bytes t @ of_nat (length d) # d
       else TLVControl_as_raw (TLVControl_new (TLVTag_tag_type t) vt16) # tag_bytes t @
         to_le_bytes 2 (of_nat (length d) :: u16) @ d)"
proof -
  let ?c = "TLVControl_as_raw (TLVControl_new (TLVTag_tag_type t) vt16)" and ?tb = "tag_bytes t"
  define P where "P = take (wb_end w) (wb_buf w)"
  have P: "length P = wb_end w" "drop (wb_start w) P = WriteBuf_view w" "wb_start w \<le> length P"
    using inv by (auto simp: P_def WriteBuf_inv_def WriteBuf_view_def slice_of_def drop_take)
  define H where "H = ?c # ?tb @ to_le_bytes 2 (0 :: u16)"
  have H: "length H = 3 + length ?tb" by (simp add: H_def)
  define R where "R = drop (wb_end w + length H) (wb_buf w)"
  define w1 where "w1 = w\<lparr>wb_buf := P @ H @ R, wb_end := wb_end w + length H\<rparr>"
  have w1: "TLVWrite_raw_value t vt16 (to_le_bytes 2 (0 :: u16)) w = (Ok (), w1)"
    using writes_raw_value [of t vt16 "to_le_bytes 2 (0 :: u16)"] inv room H
    by (simp add: writes_def H_def w1_def R_def P_def append_upto_def copy_into_def)
  have sz: "wb_end w1 + (wb_size w - wb_end w1) \<le> length (P @ H @ R)" "wb_end w1 \<le> wb_size w"
      "length d \<le> wb_size w - wb_end w1" "wb_end w1 = length (P @ H)"
    using inv room H P by (auto simp: WriteBuf_inv_def WriteBuf_room_def w1_def R_def)
  define E where "E = slice_of (wb_buf w1) (wb_end w1) (wb_size w)"
  have "length E = wb_size w - wb_end w1" using sz by (simp add: E_def w1_def)
  then obtain ys where ys: "cb E = (Ok (length d), d @ ys)" "length (d @ ys) = wb_size w - wb_end w1"
    using cb [unfolded cb_fills_def, rule_format, of E] sz(3) by auto
  define X where "X = ys @ drop (length (d @ ys)) R"
  define w2 where "w2 = w1\<lparr>wb_buf := P @ H @ d @ X, wb_end := wb_end w1 + length d\<rparr>"
  have lenX: "length (P @ H @ d @ X) = length (wb_buf w1)"
    using sz ys by (simp add: X_def w1_def)
  have copy: "copy_into (P @ H @ R) (wb_end w1) (d @ ys) = P @ H @ d @ X"
    using sz(4) by (simp add: copy_into_def X_def)
  have w2: "WriteBuf_append_with_buf cb w1 = (Ok (length d), w2)"
    using ys copy sz
    by (simp add: WriteBuf_append_with_buf_def slice_ok_def w1_def E_def w2_def Let_def)
  have buf2: "wb_buf w2 = P @ ?c # ?tb @ [0, 0] @ d @ X" "wb_end w2 = length P + 3 + length ?tb + length d"
    by (simp_all add: w2_def H_def to_le_bytes_def numeral_2_eq_2 w1_def P)
  have run: "cb_with vt16 vt8 t cb w =
      WriteBuf_finalize_len_header (length P) (length P + 3 + length ?tb) (length d) (TLVTag_tag_type t) vt8 w2"
    using w1 w2 sz(4) H P(1)
    by (simp add: cb_with_def sr_bind_ok [where s = w and s' = w1] sr_bind_ok [where s = w1 and s' = w2]
        WriteBuf_get_tail_def add.assoc)
  have bounds: "wb_size w2 \<le> length (wb_buf w2)" "wb_end w2 \<le> wb_size w2" "wb_start w2 = wb_start w"
    using lenX inv sz buf2 P H by (auto simp: w2_def w1_def WriteBuf_inv_def)
  show ?thesis
  proof (cases "length d \<le> 0xFF")
    case True
    let ?Y = "drop (Suc (length P + 1 + length ?tb + length d)) (wb_buf w2)"
    let ?S = "P @ TLVControl_as_raw (TLVControl_new (TLVTag_tag_type t) vt8) # ?tb @ of_nat (length d) # d"
    let ?w' = "w2\<lparr>wb_buf := ?S @ ?Y, wb_end := wb_end w2 - 1\<rparr>"
    have fin: "cb_with vt16 vt8 t cb w = (Ok (), ?w')"
      using finalize_short [OF True buf2] run by simp
    have "length ?S = wb_end w2 - 1" using buf2 by simp
    then have "WriteBuf_view ?w' = drop (wb_start w) ?S"
      using view_prefix [of ?w' ?S] bounds P by simp
    moreover have "WriteBuf_inv ?w'" using bounds P buf2 by (auto simp: WriteBuf_inv_def)
    ultimately show ?thesis using fin P True by simp
  next
    case False
    let ?S = "P @ ?c # ?tb @ to_le_bytes 2 (of_nat (length d) :: u16) @ d"
    let ?w' = "w2\<lparr>wb_buf := ?S @ X\<rparr>"
    have fin: "cb_with vt16 vt8 t cb w = (Ok (), ?w')"
      using finalize_long [OF _ n buf2(1)] False run by simp
    have "length ?S = wb_end w2" using buf2 by simp
    then have "WriteBuf_view ?w' = drop (wb_start w) ?S"
      using view_prefix [of ?w' ?S] bounds P by simp
    moreover have "WriteBuf_inv ?w'" using bounds P buf2 by (auto simp: WriteBuf_inv_def)
    ultimately show ?thesis using fin P False by simp
  qed
qed

text \<open>
  A string written through the callback, which has to reserve a two-byte length field before
  the length is known, is afterwards byte for byte the string written from a slice: the header is
  rewritten to the shortest form and the content moved to it.
\<close>

theorem tlv_str_cb_equals_str:
  assumes "WriteBuf_inv w" "cb_fills cb d" "length d \<le> 0xFFFF"
    "3 + length (tag_bytes t) + length d \<le> WriteBuf_room w"
  shows "(\<exists>w1 w2. WriteBuf_str_cb t cb w = (Ok (), w1) \<and> TLVWrite_str t d w = (Ok (), w2) \<and>
      WriteBuf_view w1 = WriteBuf_view w2 \<and> WriteBuf_inv w1) \<and>
    (\<exists>w1 w2. WriteBuf_utf8_cb t cb w = (Ok (), w1) \<and> TLVWrite_utf8 t d w = (Ok (), w2) \<and>
      WriteBuf_view w1 = WriteBuf_view w2 \<and> WriteBuf_inv w1)"
proof -
  have bytes: "(if length d \<le> 0xFF
      then TLVControl_as_raw (TLVControl_new (TLVTag_tag_type t) vt8) # tag_bytes t @ of_nat (length d) # d
      else TLVControl_as_raw (TLVControl_new (TLVTag_tag_type t) vt16) # tag_bytes t @
        to_le_bytes 2 (of_nat (length d) :: u16) @ d) = tlv_bytes t v"
    if "(vt16, vt8, v) \<in> {(Str16l_t, Str8l_t, TLVValue_str d), (Utf16l_t, Utf8l_t, TLVValue_utf8 d)}" for vt16 vt8 v
    using that assms(3) by (auto simp: tlv_bytes_def TLVValue_str_def TLVValue_utf8_def Let_def tlv_len_bytes_def
        payload_def TLVValueType_variable_size_len_def to_le_bytes_len1 [simplified])
  have room: "length (tlv_bytes t v) \<le> WriteBuf_room w" if "v \<in> {TLVValue_str d, TLVValue_utf8 d}" for v
    using that assms(3,4) by (auto simp: length_tlv_bytes TLVValue_str_def TLVValue_utf8_def Let_def
        payload_def TLVValueType_variable_size_len_def)
  note cb = cb_writes [OF assms, of Str16l_t Str8l_t] cb_writes [OF assms, of Utf16l_t Utf8l_t]
  show ?thesis
    using cb bytes writes_ok [OF writes_strings(1) assms(1), of t d] room
      writes_ok [OF writes_strings(2) assms(1), of t d]
    by (auto simp: str_cb_with simp del: to_le_bytes_len split del: if_split)
qed

theorem tlv_str_cb_equals_str_witness:
  "\<exists>w1 w2. WriteBuf_str_cb (Context 2) (\<lambda>buf. (Ok 2, [8, 9] @ drop 2 buf)) tlv_demo_buf = (Ok (), w1) \<and>
     TLVWrite_str (Context 2) [8, 9] tlv_demo_buf = (Ok (), w2) \<and> WriteBuf_view w1 = WriteBuf_view w2"
proof -
  have "cb_fills (\<lambda>buf. (Ok 2, [8, 9] @ drop 2 buf)) [8, 9]" by (auto simp: cb_fills_def)
  then show ?thesis
    using tlv_str_cb_equals_str [OF tlv_demo_buf_ok(1), of _ "[8, 9]" "Context 2"] tlv_demo_buf_ok by fastforce
qed

end
