(* ===== verification/Pairing.thy ===== *)
theory Pairing
  imports Base38 Tlv_Scalars
begin

section \<open>Pairing codes\<close>

text \<open>
  \<^verbatim>\<open>pairing/qr.rs\<close> and \<^verbatim>\<open>pairing/code.rs\<close>: the text of the QR code of a device (a bit string of fixed fields and
  optional TLV data, in base 38) and its manual pairing code (eleven decimal digits). The check digit
  comes from a third-party crate and is a parameter; drawing the QR code is left out.
\<close>

subsection \<open>The QR payload\<close>

datatype CommFlowType = Standard | UserIntent | Custom

fun CommFlowType_as_u32 :: "CommFlowType \<Rightarrow> u32" where
  "CommFlowType_as_u32 Standard = 0"
| "CommFlowType_as_u32 UserIntent = 1"
| "CommFlowType_as_u32 Custom = 2"

record BasicCommData =
  cd_password :: bytes
  cd_discriminator :: u16

record QrPayload =
  qr_version :: u8
  qr_discovery_capabilities :: u8
  qr_comm_flow :: CommFlowType
  qr_comm_data :: BasicCommData
  qr_vid :: u16
  qr_pid :: u16
  qr_serial_no :: bytes
  qr_optional_data :: "u8 res list"

definition QrPayload_new ::
    "u8 \<Rightarrow> CommFlowType \<Rightarrow> BasicCommData \<Rightarrow> u16 \<Rightarrow> u16 \<Rightarrow> bytes \<Rightarrow> u8 res list \<Rightarrow> QrPayload" where
  "QrPayload_new caps flow comm vid pid serial_no opt =
     \<lparr>qr_version = 0, qr_discovery_capabilities = caps, qr_comm_flow = flow, qr_comm_data = comm,
      qr_vid = vid, qr_pid = pid, qr_serial_no = serial_no, qr_optional_data = opt\<rparr>"

definition is_valid_setup_pin :: "u32 \<Rightarrow> bool" where
  "is_valid_setup_pin pin \<longleftrightarrow> \<not> (pin = 0 \<or> pin > 99999998 \<or> pin = 11111111 \<or> pin = 22222222 \<or>
     pin = 33333333 \<or> pin = 44444444 \<or> pin = 55555555 \<or> pin = 66666666 \<or> pin = 77777777 \<or>
     pin = 88888888 \<or> pin = 12345678 \<or> pin = 87654321)"

definition is_valid_operationally :: "u16 \<Rightarrow> bool" where
  "is_valid_operationally v \<longleftrightarrow> v \<noteq> 0 \<and> v \<le> 0xFFF4"

definition QrPayload_check_payload_common_constraints :: "QrPayload \<Rightarrow> bool" where
  "QrPayload_check_payload_common_constraints p \<longleftrightarrow>
     (if qr_version p \<noteq> 0 then False
      else if \<not> is_valid_setup_pin (from_le_bytes (cd_password (qr_comm_data p))) then False
      else if is_valid_operationally (qr_vid p) \<and> qr_vid p \<noteq> 0 then False
      else if qr_pid p = 0 \<and> qr_vid p \<noteq> 0 then False
      else True)"

definition QrPayload_is_valid :: "QrPayload \<Rightarrow> bool" where
  "QrPayload_is_valid p \<longleftrightarrow>
     (if qr_version p \<ge> 8 then False
      else if qr_discovery_capabilities p = 0 then False
      else if (from_le_bytes (cd_password (qr_comm_data p)) :: u32) \<ge> 0x8000000 then False
      else QrPayload_check_payload_common_constraints p)"

subsection \<open>Emitting the text\<close>

definition emit_bits :: "u32 \<Rightarrow> nat \<Rightarrow> bool res list" where
  "emit_bits input len = map (\<lambda>i. Ok (drop_bit i input AND 1 = 1)) [0..<len]"

definition emit_maybe_bits :: "(u32 \<times> nat) res \<Rightarrow> bool res list" where
  "emit_maybe_bits r = (case r of Ok (input, len) \<Rightarrow> emit_bits input len | Err e \<Rightarrow> [Err e] | Panic \<Rightarrow> [Panic])"

text \<open>
  All bytes the byte iterator of a TLV yields; \<open>32\<close> calls more than the string has bytes are enough.
\<close>

definition result_into_bytes :: "TLV \<Rightarrow> u8 res list" where
  "result_into_bytes x = map Ok (iter_bytes TLVBytesIter_next (32 + length (payload (tlv_value x))) (TLV_bytes_iter x))"

definition QrPayload_emit_optional_tlv_data :: "QrPayload \<Rightarrow> u8 res list" where
  "QrPayload_emit_optional_tlv_data p =
     (if qr_serial_no p = [] \<and> qr_optional_data p = [] then []
      else result_into_bytes (TLV_new Anonymous Struct) @
        (if qr_serial_no p = [] then []
         else result_into_bytes (TLV_new (Context 0) (TLVValue_utf8 (qr_serial_no p)))) @
        qr_optional_data p @ result_into_bytes (TLV_new Anonymous EndCnt))"

definition QrPayload_emit_all_bits :: "QrPayload \<Rightarrow> bool res list" where
  "QrPayload_emit_all_bits p =
     emit_bits (ucast (qr_version p)) 3 @ emit_bits (ucast (qr_vid p)) 16 @
     emit_bits (ucast (qr_pid p)) 16 @ emit_bits (CommFlowType_as_u32 (qr_comm_flow p)) 2 @
     emit_bits (ucast (qr_discovery_capabilities p)) 8 @
     emit_bits (ucast (cd_discriminator (qr_comm_data p))) 12 @
     emit_bits (from_le_bytes (cd_password (qr_comm_data p))) 27 @ emit_bits 0 4 @
     concat (map (\<lambda>b. emit_maybe_bits (res_bind b (\<lambda>x. Ok (ucast x, 8)))) (QrPayload_emit_optional_tlv_data p))"

text \<open>\<^verbatim>\<open>PackedBitsIterator::next\<close>: up to 24 bits; an error among them is returned and the bits before it are lost.\<close>

definition packed_result :: "u32 \<Rightarrow> nat \<Rightarrow> (u32 \<times> nat) res option" where
  "packed_result chunk packed_bits = (if packed_bits > 0
     then (if packed_bits mod 8 = 0 then Some (Ok (chunk, packed_bits)) else Some Panic) else None)"

fun packed_loop :: "nat \<Rightarrow> nat \<Rightarrow> u32 \<Rightarrow> bool res list \<Rightarrow> (u32 \<times> nat) res option \<times> bool res list" where
  "packed_loop 0 index chunk bits = (packed_result chunk index, bits)"
| "packed_loop (Suc k) index chunk [] = (packed_result chunk index, [])"
| "packed_loop (Suc k) index chunk (Ok b # bits) =
     packed_loop k (Suc index) (chunk OR push_bit index (of_bool b)) bits"
| "packed_loop (Suc k) index chunk (Err e # bits) = (Some (Err e), bits)"
| "packed_loop (Suc k) index chunk (Panic # bits) = (Some Panic, bits)"

definition packed_next :: "bool res list \<Rightarrow> (u32 \<times> nat) res option \<times> bool res list" where
  "packed_next bits = packed_loop 24 0 0 bits"

lemma packed_loop_length: "packed_loop k i c bits = (r, rest) \<Longrightarrow> length rest \<le> length bits"
  by (induction k i c bits rule: packed_loop.induct) auto

lemma packed_next_shorter: "packed_next bits = (Some r, rest) \<Longrightarrow> length rest < length bits"
proof -
  assume r: "packed_next bits = (Some r, rest)"
  show ?thesis
  proof (cases bits)
    case Nil
    with r show ?thesis by (simp add: packed_next_def numeral_eq_Suc packed_result_def)
  next
    case (Cons b bs)
    with r show ?thesis
      by (cases b) (auto simp: packed_next_def numeral_eq_Suc dest!: packed_loop_length)
  qed
qed

function packed_chars :: "bool res list \<Rightarrow> u8 res list" where
  "packed_chars bits = (case packed_next bits of
       (None, _) \<Rightarrow> []
     | (Some r, rest) \<Rightarrow> (case res_bind r (\<lambda>(chunk, n). encode_bits chunk n) of
           Ok cs \<Rightarrow> map Ok cs | Err e \<Rightarrow> [Err e] | Panic \<Rightarrow> [Panic]) @ packed_chars rest)"
  by pat_completeness auto

termination packed_chars
  by (relation "measure length") (auto dest: packed_next_shorter [OF sym])

declare packed_chars.simps [simp del]

definition QrPayload_emit_chars :: "QrPayload \<Rightarrow> u8 res list" where
  "QrPayload_emit_chars p = map Ok [77, 84, 58] @ packed_chars (QrPayload_emit_all_bits p)"

text \<open>
  \<^verbatim>\<open>as_str\<close> counts the characters, splits the buffer there (a panic when it is shorter), and writes them; the
  rest of the buffer is returned beside the text.
\<close>

definition QrPayload_as_str :: "QrPayload \<Rightarrow> bytes \<Rightarrow> (bytes \<times> bytes) res" where
  "QrPayload_as_str p buf = (let chars = QrPayload_emit_chars p; n = length chars in
     if length buf < n then Panic
     else res_bind (res_mapM (\<lambda>c. c) chars) (\<lambda>cs. Ok (cs, drop n buf)))"

subsection \<open>The text decodes to the fields\<close>

definition bytes_bits :: "bytes \<Rightarrow> bool list" where
  "bytes_bits bs = concat (map (\<lambda>b. map (bit b) [0..<8]) bs)"

lemma length_bytes_bits [simp]: "length (bytes_bits bs) = 8 * length bs"
  by (induction bs) (simp_all add: bytes_bits_def)

lemma bytes_bits_append [simp]: "bytes_bits (xs @ ys) = bytes_bits xs @ bytes_bits ys"
  by (simp add: bytes_bits_def)

lemma bytes_bits_nth: "i < 8 * length bs \<Longrightarrow> bytes_bits bs ! i \<longleftrightarrow> bit (bs ! (i div 8)) (i mod 8)"
proof (induction bs arbitrary: i)
  case (Cons b bs)
  show ?case
  proof (cases "i < 8")
    case True
    then show ?thesis by (simp add: bytes_bits_def nth_append)
  next
    case False
    then have "i div 8 = Suc ((i - 8) div 8)" "(i - 8) mod 8 = i mod 8"
      by (simp_all add: le_div_geq le_mod_geq)
    with False Cons.IH [of "i - 8"] Cons.prems show ?thesis by (simp add: bytes_bits_def nth_append)
  qed
qed simp

lemma emit_bits_Ok: "emit_bits w n = map Ok (map (bit w) [0..<n])"
  by (simp add: emit_bits_def bit_iff_odd_drop_bit and_one_eq odd_iff_mod_2_eq_one)

lemma emit_byte_bits: "emit_bits (ucast (b :: u8)) 8 = map Ok (bytes_bits [b])"
  by (auto simp: emit_bits_Ok bytes_bits_def bit_ucast_iff)

lemma packed_loop_Ok:
  "packed_loop k i c (map Ok bs) = (let n = min k (length bs) in
     (packed_result (c OR push_bit i (horner_sum of_bool 2 (take n bs))) (i + n), map Ok (drop n bs)))"
proof (induction k arbitrary: i c bs)
  case (Suc k)
  show ?case
  proof (cases bs)
    case (Cons b bs')
    have "c OR push_bit i (of_bool b) OR push_bit (Suc i) (horner_sum of_bool 2 xs) =
        c OR push_bit i (horner_sum of_bool 2 (b # xs))" for xs :: "bool list"
      by (rule bit_word_eqI)
        (auto simp: bit_or_iff bit_push_bit_iff bit_horner_sum_bit_word_iff bit_of_bool_iff nth_Cons'
          simp del: horner_sum_simps push_bit_Suc)
    with Suc [of "Suc i" _ bs'] Cons show ?thesis by (simp add: Let_def or.assoc del: horner_sum_simps push_bit_Suc)
  qed (simp add: Let_def)
qed (simp add: Let_def)

lemma horner_bytes: "length bs \<le> 4 \<Longrightarrow> horner_sum of_bool 2 (bytes_bits bs) = (from_le_bytes bs :: u32)"
  by (rule bit_word_eqI) (auto simp: bit_horner_sum_bit_word_iff bit_from_le_bytes bytes_bits_nth less_mult_imp_div_less)

lemma take_bytes_bits: "take (8 * n) (bytes_bits bs) = bytes_bits (take n bs)"
  "drop (8 * n) (bytes_bits bs) = bytes_bits (drop n bs)"
proof -
  have split: "bytes_bits bs = bytes_bits (take n bs) @ bytes_bits (drop n bs)"
    by (metis append_take_drop_id bytes_bits_append)
  have nil: "bytes_bits [] = []" by (simp add: bytes_bits_def)
  show "take (8 * n) (bytes_bits bs) = bytes_bits (take n bs)"
    by (cases "length bs \<le> n") (simp, subst split, simp add: min_def)
  show "drop (8 * n) (bytes_bits bs) = bytes_bits (drop n bs)"
    by (cases "length bs \<le> n") (simp add: nil, subst split, simp add: min_def)
qed

lemma packed_next_bytes:
  "packed_next (map Ok (bytes_bits bs)) = (let n = min 3 (length bs) in
     (packed_result (from_le_bytes (take n bs)) (8 * n), map Ok (bytes_bits (drop n bs))))"
proof -
  have n: "min 24 (length (bytes_bits bs)) = 8 * min 3 (length bs)" by simp
  have "length (take (min 3 (length bs)) bs) \<le> 4" by simp
  then show ?thesis
    by (simp only: packed_next_def packed_loop_Ok n Let_def take_bytes_bits horner_bytes push_bit_of_0 push_bit_0_id id_apply
        or.left_neutral add_0)
qed

lemma packed_chars_bytes: "packed_chars (map Ok (bytes_bits bs)) = map Ok (encode bs)"
proof (induction "length bs" arbitrary: bs rule: less_induct)
  case less
  consider "bs = []" | "bs \<noteq> []" "length bs < 3" | "3 \<le> length bs" by linarith
  then show ?case
  proof cases
    case 1
    then show ?thesis
      by (subst packed_chars.simps) (simp add: packed_next_bytes packed_result_def encode_short group_chars_def)
  next
    case 2
    then have "0 < length bs" "length bs < 3" by simp_all
    then have "length bs = 1 \<or> length bs = 2" by linarith
    moreover have "packed_chars (map Ok (bytes_bits [])) = []"
      by (subst packed_chars.simps) (simp add: packed_next_bytes packed_result_def)
    ultimately show ?thesis using 2 packed_next_bytes [of bs]
      by (subst packed_chars.simps)
        (auto simp: packed_result_def encode_bits_def encode_short group_chars_def Let_def min_def)
  next
    case 3
    define xs ys where "xs = take 3 bs" and "ys = drop 3 bs"
    then have xs: "length xs = 3" "bs = xs @ ys" "length ys < length bs" using 3 by simp_all
    have "packed_next (map Ok (bytes_bits bs)) = (Some (Ok (from_le_bytes xs, 24)), map Ok (bytes_bits ys))"
      using 3 by (simp add: packed_next_bytes packed_result_def xs_def ys_def Let_def min_def)
    then have "packed_chars (map Ok (bytes_bits bs)) =
        map Ok (encode_base38 (from_le_bytes xs) 5) @ packed_chars (map Ok (bytes_bits ys))"
      by (subst packed_chars.simps) (simp add: encode_bits_def)
    then show ?thesis using less [OF xs(3)] by (simp add: xs(2) encode_step [OF xs(1)])
  qed
qed

lemma bits_bytes: "length B = 8 * n \<Longrightarrow> \<exists>bs. length bs = n \<and> bytes_bits bs = B"
proof (induction n arbitrary: B)
  case 0
  then show ?case by (simp add: bytes_bits_def)
next
  case (Suc n)
  then have "length (drop 8 B) = 8 * n" by simp
  from Suc.IH [OF this] obtain bs where bs: "length bs = n" "bytes_bits bs = drop 8 B" by blast
  let ?b = "horner_sum of_bool 2 (take 8 B) :: u8"
  have "map (bit ?b) [0..<8] = take 8 B"
    using Suc.prems by (intro nth_equalityI) (auto simp: bit_horner_sum_bit_word_iff)
  then have "bytes_bits (?b # bs) = B" using bs(2) by (simp add: bytes_bits_def del: upt_conv_Cons_Cons)
  with bs(1) show ?case by (intro exI [of _ "?b # bs"]) simp
qed

text \<open>A field of the bit string, least significant bit first.\<close>

definition qr_field :: "bytes \<Rightarrow> nat \<Rightarrow> nat \<Rightarrow> nat" where
  "qr_field bs off len = horner_sum of_bool 2 (take len (drop off (bytes_bits bs)))"

lemma horner_bits: "n \<le> 32 \<Longrightarrow> horner_sum of_bool 2 (map (bit (w :: u32)) [0..<n]) = unat w mod 2 ^ n"
proof -
  assume "n \<le> 32"
  then have "map (bit w) [0..<n] = map (bit (unat w)) [0..<n]" by (auto simp: bit_unsigned_iff)
  then show ?thesis by (simp only: horner_sum_bit_eq_take_bit take_bit_eq_mod)
qed

lemma unat_ucast_mod: "LENGTH('a::len) \<le> 32 \<Longrightarrow> unat (ucast (w :: 'a word) :: u32) = unat w"
  by (rule unat_ucast_up) simp

definition qr_tlv :: "bytes \<Rightarrow> bytes \<Rightarrow> bytes" where
  "qr_tlv serial_no opt = (if serial_no = [] \<and> opt = [] then []
     else 0x15 # (if serial_no = [] then [] else tlv_bytes (Context 0) (TLVValue_utf8 serial_no)) @ opt @ [0x18])"

lemma result_into_bytes_tlv:
  assumes "TLVValue_value_type v \<notin> {Utf64l_t, Str64l_t}"
  shows "result_into_bytes (TLV_new t v) = map Ok (tlv_bytes t v)"
proof -
  have "TLVTagType_size (TLVTag_tag_type t) \<le> 8" by (cases t) auto
  moreover have "TLVValueType_variable_size_len (TLVValue_value_type v) \<le> 8"
    by (cases v) (auto simp: TLVValueType_variable_size_len_def)
  ultimately have "length (tag_bytes t @ tlv_len_bytes v @ payload v) \<le> 31 + length (payload v)" by simp
  moreover have "value_iter_bytes v = tlv_len_bytes v @ payload v" using assms by (cases v) (simp_all add: value_iter_bytes_def)
  ultimately show ?thesis using bytes_iter_from [of "31 + length (payload v)" t 0 v 0]
    by (simp add: result_into_bytes_def TLV_bytes_iter_def TLV_new_def TLVBytesIter_next_def tlv_bytes_def numeral_eq_Suc)
qed

lemma optional_tlv_data:
  assumes "qr_optional_data p = map Ok opt" "length (qr_serial_no p) < 2 ^ 32"
  shows "QrPayload_emit_optional_tlv_data p = map Ok (qr_tlv (qr_serial_no p) opt)"
proof -
  have "TLVValue_value_type (TLVValue_utf8 (qr_serial_no p)) \<notin> {Utf64l_t, Str64l_t}"
    using assms(2) by (auto simp: TLVValue_utf8_def Let_def)
  moreover have "tlv_bytes Anonymous Struct = [0x15]" "tlv_bytes Anonymous EndCnt = [0x18]"
    by (simp_all add: tlv_bytes_def TLVControl_as_raw_def tlv_len_bytes_def payload_def
        TLVValueType_variable_size_len_def to_le_bytes_def)
  ultimately show ?thesis
    using assms(1) by (auto simp: QrPayload_emit_optional_tlv_data_def qr_tlv_def result_into_bytes_tlv)
qed

text \<open>
  Claim C39: the text of the QR code carries the onboarding payload. It is \<open>MT:\<close> followed by the base-38
  encoding of a byte string from which every field can be read back at its place (the discriminator's
  low twelve bits, the passcode's low 27), followed by the TLV structure with the serial number and the optional
  data; and decoding the base-38 part gives that byte string.
\<close>

theorem qr_text_carries_payload:
  assumes "qr_optional_data p = map Ok opt" "length (qr_serial_no p) < 2 ^ 32"
  shows "\<exists>bs. QrPayload_emit_chars p = map Ok ([77, 84, 58] @ encode bs) \<and> decode (encode bs) = bs \<and>
    qr_field bs 0 3 = unat (qr_version p) mod 8 \<and> qr_field bs 3 16 = unat (qr_vid p) \<and>
    qr_field bs 19 16 = unat (qr_pid p) \<and> qr_field bs 35 2 = unat (CommFlowType_as_u32 (qr_comm_flow p)) \<and>
    qr_field bs 37 8 = unat (qr_discovery_capabilities p) \<and>
    qr_field bs 45 12 = unat (cd_discriminator (qr_comm_data p)) mod 4096 \<and>
    qr_field bs 57 27 = unat (from_le_bytes (cd_password (qr_comm_data p)) :: u32) mod 2 ^ 27 \<and>
    drop 11 bs = qr_tlv (qr_serial_no p) opt"
proof -
  let ?f = "\<lambda>(w :: u32) n. map (bit w) [0..<n]"
  let ?pin = "from_le_bytes (cd_password (qr_comm_data p)) :: u32" and ?tlv = "qr_tlv (qr_serial_no p) opt"
  let ?F = "?f (ucast (qr_version p)) 3 @ ?f (ucast (qr_vid p)) 16 @ ?f (ucast (qr_pid p)) 16 @
    ?f (CommFlowType_as_u32 (qr_comm_flow p)) 2 @ ?f (ucast (qr_discovery_capabilities p)) 8 @
    ?f (ucast (cd_discriminator (qr_comm_data p))) 12 @ ?f ?pin 27 @ ?f 0 4"
  have "length ?F = 8 * 11" by simp
  then obtain hs where hs: "length hs = 11" "bytes_bits hs = ?F" using bits_bytes by blast
  define bs where "bs = hs @ ?tlv"
  have bits: "bytes_bits bs = ?F @ bytes_bits ?tlv" by (simp add: bs_def hs)
  have "concat (map (\<lambda>b. emit_maybe_bits (res_bind b (\<lambda>x. Ok (ucast x, 8)))) (map Ok bt)) = map Ok (bytes_bits bt)" for bt
  proof (induction bt)
    case (Cons b bt)
    then show ?case using bytes_bits_append [of "[b]" bt] by (simp add: emit_maybe_bits_def emit_byte_bits)
  qed (simp add: bytes_bits_def)
  then have "QrPayload_emit_all_bits p = map Ok (bytes_bits bs)"
    by (simp add: QrPayload_emit_all_bits_def optional_tlv_data [OF assms] emit_bits_Ok bits)
  then have chars: "QrPayload_emit_chars p = map Ok ([77, 84, 58] @ encode bs)"
    by (simp add: QrPayload_emit_chars_def packed_chars_bytes)
  have
    v: "qr_field bs 0 3 = unat (ucast (qr_version p) :: u32) mod 2 ^ 3" and
    vid: "qr_field bs 3 16 = unat (ucast (qr_vid p) :: u32) mod 2 ^ 16" and
    pid: "qr_field bs 19 16 = unat (ucast (qr_pid p) :: u32) mod 2 ^ 16" and
    flow: "qr_field bs 35 2 = unat (CommFlowType_as_u32 (qr_comm_flow p)) mod 2 ^ 2" and
    caps: "qr_field bs 37 8 = unat (ucast (qr_discovery_capabilities p) :: u32) mod 2 ^ 8" and
    disc: "qr_field bs 45 12 = unat (ucast (cd_discriminator (qr_comm_data p)) :: u32) mod 2 ^ 12" and
    pin: "qr_field bs 57 27 = unat ?pin mod 2 ^ 27"
    by (simp_all add: qr_field_def bits horner_bits)
  have "unat (CommFlowType_as_u32 (qr_comm_flow p)) < 4" by (cases "qr_comm_flow p") simp_all
  moreover note unat_bounds_u16 [of "qr_vid p"] unat_bounds_u16 [of "qr_pid p"]
    unat_bounds_u8 [of "qr_discovery_capabilities p"]
  moreover have "drop 11 bs = ?tlv" by (simp add: bs_def hs)
  ultimately show ?thesis using chars v vid pid flow caps disc pin
    by (intro exI [of _ bs]) (simp add: decode_encode unat_ucast_mod)
qed

definition demo_qr :: QrPayload where
  "demo_qr = QrPayload_new 4 Standard \<lparr>cd_password = to_le_bytes 4 (20202021 :: u32), cd_discriminator = 3840\<rparr>
     0xFFF1 0x8001 [] []"

theorem qr_text_carries_payload_witness:
  "\<exists>bs. QrPayload_emit_chars demo_qr = map Ok ([77, 84, 58] @ encode bs) \<and> qr_field bs 3 16 = 0xFFF1 \<and>
     qr_field bs 45 12 = 3840 \<and> qr_field bs 57 27 = 20202021"
  using qr_text_carries_payload [of demo_qr "[]"]
  by (auto simp: demo_qr_def QrPayload_new_def)

text \<open>
  The validity check of the payload has its vendor test the wrong way round. It refuses every payload with an
  assigned vendor identifier, also the one of the repository's own example, and accepts the identifiers above the range.
\<close>

theorem qr_valid_vendor_inverted:
  "(QrPayload_is_valid p \<longrightarrow> qr_vid p = 0 \<or> qr_vid p > 0xFFF4) \<and>
   \<not> QrPayload_is_valid demo_qr \<and> QrPayload_is_valid (demo_qr\<lparr>qr_vid := 0xFFFF\<rparr>)"
  by (auto simp: QrPayload_is_valid_def QrPayload_check_payload_common_constraints_def is_valid_operationally_def
      is_valid_setup_pin_def demo_qr_def QrPayload_new_def not_le split: if_splits)

theorem qr_valid_vendor_inverted_witness: "\<not> QrPayload_is_valid (demo_qr\<lparr>qr_vid := 0x1234\<rparr>)"
  using qr_valid_vendor_inverted [of "demo_qr\<lparr>qr_vid := 0x1234\<rparr>"] by auto

subsection \<open>The manual pairing code\<close>

text \<open>Decimal output with a minimal width, as the format strings \<^verbatim>\<open>{}\<close>, \<^verbatim>\<open>{:0>5}\<close> and \<^verbatim>\<open>{:0>4}\<close> ask for it; digits are numbers below ten.\<close>

fun decimal :: "nat \<Rightarrow> nat list" where
  "decimal n = (if n < 10 then [n] else decimal (n div 10) @ [n mod 10])"

declare decimal.simps [simp del]

lemma decimal_digit: "n < 10 \<Longrightarrow> decimal n = [n]"
  by (simp add: decimal.simps)

definition pad0 :: "nat \<Rightarrow> nat list \<Rightarrow> nat list" where
  "pad0 w ds = replicate (w - length ds) 0 @ ds"

text \<open>
  \<^verbatim>\<open>compute_pairing_code\<close>: the digits are written into a string of capacity ten, which the code unwraps; \<open>check_digit\<close> is the
  Verhoeff check digit of the digits, from the crate \<^verbatim>\<open>verhoeff\<close>.
\<close>

definition BasicCommData_compute_pairing_code :: "(nat list \<Rightarrow> nat) \<Rightarrow> BasicCommData \<Rightarrow> nat list res" where
  "BasicCommData_compute_pairing_code check_digit c =
     (let password = from_le_bytes (cd_password c) :: u32;
          discriminator = cd_discriminator c;
          d0 = decimal (unat (push_bit 2 (0 :: u8) OR ucast (drop_bit 10 discriminator)));
          d1 = pad0 5 (decimal (unat (push_bit 6 (discriminator AND 0x300) OR ucast (password AND 0x3FFF))));
          d2 = pad0 4 (decimal (unat (drop_bit 14 password)));
          digits = d0 @ d1 @ d2
      in if length digits \<le> 10
         then (let final_digits = digits @ decimal (check_digit digits)
               in if length final_digits \<le> 11 then Ok final_digits else Panic)
         else Panic)"

text \<open>The dashes are \<open>None\<close>.\<close>

definition BasicCommData_compute_pretty_pairing_code :: "(nat list \<Rightarrow> nat) \<Rightarrow> BasicCommData \<Rightarrow> nat option list res" where
  "BasicCommData_compute_pretty_pairing_code check_digit c =
     res_bind (BasicCommData_compute_pairing_code check_digit c) (\<lambda>code.
       if 8 \<le> length code
       then Ok (map Some (take 4 code) @ [None] @ map Some (slice_of code 4 8) @ [None] @ map Some (drop 8 code))
       else Panic)"

text \<open>Reading digits.\<close>

definition undecimal :: "nat list \<Rightarrow> nat" where
  "undecimal ds = foldl (\<lambda>x d. 10 * x + d) 0 ds"

lemma undecimal_snoc: "undecimal (ds @ [d]) = 10 * undecimal ds + d"
  by (simp add: undecimal_def)

lemma undecimal_decimal: "undecimal (decimal n) = n"
proof (induction n rule: decimal.induct)
  case (1 n)
  then show ?case by (subst decimal.simps) (simp add: undecimal_snoc, simp add: undecimal_def)
qed

lemma undecimal_pad0: "undecimal (pad0 w ds) = undecimal ds"
proof -
  have "foldl (\<lambda>x d. 10 * x + d) 0 (replicate k 0 @ ds) = foldl (\<lambda>x d. 10 * x + d) (0::nat) ds" for k
    by (induction k) simp_all
  then show ?thesis by (simp add: undecimal_def pad0_def)
qed

lemma length_decimal: "n < 10 ^ k \<Longrightarrow> 0 < k \<Longrightarrow> length (decimal n) \<le> k"
proof (induction k arbitrary: n)
  case (Suc k)
  show ?case
  proof (cases "n < 10")
    case True
    then show ?thesis by (simp add: decimal.simps)
  next
    case False
    then have "n div 10 < 10 ^ k" "0 < k" using Suc.prems by (auto simp: less_mult_imp_div_less) (cases k; simp)
    with Suc.IH [of "n div 10"] False show ?thesis by (subst decimal.simps) simp
  qed
qed simp

lemma length_pad0: "length ds \<le> w \<Longrightarrow> length (pad0 w ds) = w"
  by (simp add: pad0_def)

text \<open>The middle group holds two bits of the discriminator above fourteen bits of the passcode.\<close>

lemma middle_group:
  fixes d :: u16 and p :: u32
  defines "m \<equiv> push_bit 6 (d AND 0x300) OR ucast (p AND 0x3FFF)"
  shows "unat m div 2 ^ 14 = unat d div 2 ^ 8 mod 4" "unat m mod 2 ^ 14 = unat p mod 2 ^ 14"
proof -
  have c: "(0x300 :: u16) = push_bit 8 (mask 2)" "(0x3FFF :: u32) = mask 14"
    by (simp_all add: mask_eq_exp_minus_1)
  have "drop_bit 14 m = take_bit 2 (drop_bit 8 d)"
    unfolding m_def c by (rule bit_word_eqI) (auto simp: bit_simps)
  then have "unat (drop_bit 14 m) = unat (take_bit 2 (drop_bit 8 d))" by simp
  then show "unat m div 2 ^ 14 = unat d div 2 ^ 8 mod 4"
    by (simp add: unsigned_drop_bit_eq unsigned_take_bit_eq drop_bit_eq_div take_bit_eq_mod unat_div unat_mod)
  have "take_bit 14 m = ucast (take_bit 14 p)"
    unfolding m_def c by (rule bit_word_eqI) (auto simp: bit_simps)
  then have "unat (take_bit 14 m) = unat (ucast (take_bit 14 p) :: u16)" by simp
  then show "unat m mod 2 ^ 14 = unat p mod 2 ^ 14"
    using mod_less [of "unat p mod 16384" 65536]
    by (simp add: unsigned_take_bit_eq unsigned_ucast_eq take_bit_eq_mod unat_mod)
qed

text \<open>
  For a twelve-bit discriminator and a 27-bit passcode the manual pairing code is computed without a panic, has
  exactly eleven digits, ends with the check digit, and determines the upper four bits of the discriminator and the passcode.
\<close>

theorem pairing_code_roundtrip:
  assumes check: "\<And>ds. check_digit ds < 10"
    and disc: "unat (cd_discriminator c) < 2 ^ 12"
    and pin: "unat (from_le_bytes (cd_password c) :: u32) < 2 ^ 27"
  shows "\<exists>code. BasicCommData_compute_pairing_code check_digit c = Ok code \<and> length code = 11 \<and>
    last code = check_digit (take 10 code) \<and>
    undecimal (take 1 code) * 4 + undecimal (slice_of code 1 6) div 2 ^ 14 = unat (cd_discriminator c) div 2 ^ 8 \<and>
    undecimal (slice_of code 6 10) * 2 ^ 14 + undecimal (slice_of code 1 6) mod 2 ^ 14 =
      unat (from_le_bytes (cd_password c) :: u32)"
proof -
  let ?d = "cd_discriminator c" and ?p = "from_le_bytes (cd_password c) :: u32"
  define m where "m = unat (push_bit 6 (?d AND 0x300) OR ucast (?p AND 0x3FFF))"
  have mid: "m div 2 ^ 14 = unat ?d div 2 ^ 8 mod 4" "m mod 2 ^ 14 = unat ?p mod 2 ^ 14"
    unfolding m_def by (rule middle_group)+
  have m: "m < 65536" unfolding m_def by (rule unat_bounds_u16)
  define d0 where "d0 = decimal (unat (push_bit 2 (0 :: u8) OR ucast (drop_bit 10 ?d)))"
  define d1 where "d1 = pad0 5 (decimal m)"
  define d2 where "d2 = pad0 4 (decimal (unat (drop_bit 14 ?p)))"
  have a: "unat (push_bit 2 (0 :: u8) OR ucast (drop_bit 10 ?d)) = unat ?d div 2 ^ 10"
    using disc by (simp add: unsigned_ucast_eq unsigned_drop_bit_eq drop_bit_eq_div take_bit_nat_eq_self less_mult_imp_div_less
      unat_div)
  have b: "unat (drop_bit 14 ?p) = unat ?p div 2 ^ 14" by (simp add: unsigned_drop_bit_eq drop_bit_eq_div unat_div)
  have "unat ?d div 2 ^ 10 < 10" using disc by (simp add: less_mult_imp_div_less)
  then have d0: "length d0 = 1" "undecimal d0 = unat ?d div 2 ^ 10"
    unfolding d0_def a by (simp_all add: decimal_digit undecimal_def)
  have d1: "length d1 = 5" "undecimal d1 = m"
    using m length_decimal [of m 5] by (simp_all add: d1_def length_pad0 undecimal_pad0 undecimal_decimal)
  have "unat ?p div 2 ^ 14 < 10 ^ 4"
    using pin by (simp add: less_mult_imp_div_less)
  then have d2: "length d2 = 4" "undecimal d2 = unat ?p div 2 ^ 14"
    using length_decimal [of "unat (drop_bit 14 ?p)" 4]
    by (simp_all add: d2_def length_pad0 undecimal_pad0 undecimal_decimal b)
  define code where "code = d0 @ d1 @ d2 @ [check_digit (d0 @ d1 @ d2)]"
  have "BasicCommData_compute_pairing_code check_digit c = Ok code"
    using d0 d1 d2 check [of "d0 @ d1 @ d2"]
    unfolding BasicCommData_compute_pairing_code_def Let_def d0_def [symmetric] m_def [symmetric]
      d1_def [symmetric] d2_def [symmetric]
    by (simp add: code_def decimal_digit)
  moreover have "length code = 11" "last code = check_digit (take 10 code)" "take 1 code = d0"
      "slice_of code 1 6 = d1" "slice_of code 6 10 = d2"
    using d0 d1 d2 by (simp_all add: code_def slice_of_def)
  moreover have "unat ?d div 2 ^ 10 * 4 + unat ?d div 2 ^ 8 mod 4 = unat ?d div 2 ^ 8"
    using div_mult_mod_eq [of "unat ?d div 2 ^ 8" 4] by (simp add: div_mult2_eq [symmetric])
  ultimately show ?thesis
    using d0(2) d1(2) d2(2) mid by (intro exI [of _ code]) simp
qed

theorem pairing_code_roundtrip_witness:
  "\<exists>code. BasicCommData_compute_pairing_code (\<lambda>ds. sum_list ds mod 10)
     \<lparr>cd_password = to_le_bytes 4 (20202021 :: u32), cd_discriminator = 3840\<rparr> = Ok code \<and> length code = 11"
  using pairing_code_roundtrip [of "\<lambda>ds. sum_list ds mod 10"
      "\<lparr>cd_password = to_le_bytes 4 (20202021 :: u32), cd_discriminator = 3840\<rparr>"] by auto

end
