(* ===== verification/Changed_Attrs.thy ===== *)
theory Changed_Attrs
  imports Prelude
begin

section \<open>The table of changed attributes\<close>

text \<open>
  \<^verbatim>\<open>ChangedAttrs\<close> and \<^verbatim>\<open>ChangedAttr\<close> of \<^verbatim>\<open>dm/subscriptions.rs\<close>: the changes of attributes the
  subscriptions have yet to report, at most \<open>MAX_CHANGED_ATTRS\<close> of them. Every change gets the next
  change identifier; a subscription remembers the largest one it has reported and asks for what
  came after it. When the table is full, entries are merged into coarser wildcards.

  What the subscriptions rely on is the locale \<open>change_log\<close>: whatever was recorded after an
  identifier is found by a query for that identifier, and a query finds something only when
  something was recorded. The table is an interpretation of it. Beyond that the theory shows that no operation panics, that the loop which merges entries ends,
  and that the table is exact as long as at most \<open>MAX_CHANGED_ATTRS\<close> different attributes change.
\<close>

subsection \<open>One changed attribute\<close>

definition WILDCARD_ENDPOINT :: u16 where "WILDCARD_ENDPOINT = - 1"

definition WILDCARD_CLUSTER :: u32 where "WILDCARD_CLUSTER = - 1"

definition WILDCARD_ATTR :: u32 where "WILDCARD_ATTR = - 1"

definition MAX_CHANGED_ATTRS :: nat where "MAX_CHANGED_ATTRS = 16"

record ChangedAttr =
  ca_endpoint :: u16
  ca_cluster :: u32
  ca_attr :: u32
  ca_change_id :: u64

definition ChangedAttr_concrete :: "u16 \<Rightarrow> u32 \<Rightarrow> u32 \<Rightarrow> u64 \<Rightarrow> ChangedAttr" where
  "ChangedAttr_concrete endpoint cluster attr change_id =
     \<lparr>ca_endpoint = endpoint, ca_cluster = cluster, ca_attr = attr, ca_change_id = change_id\<rparr>"

definition ChangedAttr_is_endpoint_wildcard :: "ChangedAttr \<Rightarrow> bool" where
  "ChangedAttr_is_endpoint_wildcard x \<longleftrightarrow> ca_endpoint x = WILDCARD_ENDPOINT"

definition ChangedAttr_is_cluster_wildcard :: "ChangedAttr \<Rightarrow> bool" where
  "ChangedAttr_is_cluster_wildcard x \<longleftrightarrow> ca_cluster x = WILDCARD_CLUSTER"

definition ChangedAttr_is_attr_wildcard :: "ChangedAttr \<Rightarrow> bool" where
  "ChangedAttr_is_attr_wildcard x \<longleftrightarrow> ca_attr x = WILDCARD_ATTR"

definition ChangedAttr_matches :: "ChangedAttr \<Rightarrow> u16 \<Rightarrow> u32 \<Rightarrow> u32 \<Rightarrow> bool" where
  "ChangedAttr_matches x endpoint cluster attr \<longleftrightarrow>
     (ChangedAttr_is_endpoint_wildcard x \<or> ca_endpoint x = endpoint) \<and>
     (ChangedAttr_is_cluster_wildcard x \<or> ca_cluster x = cluster) \<and>
     (ChangedAttr_is_attr_wildcard x \<or> ca_attr x = attr)"

definition cov :: "'t \<Rightarrow> bool \<Rightarrow> 't \<Rightarrow> bool \<Rightarrow> bool" where
  "cov a a_wild b b_wild = (if a_wild then True else if b_wild then False else a = b)"

definition ChangedAttr_covers :: "ChangedAttr \<Rightarrow> ChangedAttr \<Rightarrow> bool" where
  "ChangedAttr_covers x other \<longleftrightarrow>
     cov (ca_endpoint x) (ChangedAttr_is_endpoint_wildcard x)
       (ca_endpoint other) (ChangedAttr_is_endpoint_wildcard other) \<and>
     cov (ca_cluster x) (ChangedAttr_is_cluster_wildcard x)
       (ca_cluster other) (ChangedAttr_is_cluster_wildcard other) \<and>
     cov (ca_attr x) (ChangedAttr_is_attr_wildcard x)
       (ca_attr other) (ChangedAttr_is_attr_wildcard other)"

definition ChangedAttr_coarsen :: "u8 \<Rightarrow> ChangedAttr \<Rightarrow> ChangedAttr option res" where
  "ChangedAttr_coarsen level x =
     (if level = 1 then
        if ChangedAttr_is_endpoint_wildcard x \<or> ChangedAttr_is_cluster_wildcard x then Ok None
        else Ok (Some \<lparr>ca_endpoint = ca_endpoint x, ca_cluster = ca_cluster x,
                       ca_attr = WILDCARD_ATTR, ca_change_id = 0\<rparr>)
      else if level = 2 then
        if ChangedAttr_is_endpoint_wildcard x then Ok None
        else Ok (Some \<lparr>ca_endpoint = ca_endpoint x, ca_cluster = WILDCARD_CLUSTER,
                       ca_attr = WILDCARD_ATTR, ca_change_id = 0\<rparr>)
      else Panic)"

subsection \<open>The table\<close>

record ChangedAttrs =
  cas_next_change_id :: u64
  cas_entries :: "ChangedAttr list"

definition ChangedAttrs_new :: ChangedAttrs where
  "ChangedAttrs_new = \<lparr>cas_next_change_id = 1, cas_entries = []\<rparr>"

definition ChangedAttrs_watermark :: "ChangedAttrs \<Rightarrow> u64" where
  "ChangedAttrs_watermark s = cas_next_change_id s - 1"

definition ChangedAttrs_contains_since :: "u16 \<Rightarrow> u32 \<Rightarrow> u32 \<Rightarrow> u64 \<Rightarrow> ChangedAttrs \<Rightarrow> bool" where
  "ChangedAttrs_contains_since endpoint cluster attr since s \<longleftrightarrow>
     list_ex (\<lambda>x. since < ca_change_id x \<and> ChangedAttr_matches x endpoint cluster attr) (cas_entries s)"

definition ChangedAttrs_any_since :: "u64 \<Rightarrow> ChangedAttrs \<Rightarrow> bool" where
  "ChangedAttrs_any_since since s \<longleftrightarrow> list_ex (\<lambda>x. since < ca_change_id x) (cas_entries s)"

text \<open>
  The loop \<^verbatim>\<open>while i < entries.len()\<close> that removes the entries with a property by
  \<^verbatim>\<open>swap_remove\<close>; it occurs three times in the code.
\<close>

function swap_drop_from :: "('a \<Rightarrow> bool) \<Rightarrow> nat \<Rightarrow> 'a list \<Rightarrow> 'a list" where
  "swap_drop_from P i xs =
     (if i < length xs then
        if P (xs ! i) then swap_drop_from P i (swap_remove i xs) else swap_drop_from P (i + 1) xs
      else xs)"
  by pat_completeness auto
termination swap_drop_from
  by (relation "measure (\<lambda>(P, i, xs). length xs - i)") auto

declare swap_drop_from.simps [simp del]

definition ChangedAttrs_purge_up_to :: "u64 \<Rightarrow> ChangedAttrs \<Rightarrow> ChangedAttrs" where
  "ChangedAttrs_purge_up_to threshold s =
     (if threshold = 0 then s
      else s\<lparr>cas_entries := swap_drop_from (\<lambda>x. ca_change_id x \<le> threshold) 0 (cas_entries s)\<rparr>)"

definition ChangedAttrs_clear :: "ChangedAttrs \<Rightarrow> ChangedAttrs" where
  "ChangedAttrs_clear s = s\<lparr>cas_entries := []\<rparr>"

text \<open>\<^verbatim>\<open>Vec::push\<close> of a vector with room for \<open>MAX_CHANGED_ATTRS\<close> entries; \<open>None\<close> when it is full.\<close>

definition entries_push :: "ChangedAttr \<Rightarrow> ChangedAttrs \<Rightarrow> ChangedAttrs option" where
  "entries_push x s =
     (if length (cas_entries s) < MAX_CHANGED_ATTRS then Some (s\<lparr>cas_entries := cas_entries s @ [x]\<rparr>)
      else None)"

text \<open>The loop of \<^verbatim>\<open>promote_largest_group\<close> that picks the pivot.\<close>

fun best_pivot_loop :: "u8 \<Rightarrow> ChangedAttr list \<Rightarrow> ChangedAttr list \<Rightarrow> ChangedAttr option \<Rightarrow> nat \<Rightarrow>
    ChangedAttr option res" where
  "best_pivot_loop level entries [] best_pivot best_count = Ok best_pivot"
| "best_pivot_loop level entries (pivot # rest) best_pivot best_count =
     res_bind (ChangedAttr_coarsen level pivot) (\<lambda>c.
       case c of None \<Rightarrow> best_pivot_loop level entries rest best_pivot best_count
       | Some coarsened \<Rightarrow>
           let count = length (filter (ChangedAttr_covers coarsened) entries)
           in if count > best_count then best_pivot_loop level entries rest (Some pivot) count
              else best_pivot_loop level entries rest best_pivot best_count)"

text \<open>The loop that removes the group and remembers the largest change identifier in it.\<close>

function promote_drop_loop :: "ChangedAttr \<Rightarrow> nat \<Rightarrow> u64 \<Rightarrow> ChangedAttr list \<Rightarrow> u64 \<times> ChangedAttr list" where
  "promote_drop_loop coarsened i m xs =
     (if i < length xs then
        if ChangedAttr_covers coarsened (xs ! i) then
          promote_drop_loop coarsened i (if ca_change_id (xs ! i) > m then ca_change_id (xs ! i) else m)
            (swap_remove i xs)
        else promote_drop_loop coarsened (i + 1) m xs
      else (m, xs))"
  by pat_completeness auto
termination promote_drop_loop
  by (relation "measure (\<lambda>(c, i, m, xs). length xs - i)") auto

declare promote_drop_loop.simps [simp del]

definition ChangedAttrs_promote_largest_group :: "u8 \<Rightarrow> (ChangedAttrs, bool) sr" where
  "ChangedAttrs_promote_largest_group level = (\<lambda>s.
     case best_pivot_loop level (cas_entries s) (cas_entries s) None 1 of
       Err e \<Rightarrow> (Err e, s) | Panic \<Rightarrow> (Panic, s)
     | Ok None \<Rightarrow> (Ok False, s)
     | Ok (Some pivot) \<Rightarrow>
         (case ChangedAttr_coarsen level pivot of
            Ok (Some coarsened) \<Rightarrow>
              (let (m, es) = promote_drop_loop coarsened 0 0 (cas_entries s);
                   s1 = s\<lparr>cas_entries := es\<rparr>
               in case entries_push (coarsened\<lparr>ca_change_id := m\<rparr>) s1 of
                    None \<Rightarrow> (Panic, s1) | Some s2 \<Rightarrow> (Ok True, s2))
          | _ \<Rightarrow> (Panic, s)))"

definition refresh_covering :: "ChangedAttr \<Rightarrow> ChangedAttrs \<Rightarrow> ChangedAttrs option" where
  "refresh_covering new s =
     map_option (\<lambda>i. s\<lparr>cas_entries := (cas_entries s)[i := (cas_entries s ! i)\<lparr>ca_change_id := ca_change_id new\<rparr>]\<rparr>)
       (position (\<lambda>x. ChangedAttr_covers x new) (cas_entries s))"

definition promote_round :: "(ChangedAttrs, bool) sr" where
  "promote_round = sr_bind (ChangedAttrs_promote_largest_group 1) (\<lambda>b.
     if b then sr_return True else ChangedAttrs_promote_largest_group 2)"

lemma take_swap_remove: "i < length xs \<Longrightarrow> take i (swap_remove i xs) = take i xs"
  by (simp add: swap_remove_def take_butlast)

lemma mset_drop_swap_remove:
  assumes "i < length xs"
  shows "mset (drop i (swap_remove i xs)) = mset (drop (Suc i) xs)"
proof -
  have "mset (take i xs) + mset (drop i (swap_remove i xs)) = mset (swap_remove i xs)"
    using assms by (metis append_take_drop_id mset_append take_swap_remove)
  also have "\<dots> = mset (take i xs @ drop (Suc i) xs)"
    using assms by (simp add: mset_swap_remove flip: mset_append)
      (metis add_mset_remove_trivial id_take_nth_drop mset.simps(2) mset_append union_mset_add_mset_right)
  finally show ?thesis by simp
qed

lemma mset_drop_nth:
  "i < length xs \<Longrightarrow> mset (drop i xs) = add_mset (xs ! i) (mset (drop (Suc i) xs))"
  by (simp flip: Cons_nth_drop_Suc)

lemma mset_take_Suc: "i < length xs \<Longrightarrow> mset (take (Suc i) xs) = add_mset (xs ! i) (mset (take i xs))"
  by (simp add: take_Suc_conv_app_nth)

lemma mset_swap_drop_from:
  "mset (swap_drop_from P i xs) = mset (take i xs) + filter_mset (\<lambda>x. \<not> P x) (mset (drop i xs))"
proof (induction P i xs rule: swap_drop_from.induct)
  case (1 P i xs)
  then show ?case
    by (subst swap_drop_from.simps)
      (simp add: take_swap_remove mset_drop_swap_remove mset_drop_nth mset_take_Suc)
qed

lemma set_swap_drop: "set (swap_drop_from P 0 xs) = {x \<in> set xs. \<not> P x}"
  using arg_cong [OF mset_swap_drop_from [of P 0 xs], of set_mset] by simp

lemma length_swap_drop: "length (swap_drop_from P 0 xs) \<le> length xs"
  using arg_cong [OF mset_swap_drop_from [of P 0 xs], of size] size_filter_mset_lesseq [of _ "mset xs"]
  by simp

lemma promote_drop_loop_entries:
  "snd (promote_drop_loop c i m xs) = swap_drop_from (ChangedAttr_covers c) i xs"
proof (induction c i m xs rule: promote_drop_loop.induct)
  case (1 c i m xs)
  then show ?case by (subst promote_drop_loop.simps, subst swap_drop_from.simps) simp
qed

lemma promote_drop_loop_id:
  "m \<le> fst (promote_drop_loop c i m xs) \<and>
   (\<forall>x \<in> set (drop i xs). ChangedAttr_covers c x \<longrightarrow> ca_change_id x \<le> fst (promote_drop_loop c i m xs)) \<and>
   fst (promote_drop_loop c i m xs) \<in>
     insert m (ca_change_id ` {x \<in> set (drop i xs). ChangedAttr_covers c x})"
proof (induction c i m xs rule: promote_drop_loop.induct)
  case (1 c i m xs)
  show ?case
  proof (cases "i < length xs")
    case True
    have *: "set (drop i (swap_remove i xs)) = set (drop (Suc i) xs)"
      using mset_drop_swap_remove [OF True] by (metis set_mset_mset)
    have **: "set (drop i xs) = insert (xs ! i) (set (drop (Suc i) xs))"
      using True by (simp flip: Cons_nth_drop_Suc)
    show ?thesis
    proof (cases "ChangedAttr_covers c (xs ! i)")
      case cov: True
      show ?thesis using 1(1) [OF True cov] True cov
        by (subst (1 2 3) promote_drop_loop.simps) (auto simp: * ** split: if_splits)
    next
      case cov: False
      show ?thesis using 1(2) [OF True cov] True cov
        by (subst (1 2 3) promote_drop_loop.simps) (auto simp: **)
    qed
  qed (subst (1 2 3) promote_drop_loop.simps, simp)
qed

lemma best_pivot_loop_some:
  "best_pivot_loop level es xs b n = Ok (Some p) \<Longrightarrow> (b = Some p \<Longrightarrow> A) \<Longrightarrow>
   (\<And>c. p \<in> set xs \<Longrightarrow> ChangedAttr_coarsen level p = Ok (Some c) \<Longrightarrow>
     n < length (filter (ChangedAttr_covers c) es) \<Longrightarrow> A) \<Longrightarrow> A"
proof (induction level es xs b n rule: best_pivot_loop.induct)
  case (2 level es x xs b n)
  from 2(4) obtain c where c: "ChangedAttr_coarsen level x = Ok c" by (auto simp: res_bind_ok_iff)
  show ?case
  proof (cases c)
    case None
    with 2 c show ?thesis by auto
  next
    case (Some c')
    with 2 c show ?thesis
      by (cases "n < length (filter (ChangedAttr_covers c') es)") (auto simp: Let_def)
  qed
qed simp

lemma promote_largest_group_true:
  assumes "ChangedAttrs_promote_largest_group level s = (Ok True, s')"
  obtains c m where "m = fst (promote_drop_loop c 0 0 (cas_entries s))"
    and "1 < length (filter (ChangedAttr_covers c) (cas_entries s))"
    and "s' = s\<lparr>cas_entries := swap_drop_from (ChangedAttr_covers c) 0 (cas_entries s) @ [c\<lparr>ca_change_id := m\<rparr>]\<rparr>"
proof -
  from assms obtain p c where p: "best_pivot_loop level (cas_entries s) (cas_entries s) None 1 = Ok (Some p)"
      and c: "ChangedAttr_coarsen level p = Ok (Some c)"
    by (auto simp: ChangedAttrs_promote_largest_group_def split: res.splits option.splits)
  from assms p c promote_drop_loop_entries [of c 0 0 "cas_entries s"]
  have "s' = s\<lparr>cas_entries := swap_drop_from (ChangedAttr_covers c) 0 (cas_entries s) @
      [c\<lparr>ca_change_id := fst (promote_drop_loop c 0 0 (cas_entries s))\<rparr>]\<rparr>"
    by (auto simp: ChangedAttrs_promote_largest_group_def entries_push_def Let_def split: prod.splits if_splits)
  moreover have "1 < length (filter (ChangedAttr_covers c) (cas_entries s))"
    using c by (rule_tac best_pivot_loop_some [OF p]) auto
  ultimately show ?thesis using that by blast
qed

lemma length_swap_drop_filter:
  "length (swap_drop_from P 0 xs) + length (filter P xs) = length xs"
  using arg_cong [OF mset_swap_drop_from [of P 0 xs], of size] sum_length_filter_compl [of P xs]
  by (simp add: mset_filter [symmetric] del: mset_filter)

lemma promote_largest_group_shrinks:
  "ChangedAttrs_promote_largest_group level s = (Ok True, s') \<Longrightarrow>
   length (cas_entries s') < length (cas_entries s)"
proof (erule promote_largest_group_true)
  fix c m
  assume "1 < length (filter (ChangedAttr_covers c) (cas_entries s))" and
    "s' = s\<lparr>cas_entries := swap_drop_from (ChangedAttr_covers c) 0 (cas_entries s) @ [c\<lparr>ca_change_id := m\<rparr>]\<rparr>"
  then show ?thesis using length_swap_drop_filter [of "ChangedAttr_covers c" "cas_entries s"] by simp
qed

lemma promote_largest_group_false:
  "ChangedAttrs_promote_largest_group level s = (Ok False, s') \<Longrightarrow> s' = s"
  by (auto simp: ChangedAttrs_promote_largest_group_def Let_def split: res.splits option.splits prod.splits)

lemma promote_round_true:
  "promote_round s = (Ok True, s') \<Longrightarrow> \<exists>level. ChangedAttrs_promote_largest_group level s = (Ok True, s')"
  by (auto simp: promote_round_def sr_bind_ok_iff sr_return_def split: if_splits
      dest!: promote_largest_group_false)

lemma promote_round_shrinks:
  "(Ok True, s') = promote_round s \<Longrightarrow> length (cas_entries s') < length (cas_entries s)"
  using promote_round_true [of s s'] promote_largest_group_shrinks by auto

function ChangedAttrs_promote_and_insert :: "ChangedAttr \<Rightarrow> ChangedAttrs \<Rightarrow> unit res \<times> ChangedAttrs" where
  "ChangedAttrs_promote_and_insert new s =
     (case refresh_covering new s of
        Some s' \<Rightarrow> (Ok (), s')
      | None \<Rightarrow>
          (case entries_push new s of
             Some s' \<Rightarrow> (Ok (), s')
           | None \<Rightarrow>
               (case promote_round s of
                  (Err e, s') \<Rightarrow> (Err e, s')
                | (Panic, s') \<Rightarrow> (Panic, s')
                | (Ok promoted, s') \<Rightarrow>
                    if promoted then ChangedAttrs_promote_and_insert new s'
                    else
                      (let s1 = s'\<lparr>cas_entries := []\<rparr>
                       in case entries_push \<lparr>ca_endpoint = WILDCARD_ENDPOINT, ca_cluster = WILDCARD_CLUSTER,
                                ca_attr = WILDCARD_ATTR, ca_change_id = ca_change_id new\<rparr> s1 of
                            None \<Rightarrow> (Panic, s1) | Some s2 \<Rightarrow> (Ok (), s2)))))"
  by pat_completeness auto
termination ChangedAttrs_promote_and_insert
  by (relation "measure (\<lambda>(new, s). length (cas_entries s))")
    (auto simp: promote_round_shrinks)

declare ChangedAttrs_promote_and_insert.simps [simp del]

definition ChangedAttrs_record_raw :: "ChangedAttr \<Rightarrow> (ChangedAttrs, u64) sr" where
  "ChangedAttrs_record_raw new0 = (\<lambda>s.
     let change_id = cas_next_change_id s;
         s1 = s\<lparr>cas_next_change_id := max (cas_next_change_id s + 1) 1\<rparr>;
         new = new0\<lparr>ca_change_id := change_id\<rparr>
     in case refresh_covering new s1 of
          Some s2 \<Rightarrow> (Ok change_id, s2)
        | None \<Rightarrow>
            (let s2 = s1\<lparr>cas_entries := swap_drop_from (ChangedAttr_covers new) 0 (cas_entries s1)\<rparr>
             in case entries_push new s2 of
                  Some s3 \<Rightarrow> (Ok change_id, s3)
                | None \<Rightarrow> sr_then (ChangedAttrs_promote_and_insert new) (sr_return change_id) s2))"

definition ChangedAttrs_record :: "u16 \<Rightarrow> u32 \<Rightarrow> u32 \<Rightarrow> (ChangedAttrs, u64) sr" where
  "ChangedAttrs_record endpoint cluster attr =
     ChangedAttrs_record_raw (ChangedAttr_concrete endpoint cluster attr 0)"

definition ChangedAttrs_record_wildcard :: "u16 option \<Rightarrow> u32 option \<Rightarrow> (ChangedAttrs, u64) sr" where
  "ChangedAttrs_record_wildcard endpoint cluster =
     ChangedAttrs_record_raw
       \<lparr>ca_endpoint = (case endpoint of None \<Rightarrow> WILDCARD_ENDPOINT | Some e \<Rightarrow> e),
        ca_cluster = (case cluster of None \<Rightarrow> WILDCARD_CLUSTER | Some c \<Rightarrow> c),
        ca_attr = WILDCARD_ATTR, ca_change_id = 0\<rparr>"

subsection \<open>Covering\<close>

lemmas changed_attr_defs =
  ChangedAttr_covers_def ChangedAttr_matches_def cov_def ChangedAttr_is_endpoint_wildcard_def
  ChangedAttr_is_cluster_wildcard_def ChangedAttr_is_attr_wildcard_def

lemma covers_refl [simp]: "ChangedAttr_covers x x"
  by (simp add: changed_attr_defs)

lemma covers_trans: "ChangedAttr_covers x y \<Longrightarrow> ChangedAttr_covers y z \<Longrightarrow> ChangedAttr_covers x z"
  by (auto simp: changed_attr_defs split: if_splits)

lemma covers_matches: "ChangedAttr_covers x y \<Longrightarrow> ChangedAttr_matches y e c a \<Longrightarrow> ChangedAttr_matches x e c a"
  by (auto simp: changed_attr_defs split: if_splits)

lemma covers_change_id [simp]:
  "ChangedAttr_covers (x\<lparr>ca_change_id := n\<rparr>) y = ChangedAttr_covers x y"
  "ChangedAttr_covers x (y\<lparr>ca_change_id := n\<rparr>) = ChangedAttr_covers x y"
  "ChangedAttr_matches (x\<lparr>ca_change_id := n\<rparr>) e c a = ChangedAttr_matches x e c a"
  by (simp_all add: changed_attr_defs)

text \<open>
  A set of entries over-approximates another one when each entry of the other is covered by an
  entry that is at least as recent. All operations of the table but \<open>purge\<close> and \<open>clear\<close> go to an
  over-approximation.
\<close>

definition over :: "ChangedAttr set \<Rightarrow> ChangedAttr set \<Rightarrow> bool" where
  "over S T \<longleftrightarrow> (\<forall>x \<in> S. \<exists>y \<in> T. ChangedAttr_covers y x \<and> ca_change_id x \<le> ca_change_id y)"

lemma over_trans: "over S T \<Longrightarrow> over T U \<Longrightarrow> over S U"
  unfolding over_def by (meson covers_trans order_trans)

lemma over_insert: "over S T \<Longrightarrow> over (insert x S) (insert x T)"
  unfolding over_def by auto

text \<open>Every outcome of an operation is a return, the bound on the table holds again, and so on.\<close>

definition table_ok :: "u64 \<Rightarrow> ChangedAttrs \<Rightarrow> bool" where
  "table_ok n s \<longleftrightarrow> length (cas_entries s) \<le> MAX_CHANGED_ATTRS \<and> (\<forall>x \<in> set (cas_entries s). ca_change_id x \<le> n)"

definition step_ok :: "u64 \<Rightarrow> ChangedAttr set \<Rightarrow> ChangedAttrs \<Rightarrow> ChangedAttrs \<Rightarrow> bool" where
  "step_ok n S s s' \<longleftrightarrow> table_ok n s' \<and> over S (set (cas_entries s')) \<and> cas_next_change_id s' = cas_next_change_id s"

lemma step_ok_trans:
  "step_ok n S s s' \<Longrightarrow> step_ok n (insert x (set (cas_entries s'))) s' s'' \<Longrightarrow> step_ok n (insert x S) s s''"
  unfolding step_ok_def using over_insert over_trans by metis

lemma refresh_covering_ok:
  assumes "refresh_covering new s = Some s'" and "table_ok n s" and "ca_change_id new = n"
  shows "step_ok n (insert new (set (cas_entries s))) s s'"
proof -
  from assms(1) obtain i where i: "i < length (cas_entries s)" "ChangedAttr_covers (cas_entries s ! i) new"
      and s': "s' = s\<lparr>cas_entries := (cas_entries s)[i := (cas_entries s ! i)\<lparr>ca_change_id := ca_change_id new\<rparr>]\<rparr>"
    by (auto simp: refresh_covering_def dest: position_SomeD)
  let ?x = "cas_entries s ! i" and ?y = "(cas_entries s ! i)\<lparr>ca_change_id := ca_change_id new\<rparr>"
  have y: "?y \<in> set (cas_entries s')" using i s' by (simp add: set_update_memI)
  have le: "ca_change_id z \<le> n" if "z \<in> set (cas_entries s)" for z
    using assms(2) that by (simp add: table_ok_def)
  have "\<exists>y \<in> set (cas_entries s'). ChangedAttr_covers y z \<and> ca_change_id z \<le> ca_change_id y"
    if z: "z \<in> insert new (set (cas_entries s))" for z
  proof (cases "z = new")
    case True
    with y i show ?thesis by (intro bexI [of _ ?y]) auto
  next
    case False
    with z obtain j where j: "j < length (cas_entries s)" "z = cas_entries s ! j"
      by (auto simp: in_set_conv_nth)
    show ?thesis
    proof (cases "j = i")
      case True
      with j y le [of z] assms(3) show ?thesis by (intro bexI [of _ ?y]) auto
    next
      case False
      then have "z \<in> set (cas_entries s')"
        using j by (auto simp: s' in_set_conv_nth intro!: exI [of _ j])
      then show ?thesis by (intro bexI [of _ z]) auto
    qed
  qed
  moreover have "set (cas_entries s') \<subseteq> insert ?y (set (cas_entries s))"
    by (simp add: s' set_update_subset_insert)
  ultimately show ?thesis using assms(2,3) le
    unfolding step_ok_def table_ok_def over_def by (auto simp: s')
qed

lemma entries_push_ok:
  assumes "entries_push new s = Some s'" and "table_ok n s" and "ca_change_id new = n"
  shows "step_ok n (insert new (set (cas_entries s))) s s'"
  using assms by (auto simp: entries_push_def step_ok_def table_ok_def over_def split: if_splits intro: covers_refl order_refl)

lemma drop_covered_over:
  assumes "table_ok n s" and "ca_change_id new = n"
  shows "over (insert new (set (cas_entries s)))
    (insert new (set (swap_drop_from (ChangedAttr_covers new) 0 (cas_entries s))))"
  using assms by (auto simp: over_def table_ok_def set_swap_drop)

lemma promote_largest_group_ok:
  assumes "ChangedAttrs_promote_largest_group level s = (Ok True, s')" and "table_ok n s"
  shows "step_ok n (set (cas_entries s)) s s'"
  using assms(1)
proof (rule promote_largest_group_true)
  fix c m
  let ?es = "cas_entries s"
  assume m: "m = fst (promote_drop_loop c 0 0 ?es)" and many: "1 < length (filter (ChangedAttr_covers c) ?es)"
    and s': "s' = s\<lparr>cas_entries := swap_drop_from (ChangedAttr_covers c) 0 ?es @ [c\<lparr>ca_change_id := m\<rparr>]\<rparr>"
  have ids: "\<forall>x \<in> set ?es. ChangedAttr_covers c x \<longrightarrow> ca_change_id x \<le> m" "m \<in> insert 0 (ca_change_id ` set ?es)"
    using promote_drop_loop_id [of 0 c 0 ?es] by (auto simp: m)
  then have "m \<le> n" using assms(2) by (auto simp: table_ok_def)
  moreover have "length (cas_entries s') \<le> MAX_CHANGED_ATTRS"
    using length_swap_drop_filter [of "ChangedAttr_covers c" ?es] many assms(2) by (simp add: s' table_ok_def)
  ultimately show ?thesis
    using assms(2) ids(1) by (auto simp: step_ok_def table_ok_def over_def s' set_swap_drop)
qed

lemma best_pivot_loop_returns:
  "level = 1 \<or> level = 2 \<Longrightarrow> \<exists>p. best_pivot_loop level es xs b n = Ok p"
proof (induction xs arbitrary: b n)
  case (Cons x xs)
  then obtain c where "ChangedAttr_coarsen level x = Ok c"
    by (fastforce simp: ChangedAttr_coarsen_def)
  with Cons show ?case by (cases c) (simp_all add: Let_def)
qed simp

lemma promote_largest_group_returns:
  assumes "level = 1 \<or> level = 2" and "table_ok n s"
  shows "\<exists>b s'. ChangedAttrs_promote_largest_group level s = (Ok b, s')"
proof -
  obtain p where p: "best_pivot_loop level (cas_entries s) (cas_entries s) None 1 = Ok p"
    using best_pivot_loop_returns [OF assms(1)] by blast
  show ?thesis
  proof (cases p)
    case None
    with p show ?thesis by (auto simp: ChangedAttrs_promote_largest_group_def)
  next
    case (Some q)
    obtain c where c: "ChangedAttr_coarsen level q = Ok (Some c)" "1 < length (filter (ChangedAttr_covers c) (cas_entries s))"
      by (rule best_pivot_loop_some [OF p [unfolded Some]]) auto
    obtain m es where d: "promote_drop_loop c 0 0 (cas_entries s) = (m, es)" by fastforce
    then have "length es < MAX_CHANGED_ATTRS"
      using promote_drop_loop_entries [of c 0 0 "cas_entries s"] assms(2) c(2)
        length_swap_drop_filter [of "ChangedAttr_covers c" "cas_entries s"] by (simp add: table_ok_def)
    then show ?thesis using p Some c d by (auto simp: ChangedAttrs_promote_largest_group_def entries_push_def)
  qed
qed

lemma promote_round_returns:
  assumes "table_ok n s" shows "\<exists>b s'. promote_round s = (Ok b, s')"
proof -
  obtain b s1 where 1: "ChangedAttrs_promote_largest_group 1 s = (Ok b, s1)"
    using promote_largest_group_returns [of 1, OF _ assms] by auto
  show ?thesis
  proof (cases b)
    case False
    with 1 have "s1 = s" by (auto dest: promote_largest_group_false)
    with 1 False promote_largest_group_returns [of 2, OF _ assms] show ?thesis
      by (auto simp: promote_round_def sr_bind_def)
  qed (use 1 in \<open>auto simp: promote_round_def sr_bind_def sr_return_def\<close>)
qed

lemma promote_and_insert_ok:
  "table_ok n s \<Longrightarrow> ca_change_id new = n \<Longrightarrow>
   \<exists>s'. ChangedAttrs_promote_and_insert new s = (Ok (), s') \<and> step_ok n (insert new (set (cas_entries s))) s s'"
proof (induction new s rule: ChangedAttrs_promote_and_insert.induct)
  case (1 new s)
  show ?case
  proof (cases "refresh_covering new s")
    case (Some s')
    with 1 refresh_covering_ok show ?thesis by (subst ChangedAttrs_promote_and_insert.simps) auto
  next
    case ref: None
    show ?thesis
    proof (cases "entries_push new s")
      case (Some s')
      with ref 1 entries_push_ok show ?thesis by (subst ChangedAttrs_promote_and_insert.simps) auto
    next
      case push: None
      obtain b s' where r: "promote_round s = (Ok b, s')" using promote_round_returns 1 by blast
      show ?thesis
      proof (cases b)
        case True
        with r promote_round_true [of s s'] have step: "step_ok n (set (cas_entries s)) s s'"
          using promote_largest_group_ok [OF _ 1(2)] by auto
        then have "table_ok n s'" by (simp add: step_ok_def)
        with 1 ref push r True obtain s'' where
            "ChangedAttrs_promote_and_insert new s' = (Ok (), s'')"
            "step_ok n (insert new (set (cas_entries s'))) s' s''" by metis
        with ref push r True step_ok_trans [OF step] show ?thesis
          by (subst ChangedAttrs_promote_and_insert.simps) auto
      next
        case False
        with r have "s' = s"
          by (auto simp: promote_round_def sr_bind_ok_iff sr_return_def split: if_splits
              dest!: promote_largest_group_false)
        with ref push r False 1(2,3) show ?thesis
          by (subst ChangedAttrs_promote_and_insert.simps)
            (auto simp: entries_push_def MAX_CHANGED_ATTRS_def step_ok_def table_ok_def over_def changed_attr_defs)
      qed
    qed
  qed
qed

subsection \<open>The interface the subscriptions rely on\<close>

definition complete_from ::
    "('c \<Rightarrow> 'p \<Rightarrow> bool) \<Rightarrow> ('p \<Rightarrow> u64 \<Rightarrow> 's \<Rightarrow> bool) \<Rightarrow> u64 \<Rightarrow> (u64 \<times> 'c) set \<Rightarrow> 's \<Rightarrow> bool" where
  "complete_from affects contains lo H s \<longleftrightarrow>
     (\<forall>(n, c) \<in> H. \<forall>p since. affects c p \<longrightarrow> lo \<le> since \<longrightarrow> since < n \<longrightarrow> contains p since s)"

lemma complete_fromI:
  "(\<And>n c p since. (n, c) \<in> H \<Longrightarrow> affects c p \<Longrightarrow> lo \<le> since \<Longrightarrow> since < n \<Longrightarrow> contains p since s) \<Longrightarrow>
   complete_from affects contains lo H s"
  by (auto simp: complete_from_def)

lemma complete_fromD:
  "complete_from affects contains lo H s \<Longrightarrow> (n, c) \<in> H \<Longrightarrow> affects c p \<Longrightarrow> lo \<le> since \<Longrightarrow> since < n \<Longrightarrow>
   contains p since s"
  by (auto simp: complete_from_def)

text \<open>The changes of a list with the identifiers they get.\<close>

primrec change_history :: "u64 \<Rightarrow> 'c list \<Rightarrow> (u64 \<times> 'c) list" where
  "change_history w [] = []"
| "change_history w (c # cs) = (w + 1, c) # change_history (w + 1) cs"

locale change_log =
  fixes inv :: "'s \<Rightarrow> bool"
    and watermark :: "'s \<Rightarrow> u64"
    and contains :: "'p \<Rightarrow> u64 \<Rightarrow> 's \<Rightarrow> bool"
    and note_change :: "'c \<Rightarrow> 's \<Rightarrow> 's"
    and purge :: "u64 \<Rightarrow> 's \<Rightarrow> 's"
    and affects :: "'c \<Rightarrow> 'p \<Rightarrow> bool"
  assumes note_inv: "inv s \<Longrightarrow> unat (watermark s) + 2 < 2 ^ 64 \<Longrightarrow> inv (note_change c s)"
    and note_watermark: "inv s \<Longrightarrow> unat (watermark s) + 2 < 2 ^ 64 \<Longrightarrow> watermark (note_change c s) = watermark s + 1"
    and note_new: "inv s \<Longrightarrow> unat (watermark s) + 2 < 2 ^ 64 \<Longrightarrow> affects c p \<Longrightarrow> since \<le> watermark s \<Longrightarrow>
      contains p since (note_change c s)"
    and note_old: "inv s \<Longrightarrow> unat (watermark s) + 2 < 2 ^ 64 \<Longrightarrow> contains p since s \<Longrightarrow> contains p since (note_change c s)"
    and purge_inv: "inv s \<Longrightarrow> inv (purge threshold s)"
    and purge_watermark: "watermark (purge threshold s) = watermark s"
    and purge_keeps: "threshold \<le> since \<Longrightarrow> contains p since s \<Longrightarrow> contains p since (purge threshold s)"
begin

lemma complete_note:
  assumes "inv s" "unat (watermark s) + 2 < 2 ^ 64" "complete_from affects contains lo H s"
  shows "complete_from affects contains lo (insert (watermark s + 1, c) H) (note_change c s)"
proof -
  have *: "since < watermark s + 1 \<Longrightarrow> since \<le> watermark s" for since
    using assms(2) by (simp add: word_less_nat_alt word_le_nat_alt unat_word_ariths)
  show ?thesis
    by (rule complete_fromI) (auto intro: note_new note_old assms(1,2) * complete_fromD [OF assms(3)])
qed

lemma complete_purge:
  assumes "complete_from affects contains lo H s" "lo \<le> lo'" "threshold \<le> lo'"
  shows "complete_from affects contains lo' H (purge threshold s)"
proof (rule complete_fromI)
  fix n c p since assume "(n, c) \<in> H" "affects c p" "lo' \<le> since" "since < n"
  with complete_fromD [OF assms(1)] assms(2,3) show "contains p since (purge threshold s)"
    by (intro purge_keeps) (auto intro: order_trans)
qed

lemma complete_notes:
  "inv s \<Longrightarrow> unat (watermark s) + length cs + 1 < 2 ^ 64 \<Longrightarrow> complete_from affects contains lo H s \<Longrightarrow>
   let s' = fold note_change cs s
   in inv s' \<and> unat (watermark s') = unat (watermark s) + length cs \<and>
      complete_from affects contains lo (H \<union> set (change_history (watermark s) cs)) s'"
proof (induction cs arbitrary: s H)
  case (Cons c cs)
  let ?s = "note_change c s"
  have w: "watermark ?s = watermark s + 1" using Cons.prems note_watermark by simp
  then have u: "unat (watermark ?s) = unat (watermark s) + 1"
    using Cons.prems by (simp add: unat_word_ariths)
  have "complete_from affects contains lo (insert (watermark s + 1, c) H) ?s"
    using Cons.prems complete_note by simp
  then show ?case
    using Cons.IH [of ?s "insert (watermark s + 1, c) H"] Cons.prems note_inv [of s c] u w by (simp add: Let_def)
qed (simp add: Let_def)

end

subsection \<open>The table keeps the interface\<close>

definition ChangedAttrs_inv :: "ChangedAttrs \<Rightarrow> bool" where
  "ChangedAttrs_inv s \<longleftrightarrow> table_ok (ChangedAttrs_watermark s) s \<and> cas_next_change_id s \<noteq> 0"

lemma record_raw_ok:
  assumes inv: "ChangedAttrs_inv s" and room: "unat (ChangedAttrs_watermark s) + 2 < 2 ^ 64"
  obtains s' where "ChangedAttrs_record_raw new s = (Ok (cas_next_change_id s), s')"
    and "table_ok (cas_next_change_id s) s'" and "cas_next_change_id s' = cas_next_change_id s + 1"
    and "over (insert (new\<lparr>ca_change_id := cas_next_change_id s\<rparr>) (set (cas_entries s))) (set (cas_entries s'))"
proof -
  let ?n = "cas_next_change_id s"
  let ?s = "s\<lparr>cas_next_change_id := ?n + 1\<rparr>" and ?new = "new\<lparr>ca_change_id := ?n\<rparr>"
  have pos: "0 < unat ?n" using inv by (simp add: ChangedAttrs_inv_def unat_gt_0 unat_eq_zero)
  then have w: "unat (?n - 1) = unat ?n - 1" by (metis One_nat_def unat_minus_one unat_eq_zero less_not_refl)
  then have lt: "unat ?n + 1 < 2 ^ 64" using room pos by (simp add: ChangedAttrs_watermark_def)
  then have max: "max (?n + 1) 1 = ?n + 1"
    using pos by (simp add: max_def word_le_nat_alt unat_word_ariths)
  have "?n - 1 \<le> ?n" using w by (simp add: word_le_nat_alt)
  then have t: "table_ok ?n ?s"
    using inv by (force simp: ChangedAttrs_inv_def table_ok_def ChangedAttrs_watermark_def)
  show ?thesis
  proof (cases "refresh_covering ?new ?s")
    case (Some s')
    with refresh_covering_ok [OF Some t] show ?thesis
      by (intro that [of s']) (simp_all add: ChangedAttrs_record_raw_def Let_def max step_ok_def)
  next
    case ref: None
    let ?s2 = "?s\<lparr>cas_entries := swap_drop_from (ChangedAttr_covers ?new) 0 (cas_entries s)\<rparr>"
    have t2: "table_ok ?n ?s2"
      using t length_swap_drop [of _ "cas_entries s"] by (auto simp: table_ok_def set_swap_drop intro: order_trans)
    have ov: "over (insert ?new (set (cas_entries s))) (insert ?new (set (cas_entries ?s2)))"
      using drop_covered_over [OF t, of ?new] by simp
    obtain s' where s': "ChangedAttrs_record_raw new s = (Ok ?n, s')"
        "step_ok ?n (insert ?new (set (cas_entries ?s2))) ?s2 s'"
    proof (cases "entries_push ?new ?s2")
      case (Some s3)
      with ref entries_push_ok [OF Some t2] show ?thesis
        by (intro that [of s3]) (simp_all add: ChangedAttrs_record_raw_def Let_def max)
    next
      case None
      with ref promote_and_insert_ok [OF t2, of ?new] show ?thesis
        by (auto intro!: that simp: ChangedAttrs_record_raw_def Let_def max sr_bind_def sr_return_def)
    qed
    with over_trans [OF ov] show ?thesis by (intro that [of s']) (simp_all add: step_ok_def)
  qed
qed

definition record_state :: "ChangedAttr \<Rightarrow> ChangedAttrs \<Rightarrow> ChangedAttrs" where
  "record_state new s = snd (ChangedAttrs_record_raw new s)"

definition contains_path :: "u16 \<times> u32 \<times> u32 \<Rightarrow> u64 \<Rightarrow> ChangedAttrs \<Rightarrow> bool" where
  "contains_path p since s = (case p of (e, c, a) \<Rightarrow> ChangedAttrs_contains_since e c a since s)"

definition change_affects :: "ChangedAttr \<Rightarrow> u16 \<times> u32 \<times> u32 \<Rightarrow> bool" where
  "change_affects x p = (case p of (e, c, a) \<Rightarrow> ChangedAttr_matches x e c a)"

lemma contains_path_iff:
  "contains_path p since s \<longleftrightarrow> (\<exists>x \<in> set (cas_entries s). since < ca_change_id x \<and> change_affects x p)"
  by (auto simp: contains_path_def change_affects_def ChangedAttrs_contains_since_def list_ex_iff
      split: prod.splits)

lemma over_contains:
  "over S (set (cas_entries s)) \<Longrightarrow> x \<in> S \<Longrightarrow> since < ca_change_id x \<Longrightarrow> change_affects x p \<Longrightarrow> contains_path p since s"
  unfolding over_def contains_path_iff change_affects_def
  by (cases p) (auto, meson order_less_le_trans covers_matches)

lemma watermark_record:
  assumes "ChangedAttrs_inv s" and "unat (ChangedAttrs_watermark s) + 2 < 2 ^ 64"
  shows "ChangedAttrs_watermark (record_state new s) = ChangedAttrs_watermark s + 1"
    and "ChangedAttrs_inv (record_state new s)"
proof -
  obtain s' where s': "ChangedAttrs_record_raw new s = (Ok (cas_next_change_id s), s')"
    "table_ok (cas_next_change_id s) s'" "cas_next_change_id s' = cas_next_change_id s + 1"
    by (rule record_raw_ok [OF assms, of new])
  then show "ChangedAttrs_watermark (record_state new s) = ChangedAttrs_watermark s + 1"
    by (simp add: record_state_def ChangedAttrs_watermark_def)
  have "cas_next_change_id s + 1 \<noteq> 0"
  proof
    assume "cas_next_change_id s + 1 = 0"
    then have "cas_next_change_id s = - 1" by (metis eq_neg_iff_add_eq_0)
    with assms(2) show False by (simp add: ChangedAttrs_watermark_def)
  qed
  with s' show "ChangedAttrs_inv (record_state new s)"
    by (simp add: record_state_def ChangedAttrs_inv_def ChangedAttrs_watermark_def)
qed

lemma record_over:
  assumes "ChangedAttrs_inv s" and "unat (ChangedAttrs_watermark s) + 2 < 2 ^ 64"
  shows "over (insert (new\<lparr>ca_change_id := ChangedAttrs_watermark s + 1\<rparr>) (set (cas_entries s)))
    (set (cas_entries (record_state new s)))"
  by (rule record_raw_ok [OF assms, of new]) (simp add: record_state_def ChangedAttrs_watermark_def)

lemma change_affects_id [simp]: "change_affects (x\<lparr>ca_change_id := n\<rparr>) p = change_affects x p"
  by (simp add: change_affects_def split: prod.splits)

lemma purge_entries: "set (cas_entries (ChangedAttrs_purge_up_to t s)) =
    {x \<in> set (cas_entries s). t = 0 \<or> t < ca_change_id x}"
  by (auto simp: ChangedAttrs_purge_up_to_def set_swap_drop not_le)

interpretation changed: change_log ChangedAttrs_inv ChangedAttrs_watermark contains_path record_state
  ChangedAttrs_purge_up_to change_affects
proof unfold_locales
  fix s :: ChangedAttrs and c p since
  assume s: "ChangedAttrs_inv s" "unat (ChangedAttrs_watermark s) + 2 < 2 ^ 64"
  show "ChangedAttrs_inv (record_state c s)" "ChangedAttrs_watermark (record_state c s) = ChangedAttrs_watermark s + 1"
    by (rule watermark_record [OF s])+
  show "contains_path p since (record_state c s)" if "change_affects c p" "since \<le> ChangedAttrs_watermark s"
    using s(2) that by (intro over_contains [OF record_over [OF s] insertI1])
      (simp_all add: word_le_nat_alt word_less_nat_alt unat_word_ariths)
  show "contains_path p since (record_state c s)" if "contains_path p since s"
    using that over_contains [OF record_over [OF s] insertI2] unfolding contains_path_iff [of _ _ s] by blast
next
  fix s :: ChangedAttrs and t since p
  show "ChangedAttrs_watermark (ChangedAttrs_purge_up_to t s) = ChangedAttrs_watermark s"
    by (simp add: ChangedAttrs_purge_up_to_def ChangedAttrs_watermark_def)
  then show "ChangedAttrs_inv (ChangedAttrs_purge_up_to t s)" if "ChangedAttrs_inv s"
    using that length_swap_drop [of _ "cas_entries s"]
    by (auto simp: ChangedAttrs_inv_def table_ok_def ChangedAttrs_purge_up_to_def set_swap_drop intro: order_trans)
  show "contains_path p since (ChangedAttrs_purge_up_to t s)" if "t \<le> since" "contains_path p since s"
    using that by (auto simp: contains_path_iff purge_entries intro: order_le_less_trans)
qed

lemma new_inv: "ChangedAttrs_inv ChangedAttrs_new" "ChangedAttrs_watermark ChangedAttrs_new = 0"
  by (simp_all add: ChangedAttrs_inv_def ChangedAttrs_new_def ChangedAttrs_watermark_def table_ok_def)

subsection \<open>Sequences of changes\<close>

primrec record_all :: "ChangedAttr list \<Rightarrow> (ChangedAttrs, u64 list) sr" where
  "record_all [] = sr_return []"
| "record_all (c # cs) = sr_bind (ChangedAttrs_record_raw c) (\<lambda>n.
     sr_bind (record_all cs) (\<lambda>ns. sr_return (n # ns)))"

lemma record_raw_returns:
  "ChangedAttrs_inv s \<Longrightarrow> unat (ChangedAttrs_watermark s) + 2 < 2 ^ 64 \<Longrightarrow>
   ChangedAttrs_record_raw c s = (Ok (ChangedAttrs_watermark s + 1), record_state c s)"
  by (rule record_raw_ok [of s c]) (simp_all add: record_state_def ChangedAttrs_watermark_def)

lemma record_all_fold:
  "ChangedAttrs_inv s \<Longrightarrow> unat (ChangedAttrs_watermark s) + length cs + 1 < 2 ^ 64 \<Longrightarrow>
   record_all cs s = (Ok (map fst (change_history (ChangedAttrs_watermark s) cs)), fold record_state cs s)"
proof (induction cs arbitrary: s)
  case (Cons c cs)
  have "unat (ChangedAttrs_watermark (record_state c s)) = unat (ChangedAttrs_watermark s) + 1"
    using Cons.prems by (simp add: watermark_record unat_word_ariths)
  with Cons show ?case
    by (simp add: record_raw_returns watermark_record sr_bind_def sr_return_def)
qed (simp add: sr_return_def)

lemma change_history_nth:
  "i < length cs \<Longrightarrow> change_history w cs ! i = (w + of_nat (Suc i), cs ! i)"
  by (induction cs arbitrary: w i) (simp_all add: nth_Cons' algebra_simps)

lemma length_change_history [simp]: "length (change_history w cs) = length cs"
  by (induction cs arbitrary: w) simp_all

lemma change_history_mem:
  "i < length cs \<Longrightarrow> (w + of_nat (Suc i), cs ! i) \<in> set (change_history w cs)"
  by (metis change_history_nth length_change_history nth_mem)

lemma records_state:
  assumes "length cs + 1 < 2 ^ 64"
  defines "s \<equiv> fold record_state cs ChangedAttrs_new"
  shows "ChangedAttrs_inv s" "ChangedAttrs_watermark s = of_nat (length cs)"
    and "i < length cs \<Longrightarrow> since \<le> i \<Longrightarrow> change_affects (cs ! i) p \<Longrightarrow> contains_path p (of_nat since) s"
proof -
  have c: "complete_from change_affects contains_path 0 {} ChangedAttrs_new" by (simp add: complete_from_def)
  have *: "ChangedAttrs_inv s \<and> unat (ChangedAttrs_watermark s) = length cs \<and>
      complete_from change_affects contains_path 0 (set (change_history 0 cs)) s"
    using changed.complete_notes [OF new_inv(1) _ c, of cs] assms by (simp add: Let_def new_inv)
  then show "ChangedAttrs_inv s" by simp
  show "ChangedAttrs_watermark s = of_nat (length cs)" using * by (metis of_nat_unat ucast_id)
  assume i: "i < length cs" "since \<le> i" "change_affects (cs ! i) p"
  have "(of_nat since :: u64) < of_nat (Suc i)"
    using i assms by (simp add: word_less_nat_alt unat_of_nat del: of_nat_Suc)
  then show "contains_path p (of_nat since) s"
    using complete_fromD [OF * [THEN conjunct2, THEN conjunct2] change_history_mem [OF i(1), of 0] i(3)]
    by (simp del: of_nat_Suc)
qed

lemma any_since_iff: "ChangedAttrs_any_since since s \<longleftrightarrow> (\<exists>x \<in> set (cas_entries s). since < ca_change_id x)"
  by (simp add: ChangedAttrs_any_since_def list_ex_iff)

lemma change_affects_self: "change_affects x (ca_endpoint x, ca_cluster x, ca_attr x)"
  by (simp add: change_affects_def changed_attr_defs)

lemma records_any_since:
  assumes "length cs + 1 < 2 ^ 64"
  shows "ChangedAttrs_any_since since (fold record_state cs ChangedAttrs_new) \<longleftrightarrow> since < of_nat (length cs)"
    (is "?any \<longleftrightarrow> ?less")
proof
  assume ?any
  then show ?less using records_state(1,2) [OF assms]
    by (auto simp: any_since_iff ChangedAttrs_inv_def table_ok_def intro: order_less_le_trans)
next
  assume ?less
  then have l: "unat since < length cs" using assms by (simp add: word_less_nat_alt unat_of_nat)
  then have "unat since \<le> length cs - 1" "length cs - 1 < length cs" by auto
  with records_state(3) [OF assms, of "length cs - 1" "unat since"] change_affects_self
  show ?any by (fastforce simp: contains_path_iff any_since_iff)
qed

text \<open>
  Claim C18: the table of changed attributes forgets nothing. After any sequence of recorded changes (single
  attributes or wildcards, fewer than \<open>2 ^ 64 - 1\<close> of them), with no report in between, every call has returned the next
  change identifier and none has panicked, the table holds at most \<open>MAX_CHANGED_ATTRS\<close> entries, and for every change and every
  attribute it stands for, a query for an identifier older than the change finds it, however
  often entries were merged. A subscription is woken up exactly when a change came after the last one it saw.
\<close>

theorem changes_never_lost:
  assumes "length cs + 1 < 2 ^ 64"
  shows "\<exists>s. record_all cs ChangedAttrs_new = (Ok (map of_nat [1..<Suc (length cs)]), s) \<and>
    length (cas_entries s) \<le> MAX_CHANGED_ATTRS \<and>
    (\<forall>i since e c a. i < length cs \<and> since \<le> i \<and> ChangedAttr_matches (cs ! i) e c a \<longrightarrow>
       ChangedAttrs_contains_since e c a (of_nat since) s) \<and>
    (\<forall>since. ChangedAttrs_any_since since s \<longleftrightarrow> since < of_nat (length cs))"
proof -
  let ?s = "fold record_state cs ChangedAttrs_new"
  have "map fst (change_history 0 cs) = map of_nat [1..<Suc (length cs)]"
    by (rule nth_equalityI) (simp_all add: change_history_nth del: upt_Suc of_nat_Suc)
  then have "record_all cs ChangedAttrs_new = (Ok (map of_nat [1..<Suc (length cs)]), ?s)"
    using record_all_fold [OF new_inv(1), of cs] assms by (simp add: new_inv del: upt_Suc)
  moreover have "length (cas_entries ?s) \<le> MAX_CHANGED_ATTRS"
    using records_state(1) [OF assms] by (simp add: ChangedAttrs_inv_def table_ok_def)
  moreover have "ChangedAttrs_contains_since e c a (of_nat since) ?s"
    if "i < length cs" "since \<le> i" "ChangedAttr_matches (cs ! i) e c a" for i since e c a
    using records_state(3) [OF assms that(1,2), of "(e, c, a)"] that(3)
    by (simp add: change_affects_def contains_path_def)
  ultimately show ?thesis using records_any_since [OF assms] by blast
qed

theorem changes_never_lost_witness:
  "\<exists>s. record_all (map (\<lambda>a. ChangedAttr_concrete 1 (of_nat a div 5) (of_nat a) 0) [0..<40]) ChangedAttrs_new =
      (Ok (map of_nat [1..<41]), s) \<and>
    length (cas_entries s) \<le> 16 \<and> ChangedAttrs_contains_since 1 4 21 7 s \<and> \<not> ChangedAttrs_any_since 40 s"
proof -
  let ?cs = "map (\<lambda>a. ChangedAttr_concrete 1 (of_nat a div 5) (of_nat a) 0) [0..<40]"
  have "length ?cs + 1 < 2 ^ 64" "length ?cs = 40" by simp_all
  moreover have "ChangedAttr_matches (?cs ! 21) 1 4 21" by (simp add: ChangedAttr_concrete_def changed_attr_defs)
  ultimately show ?thesis using changes_never_lost [of ?cs]
    by (auto simp del: upt_Suc simp: MAX_CHANGED_ATTRS_def dest!: spec2 [of _ "21 :: nat" "7 :: nat"])
qed

subsection \<open>Exactness while the table has room\<close>

definition attr_path :: "ChangedAttr \<Rightarrow> u16 \<times> u32 \<times> u32" where
  "attr_path x = (ca_endpoint x, ca_cluster x, ca_attr x)"

definition concrete :: "ChangedAttr \<Rightarrow> bool" where
  "concrete x \<longleftrightarrow> \<not> ChangedAttr_is_endpoint_wildcard x \<and> \<not> ChangedAttr_is_cluster_wildcard x \<and>
     \<not> ChangedAttr_is_attr_wildcard x"

lemma concrete_covers:
  "concrete x \<Longrightarrow> concrete y \<Longrightarrow> ChangedAttr_covers x y \<longleftrightarrow> attr_path x = attr_path y"
  by (auto simp: concrete_def attr_path_def ChangedAttr_covers_def cov_def)

lemma concrete_affects: "concrete x \<Longrightarrow> change_affects x p \<longleftrightarrow> attr_path x = p"
  by (cases p) (simp add: concrete_def attr_path_def change_affects_def ChangedAttr_matches_def)

lemma path_change_id [simp]:
  "attr_path (x\<lparr>ca_change_id := n\<rparr>) = attr_path x" "concrete (x\<lparr>ca_change_id := n\<rparr>) = concrete x"
  by (simp_all add: attr_path_def concrete_def ChangedAttr_is_endpoint_wildcard_def
      ChangedAttr_is_cluster_wildcard_def ChangedAttr_is_attr_wildcard_def)

text \<open>The entries are single attributes of a set of paths, one each, and each stands for a recorded change.\<close>

definition exact_table :: "(u16 \<times> u32 \<times> u32) set \<Rightarrow> (u64 \<times> ChangedAttr) set \<Rightarrow> ChangedAttrs \<Rightarrow> bool" where
  "exact_table P H s \<longleftrightarrow> distinct (map attr_path (cas_entries s)) \<and>
     (\<forall>x \<in> set (cas_entries s). concrete x \<and> attr_path x \<in> P \<and>
        (\<exists>c. (ca_change_id x, c) \<in> H \<and> attr_path c = attr_path x))"

lemma exact_table_room:
  assumes "exact_table P H s" and "finite P" and "card P \<le> MAX_CHANGED_ATTRS"
    and "q \<in> P" and "q \<notin> attr_path ` set (cas_entries s)"
  shows "length (cas_entries s) < MAX_CHANGED_ATTRS"
proof -
  have "length (cas_entries s) = card (attr_path ` set (cas_entries s))"
    using assms(1) distinct_card [of "map attr_path (cas_entries s)"] by (simp add: exact_table_def)
  also have "\<dots> < card P" using assms by (intro psubset_card_mono) (auto simp: exact_table_def)
  finally show ?thesis using assms(3) by simp
qed

lemma swap_drop_none: "\<forall>x \<in> set (drop i xs). \<not> Q x \<Longrightarrow> swap_drop_from Q i xs = xs"
proof (induction Q i xs rule: swap_drop_from.induct)
  case (1 Q i xs)
  then show ?case by (subst swap_drop_from.simps) (auto simp flip: Cons_nth_drop_Suc)
qed

lemma exact_table_record:
  assumes t: "exact_table P H s" and P: "finite P" "card P \<le> MAX_CHANGED_ATTRS"
    and c: "concrete c" "attr_path c \<in> P"
  shows "exact_table P (insert (cas_next_change_id s, c) H) (record_state c s)"
proof -
  let ?n = "cas_next_change_id s" and ?es = "cas_entries s"
  let ?new = "c\<lparr>ca_change_id := ?n\<rparr>" and ?s = "s\<lparr>cas_next_change_id := max (?n + 1) 1\<rparr>"
  have cov: "ChangedAttr_covers x c \<longleftrightarrow> attr_path x = attr_path c"
    "ChangedAttr_covers c x \<longleftrightarrow> attr_path x = attr_path c" if "x \<in> set ?es" for x
    using t c that concrete_covers by (auto simp: exact_table_def)
  show ?thesis
  proof (cases "position (\<lambda>x. ChangedAttr_covers x ?new) ?es")
    case (Some i)
    then have i: "i < length ?es" "attr_path (?es ! i) = attr_path c"
      using position_SomeD [OF Some] cov by auto
    let ?y = "(?es ! i)\<lparr>ca_change_id := ?n\<rparr>"
    have r: "record_state c s = ?s\<lparr>cas_entries := ?es[i := ?y]\<rparr>"
      using Some by (simp add: record_state_def ChangedAttrs_record_raw_def refresh_covering_def Let_def)
    have "map attr_path (?es[i := ?y]) = map attr_path ?es"
      using i by (simp add: map_update list_update_same_conv)
    moreover have "concrete x \<and> attr_path x \<in> P \<and>
        (\<exists>d. (ca_change_id x, d) \<in> insert (?n, c) H \<and> attr_path d = attr_path x)"
      if "x \<in> set (?es[i := ?y])" for x
    proof -
      from that consider "x \<in> set ?es" | "x = ?y" using set_update_subset_insert by fast
      then show ?thesis using t i c nth_mem [OF i(1)] by cases (auto simp: exact_table_def)
    qed
    ultimately show ?thesis using t by (simp add: exact_table_def r)
  next
    case None
    then have fresh: "attr_path c \<notin> attr_path ` set ?es" using cov by (auto simp: position_None)
    then have "swap_drop_from (ChangedAttr_covers ?new) 0 ?es = ?es"
      using cov by (intro swap_drop_none) (auto dest: rev_image_eqI [of _ _ "attr_path c" attr_path])
    moreover have "length ?es < MAX_CHANGED_ATTRS" by (rule exact_table_room [OF t P c(2) fresh])
    ultimately have "record_state c s = ?s\<lparr>cas_entries := ?es @ [?new]\<rparr>"
      using None by (simp add: record_state_def ChangedAttrs_record_raw_def refresh_covering_def entries_push_def Let_def)
    with t fresh c show ?thesis by (auto simp: exact_table_def)
  qed
qed

lemma exact_table_records:
  "exact_table P H s \<Longrightarrow> ChangedAttrs_inv s \<Longrightarrow> unat (ChangedAttrs_watermark s) + length cs + 1 < 2 ^ 64 \<Longrightarrow>
   finite P \<Longrightarrow> card P \<le> MAX_CHANGED_ATTRS \<Longrightarrow> \<forall>c \<in> set cs. concrete c \<and> attr_path c \<in> P \<Longrightarrow>
   exact_table P (H \<union> set (change_history (ChangedAttrs_watermark s) cs)) (fold record_state cs s)"
proof (induction cs arbitrary: s H)
  case (Cons c cs)
  have w: "ChangedAttrs_watermark (record_state c s) = ChangedAttrs_watermark s + 1"
    "ChangedAttrs_inv (record_state c s)" using watermark_record [of s c] Cons.prems by simp_all
  have "unat (ChangedAttrs_watermark (record_state c s)) = unat (ChangedAttrs_watermark s) + 1"
    using Cons.prems by (simp add: w unat_word_ariths)
  moreover have "exact_table P (insert (ChangedAttrs_watermark s + 1, c) H) (record_state c s)"
    using exact_table_record [of P H s c] Cons.prems by (simp add: ChangedAttrs_watermark_def)
  ultimately show ?case using Cons.IH [of "insert (ChangedAttrs_watermark s + 1, c) H" "record_state c s"] Cons.prems w
    by simp
qed simp

text \<open>
  Claim C33: as long as no more than \<open>MAX_CHANGED_ATTRS\<close> different attributes change, and no change
  is a wildcard, the table is exact: a query finds an attribute if and only if that very attribute was recorded
  after the identifier asked for. (Coarser entries, and the superfluous reports they cause, appear only beyond that.)
\<close>

theorem changes_exact:
  assumes "length cs + 1 < 2 ^ 64" and "\<forall>x \<in> set cs. concrete x"
    and "card (attr_path ` set cs) \<le> MAX_CHANGED_ATTRS"
  shows "\<exists>ids s. record_all cs ChangedAttrs_new = (Ok ids, s) \<and>
    (\<forall>e c a since. since \<le> length cs \<longrightarrow>
       (ChangedAttrs_contains_since e c a (of_nat since) s \<longleftrightarrow>
        (\<exists>i < length cs. since \<le> i \<and> attr_path (cs ! i) = (e, c, a))))"
proof -
  let ?s = "fold record_state cs ChangedAttrs_new"
  have "exact_table (attr_path ` set cs) {} ChangedAttrs_new" by (simp add: exact_table_def ChangedAttrs_new_def)
  then have t: "exact_table (attr_path ` set cs) (set (change_history 0 cs)) ?s"
    using exact_table_records [OF _ new_inv(1), of _ "{}" cs] assms by (simp add: new_inv)
  have "(ChangedAttrs_contains_since e c a (of_nat since) ?s \<longleftrightarrow>
        (\<exists>i < length cs. since \<le> i \<and> attr_path (cs ! i) = (e, c, a)))" (is "?l \<longleftrightarrow> ?r")
    if since: "since \<le> length cs" for e c a since
  proof
    assume ?l
    then obtain x where x: "x \<in> set (cas_entries ?s)" "of_nat since < ca_change_id x" "change_affects x (e, c, a)"
      using contains_path_iff [of "(e, c, a)"] by (auto simp: contains_path_def)
    with t obtain d where "(ca_change_id x, d) \<in> set (change_history 0 cs)" "attr_path d = (e, c, a)"
      by (auto simp: exact_table_def concrete_affects)
    then obtain i where i: "i < length cs" "ca_change_id x = of_nat (Suc i)" "attr_path (cs ! i) = (e, c, a)"
      by (auto simp: in_set_conv_nth change_history_nth simp del: of_nat_Suc)
    then have "since \<le> i" using x(2) assms(1) since
      by (simp add: word_less_nat_alt unat_of_nat del: of_nat_Suc)
    with i show ?r by auto
  next
    assume ?r
    then obtain i where i: "i < length cs" "since \<le> i" "attr_path (cs ! i) = (e, c, a)" by auto
    then have "change_affects (cs ! i) (e, c, a)" using assms(2) by (simp add: concrete_affects)
    with records_state(3) [OF assms(1) i(1,2), of "(e, c, a)"] show ?l by (simp add: contains_path_def)
  qed
  then show ?thesis using record_all_fold [OF new_inv(1), of cs] assms(1) by (auto simp: new_inv)
qed

theorem changes_exact_witness:
  "\<exists>ids s. record_all [ChangedAttr_concrete 1 6 0 0, ChangedAttr_concrete 1 8 0 0, ChangedAttr_concrete 1 6 0 0]
       ChangedAttrs_new = (Ok ids, s) \<and>
     ChangedAttrs_contains_since 1 6 0 2 s \<and> \<not> ChangedAttrs_contains_since 1 8 0 2 s"
proof -
  let ?cs = "[ChangedAttr_concrete 1 6 0 0, ChangedAttr_concrete 1 8 0 0, ChangedAttr_concrete 1 6 0 0]"
  have c: "\<forall>x \<in> set ?cs. concrete x"
    by (simp add: concrete_def ChangedAttr_concrete_def changed_attr_defs WILDCARD_ENDPOINT_def
        WILDCARD_CLUSTER_def WILDCARD_ATTR_def)
  have "card (attr_path ` set ?cs) \<le> MAX_CHANGED_ATTRS"
    by (rule order_trans [OF card_image_le card_length [THEN order_trans]]) (simp_all add: MAX_CHANGED_ATTRS_def)
  with c obtain ids s where r: "record_all ?cs ChangedAttrs_new = (Ok ids, s)" and
      *: "\<forall>e c a since. since \<le> length ?cs \<longrightarrow> (ChangedAttrs_contains_since e c a (of_nat since) s \<longleftrightarrow>
        (\<exists>i < length ?cs. since \<le> i \<and> attr_path (?cs ! i) = (e, c, a)))"
    using changes_exact [of ?cs] by (auto simp del: record_all.simps)
  have "(\<exists>i < length ?cs. 2 \<le> i \<and> attr_path (?cs ! i) = (1, 6, 0))"
    by (rule exI [of _ 2]) (simp add: attr_path_def ChangedAttr_concrete_def)
  moreover have "\<not> (\<exists>i < length ?cs. 2 \<le> i \<and> attr_path (?cs ! i) = (1, 8, 0))"
    by (auto simp: attr_path_def ChangedAttr_concrete_def less_Suc_eq numeral_2_eq_2)
  ultimately have "ChangedAttrs_contains_since 1 6 0 (of_nat 2) s" "\<not> ChangedAttrs_contains_since 1 8 0 (of_nat 2) s"
    using * by (metis (no_types) le_add1 length_Cons numeral_2_eq_2 add_2_eq_Suc)+
  with r show ?thesis by auto
qed

end
