(* ===== verification/Subscriptions.thy ===== *)
theory Subscriptions
  imports Changed_Attrs
begin

section \<open>Subscriptions\<close>

text \<open>
  \<^verbatim>\<open>dm/subscriptions.rs\<close> and the loop of \<^verbatim>\<open>DataModel::process_subscriptions\<close> in \<^verbatim>\<open>dm.rs\<close>: the table
  of accepted subscriptions, the buffers with their requests (kept in a second vector that must
  stay in step with it) and the contexts of reports under way. A report takes its subscription out of the table; dropping the context
  puts it back or gives it up.

  \<open>N\<close> is the capacity of the table. The content of a request buffer is not looked at here and is
  of any type. \<open>embassy_time\<close> instants and durations are numbers of ticks below \<open>2 ^ 64\<close>,
  \<^verbatim>\<open>Instant::MAX\<close> the largest of them, \<open>hz\<close> the tick rate. The reporter and the handlers of
  subscribe requests run as tasks of their own and interleave at every \<^verbatim>\<open>await\<close>; each method here
  runs under the lock of the table and is one step. Arithmetic that leaves its range and a failed
  \<^verbatim>\<open>debug_assert!\<close> are panics, as in a build with checks.
\<close>

subsection \<open>Time\<close>

definition Instant_MAX :: nat where "Instant_MAX = 2 ^ 64 - 1"

definition Instant_checked_add :: "nat \<Rightarrow> nat \<Rightarrow> nat option" where
  "Instant_checked_add t d = (if t + d \<le> Instant_MAX then Some (t + d) else None)"

definition from_secs :: "nat \<Rightarrow> u16 \<Rightarrow> nat" where
  "from_secs hz secs = hz * unat secs"

subsection \<open>One subscription\<close>

record SubscriptionIds =
  si_id :: u32
  si_fab_idx :: u8
  si_peer_node_id :: u64

record Subscription =
  sb_ids :: SubscriptionIds
  sb_session_id :: u32
  sb_min_int_secs :: u16
  sb_max_int_secs :: u16
  sb_reported_at :: nat
  sb_max_seen_attr_change_id :: u64
  sb_max_seen_event_number :: u64

definition Subscription_is_expired :: "nat \<Rightarrow> nat \<Rightarrow> Subscription \<Rightarrow> bool" where
  "Subscription_is_expired hz now sub =
     (case Instant_checked_add (sb_reported_at sub) (from_secs hz (sb_max_int_secs sub)) of
        Some expiry \<Rightarrow> expiry \<le> now | None \<Rightarrow> False)"

definition Subscription_is_report_allowed :: "nat \<Rightarrow> nat \<Rightarrow> Subscription \<Rightarrow> bool" where
  "Subscription_is_report_allowed hz now sub =
     (case Instant_checked_add (sb_reported_at sub) (from_secs hz (sb_min_int_secs sub)) of
        Some next_report \<Rightarrow> next_report \<le> now | None \<Rightarrow> True)"

definition Subscription_is_report_due :: "nat \<Rightarrow> nat \<Rightarrow> Subscription \<Rightarrow> bool" where
  "Subscription_is_report_due hz now sub =
     (case Instant_checked_add (sb_reported_at sub) (from_secs hz (sb_max_int_secs sub)) of
        Some next_report \<Rightarrow>
          next_report \<le> now \<or> next_report - now \<le> from_secs hz (sb_max_int_secs sub div 2)
      | None \<Rightarrow> True)"

definition Subscription_is_affected_by_attr_changes :: "ChangedAttrs \<Rightarrow> Subscription \<Rightarrow> bool" where
  "Subscription_is_affected_by_attr_changes changes sub =
     ChangedAttrs_any_since (sb_max_seen_attr_change_id sub) changes"

definition Subscription_is_affected_by_new_events :: "u64 \<Rightarrow> Subscription \<Rightarrow> bool" where
  "Subscription_is_affected_by_new_events event_numbers_watermark sub \<longleftrightarrow>
     sb_max_seen_event_number sub < event_numbers_watermark"

definition Subscription_is_reportable :: "nat \<Rightarrow> nat \<Rightarrow> ChangedAttrs \<Rightarrow> u64 \<Rightarrow> Subscription \<Rightarrow> bool" where
  "Subscription_is_reportable hz now changed_attrs event_numbers_watermark sub =
     (if \<not> Subscription_is_report_allowed hz now sub then False
      else Subscription_is_report_due hz now sub \<or>
        Subscription_is_affected_by_attr_changes changed_attrs sub \<or>
        Subscription_is_affected_by_new_events event_numbers_watermark sub)"

subsection \<open>The table\<close>

record SubscriptionsInner =
  sn_next_subscription_id :: u32
  sn_subscriptions_count :: nat
  sn_subscriptions :: "Subscription list"
  sn_changed_attrs :: ChangedAttrs
  sn_reporting :: "Subscription option"
  sn_reporting_cancelled :: "string option"

definition SubscriptionsInner_new :: SubscriptionsInner where
  "SubscriptionsInner_new = \<lparr>sn_next_subscription_id = 1, sn_subscriptions_count = 0, sn_subscriptions = [],
     sn_changed_attrs = ChangedAttrs_new, sn_reporting = None, sn_reporting_cancelled = None\<rparr>"

definition SubscriptionsInner_clear :: "SubscriptionsInner \<Rightarrow> SubscriptionsInner" where
  "SubscriptionsInner_clear s =
     (let s = s\<lparr>sn_subscriptions := [], sn_subscriptions_count := 0\<rparr>
      in if sn_reporting s \<noteq> None
         then s\<lparr>sn_reporting_cancelled := Some ''subscriptions cleared'', sn_subscriptions_count := 1\<rparr>
         else s)"

type_synonym 'b table = "SubscriptionsInner \<times> 'b list"

definition SubscriptionsInner_add :: "nat \<Rightarrow> u8 \<Rightarrow> u64 \<Rightarrow> u32 \<Rightarrow> u16 \<Rightarrow> u16 \<Rightarrow> 'b \<Rightarrow>
    ('b table, (Subscription \<times> 'b) option) sr" where
  "SubscriptionsInner_add N fab_idx peer_node_id session_id min_int_secs max_int_secs buffer = (\<lambda>(s, buffers).
     if sn_subscriptions_count s \<ge> N then (Ok None, s, buffers)
     else
       let s1 = s\<lparr>sn_subscriptions_count := sn_subscriptions_count s + 1\<rparr>;
           id = sn_next_subscription_id s1
       in if id = - 1 then (Panic, s1, buffers)
          else
            let s2 = s1\<lparr>sn_next_subscription_id := id + 1\<rparr>;
                subscription = \<lparr>sb_ids = \<lparr>si_id = id, si_fab_idx = fab_idx, si_peer_node_id = peer_node_id\<rparr>,
                  sb_session_id = session_id, sb_min_int_secs = min_int_secs, sb_max_int_secs = max_int_secs,
                  sb_reported_at = Instant_MAX,
                  sb_max_seen_attr_change_id = ChangedAttrs_watermark (sn_changed_attrs s2),
                  sb_max_seen_event_number = 0\<rparr>
            in (Ok (Some (subscription, buffer)), s2, buffers))"

text \<open>\<^verbatim>\<open>position\<close> over the zipped iterator evaluates \<^verbatim>\<open>&buffers[index]\<close> for each element it looks at.\<close>

fun find_reportable_from :: "(Subscription \<Rightarrow> bool) \<Rightarrow> nat \<Rightarrow> Subscription list \<Rightarrow> 'b list \<Rightarrow> nat option res" where
  "find_reportable_from P i [] buffers = Ok None"
| "find_reportable_from P i (sub # subs) buffers =
     (if i < length buffers then
        if P sub then Ok (Some i) else find_reportable_from P (i + 1) subs buffers
      else Panic)"

definition SubscriptionsInner_find_reportable :: "nat \<Rightarrow> nat \<Rightarrow> u64 \<Rightarrow> 'b table \<Rightarrow> nat option res" where
  "SubscriptionsInner_find_reportable hz now event_numbers_watermark = (\<lambda>(s, buffers).
     find_reportable_from (Subscription_is_reportable hz now (sn_changed_attrs s) event_numbers_watermark) 0
       (sn_subscriptions s) buffers)"

definition SubscriptionsInner_report :: "nat \<Rightarrow> nat \<Rightarrow> u64 \<Rightarrow> ('b table, (Subscription \<times> 'b) option) sr" where
  "SubscriptionsInner_report hz now event_numbers_watermark = (\<lambda>(s, buffers).
     if sn_reporting s \<noteq> None \<or> sn_reporting_cancelled s \<noteq> None then (Panic, s, buffers)
     else case SubscriptionsInner_find_reportable hz now event_numbers_watermark (s, buffers) of
       Err e \<Rightarrow> (Err e, s, buffers) | Panic \<Rightarrow> (Panic, s, buffers)
     | Ok None \<Rightarrow> (Ok None, s, buffers)
     | Ok (Some index) \<Rightarrow>
         let sub = sn_subscriptions s ! index;
             s1 = s\<lparr>sn_subscriptions := swap_remove index (sn_subscriptions s)\<rparr>
         in if index < length buffers
            then (Ok (Some (sub, buffers ! index)), s1\<lparr>sn_reporting := Some sub\<rparr>, swap_remove index buffers)
            else (Panic, s1, buffers))"

definition count_dec :: "'b table \<Rightarrow> unit res \<times> 'b table" where
  "count_dec = (\<lambda>(s, buffers).
     if sn_subscriptions_count s = 0 then (Panic, s, buffers)
     else (Ok (), s\<lparr>sn_subscriptions_count := sn_subscriptions_count s - 1\<rparr>, buffers))"

definition SubscriptionsInner_report_complete :: "nat \<Rightarrow> Subscription \<Rightarrow> 'b \<Rightarrow> bool \<Rightarrow> ('b table, unit) sr" where
  "SubscriptionsInner_report_complete N sub buffer keep = (\<lambda>(s, buffers).
     let cancelled = sn_reporting_cancelled s;
         s = s\<lparr>sn_reporting := None, sn_reporting_cancelled := None\<rparr>
     in case cancelled of
          Some reason \<Rightarrow> count_dec (s, buffers)
        | None \<Rightarrow>
            if keep then
              if length (sn_subscriptions s) < N then
                let s = s\<lparr>sn_subscriptions := sn_subscriptions s @ [sub]\<rparr>
                in if length buffers < N then (Ok (), s, buffers @ [buffer]) else (Panic, s, buffers)
              else (Panic, s, buffers)
            else count_dec (s, buffers))"

definition min_seen :: "Subscription list \<Rightarrow> u64 option" where
  "min_seen subs = (if subs = [] then None else Some (Min (set (map sb_max_seen_attr_change_id subs))))"

definition SubscriptionsInner_purge_reported_changes :: "SubscriptionsInner \<Rightarrow> SubscriptionsInner" where
  "SubscriptionsInner_purge_reported_changes s =
     s\<lparr>sn_changed_attrs :=
        (case min_seen (sn_subscriptions s) of
           Some min_seen_attr_change_id \<Rightarrow> ChangedAttrs_purge_up_to min_seen_attr_change_id (sn_changed_attrs s)
         | None \<Rightarrow> ChangedAttrs_clear (sn_changed_attrs s))\<rparr>"

subsection \<open>The public interface and the report context\<close>

record 'b Subscriptions =
  su_state :: SubscriptionsInner
  su_buffers :: "'b list"
  su_notified :: bool

definition Subscriptions_new :: "'b Subscriptions" where
  "Subscriptions_new = \<lparr>su_state = SubscriptionsInner_new, su_buffers = [], su_notified = False\<rparr>"

definition Subscriptions_with :: "('b table, 'a) sr \<Rightarrow> ('b Subscriptions, 'a) sr" where
  "Subscriptions_with m = (\<lambda>s. case m (su_state s, su_buffers s) of
     (r, (st, buffers)) \<Rightarrow> (r, s\<lparr>su_state := st, su_buffers := buffers\<rparr>))"

definition Subscriptions_notify :: "('b Subscriptions, unit) sr" where
  "Subscriptions_notify = sr_modify (\<lambda>s. s\<lparr>su_notified := True\<rparr>)"

definition record_and_notify :: "(ChangedAttrs, u64) sr \<Rightarrow> ('b Subscriptions, unit) sr" where
  "record_and_notify m = sr_then
     (\<lambda>s. case m (sn_changed_attrs (su_state s)) of
        (r, c) \<Rightarrow> (r, s\<lparr>su_state := (su_state s)\<lparr>sn_changed_attrs := c\<rparr>\<rparr>))
     Subscriptions_notify"

definition Subscriptions_notify_attr_changed :: "u16 \<Rightarrow> u32 \<Rightarrow> u32 \<Rightarrow> ('b Subscriptions, unit) sr" where
  "Subscriptions_notify_attr_changed endpoint_id cluster_id attr_id =
     record_and_notify (ChangedAttrs_record endpoint_id cluster_id attr_id)"

definition Subscriptions_notify_cluster_changed :: "u16 \<Rightarrow> u32 \<Rightarrow> ('b Subscriptions, unit) sr" where
  "Subscriptions_notify_cluster_changed endpoint_id cluster_id =
     record_and_notify (ChangedAttrs_record_wildcard (Some endpoint_id) (Some cluster_id))"

definition Subscriptions_notify_endpoint_changed :: "u16 \<Rightarrow> ('b Subscriptions, unit) sr" where
  "Subscriptions_notify_endpoint_changed endpoint_id =
     record_and_notify (ChangedAttrs_record_wildcard (Some endpoint_id) None)"

definition Subscriptions_notify_all_changed :: "('b Subscriptions, unit) sr" where
  "Subscriptions_notify_all_changed = record_and_notify (ChangedAttrs_record_wildcard None None)"

definition Subscriptions_notify_event_emitted :: "('b Subscriptions, unit) sr" where
  "Subscriptions_notify_event_emitted = Subscriptions_notify"

definition Subscriptions_clear :: "'b Subscriptions \<Rightarrow> 'b Subscriptions" where
  "Subscriptions_clear s = s\<lparr>su_state := SubscriptionsInner_clear (su_state s)\<rparr>"

record 'b ReportContext =
  rc_subscription :: "Subscription option"
  rc_subscription_buffer :: "'b option"
  rc_next_max_seen_attr_change_id :: u64
  rc_next_max_seen_event_number :: u64
  rc_next_reported_at :: nat
  rc_keep :: bool

definition ReportContext_of :: "Subscription \<Rightarrow> 'b \<Rightarrow> u64 \<Rightarrow> u64 \<Rightarrow> nat \<Rightarrow> 'b ReportContext" where
  "ReportContext_of sub buf change_ids event_numbers now =
     \<lparr>rc_subscription = Some sub, rc_subscription_buffer = Some buf,
      rc_next_max_seen_attr_change_id = change_ids, rc_next_max_seen_event_number = event_numbers,
      rc_next_reported_at = now, rc_keep = False\<rparr>"

definition with_watermark :: "('b table, (Subscription \<times> 'b) option) sr \<Rightarrow> u64 \<Rightarrow> nat \<Rightarrow>
    ('b Subscriptions, 'b ReportContext option) sr" where
  "with_watermark m event_numbers_watermark now =
     sr_bind (Subscriptions_with m) (\<lambda>r.
       case r of None \<Rightarrow> sr_return None
       | Some (sub, buf) \<Rightarrow> sr_bind sr_get (\<lambda>s.
           sr_return (Some (ReportContext_of sub buf
             (ChangedAttrs_watermark (sn_changed_attrs (su_state s))) event_numbers_watermark now))))"

definition Subscriptions_add :: "nat \<Rightarrow> nat \<Rightarrow> u8 \<Rightarrow> u64 \<Rightarrow> u32 \<Rightarrow> u16 \<Rightarrow> u16 \<Rightarrow> u64 \<Rightarrow> 'b \<Rightarrow>
    ('b Subscriptions, 'b ReportContext option) sr" where
  "Subscriptions_add N now fabric_idx peer_node_id session_id min_int_secs max_int_secs event_numbers_watermark buffer =
     with_watermark (SubscriptionsInner_add N fabric_idx peer_node_id session_id min_int_secs max_int_secs buffer)
       event_numbers_watermark now"

definition Subscriptions_report :: "nat \<Rightarrow> nat \<Rightarrow> u64 \<Rightarrow> ('b Subscriptions, 'b ReportContext option) sr" where
  "Subscriptions_report hz now event_numbers_watermark =
     with_watermark (SubscriptionsInner_report hz now event_numbers_watermark) event_numbers_watermark now"

definition Subscriptions_purge_reported_changes :: "'b Subscriptions \<Rightarrow> 'b Subscriptions" where
  "Subscriptions_purge_reported_changes s =
     s\<lparr>su_state := SubscriptionsInner_purge_reported_changes (su_state s)\<rparr>"

text \<open>\<^verbatim>\<open>report_complete\<close> is what dropping the context runs.\<close>

definition Subscriptions_report_complete :: "nat \<Rightarrow> 'b ReportContext \<Rightarrow> ('b Subscriptions, unit) sr" where
  "Subscriptions_report_complete N report =
     (case (rc_subscription report, rc_subscription_buffer report) of
        (Some sub, Some buf) \<Rightarrow>
          Subscriptions_with (SubscriptionsInner_report_complete N
            (sub\<lparr>sb_max_seen_attr_change_id := rc_next_max_seen_attr_change_id report,
                 sb_max_seen_event_number := rc_next_max_seen_event_number report,
                 sb_reported_at := rc_next_reported_at report\<rparr>) buf (rc_keep report))
      | _ \<Rightarrow> sr_panic)"

definition ReportContext_set_keep :: "'b ReportContext \<Rightarrow> 'b ReportContext" where
  "ReportContext_set_keep rctx = rctx\<lparr>rc_keep := True\<rparr>"

definition ReportContext_should_send_if_empty :: "nat \<Rightarrow> 'b ReportContext \<Rightarrow> bool res" where
  "ReportContext_should_send_if_empty hz rctx =
     (case rc_subscription rctx of None \<Rightarrow> Panic
      | Some sub \<Rightarrow> Ok (Subscription_is_report_due hz (rc_next_reported_at rctx) sub))"

definition ReportContext_should_report_attr :: "u16 \<Rightarrow> u32 \<Rightarrow> u32 \<Rightarrow> 'b ReportContext \<Rightarrow> 'b Subscriptions \<Rightarrow> bool res" where
  "ReportContext_should_report_attr endpoint_id cluster_id attr_id rctx s =
     (case rc_subscription rctx of None \<Rightarrow> Panic
      | Some sub \<Rightarrow>
          if sb_reported_at sub = Instant_MAX then Ok True
          else Ok (ChangedAttrs_contains_since endpoint_id cluster_id attr_id (sb_max_seen_attr_change_id sub)
                     (sn_changed_attrs (su_state s))))"

definition ReportContext_max_seen_event_number :: "'b ReportContext \<Rightarrow> u64 res" where
  "ReportContext_max_seen_event_number rctx =
     (case rc_subscription rctx of None \<Rightarrow> Panic | Some sub \<Rightarrow> Ok (sb_max_seen_event_number sub))"

text \<open>
  The loop of \<^verbatim>\<open>remove\<close>: look for the first subscription the predicate gives a reason for, take it
  out of both vectors and start over.
\<close>

function remove_loop :: "(Subscription \<Rightarrow> string option) \<Rightarrow> bool \<Rightarrow> 'b table \<Rightarrow> bool res \<times> 'b table" where
  "remove_loop f removed (s, buffers) =
     (case position (\<lambda>sub. f sub \<noteq> None) (sn_subscriptions s) of
        None \<Rightarrow> (Ok removed, s, buffers)
      | Some index \<Rightarrow>
          let s1 = s\<lparr>sn_subscriptions := swap_remove index (sn_subscriptions s)\<rparr>
          in if index < length buffers then
               let buffers1 = swap_remove index buffers
               in if sn_subscriptions_count s1 = 0 then (Panic, s1, buffers1)
                  else remove_loop f True (s1\<lparr>sn_subscriptions_count := sn_subscriptions_count s1 - 1\<rparr>, buffers1)
             else (Panic, s1, buffers))"
  by pat_completeness auto
termination remove_loop
  by (relation "measure (\<lambda>(f, r, (s, b)). length (sn_subscriptions s))")
    (auto dest: position_SomeD)

declare remove_loop.simps [simp del]

definition Subscriptions_remove :: "(Subscription \<Rightarrow> string option) \<Rightarrow> ('b Subscriptions, bool) sr" where
  "Subscriptions_remove f =
     sr_bind
       (Subscriptions_with (sr_bind (remove_loop f False) (\<lambda>removed (s, buffers).
          case (sn_reporting_cancelled s, sn_reporting s) of
            (None, Some sub) \<Rightarrow>
              (case f sub of
                 Some reason \<Rightarrow> (Ok True, s\<lparr>sn_reporting_cancelled := Some reason\<rparr>, buffers)
               | None \<Rightarrow> (Ok removed, s, buffers))
          | _ \<Rightarrow> (Ok removed, s, buffers))))
       (\<lambda>removed. sr_then (sr_when removed Subscriptions_notify) (sr_return removed))"

subsection \<open>The data model's use of the table\<close>

text \<open>
  The predicate with which \<^verbatim>\<open>process_subscriptions\<close> drops subscriptions, with the lookups of the
  fabric and of the session as parameters, and the intervals \<^verbatim>\<open>subscribe\<close> hands to \<^verbatim>\<open>add\<close>.
\<close>

definition DataModel_removal_reason :: "nat \<Rightarrow> nat \<Rightarrow> (u8 \<Rightarrow> bool) \<Rightarrow> (u32 \<Rightarrow> bool) \<Rightarrow> Subscription \<Rightarrow> string option" where
  "DataModel_removal_reason hz now has_fabric has_session sub =
     (if Subscription_is_expired hz now sub then Some ''expired''
      else if \<not> has_fabric (si_fab_idx (sb_ids sub)) then Some ''fabric removed''
      else if \<not> has_session (sb_session_id sub) then Some ''session removed''
      else None)"

definition DataModel_keep_subs_reason :: "u8 \<Rightarrow> u64 \<Rightarrow> Subscription \<Rightarrow> string option" where
  "DataModel_keep_subs_reason fab_idx peer_node_id sub =
     (if si_fab_idx (sb_ids sub) = fab_idx \<and> si_peer_node_id (sb_ids sub) = peer_node_id
      then Some ''new subscription request'' else None)"

definition DataModel_max_int_secs :: "u16 \<Rightarrow> u16" where
  "DataModel_max_int_secs max_int_ceil = max max_int_ceil 40"

text \<open>
  The inner loop of \<^verbatim>\<open>process_subscriptions\<close>: report on one subscription after the other until none
  is reportable. \<open>process\<close> is whether \<^verbatim>\<open>process_subscription\<close> returned \<^verbatim>\<open>Ok(true)\<close>, that is, whether the
  subscriber took the report. \<open>None\<close> is running out of fuel. Nothing else touches the table here.
\<close>

fun report_loop :: "nat \<Rightarrow> nat \<Rightarrow> nat \<Rightarrow> nat \<Rightarrow> u64 \<Rightarrow> ('b ReportContext \<Rightarrow> bool) \<Rightarrow> 'b Subscriptions \<Rightarrow>
    ('b ReportContext list res \<times> 'b Subscriptions) option" where
  "report_loop 0 N hz now ev process s = None"
| "report_loop (Suc fuel) N hz now ev process s =
     (case Subscriptions_report hz now ev s of
        (Err e, s1) \<Rightarrow> Some (Err e, s1)
      | (Panic, s1) \<Rightarrow> Some (Panic, s1)
      | (Ok None, s1) \<Rightarrow> Some (Ok [], s1)
      | (Ok (Some rctx), s1) \<Rightarrow>
          (case Subscriptions_report_complete N (if process rctx then ReportContext_set_keep rctx else rctx) s1 of
             (Err e, s2) \<Rightarrow> Some (Err e, s2)
           | (Panic, s2) \<Rightarrow> Some (Panic, s2)
           | (Ok _, s2) \<Rightarrow>
               map_option (\<lambda>(r, s3). (res_bind r (\<lambda>rs. Ok (rctx # rs)), s3))
                 (report_loop fuel N hz now ev process s2)))"

text \<open>
  The tasks together: the application that changes attributes, the handlers of subscribe requests
  with their priming reports, and the reporter with at most one report under way, which purges the table of changes only between
  reports. An action that does not apply leaves the state alone. The state carries the history of
  changes, with their identifiers, beside the table.
\<close>

record 'b System =
  sy_subs :: "'b Subscriptions"
  sy_priming :: "'b ReportContext list"
  sy_report :: "'b ReportContext option"
  sy_history :: "(u64 \<times> ChangedAttr) list"

datatype 'b action =
    Change ChangedAttr
  | Subscribe nat u8 u64 u32 u16 u16 u64 'b
  | FinishPriming nat bool
  | BeginReport nat u64
  | FinishReport bool
  | Remove "Subscription \<Rightarrow> string option"
  | Purge

definition System_new :: "'b System" where
  "System_new = \<lparr>sy_subs = Subscriptions_new, sy_priming = [], sy_report = None, sy_history = []\<rparr>"

definition with_keep :: "bool \<Rightarrow> 'b ReportContext \<Rightarrow> 'b ReportContext" where
  "with_keep keep rctx = (if keep then ReportContext_set_keep rctx else rctx)"

definition run_on :: "('b Subscriptions, 'a) sr \<Rightarrow> ('a \<Rightarrow> 'b System \<Rightarrow> 'b System) \<Rightarrow> 'b System \<Rightarrow> 'b System res" where
  "run_on m upd st = (case m (sy_subs st) of (r, s) \<Rightarrow>
     res_bind r (\<lambda>x. Ok (upd x (st\<lparr>sy_subs := s\<rparr>))))"

fun sys_step :: "nat \<Rightarrow> nat \<Rightarrow> 'b action \<Rightarrow> 'b System \<Rightarrow> 'b System res" where
  "sys_step N hz (Change c) st =
     run_on (record_and_notify (ChangedAttrs_record_raw c))
       (\<lambda>_ st'. st'\<lparr>sy_history := (cas_next_change_id (sn_changed_attrs (su_state (sy_subs st))), c) # sy_history st'\<rparr>) st"
| "sys_step N hz (Subscribe now fab peer sess min_int max_int ev buf) st =
     run_on (Subscriptions_add N now fab peer sess min_int max_int ev buf)
       (\<lambda>r st'. case r of None \<Rightarrow> st' | Some rctx \<Rightarrow> st'\<lparr>sy_priming := sy_priming st' @ [rctx]\<rparr>) st"
| "sys_step N hz (FinishPriming i keep) st =
     (if i < length (sy_priming st) then
        run_on (Subscriptions_report_complete N (with_keep keep (sy_priming st ! i)))
          (\<lambda>_ st'. st'\<lparr>sy_priming := take i (sy_priming st') @ drop (Suc i) (sy_priming st')\<rparr>) st
      else Ok st)"
| "sys_step N hz (BeginReport now ev) st =
     (case sy_report st of
        Some _ \<Rightarrow> Ok st
      | None \<Rightarrow> run_on (Subscriptions_report hz now ev) (\<lambda>r st'. st'\<lparr>sy_report := r\<rparr>) st)"
| "sys_step N hz (FinishReport keep) st =
     (case sy_report st of
        None \<Rightarrow> Ok st
      | Some rctx \<Rightarrow>
          run_on (Subscriptions_report_complete N (with_keep keep rctx)) (\<lambda>_ st'. st'\<lparr>sy_report := None\<rparr>) st)"
| "sys_step N hz (Remove f) st = run_on (Subscriptions_remove f) (\<lambda>_ st'. st') st"
| "sys_step N hz Purge st =
     (if sy_report st = None
      then Ok (st\<lparr>sy_subs := Subscriptions_purge_reported_changes (sy_subs st)\<rparr>) else Ok st)"

text \<open>
  The runs considered: the 64-bit change identifiers and the 32-bit subscription identifiers do not
  run out, and, when \<open>quiet\<close> is set, the reporter does not purge while a priming report is under way.
\<close>

fun sys_allowed :: "bool \<Rightarrow> 'b action \<Rightarrow> 'b System \<Rightarrow> bool" where
  "sys_allowed quiet (Change c) st \<longleftrightarrow>
     unat (ChangedAttrs_watermark (sn_changed_attrs (su_state (sy_subs st)))) + 2 < 2 ^ 64"
| "sys_allowed quiet (Subscribe _ _ _ _ _ _ _ _) st \<longleftrightarrow> sn_next_subscription_id (su_state (sy_subs st)) \<noteq> - 1"
| "sys_allowed quiet Purge st \<longleftrightarrow> (quiet \<longrightarrow> sy_priming st = [])"
| "sys_allowed quiet _ st \<longleftrightarrow> True"

inductive sys_reach :: "bool \<Rightarrow> nat \<Rightarrow> nat \<Rightarrow> 'b System \<Rightarrow> bool" for quiet N hz where
  init: "sys_reach quiet N hz System_new"
| step: "sys_reach quiet N hz st \<Longrightarrow> sys_allowed quiet a st \<Longrightarrow> sys_step N hz a st = Ok st' \<Longrightarrow> sys_reach quiet N hz st'"

subsection \<open>What the operations do to the table\<close>

lemma find_reportable_from_spec:
  "length bs = i + length subs \<Longrightarrow>
   find_reportable_from P i subs bs = Ok (map_option (\<lambda>k. i + k) (position P subs))"
  by (induction P i subs bs rule: find_reportable_from.induct)
    (auto simp: option.map_comp comp_def intro!: option.map_cong)

lemma Subscriptions_report_cases:
  assumes "length (su_buffers s) = length (sn_subscriptions (su_state s))"
    and "sn_reporting (su_state s) = None" and "sn_reporting_cancelled (su_state s) = None"
  obtains "position (Subscription_is_reportable hz now (sn_changed_attrs (su_state s)) ev) (sn_subscriptions (su_state s)) = None"
      and "Subscriptions_report hz now ev s = (Ok None, s)"
  | i where "position (Subscription_is_reportable hz now (sn_changed_attrs (su_state s)) ev) (sn_subscriptions (su_state s)) = Some i"
      and "i < length (sn_subscriptions (su_state s))"
      and "Subscriptions_report hz now ev s =
        (Ok (Some (ReportContext_of (sn_subscriptions (su_state s) ! i) (su_buffers s ! i)
               (ChangedAttrs_watermark (sn_changed_attrs (su_state s))) ev now)),
         s\<lparr>su_state := (su_state s)\<lparr>sn_subscriptions := swap_remove i (sn_subscriptions (su_state s)),
              sn_reporting := Some (sn_subscriptions (su_state s) ! i)\<rparr>,
           su_buffers := swap_remove i (su_buffers s)\<rparr>)"
proof (cases "position (Subscription_is_reportable hz now (sn_changed_attrs (su_state s)) ev) (sn_subscriptions (su_state s))")
  case None
  with assms show ?thesis
    by (intro that(1)) (simp_all add: Subscriptions_report_def with_watermark_def Subscriptions_with_def
        SubscriptionsInner_report_def SubscriptionsInner_find_reportable_def find_reportable_from_spec
        sr_bind_def sr_return_def)
next
  case (Some i)
  with position_SomeD [OF Some] assms show ?thesis
    by (intro that(2)) (simp_all add: Subscriptions_report_def with_watermark_def Subscriptions_with_def
        SubscriptionsInner_report_def SubscriptionsInner_find_reportable_def find_reportable_from_spec
        sr_bind_def sr_return_def sr_get_def Let_def)
qed

lemma Subscriptions_add_full:
  "N \<le> sn_subscriptions_count (su_state s) \<Longrightarrow>
   Subscriptions_add N now fab peer sess min_int max_int ev buf s = (Ok None, s)"
  by (simp add: Subscriptions_add_def with_watermark_def Subscriptions_with_def SubscriptionsInner_add_def
      sr_bind_def sr_return_def)

definition fresh_subscription :: "'b Subscriptions \<Rightarrow> u8 \<Rightarrow> u64 \<Rightarrow> u32 \<Rightarrow> u16 \<Rightarrow> u16 \<Rightarrow> Subscription" where
  "fresh_subscription s fab peer sess min_int max_int =
     \<lparr>sb_ids = \<lparr>si_id = sn_next_subscription_id (su_state s), si_fab_idx = fab, si_peer_node_id = peer\<rparr>,
      sb_session_id = sess, sb_min_int_secs = min_int, sb_max_int_secs = max_int, sb_reported_at = Instant_MAX,
      sb_max_seen_attr_change_id = ChangedAttrs_watermark (sn_changed_attrs (su_state s)),
      sb_max_seen_event_number = 0\<rparr>"

lemma Subscriptions_add_room:
  "sn_subscriptions_count (su_state s) < N \<Longrightarrow> sn_next_subscription_id (su_state s) \<noteq> - 1 \<Longrightarrow>
   Subscriptions_add N now fab peer sess min_int max_int ev buf s =
     (Ok (Some (ReportContext_of (fresh_subscription s fab peer sess min_int max_int) buf
        (ChangedAttrs_watermark (sn_changed_attrs (su_state s))) ev now)),
      s\<lparr>su_state := (su_state s)\<lparr>sn_subscriptions_count := sn_subscriptions_count (su_state s) + 1,
            sn_next_subscription_id := sn_next_subscription_id (su_state s) + 1\<rparr>\<rparr>)"
  by (simp add: Subscriptions_add_def with_watermark_def Subscriptions_with_def SubscriptionsInner_add_def
      fresh_subscription_def sr_bind_def sr_return_def sr_get_def Let_def)

text \<open>The subscription a completed report puts back.\<close>

definition reported_sub :: "'b ReportContext \<Rightarrow> Subscription" where
  "reported_sub rctx = (the (rc_subscription rctx))\<lparr>
     sb_max_seen_attr_change_id := rc_next_max_seen_attr_change_id rctx,
     sb_max_seen_event_number := rc_next_max_seen_event_number rctx, sb_reported_at := rc_next_reported_at rctx\<rparr>"

definition report_closed :: "'b Subscriptions \<Rightarrow> 'b Subscriptions" where
  "report_closed s = s\<lparr>su_state := (su_state s)\<lparr>sn_reporting := None, sn_reporting_cancelled := None\<rparr>\<rparr>"

lemma Subscriptions_complete_kept:
  assumes "rc_subscription rctx = Some sub" "rc_subscription_buffer rctx = Some buf"
    and "sn_reporting_cancelled (su_state s) = None" and "rc_keep rctx"
    and "length (sn_subscriptions (su_state s)) < N" and "length (su_buffers s) = length (sn_subscriptions (su_state s))"
  shows "Subscriptions_report_complete N rctx s =
    (Ok (), s\<lparr>su_state := (su_state s)\<lparr>sn_reporting := None, sn_reporting_cancelled := None,
                  sn_subscriptions := sn_subscriptions (su_state s) @ [reported_sub rctx]\<rparr>,
              su_buffers := su_buffers s @ [buf]\<rparr>)"
  using assms by (simp add: Subscriptions_report_complete_def Subscriptions_with_def
      SubscriptionsInner_report_complete_def reported_sub_def)

lemma Subscriptions_complete_dropped:
  assumes "rc_subscription rctx = Some sub" "rc_subscription_buffer rctx = Some buf"
    and "sn_reporting_cancelled (su_state s) \<noteq> None \<or> \<not> rc_keep rctx"
    and "0 < sn_subscriptions_count (su_state s)"
  shows "Subscriptions_report_complete N rctx s =
    (Ok (), s\<lparr>su_state := (su_state s)\<lparr>sn_reporting := None, sn_reporting_cancelled := None,
                  sn_subscriptions_count := sn_subscriptions_count (su_state s) - 1\<rparr>\<rparr>)"
  using assms by (cases "sn_reporting_cancelled (su_state s)")
    (simp_all add: Subscriptions_report_complete_def Subscriptions_with_def
      SubscriptionsInner_report_complete_def count_dec_def Let_def)

lemma remove_loop_spec:
  "length bs = length (sn_subscriptions s) \<Longrightarrow> length (sn_subscriptions s) \<le> sn_subscriptions_count s \<Longrightarrow>
   \<exists>removed' subs' bs'. remove_loop f removed (s, bs) =
       (Ok removed', s\<lparr>sn_subscriptions := subs',
          sn_subscriptions_count := sn_subscriptions_count s - (length (sn_subscriptions s) - length subs')\<rparr>, bs') \<and>
     mset subs' = filter_mset (\<lambda>sub. f sub = None) (mset (sn_subscriptions s)) \<and> length bs' = length subs' \<and>
     (removed' \<longleftrightarrow> removed \<or> (\<exists>sub \<in> set (sn_subscriptions s). f sub \<noteq> None))"
proof (induction "length (sn_subscriptions s)" arbitrary: s bs removed rule: less_induct)
  case (less s bs removed)
  show ?case
  proof (cases "position (\<lambda>sub. f sub \<noteq> None) (sn_subscriptions s)")
    case None
    then have none: "\<forall>sub \<in> set (sn_subscriptions s). f sub = None" by (simp add: position_None)
    then have "filter_mset (\<lambda>sub. f sub = None) (mset (sn_subscriptions s)) = mset (sn_subscriptions s)"
      by (simp add: filter_mset_eq_conv)
    with None none less(2) show ?thesis
      by (subst remove_loop.simps) (auto intro!: exI [of _ "sn_subscriptions s"])
  next
    case (Some i)
    let ?subs = "sn_subscriptions s"
    have i: "i < length ?subs" "f (?subs ! i) \<noteq> None" using position_SomeD [OF Some] by simp_all
    let ?s = "s\<lparr>sn_subscriptions := swap_remove i ?subs, sn_subscriptions_count := sn_subscriptions_count s - 1\<rparr>"
    have m: "filter_mset (\<lambda>sub. f sub = None) (mset (swap_remove i ?subs)) = filter_mset (\<lambda>sub. f sub = None) (mset ?subs)"
      using i by (auto simp: mset_swap_remove filter_diff_mset)
    have e: "\<exists>removed' subs' bs'. remove_loop f True (?s, swap_remove i bs) =
       (Ok removed', ?s\<lparr>sn_subscriptions := subs',
          sn_subscriptions_count := sn_subscriptions_count ?s - (length (sn_subscriptions ?s) - length subs')\<rparr>, bs') \<and>
     mset subs' = filter_mset (\<lambda>sub. f sub = None) (mset (sn_subscriptions ?s)) \<and> length bs' = length subs' \<and>
     (removed' \<longleftrightarrow> True \<or> (\<exists>sub \<in> set (sn_subscriptions ?s). f sub \<noteq> None))"
      using less(2,3) i by (intro less(1)) auto
    then obtain removed' subs' bs' where r: "remove_loop f True (?s, swap_remove i bs) =
         (Ok True, ?s\<lparr>sn_subscriptions := subs',
          sn_subscriptions_count := sn_subscriptions_count ?s - (length (sn_subscriptions ?s) - length subs')\<rparr>, bs')"
        "mset subs' = filter_mset (\<lambda>sub. f sub = None) (mset ?subs)" "length bs' = length subs'"
      using m by auto
    have "length subs' \<le> length ?subs - 1"
      using arg_cong [OF r(2), of size] arg_cong [OF m, of size] size_filter_mset_lesseq [of "\<lambda>sub. f sub = None" "mset (swap_remove i ?subs)"]
      by simp
    then have "sn_subscriptions_count s - 1 - (length ?subs - 1 - length subs') = sn_subscriptions_count s - (length ?subs - length subs')"
      using i by simp
    moreover have "\<exists>sub \<in> set ?subs. f sub \<noteq> None" using i nth_mem by blast
    moreover have "remove_loop f removed (s, bs) = remove_loop f True (?s, swap_remove i bs)"
      using Some i less(2,3) by (subst remove_loop.simps) (simp add: Let_def)
    ultimately show ?thesis using r
      by (intro exI [of _ True] exI [of _ subs'] exI [of _ bs']) simp
  qed
qed

definition cancel_reason :: "(Subscription \<Rightarrow> string option) \<Rightarrow> SubscriptionsInner \<Rightarrow> string option" where
  "cancel_reason f s = (case sn_reporting_cancelled s of
     Some r \<Rightarrow> Some r | None \<Rightarrow> (case sn_reporting s of None \<Rightarrow> None | Some sub \<Rightarrow> f sub))"

definition remove_hits :: "(Subscription \<Rightarrow> string option) \<Rightarrow> SubscriptionsInner \<Rightarrow> bool" where
  "remove_hits f s \<longleftrightarrow> (\<exists>sub \<in> set (sn_subscriptions s). f sub \<noteq> None) \<or>
     sn_reporting_cancelled s = None \<and> cancel_reason f s \<noteq> None"

lemma update_same:
  "sn_reporting_cancelled s = c \<Longrightarrow> s\<lparr>sn_reporting_cancelled := c\<rparr> = s" "su_notified t = b \<Longrightarrow> t\<lparr>su_notified := b\<rparr> = t"
  by (cases s; simp) (cases t; simp)

lemma Subscriptions_remove_spec:
  assumes "length (su_buffers s) = length (sn_subscriptions (su_state s))"
    and "length (sn_subscriptions (su_state s)) \<le> sn_subscriptions_count (su_state s)"
  obtains subs bs where
    "Subscriptions_remove f s = (Ok (remove_hits f (su_state s)),
       s\<lparr>su_state := (su_state s)\<lparr>sn_subscriptions := subs,
            sn_subscriptions_count := sn_subscriptions_count (su_state s) - (length (sn_subscriptions (su_state s)) - length subs),
            sn_reporting_cancelled := cancel_reason f (su_state s)\<rparr>,
          su_buffers := bs, su_notified := su_notified s \<or> remove_hits f (su_state s)\<rparr>)"
    and "mset subs = filter_mset (\<lambda>sub. f sub = None) (mset (sn_subscriptions (su_state s)))" and "length bs = length subs"
proof -
  let ?in = "su_state s"
  obtain subs bs where l: "remove_loop f False (?in, su_buffers s) = (Ok (\<exists>sub \<in> set (sn_subscriptions ?in). f sub \<noteq> None),
        ?in\<lparr>sn_subscriptions := subs, sn_subscriptions_count := sn_subscriptions_count ?in - (length (sn_subscriptions ?in) - length subs)\<rparr>, bs)"
      and m: "mset subs = filter_mset (\<lambda>sub. f sub = None) (mset (sn_subscriptions ?in))" and len: "length bs = length subs"
    using remove_loop_spec [OF assms, of f False] by (auto simp del: not_None_eq)
  show ?thesis
  proof (rule that [OF _ m len])
    let ?in' = "?in\<lparr>sn_subscriptions := subs, sn_subscriptions_count := sn_subscriptions_count ?in - (length (sn_subscriptions ?in) - length subs)\<rparr>"
    let ?s' = "s\<lparr>su_state := ?in'\<lparr>sn_reporting_cancelled := cancel_reason f ?in\<rparr>, su_buffers := bs\<rparr>"
    have "Subscriptions_with (sr_bind (remove_loop f False) (\<lambda>removed (s, buffers).
          case (sn_reporting_cancelled s, sn_reporting s) of
            (None, Some sub) \<Rightarrow>
              (case f sub of
                 Some reason \<Rightarrow> (Ok True, s\<lparr>sn_reporting_cancelled := Some reason\<rparr>, buffers)
               | None \<Rightarrow> (Ok removed, s, buffers))
          | _ \<Rightarrow> (Ok removed, s, buffers))) s = (Ok (remove_hits f ?in), ?s')"
      using l by (auto simp: Subscriptions_with_def sr_bind_def remove_hits_def cancel_reason_def update_same
          split: option.splits)
    moreover have "?s'\<lparr>su_notified := su_notified s\<rparr> = ?s'" by (rule update_same) simp
    ultimately show "Subscriptions_remove f s = (Ok (remove_hits f ?in), ?s'\<lparr>su_notified := su_notified s \<or> remove_hits f ?in\<rparr>)"
      by (cases "remove_hits f ?in") (simp_all add: Subscriptions_remove_def sr_bind_def sr_when_def sr_return_def
          Subscriptions_notify_def sr_modify_def)
  qed
qed

end
