(* ===== verification/Subscription_Safety.thy ===== *)
theory Subscription_Safety
  imports Subscriptions
begin

section \<open>Subscriptions: what every run keeps\<close>

text \<open>
  Properties of the subscription table under arbitrary interleavings of changes, subscribe
  requests, priming reports, incremental reports, removals and purges (\<open>sys_reach\<close>): the structure
  of the table with the absence of panics, and the promise of a subscription that every change
  is reported. The second one needs that the table of changes is not purged while a priming report is under way,
  and the last section shows what goes wrong otherwise.
\<close>

subsection \<open>The structural invariant\<close>

definition contexts :: "'b System \<Rightarrow> 'b ReportContext list" where
  "contexts st = sy_priming st @ (case sy_report st of None \<Rightarrow> [] | Some c \<Rightarrow> [c])"

abbreviation inner :: "'b System \<Rightarrow> SubscriptionsInner" where
  "inner st \<equiv> su_state (sy_subs st)"

text \<open>The identifiers of the live subscriptions, in the table or in the hands of a report.\<close>

definition live_ids :: "'b System \<Rightarrow> u32 multiset" where
  "live_ids st = image_mset (\<lambda>sub. si_id (sb_ids sub)) (mset (sn_subscriptions (inner st)) +
     image_mset (\<lambda>c. the (rc_subscription c)) (mset (contexts st)))"

definition sys_inv :: "nat \<Rightarrow> 'b System \<Rightarrow> bool" where
  "sys_inv N st \<longleftrightarrow>
     sn_subscriptions_count (inner st) = length (sn_subscriptions (inner st)) + length (contexts st) \<and>
     sn_subscriptions_count (inner st) \<le> N \<and>
     length (su_buffers (sy_subs st)) = length (sn_subscriptions (inner st)) \<and>
     (\<forall>sub. sn_reporting (inner st) = Some sub \<longrightarrow> (\<exists>rctx. sy_report st = Some rctx \<and> rc_subscription rctx = Some sub)) \<and>
     (sn_reporting_cancelled (inner st) \<noteq> None \<longrightarrow> sn_reporting (inner st) \<noteq> None) \<and>
     (\<forall>c \<in> set (contexts st). rc_subscription c \<noteq> None \<and> rc_subscription_buffer c \<noteq> None) \<and>
     (\<forall>n. count (live_ids st) n \<le> 1) \<and>
     (\<forall>n \<in># live_ids st. n < sn_next_subscription_id (inner st)) \<and>
     ChangedAttrs_inv (sn_changed_attrs (inner st))"

lemma contexts_subs [simp]: "contexts (st\<lparr>sy_subs := s\<rparr>) = contexts st" "contexts (st\<lparr>sy_history := h\<rparr>) = contexts st"
  by (simp_all add: contexts_def)

lemma sys_inv_history [simp]: "sys_inv N (st\<lparr>sy_history := h\<rparr>) = sys_inv N st"
  by (simp add: sys_inv_def live_ids_def)

lemma sys_inv_init: "sys_inv N System_new"
  by (simp add: sys_inv_def System_new_def Subscriptions_new_def SubscriptionsInner_new_def contexts_def
      live_ids_def new_inv)

lemma remove_nth_mset:
  "i < length xs \<Longrightarrow> mset (take i xs @ drop (Suc i) xs) = mset xs - {#xs ! i#}"
  by (metis add_mset_remove_trivial id_take_nth_drop mset.simps(2) mset_append union_mset_add_mset_right)

text \<open>Completing a report, in the way it is common to priming reports and incremental ones.\<close>

lemma complete_cases:
  assumes "rc_subscription rctx = Some sub" "rc_subscription_buffer rctx = Some buf"
    and "length (su_buffers s) = length (sn_subscriptions (su_state s))"
    and "length (sn_subscriptions (su_state s)) < sn_subscriptions_count (su_state s)"
    and "sn_subscriptions_count (su_state s) \<le> N"
  obtains "Subscriptions_report_complete N rctx s =
      (Ok (), s\<lparr>su_state := (su_state s)\<lparr>sn_reporting := None, sn_reporting_cancelled := None,
                  sn_subscriptions := sn_subscriptions (su_state s) @ [reported_sub rctx]\<rparr>,
              su_buffers := su_buffers s @ [buf]\<rparr>)"
  | "Subscriptions_report_complete N rctx s =
      (Ok (), s\<lparr>su_state := (su_state s)\<lparr>sn_reporting := None, sn_reporting_cancelled := None,
                  sn_subscriptions_count := sn_subscriptions_count (su_state s) - 1\<rparr>\<rparr>)"
proof (cases "sn_reporting_cancelled (su_state s) = None \<and> rc_keep rctx")
  case True
  with assms show ?thesis by (intro that(1) Subscriptions_complete_kept) auto
next
  case False
  with assms show ?thesis by (intro that(2) Subscriptions_complete_dropped) auto
qed

lemma reported_sub_id [simp]:
  "sb_ids (reported_sub rctx) = sb_ids (the (rc_subscription rctx))"
  "sb_max_seen_attr_change_id (reported_sub rctx) = rc_next_max_seen_attr_change_id rctx"
  "reported_sub (with_keep keep rctx) = reported_sub rctx"
  "rc_subscription (with_keep keep rctx) = rc_subscription rctx"
  "rc_subscription_buffer (with_keep keep rctx) = rc_subscription_buffer rctx"
  by (simp_all add: reported_sub_def with_keep_def ReportContext_set_keep_def)

text \<open>
  One context less: the state after its report is complete. \<open>st0\<close> is the system with the context
  taken off the list, before the table is updated.
\<close>

lemma complete_inv:
  assumes inv: "sys_inv N st" and c: "rctx \<in># mset (contexts st)"
    and c0: "mset (contexts st0) = mset (contexts st) - {#rctx#}" and s0: "sy_subs st0 = sy_subs st"
  obtains s where "Subscriptions_report_complete N (with_keep keep rctx) (sy_subs st) = (Ok (), s)"
    and "sys_inv N (st0\<lparr>sy_subs := s\<rparr>)"
    and "mset (sn_subscriptions (su_state s)) \<subseteq># add_mset (reported_sub rctx) (mset (sn_subscriptions (inner st)))"
    and "sn_changed_attrs (su_state s) = sn_changed_attrs (inner st)"
proof -
  let ?s = "sy_subs st"
  obtain sub buf where rctx: "rc_subscription rctx = Some sub" "rc_subscription_buffer rctx = Some buf"
    using inv c by (auto simp: sys_inv_def)
  have cs: "mset (contexts st) = add_mset rctx (mset (contexts st0))" using c c0 by simp
  then have len: "length (contexts st) = Suc (length (contexts st0))" by (metis size_mset size_add_mset)
  have sub: "set (contexts st0) \<subseteq> set (contexts st)" by (metis cs set_mset_add_mset_insert set_mset_mset subset_insertI)
  have pre: "length (su_buffers ?s) = length (sn_subscriptions (su_state ?s))"
    "length (sn_subscriptions (su_state ?s)) < sn_subscriptions_count (su_state ?s)"
    "sn_subscriptions_count (su_state ?s) \<le> N"
    using inv len by (simp_all add: sys_inv_def)
  let ?kept = "?s\<lparr>su_state := (su_state ?s)\<lparr>sn_reporting := None, sn_reporting_cancelled := None,
                  sn_subscriptions := sn_subscriptions (su_state ?s) @ [reported_sub rctx]\<rparr>,
              su_buffers := su_buffers ?s @ [buf]\<rparr>"
  let ?dropped = "?s\<lparr>su_state := (su_state ?s)\<lparr>sn_reporting := None, sn_reporting_cancelled := None,
                  sn_subscriptions_count := sn_subscriptions_count (su_state ?s) - 1\<rparr>\<rparr>"
  have live1: "live_ids (st0\<lparr>sy_subs := ?kept\<rparr>) = live_ids st" by (simp add: live_ids_def rctx cs)
  have live2: "live_ids st = add_mset (si_id (sb_ids sub)) (live_ids (st0\<lparr>sy_subs := ?dropped\<rparr>))"
    by (simp add: live_ids_def rctx cs s0)
  have cnt: "count (live_ids (st0\<lparr>sy_subs := ?dropped\<rparr>)) n \<le> 1" for n
    using inv live2 by (metis (no_types, lifting) count_add_mset le_SucI le_trans lessI less_imp_le sys_inv_def)
  show ?thesis
  proof (rule complete_cases [of "with_keep keep rctx" sub buf ?s N])
    assume "Subscriptions_report_complete N (with_keep keep rctx) ?s = (Ok (), ?s\<lparr>su_state := (su_state ?s)\<lparr>
        sn_reporting := None, sn_reporting_cancelled := None,
        sn_subscriptions := sn_subscriptions (su_state ?s) @ [reported_sub (with_keep keep rctx)]\<rparr>,
        su_buffers := su_buffers ?s @ [buf]\<rparr>)"
    then have r: "Subscriptions_report_complete N (with_keep keep rctx) ?s = (Ok (), ?kept)" by simp
    have "sys_inv N (st0\<lparr>sy_subs := ?kept\<rparr>)"
      unfolding sys_inv_def live1 using inv len sub by (auto simp: sys_inv_def)
    then show ?thesis by (rule that [OF r]) simp_all
  next
    assume r: "Subscriptions_report_complete N (with_keep keep rctx) ?s = (Ok (), ?dropped)"
    have "sys_inv N (st0\<lparr>sy_subs := ?dropped\<rparr>)"
      unfolding sys_inv_def using inv len sub cnt live2 by (auto simp: sys_inv_def)
    then show ?thesis by (rule that [OF r]) simp_all
  qed (simp_all add: rctx pre)
qed

subsection \<open>Every change is still to be found\<close>

definition log_inv :: "'b System \<Rightarrow> bool" where
  "log_inv st \<longleftrightarrow> (\<exists>lo.
     complete_from change_affects contains_path lo (set (sy_history st)) (sn_changed_attrs (inner st)) \<and>
     (\<forall>sub \<in> set (sn_subscriptions (inner st)). lo \<le> sb_max_seen_attr_change_id sub \<and>
        sb_max_seen_attr_change_id sub \<le> ChangedAttrs_watermark (sn_changed_attrs (inner st))) \<and>
     (\<forall>c \<in> set (contexts st). lo \<le> sb_max_seen_attr_change_id (the (rc_subscription c)) \<and>
        lo \<le> rc_next_max_seen_attr_change_id c \<and>
        rc_next_max_seen_attr_change_id c \<le> ChangedAttrs_watermark (sn_changed_attrs (inner st))) \<and>
     lo \<le> ChangedAttrs_watermark (sn_changed_attrs (inner st))) \<and>
   (\<forall>(n, c) \<in> set (sy_history st). n \<le> ChangedAttrs_watermark (sn_changed_attrs (inner st)))"

lemma log_inv_init: "log_inv System_new"
  by (auto simp: log_inv_def System_new_def Subscriptions_new_def SubscriptionsInner_new_def contexts_def
      complete_from_def)

lemma watermark_le_suc:
  "unat (w :: u64) + 2 < 2 ^ 64 \<Longrightarrow> n \<le> w \<Longrightarrow> n \<le> w + 1"
  by (simp add: word_le_nat_alt unat_word_ariths)

lemma change_step:
  assumes inv: "sys_inv N st" and ok: "sys_allowed q (Change c) st"
  shows "\<exists>st'. sys_step N hz (Change c) st = Ok st' \<and> sys_inv N st' \<and> (log_inv st \<longrightarrow> log_inv st')"
proof -
  let ?ca = "sn_changed_attrs (inner st)" and ?w = "ChangedAttrs_watermark (sn_changed_attrs (inner st))"
  have ca: "ChangedAttrs_inv ?ca" and w: "unat ?w + 2 < 2 ^ 64" using inv ok by (simp_all add: sys_inv_def)
  let ?s = "(sy_subs st)\<lparr>su_state := (inner st)\<lparr>sn_changed_attrs := record_state c ?ca\<rparr>, su_notified := True\<rparr>"
  let ?st = "st\<lparr>sy_subs := ?s, sy_history := (cas_next_change_id ?ca, c) # sy_history st\<rparr>"
  have r: "sys_step N hz (Change c) st = Ok ?st"
    using record_raw_returns [OF ca w, of c]
    by (simp add: run_on_def record_and_notify_def Subscriptions_notify_def sr_bind_def sr_modify_def)
  have n: "cas_next_change_id ?ca = ?w + 1" by (simp add: ChangedAttrs_watermark_def)
  have w': "ChangedAttrs_watermark (record_state c ?ca) = ?w + 1" by (rule watermark_record(1) [OF ca w])
  have "sys_inv N ?st" using inv watermark_record(2) [OF ca w] by (simp add: sys_inv_def live_ids_def)
  moreover have "log_inv ?st" if log: "log_inv st"
  proof -
    from log obtain lo where lo: "complete_from change_affects contains_path lo (set (sy_history st)) ?ca"
        "\<forall>sub \<in> set (sn_subscriptions (inner st)). lo \<le> sb_max_seen_attr_change_id sub \<and>
          sb_max_seen_attr_change_id sub \<le> ?w"
        "\<forall>c \<in> set (contexts st). lo \<le> sb_max_seen_attr_change_id (the (rc_subscription c)) \<and>
          lo \<le> rc_next_max_seen_attr_change_id c \<and> rc_next_max_seen_attr_change_id c \<le> ?w" "lo \<le> ?w"
        "\<forall>(n, c) \<in> set (sy_history st). n \<le> ?w"
      by (auto simp: log_inv_def)
    then show ?thesis using changed.complete_note [OF ca w lo(1), of c] watermark_le_suc [OF w]
      unfolding log_inv_def by (auto simp: w' n intro!: exI [of _ lo])
  qed
  ultimately show ?thesis using r by blast
qed

lemma subscribe_step:
  assumes inv: "sys_inv N st" and ok: "sys_allowed q (Subscribe now fab peer sess mi ma ev buf) st"
  shows "\<exists>st'. sys_step N hz (Subscribe now fab peer sess mi ma ev buf) st = Ok st' \<and> sys_inv N st' \<and>
    (log_inv st \<longrightarrow> log_inv st')"
proof (cases "N \<le> sn_subscriptions_count (inner st)")
  case True
  with inv show ?thesis by (simp add: run_on_def Subscriptions_add_full)
next
  case False
  let ?sub = "fresh_subscription (sy_subs st) fab peer sess mi ma"
  let ?w = "ChangedAttrs_watermark (sn_changed_attrs (inner st))" and ?n = "sn_next_subscription_id (inner st)"
  let ?c = "ReportContext_of ?sub buf ?w ev now"
  let ?s = "(sy_subs st)\<lparr>su_state := (inner st)\<lparr>sn_subscriptions_count := sn_subscriptions_count (inner st) + 1,
            sn_next_subscription_id := ?n + 1\<rparr>\<rparr>"
  let ?st = "st\<lparr>sy_subs := ?s, sy_priming := sy_priming st @ [?c]\<rparr>"
  have r: "sys_step N hz (Subscribe now fab peer sess mi ma ev buf) st = Ok ?st"
    using False ok by (simp add: run_on_def Subscriptions_add_room)
  have cs: "mset (contexts ?st) = add_mset ?c (mset (contexts st))" by (simp add: contexts_def)
  then have set: "set (contexts ?st) = insert ?c (set (contexts st))" by (metis set_mset_add_mset_insert set_mset_mset)
  have len: "length (contexts ?st) = Suc (length (contexts st))" using cs by (metis size_mset size_add_mset)
  have live: "live_ids ?st = add_mset ?n (live_ids st)"
    unfolding live_ids_def cs by (simp add: ReportContext_of_def fresh_subscription_def)
  have fresh: "?n \<notin># live_ids st" using inv by (auto simp: sys_inv_def)
  have lt: "n < ?n + 1" if "n \<le> ?n" for n
  proof -
    have "unat ?n \<noteq> 2 ^ 32 - 1"
    proof
      assume "unat ?n = 2 ^ 32 - 1"
      then have "?n = word_of_nat (2 ^ 32 - 1)" by (metis of_nat_unat ucast_id)
      with ok show False by simp
    qed
    moreover have "unat ?n < 2 ^ 32" using unsigned_less [of ?n, where 'a = nat] by simp
    ultimately have "unat (?n + 1) = unat ?n + 1" by (simp add: unat_word_ariths)
    with that show ?thesis by (simp add: word_less_nat_alt word_le_nat_alt)
  qed
  have "sys_inv N ?st"
    unfolding sys_inv_def live set len
    using inv False fresh lt by (auto simp: sys_inv_def ReportContext_of_def count_eq_zero_iff less_imp_le)
  moreover have "log_inv ?st" if "log_inv st"
    using that unfolding log_inv_def set by (auto simp: ReportContext_of_def fresh_subscription_def)
  ultimately show ?thesis using r by blast
qed

lemma log_inv_complete:
  assumes "log_inv st" and "rctx \<in> set (contexts st)" and "set (contexts st0) \<subseteq> set (contexts st)"
    and "sn_changed_attrs (su_state s) = sn_changed_attrs (inner st)" and "sy_history st0 = sy_history st"
    and "mset (sn_subscriptions (su_state s)) \<subseteq># add_mset (reported_sub rctx) (mset (sn_subscriptions (inner st)))"
  shows "log_inv (st0\<lparr>sy_subs := s\<rparr>)"
proof -
  have "set (sn_subscriptions (su_state s)) \<subseteq> insert (reported_sub rctx) (set (sn_subscriptions (inner st)))"
    using set_mset_mono [OF assms(6)] by simp
  with assms(1-5) show ?thesis unfolding log_inv_def by (auto 4 4)
qed

lemma finish_step:
  assumes inv: "sys_inv N st" and c: "rctx \<in># mset (contexts st)"
    and c0: "mset (contexts st0) = mset (contexts st) - {#rctx#}" and s0: "sy_subs st0 = sy_subs st"
    and h: "sy_history st0 = sy_history st"
    and r: "\<And>s. Subscriptions_report_complete N (with_keep keep rctx) (sy_subs st) = (Ok (), s) \<Longrightarrow>
      sys_step N hz a st = Ok (st0\<lparr>sy_subs := s\<rparr>)"
  shows "\<exists>st'. sys_step N hz a st = Ok st' \<and> sys_inv N st' \<and> (log_inv st \<longrightarrow> log_inv st')"
proof (rule complete_inv [OF inv c c0 s0, of keep])
  fix s assume s: "Subscriptions_report_complete N (with_keep keep rctx) (sy_subs st) = (Ok (), s)"
    "sys_inv N (st0\<lparr>sy_subs := s\<rparr>)"
    "mset (sn_subscriptions (su_state s)) \<subseteq># add_mset (reported_sub rctx) (mset (sn_subscriptions (inner st)))"
    "sn_changed_attrs (su_state s) = sn_changed_attrs (inner st)"
  have "set (contexts st0) \<subseteq> set (contexts st)" using c0 by (metis diff_subset_eq_self set_mset_mono set_mset_mset)
  with s h log_inv_complete [of st rctx st0 s] c have "log_inv st \<longrightarrow> log_inv (st0\<lparr>sy_subs := s\<rparr>)" by simp
  with r s show ?thesis by blast
qed

lemma finish_priming_step:
  assumes "sys_inv N st"
  shows "\<exists>st'. sys_step N hz (FinishPriming i keep) st = Ok st' \<and> sys_inv N st' \<and> (log_inv st \<longrightarrow> log_inv st')"
proof (cases "i < length (sy_priming st)")
  case True
  show ?thesis
    by (rule finish_step [OF assms, of "sy_priming st ! i"
          "st\<lparr>sy_priming := take i (sy_priming st) @ drop (Suc i) (sy_priming st)\<rparr>" keep])
      (use True remove_nth_mset [OF True] in \<open>auto simp: contexts_def run_on_def split: option.splits\<close>)
qed (use assms in simp)

lemma finish_report_step:
  assumes "sys_inv N st"
  shows "\<exists>st'. sys_step N hz (FinishReport keep) st = Ok st' \<and> sys_inv N st' \<and> (log_inv st \<longrightarrow> log_inv st')"
proof (cases "sy_report st")
  case (Some rctx)
  show ?thesis
    by (rule finish_step [OF assms, of rctx "st\<lparr>sy_report := None\<rparr>" keep])
      (use Some in \<open>auto simp: contexts_def run_on_def\<close>)
qed (use assms in simp)

lemma begin_report_step:
  assumes inv: "sys_inv N st"
  shows "\<exists>st'. sys_step N hz (BeginReport now ev) st = Ok st' \<and> sys_inv N st' \<and> (log_inv st \<longrightarrow> log_inv st')"
proof (cases "sy_report st")
  case None
  let ?s = "sy_subs st" and ?subs = "sn_subscriptions (inner st)"
  have pre: "length (su_buffers ?s) = length ?subs" "sn_reporting (inner st) = None"
    "sn_reporting_cancelled (inner st) = None"
    using inv None by (auto simp: sys_inv_def)
  show ?thesis
  proof (rule Subscriptions_report_cases [OF pre, of hz now ev])
    assume "Subscriptions_report hz now ev ?s = (Ok None, ?s)"
    then have "sys_step N hz (BeginReport now ev) st = Ok st" using None by (cases st) (simp add: run_on_def)
    with inv show ?thesis by blast
  next
    fix i
    let ?c = "ReportContext_of (?subs ! i) (su_buffers ?s ! i) (ChangedAttrs_watermark (sn_changed_attrs (inner st))) ev now"
    let ?s' = "?s\<lparr>su_state := (inner st)\<lparr>sn_subscriptions := swap_remove i ?subs, sn_reporting := Some (?subs ! i)\<rparr>,
      su_buffers := swap_remove i (su_buffers ?s)\<rparr>"
    let ?st = "st\<lparr>sy_subs := ?s', sy_report := Some ?c\<rparr>"
    assume i: "i < length ?subs" and r: "Subscriptions_report hz now ev ?s = (Ok (Some ?c), ?s')"
    have cs: "contexts ?st = contexts st @ [?c]" using None by (simp add: contexts_def)
    have m: "mset (swap_remove i ?subs) = mset ?subs - {#?subs ! i#}" using i by (rule mset_swap_remove)
    then have sub: "set (swap_remove i ?subs) \<subseteq> set ?subs" by (metis diff_subset_eq_self set_mset_mono set_mset_mset)
    have add: "mset ?subs = add_mset (?subs ! i) (mset (swap_remove i ?subs))" using i m by simp
    have live: "live_ids ?st = live_ids st"
      unfolding live_ids_def cs using arg_cong [OF add, of "image_mset (\<lambda>sub. si_id (sb_ids sub))"]
      by (simp add: ReportContext_of_def)
    have "sys_inv N ?st"
      unfolding sys_inv_def live cs using inv i by (auto simp: sys_inv_def ReportContext_of_def)
    moreover have "log_inv ?st" if "log_inv st"
      using that sub nth_mem [OF i] unfolding log_inv_def cs by (auto 4 4 simp: ReportContext_of_def)
    ultimately show ?thesis using None r by (simp add: run_on_def)
  qed
qed (use inv in simp)

lemma remove_step:
  assumes inv: "sys_inv N st"
  shows "\<exists>st'. sys_step N hz (Remove f) st = Ok st' \<and> sys_inv N st' \<and> (log_inv st \<longrightarrow> log_inv st')"
proof -
  let ?s = "sy_subs st" and ?subs = "sn_subscriptions (inner st)"
  have pre: "length (su_buffers ?s) = length ?subs" "length ?subs \<le> sn_subscriptions_count (inner st)"
    using inv by (simp_all add: sys_inv_def)
  obtain subs bs where r: "Subscriptions_remove f ?s = (Ok (remove_hits f (inner st)),
       ?s\<lparr>su_state := (inner st)\<lparr>sn_subscriptions := subs,
            sn_subscriptions_count := sn_subscriptions_count (inner st) - (length ?subs - length subs),
            sn_reporting_cancelled := cancel_reason f (inner st)\<rparr>,
          su_buffers := bs, su_notified := su_notified ?s \<or> remove_hits f (inner st)\<rparr>)" (is "_ = (_, ?t)")
      and m: "mset subs = filter_mset (\<lambda>sub. f sub = None) (mset ?subs)" and len: "length bs = length subs"
    by (rule Subscriptions_remove_spec [OF pre])
  have le: "length subs \<le> length ?subs" by (metis m size_filter_mset_lesseq size_mset)
  have sub: "set subs \<subseteq> set ?subs" using m by (metis filter_is_subset mset_filter set_mset_mset)
  have live: "live_ids (st\<lparr>sy_subs := ?t\<rparr>) \<subseteq># live_ids st"
    unfolding live_ids_def by (intro image_mset_subseteq_mono) (simp add: m)
  then have "count (live_ids (st\<lparr>sy_subs := ?t\<rparr>)) n \<le> 1" for n
    using inv by (auto simp: sys_inv_def intro: le_trans mset_subset_eq_count)
  moreover have "\<forall>n \<in># live_ids (st\<lparr>sy_subs := ?t\<rparr>). n < sn_next_subscription_id (inner st)"
    using inv live by (auto simp: sys_inv_def dest: mset_subset_eqD)
  moreover have "cancel_reason f (inner st) \<noteq> None \<longrightarrow> sn_reporting (inner st) \<noteq> None"
    using inv by (auto simp: sys_inv_def cancel_reason_def split: option.splits)
  ultimately have "sys_inv N (st\<lparr>sy_subs := ?t\<rparr>)" using inv len le by (simp add: sys_inv_def)
  moreover have "log_inv (st\<lparr>sy_subs := ?t\<rparr>)" if "log_inv st" using that sub unfolding log_inv_def by auto
  ultimately show ?thesis using r by (simp add: run_on_def)
qed

lemma min_seen_le: "min_seen subs = Some t \<Longrightarrow> sub \<in> set subs \<Longrightarrow> t \<le> sb_max_seen_attr_change_id sub"
  by (auto simp: min_seen_def split: if_splits)

lemma purge_step:
  assumes inv: "sys_inv N st"
  shows "\<exists>st'. sys_step N hz Purge st = Ok st' \<and> sys_inv N st' \<and> (log_inv st \<longrightarrow> sy_priming st = [] \<longrightarrow> log_inv st')"
proof (cases "sy_report st")
  case None
  let ?ca = "sn_changed_attrs (inner st)" and ?subs = "sn_subscriptions (inner st)"
  let ?s = "Subscriptions_purge_reported_changes (sy_subs st)"
  have "ChangedAttrs_inv (sn_changed_attrs (su_state ?s))"
    using inv changed.purge_inv [of ?ca] by (auto simp: sys_inv_def Subscriptions_purge_reported_changes_def
        SubscriptionsInner_purge_reported_changes_def ChangedAttrs_clear_def ChangedAttrs_inv_def
        ChangedAttrs_watermark_def table_ok_def split: option.splits)
  then have "sys_inv N (st\<lparr>sy_subs := ?s\<rparr>)"
    using inv by (simp add: sys_inv_def live_ids_def Subscriptions_purge_reported_changes_def
        SubscriptionsInner_purge_reported_changes_def)
  moreover have "log_inv (st\<lparr>sy_subs := ?s\<rparr>)" if log: "log_inv st" and "sy_priming st = []"
  proof -
    have cs: "contexts st = []" using that None by (simp add: contexts_def)
    from log obtain lo where lo: "complete_from change_affects contains_path lo (set (sy_history st)) ?ca"
        "\<forall>sub \<in> set ?subs. lo \<le> sb_max_seen_attr_change_id sub \<and> sb_max_seen_attr_change_id sub \<le> ChangedAttrs_watermark ?ca" "lo \<le> ChangedAttrs_watermark ?ca"
        and h: "\<forall>(n, c) \<in> set (sy_history st). n \<le> ChangedAttrs_watermark ?ca"
      by (auto simp: log_inv_def)
    show ?thesis
    proof (cases "min_seen ?subs")
      case None
      have "complete_from change_affects contains_path (ChangedAttrs_watermark ?ca) (set (sy_history st)) (ChangedAttrs_clear ?ca)"
        by (rule complete_fromI) (use h in fastforce)
      moreover have "ChangedAttrs_watermark (ChangedAttrs_clear ?ca) = ChangedAttrs_watermark ?ca" "?subs = []"
        using None by (simp_all add: ChangedAttrs_clear_def ChangedAttrs_watermark_def min_seen_def split: if_splits)
      ultimately show ?thesis using h None cs unfolding log_inv_def
        by (auto simp: Subscriptions_purge_reported_changes_def SubscriptionsInner_purge_reported_changes_def)
    next
      case (Some t)
      then have "t \<in> sb_max_seen_attr_change_id ` set ?subs"
        using Min_in [of "set (map sb_max_seen_attr_change_id ?subs)"] by (auto simp: min_seen_def split: if_splits)
      then obtain sub where sub: "sub \<in> set ?subs" "t = sb_max_seen_attr_change_id sub" by blast
      then have "complete_from change_affects contains_path t (set (sy_history st)) (ChangedAttrs_purge_up_to t ?ca)"
        using lo by (intro changed.complete_purge [OF lo(1)]) auto
      then show ?thesis using h cs lo sub min_seen_le [OF Some] Some unfolding log_inv_def
        by (auto simp: Subscriptions_purge_reported_changes_def SubscriptionsInner_purge_reported_changes_def
            changed.purge_watermark intro!: exI [of _ t])
    qed
  qed
  ultimately show ?thesis using None by simp
qed (use inv in auto)

lemma sys_step_ok:
  assumes "sys_inv N st" and "sys_allowed quiet a st"
  shows "\<exists>st'. sys_step N hz a st = Ok st' \<and> sys_inv N st' \<and> (quiet \<longrightarrow> log_inv st \<longrightarrow> log_inv st')"
proof (cases a)
  case (Change c)
  with assms change_step [of N st quiet c hz] show ?thesis by blast
next
  case (Subscribe now fab peer sess mi ma ev buf)
  with assms subscribe_step [of N st quiet now fab peer sess mi ma ev buf hz] show ?thesis by blast
next
  case (FinishPriming i keep)
  with finish_priming_step [OF assms(1)] show ?thesis by blast
next
  case (BeginReport now ev)
  with begin_report_step [OF assms(1)] show ?thesis by blast
next
  case (FinishReport keep)
  with finish_report_step [OF assms(1)] show ?thesis by blast
next
  case (Remove f)
  with remove_step [OF assms(1)] show ?thesis by blast
next
  case Purge
  with purge_step [OF assms(1)] assms(2) show ?thesis by (metis sys_allowed.simps(3))
qed

lemma sys_reach_inv: "sys_reach quiet N hz st \<Longrightarrow> sys_inv N st \<and> (quiet \<longrightarrow> log_inv st)"
proof (induction rule: sys_reach.induct)
  case init
  then show ?case by (simp add: sys_inv_init log_inv_init)
next
  case (step st a st')
  with sys_step_ok [of N st quiet a hz] show ?case by auto
qed

subsection \<open>Concrete runs\<close>

text \<open>A run of a given list of actions, to reach concrete states.\<close>

fun sys_run :: "bool \<Rightarrow> nat \<Rightarrow> nat \<Rightarrow> 'b action list \<Rightarrow> 'b System \<Rightarrow> 'b System option" where
  "sys_run quiet N hz [] st = Some st"
| "sys_run quiet N hz (a # as) st =
     (if sys_allowed quiet a st then
        (case sys_step N hz a st of Ok st' \<Rightarrow> sys_run quiet N hz as st' | _ \<Rightarrow> None)
      else None)"

lemma sys_run_reach:
  "sys_run quiet N hz as st = Some st' \<Longrightarrow> sys_reach quiet N hz st \<Longrightarrow> sys_reach quiet N hz st'"
  by (induction quiet N hz as st rule: sys_run.induct)
    (auto split: if_splits res.splits intro: sys_reach.step)

lemmas run_defs = run_on_def System_new_def Subscriptions_new_def SubscriptionsInner_new_def
  Subscriptions_add_def with_watermark_def Subscriptions_with_def SubscriptionsInner_add_def
  Subscriptions_report_complete_def SubscriptionsInner_report_complete_def count_dec_def
  Subscriptions_report_def SubscriptionsInner_report_def SubscriptionsInner_find_reportable_def
  Subscription_is_reportable_def Subscription_is_report_allowed_def Subscription_is_report_due_def
  Subscription_is_affected_by_attr_changes_def Subscription_is_affected_by_new_events_def
  Instant_checked_add_def from_secs_def Subscriptions_remove_def remove_loop.simps Subscriptions_notify_def
  Subscriptions_purge_reported_changes_def SubscriptionsInner_purge_reported_changes_def min_seen_def
  ReportContext_of_def ReportContext_set_keep_def with_keep_def Instant_MAX_def
  record_and_notify_def ChangedAttrs_record_raw_def ChangedAttrs_watermark_def ChangedAttrs_clear_def
  ChangedAttrs_new_def ChangedAttrs_any_since_def ChangedAttrs_purge_up_to_def refresh_covering_def entries_push_def
  swap_drop_from.simps swap_remove_def sr_bind_def sr_return_def sr_get_def sr_modify_def sr_when_def Let_def

text \<open>Two subscribers of one fabric, a change, and a report on the first one under way.\<close>

definition sample_actions :: "nat action list" where
  "sample_actions =
     [Subscribe 10 1 7 1 0 60 0 100, FinishPriming 0 True, Subscribe 11 1 8 2 0 60 0 200, FinishPriming 0 True,
      Change (ChangedAttr_concrete 1 6 0 0), BeginReport 20 0]"

lemma sample_run:
  obtains st rctx where "sys_run True 2 1 sample_actions System_new = Some st" and "sy_report st = Some rctx"
    and "map_option (\<lambda>sub. si_peer_node_id (sb_ids sub)) (rc_subscription rctx) = Some 7"
    and "map_option sb_max_seen_attr_change_id (rc_subscription rctx) = Some 0"
    and "map (\<lambda>sub. si_peer_node_id (sb_ids sub)) (sn_subscriptions (inner st)) = [8]"
    and "sy_history st = [(1, ChangedAttr_concrete 1 6 0 0)]" and "sy_priming st = []"
    and "map_option (\<lambda>sub. (si_fab_idx (sb_ids sub), si_peer_node_id (sb_ids sub))) (sn_reporting (inner st)) = Some (1, 7)"
    and "sn_reporting_cancelled (inner st) = None"
  by (simp add: sample_actions_def run_defs MAX_CHANGED_ATTRS_def)

subsection \<open>The properties\<close>

text \<open>
  Claim C13: however changes, subscribe requests, priming reports, incremental reports, removals and
  purges interleave, the table of subscriptions stays sound. The count that guards the capacity is exactly the
  number of subscriptions in the table plus those in the hands of a report, and never above \<open>N\<close>; the vector of request
  buffers stays in step with the vector of subscriptions; no two live subscriptions share an
  identifier. And no step panics: no index into the buffers out of range, no \<^verbatim>\<open>unwrap\<close> of a
  full vector, no underflow of the count, no failed assertion.
\<close>

theorem subscription_table_sound:
  assumes "sys_reach quiet N hz st"
  shows "sn_subscriptions_count (inner st) =
      length (sn_subscriptions (inner st)) + length (sy_priming st) + (if sy_report st = None then 0 else 1) \<and>
    sn_subscriptions_count (inner st) \<le> N \<and>
    length (su_buffers (sy_subs st)) = length (sn_subscriptions (inner st)) \<and>
    distinct (map (\<lambda>sub. si_id (sb_ids sub)) (sn_subscriptions (inner st) @ map (the \<circ> rc_subscription) (contexts st))) \<and>
    (\<forall>a. sys_allowed quiet a st \<longrightarrow> (\<exists>st'. sys_step N hz a st = Ok st'))"
proof -
  have inv: "sys_inv N st" using sys_reach_inv [OF assms] by simp
  have "mset (map (\<lambda>sub. si_id (sb_ids sub)) (sn_subscriptions (inner st) @ map (the \<circ> rc_subscription) (contexts st))) = live_ids st"
    by (simp add: live_ids_def multiset.map_comp comp_def)
  moreover have "\<forall>n. count (live_ids st) n \<le> 1" using inv by (simp add: sys_inv_def)
  ultimately have "distinct (map (\<lambda>sub. si_id (sb_ids sub)) (sn_subscriptions (inner st) @ map (the \<circ> rc_subscription) (contexts st)))"
    unfolding distinct_count_atmost_1 set_mset_mset [symmetric]
    by (simp only:) (metis One_nat_def count_eq_zero_iff le_Suc_eq le_zero_eq)
  moreover have "sn_subscriptions_count (inner st) =
      length (sn_subscriptions (inner st)) + length (sy_priming st) + (if sy_report st = None then 0 else 1)"
    using inv by (auto simp: sys_inv_def contexts_def split: option.splits)
  moreover have "sys_allowed quiet a st \<longrightarrow> (\<exists>st'. sys_step N hz a st = Ok st')" for a
    using sys_step_ok [OF inv, of quiet a hz] by blast
  ultimately show ?thesis using inv by (simp add: sys_inv_def)
qed

theorem subscription_table_sound_witness:
  "\<exists>st. sys_run True 2 1 sample_actions System_new = Some st \<and> sn_subscriptions_count (inner st) = 2 \<and>
     length (su_buffers (sy_subs st)) = 1 \<and> (\<exists>st'. sys_step 2 1 (FinishReport True) st = Ok st')"
proof -
  obtain st rctx where st: "sys_run True 2 1 sample_actions System_new = Some st" "sy_report st = Some rctx"
      "map (\<lambda>sub. si_peer_node_id (sb_ids sub)) (sn_subscriptions (inner st)) = [8]" "sy_priming st = []"
    by (rule sample_run)
  have one: "length (sn_subscriptions (inner st)) = 1" using arg_cong [OF st(3), of length] by simp
  note sound = subscription_table_sound [OF sys_run_reach [OF st(1) sys_reach.init]]
  have "\<exists>st'. sys_step 2 1 (FinishReport True) st = Ok st'" using sound sys_allowed.simps(6) by blast
  with sound one st show ?thesis by (intro exI [of _ st]) simp
qed

text \<open>
  Claim C5: no subscriber misses a change. As long as the reporter does not purge the table of
  changes while a priming report is under way, in every reachable state of any interleaving: a change that was
  recorded after what a subscription in the table has seen makes the subscription due for a report as soon
  as its minimum interval is over, and the table still answers for every attribute the change stands for; and
  a report under way includes every such attribute.
\<close>

theorem no_change_missed:
  assumes "sys_reach True N hz st" and "(n, c) \<in> set (sy_history st)" and "ChangedAttr_matches c e cl a"
  shows "(\<forall>sub \<in> set (sn_subscriptions (inner st)). sb_max_seen_attr_change_id sub < n \<longrightarrow>
      ChangedAttrs_contains_since e cl a (sb_max_seen_attr_change_id sub) (sn_changed_attrs (inner st)) \<and>
      (Subscription_is_report_allowed hz now sub \<longrightarrow>
       Subscription_is_reportable hz now (sn_changed_attrs (inner st)) ev sub)) \<and>
    (\<forall>rctx \<in> set (contexts st). \<forall>sub. rc_subscription rctx = Some sub \<and> sb_max_seen_attr_change_id sub < n \<longrightarrow>
      ReportContext_should_report_attr e cl a rctx (sy_subs st) = Ok True)"
proof -
  have "log_inv st" using sys_reach_inv [OF assms(1)] by simp
  then obtain lo where lo: "complete_from change_affects contains_path lo (set (sy_history st)) (sn_changed_attrs (inner st))"
      "\<forall>sub \<in> set (sn_subscriptions (inner st)). lo \<le> sb_max_seen_attr_change_id sub"
      "\<forall>c \<in> set (contexts st). lo \<le> sb_max_seen_attr_change_id (the (rc_subscription c))"
    by (auto simp: log_inv_def)
  have *: "contains_path (e, cl, a) since (sn_changed_attrs (inner st))" if "lo \<le> since" "since < n" for since
    using complete_fromD [OF lo(1) assms(2) _ that, of "(e, cl, a)"] assms(3) by (simp add: change_affects_def)
  then have "ChangedAttrs_contains_since e cl a since (sn_changed_attrs (inner st))"
    "ChangedAttrs_any_since since (sn_changed_attrs (inner st))" if "lo \<le> since" "since < n" for since
    using that by (fastforce simp: contains_path_def ChangedAttrs_contains_since_def ChangedAttrs_any_since_def list_ex_iff)+
  with lo(2,3) show ?thesis
    by (fastforce simp: Subscription_is_reportable_def Subscription_is_affected_by_attr_changes_def
        ReportContext_should_report_attr_def)
qed

theorem no_change_missed_witness:
  "\<exists>st rctx. sys_run True 2 1 sample_actions System_new = Some st \<and> sy_report st = Some rctx \<and>
     ReportContext_should_report_attr 1 6 0 rctx (sy_subs st) = Ok True"
proof -
  obtain st rctx where st: "sys_run True 2 1 sample_actions System_new = Some st" "sy_report st = Some rctx"
      "sy_history st = [(1, ChangedAttr_concrete 1 6 0 0)]" "map_option sb_max_seen_attr_change_id (rc_subscription rctx) = Some 0"
    by (rule sample_run)
  then have "(1, ChangedAttr_concrete 1 6 0 0) \<in> set (sy_history st)"
    "ChangedAttr_matches (ChangedAttr_concrete 1 6 0 0) 1 6 0" "rctx \<in> set (contexts st)"
    by (simp_all add: ChangedAttr_concrete_def changed_attr_defs contexts_def)
  with no_change_missed [OF sys_run_reach [OF st(1) sys_reach.init]] st show ?thesis by fastforce
qed

subsection \<open>When reports are sent\<close>

text \<open>
  The intervals of a subscription are respected. When the reporter picks a subscription,
  it was in the table, and either it was never reported on or its minimum interval has passed since the last
  report. When the reporter picks none, then every subscription in the table is either within its minimum
  interval, or in the first half of its maximum interval with no attribute changed and no event emitted since its last report.
  (Instants that would leave the range of the clock are excluded by the second assumption.)
\<close>

theorem report_respects_intervals:
  assumes "sys_reach quiet N hz st" and "sy_report st = None"
    and "\<forall>sub \<in> set (sn_subscriptions (inner st)).
      sb_reported_at sub + hz * unat (sb_min_int_secs sub) \<le> Instant_MAX \<and>
      sb_reported_at sub + hz * unat (sb_max_int_secs sub) \<le> Instant_MAX"
  shows "case Subscriptions_report hz now ev (sy_subs st) of
      (Ok (Some rctx), s) \<Rightarrow>
        (\<exists>sub \<in> set (sn_subscriptions (inner st)). rc_subscription rctx = Some sub \<and>
           sb_reported_at sub + hz * unat (sb_min_int_secs sub) \<le> now)
    | (Ok None, s) \<Rightarrow>
        (\<forall>sub \<in> set (sn_subscriptions (inner st)).
           now < sb_reported_at sub + hz * unat (sb_min_int_secs sub) \<or>
           now + hz * (unat (sb_max_int_secs sub) div 2) < sb_reported_at sub + hz * unat (sb_max_int_secs sub) \<and>
           \<not> ChangedAttrs_any_since (sb_max_seen_attr_change_id sub) (sn_changed_attrs (inner st)) \<and>
           ev \<le> sb_max_seen_event_number sub)
    | _ \<Rightarrow> False"
proof -
  have inv: "sys_inv N st" using sys_reach_inv [OF assms(1)] by simp
  then have pre: "length (su_buffers (sy_subs st)) = length (sn_subscriptions (inner st))"
      "sn_reporting (inner st) = None" "sn_reporting_cancelled (inner st) = None"
    using assms(2) by (auto simp: sys_inv_def)
  have due: "\<not> Subscription_is_reportable hz now (sn_changed_attrs (inner st)) ev sub \<longleftrightarrow>
      now < sb_reported_at sub + hz * unat (sb_min_int_secs sub) \<or>
      now + hz * (unat (sb_max_int_secs sub) div 2) < sb_reported_at sub + hz * unat (sb_max_int_secs sub) \<and>
      \<not> ChangedAttrs_any_since (sb_max_seen_attr_change_id sub) (sn_changed_attrs (inner st)) \<and>
      ev \<le> sb_max_seen_event_number sub" if "sub \<in> set (sn_subscriptions (inner st))" for sub
    using assms(3) that by (auto simp: Subscription_is_reportable_def Subscription_is_report_allowed_def
        Subscription_is_report_due_def Subscription_is_affected_by_attr_changes_def
        Subscription_is_affected_by_new_events_def Instant_checked_add_def from_secs_def unat_div)
  show ?thesis
  proof (rule Subscriptions_report_cases [OF pre, of hz now ev])
    assume "position (Subscription_is_reportable hz now (sn_changed_attrs (inner st)) ev) (sn_subscriptions (inner st)) = None"
      and "Subscriptions_report hz now ev (sy_subs st) = (Ok None, sy_subs st)"
    then show ?thesis using due by (simp add: position_None)
  next
    fix i
    let ?sub = "sn_subscriptions (inner st) ! i"
    assume i: "i < length (sn_subscriptions (inner st))" and
      p: "position (Subscription_is_reportable hz now (sn_changed_attrs (inner st)) ev) (sn_subscriptions (inner st)) = Some i"
      and "Subscriptions_report hz now ev (sy_subs st) = (Ok (Some (ReportContext_of ?sub (su_buffers (sy_subs st) ! i)
        (ChangedAttrs_watermark (sn_changed_attrs (inner st))) ev now)), (sy_subs st)\<lparr>su_state := (inner st)\<lparr>
          sn_subscriptions := swap_remove i (sn_subscriptions (inner st)), sn_reporting := Some ?sub\<rparr>,
          su_buffers := swap_remove i (su_buffers (sy_subs st))\<rparr>)"
    moreover have "Subscription_is_reportable hz now (sn_changed_attrs (inner st)) ev ?sub" using position_SomeD [OF p] by simp
    ultimately show ?thesis using nth_mem [OF i] due [OF nth_mem [OF i]] by (auto simp: ReportContext_of_def)
  qed
qed

text \<open>A completed report leaves its subscription with nothing to report at the same instant.\<close>

lemma reported_not_due:
  assumes "ChangedAttrs_inv ca" and "0 < hz" and "0 < sb_max_int_secs sub"
    and "now + hz * unat (sb_max_int_secs sub) \<le> Instant_MAX"
  shows "\<not> Subscription_is_reportable hz now ca ev
    (reported_sub (ReportContext_of sub buf (ChangedAttrs_watermark ca) ev now))"
proof -
  have "unat (sb_max_int_secs sub) div 2 < unat (sb_max_int_secs sub)"
    using assms(3) by (simp add: word_less_nat_alt)
  then have "hz * (unat (sb_max_int_secs sub) div 2) < hz * unat (sb_max_int_secs sub)"
    using assms(2) by simp
  moreover have "\<not> ChangedAttrs_any_since (ChangedAttrs_watermark ca) ca"
    using assms(1) by (auto simp: any_since_iff ChangedAttrs_inv_def table_ok_def)
  ultimately show ?thesis using assms(4)
    by (simp add: Subscription_is_reportable_def Subscription_is_report_due_def reported_sub_def ReportContext_of_def
        Subscription_is_affected_by_attr_changes_def Subscription_is_affected_by_new_events_def
        Instant_checked_add_def from_secs_def unat_div)
qed

definition round_ok :: "nat \<Rightarrow> nat \<Rightarrow> nat \<Rightarrow> 'b Subscriptions \<Rightarrow> bool" where
  "round_ok N hz now s \<longleftrightarrow>
     length (su_buffers s) = length (sn_subscriptions (su_state s)) \<and>
     length (sn_subscriptions (su_state s)) \<le> sn_subscriptions_count (su_state s) \<and>
     sn_subscriptions_count (su_state s) \<le> N \<and>
     sn_reporting (su_state s) = None \<and> sn_reporting_cancelled (su_state s) = None \<and>
     ChangedAttrs_inv (sn_changed_attrs (su_state s)) \<and>
     (\<forall>sub \<in> set (sn_subscriptions (su_state s)). 0 < sb_max_int_secs sub \<and>
        now + hz * unat (sb_max_int_secs sub) \<le> Instant_MAX)"

lemma report_loop_ends:
  assumes "0 < hz" and "round_ok N hz now s"
    and "fuel > length (filter (Subscription_is_reportable hz now (sn_changed_attrs (su_state s)) ev) (sn_subscriptions (su_state s)))"
  shows "\<exists>rs s'. report_loop fuel N hz now ev process s = Some (Ok rs, s') \<and>
    mset (map (the \<circ> rc_subscription) rs) =
      filter_mset (Subscription_is_reportable hz now (sn_changed_attrs (su_state s)) ev) (mset (sn_subscriptions (su_state s))) \<and>
    sn_changed_attrs (su_state s') = sn_changed_attrs (su_state s) \<and>
    \<not> list_ex (Subscription_is_reportable hz now (sn_changed_attrs (su_state s)) ev) (sn_subscriptions (su_state s'))"
  using assms(2,3)
proof (induction fuel arbitrary: s)
  case (Suc fuel)
  let ?ca = "sn_changed_attrs (su_state s)" and ?subs = "sn_subscriptions (su_state s)"
  let ?P = "Subscription_is_reportable hz now ?ca ev"
  have pre: "length (su_buffers s) = length ?subs" "sn_reporting (su_state s) = None"
    "sn_reporting_cancelled (su_state s) = None" using Suc.prems(1) by (simp_all add: round_ok_def)
  show ?case
  proof (rule Subscriptions_report_cases [OF pre, of hz now ev])
    assume "position ?P ?subs = None" and "Subscriptions_report hz now ev s = (Ok None, s)"
    then show ?thesis by (auto simp: position_None list_ex_iff filter_mset_eq_conv)
  next
    fix i
    let ?sub = "?subs ! i"
    let ?c = "ReportContext_of ?sub (su_buffers s ! i) (ChangedAttrs_watermark ?ca) ev now"
    let ?s1 = "s\<lparr>su_state := (su_state s)\<lparr>sn_subscriptions := swap_remove i ?subs, sn_reporting := Some ?sub\<rparr>,
           su_buffers := swap_remove i (su_buffers s)\<rparr>"
    assume p: "position ?P ?subs = Some i" and i: "i < length ?subs" and r: "Subscriptions_report hz now ev s = (Ok (Some ?c), ?s1)"
    have Pi: "?P ?sub" using position_SomeD [OF p] by simp
    have sub: "?sub \<in> set ?subs" using i by simp
    define c' where "c' = (if process ?c then ReportContext_set_keep ?c else ?c)"
    have c': "c' = with_keep (process ?c) ?c" by (simp add: c'_def with_keep_def)
    have m: "mset ?subs = add_mset ?sub (mset (swap_remove i ?subs))" using mset_swap_remove [OF i] i by simp
    have subset: "set (swap_remove i ?subs) \<subseteq> set ?subs" by (metis m set_mset_add_mset_insert set_mset_mset subset_insertI)
    have np: "\<not> ?P (reported_sub c')"
      unfolding c' reported_sub_id using Suc.prems(1) sub assms(1)
      by (intro reported_not_due) (auto simp: round_ok_def)
    have mi: "sb_max_int_secs (reported_sub c') = sb_max_int_secs ?sub"
      by (simp add: c' reported_sub_def with_keep_def ReportContext_set_keep_def ReportContext_of_def)
    obtain s2 extra where r2: "Subscriptions_report_complete N c' ?s1 = (Ok (), s2)" and ok: "round_ok N hz now s2"
        and ca: "sn_changed_attrs (su_state s2) = ?ca"
        and subs2: "sn_subscriptions (su_state s2) = swap_remove i ?subs @ extra" "\<forall>x \<in> set extra. \<not> ?P x"
    proof (rule complete_cases [of c' ?sub "su_buffers s ! i" ?s1 N])
      assume "Subscriptions_report_complete N c' ?s1 = (Ok (), ?s1\<lparr>su_state := (su_state ?s1)\<lparr>sn_reporting := None,
          sn_reporting_cancelled := None, sn_subscriptions := sn_subscriptions (su_state ?s1) @ [reported_sub c']\<rparr>,
          su_buffers := su_buffers ?s1 @ [su_buffers s ! i]\<rparr>)"
      then show ?thesis
        by (rule that [where extra = "[reported_sub c']"]) (use Suc.prems(1) np mi sub subset i in \<open>auto simp: round_ok_def\<close>)
    next
      assume "Subscriptions_report_complete N c' ?s1 = (Ok (), ?s1\<lparr>su_state := (su_state ?s1)\<lparr>sn_reporting := None,
          sn_reporting_cancelled := None, sn_subscriptions_count := sn_subscriptions_count (su_state ?s1) - 1\<rparr>\<rparr>)"
      then show ?thesis
        by (rule that [where extra = "[]"]) (use Suc.prems(1) subset i in \<open>auto simp: round_ok_def\<close>)
    qed (use Suc.prems(1) i in \<open>auto simp: round_ok_def c' ReportContext_of_def with_keep_def ReportContext_set_keep_def\<close>)
    have f2: "filter_mset ?P (mset (sn_subscriptions (su_state s2))) = filter_mset ?P (mset (swap_remove i ?subs))"
      using subs2 by simp
    have f1: "filter_mset ?P (mset ?subs) = add_mset ?sub (filter_mset ?P (mset (swap_remove i ?subs)))"
      using Pi by (simp add: m)
    have "length (filter ?P (sn_subscriptions (su_state s2))) < fuel"
      using Suc.prems(2) f1 f2 by (metis (no_types, lifting) Suc_less_eq mset_filter size_add_mset size_mset)
    with Suc.IH [OF ok] ca obtain rs s' where "report_loop fuel N hz now ev process s2 = Some (Ok rs, s')"
        "mset (map (the \<circ> rc_subscription) rs) = filter_mset ?P (mset (sn_subscriptions (su_state s2)))"
        "sn_changed_attrs (su_state s') = ?ca" "\<not> list_ex ?P (sn_subscriptions (su_state s'))"
      by (auto simp: comp_def)
    with r r2 f1 f2 show ?thesis by (auto simp: c'_def ReportContext_of_def comp_def)
  qed
qed simp


text \<open>Two subscribers with intervals of zero and sixty seconds and a change neither has seen.\<close>

definition pending_actions :: "nat action list" where
  "pending_actions =
     [Subscribe 10 1 7 1 0 60 0 100, FinishPriming 0 True, Subscribe 11 1 8 2 0 60 0 200, FinishPriming 0 True,
      Change (ChangedAttr_concrete 1 6 0 0)]"

lemma pending_run:
  obtains st where "sys_run True 2 1 pending_actions System_new = Some st" and "sy_report st = None"
    and "map sb_max_int_secs (sn_subscriptions (inner st)) = [60, 60]"
    and "map sb_min_int_secs (sn_subscriptions (inner st)) = [0, 0]"
    and "map sb_reported_at (sn_subscriptions (inner st)) = [10, 11]"
    and "list_all (Subscription_is_reportable 1 20 (sn_changed_attrs (inner st)) 0) (sn_subscriptions (inner st))"
  by (simp add: pending_actions_def run_defs MAX_CHANGED_ATTRS_def)

lemma map_eq_pair: "map f xs = [a, b] \<longleftrightarrow> (\<exists>x y. xs = [x, y] \<and> f x = a \<and> f y = b)"
  by (auto simp: map_eq_Cons_conv)

theorem report_respects_intervals_witness:
  "\<exists>st rctx s. sys_run True 2 1 pending_actions System_new = Some st \<and>
     Subscriptions_report 1 20 0 (sy_subs st) = (Ok (Some rctx), s) \<and>
     (\<exists>sub. rc_subscription rctx = Some sub \<and> sb_reported_at sub \<le> 20)"
proof -
  obtain st where st: "sys_run True 2 1 pending_actions System_new = Some st" "sy_report st = None"
      "map sb_max_int_secs (sn_subscriptions (inner st)) = [60, 60]" "map sb_min_int_secs (sn_subscriptions (inner st)) = [0, 0]"
      "map sb_reported_at (sn_subscriptions (inner st)) = [10, 11]"
      "list_all (Subscription_is_reportable 1 20 (sn_changed_attrs (inner st)) 0) (sn_subscriptions (inner st))"
    by (rule pending_run)
  then obtain x y where xy: "sn_subscriptions (inner st) = [x, y]" "sb_max_int_secs x = 60" "sb_max_int_secs y = 60"
      "sb_min_int_secs x = 0" "sb_min_int_secs y = 0" "sb_reported_at x = 10" "sb_reported_at y = 11"
    by (auto simp: map_eq_pair)
  then have r: "ChangedAttrs_any_since (sb_max_seen_attr_change_id x) (sn_changed_attrs (inner st))"
    using st(6) by (simp add: Subscription_is_reportable_def Subscription_is_report_allowed_def Subscription_is_report_due_def
        Instant_checked_add_def Instant_MAX_def from_secs_def Subscription_is_affected_by_attr_changes_def
        Subscription_is_affected_by_new_events_def split: if_splits)
  have "case Subscriptions_report 1 20 0 (sy_subs st) of
      (Ok (Some rctx), s) \<Rightarrow>
        (\<exists>sub \<in> set (sn_subscriptions (inner st)). rc_subscription rctx = Some sub \<and>
           sb_reported_at sub + 1 * unat (sb_min_int_secs sub) \<le> 20)
    | (Ok None, s) \<Rightarrow>
        (\<forall>sub \<in> set (sn_subscriptions (inner st)).
           20 < sb_reported_at sub + 1 * unat (sb_min_int_secs sub) \<or>
           20 + 1 * (unat (sb_max_int_secs sub) div 2) < sb_reported_at sub + 1 * unat (sb_max_int_secs sub) \<and>
           \<not> ChangedAttrs_any_since (sb_max_seen_attr_change_id sub) (sn_changed_attrs (inner st)) \<and>
           0 \<le> sb_max_seen_event_number sub)
    | _ \<Rightarrow> False"
    by (rule report_respects_intervals [OF sys_run_reach [OF st(1) sys_reach.init] st(2)])
      (simp add: xy Instant_MAX_def)
  with r st(1) xy show ?thesis
    by (auto split: prod.splits res.splits option.splits)
qed


subsection \<open>Removal while a report is under way\<close>



subsection \<open>What a priming report can break\<close>

text \<open>
  A priming report that completes while the reporter has a report under way takes the reporter's cancellation for
  its own, since \<^verbatim>\<open>add\<close> does not mark its subscription as the one being reported while \<^verbatim>\<open>report_complete\<close> always consumes the mark.
  A subscriber (node 7) is removed while it is reported on, a second subscriber's (node 8) priming report
  completes: the second one, freshly acknowledged, is dropped, and the removed one is put back.
\<close>

theorem priming_consumes_cancellation:
  "\<exists>st. sys_run True 2 1
      [Subscribe 10 1 7 1 0 60 0 (100 :: nat), FinishPriming 0 True, Change (ChangedAttr_concrete 1 6 0 0),
       BeginReport 20 0, Subscribe 21 1 8 2 0 60 0 200, Remove (DataModel_keep_subs_reason 1 7),
       FinishPriming 0 True, FinishReport True] System_new = Some st \<and>
     map (\<lambda>sub. si_peer_node_id (sb_ids sub)) (sn_subscriptions (inner st)) = [7]"
  by (simp add: run_defs MAX_CHANGED_ATTRS_def DataModel_keep_subs_reason_def)

text \<open>
  A change can be lost when the reporter purges the table of changes while a priming report is
  under way. \<^verbatim>\<open>purge_reported_changes\<close> looks only at the subscriptions in the table; with none there it clears the changes. A
  subscription is accepted, an attribute changes while its priming report is under way, the reporter purges, the
  priming report completes: the subscription has not seen the change (its last seen identifier is 0, the change has identifier 1), yet
  it is not woken up for it, and when its next report is due the attribute is left out.
\<close>

theorem purge_loses_change:
  "\<exists>st st' rctx. sys_run False 2 1
      [Subscribe 10 1 7 1 0 60 0 (100 :: nat), Change (ChangedAttr_concrete 1 6 0 0), Purge, FinishPriming 0 True]
      System_new = Some st \<and>
     sy_history st = [(1, ChangedAttr_concrete 1 6 0 0)] \<and>
     map sb_max_seen_attr_change_id (sn_subscriptions (inner st)) = [0] \<and>
     \<not> list_ex (Subscription_is_reportable 1 20 (sn_changed_attrs (inner st)) 0) (sn_subscriptions (inner st)) \<and>
     sys_step 2 1 (BeginReport 45 0) st = Ok st' \<and> sy_report st' = Some rctx \<and>
     ReportContext_should_report_attr 1 6 0 rctx (sy_subs st') = Ok False"
  by (simp add: run_defs MAX_CHANGED_ATTRS_def ReportContext_should_report_attr_def ChangedAttrs_contains_since_def)

end
