(* ===== verification/Path_Expansion.thy ===== *)
theory Path_Expansion
  imports Data_Model
begin

section \<open>Expansion of requested paths over the node\<close>

text \<open>
  The path expander of \<^verbatim>\<open>dm/types/node.rs\<close>: an iterator that turns the (possibly wildcard) paths of a
  read, write or invoke request into concrete attributes or commands the accessor may use, with a
  status for a concrete path that cannot be served. \<^verbatim>\<open>AttrDetails\<close> and \<^verbatim>\<open>CmdDetails\<close> of
  \<^verbatim>\<open>dm/types/attribute.rs\<close> and \<^verbatim>\<open>command.rs\<close> are what it produces.

  Between two calls of \<^verbatim>\<open>next\<close> the handlers run, so the node and the fabrics (with their access
  control lists and groups) are arguments of every call. The trait \<^verbatim>\<open>PathExpansionItem\<close> is a record of
  its functions with an instance for each of its three implementors. The iterator of requested paths
  is a list of decoded or undecodable items. The filter is a predicate. The loops of \<^verbatim>\<open>next_for_path\<close>
  keep their cursors as 16-bit words in the expander; incrementing one beyond its range panics, as
  does the debug assertion that the endpoints are sorted. \<^verbatim>\<open>binary_search_by_key\<close> is its documented
  result on a sorted slice.

  The theory holds the definitions and what the loops leave alone, which their termination rests on;
  \<open>Path_Scan\<close>, \<open>Path_Iteration\<close> and \<open>Path_Authorization\<close> show what the iterator guarantees.
\<close>

subsection \<open>What an expansion produces\<close>

record AttrDetails =
  ade_endpoint_id :: u16
  ade_cluster_id :: u32
  ade_attr_id :: u32
  ade_list_index :: "u16 option option"
  ade_list_chunked :: bool
  ade_fab_idx :: u8
  ade_fab_filter :: bool
  ade_dataver :: "u32 option"
  ade_wildcard :: bool
  ade_array :: bool
  ade_cluster_status :: u8

definition AttrDetails_is_system :: "AttrDetails \<Rightarrow> bool" where
  "AttrDetails_is_system d = Attribute_is_system_attr (ade_attr_id d)"

definition AttrDetails_reply_path :: "AttrDetails \<Rightarrow> AttrPath" where
  "AttrDetails_reply_path d =
     \<lparr>ap_tag_compression = None, ap_node = None, ap_endpoint = Some (ade_endpoint_id d),
      ap_cluster = Some (ade_cluster_id d), ap_attr = Some (ade_attr_id d),
      ap_list_index =
        (if ade_list_chunked d
         then (case ade_list_index d of Some (Some _) \<Rightarrow> Some None | Some None \<Rightarrow> None | None \<Rightarrow> None)
         else ade_list_index d)\<rparr>"

definition AttrDetails_cluster :: "(Cluster \<Rightarrow> 'r res) \<Rightarrow> Node \<Rightarrow> AttrDetails \<Rightarrow> 'r res" where
  "AttrDetails_cluster f n d =
     (case Option.bind (Node_endpoint (ade_endpoint_id d) n) (Endpoint_cluster (ade_cluster_id d)) of
        Some cluster \<Rightarrow> f cluster | None \<Rightarrow> Err ClusterNotFound)"

definition AttrDetails_set_cluster_status :: "u8 \<Rightarrow> AttrDetails \<Rightarrow> AttrDetails" where
  "AttrDetails_set_cluster_status cluster_status d = d\<lparr>ade_cluster_status := cluster_status\<rparr>"

definition AttrDetails_cluster_status :: "AttrDetails \<Rightarrow> u16 option" where
  "AttrDetails_cluster_status d = (if ade_cluster_status d = 0 then None else Some (ucast (ade_cluster_status d)))"

definition AttrDetails_should_report :: "IMStatusCode \<Rightarrow> AttrDetails \<Rightarrow> bool" where
  "AttrDetails_should_report status d \<longleftrightarrow> \<not> ade_wildcard d \<or>
     status \<notin> {IM_UnsupportedEndpoint, IM_UnsupportedCluster, IM_UnsupportedAttribute, IM_UnsupportedCommand,
       IM_UnsupportedAccess, IM_UnsupportedRead, IM_UnsupportedWrite, IM_DataVersionMismatch}"

definition AttrDetails_status :: "IMStatusCode \<Rightarrow> AttrDetails \<Rightarrow> AttrStatus option" where
  "AttrDetails_status status d =
     (if AttrDetails_should_report status d
      then Some (AttrStatus_new (AttrDetails_reply_path d) status (AttrDetails_cluster_status d)) else None)"

definition AttrDetails_check_dataver :: "u32 \<Rightarrow> AttrDetails \<Rightarrow> unit res" where
  "AttrDetails_check_dataver dataver d = (case ade_dataver d of
     Some req_dataver \<Rightarrow> if req_dataver \<noteq> dataver then Err DataVersionMismatch else Ok ()
   | None \<Rightarrow> Ok ())"

record CmdDetails =
  cde_endpoint_id :: u16
  cde_cluster_id :: u32
  cde_cmd_id :: u32
  cde_fab_idx :: u8
  cde_wildcard :: bool
  cde_command_ref :: "u16 option"
  cde_cluster_status :: u8

definition CmdDetails_new :: "u16 \<Rightarrow> u32 \<Rightarrow> u32 \<Rightarrow> u8 \<Rightarrow> bool \<Rightarrow> u16 option \<Rightarrow> CmdDetails" where
  "CmdDetails_new endpoint_id cluster_id cmd_id fab_idx wildcard command_ref =
     \<lparr>cde_endpoint_id = endpoint_id, cde_cluster_id = cluster_id, cde_cmd_id = cmd_id, cde_fab_idx = fab_idx,
      cde_wildcard = wildcard, cde_command_ref = command_ref, cde_cluster_status = 0\<rparr>"

definition CmdDetails_set_cluster_status :: "u8 \<Rightarrow> CmdDetails \<Rightarrow> CmdDetails" where
  "CmdDetails_set_cluster_status cluster_status d = d\<lparr>cde_cluster_status := cluster_status\<rparr>"

definition CmdDetails_cluster_status :: "CmdDetails \<Rightarrow> u16 option" where
  "CmdDetails_cluster_status d = (if cde_cluster_status d = 0 then None else Some (ucast (cde_cluster_status d)))"

definition CmdDetails_reply_path :: "CmdDetails \<Rightarrow> CmdPath" where
  "CmdDetails_reply_path d =
     CmdPath_new (Some (cde_endpoint_id d)) (Some (cde_cluster_id d)) (Some (cde_cmd_id d))"

definition CmdDetails_should_report :: "IMStatusCode \<Rightarrow> CmdDetails \<Rightarrow> bool" where
  "CmdDetails_should_report status d \<longleftrightarrow> \<not> cde_wildcard d \<or>
     status \<notin> {IM_UnsupportedEndpoint, IM_UnsupportedCluster, IM_UnsupportedAttribute, IM_UnsupportedCommand,
       IM_UnsupportedAccess, IM_UnsupportedRead, IM_UnsupportedWrite}"

definition CmdDetails_status :: "IMStatusCode \<Rightarrow> CmdDetails \<Rightarrow> CmdStatus option" where
  "CmdDetails_status status d =
     (if CmdDetails_should_report status d
      then Some (CmdStatus_new (CmdPath_new (Some (cde_endpoint_id d)) (Some (cde_cluster_id d)) (Some (cde_cmd_id d)))
        status (CmdDetails_cluster_status d) (cde_command_ref d))
      else None)"

subsection \<open>Items that can be expanded\<close>

datatype Operation = Read | Write | Invoke

record ('t, 'x, 's) PathExpansionItem =
  pi_OPERATION :: Operation
  pi_path :: "'t \<Rightarrow> GenericPath"
  pi_expand :: "Accessor \<Rightarrow> u16 \<Rightarrow> u32 \<Rightarrow> u32 \<Rightarrow> bool \<Rightarrow> 't \<Rightarrow> 'x res"
  pi_into_status :: "IMStatusCode \<Rightarrow> 't \<Rightarrow> 's"

record AttrReadPath =
  rp_path :: AttrPath
  rp_dataver_filters :: "DataVersionFilter res list option"
  rp_fabric_filtered :: bool

fun dataver_loop :: "u16 \<Rightarrow> u32 \<Rightarrow> DataVersionFilter res list \<Rightarrow> u32 option res" where
  "dataver_loop ep cl [] = Ok None"
| "dataver_loop ep cl (r # rs) = res_bind r (\<lambda>flt.
     if cp_endpoint (df_path flt) = ep \<and> cp_cluster (df_path flt) = cl then Ok (Some (df_data_ver flt))
     else dataver_loop ep cl rs)"

definition dataver :: "DataVersionFilter res list option \<Rightarrow> u16 \<Rightarrow> u32 \<Rightarrow> u32 option res" where
  "dataver dataver_filters ep cl = (case dataver_filters of Some fs \<Rightarrow> dataver_loop ep cl fs | None \<Rightarrow> Ok None)"

definition AttrReadPath_item :: "(AttrReadPath, AttrDetails, AttrStatus) PathExpansionItem" where
  "AttrReadPath_item =
     \<lparr>pi_OPERATION = Read,
      pi_path = (\<lambda>self. AttrPath_to_gp (rp_path self)),
      pi_expand = (\<lambda>accessor endpoint_id cluster_id leaf_id array self.
        res_bind (dataver (rp_dataver_filters self) endpoint_id cluster_id) (\<lambda>ver.
        Ok \<lparr>ade_endpoint_id = endpoint_id, ade_cluster_id = cluster_id, ade_attr_id = leaf_id,
            ade_list_index = ap_list_index (rp_path self), ade_list_chunked = False, ade_fab_idx = ac_fab_idx accessor,
            ade_fab_filter = rp_fabric_filtered self, ade_dataver = ver,
            ade_wildcard = GenericPath_is_wildcard (AttrPath_to_gp (rp_path self)), ade_array = array,
            ade_cluster_status = 0\<rparr>)),
      pi_into_status = (\<lambda>status self. AttrStatus_new (rp_path self) status None)\<rparr>"

definition AttrData_item :: "(AttrData, AttrDetails \<times> bytes, AttrStatus) PathExpansionItem" where
  "AttrData_item =
     \<lparr>pi_OPERATION = Write,
      pi_path = (\<lambda>self. AttrPath_to_gp (dd_path self)),
      pi_expand = (\<lambda>accessor endpoint_id cluster_id leaf_id array self.
        Ok (\<lparr>ade_endpoint_id = endpoint_id, ade_cluster_id = cluster_id, ade_attr_id = leaf_id,
             ade_list_index = ap_list_index (dd_path self), ade_list_chunked = False, ade_fab_idx = ac_fab_idx accessor,
             ade_fab_filter = True, ade_dataver = dd_data_ver self,
             ade_wildcard = GenericPath_is_wildcard (AttrPath_to_gp (dd_path self)), ade_array = array,
             ade_cluster_status = 0\<rparr>, dd_data self)),
      pi_into_status = (\<lambda>status self. AttrStatus_new (dd_path self) status None)\<rparr>"

definition CmdData_item :: "(CmdData, CmdDetails \<times> bytes, CmdStatus) PathExpansionItem" where
  "CmdData_item =
     \<lparr>pi_OPERATION = Invoke,
      pi_path = (\<lambda>self. CmdPath_to_gp (cd_path self)),
      pi_expand = (\<lambda>accessor endpoint_id cluster_id leaf_id array self.
        Ok (CmdDetails_new endpoint_id cluster_id leaf_id (ac_fab_idx accessor) False (cd_command_ref self), cd_data self)),
      pi_into_status = (\<lambda>status self. CmdStatus_new (cd_path self) status None (cd_command_ref self))\<rparr>"

subsection \<open>The expander\<close>

record 't PathExpander =
  px_accessor :: Accessor
  px_timed :: bool
  px_items :: "'t res list option"
  px_item :: "'t option"
  px_endpoint_id :: "u16 option"
  px_cluster_index :: u16
  px_leaf_index :: u16
  px_filter :: "u16 \<Rightarrow> u32 \<Rightarrow> u32 \<Rightarrow> bool"
  px_last_authorized :: "(u16 \<times> u32 \<times> u32) option"

definition PathExpander_new ::
    "Accessor \<Rightarrow> bool \<Rightarrow> 't res list option \<Rightarrow> (u16 \<Rightarrow> u32 \<Rightarrow> u32 \<Rightarrow> bool) \<Rightarrow> 't PathExpander" where
  "PathExpander_new accessor timed paths flt =
     \<lparr>px_accessor = accessor, px_timed = timed, px_items = paths, px_item = None, px_endpoint_id = None,
      px_cluster_index = 0, px_leaf_index = 0, px_filter = flt, px_last_authorized = None\<rparr>"

text \<open>A loop body goes on, returns from \<^verbatim>\<open>next_for_path\<close>, or panics.\<close>

datatype flow = Scan | Return "IMStatusCode + (u16 \<times> u32 \<times> u32 \<times> bool) option" | Abort

definition is_invoke :: "('t, 'x, 's) PathExpansionItem \<Rightarrow> bool" where
  "is_invoke T \<longleftrightarrow> pi_OPERATION T = Invoke"

definition is_attr_read :: "('t, 'x, 's) PathExpansionItem \<Rightarrow> bool" where
  "is_attr_read T \<longleftrightarrow> pi_OPERATION T = Read"

definition cluster_leaves :: "('t, 'x, 's) PathExpansionItem \<Rightarrow> Cluster \<Rightarrow> u32 list" where
  "cluster_leaves T cluster =
     (if is_invoke T then map cm_id (Cluster_commands cluster) else map at_id (Cluster_attributes cluster))"

definition leaf_access ::
    "('t, 'x, 's) PathExpansionItem \<Rightarrow> Fabrics \<Rightarrow> Accessor \<Rightarrow> bool \<Rightarrow> Endpoint \<Rightarrow> Cluster \<Rightarrow> u32 \<Rightarrow> IMStatusCode + unit" where
  "leaf_access T fs accessor timed endpoint cluster leaf_id =
     (let path = GenericPath_new (Some (en_id endpoint)) (Some (cl_id cluster)) (Some leaf_id) in
      if is_invoke T
      then Cluster_check_cmd_access fs accessor timed path (en_device_types endpoint) leaf_id cluster
      else Cluster_check_attr_access fs accessor timed path (en_device_types endpoint) (\<not> is_attr_read T) leaf_id cluster)"

definition check_leaf ::
    "('t, 'x, 's) PathExpansionItem \<Rightarrow> Fabrics \<Rightarrow> Endpoint \<Rightarrow> Cluster \<Rightarrow> u32 \<Rightarrow> 't PathExpander \<Rightarrow> IMStatusCode + bool" where
  "check_leaf T fs endpoint cluster leaf_id self =
     (if px_filter self (en_id endpoint) (cl_id cluster) leaf_id
      then if px_last_authorized self = Some (en_id endpoint, cl_id cluster, leaf_id) then Inr True
           else map_sum id (\<lambda>_. True) (leaf_access T fs (px_accessor self) (px_timed self) endpoint cluster leaf_id)
      else Inr False)"

definition leaf_is_array :: "('t, 'x, 's) PathExpansionItem \<Rightarrow> Cluster \<Rightarrow> u32 \<Rightarrow> bool" where
  "leaf_is_array T cluster leaf_id \<longleftrightarrow> \<not> is_invoke T \<and>
     (case Cluster_attribute leaf_id cluster of Some attr \<Rightarrow> flags_contains (at_quality attr) Quality_ARRAY | None \<Rightarrow> False)"

definition path_has :: "'a option \<Rightarrow> 'a \<Rightarrow> bool" where
  "path_has p i \<longleftrightarrow> p = None \<or> p = Some i"

definition inc_leaf_index :: "'t PathExpander \<Rightarrow> 't PathExpander option" where
  "inc_leaf_index self =
     (if px_leaf_index self = 0xFFFF then None else Some (self\<lparr>px_leaf_index := px_leaf_index self + 1\<rparr>))"

definition inc_cluster_index :: "'t PathExpander \<Rightarrow> 't PathExpander option" where
  "inc_cluster_index self =
     (if px_cluster_index self = 0xFFFF then None else Some (self\<lparr>px_cluster_index := px_cluster_index self + 1\<rparr>))"

text \<open>The body of the innermost loop up to its last line.\<close>

definition visit_leaf ::
    "('t, 'x, 's) PathExpansionItem \<Rightarrow> Fabrics \<Rightarrow> GenericPath \<Rightarrow> Endpoint \<Rightarrow> Cluster \<Rightarrow> u32 \<Rightarrow> 't PathExpander \<Rightarrow>
     flow \<times> 't PathExpander" where
  "visit_leaf T fs path endpoint cluster leaf_id self =
     (if path_has (gp_leaf path) leaf_id
      then (case check_leaf T fs endpoint cluster leaf_id self of
              Inr True \<Rightarrow>
                (case inc_leaf_index self of
                   None \<Rightarrow> (Abort, self)
                 | Some self' \<Rightarrow>
                     (Return (Inr (Some (en_id endpoint, cl_id cluster, leaf_id, leaf_is_array T cluster leaf_id))),
                      self'\<lparr>px_last_authorized := Some (en_id endpoint, cl_id cluster, leaf_id)\<rparr>))
            | Inr False \<Rightarrow>
                if \<not> GenericPath_is_wildcard path
                then (case inc_leaf_index self of None \<Rightarrow> (Abort, self) | Some self' \<Rightarrow> (Return (Inr None), self'))
                else (Scan, self)
            | Inl status \<Rightarrow>
                if \<not> GenericPath_is_wildcard path then (Return (Inl status), self) else (Scan, self))
      else (Scan, self))"

function leaf_loop ::
    "('t, 'x, 's) PathExpansionItem \<Rightarrow> Fabrics \<Rightarrow> GenericPath \<Rightarrow> Endpoint \<Rightarrow> Cluster \<Rightarrow> 't PathExpander \<Rightarrow>
     flow \<times> 't PathExpander" where
  "leaf_loop T fs path endpoint cluster self =
     (if unat (px_leaf_index self) < length (cluster_leaves T cluster)
      then (case visit_leaf T fs path endpoint cluster (cluster_leaves T cluster ! unat (px_leaf_index self)) self of
              (Scan, self') \<Rightarrow>
                (case inc_leaf_index self' of
                   None \<Rightarrow> (Abort, self')
                 | Some self'' \<Rightarrow> leaf_loop T fs path endpoint cluster self'')
            | (r, self') \<Rightarrow> (r, self'))
      else (Scan, self))"
  by pat_completeness auto

lemma visit_leaf_Scan: "visit_leaf T fs path endpoint cluster leaf_id self = (Scan, self') \<Longrightarrow> self' = self"
  by (auto simp: visit_leaf_def split: if_splits sum.splits bool.splits option.splits)

lemma inc_leaf_index_Some:
  "inc_leaf_index self = Some self' \<longleftrightarrow>
     px_leaf_index self \<noteq> 0xFFFF \<and> self' = self\<lparr>px_leaf_index := px_leaf_index self + 1\<rparr>"
  by (auto simp: inc_leaf_index_def)

lemma inc_cluster_index_Some:
  "inc_cluster_index self = Some self' \<longleftrightarrow>
     px_cluster_index self \<noteq> 0xFFFF \<and> self' = self\<lparr>px_cluster_index := px_cluster_index self + 1\<rparr>"
  by (auto simp: inc_cluster_index_def)

lemma unat_inc_u16: "(x :: u16) \<noteq> 0xFFFF \<Longrightarrow> unat (x + 1) = Suc (unat x)"
proof -
  assume "x \<noteq> 0xFFFF"
  moreover have "(- 1 :: u16) = 0xFFFF" by simp
  ultimately have "1 + x \<noteq> 0" using minus_unique [of 1 x] by metis
  then show ?thesis by (simp add: unatSuc add.commute)
qed

termination leaf_loop
  by (relation "measure (\<lambda>(T, fs, path, endpoint, cluster, self). length (cluster_leaves T cluster) - unat (px_leaf_index self))")
    (auto simp: inc_leaf_index_Some unat_inc_u16 dest!: visit_leaf_Scan [OF sym])

text \<open>The body of the loop over clusters up to its last line.\<close>

definition visit_cluster ::
    "('t, 'x, 's) PathExpansionItem \<Rightarrow> Fabrics \<Rightarrow> GenericPath \<Rightarrow> Endpoint \<Rightarrow> Cluster \<Rightarrow> 't PathExpander \<Rightarrow>
     flow \<times> 't PathExpander" where
  "visit_cluster T fs path endpoint cluster self =
     (if path_has (gp_cluster path) (cl_id cluster)
      then (case leaf_loop T fs path endpoint cluster self of
              (Scan, self') \<Rightarrow>
                if \<not> GenericPath_is_wildcard path
                then (Return (Inl (if is_invoke T then IM_UnsupportedCommand else IM_UnsupportedAttribute)), self')
                else (Scan, self'\<lparr>px_leaf_index := 0\<rparr>)
            | (r, self') \<Rightarrow> (r, self'))
      else (Scan, self))"

function cluster_loop ::
    "('t, 'x, 's) PathExpansionItem \<Rightarrow> Fabrics \<Rightarrow> GenericPath \<Rightarrow> Endpoint \<Rightarrow> 't PathExpander \<Rightarrow>
     flow \<times> 't PathExpander" where
  "cluster_loop T fs path endpoint self =
     (if unat (px_cluster_index self) < length (en_clusters endpoint)
      then (case visit_cluster T fs path endpoint (en_clusters endpoint ! unat (px_cluster_index self)) self of
              (Scan, self') \<Rightarrow>
                (case inc_cluster_index self' of
                   None \<Rightarrow> (Abort, self')
                 | Some self'' \<Rightarrow> cluster_loop T fs path endpoint self'')
            | (r, self') \<Rightarrow> (r, self'))
      else (Scan, self))"
  by pat_completeness auto

text \<open>What the loops leave alone: the request and the position of the loops around.\<close>

definition same_request :: "'t PathExpander \<Rightarrow> 't PathExpander \<Rightarrow> bool" where
  "same_request self self' \<longleftrightarrow> px_accessor self' = px_accessor self \<and> px_timed self' = px_timed self \<and>
     px_items self' = px_items self \<and> px_item self' = px_item self \<and> px_filter self' = px_filter self"

definition same_cluster :: "'t PathExpander \<Rightarrow> 't PathExpander \<Rightarrow> bool" where
  "same_cluster self self' \<longleftrightarrow> same_request self self' \<and> px_endpoint_id self' = px_endpoint_id self \<and>
     px_cluster_index self' = px_cluster_index self"

lemma visit_leaf_frame: "same_cluster self (snd (visit_leaf T fs path endpoint cluster leaf_id self))"
  by (auto simp: visit_leaf_def inc_leaf_index_def same_cluster_def same_request_def split: sum.splits bool.splits)

lemma leaf_loop_frame: "same_cluster self (snd (leaf_loop T fs path endpoint cluster self))"
proof (induction T fs path endpoint cluster self rule: leaf_loop.induct)
  case (1 T fs path endpoint cluster self)
  let ?l = "cluster_leaves T cluster ! unat (px_leaf_index self)"
  obtain r self' where v: "visit_leaf T fs path endpoint cluster ?l self = (r, self')" by fastforce
  then have "same_cluster self self'" using visit_leaf_frame [of self T fs path endpoint cluster ?l] by simp
  then show ?case
    using 1 [OF _ v [symmetric]]
    by (subst leaf_loop.simps)
      (auto simp: v inc_leaf_index_Some same_cluster_def same_request_def split: flow.splits option.splits)
qed

lemma visit_cluster_frame: "same_cluster self (snd (visit_cluster T fs path endpoint cluster self))"
  using leaf_loop_frame [of self T fs path endpoint cluster]
  by (auto simp: visit_cluster_def same_cluster_def same_request_def split: prod.splits flow.splits)

lemma visit_cluster_index:
  "visit_cluster T fs path endpoint cluster self = (r, self') \<Longrightarrow> px_cluster_index self' = px_cluster_index self"
  using visit_cluster_frame [of self T fs path endpoint cluster] by (simp add: same_cluster_def)

termination cluster_loop
  by (relation "measure (\<lambda>(T, fs, path, endpoint, self). length (en_clusters endpoint) - unat (px_cluster_index self))")
    (auto simp: inc_cluster_index_Some unat_inc_u16 dest!: visit_cluster_index [OF sym])

lemma cluster_loop_frame: "same_request self (snd (cluster_loop T fs path endpoint self)) \<and>
  px_endpoint_id (snd (cluster_loop T fs path endpoint self)) = px_endpoint_id self"
proof (induction T fs path endpoint self rule: cluster_loop.induct)
  case (1 T fs path endpoint self)
  let ?c = "en_clusters endpoint ! unat (px_cluster_index self)"
  obtain r self' where v: "visit_cluster T fs path endpoint ?c self = (r, self')" by fastforce
  then have "same_cluster self self'" using visit_cluster_frame [of self T fs path endpoint ?c] by simp
  then show ?case
    using 1 [OF _ v [symmetric]]
    by (subst (1 2) cluster_loop.simps)
      (auto simp: v inc_cluster_index_Some same_cluster_def same_request_def split: flow.splits option.splits)
qed

text \<open>The loop over the endpoints from the starting index on, and the whole of \<^verbatim>\<open>next_for_path\<close>.\<close>

definition visit_endpoint ::
    "('t, 'x, 's) PathExpansionItem \<Rightarrow> Fabrics \<Rightarrow> GenericPath \<Rightarrow> Endpoint \<Rightarrow> 't PathExpander \<Rightarrow>
     flow \<times> 't PathExpander" where
  "visit_endpoint T fs path endpoint self0 =
     (let self = self0\<lparr>px_endpoint_id := Some (en_id endpoint)\<rparr> in
      if path_has (gp_endpoint path) (en_id endpoint) \<and>
         Accessor_is_endpoint_accessible fs (en_id endpoint) (px_accessor self)
      then (case cluster_loop T fs path endpoint self of
              (Scan, self') \<Rightarrow>
                if \<not> GenericPath_is_wildcard path then (Return (Inl IM_UnsupportedCluster), self')
                else (Scan, self'\<lparr>px_cluster_index := 0\<rparr>)
            | (r, self') \<Rightarrow> (r, self'))
      else (Scan, self))"

fun endpoint_loop ::
    "('t, 'x, 's) PathExpansionItem \<Rightarrow> Fabrics \<Rightarrow> GenericPath \<Rightarrow> Endpoint list \<Rightarrow> 't PathExpander \<Rightarrow>
     flow \<times> 't PathExpander" where
  "endpoint_loop T fs path [] self = (Scan, self)"
| "endpoint_loop T fs path (endpoint # eps) self =
     (case visit_endpoint T fs path endpoint self of
        (Scan, self') \<Rightarrow> endpoint_loop T fs path eps self'
      | (r, self') \<Rightarrow> (r, self'))"

text \<open>\<open>Inl i\<close> is \<^verbatim>\<open>Ok(i)\<close>, the index of the key, and \<open>Inr i\<close> is \<^verbatim>\<open>Err(i)\<close>, the place to insert it.\<close>

definition binary_search_by_key :: "'k::linorder \<Rightarrow> ('a \<Rightarrow> 'k) \<Rightarrow> 'a list \<Rightarrow> nat + nat" where
  "binary_search_by_key key f xs = (case position (\<lambda>x. key \<le> f x) xs of
     Some i \<Rightarrow> if f (xs ! i) = key then Inl i else Inr i
   | None \<Rightarrow> Inr (length xs))"

definition resume_endpoint_index :: "Node \<Rightarrow> 't PathExpander \<Rightarrow> nat option \<times> 't PathExpander" where
  "resume_endpoint_index node self = (case px_endpoint_id self of
     None \<Rightarrow> (Some 0, self)
   | Some ep_id \<Rightarrow>
       if \<not> sorted_wrt (<) (map en_id (no_endpoints node)) then (None, self)
       else (case binary_search_by_key ep_id en_id (no_endpoints node) of
               Inl i \<Rightarrow> (Some i, self)
             | Inr i \<Rightarrow> (Some i, self\<lparr>px_cluster_index := 0, px_leaf_index := 0, px_endpoint_id := None\<rparr>)))"

text \<open>The outer \<open>None\<close> stands for a panic.\<close>

definition next_for_path ::
    "('t, 'x, 's) PathExpansionItem \<Rightarrow> Fabrics \<Rightarrow> Node \<Rightarrow> 't PathExpander \<Rightarrow>
     (IMStatusCode + (u16 \<times> u32 \<times> u32 \<times> bool) option) option \<times> 't PathExpander" where
  "next_for_path T fs node self = (case px_item self of
     None \<Rightarrow> (None, self)
   | Some item \<Rightarrow>
       let path = pi_path T item in
       if \<not> is_attr_read T \<and> gp_cluster path = None then (Some (Inl IM_UnsupportedCluster), self)
       else if \<not> is_attr_read T \<and> gp_leaf path = None then (Some (Inl IM_UnsupportedAttribute), self)
       else (case resume_endpoint_index node self of
               (None, self') \<Rightarrow> (None, self')
             | (Some endpoint_index, self') \<Rightarrow>
                 (case endpoint_loop T fs path (drop endpoint_index (no_endpoints node)) self' of
                    (Abort, self'') \<Rightarrow> (None, self'')
                  | (Return r, self'') \<Rightarrow> (Some r, self'')
                  | (Scan, self'') \<Rightarrow>
                      (Some (if \<not> GenericPath_is_wildcard path then Inl IM_UnsupportedEndpoint else Inr None), self''))))"

lemma visit_endpoint_frame: "same_request self (snd (visit_endpoint T fs path endpoint self))"
  using cluster_loop_frame [of "self\<lparr>px_endpoint_id := Some (en_id endpoint)\<rparr>" T fs path endpoint]
  by (auto simp: visit_endpoint_def same_request_def Let_def split: prod.splits flow.splits)

lemma same_request_refl [simp]: "same_request self self"
  by (simp add: same_request_def)

lemma same_request_trans: "same_request a b \<Longrightarrow> same_request b c \<Longrightarrow> same_request a c"
  by (simp add: same_request_def)

lemma endpoint_loop_frame: "same_request self (snd (endpoint_loop T fs path eps self))"
proof (induction eps arbitrary: self)
  case (Cons ep eps)
  obtain r self' where v: "visit_endpoint T fs path ep self = (r, self')" by fastforce
  then have "same_request self self'" using visit_endpoint_frame [of self T fs path ep] by simp
  then show ?case using Cons [of self'] v by (auto split: flow.splits intro: same_request_trans)
qed simp

lemma resume_frame: "same_request self (snd (resume_endpoint_index node self))"
  by (simp add: resume_endpoint_index_def same_request_def split: option.splits sum.splits)

lemma next_for_path_frame: "same_request self (snd (next_for_path T fs node self))"
proof -
  obtain i self' where res: "resume_endpoint_index node self = (i, self')" by fastforce
  have self': "same_request self self'" using resume_frame [of self node] res by simp
  have loop: "endpoint_loop T fs path eps self' = (r, self'') \<Longrightarrow> same_request self self''" for path eps r self''
    using same_request_trans [OF self' endpoint_loop_frame, of T fs path eps] by simp
  show ?thesis
    by (cases "px_item self"; cases i)
      (auto simp: next_for_path_def Let_def res self' split: prod.split flow.split dest: loop)
qed

text \<open>
  \<^verbatim>\<open>next\<close>: the outer result is \<open>None\<close> when the items are used up; a result is an expanded item, a
  status or a decoding error.
\<close>

type_synonym ('x, 's) expansion = "('s + 'x) res"

definition fetch_item :: "'t PathExpander \<Rightarrow> ('x, 's) expansion option option \<times> 't PathExpander" where
  "fetch_item self =
     (if px_item self = None
      then (case px_items self of
              None \<Rightarrow> (Some None, self)
            | Some [] \<Rightarrow> (Some None, self)
            | Some (r # rs) \<Rightarrow>
                let self' = self\<lparr>px_items := Some rs\<rparr> in
                (case r of
                   Err err \<Rightarrow> (Some (Some (Err err)), self')
                 | Panic \<Rightarrow> (Some (Some Panic), self')
                 | Ok item \<Rightarrow>
                     (None, self'\<lparr>px_item := Some item, px_endpoint_id := None, px_cluster_index := 0,
                              px_leaf_index := 0\<rparr>)))
      else (None, self))"

function PathExpander_next ::
    "('t, 'x, 's) PathExpansionItem \<Rightarrow> Fabrics \<Rightarrow> Node \<Rightarrow> 't PathExpander \<Rightarrow>
     ('x, 's) expansion option \<times> 't PathExpander" where
  "PathExpander_next T fs node self0 =
     (case fetch_item self0 of
        (Some r, self) \<Rightarrow> (r, self)
      | (None, self) \<Rightarrow>
          (case px_item self of
             None \<Rightarrow> (Some Panic, self)
           | Some item \<Rightarrow>
               (case next_for_path T fs node self of
                  (Some (Inr (Some (endpoint_id, cluster_id, leaf_id, array))), self') \<Rightarrow>
                    (Some (res_bind (pi_expand T (px_accessor self') endpoint_id cluster_id leaf_id array item) (\<lambda>x. Ok (Inr x))),
                     if \<not> GenericPath_is_wildcard (pi_path T item) then self'\<lparr>px_item := None\<rparr> else self')
                | (Some (Inr None), self') \<Rightarrow> PathExpander_next T fs node (self'\<lparr>px_item := None\<rparr>)
                | (Some (Inl status), self') \<Rightarrow> (Some (Ok (Inl (pi_into_status T status item))), self'\<lparr>px_item := None\<rparr>)
                | (None, self') \<Rightarrow> (Some Panic, self'))))"
  by pat_completeness auto

definition items_left :: "'t PathExpander \<Rightarrow> nat" where
  "items_left self = (case px_items self of None \<Rightarrow> 0 | Some rs \<Rightarrow> length rs) + (if px_item self = None then 0 else 1)"

lemma fetch_item_left: "fetch_item self = (r, self') \<Longrightarrow> items_left self' \<le> items_left self"
  by (auto simp: fetch_item_def items_left_def Let_def split: if_splits option.splits list.splits res.splits)

lemma next_for_path_left:
  assumes "next_for_path T fs node self = (r, self')" "px_item self = Some item"
  shows "items_left (self'\<lparr>px_item := None\<rparr>) < items_left self"
  using next_for_path_frame [of self T fs node] assms by (simp add: items_left_def same_request_def)

termination PathExpander_next
  by (relation "measure (\<lambda>(T, fs, node, self). items_left self)")
    (auto dest!: fetch_item_left [OF sym] next_for_path_left [OF sym])

text \<open>
  The three entry points: the fields of the request are read first, each of which may fail to decode.
\<close>

definition expand_read ::
    "Accessor \<Rightarrow> DataVersionFilter res list option res \<Rightarrow> bool res \<Rightarrow> AttrPath res list option res \<Rightarrow>
     (u16 \<Rightarrow> u32 \<Rightarrow> u32 \<Rightarrow> bool) \<Rightarrow> AttrReadPath PathExpander res" where
  "expand_read accessor req_dataver_filters req_fabric_filtered req_attr_requests flt =
     res_bind req_dataver_filters (\<lambda>dataver_filters.
     res_bind req_fabric_filtered (\<lambda>fabric_filtered.
     res_bind req_attr_requests (\<lambda>attr_requests.
     Ok (PathExpander_new accessor False
       (map_option (map (\<lambda>r. res_bind r (\<lambda>path.
          Ok \<lparr>rp_path = path, rp_dataver_filters = dataver_filters, rp_fabric_filtered = fabric_filtered\<rparr>))) attr_requests)
       flt))))"

definition expand_write :: "Accessor \<Rightarrow> bool res \<Rightarrow> AttrData res list res \<Rightarrow> AttrData PathExpander res" where
  "expand_write accessor req_timed_request req_write_requests =
     res_bind req_timed_request (\<lambda>timed_request.
     res_bind req_write_requests (\<lambda>write_requests.
     Ok (PathExpander_new accessor timed_request (Some write_requests) (\<lambda>_ _ _. True))))"

definition expand_invoke :: "Accessor \<Rightarrow> bool res \<Rightarrow> CmdData res list option res \<Rightarrow> CmdData PathExpander res" where
  "expand_invoke accessor req_timed_request req_inv_requests =
     res_bind req_timed_request (\<lambda>timed_request.
     res_bind req_inv_requests (\<lambda>inv_requests.
     Ok (PathExpander_new accessor timed_request inv_requests (\<lambda>_ _ _. True))))"

end
