(* ===== verification/Path_Scan.thy ===== *)
theory Path_Scan
  imports Path_Expansion "HOL-Library.Sublist"
begin

section \<open>Wildcard paths on a node that changes\<close>

text \<open>
  The reference expansion of a wildcard path, the effect of one call of \<^verbatim>\<open>next_for_path\<close> on what is left
  of it, and from that what a sequence of calls yields while endpoints are added and removed in between.
  What the expander needs of the node is the locale \<open>endpoint_directory\<close>: its endpoints are sorted in
  every state. The node with dynamic endpoints is an interpretation of it.
\<close>

subsection \<open>The reference expansion\<close>

text \<open>
  A query is what the expansion of one path depends on. The reference lists, in order of endpoint,
  cluster and leaf, what matches the path, passes the filter and may be accessed.
\<close>

record ('t, 'x, 's) Query =
  q_T :: "('t, 'x, 's) PathExpansionItem"
  q_fs :: Fabrics
  q_accessor :: Accessor
  q_timed :: bool
  q_filter :: "u16 \<Rightarrow> u32 \<Rightarrow> u32 \<Rightarrow> bool"
  q_path :: GenericPath

definition leaf_granted :: "('t, 'x, 's) Query \<Rightarrow> Endpoint \<Rightarrow> Cluster \<Rightarrow> u32 \<Rightarrow> bool" where
  "leaf_granted q ep cl l \<longleftrightarrow> leaf_access (q_T q) (q_fs q) (q_accessor q) (q_timed q) ep cl l = Inr ()"

definition leaf_selected :: "('t, 'x, 's) Query \<Rightarrow> Endpoint \<Rightarrow> Cluster \<Rightarrow> u32 \<Rightarrow> bool" where
  "leaf_selected q ep cl l \<longleftrightarrow>
     path_has (gp_leaf (q_path q)) l \<and> q_filter q (en_id ep) (cl_id cl) l \<and> leaf_granted q ep cl l"

definition leaf_tuple :: "('t, 'x, 's) Query \<Rightarrow> Endpoint \<Rightarrow> Cluster \<Rightarrow> u32 \<Rightarrow> u16 \<times> u32 \<times> u32 \<times> bool" where
  "leaf_tuple q ep cl l = (en_id ep, cl_id cl, l, leaf_is_array (q_T q) cl l)"

definition cluster_part :: "('t, 'x, 's) Query \<Rightarrow> Endpoint \<Rightarrow> nat \<Rightarrow> Cluster \<Rightarrow> (u16 \<times> u32 \<times> u32 \<times> bool) list" where
  "cluster_part q ep i cl =
     (if path_has (gp_cluster (q_path q)) (cl_id cl)
      then map (leaf_tuple q ep cl) (filter (leaf_selected q ep cl) (drop i (cluster_leaves (q_T q) cl))) else [])"

fun clusters_part :: "('t, 'x, 's) Query \<Rightarrow> Endpoint \<Rightarrow> nat \<Rightarrow> Cluster list \<Rightarrow> (u16 \<times> u32 \<times> u32 \<times> bool) list" where
  "clusters_part q ep i [] = []"
| "clusters_part q ep i (cl # cls) = cluster_part q ep i cl @ clusters_part q ep 0 cls"

definition endpoint_open :: "('t, 'x, 's) Query \<Rightarrow> Endpoint \<Rightarrow> bool" where
  "endpoint_open q ep \<longleftrightarrow> path_has (gp_endpoint (q_path q)) (en_id ep) \<and>
     Accessor_is_endpoint_accessible (q_fs q) (en_id ep) (q_accessor q)"

definition endpoint_part ::
    "('t, 'x, 's) Query \<Rightarrow> nat \<Rightarrow> nat \<Rightarrow> Endpoint \<Rightarrow> (u16 \<times> u32 \<times> u32 \<times> bool) list" where
  "endpoint_part q ci li ep = (if endpoint_open q ep then clusters_part q ep li (drop ci (en_clusters ep)) else [])"

definition node_expansion :: "('t, 'x, 's) Query \<Rightarrow> Endpoint list \<Rightarrow> (u16 \<times> u32 \<times> u32 \<times> bool) list" where
  "node_expansion q eps = concat (map (endpoint_part q 0 0) eps)"

text \<open>The expansion is the comprehension one would write down.\<close>

lemma clusters_part_0: "clusters_part q ep 0 cls = concat (map (cluster_part q ep 0) cls)"
  by (induction cls) auto

lemma node_expansion_set:
  "(e, c, l, array) \<in> set (node_expansion q eps) \<longleftrightarrow>
     (\<exists>ep \<in> set eps. \<exists>cl \<in> set (en_clusters ep). e = en_id ep \<and> c = cl_id cl \<and> array = leaf_is_array (q_T q) cl l \<and>
        endpoint_open q ep \<and> path_has (gp_cluster (q_path q)) c \<and> l \<in> set (cluster_leaves (q_T q) cl) \<and>
        leaf_selected q ep cl l)"
  by (auto simp: node_expansion_def endpoint_part_def clusters_part_0 cluster_part_def leaf_tuple_def image_iff split: if_splits)

subsection \<open>One wildcard step\<close>

declare leaf_loop.simps [simp del] cluster_loop.simps [simp del] PathExpander_next.simps [simp del]

text \<open>The expander works on this query, and its record of the last authorized path is truthful.\<close>

definition works_on :: "('t, 'x, 's) Query \<Rightarrow> 't PathExpander \<Rightarrow> bool" where
  "works_on q self \<longleftrightarrow> px_accessor self = q_accessor q \<and> px_timed self = q_timed q \<and> px_filter self = q_filter q"

definition cache_true :: "('t, 'x, 's) Query \<Rightarrow> Endpoint \<Rightarrow> 't PathExpander \<Rightarrow> bool" where
  "cache_true q ep self \<longleftrightarrow> (\<forall>cl \<in> set (en_clusters ep). \<forall>l.
     px_last_authorized self = Some (en_id ep, cl_id cl, l) \<longrightarrow> leaf_granted q ep cl l)"

text \<open>Endpoints whose cursors fit their type and whose clusters have different identifiers.\<close>

definition endpoint_fits :: "('t, 'x, 's) PathExpansionItem \<Rightarrow> Endpoint \<Rightarrow> bool" where
  "endpoint_fits T ep \<longleftrightarrow> length (en_clusters ep) < 65536 \<and> distinct (map cl_id (en_clusters ep)) \<and>
     (\<forall>cl \<in> set (en_clusters ep). length (cluster_leaves T cl) < 65536)"

lemma cursor_below: "unat (i :: u16) < n \<Longrightarrow> n < 65536 \<Longrightarrow> i \<noteq> 0xFFFF"
  by auto

lemma visit_leaf_wild:
  assumes "works_on q self" "GenericPath_is_wildcard (q_path q)" "px_leaf_index self \<noteq> 0xFFFF"
    "cache_true q ep self" "cl \<in> set (en_clusters ep)"
  shows "visit_leaf (q_T q) (q_fs q) (q_path q) ep cl l self =
    (if leaf_selected q ep cl l
     then (Return (Inr (Some (leaf_tuple q ep cl l))),
           self\<lparr>px_leaf_index := px_leaf_index self + 1, px_last_authorized := Some (en_id ep, cl_id cl, l)\<rparr>)
     else (Scan, self))"
  using assms
  by (cases "leaf_access (q_T q) (q_fs q) (q_accessor q) (q_timed q) ep cl l")
    (auto simp: visit_leaf_def check_leaf_def leaf_selected_def leaf_granted_def works_on_def cache_true_def
      inc_leaf_index_def leaf_tuple_def)

lemma leaf_loop_wild:
  assumes "works_on q self" "GenericPath_is_wildcard (q_path q)" "cache_true q ep self" "cl \<in> set (en_clusters ep)"
    "length (cluster_leaves (q_T q) cl) < 65536"
  shows "(case filter (leaf_selected q ep cl) (drop (unat (px_leaf_index self)) (cluster_leaves (q_T q) cl)) of
      [] \<Rightarrow> \<exists>i. leaf_loop (q_T q) (q_fs q) (q_path q) ep cl self = (Scan, self\<lparr>px_leaf_index := i\<rparr>)
    | l # ls \<Rightarrow> \<exists>i. leaf_loop (q_T q) (q_fs q) (q_path q) ep cl self =
          (Return (Inr (Some (leaf_tuple q ep cl l))),
           self\<lparr>px_leaf_index := i, px_last_authorized := Some (en_id ep, cl_id cl, l)\<rparr>) \<and>
        ls = filter (leaf_selected q ep cl) (drop (unat i) (cluster_leaves (q_T q) cl)))"
  using assms
proof (induction "length (cluster_leaves (q_T q) cl) - unat (px_leaf_index self)" arbitrary: self rule: less_induct)
  case less
  let ?ls = "cluster_leaves (q_T q) cl" and ?i = "unat (px_leaf_index self)"
  show ?case
  proof (cases "?i < length ?ls")
    case False
    then show ?thesis
      by (auto simp: leaf_loop.simps intro: exI [of _ "px_leaf_index self"])
  next
    case True
    then have i: "px_leaf_index self \<noteq> 0xFFFF" using less.prems(5) by (rule cursor_below)
    note visit = visit_leaf_wild [OF less.prems(1,2) i less.prems(3,4), of "?ls ! ?i"]
    have drop: "drop ?i ?ls = ?ls ! ?i # drop (Suc ?i) ?ls" using True by (simp add: Cons_nth_drop_Suc)
    show ?thesis
    proof (cases "leaf_selected q ep cl (?ls ! ?i)")
      case sel: True
      then show ?thesis
        using True i visit
        by (subst leaf_loop.simps) (auto simp: drop unat_inc_u16 intro!: exI [of _ "px_leaf_index self + 1"])
    next
      case sel: False
      let ?self = "self\<lparr>px_leaf_index := px_leaf_index self + 1\<rparr>"
      have "leaf_loop (q_T q) (q_fs q) (q_path q) ep cl self = leaf_loop (q_T q) (q_fs q) (q_path q) ep cl ?self"
        using True i visit sel by (subst leaf_loop.simps) (simp add: inc_leaf_index_def)
      then show ?thesis
        using less.hyps [of ?self] less.prems True sel i
        by (simp add: drop unat_inc_u16 works_on_def cache_true_def diff_less_mono2 split: list.splits)
    qed
  qed
qed

lemma visit_cluster_wild:
  assumes "works_on q self" "GenericPath_is_wildcard (q_path q)" "cache_true q ep self" "cl \<in> set (en_clusters ep)"
    "length (cluster_leaves (q_T q) cl) < 65536"
  shows "(case cluster_part q ep (unat (px_leaf_index self)) cl of
      [] \<Rightarrow> visit_cluster (q_T q) (q_fs q) (q_path q) ep cl self =
          (Scan, self\<lparr>px_leaf_index := if path_has (gp_cluster (q_path q)) (cl_id cl) then 0 else px_leaf_index self\<rparr>)
    | t # ts \<Rightarrow> \<exists>i l. visit_cluster (q_T q) (q_fs q) (q_path q) ep cl self =
          (Return (Inr (Some t)), self\<lparr>px_leaf_index := i, px_last_authorized := Some (en_id ep, cl_id cl, l)\<rparr>) \<and>
        t = leaf_tuple q ep cl l \<and> leaf_granted q ep cl l \<and> path_has (gp_cluster (q_path q)) (cl_id cl) \<and>
        ts = cluster_part q ep (unat i) cl)"
proof (cases "path_has (gp_cluster (q_path q)) (cl_id cl)")
  case True
  show ?thesis
  proof (cases "filter (leaf_selected q ep cl) (drop (unat (px_leaf_index self)) (cluster_leaves (q_T q) cl))")
    case Nil
    then show ?thesis
      using leaf_loop_wild [OF assms] True assms(2) by (auto simp: visit_cluster_def cluster_part_def)
  next
    case (Cons l ls)
    then have "leaf_selected q ep cl l" by (auto simp: filter_eq_Cons_iff)
    then have g: "leaf_granted q ep cl l" by (simp add: leaf_selected_def)
    obtain i where "leaf_loop (q_T q) (q_fs q) (q_path q) ep cl self =
          (Return (Inr (Some (leaf_tuple q ep cl l))),
           self\<lparr>px_leaf_index := i, px_last_authorized := Some (en_id ep, cl_id cl, l)\<rparr>)"
      and "ls = filter (leaf_selected q ep cl) (drop (unat i) (cluster_leaves (q_T q) cl))"
      using leaf_loop_wild [OF assms] Cons by auto
    then show ?thesis
      using True Cons g by (simp add: visit_cluster_def cluster_part_def) blast
  qed
qed (simp add: visit_cluster_def cluster_part_def)

text \<open>A leaf cursor that is not zero belongs to a cluster of the path.\<close>

definition cursor_at :: "('t, 'x, 's) Query \<Rightarrow> Endpoint \<Rightarrow> 't PathExpander \<Rightarrow> bool" where
  "cursor_at q ep self \<longleftrightarrow> px_leaf_index self = 0 \<or>
     unat (px_cluster_index self) < length (en_clusters ep) \<and>
     path_has (gp_cluster (q_path q)) (cl_id (en_clusters ep ! unat (px_cluster_index self)))"

text \<open>What the loops around do when they return a tuple.\<close>

definition stepped :: "('t, 'x, 's) Query \<Rightarrow> Endpoint \<Rightarrow> 't PathExpander \<Rightarrow> (u16 \<times> u32 \<times> u32 \<times> bool) \<Rightarrow> 't PathExpander \<Rightarrow> bool" where
  "stepped q ep self t self' \<longleftrightarrow> same_request self self' \<and> cursor_at q ep self' \<and>
     (\<exists>cl \<in> set (en_clusters ep). \<exists>l. t = leaf_tuple q ep cl l \<and> leaf_granted q ep cl l \<and>
        px_last_authorized self' = Some (en_id ep, cl_id cl, l))"

lemma steppedI:
  "self' = self\<lparr>px_cluster_index := c, px_leaf_index := i, px_last_authorized := Some (en_id ep, cl_id cl, l)\<rparr> \<Longrightarrow>
   unat c < length (en_clusters ep) \<Longrightarrow> path_has (gp_cluster (q_path q)) (cl_id (en_clusters ep ! unat c)) \<Longrightarrow>
   cl \<in> set (en_clusters ep) \<Longrightarrow> leaf_granted q ep cl l \<Longrightarrow> stepped q ep self (leaf_tuple q ep cl l) self'"
  by (auto simp: stepped_def cursor_at_def same_request_def)

lemma cluster_loop_wild:
  assumes "works_on q self" "GenericPath_is_wildcard (q_path q)" "cache_true q ep self" "endpoint_fits (q_T q) ep"
    "cursor_at q ep self"
  shows "(case clusters_part q ep (unat (px_leaf_index self)) (drop (unat (px_cluster_index self)) (en_clusters ep)) of
      [] \<Rightarrow> \<exists>c. cluster_loop (q_T q) (q_fs q) (q_path q) ep self = (Scan, self\<lparr>px_cluster_index := c, px_leaf_index := 0\<rparr>)
    | t # ts \<Rightarrow> \<exists>self'. cluster_loop (q_T q) (q_fs q) (q_path q) ep self = (Return (Inr (Some t)), self') \<and>
        stepped q ep self t self' \<and> px_endpoint_id self' = px_endpoint_id self \<and>
        ts = clusters_part q ep (unat (px_leaf_index self')) (drop (unat (px_cluster_index self')) (en_clusters ep)))"
  using assms
proof (induction "length (en_clusters ep) - unat (px_cluster_index self)" arbitrary: self rule: less_induct)
  case less
  let ?cs = "en_clusters ep" and ?c = "unat (px_cluster_index self)"
  show ?case
  proof (cases "?c < length ?cs")
    case False
    then have "px_leaf_index self = 0" using less.prems(5) by (simp add: cursor_at_def)
    with False show ?thesis
      by (auto simp: cluster_loop.simps intro: exI [of _ "px_cluster_index self"])
  next
    case True
    then have c: "px_cluster_index self \<noteq> 0xFFFF"
      using less.prems(4) by (auto simp: endpoint_fits_def intro: cursor_below)
    let ?cl = "?cs ! ?c"
    have cl: "?cl \<in> set ?cs" and len: "length (cluster_leaves (q_T q) ?cl) < 65536"
      using True less.prems(4) by (auto simp: endpoint_fits_def)
    note visit = visit_cluster_wild [OF less.prems(1-3) cl len]
    have drop: "drop ?c ?cs = ?cl # drop (Suc ?c) ?cs" using True by (simp add: Cons_nth_drop_Suc)
    show ?thesis
    proof (cases "cluster_part q ep (unat (px_leaf_index self)) ?cl")
      case Nil
      let ?self = "self\<lparr>px_leaf_index := 0, px_cluster_index := px_cluster_index self + 1\<rparr>"
      have "path_has (gp_cluster (q_path q)) (cl_id ?cl) \<or> px_leaf_index self = 0"
        using less.prems(5) by (auto simp: cursor_at_def)
      with visit Nil have "visit_cluster (q_T q) (q_fs q) (q_path q) ep ?cl self = (Scan, self\<lparr>px_leaf_index := 0\<rparr>)"
        by auto
      then have "cluster_loop (q_T q) (q_fs q) (q_path q) ep self = cluster_loop (q_T q) (q_fs q) (q_path q) ep ?self"
        using True c by (subst cluster_loop.simps) (simp add: inc_cluster_index_def)
      moreover have "stepped q ep ?self t self' \<longleftrightarrow> stepped q ep self t self'" for t self'
        by (simp add: stepped_def same_request_def)
      ultimately show ?thesis
        using less.hyps [of ?self] less.prems True c Nil
        by (cases "clusters_part q ep 0 (drop (Suc ?c) ?cs)")
          (simp_all add: drop unat_inc_u16 works_on_def cache_true_def cursor_at_def diff_less_mono2)
    next
      case (Cons t ts)
      with visit obtain i l where v: "visit_cluster (q_T q) (q_fs q) (q_path q) ep ?cl self =
          (Return (Inr (Some t)), self\<lparr>px_leaf_index := i, px_last_authorized := Some (en_id ep, cl_id ?cl, l)\<rparr>)"
        and t: "t = leaf_tuple q ep ?cl l" "leaf_granted q ep ?cl l" "path_has (gp_cluster (q_path q)) (cl_id ?cl)"
          "ts = cluster_part q ep (unat i) ?cl"
        by auto
      let ?self = "self\<lparr>px_leaf_index := i, px_last_authorized := Some (en_id ep, cl_id ?cl, l)\<rparr>"
      have "stepped q ep self t ?self"
        unfolding t(1) using True t(2,3) cl by (intro steppedI [where c = "px_cluster_index self" and i = i]) simp_all
      then show ?thesis
        using True v t(4) by (subst cluster_loop.simps) (simp add: drop Cons)
    qed
  qed
qed

lemma visit_endpoint_wild:
  assumes "works_on q self" "GenericPath_is_wildcard (q_path q)" "cache_true q ep self" "endpoint_fits (q_T q) ep"
    "if endpoint_open q ep then cursor_at q ep self else px_cluster_index self = 0 \<and> px_leaf_index self = 0"
  shows "(case endpoint_part q (unat (px_cluster_index self)) (unat (px_leaf_index self)) ep of
      [] \<Rightarrow> visit_endpoint (q_T q) (q_fs q) (q_path q) ep self =
          (Scan, self\<lparr>px_endpoint_id := Some (en_id ep), px_cluster_index := 0, px_leaf_index := 0\<rparr>)
    | t # ts \<Rightarrow> \<exists>self'. visit_endpoint (q_T q) (q_fs q) (q_path q) ep self = (Return (Inr (Some t)), self') \<and>
        stepped q ep self t self' \<and> px_endpoint_id self' = Some (en_id ep) \<and> endpoint_open q ep \<and>
        ts = endpoint_part q (unat (px_cluster_index self')) (unat (px_leaf_index self')) ep)"
proof (cases "endpoint_open q ep")
  case True
  let ?self = "self\<lparr>px_endpoint_id := Some (en_id ep)\<rparr>"
  have "stepped q ep ?self t self' \<longleftrightarrow> stepped q ep self t self'" for t self'
    by (simp add: stepped_def same_request_def)
  with True show ?thesis
    using cluster_loop_wild [of q ?self ep] assms
    by (auto simp: visit_endpoint_def endpoint_part_def endpoint_open_def works_on_def cache_true_def cursor_at_def
        split: list.splits)
next
  case False
  then show ?thesis
    using assms by (auto simp: visit_endpoint_def endpoint_part_def endpoint_open_def works_on_def)
qed

fun endpoints_part :: "('t, 'x, 's) Query \<Rightarrow> nat \<Rightarrow> nat \<Rightarrow> Endpoint list \<Rightarrow> (u16 \<times> u32 \<times> u32 \<times> bool) list list" where
  "endpoints_part q ci li [] = []"
| "endpoints_part q ci li (ep # eps) = endpoint_part q ci li ep # map (endpoint_part q 0 0) eps"

lemma endpoints_part_0: "endpoints_part q 0 0 eps = map (endpoint_part q 0 0) eps"
  by (cases eps) simp_all

definition cursor_on :: "('t, 'x, 's) Query \<Rightarrow> Endpoint \<Rightarrow> 't PathExpander \<Rightarrow> bool" where
  "cursor_on q ep self \<longleftrightarrow>
     (if endpoint_open q ep then cursor_at q ep self else px_cluster_index self = 0 \<and> px_leaf_index self = 0)"

lemma cursor_on_0: "px_cluster_index self = 0 \<Longrightarrow> px_leaf_index self = 0 \<Longrightarrow> cursor_on q ep self"
  by (simp add: cursor_on_def cursor_at_def)

lemma stepped_request:
  "same_request self self1 \<Longrightarrow> stepped q ep self1 t self' \<Longrightarrow> stepped q ep self t self'"
  by (auto simp: stepped_def same_request_def)

text \<open>
  The loop over endpoints either finds every part empty, or stops at the first endpoint whose part is
  not and leaves the cursors on the rest of that part.
\<close>

definition loop_stops :: "('t, 'x, 's) Query \<Rightarrow> Endpoint list \<Rightarrow> 't PathExpander \<Rightarrow> 't PathExpander \<Rightarrow>
    (u16 \<times> u32 \<times> u32 \<times> bool) \<Rightarrow> bool" where
  "loop_stops q eps self self' t \<longleftrightarrow> (\<exists>pre ep post xs.
     eps = pre @ ep # post \<and> stepped q ep self t self' \<and> px_endpoint_id self' = Some (en_id ep) \<and> endpoint_open q ep \<and>
     endpoints_part q (unat (px_cluster_index self)) (unat (px_leaf_index self)) eps =
       replicate (length pre) [] @
       (t # endpoint_part q (unat (px_cluster_index self')) (unat (px_leaf_index self')) ep) # xs)"

lemma endpoint_loop_wild:
  assumes "works_on q self" "GenericPath_is_wildcard (q_path q)"
    "\<forall>ep \<in> set eps. cache_true q ep self \<and> endpoint_fits (q_T q) ep" "eps \<noteq> [] \<longrightarrow> cursor_on q (hd eps) self"
  shows "(\<exists>self'. endpoint_loop (q_T q) (q_fs q) (q_path q) eps self = (Scan, self') \<and>
      px_last_authorized self' = px_last_authorized self \<and>
      (\<forall>xs \<in> set (endpoints_part q (unat (px_cluster_index self)) (unat (px_leaf_index self)) eps). xs = [])) \<or>
    (\<exists>self' t. endpoint_loop (q_T q) (q_fs q) (q_path q) eps self = (Return (Inr (Some t)), self') \<and>
      loop_stops q eps self self' t)"
  using assms
proof (induction eps arbitrary: self)
  case (Cons ep eps)
  let ?part = "endpoint_part q (unat (px_cluster_index self)) (unat (px_leaf_index self)) ep"
  have "cursor_on q ep self" "cache_true q ep self" "endpoint_fits (q_T q) ep" using Cons.prems by auto
  note visit = visit_endpoint_wild [OF Cons.prems(1,2) this(2,3) this(1) [unfolded cursor_on_def]]
  show ?case
  proof (cases ?part)
    case Nil
    let ?self = "self\<lparr>px_endpoint_id := Some (en_id ep), px_cluster_index := 0, px_leaf_index := 0\<rparr>"
    have "same_request self ?self" by (simp add: same_request_def)
    then have stops: "loop_stops q (ep # eps) self self' t" if "loop_stops q eps ?self self' t" for self' t
    proof -
      from that obtain pre e post xs where *: "eps = pre @ e # post" "stepped q e ?self t self'"
          "px_endpoint_id self' = Some (en_id e)" "endpoint_open q e"
          "endpoints_part q 0 0 eps = replicate (length pre) [] @
             (t # endpoint_part q (unat (px_cluster_index self')) (unat (px_leaf_index self')) e) # xs"
        by (auto simp: loop_stops_def)
      then show ?thesis
        unfolding loop_stops_def using Nil stepped_request [OF \<open>same_request self ?self\<close> *(2)]
        by (intro exI [of _ "ep # pre"] exI [of _ e] exI [of _ post] exI [of _ xs]) (simp add: endpoints_part_0)
    qed
    have "endpoint_loop (q_T q) (q_fs q) (q_path q) (ep # eps) self = endpoint_loop (q_T q) (q_fs q) (q_path q) eps ?self"
      using visit Nil by simp
    then show ?thesis
      using Cons.IH [of ?self] Cons.prems stops Nil
      by (auto simp: works_on_def cache_true_def cursor_on_0 endpoints_part_0)
  next
    case (Cons t ts)
    with visit obtain self' where "visit_endpoint (q_T q) (q_fs q) (q_path q) ep self = (Return (Inr (Some t)), self')"
        and *: "stepped q ep self t self'" "px_endpoint_id self' = Some (en_id ep)" "endpoint_open q ep"
          "ts = endpoint_part q (unat (px_cluster_index self')) (unat (px_leaf_index self')) ep"
      by auto
    moreover have "loop_stops q (ep # eps) self self' t"
      unfolding loop_stops_def using * Cons
      by (intro exI [of _ "[]"] exI [of _ ep] exI [of _ eps] exI [of _ "map (endpoint_part q 0 0) eps"]) simp
    ultimately show ?thesis by auto
  qed
qed simp

text \<open>What is left of an endpoint for an expander that is anchored at an identifier.\<close>

definition endpoint_left :: "('t, 'x, 's) Query \<Rightarrow> 't PathExpander \<Rightarrow> Endpoint \<Rightarrow> (u16 \<times> u32 \<times> u32 \<times> bool) list" where
  "endpoint_left q self ep = (case px_endpoint_id self of
     None \<Rightarrow> endpoint_part q 0 0 ep
   | Some e \<Rightarrow>
       if en_id ep = e then endpoint_part q (unat (px_cluster_index self)) (unat (px_leaf_index self)) ep
       else if e < en_id ep then endpoint_part q 0 0 ep else [])"

definition expander_inv :: "('t, 'x, 's) Query \<Rightarrow> Endpoint set \<Rightarrow> 't PathExpander \<Rightarrow> bool" where
  "expander_inv q U self \<longleftrightarrow> works_on q self \<and> (\<forall>ep \<in> U. cache_true q ep self) \<and>
     (case px_endpoint_id self of
        None \<Rightarrow> px_cluster_index self = 0 \<and> px_leaf_index self = 0
      | Some e \<Rightarrow> \<forall>ep \<in> U. en_id ep = e \<longrightarrow> cursor_on q ep self)"

lemma resume_split:
  assumes sorted: "endpoints_sorted (no_endpoints node)" and inv: "expander_inv q U self"
    and U: "set (no_endpoints node) \<subseteq> U"
  obtains xs rest self' where "resume_endpoint_index node self = (Some (length xs), self')"
    "no_endpoints node = xs @ rest" "\<forall>x \<in> set xs. endpoint_left q self x = []"
    "\<forall>x \<in> set rest. \<forall>e. px_endpoint_id self = Some e \<longrightarrow> e \<le> en_id x"
    "map (endpoint_left q self) rest =
       endpoints_part q (unat (px_cluster_index self')) (unat (px_leaf_index self')) rest"
    "same_request self self'" "px_last_authorized self' = px_last_authorized self"
    "rest \<noteq> [] \<longrightarrow> cursor_on q (hd rest) self'"
proof (cases "px_endpoint_id self")
  case None
  then show thesis
    using inv by (intro that [of "[]" self "no_endpoints node"])
      (auto simp: resume_endpoint_index_def expander_inv_def endpoint_left_def fun_eq_iff endpoints_part_0 cursor_on_0)
next
  case (Some e)
  let ?self = "self\<lparr>px_cluster_index := 0, px_leaf_index := 0, px_endpoint_id := None\<rparr>"
  have srt: "sorted_wrt (<) (map en_id (no_endpoints node))" using sorted by (simp add: endpoints_sorted_def)
  from sorted show thesis
  proof (cases rule: position_geE [of _ e])
    case none
    then show thesis
      using Some srt by (intro that [of "no_endpoints node" ?self "[]"])
        (auto simp: resume_endpoint_index_def binary_search_by_key_def endpoint_left_def same_request_def)
  next
    case (some xs y ys)
    have left: "\<forall>x \<in> set xs. endpoint_left q self x = []" "map (endpoint_left q self) ys = map (endpoint_part q 0 0) ys"
      using some Some by (auto simp: endpoint_left_def)
    have order: "\<forall>x \<in> set (y # ys). \<forall>e'. px_endpoint_id self = Some e' \<longrightarrow> e' \<le> en_id x"
      using some Some by auto
    show thesis
    proof (cases "en_id y = e")
      case True
      moreover have "cursor_on q y self" using inv U some(1) Some True by (auto simp: expander_inv_def)
      ultimately show thesis
        using some Some left order srt by (intro that [of xs self "y # ys"])
          (auto simp: resume_endpoint_index_def binary_search_by_key_def endpoint_left_def nth_append)
    next
      case False
      then show thesis
        using some Some left order srt by (intro that [of xs ?self "y # ys"])
          (auto simp: resume_endpoint_index_def binary_search_by_key_def endpoint_left_def nth_append same_request_def
            intro: cursor_on_0)
    qed
  qed
qed

text \<open>A record made after a check that succeeded keeps the record truthful.\<close>

definition endpoints_fit :: "('t, 'x, 's) PathExpansionItem \<Rightarrow> Endpoint set \<Rightarrow> bool" where
  "endpoints_fit T U \<longleftrightarrow> inj_on en_id U \<and> (\<forall>ep \<in> U. endpoint_fits T ep)"

definition recorded :: "('t, 'x, 's) Query \<Rightarrow> Endpoint set \<Rightarrow> 't PathExpander \<Rightarrow> 't PathExpander \<Rightarrow> bool" where
  "recorded q U self self' \<longleftrightarrow> px_last_authorized self' = px_last_authorized self \<or>
     (\<exists>ep \<in> U. \<exists>cl \<in> set (en_clusters ep). \<exists>l. leaf_granted q ep cl l \<and>
        px_last_authorized self' = Some (en_id ep, cl_id cl, l))"

lemma cache_true_recorded:
  assumes "endpoints_fit (q_T q) U" "recorded q U self self'" "\<forall>ep \<in> U. cache_true q ep self"
  shows "\<forall>ep \<in> U. cache_true q ep self'"
proof (cases "px_last_authorized self' = px_last_authorized self")
  case True
  then show ?thesis using assms(3) by (simp add: cache_true_def)
next
  case False
  then obtain ep cl l where *: "ep \<in> U" "cl \<in> set (en_clusters ep)" "leaf_granted q ep cl l"
      "px_last_authorized self' = Some (en_id ep, cl_id cl, l)"
    using assms(2) by (auto simp: recorded_def)
  have ep: "ep' = ep" if "ep' \<in> U" "en_id ep' = en_id ep" for ep'
    using assms(1) that *(1) by (auto simp: endpoints_fit_def dest: inj_onD)
  have "inj_on cl_id (set (en_clusters ep))"
    using assms(1) *(1) by (simp add: endpoints_fit_def endpoint_fits_def distinct_map)
  then have "cl' = cl" if "cl' \<in> set (en_clusters ep)" "cl_id cl' = cl_id cl" for cl'
    using that *(2) by (auto dest: inj_onD)
  with ep * show ?thesis unfolding cache_true_def by (metis Pair_inject option.inject)
qed

lemma stepped_recorded: "stepped q ep self t self' \<Longrightarrow> ep \<in> U \<Longrightarrow> recorded q U self self'"
  by (auto simp: stepped_def recorded_def)

definition step_yields :: "('t, 'x, 's) Query \<Rightarrow> Endpoint set \<Rightarrow> Endpoint list \<Rightarrow> 't PathExpander \<Rightarrow> 't PathExpander \<Rightarrow>
    (u16 \<times> u32 \<times> u32 \<times> bool) \<Rightarrow> bool" where
  "step_yields q U eps self self' t \<longleftrightarrow> expander_inv q U self' \<and> same_request self self' \<and> (\<exists>ep \<in> set eps.
     px_endpoint_id self' = Some (en_id ep) \<and> endpoint_left q self ep = t # endpoint_left q self' ep \<and>
     (\<forall>ep' \<in> set eps. en_id ep' < en_id ep \<longrightarrow> endpoint_left q self ep' = []) \<and>
     (\<forall>e. px_endpoint_id self = Some e \<longrightarrow> e \<le> en_id ep))"

definition wildcard_served :: "('t, 'x, 's) Query \<Rightarrow> bool" where
  "wildcard_served q \<longleftrightarrow> GenericPath_is_wildcard (q_path q) \<and>
     (is_attr_read (q_T q) \<or> gp_cluster (q_path q) \<noteq> None \<and> gp_leaf (q_path q) \<noteq> None)"

lemma works_on_request: "same_request self self' \<Longrightarrow> works_on q self' = works_on q self"
  by (simp add: works_on_def same_request_def)

lemma cache_true_same: "px_last_authorized self' = px_last_authorized self \<Longrightarrow> cache_true q ep self' = cache_true q ep self"
  by (simp add: cache_true_def)

lemma map_split_replicate:
  "map f (pre @ ep # post) = replicate (length pre) y @ x # xs \<Longrightarrow> (\<forall>p \<in> set pre. f p = y) \<and> f ep = x"
  by (induction pre) auto

lemma next_for_path_wild:
  assumes q: "wildcard_served q" and item: "px_item self = Some it" "q_path q = pi_path (q_T q) it"
    and node: "endpoints_sorted (no_endpoints node)" "set (no_endpoints node) \<subseteq> U" "endpoints_fit (q_T q) U"
    and inv: "expander_inv q U self"
  shows "(\<exists>self'. next_for_path (q_T q) (q_fs q) node self = (Some (Inr None), self') \<and> same_request self self' \<and>
      px_last_authorized self' = px_last_authorized self \<and>
      (\<forall>ep \<in> set (no_endpoints node). endpoint_left q self ep = [])) \<or>
    (\<exists>self' t. next_for_path (q_T q) (q_fs q) node self = (Some (Inr (Some t)), self') \<and>
      step_yields q U (no_endpoints node) self self' t)"
proof -
  let ?T = "q_T q" and ?fs = "q_fs q"
  obtain xs rest self1 where res: "resume_endpoint_index node self = (Some (length xs), self1)"
      "no_endpoints node = xs @ rest" "\<forall>x \<in> set xs. endpoint_left q self x = []"
      "\<forall>x \<in> set rest. \<forall>e. px_endpoint_id self = Some e \<longrightarrow> e \<le> en_id x"
      "map (endpoint_left q self) rest =
         endpoints_part q (unat (px_cluster_index self1)) (unat (px_leaf_index self1)) rest"
      "same_request self self1" "px_last_authorized self1 = px_last_authorized self"
      "rest \<noteq> [] \<longrightarrow> cursor_on q (hd rest) self1"
    by (rule resume_split [OF node(1) inv node(2)])
  have w: "works_on q self1" "GenericPath_is_wildcard (q_path q)"
      "\<forall>ep \<in> set rest. cache_true q ep self1 \<and> endpoint_fits ?T ep"
    using inv q node(2,3) res(2)
    by (auto simp: expander_inv_def wildcard_served_def endpoints_fit_def works_on_request [OF res(6)]
        cache_true_same [OF res(7)])
  obtain f self2 where loop: "endpoint_loop ?T ?fs (q_path q) rest self1 = (f, self2)" by fastforce
  have eval: "next_for_path ?T ?fs node self = (case f of
      Abort \<Rightarrow> (None, self2) | Return r \<Rightarrow> (Some r, self2) | Scan \<Rightarrow> (Some (Inr None), self2))"
    using q item loop res(1,2) by (auto simp: next_for_path_def wildcard_served_def Let_def)
  have req: "same_request self self2"
    using same_request_trans [OF res(6) endpoint_loop_frame, of ?T ?fs "q_path q" rest] loop by simp
  from endpoint_loop_wild [OF w res(8)] show ?thesis
  proof (elim disjE exE conjE)
    fix self' assume "endpoint_loop ?T ?fs (q_path q) rest self1 = (Scan, self')"
      "px_last_authorized self' = px_last_authorized self1"
      and parts: "\<forall>xs \<in> set (endpoints_part q (unat (px_cluster_index self1)) (unat (px_leaf_index self1)) rest). xs = []"
    moreover have "\<forall>ep \<in> set rest. endpoint_left q self ep = []"
      using parts unfolding res(5) [symmetric] by auto
    ultimately show ?thesis
      using loop eval req res(2,3,7) by auto
  next
    fix self' t assume ret: "endpoint_loop ?T ?fs (q_path q) rest self1 = (Return (Inr (Some t)), self')"
      and stops: "loop_stops q rest self1 self' t"
    from stops obtain pre ep post ys where stop: "rest = pre @ ep # post" "stepped q ep self1 t self'"
        "px_endpoint_id self' = Some (en_id ep)" "endpoint_open q ep"
        "map (endpoint_left q self) rest = replicate (length pre) [] @
           (t # endpoint_part q (unat (px_cluster_index self')) (unat (px_leaf_index self')) ep) # ys"
      unfolding loop_stops_def res(5) by blast
    have left: "\<forall>p \<in> set pre. endpoint_left q self p = []" "endpoint_left q self ep = t # endpoint_left q self' ep"
      using map_split_replicate [OF stop(5) [unfolded stop(1)]] stop(3) by (auto simp: endpoint_left_def)
    have ep: "ep \<in> U" using stop(1) res(2) node(2) by auto
    have "\<forall>ep \<in> U. cache_true q ep self1"
      using inv by (simp add: expander_inv_def cache_true_same [OF res(7)])
    then have "\<forall>ep \<in> U. cache_true q ep self'"
      by (rule cache_true_recorded [OF node(3) stepped_recorded [OF stop(2) ep]])
    moreover have "works_on q self'" using w(1) stop(2) works_on_request by (auto simp: stepped_def)
    moreover have "ep' = ep" if "ep' \<in> U" "en_id ep' = en_id ep" for ep'
      using node(3) that ep by (auto simp: endpoints_fit_def dest: inj_onD)
    ultimately have inv': "expander_inv q U self'"
      using stop(2-4) by (auto simp: expander_inv_def cursor_on_def stepped_def)
    have "\<forall>ep' \<in> set (no_endpoints node). en_id ep' < en_id ep \<longrightarrow> endpoint_left q self ep' = []"
      using node(1) left(1) res(2,3) stop(1) by (auto simp: endpoints_sorted_append endpoints_sorted_Cons)
    then have "step_yields q U (no_endpoints node) self self' t"
      unfolding step_yields_def using inv' req loop ret left(2) stop(1,3) res(2,4) by auto
    moreover have "next_for_path ?T ?fs node self = (Some (Inr (Some t)), self')" using eval loop ret by auto
    ultimately show ?thesis by blast
  qed
qed

subsection \<open>Endpoints that come and go\<close>

definition left_over :: "('t, 'x, 's) Query \<Rightarrow> 't PathExpander \<Rightarrow> Endpoint list \<Rightarrow> (u16 \<times> u32 \<times> u32 \<times> bool) list" where
  "left_over q self eps = concat (map (endpoint_left q self) eps)"

lemma left_over_simps [simp]:
  "left_over q self [] = []" "left_over q self (xs @ ys) = left_over q self xs @ left_over q self ys"
  "left_over q self (x # xs) = endpoint_left q self x @ left_over q self xs"
  by (simp_all add: left_over_def)

lemma left_over_start: "px_endpoint_id self = None \<Longrightarrow> left_over q self eps = node_expansion q eps"
  by (simp add: left_over_def node_expansion_def endpoint_left_def cong: map_cong)

lemma left_over_before: "px_endpoint_id self = Some e \<Longrightarrow> \<forall>x \<in> set xs. en_id x < e \<Longrightarrow> left_over q self xs = []"
  by (auto simp: left_over_def endpoint_left_def)

text \<open>Past the endpoint of the step nothing has been touched before and after it.\<close>

lemma left_over_after:
  assumes "\<forall>e. px_endpoint_id self = Some e \<longrightarrow> e \<le> i" "px_endpoint_id self' = Some i" "\<forall>x \<in> set xs. i < en_id x"
  shows "left_over q self xs = left_over q self' xs"
proof -
  have "endpoint_left q self x = endpoint_left q self' x" if "x \<in> set xs" for x
    using assms that by (fastforce simp: endpoint_left_def split: option.splits)
  then show ?thesis by (simp add: left_over_def cong: map_cong)
qed

lemma sorted_partition:
  assumes "endpoints_sorted L"
  obtains xs m ys where "L = xs @ m @ ys" "\<forall>x \<in> set xs. en_id x < i" "\<forall>x \<in> set ys. i < en_id x"
    "m = [] \<or> (\<exists>y. m = [y] \<and> en_id y = i)"
  using assms
proof (cases rule: position_geE [of _ i])
  case none
  then show thesis using that [of L "[]" "[]"] by simp
next
  case (some xs y ys)
  then show thesis
    using that [of xs "[y]" ys] that [of xs "[]" "y # ys"] by (cases "en_id y = i") auto
qed

lemma step_left_over:
  assumes step: "step_yields q U eps self self' t" and L: "endpoints_sorted L" "set L \<subseteq> U" and eps: "set eps \<subseteq> U"
    and U: "inj_on en_id U"
  shows "set eps \<subseteq> set L \<Longrightarrow> \<exists>pre. left_over q self L = pre @ t # left_over q self' L"
    and "set L \<subseteq> set eps \<Longrightarrow> left_over q self L = left_over q self' L \<or> left_over q self L = t # left_over q self' L"
proof -
  from step obtain ep where ep: "ep \<in> set eps" "px_endpoint_id self' = Some (en_id ep)"
      "endpoint_left q self ep = t # endpoint_left q self' ep"
      "\<forall>ep' \<in> set eps. en_id ep' < en_id ep \<longrightarrow> endpoint_left q self ep' = []"
      "\<forall>e. px_endpoint_id self = Some e \<longrightarrow> e \<le> en_id ep"
    by (auto simp: step_yields_def)
  obtain xs m ys where m: "L = xs @ m @ ys" "\<forall>x \<in> set xs. en_id x < en_id ep" "\<forall>x \<in> set ys. en_id ep < en_id x"
      "m = [] \<or> (\<exists>y. m = [y] \<and> en_id y = en_id ep)"
    by (rule sorted_partition [OF L(1), of "en_id ep"])
  have m': "m = [] \<or> m = [ep]" using m(1,4) L(2) eps ep(1) U by (auto dest!: inj_onD)
  have xs: "left_over q self' xs = []" by (rule left_over_before [OF ep(2) m(2)])
  have ys: "left_over q self ys = left_over q self' ys" by (rule left_over_after [OF ep(5,2) m(3)])
  show "\<exists>pre. left_over q self L = pre @ t # left_over q self' L" if "set eps \<subseteq> set L"
  proof -
    have "m = [ep]" using that ep(1) m(1-3) m' by auto
    then show ?thesis using m(1) xs ys ep(3) by (intro exI [of _ "left_over q self xs"]) simp
  qed
  show "left_over q self L = left_over q self' L \<or> left_over q self L = t # left_over q self' L" if "set L \<subseteq> set eps"
  proof -
    have "left_over q self xs = []" using that m(1,2) ep(4) by (auto simp: left_over_def)
    then show ?thesis using m(1) m' xs ys ep(3) by auto
  qed
qed

text \<open>Calling \<^verbatim>\<open>next\<close> once for each of a sequence of nodes.\<close>

fun expander_outputs ::
    "('t, 'x, 's) PathExpansionItem \<Rightarrow> Fabrics \<Rightarrow> Node list \<Rightarrow> 't PathExpander \<Rightarrow> ('x, 's) expansion option list" where
  "expander_outputs T fs [] self = []"
| "expander_outputs T fs (node # nodes) self =
     (case PathExpander_next T fs node self of (r, self') \<Rightarrow> r # expander_outputs T fs nodes self')"

lemma length_expander_outputs: "length (expander_outputs T fs nodes self) = length nodes"
  by (induction nodes arbitrary: self) (auto split: prod.splits)

definition expanded :: "('t, 'x, 's) Query \<Rightarrow> 't \<Rightarrow> u16 \<times> u32 \<times> u32 \<times> bool \<Rightarrow> ('x, 's) expansion" where
  "expanded q item = (\<lambda>(e, c, l, array). res_bind (pi_expand (q_T q) (q_accessor q) e c l array item) (\<lambda>x. Ok (Inr x)))"

lemma next_exhausted:
  "px_item self = None \<Longrightarrow> px_items self = Some [] \<Longrightarrow> PathExpander_next T fs node self = (None, self)"
  by (simp add: PathExpander_next.simps fetch_item_def)

lemma next_fetch:
  fixes T :: "('t, 'x, 's) PathExpansionItem"
  assumes "(fetch_item self1 :: ('x, 's) expansion option option \<times> 't PathExpander) = fetch_item self2"
  shows "PathExpander_next T fs node self1 = PathExpander_next T fs node self2"
  unfolding PathExpander_next.simps [of T fs node self1] PathExpander_next.simps [of T fs node self2] assms ..

lemma next_wild:
  assumes q: "wildcard_served q" and item: "px_item self = Some it" "q_path q = pi_path (q_T q) it"
    and node: "endpoints_sorted (no_endpoints node)" "set (no_endpoints node) \<subseteq> U" "endpoints_fit (q_T q) U"
    and inv: "expander_inv q U self"
  shows "(\<exists>self'. PathExpander_next (q_T q) (q_fs q) node self =
        PathExpander_next (q_T q) (q_fs q) node (self'\<lparr>px_item := None\<rparr>) \<and> same_request self self' \<and>
      px_last_authorized self' = px_last_authorized self \<and>
      (\<forall>ep \<in> set (no_endpoints node). endpoint_left q self ep = [])) \<or>
    (\<exists>self' t. PathExpander_next (q_T q) (q_fs q) node self = (Some (expanded q it t), self') \<and>
      step_yields q U (no_endpoints node) self self' t)"
  using next_for_path_wild [OF assms]
proof (elim disjE exE conjE)
  fix self' assume "next_for_path (q_T q) (q_fs q) node self = (Some (Inr None), self')" "same_request self self'"
    "px_last_authorized self' = px_last_authorized self" "\<forall>ep \<in> set (no_endpoints node). endpoint_left q self ep = []"
  then show ?thesis
    using item by (intro disjI1 exI [of _ self'], subst PathExpander_next.simps) (simp add: fetch_item_def)
next
  fix self' t assume step: "next_for_path (q_T q) (q_fs q) node self = (Some (Inr (Some t)), self')"
    "step_yields q U (no_endpoints node) self self' t"
  then have "px_accessor self' = q_accessor q" by (simp add: step_yields_def expander_inv_def works_on_def)
  then have "PathExpander_next (q_T q) (q_fs q) node self = (Some (expanded q it t), self')"
    using step(1) item q
    by (cases t) (simp add: PathExpander_next.simps [of _ _ _ self] fetch_item_def expanded_def wildcard_served_def)
  with step(2) show ?thesis by blast
qed

definition query ::
    "('t, 'x, 's) PathExpansionItem \<Rightarrow> Fabrics \<Rightarrow> Accessor \<Rightarrow> bool \<Rightarrow> (u16 \<Rightarrow> u32 \<Rightarrow> u32 \<Rightarrow> bool) \<Rightarrow> 't \<Rightarrow>
     ('t, 'x, 's) Query" where
  "query T fs a timed flt item =
     \<lparr>q_T = T, q_fs = fs, q_accessor = a, q_timed = timed, q_filter = flt, q_path = pi_path T item\<rparr>"

lemma query_simps [simp]:
  "q_T (query T fs a timed flt item) = T" "q_fs (query T fs a timed flt item) = fs"
  "q_accessor (query T fs a timed flt item) = a" "q_path (query T fs a timed flt item) = pi_path T item"
  "q_timed (query T fs a timed flt item) = timed" "q_filter (query T fs a timed flt item) = flt"
  by (simp_all add: query_def)

text \<open>Every node has the endpoints of \<open>E\<close> and no others than those of \<open>V\<close>.\<close>

definition nodes_between :: "Endpoint list \<Rightarrow> Endpoint list \<Rightarrow> Node list \<Rightarrow> bool" where
  "nodes_between E V nodes \<longleftrightarrow> endpoints_sorted E \<and> endpoints_sorted V \<and> (\<forall>node \<in> set nodes.
     endpoints_sorted (no_endpoints node) \<and> set E \<subseteq> set (no_endpoints node) \<and> set (no_endpoints node) \<subseteq> set V)"

lemma endpoints_sorted_inj: "endpoints_sorted V \<Longrightarrow> inj_on en_id (set V)"
  by (simp add: endpoints_sorted_def strict_sorted_iff distinct_map)

lemma outputs_exhausted:
  "px_item self = None \<Longrightarrow> px_items self = Some [] \<Longrightarrow> set (expander_outputs T fs nodes self) \<subseteq> {None}"
  by (induction nodes) (auto simp: next_exhausted)

lemma outputs_wild:
  assumes q: "wildcard_served q" "q_path q = pi_path (q_T q) it" and fit: "endpoints_fit (q_T q) (set V)"
    and "nodes_between E V nodes" "px_item self = Some it" "px_items self = Some []" "expander_inv q (set V) self"
  shows "\<exists>ts. takeWhile (\<lambda>r. r \<noteq> None) (expander_outputs (q_T q) (q_fs q) nodes self) = map (Some \<circ> expanded q it) ts \<and>
    subseq ts (left_over q self V) \<and>
    (None \<in> set (expander_outputs (q_T q) (q_fs q) nodes self) \<longrightarrow> subseq (left_over q self E) ts)"
  using assms(4-)
proof (induction nodes arbitrary: self)
  case Nil
  then show ?case by (auto intro: exI [of _ "[]"])
next
  case (Cons node nodes)
  let ?T = "q_T q" and ?fs = "q_fs q" and ?eps = "no_endpoints node"
  have node: "endpoints_sorted ?eps" "set E \<subseteq> set ?eps" "set ?eps \<subseteq> set V" "endpoints_sorted E" "endpoints_sorted V"
    and between: "nodes_between E V nodes"
    using Cons.prems(1) by (auto simp: nodes_between_def)
  from next_wild [OF q(1) Cons.prems(2) q(2) node(1,3) fit Cons.prems(4)] show ?case
  proof (elim disjE exE conjE)
    fix self' assume "PathExpander_next ?T ?fs node self = PathExpander_next ?T ?fs node (self'\<lparr>px_item := None\<rparr>)"
      "same_request self self'" and empty: "\<forall>ep \<in> set ?eps. endpoint_left q self ep = []"
    then have "PathExpander_next ?T ?fs node self = (None, self'\<lparr>px_item := None\<rparr>)"
      using Cons.prems(3) by (simp add: next_exhausted same_request_def)
    moreover have "left_over q self E = []" using empty node(2) by (auto simp: left_over_def)
    ultimately show ?thesis by (auto intro: exI [of _ "[]"])
  next
    fix self' t assume eval: "PathExpander_next ?T ?fs node self = (Some (expanded q it t), self')"
      and step: "step_yields q (set V) ?eps self self' t"
    then have "px_item self' = Some it" "px_items self' = Some []" "expander_inv q (set V) self'"
      using Cons.prems(2,3) by (simp_all add: step_yields_def same_request_def)
    with Cons.IH [OF between] obtain ts where
      ts: "takeWhile (\<lambda>r. r \<noteq> None) (expander_outputs ?T ?fs nodes self') = map (Some \<circ> expanded q it) ts"
        "subseq ts (left_over q self' V)"
        "None \<in> set (expander_outputs ?T ?fs nodes self') \<longrightarrow> subseq (left_over q self' E) ts"
      by blast
    note inj = endpoints_sorted_inj [OF node(5)]
    obtain pre where V: "left_over q self V = pre @ t # left_over q self' V"
      using step_left_over(1) [OF step node(5) _ node(3) inj] node(3) by auto
    have E: "left_over q self E = left_over q self' E \<or> left_over q self E = t # left_over q self' E"
      using step_left_over(2) [OF step node(4) _ node(3) inj] node(2,3) by auto
    have "subseq (t # ts) (left_over q self V)" unfolding V using ts(2) by (simp add: list_emb_append2)
    moreover have "subseq (left_over q self E) (t # ts)" if "None \<in> set (expander_outputs ?T ?fs nodes self')"
      using E ts(3) that by auto
    ultimately show ?thesis
      using ts(1) eval by (intro exI [of _ "t # ts"]) auto
  qed
qed

text \<open>The outputs for nodes with endpoints between two lists.\<close>

lemma outputs_between:
  assumes "nodes_between E V nodes" "\<forall>ep \<in> set V. endpoint_fits T ep" "wildcard_served (query T fs a timed flt item)"
  shows "\<exists>ts. takeWhile (\<lambda>r. r \<noteq> None) (expander_outputs T fs nodes (PathExpander_new a timed (Some [Ok item]) flt)) =
      map (Some \<circ> expanded (query T fs a timed flt item) item) ts \<and>
    subseq ts (node_expansion (query T fs a timed flt item) V) \<and>
    (None \<in> set (expander_outputs T fs nodes (PathExpander_new a timed (Some [Ok item]) flt)) \<longrightarrow>
       subseq (node_expansion (query T fs a timed flt item) E) ts) \<and>
    (length (node_expansion (query T fs a timed flt item) V) < length nodes \<longrightarrow>
       None \<in> set (expander_outputs T fs nodes (PathExpander_new a timed (Some [Ok item]) flt)))"
proof -
  let ?q = "query T fs a timed flt item" and ?new = "PathExpander_new a timed (Some [Ok item]) flt"
  let ?self = "?new\<lparr>px_items := Some [], px_item := Some item\<rparr>" and ?outs = "expander_outputs T fs nodes ?new"
  have "PathExpander_next T fs node ?new = PathExpander_next T fs node ?self" for node
    by (rule next_fetch) (simp add: fetch_item_def PathExpander_new_def)
  then have outs: "?outs = expander_outputs T fs nodes ?self" by (cases nodes) simp_all
  have "endpoints_fit T (set V)"
    using assms(1,2) endpoints_sorted_inj by (auto simp: endpoints_fit_def nodes_between_def)
  moreover have "expander_inv ?q (set V) ?self"
    by (simp add: expander_inv_def works_on_def cache_true_def PathExpander_new_def)
  ultimately obtain ts where ts: "takeWhile (\<lambda>r. r \<noteq> None) ?outs = map (Some \<circ> expanded ?q item) ts"
      "subseq ts (left_over ?q ?self V)" "None \<in> set ?outs \<longrightarrow> subseq (left_over ?q ?self E) ts"
    using outputs_wild [OF assms(3) _ _ assms(1), of item ?self] unfolding outs by auto
  have start: "left_over ?q ?self L = node_expansion ?q L" for L
    by (rule left_over_start) (simp add: PathExpander_new_def)
  have "length ts = length nodes" if "None \<notin> set ?outs"
  proof -
    have "takeWhile (\<lambda>r. r \<noteq> None) ?outs = ?outs"
      unfolding takeWhile_eq_all_conv using that by (intro ballI notI) simp
    then have "length ts = length ?outs" unfolding ts(1) by (metis length_map)
    then show ?thesis by (simp only: length_expander_outputs)
  qed
  then have "length (node_expansion ?q V) < length nodes \<longrightarrow> None \<in> set ?outs"
    using list_emb_length [OF ts(2)] unfolding start by fastforce
  with ts show ?thesis unfolding start by blast
qed

text \<open>Claim C19: while one wildcard path is expanded, endpoints may be added and removed between any two calls, as
  long as an endpoint keeps its shape. What the iterator yields then is a subsequence of the reference
  expansion of all endpoints that ever existed, so nothing is reported twice, out of order or without
  access; when it ends it has yielded everything of the endpoints that existed throughout; and it ends
  after at most one more call than there is to report.\<close>

theorem expansion_interference:
  assumes "nodes_between E V nodes" "\<forall>ep \<in> set V. endpoint_fits T ep" "wildcard_served (query T fs a timed flt item)"
  shows "\<exists>ts. takeWhile (\<lambda>r. r \<noteq> None) (expander_outputs T fs nodes (PathExpander_new a timed (Some [Ok item]) flt)) =
      map (Some \<circ> expanded (query T fs a timed flt item) item) ts \<and>
    subseq ts (node_expansion (query T fs a timed flt item) V) \<and>
    (None \<in> set (expander_outputs T fs nodes (PathExpander_new a timed (Some [Ok item]) flt)) \<longrightarrow>
       subseq (node_expansion (query T fs a timed flt item) E) ts) \<and>
    (length (node_expansion (query T fs a timed flt item) V) < length nodes \<longrightarrow>
       None \<in> set (expander_outputs T fs nodes (PathExpander_new a timed (Some [Ok item]) flt)))"
  by (rule outputs_between [OF assms])

text \<open>A small device: two endpoints with one cluster and one readable attribute each.\<close>

definition demo_cluster :: Cluster where
  "demo_cluster = Cluster_new 6 1 0 [Attribute_new 0 Access_RV Quality_NONE] [] [] (\<lambda>_ _ _. True) (\<lambda>_ _ _. True) (\<lambda>_ _ _. True)"

definition demo_endpoint :: "u16 \<Rightarrow> Endpoint" where
  "demo_endpoint i = Endpoint_new i [] [demo_cluster]"

definition demo_read :: AttrReadPath where
  "demo_read = \<lparr>rp_path = AttrPath_from_gp (GenericPath_new None (Some 6) None), rp_dataver_filters = None,
     rp_fabric_filtered = True\<rparr>"

definition pase_accessor :: Accessor where
  "pase_accessor = Accessor_new 0 (AccessorSubjects_new 1) (Some AuthPase)"

lemmas demo_defs = demo_cluster_def demo_endpoint_def demo_read_def pase_accessor_def Cluster_new_def Attribute_new_def
  Endpoint_new_def Accessor_new_def AttrReadPath_item_def AttrPath_to_gp_def AttrPath_from_gp_def GenericPath_new_def

lemma demo_simps [simp]:
  "en_id (demo_endpoint i) = i" "en_clusters (demo_endpoint i) = [demo_cluster]" "cl_id demo_cluster = 6"
  "cluster_leaves AttrReadPath_item demo_cluster = [0]" "ac_auth_mode pase_accessor = Some AuthPase"
  by (simp_all add: demo_defs cluster_leaves_def is_invoke_def Cluster_attributes_def)

lemma demo_path:
  "pi_path AttrReadPath_item demo_read = GenericPath_new None (Some 6) None" "is_attr_read AttrReadPath_item"
  by (simp_all add: demo_defs is_attr_read_def)

lemma demo_granted:
  "leaf_access AttrReadPath_item fs pase_accessor False (demo_endpoint i) demo_cluster 0 = Inr ()"
  by (simp add: leaf_access_def is_invoke_def is_attr_read_def Cluster_check_attr_access_def access_of_def demo_defs
      AccessReq_new_with_device_types_def AccessReq_set_target_perms_def Fabrics_allow_def access_contains_def
      Access_RV_def READ_def NEED_VIEW_def)

lemma demo_expansion:
  "node_expansion (query AttrReadPath_item fs pase_accessor False (\<lambda>_ _ _. True) demo_read) (map demo_endpoint is) =
     map (\<lambda>i. (i, 6, 0, False)) is"
proof -
  have "leaf_is_array AttrReadPath_item demo_cluster 0 = False"
    by (simp add: leaf_is_array_def demo_defs is_invoke_def Cluster_attribute_def Cluster_attributes_def
        flags_contains_def Quality_NONE_def Quality_ARRAY_def)
  then have "endpoint_part (query AttrReadPath_item fs pase_accessor False (\<lambda>_ _ _. True) demo_read) 0 0 (demo_endpoint i) =
      [(i, 6, 0, False)]" for i
    by (simp add: endpoint_part_def endpoint_open_def demo_path path_has_def cluster_part_def leaf_selected_def leaf_granted_def
        demo_granted leaf_tuple_def Accessor_is_endpoint_accessible_def GenericPath_new_def)
  then show ?thesis by (simp add: node_expansion_def comp_def)
qed

lemma demo_fits: "endpoint_fits AttrReadPath_item (demo_endpoint i)"
  by (simp add: endpoint_fits_def)

theorem expansion_interference_witness:
  "None \<in> set (expander_outputs AttrReadPath_item Fabrics_new
     [Node_new [demo_endpoint 1, demo_endpoint 2], Node_new [demo_endpoint 2], Node_new [demo_endpoint 2]]
     (PathExpander_new pase_accessor False (Some [Ok demo_read]) (\<lambda>_ _ _. True)))"
proof -
  have between: "nodes_between [demo_endpoint 2] [demo_endpoint 1, demo_endpoint 2]
      [Node_new [demo_endpoint 1, demo_endpoint 2], Node_new [demo_endpoint 2], Node_new [demo_endpoint 2]]"
    by (simp add: nodes_between_def endpoints_sorted_def Node_new_def)
  have served: "wildcard_served (query AttrReadPath_item Fabrics_new pase_accessor False (\<lambda>_ _ _. True) demo_read)"
    by (simp add: wildcard_served_def demo_defs GenericPath_is_wildcard_def is_attr_read_def)
  have fits: "\<forall>ep \<in> set [demo_endpoint 1, demo_endpoint 2]. endpoint_fits AttrReadPath_item ep"
    by (simp add: demo_fits)
  have "length (node_expansion (query AttrReadPath_item Fabrics_new pase_accessor False (\<lambda>_ _ _. True) demo_read)
      [demo_endpoint 1, demo_endpoint 2]) < 3"
    using demo_expansion [of Fabrics_new "[1, 2]"] by simp
  with expansion_interference [OF between fits served] show ?thesis
    unfolding list.size by (elim exE conjE) linarith
qed

subsection \<open>What the expander asks of the node\<close>

lemma sorted_wrt_subseq: "subseq xs ys \<Longrightarrow> sorted_wrt P ys \<Longrightarrow> sorted_wrt P xs"
proof (induction rule: list_emb.induct)
  case (list_emb_Cons2 x y xs ys)
  then show ?case using list_emb_set [OF list_emb_Cons2.hyps(2)] by fastforce
qed simp_all

lemma sorted_identifiers: "n \<le> 65536 \<Longrightarrow> sorted_wrt (<) (map (of_nat :: nat \<Rightarrow> u16) [0..<n])"
  by (auto simp: sorted_wrt_iff_nth_less word_less_nat_alt unat_of_nat)

lemma every_identifier: "i \<in> set (map (of_nat :: nat \<Rightarrow> u16) [0..<65536])"
  using unsigned_less [of i, where 'a = nat] by (auto simp: image_iff intro!: bexI [of _ "unat i"] simp del: upt_rec_numeral)

lemma endpoint_part_id: "t \<in> set (endpoint_part q ci li ep) \<Longrightarrow> fst t = en_id ep"
proof -
  have "t \<in> set (clusters_part q ep li cls) \<Longrightarrow> fst t = en_id ep" for li cls
    by (induction cls arbitrary: li) (auto simp: cluster_part_def leaf_tuple_def split: if_splits)
  then show "t \<in> set (endpoint_part q ci li ep) \<Longrightarrow> fst t = en_id ep"
    by (auto simp: endpoint_part_def split: if_splits)
qed

lemma node_expansion_sorted: "endpoints_sorted V \<Longrightarrow> sorted_wrt (\<lambda>t t'. fst t \<le> fst t') (node_expansion q V)"
proof (induction V)
  case (Cons ep V)
  have "sorted_wrt (\<lambda>t t'. fst t \<le> fst t') xs" if "\<forall>t \<in> set xs. fst t = i"
    for xs :: "(u16 \<times> u32 \<times> u32 \<times> bool) list" and i
    using that by (induction xs) auto
  from this [of "endpoint_part q 0 0 ep"] show ?case
    using Cons by (fastforce simp: node_expansion_def sorted_wrt_append endpoints_sorted_Cons dest: endpoint_part_id)
qed (simp add: node_expansion_def)

locale endpoint_directory =
  fixes ok :: "'d \<Rightarrow> bool" and directory :: "'d \<Rightarrow> Node"
  assumes directory_sorted: "ok d \<Longrightarrow> endpoints_sorted (no_endpoints (directory d))"
begin

lemma expansion_over:
  assumes ok: "\<forall>d \<in> set ds. ok d" and shape: "\<forall>d \<in> set ds. \<forall>ep \<in> set (no_endpoints (directory d)). ep = shape (en_id ep)"
    and fits: "\<forall>i. en_id (shape i) = i \<and> endpoint_fits T (shape i)"
    and served: "wildcard_served (query T fs a timed flt item)"
    and outs: "outs = expander_outputs T fs (map directory ds) (PathExpander_new a timed (Some [Ok item]) flt)"
  shows "\<exists>ts. takeWhile (\<lambda>r. r \<noteq> None) outs = map (Some \<circ> expanded (query T fs a timed flt item) item) ts \<and>
    sorted_wrt (\<lambda>t t'. fst t \<le> fst t') ts \<and>
    (\<forall>i. subseq (filter (\<lambda>t. fst t = i) ts) (endpoint_part (query T fs a timed flt item) 0 0 (shape i))) \<and>
    (None \<in> set outs \<longrightarrow> (\<forall>i. (\<forall>d \<in> set ds. shape i \<in> set (no_endpoints (directory d))) \<longrightarrow>
       filter (\<lambda>t. fst t = i) ts = endpoint_part (query T fs a timed flt item) 0 0 (shape i)))"
proof -
  let ?q = "query T fs a timed flt item"
  define ids where "ids = map (of_nat :: nat \<Rightarrow> u16) [0..<65536]"
  define stable where "stable = filter (\<lambda>i. \<forall>d \<in> set ds. shape i \<in> set (no_endpoints (directory d))) ids"
  have ids: "sorted_wrt (<) ids" "i \<in> set ids" for i
    unfolding ids_def using sorted_identifiers [of 65536] every_identifier [of i] by simp_all
  have comp: "en_id \<circ> shape = id" using fits by (simp add: fun_eq_iff)
  have srt: "endpoints_sorted (map shape ids)" "endpoints_sorted (map shape stable)"
    using ids(1) by (simp_all add: endpoints_sorted_def comp stable_def sorted_wrt_filter)
  have "x \<in> shape ` set ids" if "d \<in> set ds" "x \<in> set (no_endpoints (directory d))" for d x
    using shape that ids(2) by (auto intro!: image_eqI [of x shape "en_id x"])
  then have between: "nodes_between (map shape stable) (map shape ids) (map directory ds)"
    using ok srt directory_sorted by (auto simp: nodes_between_def stable_def)
  obtain ts where ts: "takeWhile (\<lambda>r. r \<noteq> None) outs = map (Some \<circ> expanded ?q item) ts"
      "subseq ts (node_expansion ?q (map shape ids))" "None \<in> set outs \<longrightarrow> subseq (node_expansion ?q (map shape stable)) ts"
    using outputs_between [OF between _ served] fits unfolding outs by auto
  have part: "filter (\<lambda>t. fst t = i) (node_expansion ?q (map shape xs)) = (if i \<in> set xs then endpoint_part ?q 0 0 (shape i) else [])"
    if "distinct xs" for i xs
  proof -
    have "filter (\<lambda>t. fst t = i) (endpoint_part ?q 0 0 (shape j)) = (if j = i then endpoint_part ?q 0 0 (shape i) else [])" for j
      using fits by (auto simp: filter_id_conv filter_empty_conv dest!: endpoint_part_id)
    then show ?thesis using that by (induction xs) (auto simp: node_expansion_def)
  qed
  have "distinct ids" using ids(1) by (simp add: strict_sorted_iff)
  have "subseq (filter (\<lambda>t. fst t = i) ts) (endpoint_part ?q 0 0 (shape i))" for i
    using subseq_filter [OF ts(2), of "\<lambda>t. fst t = i"] part [OF \<open>distinct ids\<close>] ids(2) by simp
  moreover have "subseq (endpoint_part ?q 0 0 (shape i)) (filter (\<lambda>t. fst t = i) ts)"
    if "None \<in> set outs" "\<forall>d \<in> set ds. shape i \<in> set (no_endpoints (directory d))" for i
    using subseq_filter [OF ts(3) [rule_format, OF that(1)], of "\<lambda>t. fst t = i"] part [of stable i] \<open>distinct ids\<close> ids(2) that(2)
    by (simp add: stable_def)
  moreover have "sorted_wrt (\<lambda>t t'. fst t \<le> fst t') ts"
    by (rule sorted_wrt_subseq [OF ts(2) node_expansion_sorted [OF srt(1)]])
  ultimately show ?thesis
    using ts(1) subseq_order.antisym by blast
qed

end

interpretation dynamic: endpoint_directory "dynamic_node_reachable cap" DynamicNode_node for cap
  by unfold_locales (auto dest: dynamic_node_inv_reachable simp: dynamic_node_inv_def DynamicNode_node_def)

text \<open>Claim C10: over a node with dynamic endpoints, whatever endpoints are added and removed between the calls, what
  a wildcard path yields comes in increasing order of endpoint, the part of an endpoint is a
  subsequence of its own reference expansion, and when the iterator has ended the part of an endpoint
  that was there at every call is exactly that expansion. An endpoint keeps its shape, as the node
  requires.\<close>

theorem dynamic_node_expansion:
  assumes "\<forall>d \<in> set ds. dynamic_node_reachable cap d"
    "\<forall>d \<in> set ds. \<forall>ep \<in> set (dn_endpoints d). ep = shape (en_id ep)"
    "\<forall>i. en_id (shape i) = i \<and> endpoint_fits T (shape i)" "wildcard_served (query T fs a timed flt item)"
    "outs = expander_outputs T fs (map DynamicNode_node ds) (PathExpander_new a timed (Some [Ok item]) flt)"
  shows "\<exists>ts. takeWhile (\<lambda>r. r \<noteq> None) outs = map (Some \<circ> expanded (query T fs a timed flt item) item) ts \<and>
    sorted_wrt (\<lambda>t t'. fst t \<le> fst t') ts \<and>
    (\<forall>i. subseq (filter (\<lambda>t. fst t = i) ts) (endpoint_part (query T fs a timed flt item) 0 0 (shape i))) \<and>
    (None \<in> set outs \<longrightarrow> (\<forall>i. (\<forall>d \<in> set ds. shape i \<in> set (dn_endpoints d)) \<longrightarrow>
       filter (\<lambda>t. fst t = i) ts = endpoint_part (query T fs a timed flt item) 0 0 (shape i)))"
  using dynamic.expansion_over [of ds cap shape T fs a timed flt item outs] assms by (simp add: DynamicNode_node_def)

definition demo_states :: "DynamicNode list" where
  "demo_states = (let d1 = snd (DynamicNode_add 2 (demo_endpoint 2) DynamicNode_new);
     d2 = snd (DynamicNode_add 2 (demo_endpoint 1) d1) in [d2, d1, snd (DynamicNode_remove 2 d1)])"

lemma demo_states_value:
  "map dn_endpoints demo_states = [[demo_endpoint 1, demo_endpoint 2], [demo_endpoint 2], []]"
  by (simp add: demo_states_def DynamicNode_new_def DynamicNode_add_def DynamicNode_remove_def vec_push_def vec_insert_def)

theorem dynamic_node_expansion_witness:
  "\<exists>ts. takeWhile (\<lambda>r. r \<noteq> None) (expander_outputs AttrReadPath_item Fabrics_new (map DynamicNode_node demo_states)
      (PathExpander_new pase_accessor False (Some [Ok demo_read]) (\<lambda>_ _ _. True))) =
    map (Some \<circ> expanded (query AttrReadPath_item Fabrics_new pase_accessor False (\<lambda>_ _ _. True) demo_read) demo_read) ts \<and>
   sorted_wrt (\<lambda>t t'. fst t \<le> fst t') ts"
proof -
  have "\<forall>d \<in> set demo_states. dynamic_node_reachable 2 d"
    by (auto simp: demo_states_def Let_def intro: dynamic_node_reachable.intros)
  moreover have "\<forall>d \<in> set demo_states. \<forall>ep \<in> set (dn_endpoints d). ep = demo_endpoint (en_id ep)"
    using demo_states_value by (auto simp: demo_states_def Let_def)
  moreover have "wildcard_served (query AttrReadPath_item Fabrics_new pase_accessor False (\<lambda>_ _ _. True) demo_read)"
    by (simp add: wildcard_served_def demo_path GenericPath_new_def GenericPath_is_wildcard_def)
  ultimately show ?thesis
    using dynamic_node_expansion [of demo_states 2 demo_endpoint AttrReadPath_item Fabrics_new pase_accessor False
        "\<lambda>_ _ _. True" demo_read, OF _ _ _ _ refl] demo_fits by auto
qed

end
