(* ===== verification/Path_Iteration.thy ===== *)
theory Path_Iteration
  imports Path_Scan
begin

section \<open>The whole expansion of a request\<close>

text \<open>
  The verdict on a concrete path, layer by layer, and the iteration over all requested items on a node
  that does not change: it ends and yields the reference expansion.
\<close>

subsection \<open>Concrete paths\<close>

text \<open>The verdict on a concrete path, one layer after the other.\<close>

definition leaf_verdict ::
    "('t, 'x, 's) Query \<Rightarrow> Endpoint \<Rightarrow> Cluster \<Rightarrow> u32 \<Rightarrow> IMStatusCode + (u16 \<times> u32 \<times> u32 \<times> bool) option" where
  "leaf_verdict q ep cl l =
     (if \<not> q_filter q (en_id ep) (cl_id cl) l then Inr None
      else map_sum id (\<lambda>_. Some (leaf_tuple q ep cl l)) (leaf_access (q_T q) (q_fs q) (q_accessor q) (q_timed q) ep cl l))"

definition cluster_verdict ::
    "('t, 'x, 's) Query \<Rightarrow> Endpoint \<Rightarrow> Cluster \<Rightarrow> IMStatusCode + (u16 \<times> u32 \<times> u32 \<times> bool) option" where
  "cluster_verdict q ep cl = (case find (path_has (gp_leaf (q_path q))) (cluster_leaves (q_T q) cl) of
     None \<Rightarrow> Inl (if is_invoke (q_T q) then IM_UnsupportedCommand else IM_UnsupportedAttribute)
   | Some l \<Rightarrow> leaf_verdict q ep cl l)"

definition endpoint_verdict ::
    "('t, 'x, 's) Query \<Rightarrow> Endpoint \<Rightarrow> IMStatusCode + (u16 \<times> u32 \<times> u32 \<times> bool) option" where
  "endpoint_verdict q ep = (case find (\<lambda>cl. path_has (gp_cluster (q_path q)) (cl_id cl)) (en_clusters ep) of
     None \<Rightarrow> Inl IM_UnsupportedCluster
   | Some cl \<Rightarrow> cluster_verdict q ep cl)"

definition concrete_verdict ::
    "('t, 'x, 's) Query \<Rightarrow> Endpoint list \<Rightarrow> IMStatusCode + (u16 \<times> u32 \<times> u32 \<times> bool) option" where
  "concrete_verdict q eps = (case find (endpoint_open q) eps of
     None \<Rightarrow> Inl IM_UnsupportedEndpoint
   | Some ep \<Rightarrow> endpoint_verdict q ep)"

lemma visit_leaf_concrete:
  assumes "works_on q self" "\<not> GenericPath_is_wildcard (q_path q)" "px_leaf_index self \<noteq> 0xFFFF"
    "cache_true q ep self" "cl \<in> set (en_clusters ep)" "ep \<in> U"
  shows "\<exists>self'. visit_leaf (q_T q) (q_fs q) (q_path q) ep cl l self =
      (if path_has (gp_leaf (q_path q)) l then Return (leaf_verdict q ep cl l) else Scan, self') \<and> recorded q U self self'"
  using assms
  by (cases "leaf_access (q_T q) (q_fs q) (q_accessor q) (q_timed q) ep cl l")
    (auto simp: visit_leaf_def check_leaf_def leaf_verdict_def leaf_granted_def works_on_def cache_true_def
      inc_leaf_index_def leaf_tuple_def recorded_def)

lemma leaf_loop_concrete:
  assumes "works_on q self" "\<not> GenericPath_is_wildcard (q_path q)" "cache_true q ep self" "cl \<in> set (en_clusters ep)"
    "length (cluster_leaves (q_T q) cl) < 65536" "ep \<in> U"
  shows "\<exists>self'. leaf_loop (q_T q) (q_fs q) (q_path q) ep cl self =
      (case find (path_has (gp_leaf (q_path q))) (drop (unat (px_leaf_index self)) (cluster_leaves (q_T q) cl)) of
         None \<Rightarrow> Scan | Some l \<Rightarrow> Return (leaf_verdict q ep cl l), self') \<and> recorded q U self self'"
  using assms
proof (induction "length (cluster_leaves (q_T q) cl) - unat (px_leaf_index self)" arbitrary: self rule: less_induct)
  case less
  let ?ls = "cluster_leaves (q_T q) cl" and ?i = "unat (px_leaf_index self)"
  show ?case
  proof (cases "?i < length ?ls")
    case False
    then show ?thesis by (simp add: leaf_loop.simps recorded_def)
  next
    case True
    then have i: "px_leaf_index self \<noteq> 0xFFFF" using less.prems(5) by (rule cursor_below)
    obtain self' where visit: "visit_leaf (q_T q) (q_fs q) (q_path q) ep cl (?ls ! ?i) self =
        (if path_has (gp_leaf (q_path q)) (?ls ! ?i) then Return (leaf_verdict q ep cl (?ls ! ?i)) else Scan, self')"
        "recorded q U self self'"
      using visit_leaf_concrete [OF less.prems(1,2) i less.prems(3,4,6), of "?ls ! ?i"] by blast
    have drop: "drop ?i ?ls = ?ls ! ?i # drop (Suc ?i) ?ls" using True by (simp add: Cons_nth_drop_Suc)
    show ?thesis
    proof (cases "path_has (gp_leaf (q_path q)) (?ls ! ?i)")
      case match: True
      then show ?thesis using True visit by (subst leaf_loop.simps) (simp add: drop)
    next
      case match: False
      let ?self = "self\<lparr>px_leaf_index := px_leaf_index self + 1\<rparr>"
      have "leaf_loop (q_T q) (q_fs q) (q_path q) ep cl self = leaf_loop (q_T q) (q_fs q) (q_path q) ep cl ?self"
        using True i visit_leaf_Scan visit(1) match by (subst leaf_loop.simps) (fastforce simp: inc_leaf_index_def)
      moreover have "recorded q U ?self s \<longleftrightarrow> recorded q U self s" for s by (simp add: recorded_def)
      ultimately show ?thesis
        using less.hyps [of ?self] less.prems True match i
        by (simp add: drop unat_inc_u16 works_on_def cache_true_def diff_less_mono2)
    qed
  qed
qed

lemma visit_cluster_concrete:
  assumes "works_on q self" "\<not> GenericPath_is_wildcard (q_path q)" "cache_true q ep self" "cl \<in> set (en_clusters ep)"
    "length (cluster_leaves (q_T q) cl) < 65536" "ep \<in> U" "px_leaf_index self = 0"
  shows "path_has (gp_cluster (q_path q)) (cl_id cl) \<Longrightarrow>
      \<exists>self'. visit_cluster (q_T q) (q_fs q) (q_path q) ep cl self = (Return (cluster_verdict q ep cl), self') \<and>
        recorded q U self self'"
    and "\<not> path_has (gp_cluster (q_path q)) (cl_id cl) \<Longrightarrow>
      visit_cluster (q_T q) (q_fs q) (q_path q) ep cl self = (Scan, self)"
  using leaf_loop_concrete [OF assms(1-6)] assms(2,7)
  by (auto simp: visit_cluster_def cluster_verdict_def split: option.splits)

lemma cluster_loop_concrete:
  assumes "works_on q self" "\<not> GenericPath_is_wildcard (q_path q)" "cache_true q ep self" "endpoint_fits (q_T q) ep"
    "ep \<in> U" "px_leaf_index self = 0"
  shows "\<exists>self'. cluster_loop (q_T q) (q_fs q) (q_path q) ep self =
      (case find (\<lambda>cl. path_has (gp_cluster (q_path q)) (cl_id cl)) (drop (unat (px_cluster_index self)) (en_clusters ep)) of
         None \<Rightarrow> Scan | Some cl \<Rightarrow> Return (cluster_verdict q ep cl), self') \<and> recorded q U self self'"
  using assms
proof (induction "length (en_clusters ep) - unat (px_cluster_index self)" arbitrary: self rule: less_induct)
  case less
  let ?cs = "en_clusters ep" and ?c = "unat (px_cluster_index self)"
  let ?cl = "?cs ! ?c"
  show ?case
  proof (cases "?c < length ?cs")
    case False
    then show ?thesis by (simp add: cluster_loop.simps recorded_def)
  next
    case True
    then have c: "px_cluster_index self \<noteq> 0xFFFF"
      using less.prems(4) by (auto simp: endpoint_fits_def intro: cursor_below)
    have cl: "?cl \<in> set ?cs" and len: "length (cluster_leaves (q_T q) ?cl) < 65536"
      using True less.prems(4) by (auto simp: endpoint_fits_def)
    note visit = visit_cluster_concrete [OF less.prems(1-3) cl len less.prems(5,6)]
    have drop: "drop ?c ?cs = ?cl # drop (Suc ?c) ?cs" using True by (simp add: Cons_nth_drop_Suc)
    show ?thesis
    proof (cases "path_has (gp_cluster (q_path q)) (cl_id ?cl)")
      case match: True
      then show ?thesis using visit(1) True by (subst cluster_loop.simps) (auto simp: drop)
    next
      case match: False
      let ?self = "self\<lparr>px_cluster_index := px_cluster_index self + 1\<rparr>"
      have "cluster_loop (q_T q) (q_fs q) (q_path q) ep self = cluster_loop (q_T q) (q_fs q) (q_path q) ep ?self"
        using True c visit(2) [OF match] by (subst cluster_loop.simps) (simp add: inc_cluster_index_def)
      moreover have "recorded q U ?self s \<longleftrightarrow> recorded q U self s" for s by (simp add: recorded_def)
      ultimately show ?thesis
        using less.hyps [of ?self] less.prems True match c
        by (simp add: drop unat_inc_u16 works_on_def cache_true_def diff_less_mono2)
    qed
  qed
qed

lemma endpoint_loop_concrete:
  assumes "works_on q self" "\<not> GenericPath_is_wildcard (q_path q)"
    "\<forall>ep \<in> set eps. cache_true q ep self \<and> endpoint_fits (q_T q) ep" "set eps \<subseteq> U"
    "px_cluster_index self = 0" "px_leaf_index self = 0"
  shows "\<exists>self'. endpoint_loop (q_T q) (q_fs q) (q_path q) eps self =
      (case find (endpoint_open q) eps of None \<Rightarrow> Scan | Some ep \<Rightarrow> Return (endpoint_verdict q ep), self') \<and>
      recorded q U self self'"
  using assms
proof (induction eps arbitrary: self)
  case Nil
  then show ?case by (simp add: recorded_def)
next
  case (Cons ep eps)
  let ?self = "self\<lparr>px_endpoint_id := Some (en_id ep)\<rparr>"
  have rec: "recorded q U ?self s \<longleftrightarrow> recorded q U self s" for s by (simp add: recorded_def)
  have prems: "works_on q ?self" "cache_true q ep ?self" "endpoint_fits (q_T q) ep" "ep \<in> U"
    "px_leaf_index ?self = 0" "px_cluster_index ?self = 0"
    using Cons.prems by (auto simp: works_on_def cache_true_def)
  show ?case
  proof (cases "endpoint_open q ep")
    case True
    obtain self' where "cluster_loop (q_T q) (q_fs q) (q_path q) ep ?self =
        (case find (\<lambda>cl. path_has (gp_cluster (q_path q)) (cl_id cl)) (en_clusters ep) of
           None \<Rightarrow> Scan | Some cl \<Rightarrow> Return (cluster_verdict q ep cl), self')" "recorded q U self self'"
      using cluster_loop_concrete [OF prems(1) Cons.prems(2) prems(2-5)] prems(6) by (auto simp: rec)
    then show ?thesis
      using True Cons.prems(1,2)
      by (auto simp: visit_endpoint_def endpoint_open_def endpoint_verdict_def works_on_def split: option.splits)
  next
    case False
    then have "visit_endpoint (q_T q) (q_fs q) (q_path q) ep self = (Scan, ?self)"
      using Cons.prems(1) by (auto simp: visit_endpoint_def endpoint_open_def works_on_def)
    then show ?thesis
      using Cons.IH [of ?self] Cons.prems False by (simp add: works_on_def cache_true_def rec)
  qed
qed

lemma next_for_path_concrete:
  assumes "px_item self = Some it" "q_path q = pi_path (q_T q) it" "\<not> GenericPath_is_wildcard (q_path q)"
    "works_on q self" "\<forall>ep \<in> U. cache_true q ep self" "endpoints_fit (q_T q) U" "set (no_endpoints node) \<subseteq> U"
    "px_endpoint_id self = None" "px_cluster_index self = 0" "px_leaf_index self = 0"
  shows "\<exists>self'. next_for_path (q_T q) (q_fs q) node self = (Some (concrete_verdict q (no_endpoints node)), self') \<and>
    recorded q U self self'"
proof -
  have path: "gp_cluster (q_path q) \<noteq> None" "gp_leaf (q_path q) \<noteq> None"
    using assms(3) by (auto simp: GenericPath_is_wildcard_def split: option.splits)
  have "\<exists>self'. endpoint_loop (q_T q) (q_fs q) (q_path q) (no_endpoints node) self =
      (case find (endpoint_open q) (no_endpoints node) of None \<Rightarrow> Scan | Some ep \<Rightarrow> Return (endpoint_verdict q ep), self') \<and>
      recorded q U self self'"
    using assms by (intro endpoint_loop_concrete) (auto simp: endpoints_fit_def)
  then show ?thesis
    using assms(1-3,8) path
    by (auto simp: next_for_path_def Let_def resume_endpoint_index_def concrete_verdict_def split: option.splits)
qed

subsection \<open>The whole iteration on a node that does not change\<close>

text \<open>Calling \<^verbatim>\<open>next\<close> until it returns \<^verbatim>\<open>None\<close>, at most \<open>n\<close> times.\<close>

fun expander_collect ::
    "('t, 'x, 's) PathExpansionItem \<Rightarrow> Fabrics \<Rightarrow> Node \<Rightarrow> nat \<Rightarrow> 't PathExpander \<Rightarrow> ('x, 's) expansion list option" where
  "expander_collect T fs node 0 self = None"
| "expander_collect T fs node (Suc n) self = (case PathExpander_next T fs node self of
     (None, self') \<Rightarrow> Some []
   | (Some r, self') \<Rightarrow> map_option (Cons r) (expander_collect T fs node n self'))"

definition item_expansion ::
    "('t, 'x, 's) PathExpansionItem \<Rightarrow> Fabrics \<Rightarrow> Accessor \<Rightarrow> bool \<Rightarrow> (u16 \<Rightarrow> u32 \<Rightarrow> u32 \<Rightarrow> bool) \<Rightarrow> Node \<Rightarrow> 't res \<Rightarrow>
     ('x, 's) expansion list" where
  "item_expansion T fs a timed flt node r = (case r of
     Err e \<Rightarrow> [Err e]
   | Panic \<Rightarrow> [Panic]
   | Ok item \<Rightarrow>
       let q = query T fs a timed flt item; path = pi_path T item in
       if \<not> is_attr_read T \<and> gp_cluster path = None then [Ok (Inl (pi_into_status T IM_UnsupportedCluster item))]
       else if \<not> is_attr_read T \<and> gp_leaf path = None then [Ok (Inl (pi_into_status T IM_UnsupportedAttribute item))]
       else if GenericPath_is_wildcard path then map (expanded q item) (node_expansion q (no_endpoints node))
       else (case concrete_verdict q (no_endpoints node) of
               Inl status \<Rightarrow> [Ok (Inl (pi_into_status T status item))]
             | Inr None \<Rightarrow> []
             | Inr (Some t) \<Rightarrow> [expanded q item t]))"

text \<open>Between two items nothing is being expanded and the record is truthful.\<close>

definition idle ::
    "('t, 'x, 's) PathExpansionItem \<Rightarrow> Fabrics \<Rightarrow> Accessor \<Rightarrow> bool \<Rightarrow> (u16 \<Rightarrow> u32 \<Rightarrow> u32 \<Rightarrow> bool) \<Rightarrow> Endpoint set \<Rightarrow>
     't res list \<Rightarrow> 't PathExpander \<Rightarrow> bool" where
  "idle T fs a timed flt U items self \<longleftrightarrow> px_item self = None \<and> px_items self = Some items \<and> px_accessor self = a \<and>
     px_timed self = timed \<and> px_filter self = flt \<and>
     (\<forall>ep \<in> U. \<forall>cl \<in> set (en_clusters ep). \<forall>l. px_last_authorized self = Some (en_id ep, cl_id cl, l) \<longrightarrow>
        leaf_access T fs a timed ep cl l = Inr ())"

lemma idle_query:
  "idle T fs a timed flt U items self \<longleftrightarrow> px_item self = None \<and> px_items self = Some items \<and>
     works_on (query T fs a timed flt item) self \<and> (\<forall>ep \<in> U. cache_true (query T fs a timed flt item) ep self)"
  by (auto simp: idle_def works_on_def cache_true_def leaf_granted_def)

lemma collect_next:
  "PathExpander_next T fs node self = PathExpander_next T fs node self' \<Longrightarrow>
   expander_collect T fs node n self = expander_collect T fs node n self'"
  by (cases n) simp_all

lemma collect_none:
  "PathExpander_next T fs node self = PathExpander_next T fs node self' \<Longrightarrow>
   expander_collect T fs node (length [] + n) self = map_option (append []) (expander_collect T fs node n self')"
  using collect_next [of T fs node self self' n] by (cases "expander_collect T fs node n self'") simp_all

lemma collect_one:
  "PathExpander_next T fs node self = (Some r, self') \<Longrightarrow>
   expander_collect T fs node (length [r] + n) self = map_option (append [r]) (expander_collect T fs node n self')"
  by (simp add: fun_eq_iff cong: option.map_cong)

lemma collect_more:
  "PathExpander_next T fs node self = (Some r, self') \<Longrightarrow>
   expander_collect T fs node (length rs + n) self' = map_option (append rs) z \<Longrightarrow>
   expander_collect T fs node (length (r # rs) + n) self = map_option (append (r # rs)) z"
  by (cases z) simp_all

declare expander_collect.simps [simp del]

lemma collect_wild:
  assumes q: "wildcard_served q" "q = query T fs a timed flt it"
    and node: "endpoints_sorted (no_endpoints node)" "endpoints_fit T (set (no_endpoints node))"
    and "px_item self = Some it" "px_items self = Some items" "expander_inv q (set (no_endpoints node)) self"
  shows "\<exists>self'. idle T fs a timed flt (set (no_endpoints node)) items self' \<and>
    (\<forall>k. expander_collect T fs node (length (left_over q self (no_endpoints node)) + Suc k) self =
       map_option (append (map (expanded q it) (left_over q self (no_endpoints node)))) (expander_collect T fs node (Suc k) self'))"
  using assms(5-)
proof (induction "left_over q self (no_endpoints node)" arbitrary: self rule: length_induct)
  case (1 self)
  let ?eps = "no_endpoints node"
  have T: "q_path q = pi_path (q_T q) it" "q_T q = T" "q_fs q = fs" by (simp_all add: q(2))
  have fit: "endpoints_fit (q_T q) (set ?eps)" using node(2) T(2) by simp
  from next_wild [OF q(1) 1(2) T(1) node(1) order_refl fit 1(4)] show ?case
  proof (elim disjE exE conjE)
    fix self' assume eval: "PathExpander_next (q_T q) (q_fs q) node self = PathExpander_next (q_T q) (q_fs q) node (self'\<lparr>px_item := None\<rparr>)"
      and same: "same_request self self'" "px_last_authorized self' = px_last_authorized self"
      and empty: "\<forall>ep \<in> set ?eps. endpoint_left q self ep = []"
    have "idle T fs a timed flt (set ?eps) items (self'\<lparr>px_item := None\<rparr>)"
      using same 1(3,4) unfolding idle_query [where item = it] q(2) [symmetric]
      by (auto simp: expander_inv_def works_on_def same_request_def cache_true_def)
    moreover have "left_over q self ?eps = []" using empty by (simp add: left_over_def)
    ultimately show ?thesis
      using collect_none [OF eval [unfolded T(2,3)]] by (intro exI [of _ "self'\<lparr>px_item := None\<rparr>"]) simp
  next
    fix self' t assume eval: "PathExpander_next (q_T q) (q_fs q) node self = (Some (expanded q it t), self')"
      and yields: "step_yields q (set ?eps) ?eps self self' t"
    note inj = endpoints_sorted_inj [OF node(1)]
    have left: "left_over q self ?eps = t # left_over q self' ?eps"
      using step_left_over [OF yields node(1) order_refl order_refl inj] by (auto dest!: arg_cong [of _ _ length])
    have "px_item self' = Some it" "px_items self' = Some items" "expander_inv q (set ?eps) self'"
      using yields 1(2,3) by (simp_all add: step_yields_def same_request_def)
    moreover have "length (left_over q self' ?eps) < length (left_over q self ?eps)" using left by simp
    ultimately obtain s where s: "idle T fs a timed flt (set ?eps) items s"
      "\<forall>k. expander_collect T fs node (length (left_over q self' ?eps) + Suc k) self' =
         map_option (append (map (expanded q it) (left_over q self' ?eps))) (expander_collect T fs node (Suc k) s)"
      using 1(1) by blast
    have "expander_collect T fs node (length (expanded q it t # map (expanded q it) (left_over q self' ?eps)) + Suc k) self =
        map_option (append (expanded q it t # map (expanded q it) (left_over q self' ?eps))) (expander_collect T fs node (Suc k) s)" for k
      using s(2) by (intro collect_more [OF eval [unfolded T(2,3)]]) simp
    then show ?thesis
      using s(1) left by (intro exI [of _ s]) simp
  qed
qed

lemma collect_item:
  assumes idle: "idle T fs a timed flt (set (no_endpoints node)) (r # items) self" and r: "r \<noteq> Panic"
    and node: "endpoints_sorted (no_endpoints node)" "endpoints_fit T (set (no_endpoints node))"
  shows "\<exists>self'. idle T fs a timed flt (set (no_endpoints node)) items self' \<and>
    (\<forall>k. expander_collect T fs node (length (item_expansion T fs a timed flt node r) + Suc k) self =
       map_option (append (item_expansion T fs a timed flt node r)) (expander_collect T fs node (Suc k) self'))"
proof (cases r)
  case (Err e)
  then show ?thesis
    using idle collect_one [of T fs node self "Err e" "self\<lparr>px_items := Some items\<rparr>"]
    by (intro exI [of _ "self\<lparr>px_items := Some items\<rparr>"])
      (simp add: idle_def item_expansion_def PathExpander_next.simps fetch_item_def)
next
  case (Ok item)
  let ?eps = "no_endpoints node" and ?q = "query T fs a timed flt item" and ?path = "pi_path T item"
  let ?self = "self\<lparr>px_items := Some items, px_item := Some item, px_endpoint_id := None, px_cluster_index := 0,
    px_leaf_index := 0\<rparr>"
  have start: "PathExpander_next T fs node self = PathExpander_next T fs node ?self"
    using idle Ok by (intro next_fetch) (simp add: fetch_item_def idle_def)
  have inv: "expander_inv ?q (set ?eps) ?self"
    using idle unfolding idle_query [where item = item] by (auto simp: expander_inv_def works_on_def cache_true_def)
  consider (cluster) "\<not> is_attr_read T" "gp_cluster ?path = None"
    | (leaf) "\<not> is_attr_read T" "gp_cluster ?path \<noteq> None" "gp_leaf ?path = None"
    | (wild) "wildcard_served ?q"
    | (concrete) "\<not> GenericPath_is_wildcard ?path"
    by (auto simp: wildcard_served_def)
  then show ?thesis
  proof cases
    case wild
    then have "item_expansion T fs a timed flt node r = map (expanded ?q item) (left_over ?q ?self ?eps)"
      by (auto simp: item_expansion_def Ok Let_def wildcard_served_def left_over_start)
    then show ?thesis
      using collect_wild [OF wild refl node, of ?self items] inv by (simp add: collect_next [OF start])
  next
    case concrete
    then have path: "gp_cluster ?path \<noteq> None" "gp_leaf ?path \<noteq> None"
      by (auto simp: GenericPath_is_wildcard_def split: option.splits)
    obtain s where s: "next_for_path T fs node ?self = (Some (concrete_verdict ?q ?eps), s)" "recorded ?q (set ?eps) ?self s"
      using next_for_path_concrete [of ?self item ?q "set ?eps" node] concrete inv node(2) by (auto simp: expander_inv_def)
    have same: "same_request ?self s" using next_for_path_frame [of ?self T fs node] s(1) by simp
    have "\<forall>ep \<in> set ?eps. cache_true ?q ep ?self" using inv by (simp add: expander_inv_def)
    then have "\<forall>ep \<in> set ?eps. cache_true ?q ep s"
      using node(2) s(2) cache_true_recorded [of ?q "set ?eps" ?self s] by simp
    then have "idle T fs a timed flt (set ?eps) items (s\<lparr>px_item := None\<rparr>)"
      using inv same unfolding idle_query [where item = item]
      by (auto simp: same_request_def expander_inv_def works_on_def cache_true_def)
    moreover have a: "px_accessor s = a" using same idle by (simp add: same_request_def idle_def)
    have "PathExpander_next T fs node self = (case concrete_verdict ?q ?eps of
        Inl status \<Rightarrow> (Some (Ok (Inl (pi_into_status T status item))), s\<lparr>px_item := None\<rparr>)
      | Inr None \<Rightarrow> PathExpander_next T fs node (s\<lparr>px_item := None\<rparr>)
      | Inr (Some t) \<Rightarrow> (Some (expanded ?q item t), s\<lparr>px_item := None\<rparr>))"
      unfolding start PathExpander_next.simps [of T fs node ?self]
      using concrete s(1) a by (auto simp: fetch_item_def expanded_def split: sum.splits option.splits prod.splits)
    then have "expander_collect T fs node (length (item_expansion T fs a timed flt node r) + n) self =
        map_option (append (item_expansion T fs a timed flt node r)) (expander_collect T fs node n (s\<lparr>px_item := None\<rparr>))" for n
      using concrete path Ok
      by (cases "concrete_verdict ?q ?eps"; cases "projr (concrete_verdict ?q ?eps)")
        (auto simp: item_expansion_def Let_def simp del: list.size intro: collect_one collect_none)
    ultimately show ?thesis by blast
  next
    case cluster
    then have "PathExpander_next T fs node self =
        (Some (Ok (Inl (pi_into_status T IM_UnsupportedCluster item))), ?self\<lparr>px_item := None\<rparr>)"
      unfolding start PathExpander_next.simps [of T fs node ?self] by (simp add: fetch_item_def next_for_path_def)
    from collect_one [OF this] show ?thesis
      using cluster idle Ok by (intro exI [of _ "?self\<lparr>px_item := None\<rparr>"]) (simp add: item_expansion_def idle_def)
  next
    case leaf
    then have "PathExpander_next T fs node self =
        (Some (Ok (Inl (pi_into_status T IM_UnsupportedAttribute item))), ?self\<lparr>px_item := None\<rparr>)"
      unfolding start PathExpander_next.simps [of T fs node ?self] by (auto simp: fetch_item_def next_for_path_def)
    from collect_one [OF this] show ?thesis
      using leaf idle Ok by (intro exI [of _ "?self\<lparr>px_item := None\<rparr>"]) (auto simp: item_expansion_def idle_def)
  qed
qed (use r in simp)

text \<open>Claim C4: on a node that does not change, with sorted endpoints and fewer than 65536 clusters and leaves each,
  the iterator ends, after one more call than it has results, and yields exactly the reference: for
  each requested item in order, a decoding error as it is, for a wildcard path every matching leaf
  that passes the filter and the access check and no error, for a concrete path that leaf, nothing if
  the filter rejects it, or the status that says which layer failed. The record of the last authorized
  path never changes the outcome.\<close>

theorem expansion_is_reference:
  assumes "endpoints_sorted (no_endpoints node)" "\<forall>ep \<in> set (no_endpoints node). endpoint_fits T ep"
    "Panic \<notin> set items" "length (concat (map (item_expansion T fs a timed flt node) items)) < n"
  shows "expander_collect T fs node n (PathExpander_new a timed (Some items) flt) =
    Some (concat (map (item_expansion T fs a timed flt node) items))"
proof -
  let ?U = "set (no_endpoints node)"
  have fit: "endpoints_fit T ?U"
    using assms(1,2) endpoints_sorted_inj by (auto simp: endpoints_fit_def)
  have "expander_collect T fs node (length (concat (map (item_expansion T fs a timed flt node) items)) + Suc k) self =
      Some (concat (map (item_expansion T fs a timed flt node) items))"
    if "idle T fs a timed flt ?U items self" "Panic \<notin> set items" for k self
    using that
  proof (induction items arbitrary: self k)
    case Nil
    then show ?case by (simp add: idle_def next_exhausted expander_collect.simps)
  next
    case (Cons r items)
    let ?r = "item_expansion T fs a timed flt node r" and ?rs = "concat (map (item_expansion T fs a timed flt node) items)"
    obtain s where s: "idle T fs a timed flt ?U items s"
        "\<And>k. expander_collect T fs node (length ?r + Suc k) self = map_option (append ?r) (expander_collect T fs node (Suc k) s)"
      using collect_item [OF Cons.prems(1) _ assms(1) fit] Cons.prems(2) by auto
    from s(2) [of "length ?rs + k"] Cons.IH [OF s(1), of k] Cons.prems(2) show ?case
      by (simp add: add.assoc)
  qed
  from this [of "PathExpander_new a timed (Some items) flt" "n - Suc (length (concat (map (item_expansion T fs a timed flt node) items)))"]
  show ?thesis
    using assms(3,4) by (simp add: idle_def PathExpander_new_def)
qed

theorem expansion_is_reference_witness:
  "expander_collect AttrReadPath_item Fabrics_new (Node_new [demo_endpoint 1, demo_endpoint 2]) 3
     (PathExpander_new pase_accessor False (Some [Ok demo_read]) (\<lambda>_ _ _. True)) =
   Some (map (expanded (query AttrReadPath_item Fabrics_new pase_accessor False (\<lambda>_ _ _. True) demo_read) demo_read)
     [(1, 6, 0, False), (2, 6, 0, False)])"
proof -
  have "item_expansion AttrReadPath_item Fabrics_new pase_accessor False (\<lambda>_ _ _. True)
      (Node_new [demo_endpoint 1, demo_endpoint 2]) (Ok demo_read) =
    map (expanded (query AttrReadPath_item Fabrics_new pase_accessor False (\<lambda>_ _ _. True) demo_read) demo_read)
      [(1, 6, 0, False), (2, 6, 0, False)]"
    using demo_expansion [of Fabrics_new "[1, 2]"]
    by (simp add: item_expansion_def Node_new_def GenericPath_is_wildcard_def demo_path GenericPath_new_def Let_def)
  then show ?thesis
    using expansion_is_reference [of "Node_new [demo_endpoint 1, demo_endpoint 2]" AttrReadPath_item "[Ok demo_read]"
        Fabrics_new pase_accessor False "\<lambda>_ _ _. True" 3]
    by (simp add: demo_fits endpoints_sorted_def Node_new_def)
qed

end
