(* ===== verification/Path_Authorization.thy ===== *)
theory Path_Authorization
  imports Path_Iteration
begin

section \<open>Access checks of the expansion\<close>

text \<open>
  Nothing is yielded without a check that succeeded, however the node and the access control lists
  change between the calls; what the record of the last authorized path stands for; an expansion that
  loses its place when a group command changes the group; and the two validations of subscription paths
  compared with the expansion.
\<close>

subsection \<open>Nothing is yielded without a successful check\<close>

text \<open>Whether an access check for the path, on this node and with these fabrics, succeeds.\<close>

definition path_granted ::
    "('t, 'x, 's) PathExpansionItem \<Rightarrow> Accessor \<Rightarrow> bool \<Rightarrow> Fabrics \<times> Node \<Rightarrow> u16 \<times> u32 \<times> u32 \<Rightarrow> bool" where
  "path_granted T a timed env p \<longleftrightarrow> (case (env, p) of ((fs, node), (e, c, l)) \<Rightarrow>
     \<exists>ep \<in> set (no_endpoints node). \<exists>cl \<in> set (en_clusters ep). en_id ep = e \<and> cl_id cl = c \<and>
       l \<in> set (cluster_leaves T cl) \<and> Accessor_is_endpoint_accessible fs e a \<and>
       leaf_access T fs a timed ep cl l = Inr ())"

text \<open>
  A loop that started with the record \<open>la\<close> leaves it alone, or sets it to the path it returns, which is
  the recorded one or has been granted.
\<close>

definition honest :: "(u16 \<times> u32 \<times> u32 \<Rightarrow> bool) \<Rightarrow> (u16 \<times> u32 \<times> u32) option \<Rightarrow> flow \<times> 't PathExpander \<Rightarrow> bool" where
  "honest G la r \<longleftrightarrow> (case fst r of
     Return (Inr (Some (e, c, l, array))) \<Rightarrow> px_last_authorized (snd r) = Some (e, c, l) \<and> (la = Some (e, c, l) \<or> G (e, c, l))
   | _ \<Rightarrow> px_last_authorized (snd r) = la)"

lemma honest_simps [simp]:
  "honest G la (Scan, self) \<longleftrightarrow> px_last_authorized self = la"
  "honest G la (Abort, self) \<longleftrightarrow> px_last_authorized self = la"
  "honest G la (Return (Inl status), self) \<longleftrightarrow> px_last_authorized self = la"
  "honest G la (Return (Inr None), self) \<longleftrightarrow> px_last_authorized self = la"
  "honest G la (Return (Inr (Some (e, c, l, array))), self) \<longleftrightarrow>
     px_last_authorized self = Some (e, c, l) \<and> (la = Some (e, c, l) \<or> G (e, c, l))"
  by (simp_all add: honest_def)

lemma visit_leaf_honest:
  assumes "ep \<in> set (no_endpoints node)" "cl \<in> set (en_clusters ep)" "l \<in> set (cluster_leaves T cl)"
    "Accessor_is_endpoint_accessible fs (en_id ep) (px_accessor self)"
  shows "honest (path_granted T (px_accessor self) (px_timed self) (fs, node)) (px_last_authorized self)
    (visit_leaf T fs path ep cl l self)"
  using assms
  by (cases "leaf_access T fs (px_accessor self) (px_timed self) ep cl l")
    (auto simp: path_granted_def visit_leaf_def check_leaf_def inc_leaf_index_def)

lemma leaf_loop_honest:
  assumes "ep \<in> set (no_endpoints node)" "cl \<in> set (en_clusters ep)"
    "Accessor_is_endpoint_accessible fs (en_id ep) (px_accessor self)"
  shows "honest (path_granted T (px_accessor self) (px_timed self) (fs, node)) (px_last_authorized self)
    (leaf_loop T fs path ep cl self)"
  using assms(3)
proof (induction "length (cluster_leaves T cl) - unat (px_leaf_index self)" arbitrary: self rule: less_induct)
  case less
  let ?ls = "cluster_leaves T cl" and ?i = "unat (px_leaf_index self)"
  let ?G = "path_granted T (px_accessor self) (px_timed self) (fs, node)"
  show ?case
  proof (cases "?i < length ?ls")
    case True
    obtain r self' where v: "visit_leaf T fs path ep cl (?ls ! ?i) self = (r, self')" by fastforce
    then have h: "honest ?G (px_last_authorized self) (r, self')"
      using visit_leaf_honest [OF assms(1,2) _ less.prems, of "?ls ! ?i" T path] True by simp
    show ?thesis
    proof (cases "r = Scan \<and> px_leaf_index self \<noteq> 0xFFFF")
      case scan: True
      let ?self = "self\<lparr>px_leaf_index := px_leaf_index self + 1\<rparr>"
      have "leaf_loop T fs path ep cl self = leaf_loop T fs path ep cl ?self"
        using True scan v visit_leaf_Scan by (subst leaf_loop.simps) (fastforce simp: inc_leaf_index_def)
      then show ?thesis
        using less.hyps [of ?self] less.prems True scan by (simp add: unat_inc_u16 diff_less_mono2)
    next
      case False
      then show ?thesis
        using True v h visit_leaf_Scan [of T fs path ep cl "?ls ! ?i" self self']
        by (subst leaf_loop.simps) (auto simp: inc_leaf_index_def split: flow.splits)
    qed
  qed (simp add: leaf_loop.simps)
qed

lemma visit_cluster_honest:
  assumes "ep \<in> set (no_endpoints node)" "cl \<in> set (en_clusters ep)"
    "Accessor_is_endpoint_accessible fs (en_id ep) (px_accessor self)"
  shows "honest (path_granted T (px_accessor self) (px_timed self) (fs, node)) (px_last_authorized self)
    (visit_cluster T fs path ep cl self)"
  using leaf_loop_honest [OF assms, of T path]
  by (auto simp: visit_cluster_def split: prod.splits flow.splits)

lemma cluster_loop_honest:
  assumes "ep \<in> set (no_endpoints node)" "Accessor_is_endpoint_accessible fs (en_id ep) (px_accessor self)"
  shows "honest (path_granted T (px_accessor self) (px_timed self) (fs, node)) (px_last_authorized self)
    (cluster_loop T fs path ep self)"
  using assms(2)
proof (induction "length (en_clusters ep) - unat (px_cluster_index self)" arbitrary: self rule: less_induct)
  case less
  let ?cs = "en_clusters ep" and ?c = "unat (px_cluster_index self)"
  let ?G = "path_granted T (px_accessor self) (px_timed self) (fs, node)"
  show ?case
  proof (cases "?c < length ?cs")
    case True
    obtain r self' where v: "visit_cluster T fs path ep (?cs ! ?c) self = (r, self')" by fastforce
    then have h: "honest ?G (px_last_authorized self) (r, self')"
      using visit_cluster_honest [OF assms(1) _ less.prems, of "?cs ! ?c" T path] True by simp
    have f: "px_accessor self' = px_accessor self" "px_timed self' = px_timed self" "px_cluster_index self' = px_cluster_index self"
      using visit_cluster_frame [of self T fs path ep "?cs ! ?c"] v by (simp_all add: same_cluster_def same_request_def)
    show ?thesis
    proof (cases "r = Scan \<and> px_cluster_index self \<noteq> 0xFFFF")
      case scan: True
      let ?self = "self'\<lparr>px_cluster_index := px_cluster_index self + 1\<rparr>"
      have "cluster_loop T fs path ep self = cluster_loop T fs path ep ?self"
        using True scan v f by (subst cluster_loop.simps) (simp add: inc_cluster_index_def)
      then show ?thesis
        using less.hyps [of ?self] less.prems True scan f h by (simp add: unat_inc_u16 diff_less_mono2)
    next
      case False
      then show ?thesis
        using True v h f by (subst cluster_loop.simps) (auto simp: inc_cluster_index_def split: flow.splits)
    qed
  qed (simp add: cluster_loop.simps)
qed

lemma endpoint_loop_honest:
  assumes "set eps \<subseteq> set (no_endpoints node)"
  shows "honest (path_granted T (px_accessor self) (px_timed self) (fs, node)) (px_last_authorized self)
    (endpoint_loop T fs path eps self)"
  using assms
proof (induction eps arbitrary: self)
  case (Cons ep eps)
  let ?G = "path_granted T (px_accessor self) (px_timed self) (fs, node)"
  obtain r self' where v: "visit_endpoint T fs path ep self = (r, self')" by fastforce
  have h: "honest ?G (px_last_authorized self) (r, self')"
    using cluster_loop_honest [of ep node fs "self\<lparr>px_endpoint_id := Some (en_id ep)\<rparr>" T path] v Cons.prems
    by (auto simp: visit_endpoint_def Let_def split: if_splits prod.splits flow.splits)
  have "px_accessor self' = px_accessor self" "px_timed self' = px_timed self"
    using visit_endpoint_frame [of self T fs path ep] v by (simp_all add: same_request_def)
  then show ?case
    using Cons.IH [of self'] Cons.prems v h by (auto split: flow.splits)
qed simp

lemma honest_Return:
  assumes "honest G la (Return v, self)"
  shows "(\<exists>e c l array. v = Inr (Some (e, c, l, array)) \<and> px_last_authorized self = Some (e, c, l) \<and>
      (la = Some (e, c, l) \<or> G (e, c, l))) \<or> (\<forall>t. v \<noteq> Inr (Some t)) \<and> px_last_authorized self = la"
  using assms by (auto simp: honest_def split: sum.splits option.splits)

lemma next_for_path_honest:
  assumes "next_for_path T fs node self = (r, self')"
  shows "(\<exists>e c l array. r = Some (Inr (Some (e, c, l, array))) \<and> px_last_authorized self' = Some (e, c, l) \<and>
      (px_last_authorized self = Some (e, c, l) \<or>
       path_granted T (px_accessor self) (px_timed self) (fs, node) (e, c, l))) \<or>
    (\<forall>t. r \<noteq> Some (Inr (Some t))) \<and> px_last_authorized self' = px_last_authorized self"
proof -
  obtain i self1 where res: "resume_endpoint_index node self = (i, self1)" by fastforce
  have same: "px_last_authorized self1 = px_last_authorized self" "px_accessor self1 = px_accessor self"
    "px_timed self1 = px_timed self"
    using res by (auto simp: resume_endpoint_index_def split: option.splits if_splits sum.splits)
  have "honest (path_granted T (px_accessor self) (px_timed self) (fs, node)) (px_last_authorized self)
      (endpoint_loop T fs path (drop k (no_endpoints node)) self1)" for path k
    using endpoint_loop_honest [OF set_drop_subset, where self = self1] by (simp add: same)
  then have h: "honest (path_granted T (px_accessor self) (px_timed self) (fs, node)) (px_last_authorized self) (f, s)"
    if "endpoint_loop T fs path (drop k (no_endpoints node)) self1 = (f, s)" for path k f s
    using that by metis
  note ret = honest_Return [OF h]
  show ?thesis
  proof (cases "px_item self")
    case (Some item)
    obtain f s where loop: "endpoint_loop T fs (pi_path T item) (drop (the i) (no_endpoints node)) self1 = (f, s)" by fastforce
    then show ?thesis
      using assms same Some ret [of "pi_path T item" "the i"] h [OF loop]
      by (cases i; cases f) (auto simp: next_for_path_def Let_def res split: if_splits)
  qed (use assms in \<open>simp add: next_for_path_def\<close>)
qed

text \<open>The same for \<^verbatim>\<open>next\<close>, which may go through several items before it yields.\<close>

lemma fetch_item_same:
  "fetch_item self = (r, self') \<Longrightarrow> px_last_authorized self' = px_last_authorized self \<and>
     px_accessor self' = px_accessor self \<and> px_timed self' = px_timed self"
  by (auto simp: fetch_item_def Let_def split: if_splits option.splits list.splits res.splits)

lemma fetch_item_result: "fetch_item self = (Some r, self') \<Longrightarrow> r \<noteq> Some (Ok x)"
  by (auto simp: fetch_item_def Let_def split: if_splits option.splits list.splits res.splits)

definition next_authorized ::
    "('t, 'x, 's) PathExpansionItem \<Rightarrow> Fabrics \<times> Node \<Rightarrow> 't PathExpander \<Rightarrow> ('x, 's) expansion option \<times> 't PathExpander \<Rightarrow> bool" where
  "next_authorized T env self r \<longleftrightarrow> px_accessor (snd r) = px_accessor self \<and> px_timed (snd r) = px_timed self \<and>
     (px_last_authorized (snd r) = px_last_authorized self \<or>
      (\<exists>p. px_last_authorized (snd r) = Some p \<and> path_granted T (px_accessor self) (px_timed self) env p)) \<and>
     (\<forall>x. fst r = Some (Ok (Inr x)) \<longrightarrow> (\<exists>e c l array item. px_last_authorized (snd r) = Some (e, c, l) \<and>
        pi_expand T (px_accessor self) e c l array item = Ok x))"

lemma next_is_authorized: "next_authorized T (fs, node) self (PathExpander_next T fs node self)"
proof (induction T fs node self rule: PathExpander_next.induct)
  case (1 T fs node self0)
  obtain f self where f: "fetch_item self0 = (f :: ('b, 'c) expansion option option, self)" by fastforce
  note same = fetch_item_same [OF f]
  show ?case
  proof (cases f)
    case (Some r)
    then show ?thesis
      using f same fetch_item_result [of self0 r self] by (auto simp: next_authorized_def PathExpander_next.simps [of T fs node self0])
  next
    case None
    show ?thesis
    proof (cases "px_item self")
      case no: None
      then show ?thesis using f same None by (auto simp: next_authorized_def PathExpander_next.simps [of T fs node self0])
    next
      case item: (Some item)
      obtain r s where n: "next_for_path T fs node self = (r, s)" by fastforce
      have req: "px_accessor s = px_accessor self0" "px_timed s = px_timed self0"
        using next_for_path_frame [of self T fs node] n same by (auto simp: same_request_def)
      note h = next_for_path_honest [OF n]
      show ?thesis
      proof (cases "r = Some (Inr None)")
        case True
        then have "PathExpander_next T fs node self0 = PathExpander_next T fs node (s\<lparr>px_item := None\<rparr>)"
          using f None item n by (simp add: PathExpander_next.simps [of T fs node self0])
        moreover have "next_authorized T (fs, node) (s\<lparr>px_item := None\<rparr>) (PathExpander_next T fs node (s\<lparr>px_item := None\<rparr>))"
          using 1 [OF f [symmetric] None item n [symmetric] True] by simp
        ultimately show ?thesis
          using h True req same by (auto simp: next_authorized_def)
      next
        case False
        then show ?thesis
          using f None item n h req same
          by (auto simp: next_authorized_def PathExpander_next.simps [of T fs node self0] res_bind_ok_iff
              split: option.splits sum.splits) blast+
      qed
    qed
  qed
qed

fun expander_run :: "('t, 'x, 's) PathExpansionItem \<Rightarrow> (Fabrics \<times> Node) list \<Rightarrow> 't PathExpander \<Rightarrow> 't PathExpander" where
  "expander_run T [] self = self"
| "expander_run T (env # envs) self = expander_run T envs (snd (PathExpander_next T (fst env) (snd env) self))"

lemma expander_run_snoc:
  "expander_run T (envs @ [env]) self = snd (PathExpander_next T (fst env) (snd env) (expander_run T envs self))"
  by (induction envs arbitrary: self) simp_all

text \<open>A granted path stays recorded from the call that checked it on.\<close>

definition granted_since ::
    "('t, 'x, 's) PathExpansionItem \<Rightarrow> Accessor \<Rightarrow> bool \<Rightarrow> (Fabrics \<times> Node) list \<Rightarrow> 't PathExpander \<Rightarrow> u16 \<times> u32 \<times> u32 \<Rightarrow> bool" where
  "granted_since T a timed envs self p \<longleftrightarrow> (\<exists>i < length envs. path_granted T a timed (envs ! i) p \<and>
     (\<forall>j. i < j \<and> j \<le> length envs \<longrightarrow> px_last_authorized (expander_run T (take j envs) self) = Some p))"

lemma run_authorized:
  assumes new: "px_last_authorized self = None" "px_accessor self = a" "px_timed self = timed"
  shows "px_accessor (expander_run T envs self) = a \<and> px_timed (expander_run T envs self) = timed \<and>
    (\<forall>p. px_last_authorized (expander_run T envs self) = Some p \<longrightarrow> granted_since T a timed envs self p)"
proof (induction envs rule: rev_induct)
  case Nil
  then show ?case using new by simp
next
  case (snoc env envs)
  let ?s = "expander_run T envs self" and ?s' = "expander_run T (envs @ [env]) self"
  have step: "next_authorized T env ?s (PathExpander_next T (fst env) (snd env) ?s)"
    using next_is_authorized [of T "fst env" "snd env" ?s] by simp
  have "granted_since T a timed (envs @ [env]) self p" if p: "px_last_authorized ?s' = Some p" for p
  proof (cases "path_granted T a timed env p")
    case True
    then show ?thesis
      unfolding granted_since_def using p by (intro exI [of _ "length envs"]) (auto simp: nth_append le_Suc_eq)
  next
    case False
    then have "px_last_authorized ?s = Some p"
      using step p snoc by (auto simp: next_authorized_def expander_run_snoc)
    then obtain i where i: "i < length envs" "path_granted T a timed (envs ! i) p"
        "\<forall>j. i < j \<and> j \<le> length envs \<longrightarrow> px_last_authorized (expander_run T (take j envs) self) = Some p"
      using snoc by (auto simp: granted_since_def)
    then show ?thesis
      unfolding granted_since_def using p by (intro exI [of _ i]) (auto simp: nth_append le_Suc_eq)
  qed
  then show ?case
    using step snoc by (simp add: next_authorized_def expander_run_snoc)
qed

text \<open>Claim C3: whatever happens to the node and to the access control lists between the calls of one request, a path
  is yielded only if an access check for exactly that endpoint, cluster and leaf succeeded, in this
  call or in an earlier one since which no other path has been yielded; this is what lets the writes
  that replace a list go on after the first of them has changed the access control list itself.\<close>

theorem expansion_authorized:
  assumes "PathExpander_next T fs node (expander_run T envs (PathExpander_new a timed items flt)) = (Some (Ok (Inr x)), self')"
  shows "\<exists>e c l array item. pi_expand T a e c l array item = Ok x \<and>
    granted_since T a timed (envs @ [(fs, node)]) (PathExpander_new a timed items flt) (e, c, l)"
proof -
  let ?new = "PathExpander_new a timed items flt"
  have new: "px_last_authorized ?new = None" "px_accessor ?new = a" "px_timed ?new = timed"
    by (simp_all add: PathExpander_new_def)
  have "px_accessor (expander_run T envs ?new) = a" using run_authorized [OF new, of T envs] by simp
  then obtain e c l array item where "px_last_authorized self' = Some (e, c, l)" "pi_expand T a e c l array item = Ok x"
    using next_is_authorized [of T fs node "expander_run T envs ?new"] assms by (auto simp: next_authorized_def)
  moreover have "self' = expander_run T (envs @ [(fs, node)]) ?new" using assms by (simp add: expander_run_snoc)
  ultimately show ?thesis using run_authorized [OF new, of T "envs @ [(fs, node)]"] by blast
qed

lemmas expander_eval = PathExpander_next.simps fetch_item_def next_for_path_def resume_endpoint_index_def
  visit_endpoint_def cluster_loop.simps visit_cluster_def leaf_loop.simps visit_leaf_def check_leaf_def
  inc_leaf_index_def inc_cluster_index_def path_has_def binary_search_by_key_def PathExpander_new_def Node_new_def Let_def

lemma demo_next:
  "\<exists>s. PathExpander_next AttrReadPath_item fs (Node_new [demo_endpoint 1])
     (PathExpander_new pase_accessor False (Some [Ok demo_read]) (\<lambda>_ _ _. True)) =
   (Some (expanded (query AttrReadPath_item fs pase_accessor False (\<lambda>_ _ _. True) demo_read) demo_read
     (1, 6, 0, leaf_is_array AttrReadPath_item demo_cluster 0)), s)"
  by (simp add: expander_eval demo_path demo_granted GenericPath_new_def GenericPath_is_wildcard_def
      Accessor_is_endpoint_accessible_def expanded_def)

theorem expansion_authorized_witness:
  "\<exists>x self'. PathExpander_next AttrReadPath_item Fabrics_new (Node_new [demo_endpoint 1])
      (PathExpander_new pase_accessor False (Some [Ok demo_read]) (\<lambda>_ _ _. True)) = (Some (Ok (Inr x)), self') \<and>
    (\<exists>e c l array item. pi_expand AttrReadPath_item pase_accessor e c l array item = Ok x \<and>
       granted_since AttrReadPath_item pase_accessor False [(Fabrics_new, Node_new [demo_endpoint 1])]
         (PathExpander_new pase_accessor False (Some [Ok demo_read]) (\<lambda>_ _ _. True)) (e, c, l))"
proof -
  obtain s x where "PathExpander_next AttrReadPath_item Fabrics_new (Node_new [demo_endpoint 1])
      (expander_run AttrReadPath_item [] (PathExpander_new pase_accessor False (Some [Ok demo_read]) (\<lambda>_ _ _. True))) =
      (Some (Ok (Inr x)), s)"
    using demo_next [of Fabrics_new] by (auto simp: expanded_def AttrReadPath_item_def demo_read_def dataver_def)
  from this expansion_authorized [OF this] show ?thesis by auto
qed

subsection \<open>A group command that leaves the group\<close>

text \<open>Two endpoints of group 7 with the Groups cluster and its command to leave all groups.\<close>

definition groups_cluster :: Cluster where
  "groups_cluster = Cluster_new 4 4 0 [] [Command_new 4 None (WRITE OR NEED_MANAGE OR NEED_ADMIN OR FAB_SCOPED)] []
     (\<lambda>_ _ _. True) (\<lambda>_ _ _. True) (\<lambda>_ _ _. True)"

definition groups_node :: Node where
  "groups_node = Node_new [Endpoint_new 1 [] [groups_cluster], Endpoint_new 2 [] [groups_cluster]]"

definition groups_fabric :: Fabric where
  "groups_fabric = (Fabric_init 1)
     \<lparr>fa_acl := [(AclEntry_new (Some 1) Privilege_MANAGE AuthGroup)\<lparr>ae_subjects := Some [7]\<rparr>],
      fa_groups := Groups_init\<lparr>gr_endpoint_mapping := [\<lparr>gm_group_id = 7, gm_endpoints = [1, 2], gm_group_name = []\<rparr>]\<rparr>\<rparr>"

definition groups_before :: Fabrics where
  "groups_before = \<lparr>fs_fabrics = [groups_fabric]\<rparr>"

text \<open>After the handler has run for endpoint 1: \<^verbatim>\<open>groups_mut().remove(endpoint_id, None)\<close>.\<close>

definition groups_after :: Fabrics where
  "groups_after = \<lparr>fs_fabrics = [groups_fabric\<lparr>fa_groups := snd (Groups_remove 1 None (fa_groups groups_fabric))\<rparr>]\<rparr>"

definition group_accessor :: Accessor where
  "group_accessor = Accessor_new 1 (AccessorSubjects_new 7) (Some AuthGroup)"

definition leave_all_groups :: CmdData where
  "leave_all_groups = \<lparr>cd_path = CmdPath_new None (Some 4) (Some 4), cd_data = [], cd_command_ref = None\<rparr>"

definition group_expander :: "CmdData PathExpander" where
  "group_expander = PathExpander_new group_accessor False (Some [Ok leave_all_groups]) (\<lambda>_ _ _. True)"

lemma group_simps:
  "pi_path CmdData_item leave_all_groups = GenericPath_new None (Some 4) (Some 4)" "is_invoke CmdData_item"
  "\<not> is_attr_read CmdData_item" "cluster_leaves CmdData_item groups_cluster = [4]" "cl_id groups_cluster = 4"
  by (simp_all add: CmdData_item_def leave_all_groups_def CmdPath_to_gp_def CmdPath_new_def is_invoke_def is_attr_read_def
      cluster_leaves_def groups_cluster_def Cluster_new_def Cluster_commands_def Command_new_def)

lemma group_members:
  "Accessor_is_endpoint_accessible groups_before i group_accessor \<longleftrightarrow> i = 1 \<or> i = 2"
  "Accessor_is_endpoint_accessible groups_after i group_accessor \<longleftrightarrow> i = 2"
  by (simp_all add: Accessor_is_endpoint_accessible_def groups_before_def groups_after_def groups_fabric_def
      group_accessor_def Accessor_new_def AccessorSubjects_new_def Fabrics_get_def Groups_get_def Groups_remove_def
      leave_group_def Fabric_init_def Groups_init_def Let_def)

lemma group_granted:
  assumes "fs = groups_before \<or> fs = groups_after"
  shows "leaf_access CmdData_item fs group_accessor False (Endpoint_new i [] [groups_cluster]) groups_cluster 4 = Inr ()"
proof -
  obtain f where f: "Fabrics_get 1 fs = Some f" "fa_acl f = [(AclEntry_new (Some 1) Privilege_MANAGE AuthGroup)\<lparr>ae_subjects := Some [7]\<rparr>]"
    using assms by (auto simp: groups_before_def groups_after_def Fabrics_get_def groups_fabric_def Fabric_init_def)
  have perms: "access_of cm_access (find (\<lambda>cmd. cm_id cmd = 4) (cl_commands groups_cluster)) =
      WRITE OR NEED_MANAGE OR NEED_ADMIN OR FAB_SCOPED"
    by (simp add: access_of_def groups_cluster_def Cluster_new_def Command_new_def)
  have "\<not> access_contains (WRITE OR NEED_MANAGE OR NEED_ADMIN OR FAB_SCOPED) TIMED_ONLY"
    by (simp add: access_contains_def WRITE_def NEED_MANAGE_def NEED_ADMIN_def FAB_SCOPED_def TIMED_ONLY_def)
  moreover have "Fabrics_allow (AccessReq_set_target_perms (WRITE OR NEED_MANAGE OR NEED_ADMIN OR FAB_SCOPED)
      (AccessReq_new_with_device_types group_accessor path WRITE [])) fs" for path
    using f by (simp add: Fabrics_allow_def Fabric_allow_def AclEntry_allow_def AclEntry_match_accessor_def
        AclEntry_match_access_desc_def AclEntry_new_def AccessReq_set_target_perms_def AccessReq_new_with_device_types_def
        group_accessor_def Accessor_new_def Accessor_fab_idx_def AccessorSubjects_matches_def AccessorSubjects_new_def
        Access_is_ok_def access_contains_def READ_def WRITE_def NEED_MANAGE_def NEED_ADMIN_def NEED_OPERATE_def
        FAB_SCOPED_def WRITE_PRIVILEGE_MASK_def privilege_defs)
  ultimately show ?thesis
    using perms by (simp add: leaf_access_def group_simps Cluster_check_cmd_access_def Let_def Endpoint_new_def
        group_accessor_def Accessor_new_def)
qed


subsection \<open>Validation of a concrete path agrees with its expansion\<close>

lemma read_leaves:
  "cluster_leaves AttrReadPath_item cl = map at_id (Cluster_attributes cl)" "\<not> is_invoke AttrReadPath_item"
  by (simp_all add: cluster_leaves_def is_invoke_def AttrReadPath_item_def)

lemma leaf_access_read:
  "leaf_access AttrReadPath_item fs a timed ep cl l =
     Cluster_check_attr_access fs a timed (GenericPath_new (Some (en_id ep)) (Some (cl_id cl)) (Some l))
       (en_device_types ep) False l cl"
  by (simp add: leaf_access_def is_invoke_def is_attr_read_def AttrReadPath_item_def Let_def)

lemma map_sum_unit: "map_sum id (\<lambda>_. ()) (map_sum id (\<lambda>_. x) r) = r"
  by (cases r) simp_all

lemma find_map_id: "find (\<lambda>i. i = l) (map f xs) = map_option f (find (\<lambda>x. f x = l) xs)"
  by (induction xs) auto



text \<open>
  A wildcard path of a subscription is accepted when some attribute the metadata lists is readable,
  which follows from a reference expansion that is not empty.
\<close>

lemma accessible_if_expansion:
  assumes "node_expansion (query AttrReadPath_item fs a False (\<lambda>_ _ _. True)
      \<lparr>rp_path = path, rp_dataver_filters = filters, rp_fabric_filtered = fab\<rparr>) (no_endpoints node) \<noteq> []"
  shows "Node_has_accessible_attr fs path a node"
proof -
  let ?item = "\<lparr>rp_path = path, rp_dataver_filters = filters, rp_fabric_filtered = fab\<rparr>"
  have path: "pi_path AttrReadPath_item ?item = AttrPath_to_gp path" by (simp add: AttrReadPath_item_def)
  obtain e c l array where "(e, c, l, array) \<in> set (node_expansion (query AttrReadPath_item fs a False (\<lambda>_ _ _. True) ?item) (no_endpoints node))"
    using assms by (cases "node_expansion (query AttrReadPath_item fs a False (\<lambda>_ _ _. True) ?item) (no_endpoints node)") auto
  then obtain ep cl where *: "ep \<in> set (no_endpoints node)" "cl \<in> set (en_clusters ep)"
      "path_has (ap_endpoint path) (en_id ep)" "path_has (ap_cluster path) (cl_id cl)" "path_has (ap_attr path) l"
      "l \<in> set (map at_id (Cluster_attributes cl))"
      "Cluster_check_attr_access fs a False (GenericPath_new (Some (en_id ep)) (Some (cl_id cl)) (Some l)) (en_device_types ep) False l cl = Inr ()"
    unfolding node_expansion_set
    by (auto simp: endpoint_open_def path AttrPath_to_gp_def GenericPath_new_def leaf_selected_def leaf_granted_def
        leaf_access_read read_leaves)
  from *(6) obtain attr where "attr \<in> set (cl_attributes cl)" "at_id attr = l" by (auto simp: Cluster_attributes_def)
  with * show ?thesis
    unfolding Node_has_accessible_attr_def
    by (intro bexI [of _ ep] conjI bexI [of _ cl] bexI [of _ attr]) (auto simp: path_has_def split: option.splits)
qed

text \<open>
  The converse fails: \<^verbatim>\<open>has_accessible_attr\<close> goes through all attributes of the metadata, also those
  \<^verbatim>\<open>with_attrs\<close> excludes.
\<close>

lemma accessible_but_excluded:
  "Node_has_accessible_attr Fabrics_new (rp_path demo_read) pase_accessor
     (Node_new [Endpoint_new 1 [] [Cluster_with_attrs (\<lambda>_ _ _. False) demo_cluster]]) \<and>
   node_expansion (query AttrReadPath_item Fabrics_new pase_accessor False (\<lambda>_ _ _. True) demo_read)
     [Endpoint_new 1 [] [Cluster_with_attrs (\<lambda>_ _ _. False) demo_cluster]] = []"
proof -
  let ?cl = "Cluster_with_attrs (\<lambda>_ _ _. False) demo_cluster"
  have cl: "cl_id ?cl = 6" "cl_attributes ?cl = [Attribute_new 0 Access_RV Quality_NONE]" "Cluster_attributes ?cl = []"
    by (simp_all add: Cluster_with_attrs_def demo_cluster_def Cluster_new_def Cluster_attributes_def)
  have "Cluster_check_attr_access Fabrics_new pase_accessor False path [] False 0 ?cl =
      Cluster_check_attr_access Fabrics_new pase_accessor False path [] False 0 demo_cluster" for path
    by (simp add: Cluster_check_attr_access_def Cluster_with_attrs_def)
  then have "Cluster_check_attr_access Fabrics_new pase_accessor False
      (GenericPath_new (Some 1) (Some 6) (Some 0)) [] False 0 ?cl = Inr ()"
    using demo_granted [of Fabrics_new 1] by (simp add: leaf_access_read demo_endpoint_def Endpoint_new_def)
  then have "Node_has_accessible_attr Fabrics_new (rp_path demo_read) pase_accessor (Node_new [Endpoint_new 1 [] [?cl]])"
    by (simp add: Node_has_accessible_attr_def Node_new_def Endpoint_new_def cl Attribute_new_def demo_read_def
        AttrPath_from_gp_def GenericPath_new_def)
  moreover have "cluster_leaves AttrReadPath_item ?cl = []" by (simp add: read_leaves cl)
  ultimately show ?thesis
    by (simp add: node_expansion_def endpoint_part_def Endpoint_new_def cluster_part_def)
qed

end
