(* ===== verification/Events.thy ===== *)
theory Events
  imports Data_Model Tlv_Lookup Tlv_Scalars Persist
begin

section \<open>The event queue\<close>

text \<open>
  \<^verbatim>\<open>dm/events.rs\<close> and the event structures of \<^verbatim>\<open>im/event.rs\<close>. Every event is written as TLV into the buffer of the debug
  level; to make room the oldest event of a buffer is evicted and, if its priority is high enough, moved to the next buffer, which
  may evict in turn. The buffers have \<open>N\<close> bytes each. The loops are \<open>partial_function\<close>s, so that a loop which does not
  end is the value \<open>None\<close>. The methods \<^verbatim>\<open>evict\<close> and \<^verbatim>\<open>promote\<close> call each other; the model passes the eviction from the
  destination to \<^verbatim>\<open>promote\<close>. The closure that writes the data of an event is an argument, like the time.
\<close>

subsection \<open>Loops in the state-and-result monad\<close>

type_synonym ('s, 'a) lsr = "'s \<Rightarrow> ('a res \<times> 's) option"

definition ls_lift :: "('s, 'a) sr \<Rightarrow> ('s, 'a) lsr" where
  "ls_lift m = (\<lambda>s. Some (m s))"

definition ls_bind :: "('s, 'a) lsr \<Rightarrow> ('a \<Rightarrow> ('s, 'b) lsr) \<Rightarrow> ('s, 'b) lsr" where
  "ls_bind m f = (\<lambda>s. Option.bind (m s) (\<lambda>(r, s'). case r of
     Ok x \<Rightarrow> f x s' | Err e \<Rightarrow> Some (Err e, s') | Panic \<Rightarrow> Some (Panic, s')))"

abbreviation ls_then :: "('s, 'a) lsr \<Rightarrow> ('s, 'b) lsr \<Rightarrow> ('s, 'b) lsr" where
  "ls_then m k \<equiv> ls_bind m (\<lambda>_. k)"

abbreviation ls_return :: "'a \<Rightarrow> ('s, 'a) lsr" where
  "ls_return x \<equiv> ls_lift (sr_return x)"

text \<open>A reader that contains such a loop, and \<^verbatim>\<open>unwrap!\<close>.\<close>

definition ro_bind :: "'a res option \<Rightarrow> ('a \<Rightarrow> 'b res option) \<Rightarrow> 'b res option" where
  "ro_bind m f = Option.bind m (\<lambda>r. case r of Ok x \<Rightarrow> f x | Err e \<Rightarrow> Some (Err e) | Panic \<Rightarrow> Some Panic)"

definition res_unwrap :: "'a res \<Rightarrow> 'a res" where
  "res_unwrap r = (case r of Ok x \<Rightarrow> Ok x | _ \<Rightarrow> Panic)"

subsection \<open>Events\<close>

datatype EventPriority = Debug | Info | Critical

fun EventPriority_as_u8 :: "EventPriority \<Rightarrow> u8" where
  "EventPriority_as_u8 Debug = 0"
| "EventPriority_as_u8 Info = 1"
| "EventPriority_as_u8 Critical = 2"

fun EventPriority_next :: "EventPriority \<Rightarrow> EventPriority option" where
  "EventPriority_next Debug = Some Info"
| "EventPriority_next Info = Some Critical"
| "EventPriority_next Critical = None"

fun EventPriority_prev :: "EventPriority \<Rightarrow> EventPriority option" where
  "EventPriority_prev Debug = None"
| "EventPriority_prev Info = Some Debug"
| "EventPriority_prev Critical = Some Info"

definition EventPriority_from_tlv :: "TLVElement \<Rightarrow> EventPriority res" where
  "EventPriority_from_tlv element = res_bind (TLVElement_u8 element) (\<lambda>v.
     if v = 0 then Ok Debug else if v = 1 then Ok Info else if v = 2 then Ok Critical else Err Invalid)"

datatype EventDataTimestamp =
    EpochTimestamp u64 | SystemTimestamp u64 | DeltaEpochTimestamp u64 | DeltaSystemTimestamp u64

datatype EventDataTag =
    Path_tag | EventNumber_tag | Priority_tag | EpochTimestamp_tag | SystemTimestamp_tag
  | DeltaEpochTimestamp_tag | DeltaSystemTimestamp_tag | Data_tag

fun EventDataTag_as_u8 :: "EventDataTag \<Rightarrow> u8" where
  "EventDataTag_as_u8 Path_tag = 0"
| "EventDataTag_as_u8 EventNumber_tag = 1"
| "EventDataTag_as_u8 Priority_tag = 2"
| "EventDataTag_as_u8 EpochTimestamp_tag = 3"
| "EventDataTag_as_u8 SystemTimestamp_tag = 4"
| "EventDataTag_as_u8 DeltaEpochTimestamp_tag = 5"
| "EventDataTag_as_u8 DeltaSystemTimestamp_tag = 6"
| "EventDataTag_as_u8 Data_tag = 7"

definition EventDataTag_try_from :: "u8 \<Rightarrow> EventDataTag res" where
  "EventDataTag_try_from v = res_ok_or Invalid (find (\<lambda>t. EventDataTag_as_u8 t = v)
     [Path_tag, EventNumber_tag, Priority_tag, EpochTimestamp_tag, SystemTimestamp_tag,
      DeltaEpochTimestamp_tag, DeltaSystemTimestamp_tag, Data_tag])"

record EventData =
  ed_path :: EventPath
  ed_event_number :: u64
  ed_priority :: EventPriority
  ed_timestamp :: EventDataTimestamp
  ed_data :: TLVElement

definition EVENT_TAG :: TLVTag where "EVENT_TAG = Context 1"

definition EVENT_DATA_TAG :: TLVTag where "EVENT_DATA_TAG = Context (EventDataTag_as_u8 Data_tag)"

subsubsection \<open>Reading an event\<close>

definition option_from_tlv :: "(TLVElement \<Rightarrow> 'a res) \<Rightarrow> TLVElement \<Rightarrow> 'a option res" where
  "option_from_tlv f element = (if element = [] then Ok None else res_bind (f element) (\<lambda>x. Ok (Some x)))"

definition scan_field :: "u8 \<Rightarrow> (TLVElement \<Rightarrow> 'a res) \<Rightarrow> TLVSequence \<Rightarrow>
    ('a option \<Rightarrow> TLVSequence \<Rightarrow> 'b res option) \<Rightarrow> 'b res option" where
  "scan_field ctx f seq k = Option.bind (TLVSequence_scan_ctx ctx seq) (\<lambda>(r, seq').
     ro_bind (Some (res_bind r (option_from_tlv f))) (\<lambda>x. k x seq'))"

definition EventPath_from_tlv :: "TLVElement \<Rightarrow> EventPath res option" where
  "EventPath_from_tlv element = ro_bind (Some (TLVElement_list element)) (\<lambda>seq.
     scan_field 0 TLVElement_u64 seq (\<lambda>node seq.
     scan_field 1 TLVElement_u16 seq (\<lambda>endpoint seq.
     scan_field 2 TLVElement_u32 seq (\<lambda>cluster seq.
     scan_field 3 TLVElement_u32 seq (\<lambda>event seq.
     scan_field 4 TLVElement_bool seq (\<lambda>is_urgent seq.
       Some (Ok \<lparr>vp_node = node, vp_endpoint = endpoint, vp_cluster = cluster, vp_event = event,
         vp_is_urgent = is_urgent\<rparr>)))))))"

record EventDataFields =
  ef_path :: "EventPath option"
  ef_event_number :: "u64 option"
  ef_priority :: "EventPriority option"
  ef_timestamp :: "EventDataTimestamp option"
  ef_data :: "TLVElement option"

definition EventData_field :: "TLVElement \<Rightarrow> EventDataFields \<Rightarrow> EventDataFields res option" where
  "EventData_field el a = ro_bind (Some (TLVElement_tag el)) (\<lambda>tag. case tag of
       Context t \<Rightarrow> ro_bind (Some (EventDataTag_try_from t)) (\<lambda>t. case t of
           Path_tag \<Rightarrow> ro_bind (EventPath_from_tlv el) (\<lambda>p. Some (Ok (a\<lparr>ef_path := Some p\<rparr>)))
         | EventNumber_tag \<Rightarrow> ro_bind (Some (TLVElement_u64 el)) (\<lambda>n. Some (Ok (a\<lparr>ef_event_number := Some n\<rparr>)))
         | Priority_tag \<Rightarrow> ro_bind (Some (EventPriority_from_tlv el)) (\<lambda>p. Some (Ok (a\<lparr>ef_priority := Some p\<rparr>)))
         | EpochTimestamp_tag \<Rightarrow> ro_bind (Some (TLVElement_u64 el)) (\<lambda>n. Some (Ok (a\<lparr>ef_timestamp := Some (EpochTimestamp n)\<rparr>)))
         | SystemTimestamp_tag \<Rightarrow> ro_bind (Some (TLVElement_u64 el)) (\<lambda>n. Some (Ok (a\<lparr>ef_timestamp := Some (SystemTimestamp n)\<rparr>)))
         | DeltaEpochTimestamp_tag \<Rightarrow> ro_bind (Some (TLVElement_u64 el)) (\<lambda>n. Some (Ok (a\<lparr>ef_timestamp := Some (DeltaEpochTimestamp n)\<rparr>)))
         | DeltaSystemTimestamp_tag \<Rightarrow> ro_bind (Some (TLVElement_u64 el)) (\<lambda>n. Some (Ok (a\<lparr>ef_timestamp := Some (DeltaSystemTimestamp n)\<rparr>)))
         | Data_tag \<Rightarrow> Some (Ok (a\<lparr>ef_data := Some el\<rparr>)))
     | _ \<Rightarrow> Some (Err Invalid))"

function EventData_fields_loop :: "TLVSequence \<Rightarrow> EventDataFields \<Rightarrow> EventDataFields res option" where
  "EventData_fields_loop seq a = (case TLVSequenceIter_next seq of
       (Ok None, _) \<Rightarrow> Some (Ok a)
     | (Ok (Some el), seq') \<Rightarrow> ro_bind (EventData_field el a) (\<lambda>a'. EventData_fields_loop seq' a')
     | (Err e, _) \<Rightarrow> Some (Err e)
     | (Panic, _) \<Rightarrow> Some Panic)"
  by pat_completeness auto

termination EventData_fields_loop
  by (relation "measure (length \<circ> fst)") (auto dest: iter_next_shorter)

declare EventData_fields_loop.simps [simp del]

definition EventData_from_tlv :: "TLVElement \<Rightarrow> EventData res option" where
  "EventData_from_tlv element = ro_bind (Some (TLVElement_structure element)) (\<lambda>seq.
     ro_bind (EventData_fields_loop seq \<lparr>ef_path = None, ef_event_number = None, ef_priority = None,
       ef_timestamp = None, ef_data = None\<rparr>) (\<lambda>a.
     Some (res_bind (res_ok_or Invalid (ef_path a)) (\<lambda>path.
       res_bind (res_ok_or Invalid (ef_event_number a)) (\<lambda>event_number.
       res_bind (res_ok_or Invalid (ef_priority a)) (\<lambda>priority.
       res_bind (res_ok_or Invalid (ef_timestamp a)) (\<lambda>timestamp.
       res_bind (res_ok_or Invalid (ef_data a)) (\<lambda>data.
         Ok \<lparr>ed_path = path, ed_event_number = event_number, ed_priority = priority,
           ed_timestamp = timestamp, ed_data = data\<rparr>))))))))"

subsection \<open>One buffer\<close>

record EventsBuf =
  eb_data :: bytes
  eb_head :: nat

datatype OverflowError = OverflowError

definition EventsBuf_new :: "nat \<Rightarrow> EventsBuf" where
  "EventsBuf_new N = \<lparr>eb_data = replicate N 0, eb_head = 0\<rparr>"

definition EventsBuf_reset :: "EventsBuf \<Rightarrow> EventsBuf" where
  "EventsBuf_reset b = b\<lparr>eb_head := 0\<rparr>"

definition EventsBuf_rewind_by :: "nat \<Rightarrow> (EventsBuf, unit) sr" where
  "EventsBuf_rewind_by bytes_written = (\<lambda>b.
     if bytes_written \<le> eb_head b then (Ok (), b\<lparr>eb_head := eb_head b - bytes_written\<rparr>) else (Panic, b))"

definition EventsBuf_slice :: "nat \<Rightarrow> EventsBuf \<Rightarrow> bytes res" where
  "EventsBuf_slice len b = (if len \<le> eb_head b then slice_res (eb_data b) 0 len else Panic)"

definition EventsBuf_capacity :: "EventsBuf \<Rightarrow> nat res" where
  "EventsBuf_capacity b = (if eb_head b \<le> length (eb_data b) then Ok (length (eb_data b) - eb_head b) else Panic)"

definition EventsBuf_append :: "u8 \<Rightarrow> (EventsBuf, OverflowError + unit) sr" where
  "EventsBuf_append byte = sr_bind sr_get (\<lambda>b. sr_bind (sr_res (EventsBuf_capacity b)) (\<lambda>c.
     if c = 0 then sr_return (Inl OverflowError)
     else sr_then (sr_modify (\<lambda>b. \<lparr>eb_data = (eb_data b)[eb_head b := byte], eb_head = eb_head b + 1\<rparr>))
            (sr_return (Inr ()))))"

definition EventsBuf_append_slice :: "bytes \<Rightarrow> (EventsBuf, OverflowError + unit) sr" where
  "EventsBuf_append_slice data = sr_bind sr_get (\<lambda>b. sr_bind (sr_res (EventsBuf_capacity b)) (\<lambda>c.
     if c < length data then sr_return (Inl OverflowError)
     else sr_then (sr_modify (\<lambda>b. \<lparr>eb_data = copy_into (eb_data b) (eb_head b) data,
              eb_head = eb_head b + length data\<rparr>))
            (sr_return (Inr ()))))"

definition EventsBuf_content :: "EventsBuf \<Rightarrow> bytes res" where
  "EventsBuf_content b = slice_res (eb_data b) 0 (eb_head b)"

definition EventsBuf_first_event_len :: "EventsBuf \<Rightarrow> nat res" where
  "EventsBuf_first_event_len b = (if 0 < eb_head b
     then res_bind (EventsBuf_content b) (\<lambda>d. res_unwrap (TLVSequence_container_len d)) else Panic)"

definition EventsBuf_first_event_prio :: "EventsBuf \<Rightarrow> u8 res" where
  "EventsBuf_first_event_prio b = res_bind (EventsBuf_content b) (\<lambda>d.
     res_bind (res_unwrap (TLVElement_structure d)) (\<lambda>seq.
     res_bind (res_unwrap (TLVSequence_find_ctx (EventDataTag_as_u8 Priority_tag) seq)) (\<lambda>el.
       res_unwrap (TLVElement_u8 el))))"

definition EventsBuf_evict_first_event :: "(EventsBuf, unit) sr" where
  "EventsBuf_evict_first_event = sr_bind sr_get (\<lambda>b. sr_bind (sr_res (EventsBuf_first_event_len b)) (\<lambda>tlv_len.
     sr_bind (sr_res (slice_res (eb_data b) tlv_len (eb_head b))) (\<lambda>rest.
     sr_modify (\<lambda>b. \<lparr>eb_data = copy_into (eb_data b) 0 rest, eb_head = eb_head b - tlv_len\<rparr>))))"

definition EventsBuf_iter :: "EventsBuf \<Rightarrow> TLVSequence res" where
  "EventsBuf_iter b = EventsBuf_content b"

subsection \<open>The three levels\<close>

record EventsInner =
  ei_debug :: EventsBuf
  ei_info :: EventsBuf
  ei_critical :: EventsBuf
  ei_next_event_number :: u64

definition EventsInner_new :: "nat \<Rightarrow> EventsInner" where
  "EventsInner_new N = \<lparr>ei_debug = EventsBuf_new N, ei_info = EventsBuf_new N, ei_critical = EventsBuf_new N,
     ei_next_event_number = 1\<rparr>"

definition EventsInner_reset :: "EventsInner \<Rightarrow> EventsInner" where
  "EventsInner_reset s = s\<lparr>ei_debug := EventsBuf_reset (ei_debug s), ei_info := EventsBuf_reset (ei_info s),
     ei_critical := EventsBuf_reset (ei_critical s), ei_next_event_number := 1\<rparr>"

fun EventsInner_buf :: "EventPriority \<Rightarrow> EventsInner \<Rightarrow> EventsBuf" where
  "EventsInner_buf Debug s = ei_debug s"
| "EventsInner_buf Info s = ei_info s"
| "EventsInner_buf Critical s = ei_critical s"

fun EventsInner_set_buf :: "EventPriority \<Rightarrow> EventsBuf \<Rightarrow> EventsInner \<Rightarrow> EventsInner" where
  "EventsInner_set_buf Debug b s = s\<lparr>ei_debug := b\<rparr>"
| "EventsInner_set_buf Info b s = s\<lparr>ei_info := b\<rparr>"
| "EventsInner_set_buf Critical b s = s\<lparr>ei_critical := b\<rparr>"

definition EventsInner_buf_mut :: "EventPriority \<Rightarrow> (EventsBuf, 'a) sr \<Rightarrow> (EventsInner, 'a) sr" where
  "EventsInner_buf_mut p m = (\<lambda>s. case m (EventsInner_buf p s) of (r, b) \<Rightarrow> (r, EventsInner_set_buf p b s))"

definition EventsInner_load :: "bytes \<Rightarrow> (EventsInner, unit) sr" where
  "EventsInner_load data = sr_bind (sr_res (TLVElement_u64 data)) (\<lambda>n.
     sr_modify (\<lambda>s. s\<lparr>ei_next_event_number := n\<rparr>))"

definition EventsInner_reset_persist :: "'k KvBlobStore \<Rightarrow> bytes \<Rightarrow> (EventsInner \<times> 'k, unit) sr" where
  "EventsInner_reset_persist kv buf = sr_then (on_fst (sr_modify EventsInner_reset))
     (sr_then (on_snd (kvb_remove kv EVENT_EPOCH_KEY buf)) (sr_return ()))"

definition EventsInner_load_persist :: "'k KvBlobStore \<Rightarrow> bytes \<Rightarrow> (EventsInner \<times> 'k, unit) sr" where
  "EventsInner_load_persist kv buf = sr_then (on_fst (sr_modify EventsInner_reset))
     (sr_bind (on_snd (kvb_load kv EVENT_EPOCH_KEY buf)) (\<lambda>d. case d of
         Some data \<Rightarrow> on_fst (EventsInner_load data)
       | None \<Rightarrow> sr_return ()))"

definition EVENT_NUMBER_EPOCH_SIZE :: u64 where "EVENT_NUMBER_EPOCH_SIZE = 10000"

definition EventsInner_next_event_number :: "'k KvBlobStore \<Rightarrow> (EventsInner \<times> 'k SharedKvBlobStore, u64) sr" where
  "EventsInner_next_event_number kv = sr_bind sr_get (\<lambda>(s, _).
     let event_number = ei_next_event_number s in
     sr_then (sr_when (event_number = 1 \<or> event_number mod EVENT_NUMBER_EPOCH_SIZE = 0)
       (on_snd (Persist_store_tlv kv EVENT_EPOCH_KEY (TLVWrite_u64 Anonymous
          (if event_number = 1 then EVENT_NUMBER_EPOCH_SIZE
           else max (event_number + EVENT_NUMBER_EPOCH_SIZE) 1)))))
     (sr_then (on_fst (sr_modify (\<lambda>s. s\<lparr>ei_next_event_number := max (event_number + 1) 1\<rparr>)))
       (sr_return event_number)))"

subsection \<open>Making room\<close>

text \<open>The loop of \<^verbatim>\<open>promote\<close>, with the eviction from the destination.\<close>

partial_function (option) EventWriter_make_room ::
    "(EventsInner, unit) lsr \<Rightarrow> EventPriority \<Rightarrow> nat \<Rightarrow> EventsInner \<Rightarrow> (unit res \<times> EventsInner) option" where
  "EventWriter_make_room evict dst_buf event_len s = (case EventsBuf_capacity (EventsInner_buf dst_buf s) of
       Ok c \<Rightarrow> if c < event_len
         then Option.bind (evict s) (\<lambda>(r, s'). case r of
             Ok _ \<Rightarrow> EventWriter_make_room evict dst_buf event_len s'
           | Err e \<Rightarrow> Some (Err e, s') | Panic \<Rightarrow> Some (Panic, s'))
         else Some (Ok (), s)
     | Err e \<Rightarrow> Some (Err e, s) | Panic \<Rightarrow> Some (Panic, s))"

declare EventWriter_make_room.simps [code]

definition EventWriter_promote ::
    "(EventsInner, unit) lsr \<Rightarrow> EventPriority \<Rightarrow> EventPriority \<Rightarrow> nat \<Rightarrow> (EventsInner, unit) lsr" where
  "EventWriter_promote evict src_buf dst_buf event_len =
     ls_then (EventWriter_make_room evict dst_buf event_len)
     (ls_bind (ls_lift sr_get) (\<lambda>s.
       case EventPriority_next src_buf of
         None \<Rightarrow> ls_lift sr_panic
       | Some dst \<Rightarrow> ls_bind (ls_lift (sr_res (EventsBuf_slice event_len (EventsInner_buf src_buf s)))) (\<lambda>d.
           ls_bind (ls_lift (EventsInner_buf_mut dst (EventsBuf_append_slice d))) (\<lambda>r.
             if isl r then ls_lift sr_panic else ls_return ()))))"

function EventWriter_evict :: "EventPriority \<Rightarrow> (EventsInner, unit) lsr" where
  "EventWriter_evict buf_ref =
     ls_bind (ls_lift sr_get) (\<lambda>s.
     ls_bind (ls_lift (sr_res (EventsBuf_first_event_len (EventsInner_buf buf_ref s)))) (\<lambda>event_len.
     ls_then (case EventPriority_next buf_ref of
         Some next_buf_ref \<Rightarrow>
           ls_bind (ls_lift (sr_res (EventsBuf_first_event_prio (EventsInner_buf buf_ref s)))) (\<lambda>event_prio.
             if EventPriority_as_u8 next_buf_ref \<le> event_prio
             then EventWriter_promote (EventWriter_evict next_buf_ref) buf_ref next_buf_ref event_len
             else ls_return ())
       | None \<Rightarrow> ls_return ())
     (ls_lift (EventsInner_buf_mut buf_ref EventsBuf_evict_first_event))))"
  by pat_completeness auto

termination EventWriter_evict
  by (relation "measure (\<lambda>p. case p of Debug \<Rightarrow> 2 | Info \<Rightarrow> 1 | Critical \<Rightarrow> 0)")
    (auto elim!: EventPriority_next.elims)

declare EventWriter_evict.simps [simp del]

subsection \<open>The writer\<close>

record EventWriter =
  ew_events :: EventsInner
  ew_bytes_written :: nat

definition OPER_BUF :: EventPriority where "OPER_BUF = Debug"

definition EventWriter_new :: "EventsInner \<Rightarrow> EventWriter" where
  "EventWriter_new events = \<lparr>ew_events = events, ew_bytes_written = 0\<rparr>"

definition EventWriter_get_tail :: "EventWriter \<Rightarrow> nat" where
  "EventWriter_get_tail w = ew_bytes_written w"

partial_function (option) EventWriter_append_loop :: "u8 \<Rightarrow> EventsInner \<Rightarrow> (unit res \<times> EventsInner) option" where
  "EventWriter_append_loop byte s = (case EventsInner_buf_mut OPER_BUF (EventsBuf_append byte) s of
       (Ok r, s1) \<Rightarrow> if isl r
         then Option.bind (EventWriter_evict OPER_BUF s1) (\<lambda>(r, s'). case r of
             Ok _ \<Rightarrow> EventWriter_append_loop byte s'
           | Err e \<Rightarrow> Some (Err e, s') | Panic \<Rightarrow> Some (Panic, s'))
         else Some (Ok (), s1)
     | (Err e, s1) \<Rightarrow> Some (Err e, s1) | (Panic, s1) \<Rightarrow> Some (Panic, s1))"

declare EventWriter_append_loop.simps [code]

definition on_events :: "(EventsInner, 'a) lsr \<Rightarrow> (EventWriter, 'a) lsr" where
  "on_events m = (\<lambda>w. map_option (\<lambda>(r, s). (r, w\<lparr>ew_events := s\<rparr>)) (m (ew_events w)))"

definition EventWriter_write :: "nat \<Rightarrow> u8 \<Rightarrow> (EventWriter, unit) lsr" where
  "EventWriter_write N byte = ls_bind (ls_lift sr_get) (\<lambda>w.
     if N = 0 then ls_return ()
     else if ew_bytes_written w = N then ls_lift (sr_err ResourceExhausted)
     else ls_then (on_events (EventWriter_append_loop byte))
       (ls_lift (sr_modify (\<lambda>w. w\<lparr>ew_bytes_written := ew_bytes_written w + 1\<rparr>))))"

definition EventWriter_rewind_to :: "nat \<Rightarrow> (EventWriter, unit) lsr" where
  "EventWriter_rewind_to bytes_written = ls_bind (ls_lift sr_get) (\<lambda>w.
     if ew_bytes_written w < bytes_written then ls_lift sr_panic
     else ls_then (on_events (ls_lift (EventsInner_buf_mut OPER_BUF
            (EventsBuf_rewind_by (ew_bytes_written w - bytes_written)))))
       (ls_lift (sr_modify (\<lambda>w. w\<lparr>ew_bytes_written := bytes_written\<rparr>))))"

text \<open>The provided methods of \<^verbatim>\<open>TLVWrite\<close> as they run on the event writer.\<close>

fun EventTLVWrite_write_raw_data :: "nat \<Rightarrow> bytes \<Rightarrow> (EventWriter, unit) lsr" where
  "EventTLVWrite_write_raw_data N [] = ls_return ()"
| "EventTLVWrite_write_raw_data N (b # bs) = ls_then (EventWriter_write N b) (EventTLVWrite_write_raw_data N bs)"

definition EventTLVWrite_raw_value :: "nat \<Rightarrow> TLVTag \<Rightarrow> TLVValueType \<Rightarrow> bytes \<Rightarrow> (EventWriter, unit) lsr" where
  "EventTLVWrite_raw_value N tag vt data =
     ls_then (EventWriter_write N (TLVControl_as_raw (TLVControl_new (TLVTag_tag_type tag) vt)))
     (ls_then (EventTLVWrite_write_raw_data N (tag_bytes tag)) (EventTLVWrite_write_raw_data N data))"

definition EventTLVWrite_u8 :: "nat \<Rightarrow> TLVTag \<Rightarrow> u8 \<Rightarrow> (EventWriter, unit) lsr" where
  "EventTLVWrite_u8 N tag d = EventTLVWrite_raw_value N tag U8_t (to_le_bytes 1 d)"

definition EventTLVWrite_u16 :: "nat \<Rightarrow> TLVTag \<Rightarrow> u16 \<Rightarrow> (EventWriter, unit) lsr" where
  "EventTLVWrite_u16 N tag d = (if d \<le> 0xFF then EventTLVWrite_u8 N tag (ucast d)
     else EventTLVWrite_raw_value N tag U16_t (to_le_bytes 2 d))"

definition EventTLVWrite_u32 :: "nat \<Rightarrow> TLVTag \<Rightarrow> u32 \<Rightarrow> (EventWriter, unit) lsr" where
  "EventTLVWrite_u32 N tag d = (if d \<le> 0xFFFF then EventTLVWrite_u16 N tag (ucast d)
     else EventTLVWrite_raw_value N tag U32_t (to_le_bytes 4 d))"

definition EventTLVWrite_u64 :: "nat \<Rightarrow> TLVTag \<Rightarrow> u64 \<Rightarrow> (EventWriter, unit) lsr" where
  "EventTLVWrite_u64 N tag d = (if d \<le> 0xFFFFFFFF then EventTLVWrite_u32 N tag (ucast d)
     else EventTLVWrite_raw_value N tag U64_t (to_le_bytes 8 d))"

definition EventTLVWrite_bool :: "nat \<Rightarrow> TLVTag \<Rightarrow> bool \<Rightarrow> (EventWriter, unit) lsr" where
  "EventTLVWrite_bool N tag b = EventTLVWrite_raw_value N tag (if b then True_t else False_t) []"

definition EventTLVWrite_start_struct :: "nat \<Rightarrow> TLVTag \<Rightarrow> (EventWriter, unit) lsr" where
  "EventTLVWrite_start_struct N tag = EventTLVWrite_raw_value N tag Struct_t []"

definition EventTLVWrite_start_list :: "nat \<Rightarrow> TLVTag \<Rightarrow> (EventWriter, unit) lsr" where
  "EventTLVWrite_start_list N tag = EventTLVWrite_raw_value N tag List_t []"

definition EventTLVWrite_end_container :: "nat \<Rightarrow> (EventWriter, unit) lsr" where
  "EventTLVWrite_end_container N = EventWriter_write N (TLVControl_as_raw (TLVControl_new Anonymous_t EndCnt_t))"

text \<open>\<^verbatim>\<open>Option::to_tlv\<close>, and the derived \<^verbatim>\<open>to_tlv\<close> of a path, which rewinds when it fails.\<close>

definition option_to_tlv :: "('a \<Rightarrow> (EventWriter, unit) lsr) \<Rightarrow> 'a option \<Rightarrow> (EventWriter, unit) lsr" where
  "option_to_tlv f x = (case x of None \<Rightarrow> ls_return () | Some v \<Rightarrow> f v)"

definition or_rewind :: "nat \<Rightarrow> (EventWriter, unit) lsr \<Rightarrow> (EventWriter, unit) lsr" where
  "or_rewind anchor m = (\<lambda>w. Option.bind (m w) (\<lambda>(r, w'). case r of
     Err e \<Rightarrow> ls_then (EventWriter_rewind_to anchor) (ls_lift (sr_err e)) w' | _ \<Rightarrow> Some (r, w')))"

definition EventPath_to_tlv :: "nat \<Rightarrow> TLVTag \<Rightarrow> EventPath \<Rightarrow> (EventWriter, unit) lsr" where
  "EventPath_to_tlv N tag path = ls_bind (ls_lift sr_get) (\<lambda>w.
     or_rewind (EventWriter_get_tail w)
       (ls_then (EventTLVWrite_start_list N tag)
       (ls_then (option_to_tlv (EventTLVWrite_u64 N (Context 0)) (vp_node path))
       (ls_then (option_to_tlv (EventTLVWrite_u16 N (Context 1)) (vp_endpoint path))
       (ls_then (option_to_tlv (EventTLVWrite_u32 N (Context 2)) (vp_cluster path))
       (ls_then (option_to_tlv (EventTLVWrite_u32 N (Context 3)) (vp_event path))
       (ls_then (option_to_tlv (EventTLVWrite_bool N (Context 4)) (vp_is_urgent path))
       (EventTLVWrite_end_container N))))))))"

definition EventData_write_preamble :: "nat \<Rightarrow> TLVTag \<Rightarrow> EventData \<Rightarrow> (EventWriter, unit) lsr" where
  "EventData_write_preamble N tag ed =
     ls_then (EventTLVWrite_start_struct N tag)
     (ls_then (EventPath_to_tlv N (Context (EventDataTag_as_u8 Path_tag)) (ed_path ed))
     (ls_then (EventTLVWrite_u64 N (Context (EventDataTag_as_u8 EventNumber_tag)) (ed_event_number ed))
     (ls_then (EventTLVWrite_u8 N (Context (EventDataTag_as_u8 Priority_tag)) (EventPriority_as_u8 (ed_priority ed)))
     (case ed_timestamp ed of
         EpochTimestamp ts \<Rightarrow> EventTLVWrite_u64 N (Context (EventDataTag_as_u8 EpochTimestamp_tag)) ts
       | SystemTimestamp ts \<Rightarrow> EventTLVWrite_u64 N (Context (EventDataTag_as_u8 SystemTimestamp_tag)) ts
       | DeltaEpochTimestamp ts \<Rightarrow> EventTLVWrite_u64 N (Context (EventDataTag_as_u8 DeltaEpochTimestamp_tag)) ts
       | DeltaSystemTimestamp ts \<Rightarrow> EventTLVWrite_u64 N (Context (EventDataTag_as_u8 DeltaSystemTimestamp_tag)) ts))))"

subsection \<open>Publishing\<close>

definition EventsInner_push :: "nat \<Rightarrow> u16 \<Rightarrow> u32 \<Rightarrow> u32 \<Rightarrow> u64 \<Rightarrow> EventPriority \<Rightarrow> EventDataTimestamp \<Rightarrow>
    (EventWriter, unit) lsr \<Rightarrow> (EventsInner, unit) lsr" where
  "EventsInner_push N endpoint_id cluster_id event_id event_number priority timestamp f = (\<lambda>s.
     let event_writer = EventWriter_new s; pos = EventWriter_get_tail event_writer in
     map_option (\<lambda>(r, w). (r, ew_events w))
       (or_rewind pos
         (ls_then (EventData_write_preamble N EVENT_TAG
            \<lparr>ed_path = \<lparr>vp_node = None, vp_endpoint = Some endpoint_id, vp_cluster = Some cluster_id,
                vp_event = Some event_id, vp_is_urgent = None\<rparr>,
              ed_event_number = event_number, ed_priority = priority, ed_timestamp = timestamp, ed_data = []\<rparr>)
         (ls_then f (EventTLVWrite_end_container N))) event_writer))"

definition Events_watermark :: "EventsInner \<Rightarrow> u64" where
  "Events_watermark s = ei_next_event_number s - 1"

definition Events_push :: "nat \<Rightarrow> u16 \<Rightarrow> u32 \<Rightarrow> u32 \<Rightarrow> EventPriority \<Rightarrow> 'k KvBlobStore \<Rightarrow> u64 \<Rightarrow>
    (EventWriter, unit) lsr \<Rightarrow> (EventsInner \<times> 'k SharedKvBlobStore, u64) lsr" where
  "Events_push N endpoint_id cluster_id event_id priority kv now f =
     ls_bind (ls_lift (EventsInner_next_event_number kv)) (\<lambda>event_number.
     ls_then (\<lambda>(s, k). map_option (\<lambda>(r, s'). (r, (s', k)))
        (EventsInner_push N endpoint_id cluster_id event_id event_number priority (EpochTimestamp now) f s))
     (ls_then (ls_lift (on_snd Persist_run)) (ls_return event_number)))"

subsection \<open>Reading the queue\<close>

record EventsIter =
  it_buf_ref :: EventPriority
  it_buf_iter :: TLVSequence

definition EventsInner_iter :: "EventsInner \<Rightarrow> EventsIter res" where
  "EventsInner_iter s = res_bind (EventsBuf_iter (ei_critical s)) (\<lambda>seq.
     Ok \<lparr>it_buf_ref = Critical, it_buf_iter = seq\<rparr>)"

function EventsIter_next :: "EventsInner \<Rightarrow> EventsIter \<Rightarrow> (EventData option res \<times> EventsIter) option" where
  "EventsIter_next events it = (case TLVSequenceIter_next (it_buf_iter it) of
       (Ok (Some event), seq) \<Rightarrow> map_option (\<lambda>r. (res_bind (res_unwrap r) (\<lambda>e. Ok (Some e)), it\<lparr>it_buf_iter := seq\<rparr>))
         (EventData_from_tlv event)
     | (Ok None, seq) \<Rightarrow> (case EventPriority_prev (it_buf_ref it) of
           Some next_buf_ref \<Rightarrow> (case EventsBuf_iter (EventsInner_buf next_buf_ref events) of
               Ok seq' \<Rightarrow> EventsIter_next events \<lparr>it_buf_ref = next_buf_ref, it_buf_iter = seq'\<rparr>
             | Err e \<Rightarrow> Some (Err e, it) | Panic \<Rightarrow> Some (Panic, it))
         | None \<Rightarrow> Some (Ok None, it\<lparr>it_buf_iter := seq\<rparr>))
     | (_, seq) \<Rightarrow> Some (Panic, it\<lparr>it_buf_iter := seq\<rparr>))"
  by pat_completeness auto

termination EventsIter_next
  by (relation "measure (\<lambda>(s, it). case it_buf_ref it of Debug \<Rightarrow> 0 | Info \<Rightarrow> 1 | Critical \<Rightarrow> 2)")
    (auto elim!: EventPriority_prev.elims)

declare EventsIter_next.simps [simp del]

text \<open>\<^verbatim>\<open>fetch\<close> with a closure that collects what the iterator yields.\<close>

partial_function (option) EventsIter_collect :: "EventsInner \<Rightarrow> EventsIter \<Rightarrow> EventData list res option" where
  "EventsIter_collect events it = Option.bind (EventsIter_next events it) (\<lambda>(r, it'). case r of
       Ok None \<Rightarrow> Some (Ok [])
     | Ok (Some e) \<Rightarrow> Option.bind (EventsIter_collect events it') (\<lambda>r. Some (res_bind r (\<lambda>es. Ok (e # es))))
     | Err e \<Rightarrow> Some (Err e) | Panic \<Rightarrow> Some Panic)"

declare EventsIter_collect.simps [code]

definition Events_fetch :: "EventsInner \<Rightarrow> EventData list res option" where
  "Events_fetch events = ro_bind (Some (EventsInner_iter events)) (EventsIter_collect events)"

end
