(* ===== verification/Event_Queue.thy ===== *)
theory Event_Queue
  imports Events "HOL-Library.Sublist"
begin

section \<open>What the event queue keeps\<close>

text \<open>
  The event queue of \<open>Events\<close> as three lists of events with the capacity of a buffer each. The abstract operations are \<open>make_room\<close>
  (drop the oldest events of a level until the rest leaves room) and \<open>admit\<close> (take an event that was dropped below); the concrete loops are shown to return
  and to compute them, byte by byte, without a panic. The locale \<open>upper_levels\<close> is the contract of the levels above a
  level; from it follows what a level together with them keeps.
\<close>

subsection \<open>Events and their encoding\<close>

record Ev =
  ev_endpoint :: u16
  ev_cluster :: u32
  ev_event :: u32
  ev_number :: u64
  ev_prio :: EventPriority
  ev_time :: EventDataTimestamp
  ev_body :: "tlv_tree list"

fun ts_tag :: "EventDataTimestamp \<Rightarrow> u8" where
  "ts_tag (EpochTimestamp t) = 3"
| "ts_tag (SystemTimestamp t) = 4"
| "ts_tag (DeltaEpochTimestamp t) = 5"
| "ts_tag (DeltaSystemTimestamp t) = 6"

fun ts_value :: "EventDataTimestamp \<Rightarrow> u64" where
  "ts_value (EpochTimestamp t) = t"
| "ts_value (SystemTimestamp t) = t"
| "ts_value (DeltaEpochTimestamp t) = t"
| "ts_value (DeltaSystemTimestamp t) = t"

definition path_fields :: "Ev \<Rightarrow> tlv_tree list" where
  "path_fields e = [Leaf (Context 1) (TLVValue_u16 (ev_endpoint e)), Leaf (Context 2) (TLVValue_u32 (ev_cluster e)),
     Leaf (Context 3) (TLVValue_u32 (ev_event e))]"

definition ev_head :: "Ev \<Rightarrow> tlv_tree list" where
  "ev_head e = [Node (Context 0) List (path_fields e), Leaf (Context 1) (TLVValue_u64 (ev_number e)),
     Leaf (Context 2) (U8 (EventPriority_as_u8 (ev_prio e))),
     Leaf (Context (ts_tag (ev_time e))) (TLVValue_u64 (ts_value (ev_time e)))]"

definition ev_tree :: "Ev \<Rightarrow> tlv_tree" where
  "ev_tree e = Node (Context 1) Struct (ev_head e @ ev_body e)"

definition ev_bytes :: "Ev \<Rightarrow> bytes" where
  "ev_bytes e = enc (ev_tree e)"

definition ev_size :: "Ev \<Rightarrow> nat" where
  "ev_size e = length (ev_bytes e)"

definition ev_wf :: "Ev \<Rightarrow> bool" where
  "ev_wf e \<longleftrightarrow> (\<forall>t \<in> set (ev_body e). wf_tree t)"

abbreviation evs_bytes :: "Ev list \<Rightarrow> bytes" where
  "evs_bytes es \<equiv> concat (map ev_bytes es)"

definition ev_total :: "Ev list \<Rightarrow> nat" where
  "ev_total es = sum_list (map ev_size es)"

lemma ev_total_simps [simp]: "ev_total [] = 0" "ev_total (e # es) = ev_size e + ev_total es" "ev_total (es @ fs) = ev_total es + ev_total fs"
  by (simp_all add: ev_total_def)

lemma length_evs: "length (evs_bytes es) = ev_total es"
  by (induction es) (simp_all add: ev_size_def)

lemma ev_size_pos: "0 < ev_size e"
  by (simp add: ev_size_def ev_bytes_def)

lemma wf_uints [simp]: "wf_tree (Leaf g (TLVValue_u16 a))" "wf_tree (Leaf g (TLVValue_u32 b))"
  "wf_tree (Leaf g (TLVValue_u64 c))" "wf_tree (Leaf g (U8 d))"
  by (auto simp: TLVValue_u64_def TLVValue_u32_def TLVValue_u16_def TLVValue_u8_def tlv_defs)

lemma wf_path: "\<forall>t \<in> set (path_fields e). wf_tree t"
  by (simp add: path_fields_def del: wf_tree.simps)

lemma wf_head: "\<forall>t \<in> set (ev_head e). wf_tree t"
  using wf_path by (auto simp: ev_head_def simp del: wf_tree.simps(1))

lemma wf_ev_tree: "ev_wf e \<Longrightarrow> wf_tree (ev_tree e)"
  using wf_head [of e] by (auto simp: ev_tree_def ev_wf_def)

lemma enc_container_len:
  assumes "wf_tree (Node g v ts)" "length (enc (Node g v ts)) < 2 ^ 31" "length (enc (Node g v ts) @ r) < 2 ^ 31"
  shows "TLVSequence_container_len (enc (Node g v ts) @ r) = Ok (length (enc (Node g v ts)))"
proof -
  let ?t = "Node g v ts"
  have big: "length (enc ?t @ r) < 2 ^ 64" using assms(3) by simp
  obtain n b where n: "TLVSequence_container_value_len (ctl g v) (enc ?t @ r) = Ok n"
      and "get_to n b = Some (enc_all ts @ [0x18])"
    using enc_container_value [OF assms(1,2) big]
    by (auto simp: TLVSequence_container_value_def res_bind_ok_iff res_ok_or_eq)
  then have "n \<le> length b" "enc_all ts @ [0x18] = take n b" by (simp_all add: get_SomeD)
  then have "n = length (enc_all ts @ [0x18])" by (metis length_take min_absorb2)
  note n = n this
  have v: "v \<in> {Struct, Array, List}" using assms(1) by simp
  have "length (tlv_bytes g v) = 1 + TLVTagType_size (TLVTag_tag_type g) +
      TLVValueType_variable_size_len (TLVValue_value_type v)"
    using container_value(4) [OF v] by (simp add: length_tlv_bytes)
  then show ?thesis using n big enc_control [of ?t r]
    by (simp add: TLVSequence_container_len_def usize_add_def)
qed

lemma ev_container_len:
  assumes "ev_wf e" "length (ev_bytes e @ r) < 2 ^ 31"
  shows "TLVSequence_container_len (ev_bytes e @ r) = Ok (ev_size e)"
  using assms enc_container_len [OF wf_ev_tree [OF assms(1), unfolded ev_tree_def], of r]
  by (simp add: ev_bytes_def ev_tree_def ev_size_def)

lemma structure_enc:
  assumes "wf_tree (Node g Struct ts)"
  shows "TLVElement_structure (enc (Node g Struct ts) @ r) = Ok (enc_all ts @ 0x18 # r)"
  using enc_next_enter [OF assms, of r] enc_control [of "Node g Struct ts" r]
  by (simp add: TLVElement_structure_def TLVElement_struct_def enc_rest_def)

lemma first_prio:
  assumes "ev_wf e" "length (ev_bytes e) < 2 ^ 31"
  shows "\<exists>seq el. TLVElement_structure (ev_bytes e @ r) = Ok seq \<and> TLVSequence_find_ctx 2 seq = Ok el \<and>
    TLVElement_u8 el = Ok (EventPriority_as_u8 (ev_prio e))"
proof (intro exI conjI)
  let ?ts = "ev_head e @ ev_body e"
  show "TLVElement_structure (ev_bytes e @ r) = Ok (enc_all ?ts @ 0x18 # r)"
    unfolding ev_bytes_def ev_tree_def by (rule structure_enc [OF wf_ev_tree [OF assms(1), unfolded ev_tree_def]])
  show "TLVSequence_find_ctx 2 (enc_all ?ts @ 0x18 # r) = Ok (lookup_ctx 2 ?ts (0x18 # r))"
    using assms wf_head [of e] by (intro find_ctx_enc) (auto simp: ev_wf_def seq_end_def ev_bytes_def ev_tree_def)
  have "lookup_ctx 2 ?ts (0x18 # r) = tlv_bytes (Context 2) (U8 (EventPriority_as_u8 (ev_prio e))) @
      enc_all (drop 3 ?ts) @ 0x18 # r"
    by (simp add: ev_head_def ctx_of_def)
  then show "TLVElement_u8 (lookup_ctx 2 ?ts (0x18 # r)) = Ok (EventPriority_as_u8 (ev_prio e))"
    by (simp add: read_unsigned)
qed

subsection \<open>Buffers that hold events\<close>

text \<open>A buffer holds whole events and, while an event is being written, a part of it.\<close>

definition holds :: "nat \<Rightarrow> Ev list \<Rightarrow> bytes \<Rightarrow> EventsBuf \<Rightarrow> bool" where
  "holds N es part b \<longleftrightarrow> (\<exists>unused. eb_data b = evs_bytes es @ part @ unused) \<and> length (eb_data b) = N \<and>
     eb_head b = ev_total es + length part \<and> (\<forall>e \<in> set es. ev_wf e)"

lemma holdsE:
  assumes "holds N es part b"
  obtains unused where "b = \<lparr>eb_data = evs_bytes es @ part @ unused, eb_head = ev_total es + length part\<rparr>"
    "ev_total es + length part + length unused = N" "\<forall>e \<in> set es. ev_wf e"
proof -
  from assms obtain unused where "eb_data b = evs_bytes es @ part @ unused" "length (eb_data b) = N"
      "eb_head b = ev_total es + length part" "\<forall>e \<in> set es. ev_wf e" by (auto simp: holds_def)
  then show ?thesis using that [of unused] by (simp add: length_evs add.assoc)
qed

lemma holdsI:
  "ev_total es + length part + length unused = N \<Longrightarrow> \<forall>e \<in> set es. ev_wf e \<Longrightarrow> h = ev_total es + length part \<Longrightarrow>
   d = evs_bytes es @ part @ unused \<Longrightarrow> holds N es part \<lparr>eb_data = d, eb_head = h\<rparr>"
  by (simp add: holds_def length_evs add.assoc)

lemma holds_content: "holds N es part b \<Longrightarrow> EventsBuf_content b = Ok (evs_bytes es @ part)"
  by (erule holdsE) (simp add: EventsBuf_content_def slice_res_def slice_ok_def slice_of_def length_evs)

lemma holds_capacity: "holds N es part b \<Longrightarrow> EventsBuf_capacity b = Ok (N - (ev_total es + length part))"
  by (erule holdsE) (auto simp: EventsBuf_capacity_def length_evs)

lemma holds_bound: "holds N es part b \<Longrightarrow> ev_total es + length part \<le> N"
  by (erule holdsE) simp

lemma holds_new: "holds N [] [] (EventsBuf_new N)"
  by (simp add: holds_def EventsBuf_new_def)

lemma first_event:
  assumes h: "holds N (e # es) part b" and N: "N < 2 ^ 31"
  shows "EventsBuf_first_event_len b = Ok (ev_size e)"
    "EventsBuf_first_event_prio b = Ok (EventPriority_as_u8 (ev_prio e))"
    "EventsBuf_slice (ev_size e) b = Ok (ev_bytes e)"
    "\<exists>b'. EventsBuf_evict_first_event b = (Ok (), b') \<and> holds N es part b'"
proof -
  obtain unused where b: "b = \<lparr>eb_data = ev_bytes e @ evs_bytes es @ part @ unused, eb_head = ev_size e + ev_total es + length part\<rparr>"
    and le: "ev_size e + ev_total es + length part + length unused = N" and wf: "ev_wf e" "\<forall>e \<in> set es. ev_wf e"
    using holdsE [OF h] by (auto simp: add.assoc)
  have sz: "length (ev_bytes e) = ev_size e" by (simp add: ev_size_def)
  have len: "length (ev_bytes e) < 2 ^ 31" "length (ev_bytes e @ evs_bytes es @ part) < 2 ^ 31"
    using le N by (simp_all add: length_evs sz)
  have content: "EventsBuf_content b = Ok (ev_bytes e @ evs_bytes es @ part)" using holds_content [OF h] by simp
  show l: "EventsBuf_first_event_len b = Ok (ev_size e)"
    using ev_container_len [OF wf(1) len(2)] ev_size_pos [of e]
    by (simp add: EventsBuf_first_event_len_def content res_unwrap_def) (simp add: b)
  show "EventsBuf_first_event_prio b = Ok (EventPriority_as_u8 (ev_prio e))"
    using first_prio [OF wf(1) len(1), of "evs_bytes es @ part"]
    by (auto simp: EventsBuf_first_event_prio_def content res_unwrap_def)
  show "EventsBuf_slice (ev_size e) b = Ok (ev_bytes e)"
    by (simp add: b EventsBuf_slice_def slice_res_def slice_ok_def slice_of_def sz)
  let ?b' = "\<lparr>eb_data = evs_bytes es @ part @ drop (ev_total es + length part) (eb_data b), eb_head = ev_total es + length part\<rparr>"
  have "slice_res (eb_data b) (ev_size e) (eb_head b) = Ok (evs_bytes es @ part)"
    by (simp add: b slice_res_def slice_ok_def slice_of_def sz length_evs)
  then have "EventsBuf_evict_first_event b = (Ok (), ?b')"
    by (simp add: EventsBuf_evict_first_event_def l sr_modify_def copy_into_def length_evs) (simp add: b)
  moreover have "holds N es part ?b'"
    using le wf by (intro holdsI) (auto simp: b length_evs sz)
  ultimately show "\<exists>b'. EventsBuf_evict_first_event b = (Ok (), b') \<and> holds N es part b'" by blast
qed

lemma append_slice_event:
  assumes h: "holds N es [] b" and "ev_total es + ev_size e \<le> N" "ev_wf e"
  shows "\<exists>b'. EventsBuf_append_slice (ev_bytes e) b = (Ok (Inr ()), b') \<and> holds N (es @ [e]) [] b'"
proof -
  obtain unused where b: "b = \<lparr>eb_data = evs_bytes es @ unused, eb_head = ev_total es\<rparr>"
    and le: "ev_total es + length unused = N" and wf: "\<forall>e \<in> set es. ev_wf e"
    using holdsE [OF h] by auto
  let ?b' = "\<lparr>eb_data = evs_bytes es @ ev_bytes e @ drop (ev_size e) unused, eb_head = ev_total es + ev_size e\<rparr>"
  have "EventsBuf_append_slice (ev_bytes e) b = (Ok (Inr ()), ?b')"
    using assms(2) le holds_capacity [OF h]
    by (simp add: EventsBuf_append_slice_def sr_return_def b copy_into_def length_evs flip: ev_size_def)
  moreover have "holds N (es @ [e]) [] ?b'"
    using le wf assms(2,3) by (intro holdsI) auto
  ultimately show ?thesis by blast
qed

lemma append_byte:
  assumes h: "holds N es part b"
  shows "ev_total es + length part < N \<Longrightarrow>
      \<exists>b'. EventsBuf_append c b = (Ok (Inr ()), b') \<and> holds N es (part @ [c]) b'"
    "ev_total es + length part = N \<Longrightarrow> EventsBuf_append c b = (Ok (Inl OverflowError), b)"
proof -
  obtain unused where b: "b = \<lparr>eb_data = evs_bytes es @ part @ unused, eb_head = ev_total es + length part\<rparr>"
    and le: "ev_total es + length part + length unused = N" and wf: "\<forall>e \<in> set es. ev_wf e"
    using holdsE [OF h] by auto
  note cap = holds_capacity [OF h]
  show "EventsBuf_append c b = (Ok (Inl OverflowError), b)" if "ev_total es + length part = N"
    using that cap by (simp add: EventsBuf_append_def sr_return_def)
  assume lt: "ev_total es + length part < N"
  then obtain u us where u: "unused = u # us" using le by (cases unused) auto
  let ?b' = "\<lparr>eb_data = evs_bytes es @ (part @ [c]) @ us, eb_head = ev_total es + length part + 1\<rparr>"
  have "EventsBuf_append c b = (Ok (Inr ()), ?b')"
    using lt cap by (simp add: EventsBuf_append_def sr_return_def b u list_update_append length_evs)
  moreover have "holds N es (part @ [c]) ?b'" using le wf u by (intro holdsI) auto
  ultimately show "\<exists>b'. EventsBuf_append c b = (Ok (Inr ()), b') \<and> holds N es (part @ [c]) b'" by blast
qed

subsection \<open>The abstract queue\<close>

text \<open>A level with what is above it: \<open>up\<close> hands an event that was dropped to the levels above.\<close>

fun make_room :: "nat \<Rightarrow> nat \<Rightarrow> (Ev \<Rightarrow> 'u \<Rightarrow> 'u) \<Rightarrow> Ev list \<Rightarrow> 'u \<Rightarrow> Ev list \<times> 'u" where
  "make_room N need up [] u = ([], u)"
| "make_room N need up (e # es) u =
     (if ev_total (e # es) + need \<le> N then (e # es, u) else make_room N need up es (up e u))"

fun prio_level :: "EventPriority \<Rightarrow> nat" where
  "prio_level Debug = 0"
| "prio_level Info = 1"
| "prio_level Critical = 2"

lemma as_u8_le: "EventPriority_as_u8 p \<le> EventPriority_as_u8 q \<longleftrightarrow> prio_level p \<le> prio_level q"
  by (cases p; cases q; simp add: word_le_nat_alt)

definition admit :: "nat \<Rightarrow> EventPriority \<Rightarrow> (Ev \<Rightarrow> 'u \<Rightarrow> 'u) \<Rightarrow> Ev \<Rightarrow> Ev list \<times> 'u \<Rightarrow> Ev list \<times> 'u" where
  "admit N level up e q = (if prio_level level \<le> prio_level (ev_prio e)
     then (case make_room N (ev_size e) up (fst q) (snd q) of (es, u) \<Rightarrow> (es @ [e], u)) else q)"

definition up_critical :: "nat \<Rightarrow> Ev \<Rightarrow> Ev list \<times> unit \<Rightarrow> Ev list \<times> unit" where
  "up_critical N = admit N Critical (\<lambda>e u. u)"

definition up_info :: "nat \<Rightarrow> Ev \<Rightarrow> Ev list \<times> Ev list \<times> unit \<Rightarrow> Ev list \<times> Ev list \<times> unit" where
  "up_info N = admit N Info (up_critical N)"

type_synonym queue = "Ev list \<times> Ev list \<times> Ev list \<times> unit"

definition enqueue :: "nat \<Rightarrow> Ev \<Rightarrow> queue \<Rightarrow> queue" where
  "enqueue N = admit N Debug (up_info N)"

lemma enqueue_eq: "enqueue N e (ds, u) = (case make_room N (ev_size e) (up_info N) ds u of (ds', u') \<Rightarrow> (ds' @ [e], u'))"
  by (simp add: enqueue_def admit_def)

lemma make_room_fits: "ev_total es + need \<le> N \<Longrightarrow> make_room N need up es u = (es, u)"
  by (cases es) simp_all

lemma make_room_more:
  "need \<le> need' \<Longrightarrow> make_room N need up es u = (es', u') \<Longrightarrow> make_room N need' up es' u' = make_room N need' up es u"
  by (induction es arbitrary: u) (auto split: if_splits)

lemma make_room_all: "make_room N N up es u = ([], snd (make_room N N up es u))"
  using ev_size_pos by (induction es arbitrary: u) auto

subsection \<open>The buffers compute it\<close>

definition rel :: "nat \<Rightarrow> u64 \<Rightarrow> queue \<Rightarrow> bytes \<Rightarrow> EventsInner \<Rightarrow> bool" where
  "rel N n q part s \<longleftrightarrow> (case q of (ds, is, cs, _) \<Rightarrow> holds N ds part (ei_debug s) \<and> holds N is [] (ei_info s) \<and>
     holds N cs [] (ei_critical s)) \<and> ei_next_event_number s = n"

lemma make_room_refines:
  assumes step: "\<And>e l u s. Q (e # l) u s \<Longrightarrow> \<exists>s'. evict s = Some (Ok (), s') \<and> Q l (up e u) s'"
    and cap: "\<And>l u s. Q l u s \<Longrightarrow> EventsBuf_capacity (EventsInner_buf dst s) = Ok (N - ev_total l) \<and> ev_total l \<le> N"
    and need: "need \<le> N"
  shows "Q l u s \<Longrightarrow> \<exists>l' u' s'. EventWriter_make_room evict dst need s = Some (Ok (), s') \<and>
    make_room N need up l u = (l', u') \<and> Q l' u' s' \<and> ev_total l' + need \<le> N"
proof (induction l arbitrary: u s)
  case Nil
  then show ?case using cap [OF Nil] need by (subst EventWriter_make_room.simps) simp
next
  case (Cons e l)
  show ?case
  proof (cases "ev_total (e # l) + need \<le> N")
    case True
    then show ?thesis using cap [OF Cons.prems] Cons.prems by (subst EventWriter_make_room.simps) auto
  next
    case False
    from step [OF Cons.prems] obtain s' where s': "evict s = Some (Ok (), s')" "Q l (up e u) s'" by blast
    from Cons.IH [OF s'(2)] False s'(1) cap [OF Cons.prems] show ?thesis
      by (subst EventWriter_make_room.simps) auto
  qed
qed

lemma ls_simps [simp]:
  "ls_bind (ls_lift sr_get) f s = f s s" "ls_bind (ls_lift (sr_res (Ok x))) g = g x"
  "ls_bind (ls_return y) h = h y" "ls_lift m t = Some (m t)"
  by (simp_all add: ls_bind_def ls_lift_def sr_get_def sr_res_def sr_return_def)

lemmas ls_defs = ls_bind_def sr_get_def sr_res_def sr_return_def

lemma ls_bind_some:
  "m s = Some (Ok x, s') \<Longrightarrow> ls_bind m f s = f x s'"
  "m s = Some (Err e, s') \<Longrightarrow> ls_bind m f s = Some (Err e, s')"
  by (simp_all add: ls_bind_def)

lemma evict_critical:
  assumes r: "rel N n (ds, is, c # cs, u) part s" and N: "N < 2 ^ 31"
  shows "\<exists>s'. EventWriter_evict Critical s = Some (Ok (), s') \<and> rel N n (ds, is, cs, u) part s'"
proof -
  note h = first_event [of N c cs "[]" "ei_critical s", OF _ N]
  have "holds N (c # cs) [] (ei_critical s)" using r by (simp add: rel_def)
  from h [OF this] obtain b where "EventsBuf_first_event_len (ei_critical s) = Ok (ev_size c)"
      "EventsBuf_evict_first_event (ei_critical s) = (Ok (), b)" "holds N cs [] b" by blast
  with r show ?thesis
    by (subst EventWriter_evict.simps) (simp add: EventsInner_buf_mut_def rel_def)
qed

lemma promote_event:
  assumes dst: "EventPriority_next src = Some dst"
    and room: "EventWriter_make_room evict dst (ev_size e) s = Some (Ok (), s')"
    and src: "EventsBuf_slice (ev_size e) (EventsInner_buf src s') = Ok (ev_bytes e)"
    and app: "EventsBuf_append_slice (ev_bytes e) (EventsInner_buf dst s') = (Ok (Inr ()), b)"
  shows "EventWriter_promote evict src dst (ev_size e) s = Some (Ok (), EventsInner_set_buf dst b s')"
proof -
  have "EventsInner_buf_mut dst (EventsBuf_append_slice (ev_bytes e)) s' = (Ok (Inr ()), EventsInner_set_buf dst b s')"
    by (simp add: EventsInner_buf_mut_def app)
  then show ?thesis
    unfolding EventWriter_promote_def
    by (subst ls_bind_some(1) [where m = "EventWriter_make_room evict dst (ev_size e)", OF room])
      (simp add: dst src ls_bind_some(1) [where m = "ls_lift (EventsInner_buf_mut dst (EventsBuf_append_slice (ev_bytes e)))"]
        sr_return_def)
qed

text \<open>Evicting the oldest event of a level, without and with a promotion to the next one.\<close>

lemma evict_drops:
  assumes p: "EventPriority_next p = Some p2" and h: "holds N (e # l) part (EventsInner_buf p s)" and N: "N < 2 ^ 31"
    and low: "\<not> prio_level p2 \<le> prio_level (ev_prio e)"
  shows "\<exists>b. EventWriter_evict p s = Some (Ok (), EventsInner_set_buf p b s) \<and> holds N l part b"
proof -
  note fe = first_event [OF h N]
  obtain b where "EventsBuf_evict_first_event (EventsInner_buf p s) = (Ok (), b)" "holds N l part b" using fe(4) by blast
  with fe low p show ?thesis
    by (subst EventWriter_evict.simps) (auto simp: EventsInner_buf_mut_def ls_defs as_u8_le)
qed

lemma evict_promotes:
  assumes p: "EventPriority_next p = Some p2" and h: "holds N (e # l) part (EventsInner_buf p s)" and N: "N < 2 ^ 31"
    and high: "prio_level p2 \<le> prio_level (ev_prio e)"
    and room: "EventWriter_make_room (EventWriter_evict p2) p2 (ev_size e) s = Some (Ok (), s')"
    and h': "holds N (e # l) part (EventsInner_buf p s')" "holds N l2 [] (EventsInner_buf p2 s')" "ev_total l2 + ev_size e \<le> N"
  shows "\<exists>b b'. EventWriter_evict p s = Some (Ok (), EventsInner_set_buf p b' (EventsInner_set_buf p2 b s')) \<and>
    holds N (l2 @ [e]) [] b \<and> holds N l part b'"
proof -
  note fe = first_event [OF h N] and fe' = first_event [OF h'(1) N]
  have wf: "ev_wf e" using h by (auto simp: holds_def)
  obtain b where b: "EventsBuf_append_slice (ev_bytes e) (EventsInner_buf p2 s') = (Ok (Inr ()), b)" "holds N (l2 @ [e]) [] b"
    using append_slice_event [OF h'(2,3) wf] by blast
  obtain b' where b': "EventsBuf_evict_first_event (EventsInner_buf p s') = (Ok (), b')" "holds N l part b'"
    using fe'(4) by blast
  have pr: "EventWriter_promote (EventWriter_evict p2) p p2 (ev_size e) s = Some (Ok (), EventsInner_set_buf p2 b s')"
    by (rule promote_event [OF p room fe'(3) b(1)])
  have "EventsInner_buf p (EventsInner_set_buf p2 b s') = EventsInner_buf p s'"
    using p by (cases p) auto
  then have "EventWriter_evict p s = Some (Ok (), EventsInner_set_buf p b' (EventsInner_set_buf p2 b s'))"
    using fe high p b'(1)
    by (subst EventWriter_evict.simps) (simp add: ls_defs pr EventsInner_buf_mut_def as_u8_le)
  with b(2) b'(2) show ?thesis by blast
qed

lemma evict_info:
  assumes r: "rel N n (ds, i # is, u) part s" and N: "N < 2 ^ 31"
  shows "\<exists>s'. EventWriter_evict Info s = Some (Ok (), s') \<and> rel N n (ds, is, up_critical N i u) part s'"
proof -
  obtain cs where u: "u = (cs, ())" by (cases u) auto
  have hi: "holds N (i # is) [] (EventsInner_buf Info s)" using r by (simp add: rel_def u)
  have sz: "ev_size i \<le> N" using holds_bound [OF hi] by simp
  show ?thesis
  proof (cases "prio_level Critical \<le> prio_level (ev_prio i)")
    case False
    then show ?thesis using evict_drops [OF _ hi N, of Critical] r u by (auto simp: rel_def up_critical_def admit_def)
  next
    case True
    let ?Q = "\<lambda>cs (_ :: unit) s'. rel N n (ds, i # is, cs, ()) part s'"
    have step: "\<exists>s'. EventWriter_evict Critical s = Some (Ok (), s') \<and> ?Q l v s'" if "?Q (c # l) v s" for c l v s
      using evict_critical [OF that N] by simp
    have cap: "EventsBuf_capacity (EventsInner_buf Critical s) = Ok (N - ev_total l) \<and> ev_total l \<le> N"
      if "?Q l v s" for l v s
      using that holds_capacity [of N l "[]"] holds_bound [of N l "[]"] by (auto simp: rel_def)
    have "\<exists>l' u' s'. EventWriter_make_room (EventWriter_evict Critical) Critical (ev_size i) s = Some (Ok (), s') \<and>
        make_room N (ev_size i) (\<lambda>e u. u) cs () = (l', u') \<and> ?Q l' u' s' \<and> ev_total l' + ev_size i \<le> N"
      by (rule make_room_refines [where Q = ?Q]) (erule step | erule cap | rule sz | use r u in simp)+
    then obtain cs' s' where s': "EventWriter_make_room (EventWriter_evict Critical) Critical (ev_size i) s = Some (Ok (), s')"
        "make_room N (ev_size i) (\<lambda>e u. u) cs () = (cs', ())" "rel N n (ds, i # is, cs', ()) part s'"
        "ev_total cs' + ev_size i \<le> N"
      by auto
    then show ?thesis
      using evict_promotes [OF _ hi N True s'(1), of cs'] True
      by (auto simp: rel_def up_critical_def admit_def u)
  qed
qed

lemma evict_debug:
  assumes r: "rel N n (d # ds, u) part s" and N: "N < 2 ^ 31"
  shows "\<exists>s'. EventWriter_evict Debug s = Some (Ok (), s') \<and> rel N n (ds, up_info N d u) part s'"
proof -
  obtain iss cs where u: "u = (iss, cs, ())" by (cases u) auto
  have hd: "holds N (d # ds) part (EventsInner_buf Debug s)" using r by (simp add: rel_def u)
  have sz: "ev_size d \<le> N" using holds_bound [OF hd] by simp
  show ?thesis
  proof (cases "prio_level Info \<le> prio_level (ev_prio d)")
    case False
    then show ?thesis using evict_drops [OF _ hd N, of Info] r u by (auto simp: rel_def up_info_def admit_def)
  next
    case True
    let ?Q = "\<lambda>is v s'. rel N n (d # ds, is, v) part s'"
    have step: "\<exists>s'. EventWriter_evict Info s = Some (Ok (), s') \<and> ?Q l (up_critical N i v) s'" if "?Q (i # l) v s" for i l v s
      using evict_info [OF that N] by simp
    have cap: "EventsBuf_capacity (EventsInner_buf Info s) = Ok (N - ev_total l) \<and> ev_total l \<le> N"
      if "?Q l v s" for l v s
      using that holds_capacity [of N l "[]"] holds_bound [of N l "[]"] by (auto simp: rel_def split: prod.splits)
    have "\<exists>l' u' s'. EventWriter_make_room (EventWriter_evict Info) Info (ev_size d) s = Some (Ok (), s') \<and>
        make_room N (ev_size d) (up_critical N) iss (cs, ()) = (l', u') \<and> ?Q l' u' s' \<and> ev_total l' + ev_size d \<le> N"
      by (rule make_room_refines [where Q = ?Q]) (erule step | erule cap | rule sz | use r u in simp)+
    then obtain iss' v' s' where s': "EventWriter_make_room (EventWriter_evict Info) Info (ev_size d) s = Some (Ok (), s')"
        "make_room N (ev_size d) (up_critical N) iss (cs, ()) = (iss', v')" "rel N n (d # ds, iss', v') part s'"
        "ev_total iss' + ev_size d \<le> N"
      by auto
    then show ?thesis
      using evict_promotes [OF _ hd N True s'(1), of iss'] True
      by (auto simp: rel_def up_info_def admit_def u split: prod.splits)
  qed
qed

subsection \<open>Writing bytes\<close>

definition grow :: "nat \<Rightarrow> nat \<Rightarrow> queue \<Rightarrow> queue" where
  "grow N need q = make_room N need (up_info N) (fst q) (snd q)"

lemma grow_grow: "a \<le> b \<Longrightarrow> grow N b (grow N a q) = grow N b q"
  using make_room_more [of a b N "up_info N" "fst q" "snd q"]
  by (cases "make_room N a (up_info N) (fst q) (snd q)") (simp add: grow_def)

lemma grow_fits: "rel N n q part s \<Longrightarrow> grow N (length part) q = q"
  using make_room_fits [of "fst q" "length part" N] holds_bound [of N "fst q" part]
  by (cases q) (auto simp: grow_def rel_def)

lemma append_loop:
  assumes N: "N < 2 ^ 31" and lt: "length part < N"
  shows "rel N n (ds, u) part s \<Longrightarrow> \<exists>s'. EventWriter_append_loop c s = Some (Ok (), s') \<and>
    rel N n (grow N (length part + 1) (ds, u)) (part @ [c]) s'"
proof (induction ds arbitrary: u s)
  have here: "\<exists>s'. EventWriter_append_loop c s = Some (Ok (), s') \<and> rel N n (ds, u) (part @ [c]) s'"
    if "rel N n (ds, u) part s" "ev_total ds + length part < N" for ds u s
  proof -
    have "holds N ds part (ei_debug s)" using that(1) by (auto simp: rel_def split: prod.splits)
    from append_byte(1) [OF this that(2), of c] obtain b where
      "EventsBuf_append c (ei_debug s) = (Ok (Inr ()), b)" "holds N ds (part @ [c]) b" by blast
    with that(1) show ?thesis
      by (subst EventWriter_append_loop.simps) (auto simp: EventsInner_buf_mut_def OPER_BUF_def rel_def split: prod.splits)
  qed
  case Nil
  then show ?case using here [OF Nil] lt by (simp add: grow_def)
next
  case (Cons d ds)
  have h: "holds N (d # ds) part (ei_debug s)" using Cons.prems by (auto simp: rel_def split: prod.splits)
  show ?case
  proof (cases "ev_total (d # ds) + length part < N")
    case True
    with append_byte(1) [OF h True, of c] obtain b where
      "EventsBuf_append c (ei_debug s) = (Ok (Inr ()), b)" "holds N (d # ds) (part @ [c]) b" by blast
    with Cons.prems True show ?thesis
      by (subst EventWriter_append_loop.simps)
        (auto simp: EventsInner_buf_mut_def OPER_BUF_def rel_def grow_def split: prod.splits)
  next
    case False
    with holds_bound [OF h] have full: "ev_total (d # ds) + length part = N" by simp
    from evict_debug [OF Cons.prems N] obtain s' where s': "EventWriter_evict Debug s = Some (Ok (), s')"
        "rel N n (ds, up_info N d u) part s'" by blast
    have "EventWriter_append_loop c s = EventWriter_append_loop c s'"
      using append_byte(2) [OF h full, of c] s'(1)
      by (subst EventWriter_append_loop.simps) (simp add: EventsInner_buf_mut_def OPER_BUF_def)
    with Cons.IH [OF s'(2)] full show ?thesis by (simp add: grow_def)
  qed
qed

subsection \<open>Writing an event\<close>

definition wrel :: "nat \<Rightarrow> u64 \<Rightarrow> queue \<Rightarrow> bytes \<Rightarrow> EventWriter \<Rightarrow> bool" where
  "wrel N n q part w \<longleftrightarrow> rel N n q part (ew_events w) \<and> ew_bytes_written w = length part"

text \<open>
  An operation that appends \<open>bs\<close> to the event being written and makes room for it; when the event gets longer than a buffer
  it fails, with everything before the event evicted and some of \<open>bs\<close> written.
\<close>

definition writes_ev :: "nat \<Rightarrow> (EventWriter, unit) lsr \<Rightarrow> bytes \<Rightarrow> bool" where
  "writes_ev N m bs \<longleftrightarrow> (\<forall>n q part w. wrel N n q part w \<longrightarrow>
     (if length part + length bs \<le> N
      then \<exists>w'. m w = Some (Ok (), w') \<and> wrel N n (grow N (length part + length bs) q) (part @ bs) w'
      else \<exists>w' part'. m w = Some (Err ResourceExhausted, w') \<and> wrel N n (grow N N q) (part @ part') w'))"

lemma writes_evD:
  assumes "writes_ev N m bs" "wrel N n q part w"
  shows "length part + length bs \<le> N \<Longrightarrow>
      \<exists>w'. m w = Some (Ok (), w') \<and> wrel N n (grow N (length part + length bs) q) (part @ bs) w'"
    "\<not> length part + length bs \<le> N \<Longrightarrow>
      \<exists>w' part'. m w = Some (Err ResourceExhausted, w') \<and> wrel N n (grow N N q) (part @ part') w'"
  using assms(1) [unfolded writes_ev_def, rule_format, OF assms(2)] by simp_all

lemma wrel_grow: "wrel N n q part w \<Longrightarrow> grow N (length part) q = q"
  by (auto simp: wrel_def grow_fits)

lemma wrel_bound: "wrel N n q part w \<Longrightarrow> length part \<le> N"
  using holds_bound [of N _ part] by (fastforce simp: wrel_def rel_def split: prod.splits)

lemma writes_ev_nil: "writes_ev N (ls_return ()) []"
  unfolding writes_ev_def
proof (intro allI impI)
  fix n q part w assume w: "wrel N n q part w"
  with wrel_grow [OF w] wrel_bound [OF w] show "if length part + length [] \<le> N
      then \<exists>w'. ls_return () w = Some (Ok (), w') \<and> wrel N n (grow N (length part + length []) q) (part @ []) w'
      else \<exists>w' part'. ls_return () w = Some (Err ResourceExhausted, w') \<and> wrel N n (grow N N q) (part @ part') w'"
    by (simp add: sr_return_def)
qed

lemma writes_ev_then:
  assumes m: "writes_ev N m xs" and k: "writes_ev N k ys"
  shows "writes_ev N (ls_then m k) (xs @ ys)"
  unfolding writes_ev_def
proof (intro allI impI)
  fix n q part w assume w: "wrel N n q part w"
  show "if length part + length (xs @ ys) \<le> N
      then \<exists>w'. ls_then m k w = Some (Ok (), w') \<and> wrel N n (grow N (length part + length (xs @ ys)) q) (part @ xs @ ys) w'
      else \<exists>w' part'. ls_then m k w = Some (Err ResourceExhausted, w') \<and> wrel N n (grow N N q) (part @ part') w'"
  proof (cases "length part + length xs \<le> N")
    case False
    with writes_evD(2) [OF m w] show ?thesis by (auto dest: ls_bind_some(2) [where m = m])
  next
    case True
    from writes_evD(1) [OF m w this] obtain w1 where w1: "m w = Some (Ok (), w1)"
        "wrel N n (grow N (length part + length xs) q) (part @ xs) w1" by blast
    have step: "ls_then m k w = k w1" by (rule ls_bind_some(1) [where m = m, OF w1(1)])
    show ?thesis
    proof (cases "length part + length (xs @ ys) \<le> N")
      case fits: True
      with writes_evD(1) [OF k w1(2)] show ?thesis unfolding step by (simp add: grow_grow add.assoc)
    next
      case full: False
      with writes_evD(2) [OF k w1(2)] True show ?thesis unfolding step by (simp add: grow_grow) (metis append.assoc)
    qed
  qed
qed

lemma writes_ev_byte:
  assumes N: "0 < N" "N < 2 ^ 31"
  shows "writes_ev N (EventWriter_write N c) [c]"
  unfolding writes_ev_def
proof (intro allI impI)
  fix n q part w assume w: "wrel N n q part w"
  then have r: "rel N n (fst q, snd q) part (ew_events w)" "ew_bytes_written w = length part" by (simp_all add: wrel_def)
  show "if length part + length [c] \<le> N
      then \<exists>w'. EventWriter_write N c w = Some (Ok (), w') \<and> wrel N n (grow N (length part + length [c]) q) (part @ [c]) w'
      else \<exists>w' part'. EventWriter_write N c w = Some (Err ResourceExhausted, w') \<and> wrel N n (grow N N q) (part @ part') w'"
  proof (cases "length part < N")
    case True
    from append_loop [OF N(2) this r(1), of c] obtain s' where s': "EventWriter_append_loop c (ew_events w) = Some (Ok (), s')"
        "rel N n (grow N (length part + 1) q) (part @ [c]) s'" by auto
    with True N r(2) show ?thesis
      by (simp add: EventWriter_write_def ls_defs on_events_def sr_modify_def wrel_def)
  next
    case False
    with wrel_bound [OF w] have full: "length part = N" by simp
    have "EventWriter_write N c w = Some (Err ResourceExhausted, w)"
      using N r(2) full by (simp add: EventWriter_write_def sr_err_def)
    with wrel_grow [OF w] w full show ?thesis by (simp, intro exI [of _ w] exI [of _ "[]"]) simp
  qed
qed

lemma writes_ev_raw_data: "0 < N \<Longrightarrow> N < 2 ^ 31 \<Longrightarrow> writes_ev N (EventTLVWrite_write_raw_data N bs) bs"
proof (induction bs)
  case (Cons b bs)
  then show ?case using writes_ev_then [OF writes_ev_byte [of N b] Cons.IH] by simp
qed (simp add: writes_ev_nil)

lemma writes_ev_raw_value:
  assumes "0 < N" "N < 2 ^ 31"
  shows "writes_ev N (EventTLVWrite_raw_value N t vt d)
    (TLVControl_as_raw (TLVControl_new (TLVTag_tag_type t) vt) # tag_bytes t @ d)"
  using writes_ev_then [OF writes_ev_byte writes_ev_then [OF writes_ev_raw_data writes_ev_raw_data]] assms
  by (simp add: EventTLVWrite_raw_value_def)

lemma writes_ev_ints:
  assumes "0 < N" "N < 2 ^ 31"
  shows "writes_ev N (EventTLVWrite_u8 N t a) (tlv_bytes t (U8 a))"
    "writes_ev N (EventTLVWrite_u16 N t b) (tlv_bytes t (TLVValue_u16 b))"
    "writes_ev N (EventTLVWrite_u32 N t c) (tlv_bytes t (TLVValue_u32 c))"
    "writes_ev N (EventTLVWrite_u64 N t d) (tlv_bytes t (TLVValue_u64 d))"
    "writes_ev N (EventTLVWrite_start_struct N t) (tlv_bytes t Struct)"
    "writes_ev N (EventTLVWrite_start_list N t) (tlv_bytes t List)"
  using writes_ev_raw_value [OF assms] writes_ev_raw_value [OF assms, of t _ "[]"]
  by (simp_all add: EventTLVWrite_u8_def EventTLVWrite_u16_def EventTLVWrite_u32_def EventTLVWrite_u64_def
      EventTLVWrite_start_struct_def EventTLVWrite_start_list_def TLVValue_u8_def TLVValue_u16_def
      TLVValue_u32_def TLVValue_u64_def tlv_bytes_def tlv_len_bytes_def payload_def
      TLVValueType_variable_size_len_def to_le_bytes_def [of 0])

lemma writes_ev_end: "0 < N \<Longrightarrow> N < 2 ^ 31 \<Longrightarrow> writes_ev N (EventTLVWrite_end_container N) [0x18]"
  using writes_ev_byte [of N "0x18"]
  by (simp add: EventTLVWrite_end_container_def TLVControl_as_raw_def)

lemma rewind:
  assumes "wrel N n q (part @ part') w"
  shows "\<exists>w'. EventWriter_rewind_to (length part) w = Some (Ok (), w') \<and> wrel N n q part w'"
proof -
  obtain ds u where q: "q = (ds, u)" by (cases q)
  have h: "holds N ds (part @ part') (ei_debug (ew_events w))" and bw: "ew_bytes_written w = length part + length part'"
    using assms by (auto simp: wrel_def rel_def q split: prod.splits)
  obtain unused where b: "ei_debug (ew_events w) =
        \<lparr>eb_data = evs_bytes ds @ (part @ part') @ unused, eb_head = ev_total ds + length (part @ part')\<rparr>"
      and le: "ev_total ds + length (part @ part') + length unused = N" and wf: "\<forall>e \<in> set ds. ev_wf e"
    using holdsE [OF h] by blast
  let ?b = "\<lparr>eb_data = evs_bytes ds @ part @ part' @ unused, eb_head = ev_total ds + length part\<rparr>"
  have hb: "holds N ds part ?b" using le wf by (intro holdsI [where unused = "part' @ unused"]) auto
  have "EventWriter_rewind_to (length part) w =
      Some (Ok (), w\<lparr>ew_events := (ew_events w)\<lparr>ei_debug := ?b\<rparr>, ew_bytes_written := length part\<rparr>)"
    by (simp add: EventWriter_rewind_to_def bw ls_defs on_events_def EventsInner_buf_mut_def OPER_BUF_def b
        EventsBuf_rewind_by_def sr_modify_def)
  moreover have "wrel N n q part (w\<lparr>ew_events := (ew_events w)\<lparr>ei_debug := ?b\<rparr>, ew_bytes_written := length part\<rparr>)"
    using assms hb by (auto simp: wrel_def rel_def q split: prod.splits)
  ultimately show ?thesis by blast
qed

lemma or_rewind_fails:
  assumes "m w = Some (Err e, w1)" "wrel N n q (part @ part') w1"
  shows "\<exists>w'. or_rewind (length part) m w = Some (Err e, w') \<and> wrel N n q part w'"
  using rewind [OF assms(2)] assms(1) by (auto simp: or_rewind_def ls_bind_def sr_err_def)

lemma writes_ev_or_rewind:
  assumes m: "writes_ev N m bs"
  shows "writes_ev N (ls_bind (ls_lift sr_get) (\<lambda>w. or_rewind (EventWriter_get_tail w) m)) bs"
  unfolding writes_ev_def
proof (intro allI impI)
  fix n q part w assume w: "wrel N n q part w"
  then have tail: "EventWriter_get_tail w = length part" by (simp add: wrel_def EventWriter_get_tail_def)
  let ?m = "ls_bind (ls_lift sr_get) (\<lambda>w. or_rewind (EventWriter_get_tail w) m)"
  show "if length part + length bs \<le> N
      then \<exists>w'. ?m w = Some (Ok (), w') \<and> wrel N n (grow N (length part + length bs) q) (part @ bs) w'
      else \<exists>w' part'. ?m w = Some (Err ResourceExhausted, w') \<and> wrel N n (grow N N q) (part @ part') w'"
  proof (cases "length part + length bs \<le> N")
    case True
    with writes_evD(1) [OF m w] show ?thesis by (auto simp: tail or_rewind_def)
  next
    case False
    from writes_evD(2) [OF m w this] obtain w1 part' where "m w = Some (Err ResourceExhausted, w1)"
        "wrel N n (grow N N q) (part @ part') w1" by blast
    from or_rewind_fails [where m = m, OF this] obtain w' where
        "or_rewind (length part) m w = Some (Err ResourceExhausted, w')" "wrel N n (grow N N q) part w'" by blast
    with False show ?thesis by (simp add: tail, intro exI [of _ w'] exI [of _ "[]"]) simp
  qed
qed

lemma writes_ev_path:
  assumes N: "0 < N" "N < 2 ^ 31"
  shows "writes_ev N (EventPath_to_tlv N t \<lparr>vp_node = None, vp_endpoint = Some (ev_endpoint e),
      vp_cluster = Some (ev_cluster e), vp_event = Some (ev_event e), vp_is_urgent = None\<rparr>)
    (enc (Node t List (path_fields e)))"
proof -
  note w = writes_ev_ints [OF N] and fin = writes_ev_end [OF N]
  show ?thesis
    using writes_ev_or_rewind [OF writes_ev_then [OF w(6) [of t] writes_ev_then [OF w(2) [of "Context 1"]
          writes_ev_then [OF w(3) [of "Context 2"] writes_ev_then [OF w(3) [of "Context 3"] fin]]]]]
    by (simp add: EventPath_to_tlv_def option_to_tlv_def path_fields_def)
qed

lemma writes_ev_preamble:
  assumes N: "0 < N" "N < 2 ^ 31"
  shows "writes_ev N (EventData_write_preamble N EVENT_TAG \<lparr>ed_path = \<lparr>vp_node = None, vp_endpoint = Some (ev_endpoint e),
      vp_cluster = Some (ev_cluster e), vp_event = Some (ev_event e), vp_is_urgent = None\<rparr>,
      ed_event_number = ev_number e, ed_priority = ev_prio e, ed_timestamp = ev_time e, ed_data = d\<rparr>)
    (tlv_bytes (Context 1) Struct @ enc_all (ev_head e))"
proof -
  note w = writes_ev_ints [OF N]
  have "writes_ev N (case ev_time e of
         EpochTimestamp ts \<Rightarrow> EventTLVWrite_u64 N (Context (EventDataTag_as_u8 EpochTimestamp_tag)) ts
       | SystemTimestamp ts \<Rightarrow> EventTLVWrite_u64 N (Context (EventDataTag_as_u8 SystemTimestamp_tag)) ts
       | DeltaEpochTimestamp ts \<Rightarrow> EventTLVWrite_u64 N (Context (EventDataTag_as_u8 DeltaEpochTimestamp_tag)) ts
       | DeltaSystemTimestamp ts \<Rightarrow> EventTLVWrite_u64 N (Context (EventDataTag_as_u8 DeltaSystemTimestamp_tag)) ts)
      (tlv_bytes (Context (ts_tag (ev_time e))) (TLVValue_u64 (ts_value (ev_time e))))"
    using w(4) by (cases "ev_time e") simp_all
  then show ?thesis
    using writes_ev_then [OF w(5) [of "Context 1"] writes_ev_then [OF writes_ev_path [OF N, of "Context 0" e]
          writes_ev_then [OF w(4) [of "Context 1" "ev_number e"] writes_ev_then [OF w(1) [of "Context 2"]]]]]
    by (simp add: EventData_write_preamble_def EVENT_TAG_def ev_head_def)
qed

definition push_ev :: "nat \<Rightarrow> Ev \<Rightarrow> (EventWriter, unit) lsr \<Rightarrow> (EventsInner, unit) lsr" where
  "push_ev N e f = EventsInner_push N (ev_endpoint e) (ev_cluster e) (ev_event e) (ev_number e) (ev_prio e) (ev_time e) f"

lemma writes_ev_event:
  assumes N: "0 < N" "N < 2 ^ 31" and f: "writes_ev N f (enc_all (ev_body e))"
  shows "writes_ev N (ls_then (EventData_write_preamble N EVENT_TAG
      \<lparr>ed_path = \<lparr>vp_node = None, vp_endpoint = Some (ev_endpoint e), vp_cluster = Some (ev_cluster e),
          vp_event = Some (ev_event e), vp_is_urgent = None\<rparr>,
        ed_event_number = ev_number e, ed_priority = ev_prio e, ed_timestamp = ev_time e, ed_data = []\<rparr>)
      (ls_then f (EventTLVWrite_end_container N))) (ev_bytes e)"
  using writes_ev_then [OF writes_ev_preamble [OF N] writes_ev_then [OF f writes_ev_end [OF N]]]
  by (simp add: ev_bytes_def ev_tree_def)

lemma wrel_new: "rel N n q [] s \<Longrightarrow> wrel N n q [] (EventWriter_new s)"
  by (simp add: wrel_def EventWriter_new_def)

lemma event_complete:
  assumes "rel N n (ds, u) (ev_bytes e) s" "ev_wf e"
  shows "rel N n (ds @ [e], u) [] s"
  using assms by (auto simp: rel_def holds_def ev_size_def split: prod.splits)

lemma push_refines:
  assumes N: "0 < N" "N < 2 ^ 31" and r: "rel N n q [] s"
    and f: "writes_ev N f (enc_all (ev_body e))" and wf: "ev_wf e"
  shows "ev_size e \<le> N \<Longrightarrow> \<exists>s'. push_ev N e f s = Some (Ok (), s') \<and> rel N n (enqueue N e q) [] s'"
    "\<not> ev_size e \<le> N \<Longrightarrow> \<exists>s'. push_ev N e f s = Some (Err ResourceExhausted, s') \<and> rel N n (grow N N q) [] s'"
proof -
  define m where "m = ls_then (EventData_write_preamble N EVENT_TAG
      \<lparr>ed_path = \<lparr>vp_node = None, vp_endpoint = Some (ev_endpoint e), vp_cluster = Some (ev_cluster e),
          vp_event = Some (ev_event e), vp_is_urgent = None\<rparr>,
        ed_event_number = ev_number e, ed_priority = ev_prio e, ed_timestamp = ev_time e, ed_data = []\<rparr>)
      (ls_then f (EventTLVWrite_end_container N))"
  have m: "writes_ev N m (ev_bytes e)" unfolding m_def by (rule writes_ev_event [OF N f])
  have push: "push_ev N e f s = map_option (\<lambda>(r, w). (r, ew_events w)) (or_rewind 0 m (EventWriter_new s))"
    by (simp add: push_ev_def EventsInner_push_def m_def EventWriter_get_tail_def EventWriter_new_def)
  note w = writes_evD [OF m wrel_new [OF r]]
  show "\<exists>s'. push_ev N e f s = Some (Ok (), s') \<and> rel N n (enqueue N e q) [] s'" if small: "ev_size e \<le> N"
  proof -
    obtain w' where w': "m (EventWriter_new s) = Some (Ok (), w')" "wrel N n (grow N (ev_size e) q) (ev_bytes e) w'"
      using w(1) small by (auto simp: ev_size_def)
    obtain ds u where g: "grow N (ev_size e) q = (ds, u)" by (cases "grow N (ev_size e) q")
    then have "enqueue N e q = (ds @ [e], u)" by (cases q) (simp add: enqueue_eq grow_def)
    then show ?thesis using w' g event_complete [of N n ds u e "ew_events w'"] wf
      by (auto simp: push or_rewind_def wrel_def)
  qed
  show "\<exists>s'. push_ev N e f s = Some (Err ResourceExhausted, s') \<and> rel N n (grow N N q) [] s'" if big: "\<not> ev_size e \<le> N"
  proof -
    obtain w' part' where "m (EventWriter_new s) = Some (Err ResourceExhausted, w')" "wrel N n (grow N N q) ([] @ part') w'"
      using w(2) big by (auto simp: ev_size_def)
    from or_rewind_fails [where m = m, OF this] show ?thesis by (auto simp: push wrel_def)
  qed
qed

end
