(* ===== verification/Event_Retention.thy ===== *)
theory Event_Retention
  imports Event_Queue
begin

section \<open>Retention and reading of events\<close>

text \<open>
  Which events are still in the queue after a sequence of publications, and that the iterator of the queue returns
  exactly them, in the order of publication.
\<close>

subsection \<open>Displaced events\<close>

definition weight :: "nat \<Rightarrow> Ev list \<Rightarrow> nat" where
  "weight p es = ev_total (filter (\<lambda>e. p \<le> prio_level (ev_prio e)) es)"

text \<open>An event is displaced by later events of at least its priority that fill a buffer together with it.\<close>

definition displaced :: "nat \<Rightarrow> Ev \<Rightarrow> Ev list \<Rightarrow> bool" where
  "displaced N x es \<longleftrightarrow> (\<exists>ys. subseq (x # ys) es \<and> N < weight (prio_level (ev_prio x)) (x # ys))"

lemma displaced_mono: "displaced N x es \<Longrightarrow> subseq es fs \<Longrightarrow> displaced N x fs"
  unfolding displaced_def by (meson subseq_order.trans)

lemma subseq_snoc: "subseq xs ys \<Longrightarrow> subseq (xs @ [e]) (ys @ [e])" "subseq ys (ys @ zs)"
  using list_emb_append_mono [of "(=)" xs ys "[e]" "[e]"] list_emb_append_mono [of "(=)" ys ys "[]" zs] by auto

lemma subseq_set: "subseq xs ys \<Longrightarrow> set xs \<subseteq> set ys"
  by (auto elim: list_emb_set)

lemma ev_total_subseq: "subseq xs ys \<Longrightarrow> ev_total xs \<le> ev_total ys"
  by (induction rule: list_emb.induct) auto

lemma weight_subseq: "subseq xs ys \<Longrightarrow> weight p xs \<le> weight p ys"
  unfolding weight_def by (intro ev_total_subseq subseq_filter)

lemma weight_all: "\<forall>e \<in> set es. p \<le> prio_level (ev_prio e) \<Longrightarrow> weight p es = ev_total es"
  by (simp add: weight_def)

lemma not_displaced:
  assumes "distinct (as @ x # bs)" "weight (prio_level (ev_prio x)) (x # bs) \<le> N"
  shows "\<not> displaced N x (as @ x # bs)"
proof
  assume "displaced N x (as @ x # bs)"
  then obtain ys where ys: "subseq (x # ys) (as @ x # bs)" "N < weight (prio_level (ev_prio x)) (x # ys)"
    by (auto simp: displaced_def)
  from ys(1) assms(1) have "subseq (x # ys) (x # bs)" by (induction as) (auto simp: subseq_Cons2_neq)
  from weight_subseq [OF this] ys(2) assms(2) show False by (meson less_le_trans not_le)
qed

subsection \<open>A level and the levels above it\<close>

text \<open>
  The contract of the levels above a level: they take what they are handed behind what they have, lose only what is displaced, and refuse only
  an event below their threshold \<open>t\<close>.
\<close>

locale upper_levels =
  fixes N t :: nat and up :: "Ev \<Rightarrow> 'u \<Rightarrow> 'u" and content :: "'u \<Rightarrow> Ev list" and ok :: "'u \<Rightarrow> bool"
  assumes up_subseq: "ok u \<Longrightarrow> subseq (content (up e u)) (content u @ [e])"
    and up_ok: "ok u \<Longrightarrow> ok (up e u)"
    and up_keeps: "ok u \<Longrightarrow> x \<in> set (content u @ [e]) \<Longrightarrow>
      x \<in> set (content (up e u)) \<or> displaced N x (content u @ [e]) \<or> (x = e \<and> prio_level (ev_prio e) < t)"
begin

lemma make_room_ok:
  "ok u \<Longrightarrow> make_room N need up es u = (es', u') \<Longrightarrow> ok u' \<and> set es' \<subseteq> set es \<and> subseq (content u' @ es') (content u @ es)"
proof (induction es arbitrary: u)
  case (Cons e es)
  show ?case
  proof (cases "ev_total (e # es) + need \<le> N")
    case False
    then have "make_room N need up es (up e u) = (es', u')" using Cons.prems(2) by simp
    from Cons.IH [OF up_ok [OF Cons.prems(1)] this]
    have IH: "ok u'" "set es' \<subseteq> set es" "subseq (content u' @ es') (content (up e u) @ es)" by auto
    moreover have "subseq (content (up e u) @ es) (content u @ e # es)"
      using list_emb_append_mono [OF up_subseq [OF Cons.prems(1), of e] subseq_order.refl [of es]] by simp
    ultimately show ?thesis by (auto intro: subseq_order.trans)
  qed (use Cons.prems in auto)
qed auto

lemma make_room_keeps:
  "ok u \<Longrightarrow> make_room N (ev_size d) up es u = (es', u') \<Longrightarrow>
   \<forall>e \<in> set es. t \<le> Suc (prio_level (ev_prio e)) \<Longrightarrow> t \<le> Suc (prio_level (ev_prio d)) \<Longrightarrow>
   x \<in> set (content u @ es) \<Longrightarrow> x \<in> set (content u' @ es') \<or> displaced N x (content u @ es @ [d])"
proof (induction es arbitrary: u)
  case (Cons e es)
  show ?case
  proof (cases "ev_total (e # es) + ev_size d \<le> N")
    case False
    then have rec: "make_room N (ev_size d) up es (up e u) = (es', u')" using Cons.prems(2) by simp
    have sub: "subseq (content (up e u) @ es @ [d]) (content u @ (e # es) @ [d])"
      using list_emb_append_mono [OF up_subseq [OF Cons.prems(1), of e] subseq_order.refl [of "es @ [d]"]] by simp
    have front: "subseq (content u @ [e]) (content u @ (e # es) @ [d])"
      using subseq_snoc(2) [of "content u @ [e]" "es @ [d]"] by simp
    show ?thesis
    proof (cases "x \<in> set (content (up e u) @ es)")
      case True
      with Cons.IH [OF up_ok [OF Cons.prems(1)] rec] Cons.prems sub show ?thesis by (auto intro: displaced_mono)
    next
      case lost: False
      with up_keeps [OF Cons.prems(1), of x e] Cons.prems(5)
      have "displaced N x (content u @ [e]) \<or> x = e \<and> prio_level (ev_prio e) < t" by auto
      then show ?thesis
      proof
        assume "displaced N x (content u @ [e])"
        with front show ?thesis by (blast intro: displaced_mono)
      next
        assume x: "x = e \<and> prio_level (ev_prio e) < t"
        then have "\<forall>y \<in> set (e # es @ [d]). prio_level (ev_prio e) \<le> prio_level (ev_prio y)"
          using Cons.prems(3,4) by auto
        from weight_all [OF this] False have "N < weight (prio_level (ev_prio e)) (e # es @ [d])" by simp
        moreover have "subseq (e # es @ [d]) (content u @ (e # es) @ [d])"
          using list_emb_append_mono [OF list_emb_Nil [of "(=)" "content u"] subseq_order.refl [of "e # es @ [d]"]] by simp
        ultimately show ?thesis using x by (auto simp: displaced_def)
      qed
    qed
  qed (use Cons.prems in auto)
qed auto

text \<open>So a level admits events as the contract says, for a threshold one lower.\<close>

lemma admit_upper:
  assumes level: "t = Suc (prio_level l)"
  shows "upper_levels N (prio_level l) (admit N l up) (\<lambda>(es, u). content u @ es)
    (\<lambda>(es, u). ok u \<and> (\<forall>e \<in> set es. prio_level l \<le> prio_level (ev_prio e)))"
proof
  fix q :: "Ev list \<times> 'u" and e :: Ev
  obtain es u where q: "q = (es, u)" by (cases q)
  obtain es' u' where mr: "make_room N (ev_size e) up es u = (es', u')" by fastforce
  assume "case q of (es, u) \<Rightarrow> ok u \<and> (\<forall>e \<in> set es. prio_level l \<le> prio_level (ev_prio e))"
  then have ok: "ok u" and high: "\<forall>e \<in> set es. prio_level l \<le> prio_level (ev_prio e)" by (simp_all add: q)
  note keep = make_room_ok [OF ok mr]
  have adm: "admit N l up e q = (if prio_level l \<le> prio_level (ev_prio e) then (es' @ [e], u') else (es, u))"
    by (simp add: admit_def q mr)
  have "subseq ((content u' @ es') @ [e]) ((content u @ es) @ [e])"
    using keep by (blast intro: subseq_snoc)
  moreover have "subseq (content u @ es) ((content u @ es) @ [e])" by (rule subseq_snoc)
  ultimately show "subseq (case admit N l up e q of (es, u) \<Rightarrow> content u @ es) ((case q of (es, u) \<Rightarrow> content u @ es) @ [e])"
    by (simp add: adm [unfolded q] q)
  show "case admit N l up e q of (es, u) \<Rightarrow> ok u \<and> (\<forall>e \<in> set es. prio_level l \<le> prio_level (ev_prio e))"
    using keep ok high by (auto simp: adm)
  fix x assume x: "x \<in> set ((case q of (es, u) \<Rightarrow> content u @ es) @ [e])"
  show "x \<in> set (case admit N l up e q of (es, u) \<Rightarrow> content u @ es) \<or>
      displaced N x ((case q of (es, u) \<Rightarrow> content u @ es) @ [e]) \<or> x = e \<and> prio_level (ev_prio e) < prio_level l"
  proof (cases "prio_level l \<le> prio_level (ev_prio e)")
    case True
    then show ?thesis using make_room_keeps [OF ok mr, of x] high x by (auto simp: adm [unfolded q] q level)
  qed (use x in \<open>auto simp: adm [unfolded q] q\<close>)
qed

end

interpretation nothing: upper_levels N 3 "\<lambda>e u. u" "\<lambda>u :: unit. []" "\<lambda>u. True" for N
proof
  fix x e :: Ev
  have "prio_level (ev_prio e) < 3" by (cases "ev_prio e") auto
  then show "x \<in> set ([] @ [e]) \<Longrightarrow> x \<in> set [] \<or> displaced N x ([] @ [e]) \<or> x = e \<and> prio_level (ev_prio e) < 3" by simp
qed auto

interpretation critical: upper_levels N 2 "up_critical N" "\<lambda>(cs, u). [] @ cs"
  "\<lambda>(cs, u). True \<and> (\<forall>e \<in> set cs. 2 \<le> prio_level (ev_prio e))" for N
  using nothing.admit_upper [of Critical N] by (simp add: up_critical_def)

interpretation info: upper_levels N 1 "up_info N" "\<lambda>(is, u). (case u of (cs, u) \<Rightarrow> [] @ cs) @ is"
  "\<lambda>(is, u). (case u of (cs, u) \<Rightarrow> True \<and> (\<forall>e \<in> set cs. 2 \<le> prio_level (ev_prio e))) \<and>
     (\<forall>e \<in> set is. 1 \<le> prio_level (ev_prio e))" for N
  using critical.admit_upper [of Info N] by (simp add: up_info_def)

subsection \<open>The whole queue\<close>

text \<open>The events of the queue from the oldest to the newest, and the invariant of the levels.\<close>

fun flat :: "queue \<Rightarrow> Ev list" where
  "flat (ds, is, cs, _) = cs @ is @ ds"

fun levels_ok :: "queue \<Rightarrow> bool" where
  "levels_ok (ds, is, cs, _) \<longleftrightarrow> (\<forall>e \<in> set cs. ev_prio e = Critical) \<and> (\<forall>e \<in> set is. ev_prio e \<noteq> Debug)"

lemma prio_levels: "2 \<le> prio_level p \<longleftrightarrow> p = Critical" "Suc 0 \<le> prio_level p \<longleftrightarrow> p \<noteq> Debug"
  by (cases p; simp)+

lemma enqueue_keeps:
  assumes "levels_ok q"
  shows "levels_ok (enqueue N e q)" "subseq (flat (enqueue N e q)) (flat q @ [e])"
    "x \<in> set (flat q @ [e]) \<Longrightarrow> x \<in> set (flat (enqueue N e q)) \<or> displaced N x (flat q @ [e])"
proof -
  obtain ds iss cs where q: "q = (ds, iss, cs, ())" by (cases q) auto
  have ok: "(case (iss, cs, ()) of (is, u) \<Rightarrow> (case u of (cs, u) \<Rightarrow> True \<and> (\<forall>e \<in> set cs. 2 \<le> prio_level (ev_prio e))) \<and>
     (\<forall>e \<in> set is. 1 \<le> prio_level (ev_prio e)))"
    using assms by (simp add: q prio_levels)
  obtain ds' iss' cs' where mr: "make_room N (ev_size e) (up_info N) ds (iss, cs, ()) = (ds', iss', cs', ())"
    by (metis prod.exhaust old.unit.exhaust)
  have enq: "enqueue N e q = (ds' @ [e], iss', cs', ())" by (simp add: q enqueue_eq mr)
  note keep = info.make_room_ok [OF ok mr]
  show "levels_ok (enqueue N e q)" using keep by (simp add: enq prio_levels)
  show "subseq (flat (enqueue N e q)) (flat q @ [e])"
    using keep subseq_snoc(1) [of "(cs' @ iss') @ ds'" "(cs @ iss) @ ds" e] by (simp add: enq [unfolded q] q)
  show "x \<in> set (flat q @ [e]) \<Longrightarrow> x \<in> set (flat (enqueue N e q)) \<or> displaced N x (flat q @ [e])"
    using info.make_room_keeps [OF ok mr, of x] by (auto simp: enq [unfolded q] q)
qed

lemma history_keeps:
  "levels_ok (fold (enqueue N) h ([], [], [], ())) \<and> subseq (flat (fold (enqueue N) h ([], [], [], ()))) h \<and>
   (\<forall>x \<in> set h. x \<in> set (flat (fold (enqueue N) h ([], [], [], ()))) \<or> displaced N x h)"
proof (induction h rule: rev_induct)
  case (snoc e h)
  let ?q = "fold (enqueue N) h ([], [], [], ())"
  note k = enqueue_keeps [of ?q, where N = N and e = e]
  have sub: "subseq (flat ?q @ [e]) (h @ [e])" using snoc.IH by (blast intro: subseq_snoc)
  have more: "subseq h (h @ [e])" by (rule subseq_snoc)
  show ?case
  proof (intro conjI ballI)
    fix x assume "x \<in> set (h @ [e])"
    then show "x \<in> set (flat (fold (enqueue N) (h @ [e]) ([], [], [], ()))) \<or> displaced N x (h @ [e])"
      using snoc.IH k(3) [where x = x] displaced_mono [OF _ sub, of N x] displaced_mono [OF _ more, of N x] by auto
  qed (use snoc.IH k(1,2) sub in \<open>auto intro: subseq_order.trans\<close>)
qed simp

subsection \<open>Reading\<close>

text \<open>An event that can be read has one element of data, with the tag of event data.\<close>

definition ev_ok :: "Ev \<Rightarrow> bool" where
  "ev_ok e \<longleftrightarrow> (case ev_body e of [t] \<Rightarrow> wf_tree t \<and> root_tag t = EVENT_DATA_TAG | _ \<Rightarrow> False)"

definition event_path :: "Ev \<Rightarrow> EventPath" where
  "event_path e = \<lparr>vp_node = None, vp_endpoint = Some (ev_endpoint e), vp_cluster = Some (ev_cluster e),
     vp_event = Some (ev_event e), vp_is_urgent = None\<rparr>"

text \<open>The reader returns the element of the data as a slice of the buffer, from which the same tree is read.\<close>

definition shows_event :: "Ev \<Rightarrow> EventData \<Rightarrow> bool" where
  "shows_event e d \<longleftrightarrow> ed_path d = event_path e \<and> ed_event_number d = ev_number e \<and> ed_priority d = ev_prio e \<and>
     ed_timestamp d = ev_time e \<and> TLVElement_fmt_tree (ed_data d) = Ok (hd (ev_body e))"

lemma ro_simps [simp]: "ro_bind (Some (Ok x)) f = f x" "ro_bind (Some (Err e)) f = Some (Err e)" "ro_bind (Some Panic) f = Some Panic"
  by (simp_all add: ro_bind_def)

lemma scan_field_enc:
  assumes "\<forall>t \<in> set ts. wf_tree t" "length (enc_all ts) < 2 ^ 31" "seq_end r"
  shows "scan_field c f (enc_all ts @ r) k =
    ro_bind (Some (option_from_tlv f (scan_result c ts r))) (\<lambda>x. k x (enc_all (scan_to c ts) @ r))"
  by (simp add: scan_field_def scan_ctx_enc [OF assms])

lemma path_roundtrip:
  assumes len: "length (enc (Node g List (path_fields e))) < 2 ^ 31"
  shows "EventPath_from_tlv (enc (Node g List (path_fields e)) @ r) = Some (Ok (event_path e))"
proof -
  define a b c where leaves: "a = Leaf (Context 1) (TLVValue_u16 (ev_endpoint e))" "b = Leaf (Context 2) (TLVValue_u32 (ev_cluster e))"
    "c = Leaf (Context 3) (TLVValue_u32 (ev_event e))"
  have pf: "path_fields e = [a, b, c]" by (simp add: path_fields_def leaves)
  have wf: "wf_tree a" "wf_tree b" "wf_tree c" unfolding leaves by (simp_all del: wf_tree.simps)
  let ?r = "0x18 # r"
  have "TLVElement_list (enc (Node g List (path_fields e)) @ r) = Ok (enc_all [a, b, c] @ ?r)"
    using enc_next_enter [of "Node g List (path_fields e)" r] enc_control [of "Node g List (path_fields e)" r] wf
    by (simp add: TLVElement_list_def enc_rest_def pf del: enc.simps(1))
  moreover have scan: "scan_to 0 [a, b, c] = [a, b, c]" "scan_to 1 [a, b, c] = [a, b, c]" "scan_to 2 [a, b, c] = [b, c]"
      "scan_to 3 [b, c] = [c]" "scan_to 4 [c] = []"
    by (simp_all add: scan_to_def ctx_of_def leaves)
  moreover have res: "scan_result 0 [a, b, c] ?r = []" "scan_result 1 [a, b, c] ?r = enc a @ enc_all [b, c] @ ?r"
      "scan_result 2 [a, b, c] ?r = enc b @ enc_all [c] @ ?r" "scan_result 3 [b, c] ?r = enc c @ ?r"
      "scan_result 4 [c] ?r = []"
    unfolding scan_result_def scan by (simp_all add: ctx_of_def leaves)
  moreover have vals: "TLVElement_u16 (enc a @ x) = Ok (ev_endpoint e)" "TLVElement_u32 (enc b @ x) = Ok (ev_cluster e)"
      "TLVElement_u32 (enc c @ x) = Ok (ev_event e)" for x
    by (simp_all add: leaves read_u16 read_u32)
  have "length (enc_all [a, b, c]) < 2 ^ 31" using len by (simp add: pf)
  then have l: "length (enc_all [a, b, c]) < 2 ^ 31" "length (enc_all [b, c]) < 2 ^ 31" "length (enc_all [c]) < 2 ^ 31" by simp_all
  have w: "\<forall>t \<in> set [a, b, c]. wf_tree t" "\<forall>t \<in> set [b, c]. wf_tree t" "\<forall>t \<in> set [c]. wf_tree t" using wf by simp_all
  have fin: "seq_end ?r" by (simp add: seq_end_def)
  note sf = scan_field_enc [OF w(1) l(1) fin] scan_field_enc [OF w(2) l(2) fin] scan_field_enc [OF w(3) l(3) fin]
  have opt: "option_from_tlv f [] = Ok None" "option_from_tlv f (enc t @ x) = res_bind (f (enc t @ x)) (\<lambda>y. Ok (Some y))" for f t x
    by (simp_all add: option_from_tlv_def)
  ultimately show ?thesis
    unfolding EventPath_from_tlv_def
    by (simp only: ro_simps sf scan res opt vals res_bind_simps event_path_def)
qed

lemma fields_step:
  assumes "wf_tree t" "length (enc t) < 2 ^ 31" "EventData_field (enc t @ r) a = Some (Ok a')"
  shows "EventData_fields_loop (enc t @ r) a = EventData_fields_loop r a'"
  using assms by (subst EventData_fields_loop.simps) (simp add: enc_iter_next)

lemma tag_try_from:
  "EventDataTag_try_from 0 = Ok Path_tag" "EventDataTag_try_from 1 = Ok EventNumber_tag"
  "EventDataTag_try_from 2 = Ok Priority_tag" "EventDataTag_try_from 3 = Ok EpochTimestamp_tag"
  "EventDataTag_try_from 4 = Ok SystemTimestamp_tag" "EventDataTag_try_from 5 = Ok DeltaEpochTimestamp_tag"
  "EventDataTag_try_from 6 = Ok DeltaSystemTimestamp_tag" "EventDataTag_try_from 7 = Ok Data_tag"
  by (simp_all add: EventDataTag_try_from_def)

lemma prio_from_tlv: "EventPriority_from_tlv (tlv_bytes g (U8 (EventPriority_as_u8 p)) @ r) = Ok p"
  by (cases p) (simp_all add: EventPriority_from_tlv_def read_unsigned)

lemma field_values:
  "length (enc (Node (Context 0) List (path_fields e))) < 2 ^ 31 \<Longrightarrow>
     EventData_field (enc (Node (Context 0) List (path_fields e)) @ r) a = Some (Ok (a\<lparr>ef_path := Some (event_path e)\<rparr>))"
  "EventData_field (enc (Leaf (Context 1) (TLVValue_u64 n)) @ r) a = Some (Ok (a\<lparr>ef_event_number := Some n\<rparr>))"
  "EventData_field (enc (Leaf (Context 2) (U8 (EventPriority_as_u8 p))) @ r) a = Some (Ok (a\<lparr>ef_priority := Some p\<rparr>))"
  "EventData_field (enc (Leaf (Context (ts_tag ts)) (TLVValue_u64 (ts_value ts))) @ r) a =
     Some (Ok (a\<lparr>ef_timestamp := Some ts\<rparr>))"
  "root_tag t = EVENT_DATA_TAG \<Longrightarrow> EventData_field (enc t @ r) a = Some (Ok (a\<lparr>ef_data := Some (enc t @ r)\<rparr>))"
  using path_roundtrip [of "Context 0" e r] enc_tag [of "Node (Context 0) List (path_fields e)" r] enc_tag [of t r]
  by (simp_all add: EventData_field_def tlv_tag tag_try_from read_u64 prio_from_tlv EVENT_DATA_TAG_def)
    (cases ts; simp add: tag_try_from read_u64)

lemma fields_end: "EventData_fields_loop (0x18 # r) a = Some (Ok a)"
  using seq_end_next [of "0x18 # r"] by (subst EventData_fields_loop.simps) (simp add: seq_end_def)

lemma fields_head:
  assumes len: "length (enc_all (ev_head e)) < 2 ^ 31"
  shows "EventData_fields_loop (enc_all (ev_head e) @ r) a = EventData_fields_loop r (a\<lparr>ef_path := Some (event_path e),
    ef_event_number := Some (ev_number e), ef_priority := Some (ev_prio e), ef_timestamp := Some (ev_time e)\<rparr>)"
proof -
  define p n k m where heads: "p = Node (Context 0) List (path_fields e)" "n = Leaf (Context 1) (TLVValue_u64 (ev_number e))"
     "k = Leaf (Context 2) (U8 (EventPriority_as_u8 (ev_prio e)))"
     "m = Leaf (Context (ts_tag (ev_time e))) (TLVValue_u64 (ts_value (ev_time e)))"
  have hd: "ev_head e = [p, n, k, m]" by (simp add: ev_head_def heads)
  have small: "length (enc x) < 2 ^ 31" if "x \<in> set (ev_head e)" for x
    using enc_all_length [OF that] len by simp
  have step: "EventData_field (enc x @ r') a = Some (Ok a') \<Longrightarrow>
      EventData_fields_loop (enc x @ r') a = EventData_fields_loop r' a'" if "x \<in> set [p, n, k, m]" for x r' a a'
    using fields_step [of x] small [of x] wf_head [of e] that unfolding hd by blast
  have steps: "EventData_fields_loop (enc p @ r') a = EventData_fields_loop r' (a\<lparr>ef_path := Some (event_path e)\<rparr>)"
      "EventData_fields_loop (enc n @ r') a = EventData_fields_loop r' (a\<lparr>ef_event_number := Some (ev_number e)\<rparr>)"
      "EventData_fields_loop (enc k @ r') a = EventData_fields_loop r' (a\<lparr>ef_priority := Some (ev_prio e)\<rparr>)"
      "EventData_fields_loop (enc m @ r') a = EventData_fields_loop r' (a\<lparr>ef_timestamp := Some (ev_time e)\<rparr>)" for r' a
    by (rule step; use small [of p] field_values in \<open>simp add: hd heads del: enc.simps\<close>)+
  have "enc_all (ev_head e) @ r = enc p @ enc n @ enc k @ enc m @ r" unfolding hd by simp
  then show ?thesis by (simp only: steps)
qed

lemma event_fields:
  assumes "ev_wf e" "length (ev_bytes e @ r) < 2 ^ 31"
  shows "TLVElement_structure (ev_bytes e @ r) = Ok (enc_all (ev_head e) @ enc_all (ev_body e) @ 0x18 # r)"
    "length (enc_all (ev_head e)) < 2 ^ 31"
  using structure_enc [OF wf_ev_tree [OF assms(1), unfolded ev_tree_def], of r] assms(2)
  by (simp_all add: ev_bytes_def ev_tree_def)

lemma event_roundtrip:
  assumes ok: "ev_ok e" and len: "length (ev_bytes e @ r) < 2 ^ 31"
  shows "\<exists>d. EventData_from_tlv (ev_bytes e @ r) = Some (Ok d) \<and> shows_event e d"
proof -
  obtain t where t: "ev_body e = [t]" "wf_tree t" "root_tag t = EVENT_DATA_TAG"
    using ok by (auto simp: ev_ok_def split: list.splits)
  then have wf: "ev_wf e" by (simp add: ev_wf_def)
  have small: "length (enc t) < 2 ^ 31" "length (enc t @ 0x18 # r) < 2 ^ 64"
    using len by (simp_all add: ev_bytes_def ev_tree_def t)
  have "EventData_fields_loop (enc t @ 0x18 # r) a = Some (Ok (a\<lparr>ef_data := Some (enc t @ 0x18 # r)\<rparr>))" for a
    using fields_step [OF t(2) small(1) field_values(5) [OF t(3)]] by (simp only: fields_end)
  then have "EventData_from_tlv (ev_bytes e @ r) = Some (Ok \<lparr>ed_path = event_path e, ed_event_number = ev_number e,
      ed_priority = ev_prio e, ed_timestamp = ev_time e, ed_data = enc t @ 0x18 # r\<rparr>)"
    unfolding EventData_from_tlv_def event_fields(1) [OF wf len] by (simp add: fields_head [OF event_fields(2) [OF wf len]] t(1))
  moreover have "TLVElement_fmt_tree (enc t @ 0x18 # r) = Ok t" by (rule fmt_enc [OF t(2) small])
  ultimately show ?thesis by (auto simp: shows_event_def t)
qed

lemma event_without_data:
  assumes "ev_body e = []" "length (ev_bytes e @ r) < 2 ^ 31"
  shows "EventData_from_tlv (ev_bytes e @ r) = Some (Err Invalid)"
proof -
  have wf: "ev_wf e" using assms(1) by (simp add: ev_wf_def)
  show ?thesis
    unfolding EventData_from_tlv_def event_fields(1) [OF wf assms(2)]
    by (simp add: fields_head [OF event_fields(2) [OF wf assms(2)]] assms(1) fields_end)
qed

subsubsection \<open>The iterator\<close>

definition reads_as :: "EventsInner \<Rightarrow> EventsIter \<Rightarrow> Ev list \<Rightarrow> bool" where
  "reads_as s it es \<longleftrightarrow> (\<exists>ds. EventsIter_collect s it = Some (Ok ds) \<and> list_all2 shows_event es ds)"

lemma reads_as_events:
  assumes rest: "reads_as s \<lparr>it_buf_ref = p, it_buf_iter = []\<rparr> rest"
  shows "\<forall>e \<in> set es. ev_ok e \<Longrightarrow> ev_total es < 2 ^ 31 \<Longrightarrow>
    reads_as s \<lparr>it_buf_ref = p, it_buf_iter = evs_bytes es\<rparr> (es @ rest)"
proof (induction es)
  case Nil
  then show ?case using rest by simp
next
  case (Cons e es)
  let ?it = "\<lparr>it_buf_ref = p, it_buf_iter = evs_bytes es\<rparr>"
  have ok: "ev_ok e" and len: "length (ev_bytes e @ evs_bytes es) < 2 ^ 31" "length (ev_bytes e) < 2 ^ 31"
    using Cons.prems by (simp_all add: length_evs flip: ev_size_def)
  have wf: "wf_tree (ev_tree e)"
    using ok by (intro wf_ev_tree) (auto simp: ev_ok_def ev_wf_def split: list.splits)
  obtain d where d: "EventData_from_tlv (ev_bytes e @ evs_bytes es) = Some (Ok d)" "shows_event e d"
    using event_roundtrip [OF ok len(1)] by blast
  have "EventsIter_next s \<lparr>it_buf_ref = p, it_buf_iter = evs_bytes (e # es)\<rparr> = Some (Ok (Some d), ?it)"
    using enc_iter_next [OF wf, of "evs_bytes es"] len(2) d(1)
    by (subst EventsIter_next.simps) (simp add: ev_bytes_def [symmetric] res_unwrap_def)
  moreover have "reads_as s ?it (es @ rest)" using Cons by simp
  ultimately show ?case using d(2) unfolding reads_as_def by (subst EventsIter_collect.simps) auto
qed

lemma reads_as_next:
  assumes "EventPriority_prev p = Some p'" "holds N es [] (EventsInner_buf p' s)"
    and "reads_as s \<lparr>it_buf_ref = p', it_buf_iter = evs_bytes es\<rparr> rest"
  shows "reads_as s \<lparr>it_buf_ref = p, it_buf_iter = []\<rparr> rest"
proof -
  have "EventsIter_next s \<lparr>it_buf_ref = p, it_buf_iter = []\<rparr> = EventsIter_next s \<lparr>it_buf_ref = p', it_buf_iter = evs_bytes es\<rparr>"
    using assms(1) holds_content [OF assms(2)] seq_end_next [of "[]"]
    by (subst EventsIter_next.simps) (simp add: seq_end_def EventsBuf_iter_def)
  with assms(3) show ?thesis unfolding reads_as_def by (subst EventsIter_collect.simps, subst (asm) EventsIter_collect.simps) simp
qed

lemma reads_as_end: "reads_as s \<lparr>it_buf_ref = Debug, it_buf_iter = []\<rparr> []"
  using seq_end_next [of "[]"]
  by (simp add: reads_as_def, subst EventsIter_collect.simps, subst EventsIter_next.simps) (simp add: seq_end_def)

lemma fetch_reads:
  assumes r: "rel N n q [] s" and N: "N < 2 ^ 31" and ok: "\<forall>e \<in> set (flat q). ev_ok e"
  shows "\<exists>ds. Events_fetch s = Some (Ok ds) \<and> list_all2 shows_event (flat q) ds"
proof -
  obtain ds iss cs where q: "q = (ds, iss, cs, ())" by (cases q) auto
  have h: "holds N ds [] (EventsInner_buf Debug s)" "holds N iss [] (EventsInner_buf Info s)"
      "holds N cs [] (EventsInner_buf Critical s)" using r by (simp_all add: rel_def q)
  have len: "ev_total ds < 2 ^ 31" "ev_total iss < 2 ^ 31" "ev_total cs < 2 ^ 31"
    using holds_bound [OF h(1)] holds_bound [OF h(2)] holds_bound [OF h(3)] N by simp_all
  have "reads_as s \<lparr>it_buf_ref = Debug, it_buf_iter = evs_bytes ds\<rparr> (ds @ [])"
    using ok by (intro reads_as_events [OF reads_as_end] len) (simp add: q)
  then have "reads_as s \<lparr>it_buf_ref = Info, it_buf_iter = evs_bytes iss\<rparr> (iss @ ds)"
    using ok by (intro reads_as_events [OF reads_as_next [OF _ h(1)]] len) (simp_all add: q)
  then have "reads_as s \<lparr>it_buf_ref = Critical, it_buf_iter = evs_bytes cs\<rparr> (cs @ iss @ ds)"
    using ok by (intro reads_as_events [where rest = "iss @ ds", OF reads_as_next [OF _ h(2)]] len) (simp_all add: q)
  then show ?thesis using holds_content [OF h(3)]
    by (simp add: Events_fetch_def EventsInner_iter_def EventsBuf_iter_def reads_as_def q)
qed

subsection \<open>Properties\<close>

text \<open>Publishing a sequence of events, each with its closure.\<close>

fun push_all :: "nat \<Rightarrow> (Ev \<times> (EventWriter, unit) lsr) list \<Rightarrow> (EventsInner, unit) lsr" where
  "push_all N [] = ls_return ()"
| "push_all N ((e, f) # h) = ls_then (push_ev N e f) (push_all N h)"

text \<open>A closure that writes the data of the event.\<close>

definition writes_body :: "nat \<Rightarrow> Ev \<times> (EventWriter, unit) lsr \<Rightarrow> bool" where
  "writes_body N = (\<lambda>(e, f). ev_ok e \<and> writes_ev N f (enc_all (ev_body e)))"

lemma ev_ok_wf: "ev_ok e \<Longrightarrow> ev_wf e"
  by (auto simp: ev_ok_def ev_wf_def split: list.splits)

lemma push_all_refines:
  assumes N: "0 < N" "N < 2 ^ 31"
  shows "\<forall>x \<in> set h. writes_body N x \<and> ev_size (fst x) \<le> N \<Longrightarrow> rel N n q [] s \<Longrightarrow>
    \<exists>s'. push_all N h s = Some (Ok (), s') \<and> rel N n (fold (enqueue N) (map fst h) q) [] s'"
proof (induction h arbitrary: q s)
  case Nil
  then show ?case by (simp add: sr_return_def)
next
  case (Cons x h)
  obtain e f where x: "x = (e, f)" by (cases x)
  have "\<exists>s'. push_ev N e f s = Some (Ok (), s') \<and> rel N n (enqueue N e q) [] s'"
    using Cons.prems by (intro push_refines(1) N) (auto simp: x writes_body_def ev_ok_wf)
  then obtain s1 where s1: "push_ev N e f s = Some (Ok (), s1)" "rel N n (enqueue N e q) [] s1" by blast
  have "push_all N (x # h) s = push_all N h s1"
    using ls_bind_some(1) [where m = "push_ev N e f", OF s1(1)] by (simp add: x)
  with Cons.IH [OF _ s1(2)] Cons.prems show ?case by (simp add: x)
qed

lemma rel_new: "rel N 1 ([], [], [], ()) [] (EventsInner_new N)"
  by (simp add: rel_def EventsInner_new_def holds_new)


definition demo_event :: "u64 \<Rightarrow> EventPriority \<Rightarrow> Ev" where
  "demo_event n p = \<lparr>ev_endpoint = 1, ev_cluster = 2, ev_event = 3, ev_number = n, ev_prio = p,
     ev_time = EpochTimestamp 4, ev_body = [Leaf EVENT_DATA_TAG (U8 5)]\<rparr>"

definition demo_closure :: "nat \<Rightarrow> (EventWriter, unit) lsr" where
  "demo_closure N = EventTLVWrite_write_raw_data N (enc (Leaf EVENT_DATA_TAG (U8 5)))"

lemma demo_writes: "0 < N \<Longrightarrow> N < 2 ^ 31 \<Longrightarrow> writes_body N (demo_event n p, demo_closure N)"
  using writes_ev_raw_data [of N "enc (Leaf EVENT_DATA_TAG (U8 5))"]
  by (simp add: writes_body_def ev_ok_def demo_event_def demo_closure_def tlv_defs)

lemma demo_size: "ev_size (demo_event 1 p) = 27" "ev_size (demo_event 2 p) = 27"
  by (simp_all add: ev_size_def ev_bytes_def ev_tree_def demo_event_def ev_head_def path_fields_def length_tlv_bytes
      TLVValue_u64_def TLVValue_u32_def TLVValue_u16_def TLVValue_u8_def payload_def EVENT_DATA_TAG_def
      TLVValueType_variable_size_len_def word_le_nat_alt)


text \<open>
  Claim C26: one publication computes exactly the abstract queue. An event that fits is appended behind the newest one after the oldest
  events were dropped or moved up until there is room; one that is longer than a buffer is refused with \<open>ResourceExhausted\<close> and leaves nothing
  behind, but the level it was written to is empty by then: what was not important enough to move up is lost.
\<close>

theorem event_push_refines:
  assumes "0 < N" "N < 2 ^ 31" "rel N n q [] s" "writes_body N (e, f)"
  shows "\<exists>s'. EventsInner_push N (ev_endpoint e) (ev_cluster e) (ev_event e) (ev_number e) (ev_prio e) (ev_time e) f s =
      Some (if ev_size e \<le> N then Ok () else Err ResourceExhausted, s') \<and>
    rel N n (if ev_size e \<le> N then enqueue N e q else ([], snd (grow N N q))) [] s'"
proof -
  have f: "writes_ev N f (enc_all (ev_body e))" "ev_wf e" using assms(4) by (auto simp: writes_body_def ev_ok_wf)
  have "grow N N q = ([], snd (grow N N q))" unfolding grow_def by (rule make_room_all)
  then show ?thesis using push_refines [OF assms(1-3) f] by (cases "ev_size e \<le> N") (auto simp: push_ev_def)
qed

theorem event_push_refines_witness:
  "\<exists>s s'. rel 16 1 ([], [], [], ()) [] s \<and>
     EventsInner_push 16 1 2 3 1 Info (EpochTimestamp 4) (demo_closure 16) s = Some (Err ResourceExhausted, s')"
proof -
  have "writes_body 16 (demo_event 1 Info, demo_closure 16)" by (rule demo_writes) simp_all
  from event_push_refines [OF _ _ rel_new [of 16] this] show ?thesis
    using rel_new [of 16] by (auto simp: demo_size) (auto simp: demo_event_def)
qed

text \<open>
  A closure that writes no data leaves an event that cannot be read: publishing succeeds and every reader of the queue
  panics.
\<close>

theorem event_without_data_panics:
  assumes "0 < N" "N < 2 ^ 31" "ev_body e = []" "ev_size e \<le> N"
  shows "\<exists>s. push_ev N e (ls_return ()) (EventsInner_new N) = Some (Ok (), s) \<and> Events_fetch s = Some Panic"
proof -
  have wf: "ev_wf e" using assms(3) by (simp add: ev_wf_def)
  have "\<exists>s. push_ev N e (ls_return ()) (EventsInner_new N) = Some (Ok (), s) \<and> rel N 1 (enqueue N e ([], [], [], ())) [] s"
    using assms writes_ev_nil [of N] by (intro push_refines(1) rel_new wf) simp_all
  then obtain s where s: "push_ev N e (ls_return ()) (EventsInner_new N) = Some (Ok (), s)" "rel N 1 ([e], [], [], ()) [] s"
    by (auto simp: enqueue_eq)
  have h: "holds N [e] [] (EventsInner_buf Debug s)" "holds N [] [] (EventsInner_buf Info s)" "holds N [] [] (EventsInner_buf Critical s)"
    using s(2) by (simp_all add: rel_def)
  have len: "length (ev_bytes e @ []) < 2 ^ 31" "length (ev_bytes e) < 2 ^ 31"
    using assms(2,4) by (simp_all flip: ev_size_def)
  have it: "TLVSequenceIter_next (ev_bytes e) = (Ok (Some (ev_bytes e)), [])"
    using enc_iter_next [OF wf_ev_tree [OF wf], of "[]"] len by (simp add: ev_bytes_def)
  have nxt: "EventsIter_next s \<lparr>it_buf_ref = Debug, it_buf_iter = ev_bytes e\<rparr> =
      Some (Panic, \<lparr>it_buf_ref = Debug, it_buf_iter = []\<rparr>)"
    using event_without_data [OF assms(3) len(1)] it by (subst EventsIter_next.simps) (simp add: res_unwrap_def)
  have "TLVSequenceIter_next [] = (Ok None, [])" using seq_end_next [of "[]"] by (simp add: seq_end_def)
  then have "EventsIter_next s \<lparr>it_buf_ref = Critical, it_buf_iter = []\<rparr> =
      Some (Panic, \<lparr>it_buf_ref = Debug, it_buf_iter = []\<rparr>)"
    using holds_content [OF h(1)] holds_content [OF h(2)] nxt
    by (subst EventsIter_next.simps, simp add: EventsBuf_iter_def, subst EventsIter_next.simps, simp add: EventsBuf_iter_def)
  then have "Events_fetch s = Some Panic"
    using holds_content [OF h(3)]
    by (simp add: Events_fetch_def EventsInner_iter_def EventsBuf_iter_def) (subst EventsIter_collect.simps, simp)
  with s(1) show ?thesis by blast
qed

end
