(* ===== verification/Event_Numbers.thy ===== *)
theory Event_Numbers
  imports Event_Retention
begin

section \<open>Event numbers across restarts\<close>

text \<open>
  The node as a state machine: events are published with arbitrary closures, other parts of the program store their blobs, the
  environment changes, and the node restarts and loads its persisted epoch. In every run the queue represents an abstract one, so
  that publishing neither panics nor runs forever, and no event number is given out twice, although only every ten-thousandth is persisted.
\<close>

subsection \<open>Closures\<close>

text \<open>
  A closure appends to the event that is being written, making room as it goes; it may stop with an error anywhere. If it
  succeeds it has written whole elements.
\<close>

definition closure_ok :: "nat \<Rightarrow> (EventWriter, unit) lsr \<Rightarrow> bool" where
  "closure_ok N f \<longleftrightarrow> (\<forall>n q part w. wrel N n q part w \<longrightarrow> (\<exists>r w' q' part'. f w = Some (r, w') \<and> r \<noteq> Panic \<and>
     wrel N n q' (part @ part') w' \<and>
     (r = Ok () \<longrightarrow> (\<exists>ts. (\<forall>t \<in> set ts. wf_tree t) \<and> part' = enc_all ts))))"

lemma closure_writes: "writes_ev N f (enc_all ts) \<Longrightarrow> \<forall>t \<in> set ts. wf_tree t \<Longrightarrow> closure_ok N f"
  unfolding closure_ok_def
proof (intro allI impI)
  fix n q part w assume f: "writes_ev N f (enc_all ts)" "\<forall>t \<in> set ts. wf_tree t" "wrel N n q part w"
  show "\<exists>r w' q' part'. f w = Some (r, w') \<and> r \<noteq> Panic \<and> wrel N n q' (part @ part') w' \<and>
      (r = Ok () \<longrightarrow> (\<exists>ts. (\<forall>t \<in> set ts. wf_tree t) \<and> part' = enc_all ts))"
    using writes_evD [OF f(1,3)] f(2) by (cases "length part + length (enc_all ts) \<le> N") blast+
qed

lemma push_any:
  assumes N: "0 < N" "N < 2 ^ 31" and r: "rel N n q [] s" and f: "closure_ok N f"
  shows "\<exists>r s' q'. EventsInner_push N ep cl ev number prio ts f s = Some (r, s') \<and> r \<noteq> Panic \<and> rel N n q' [] s'"
proof -
  define e where "e body = \<lparr>ev_endpoint = ep, ev_cluster = cl, ev_event = ev, ev_number = number, ev_prio = prio,
    ev_time = ts, ev_body = body\<rparr>" for body
  define pre where "pre = EventData_write_preamble N EVENT_TAG
      \<lparr>ed_path = \<lparr>vp_node = None, vp_endpoint = Some ep, vp_cluster = Some cl, vp_event = Some ev, vp_is_urgent = None\<rparr>,
        ed_event_number = number, ed_priority = prio, ed_timestamp = ts, ed_data = []\<rparr>"
  let ?hd = "tlv_bytes (Context 1) Struct @ enc_all (ev_head (e []))"
  have pre: "writes_ev N pre ?hd"
    using writes_ev_preamble [OF N, of "e []"] by (simp add: pre_def e_def)
  have head: "ev_head (e body) = ev_head (e [])" for body by (simp add: e_def ev_head_def path_fields_def)
  define m where "m = ls_then pre (ls_then f (EventTLVWrite_end_container N))"
  have push: "EventsInner_push N ep cl ev number prio ts f s =
      map_option (\<lambda>(r, w). (r, ew_events w)) (or_rewind 0 m (EventWriter_new s))"
    by (simp add: EventsInner_push_def m_def pre_def EventWriter_get_tail_def EventWriter_new_def)
  have fails: ?thesis if m: "m (EventWriter_new s) = Some (Err x, w)" and w: "wrel N n q' part w" for x w q' part
  proof -
    obtain w' where "or_rewind 0 m (EventWriter_new s) = Some (Err x, w')" "wrel N n q' [] w'"
      using or_rewind_fails [where m = m and part = "[]" and part' = part and q = q' and n = n and N = N, OF m] w by auto
    then show ?thesis
      by (intro exI [of _ "Err x"] exI [of _ "ew_events w'"] exI [of _ q']) (simp add: push wrel_def)
  qed
  note w0 = wrel_new [OF r]
  show ?thesis
  proof (cases "length ?hd \<le> N")
    case False
    with writes_evD(2) [OF pre w0] obtain w' part' where "pre (EventWriter_new s) = Some (Err ResourceExhausted, w')"
        "wrel N n (grow N N q) part' w'" by auto
    then show ?thesis by (intro fails) (auto simp: m_def intro: ls_bind_some(2) [where m = pre])
  next
    case True
    with writes_evD(1) [OF pre w0] obtain w1 where w1: "pre (EventWriter_new s) = Some (Ok (), w1)"
        "wrel N n (grow N (length ?hd) q) ?hd w1" by auto
    from f w1(2) obtain r2 w2 q2 part2 where w2: "f w1 = Some (r2, w2)" "r2 \<noteq> Panic" "wrel N n q2 (?hd @ part2) w2"
        "r2 = Ok () \<longrightarrow> (\<exists>ts. (\<forall>t \<in> set ts. wf_tree t) \<and> part2 = enc_all ts)"
      unfolding closure_ok_def by blast
    have m1: "m (EventWriter_new s) = ls_then f (EventTLVWrite_end_container N) w1"
      unfolding m_def by (rule ls_bind_some(1) [where m = pre, OF w1(1)])
    show ?thesis
    proof (cases r2)
      case (Err x)
      then show ?thesis using w2(1,3) by (intro fails [of x w2]) (auto simp: m1 intro: ls_bind_some(2) [where m = f])
    next
      case (Ok u)
      then obtain body where body: "\<forall>t \<in> set body. wf_tree t" "part2 = enc_all body" using w2(4) by auto
      have m2: "m (EventWriter_new s) = EventTLVWrite_end_container N w2"
        using ls_bind_some(1) [where m = f, of w1 u w2] w2(1) Ok by (simp add: m1)
      show ?thesis
      proof (cases "length (?hd @ part2) + length [0x18 :: u8] \<le> N")
        case False
        with writes_evD(2) [OF writes_ev_end [OF N] w2(3)] obtain w3 part3 where
            "EventTLVWrite_end_container N w2 = Some (Err ResourceExhausted, w3)" "wrel N n (grow N N q2) part3 w3" by blast
        then show ?thesis by (intro fails [of ResourceExhausted w3]) (simp_all add: m2)
      next
        case True
        with writes_evD(1) [OF writes_ev_end [OF N] w2(3)] obtain w3 q3 where w3:
            "EventTLVWrite_end_container N w2 = Some (Ok (), w3)" "wrel N n q3 ((?hd @ part2) @ [0x18]) w3" by blast
        have "(?hd @ part2) @ [0x18] = ev_bytes (e body)"
          unfolding ev_bytes_def ev_tree_def body(2) head [of body] by (simp add: e_def)
        moreover have "ev_wf (e body)" using body(1) by (simp add: ev_wf_def e_def)
        ultimately have "rel N n (fst q3 @ [e body], snd q3) [] (ew_events w3)"
          using event_complete [of N n "fst q3" "snd q3" "e body" "ew_events w3"] w3(2) by (simp add: wrel_def)
        then show ?thesis using w3(1)
          by (intro exI [of _ "Ok ()"] exI [of _ "ew_events w3"] exI [of _ "(fst q3 @ [e body], snd q3)"])
            (simp add: push or_rewind_def m2)
      qed
    qed (use w2(2) in simp)
  qed
qed

subsection \<open>Runs\<close>

text \<open>
  The numbers given out so far, the queue, and the store with its buffer. A store that has no epoch yet is \<open>fresh\<close>. Numbers stay
  two epochs below the wrap-around.
\<close>

inductive event_run :: "nat \<Rightarrow> 'k KvBlobStore \<Rightarrow> ('k \<Rightarrow> 'k) \<Rightarrow> ('k \<Rightarrow> 'k \<Rightarrow> bool) \<Rightarrow> ('k \<Rightarrow> bool) \<Rightarrow>
    u64 list \<Rightarrow> EventsInner \<Rightarrow> 'k SharedKvBlobStore \<Rightarrow> bool"
  for N :: nat and kv :: "'k KvBlobStore" and restart env fresh where
  start: "fresh (skv_store a) \<Longrightarrow> 17 \<le> length (skv_buf a) \<Longrightarrow> event_run N kv restart env fresh [] (EventsInner_new N) a"
| publish: "event_run N kv restart env fresh ns s a \<Longrightarrow> unat (ei_next_event_number s) + 20000 < 2 ^ 64 \<Longrightarrow> closure_ok N f \<Longrightarrow>
    Events_push N endpoint_id cluster_id event_id priority kv now f (s, a) = Some (r, (s', a')) \<Longrightarrow>
    event_run N kv restart env fresh (case r of Ok n \<Rightarrow> ns @ [n] | _ \<Rightarrow> ns) s' a'"
| other_store: "event_run N kv restart env fresh ns s a \<Longrightarrow> key \<noteq> EVENT_EPOCH_KEY \<Longrightarrow> length data < 2 ^ 32 \<Longrightarrow>
    kvb_store kv key data buf (skv_store a) = (r, st) \<Longrightarrow> length b = length (skv_buf a) \<Longrightarrow>
    event_run N kv restart env fresh ns s \<lparr>skv_store = st, skv_buf = b\<rparr>"
| environment: "event_run N kv restart env fresh ns s a \<Longrightarrow> env (skv_store a) st \<Longrightarrow>
    event_run N kv restart env fresh ns s (a\<lparr>skv_store := st\<rparr>)"
| reboot: "event_run N kv restart env fresh ns s a \<Longrightarrow>
    EventsInner_load_persist kv buf (EventsInner_new N, restart (skv_store a)) = (Ok (), (s', st)) \<Longrightarrow>
    event_run N kv restart env fresh ns s' (a\<lparr>skv_store := st\<rparr>)"

subsection \<open>Persisting the epoch\<close>

definition epoch_blob :: "u64 \<Rightarrow> bytes" where
  "epoch_blob n = tlv_bytes Anonymous (TLVValue_u64 n)"

lemma epoch_blob_read: "TLVElement_u64 (epoch_blob n) = Ok n"
  using read_u64(1) [of Anonymous n "[]"] by (simp add: epoch_blob_def)

lemma epoch_blob_small: "length (epoch_blob n) \<le> 17"
  using length_tlv_int(1) by (simp add: epoch_blob_def)

lemma persist_epoch:
  assumes "17 \<le> length (skv_buf a)"
  shows "\<exists>b rest. length b = length (skv_buf a) \<and>
    Persist_store_tlv kv key (TLVWrite_u64 Anonymous n) a =
      (case kvb_store kv key (epoch_blob n) rest (skv_store a) of (r, st) \<Rightarrow> (r, \<lparr>skv_store = st, skv_buf = b\<rparr>))"
proof -
  let ?w = "WriteBuf_new (skv_buf a)" and ?bs = "epoch_blob n"
  have fit: "length ?bs \<le> length (skv_buf a)" using assms epoch_blob_small [of n] by simp
  have w: "TLVWrite_u64 Anonymous n ?w = (Ok (), append_upto ?bs ?w)"
    using writes_ints(4) [of Anonymous n] WriteBuf_new_inv [of "skv_buf a"] fit
    unfolding writes_def epoch_blob_def by simp
  have buf: "wb_buf (append_upto ?bs ?w) = ?bs @ drop (length ?bs) (skv_buf a)" "WriteBuf_get_tail (append_upto ?bs ?w) = length ?bs"
    using fit by (simp_all add: append_upto_def Let_def WriteBuf_get_tail_def WriteBuf_new_def WriteBuf_new_with_def copy_into_def WriteBuf_room_def)
  have ne: "skv_buf a \<noteq> []" using assms by auto
  let ?b = "?bs @ drop (length ?bs) (skv_buf a)"
  obtain r st where st: "kvb_store kv key ?bs (drop (length ?bs) (skv_buf a)) (skv_store a) = (r, st)" by fastforce
  have "Persist_store_tlv kv key (TLVWrite_u64 Anonymous n) a = (r, \<lparr>skv_store = st, skv_buf = ?b\<rparr>)"
    using ne st by (simp add: Persist_store_tlv_def Persist_store_def SharedKvBlobStore_access_def w buf)
  then show ?thesis using st fit
    by (intro exI [of _ ?b] exI [of _ "drop (length ?bs) (skv_buf a)"]) simp
qed

text \<open>The persisted epoch is above every number given out and not below the next one.\<close>

definition epoch_above :: "u64 \<Rightarrow> bytes option \<Rightarrow> bool" where
  "epoch_above n d \<longleftrightarrow> (case d of None \<Rightarrow> n = 1 | Some d \<Rightarrow> (\<exists>P. d = epoch_blob P \<and> unat n \<le> unat P \<and> 10000 dvd unat P))"

definition epoch_inv :: "nat \<Rightarrow> ('k \<Rightarrow> bool) \<Rightarrow> ('k \<Rightarrow> u16 \<rightharpoonup> bytes) \<Rightarrow> u64 list \<Rightarrow> EventsInner \<Rightarrow> 'k SharedKvBlobStore \<Rightarrow> bool" where
  "epoch_inv N ok stored ns s a \<longleftrightarrow> ok (skv_store a) \<and> 17 \<le> length (skv_buf a) \<and>
     (\<exists>q. rel N (ei_next_event_number s) q [] s) \<and> 0 < unat (ei_next_event_number s) \<and>
     sorted_wrt (<) (map unat ns) \<and> (\<forall>m \<in> set ns. unat m < unat (ei_next_event_number s)) \<and>
     epoch_above (ei_next_event_number s) (stored (skv_store a) EVENT_EPOCH_KEY)"

lemma number_arith:
  assumes "unat (n :: u64) + 20000 < 2 ^ 64"
  shows "unat (n + 1) = unat n + 1" "max (n + 1) 1 = n + 1" "unat (n + 10000) = unat n + 10000" "max (n + 10000) 1 = n + 10000"
    "n mod 10000 = 0 \<longleftrightarrow> 10000 dvd unat n"
proof -
  show a: "unat (n + 1) = unat n + 1" "unat (n + 10000) = unat n + 10000"
    using assms by (simp_all add: unat_add_lem [THEN iffD1] unat_word_ariths)
  show "max (n + 1) 1 = n + 1" "max (n + 10000) 1 = n + 10000"
    using a by (auto simp: max_def word_le_nat_alt word_unat_eq_iff)
  show "n mod 10000 = 0 \<longleftrightarrow> 10000 dvd unat n"
    by (simp add: word_unat_eq_iff unat_mod_distrib dvd_eq_mod_eq_0)
qed

context kv_device
begin

lemma next_number:
  assumes inv: "epoch_inv N ok stored ns s a" and small: "unat (ei_next_event_number s) + 20000 < 2 ^ 64"
  shows "(\<exists>a'. EventsInner_next_event_number kv (s, a) = (Ok (ei_next_event_number s), (s\<lparr>ei_next_event_number := ei_next_event_number s + 1\<rparr>, a')) \<and>
      epoch_inv N ok stored (ns @ [ei_next_event_number s]) (s\<lparr>ei_next_event_number := ei_next_event_number s + 1\<rparr>) a') \<or>
    (\<exists>e a'. EventsInner_next_event_number kv (s, a) = (Err e, (s, a')) \<and> epoch_inv N ok stored ns s a')"
proof -
  let ?n = "ei_next_event_number s"
  let ?s' = "s\<lparr>ei_next_event_number := ?n + 1\<rparr>"
  note ar = number_arith [OF small]
  have ok: "ok (skv_store a)" and buf: "17 \<le> length (skv_buf a)" and ep: "epoch_above ?n (stored (skv_store a) EVENT_EPOCH_KEY)"
    using inv by (simp_all add: epoch_inv_def)
  obtain q where "rel N ?n q [] s" using inv by (auto simp: epoch_inv_def)
  then have "rel N (?n + 1) q [] ?s'" by (simp add: rel_def split: prod.splits)
  then have "\<exists>q. rel N (?n + 1) q [] ?s'" by blast
  then have inv': "epoch_inv N ok stored (ns @ [?n]) ?s' a'"
    if "ok (skv_store a')" "17 \<le> length (skv_buf a')" "epoch_above (?n + 1) (stored (skv_store a') EVENT_EPOCH_KEY)" for a'
    using inv that ar(1) by (simp add: epoch_inv_def sorted_wrt_append less_Suc_eq)
  show ?thesis
  proof (cases "?n = 1 \<or> 10000 dvd unat ?n")
    case False
    have "EventsInner_next_event_number kv (s, a) = (Ok ?n, (?s', a))"
      using False ar(2,5) by (simp add: EventsInner_next_event_number_def EVENT_NUMBER_EPOCH_SIZE_def sr_when_def
          sr_bind_def on_fst_def sr_modify_def sr_return_def sr_get_def Let_def)
    moreover have "epoch_above (?n + 1) (stored (skv_store a) EVENT_EPOCH_KEY)"
      using ep False ar(1) by (auto simp: epoch_above_def split: option.splits) (metis Suc_leI le_neq_implies_less)
    ultimately show ?thesis using inv' [OF ok buf] by blast
  next
    case True
    define P where "P = (if ?n = 1 then 10000 else ?n + 10000)"
    have P: "unat (?n + 1) \<le> unat P" "10000 dvd unat P" using True ar(1,3) by (auto simp: P_def)
    obtain b rest where b: "length b = length (skv_buf a)" "Persist_store_tlv kv EVENT_EPOCH_KEY (TLVWrite_u64 Anonymous P) a =
      (case kvb_store kv EVENT_EPOCH_KEY (epoch_blob P) rest (skv_store a) of (r, st) \<Rightarrow> (r, \<lparr>skv_store = st, skv_buf = b\<rparr>))"
      using persist_epoch [OF buf, of kv EVENT_EPOCH_KEY P] by blast
    obtain r st where st: "kvb_store kv EVENT_EPOCH_KEY (epoch_blob P) rest (skv_store a) = (r, st)" by fastforce
    have len: "length (epoch_blob P) < 2 ^ 32" using epoch_blob_small [of P] by simp
    have eval: "EventsInner_next_event_number kv (s, a) = (case r of Ok _ \<Rightarrow> (Ok ?n, (?s', \<lparr>skv_store = st, skv_buf = b\<rparr>))
        | Err e \<Rightarrow> (Err e, (s, \<lparr>skv_store = st, skv_buf = b\<rparr>)) | Panic \<Rightarrow> (Panic, (s, \<lparr>skv_store = st, skv_buf = b\<rparr>)))"
      using True ar(2,4,5) b(2) st unfolding P_def
      by (auto simp: EventsInner_next_event_number_def EVENT_NUMBER_EPOCH_SIZE_def sr_when_def
          sr_bind_def on_fst_def on_snd_def sr_modify_def sr_return_def sr_get_def Let_def split: res.splits)
    show ?thesis
    proof (cases r)
      case (Ok u)
      with store_ok [OF ok len] st have "ok st" "stored st = (stored (skv_store a))(EVENT_EPOCH_KEY \<mapsto> epoch_blob P)" by auto
      moreover have "epoch_above (?n + 1) (Some (epoch_blob P))" using P by (auto simp: epoch_above_def)
      ultimately show ?thesis using inv' [of "\<lparr>skv_store = st, skv_buf = b\<rparr>"] buf b(1) eval Ok by simp
    next
      case (Err e)
      with store_err [OF ok len] st have "ok st" "stored st = stored (skv_store a)" by auto
      then have "epoch_inv N ok stored ns s \<lparr>skv_store = st, skv_buf = b\<rparr>" using inv b(1) by (simp add: epoch_inv_def)
      then show ?thesis using eval Err by simp
    next
      case Panic
      then show ?thesis using store_no_panic [OF ok, of EVENT_EPOCH_KEY "epoch_blob P" rest] st by simp
    qed
  qed
qed

lemma push_numbers:
  assumes N: "0 < N" "N < 2 ^ 31" and inv: "epoch_inv N ok stored ns s a"
    and small: "unat (ei_next_event_number s) + 20000 < 2 ^ 64" and f: "closure_ok N f"
  shows "\<exists>r s' a'. Events_push N endpoint_id cluster_id event_id priority kv now f (s, a) = Some (r, (s', a')) \<and> r \<noteq> Panic \<and>
    epoch_inv N ok stored (case r of Ok n \<Rightarrow> ns @ [n] | _ \<Rightarrow> ns) s' a'"
proof -
  let ?n = "ei_next_event_number s"
  let ?s1 = "s\<lparr>ei_next_event_number := ?n + 1\<rparr>"
  define inner where "inner = (\<lambda>(s, k :: 'a SharedKvBlobStore). map_option (\<lambda>(r, s'). (r, (s', k)))
        (EventsInner_push N endpoint_id cluster_id event_id ?n priority (EpochTimestamp now) f s))"
  from next_number [OF inv small] show ?thesis
  proof (elim disjE exE conjE)
    fix e a' assume "EventsInner_next_event_number kv (s, a) = (Err e, s, a')" "epoch_inv N ok stored ns s a'"
    then show ?thesis
      by (intro exI [of _ "Err e"] exI [of _ s] exI [of _ a']) (simp add: Events_push_def ls_bind_def)
  next
    fix a' assume n: "EventsInner_next_event_number kv (s, a) = (Ok ?n, ?s1, a')" and inv': "epoch_inv N ok stored (ns @ [?n]) ?s1 a'"
    obtain q where "rel N (?n + 1) q [] ?s1" using inv' by (auto simp: epoch_inv_def)
    from push_any [OF N this f] obtain r s2 q2 where p: "EventsInner_push N endpoint_id cluster_id event_id ?n priority (EpochTimestamp now) f ?s1 = Some (r, s2)"
        "r \<noteq> Panic" "rel N (?n + 1) q2 [] s2" by blast
    then have n2: "ei_next_event_number s2 = ?n + 1" by (simp add: rel_def)
    have "\<exists>q. rel N (?n + 1) q [] s2" using p(3) by blast
    then have inv2: "epoch_inv N ok stored (ns @ [?n]) s2 a'" using inv' by (simp add: epoch_inv_def n2)
    have inv3: "epoch_inv N ok stored ns s2 a'" using inv2 by (simp add: epoch_inv_def sorted_wrt_append)
    show ?thesis
    proof (cases r)
      case (Ok u)
      then show ?thesis using n p(1) inv2
        by (intro exI [of _ "Ok ?n"] exI [of _ s2] exI [of _ a'])
          (simp add: Events_push_def ls_bind_def on_snd_def Persist_run_def sr_return_def)
    next
      case (Err e)
      then show ?thesis using n p(1) inv3
        by (intro exI [of _ "Err e"] exI [of _ s2] exI [of _ a']) (simp add: Events_push_def ls_bind_def)
    qed (use p(2) in simp)
  qed
qed

lemma load_numbers:
  assumes inv: "epoch_inv N ok stored ns s a"
    and load: "EventsInner_load_persist kv buf (EventsInner_new N, restart (skv_store a)) = (Ok (), (s', st))"
  shows "epoch_inv N ok stored ns s' (a\<lparr>skv_store := st\<rparr>)"
proof -
  have ok: "ok (skv_store a)" using inv by (simp add: epoch_inv_def)
  obtain st1 where l: "kvb_load kv EVENT_EPOCH_KEY buf (restart (skv_store a)) = ((case stored (skv_store a) EVENT_EPOCH_KEY of None \<Rightarrow> Ok None
        | Some d \<Rightarrow> if fits d buf then Ok (Some d) else Err NoSpace), st1)" "ok st1" "stored st1 = stored (skv_store a)"
    using load_restart [OF ok, of EVENT_EPOCH_KEY buf] by blast
  have new: "EventsInner_reset (EventsInner_new N) = EventsInner_new N"
    by (simp add: EventsInner_reset_def EventsInner_new_def EventsBuf_reset_def EventsBuf_new_def)
  have q: "rel N n ([], [], [], ()) [] ((EventsInner_new N)\<lparr>ei_next_event_number := n\<rparr>)" for n
    using rel_new [of N] by (simp add: rel_def)
  show ?thesis
  proof (cases "stored (skv_store a) EVENT_EPOCH_KEY")
    case None
    then have "s' = EventsInner_new N" "st = st1"
      using load l(1) by (auto simp: EventsInner_load_persist_def sr_bind_def on_fst_def on_snd_def sr_modify_def new sr_return_def)
    then show ?thesis using inv l None rel_new [of N] by (auto simp: epoch_inv_def epoch_above_def EventsInner_new_def)
  next
    case (Some d)
    then obtain P where P: "d = epoch_blob P" "unat (ei_next_event_number s) \<le> unat P" "10000 dvd unat P"
      using inv by (auto simp: epoch_inv_def epoch_above_def)
    have "fits d buf" using load l(1) Some
      by (auto simp: EventsInner_load_persist_def sr_bind_def on_fst_def on_snd_def sr_modify_def split: if_splits)
    then have s': "s' = (EventsInner_new N)\<lparr>ei_next_event_number := P\<rparr>" "st = st1"
      using load l(1) Some by (auto simp: EventsInner_load_persist_def EventsInner_load_def sr_bind_def on_fst_def on_snd_def
          sr_modify_def sr_res_def new P(1) epoch_blob_read)
    have "\<exists>q. rel N P q [] s'" unfolding s' using q by blast
    then show ?thesis using inv l Some P unfolding epoch_inv_def s'
      by (auto simp: epoch_above_def dest: less_le_trans)
  qed
qed

lemma run_numbers:
  assumes N: "0 < N" "N < 2 ^ 31" and fresh: "\<And>st. fresh st \<Longrightarrow> ok st \<and> stored st EVENT_EPOCH_KEY = None"
  shows "event_run N kv restart env fresh ns s a \<Longrightarrow> epoch_inv N ok stored ns s a"
proof (induction rule: event_run.induct)
  case (start a)
  have "\<exists>q. rel N 1 q [] (EventsInner_new N)" using rel_new by blast
  then show ?case using start fresh [of "skv_store a"]
    by (simp add: epoch_inv_def epoch_above_def) (simp add: EventsInner_new_def)
next
  case (publish ns s a f endpoint_id cluster_id event_id priority now r s' a')
  from push_numbers [OF N publish.IH publish.hyps(2,3), where endpoint_id = endpoint_id and cluster_id = cluster_id
      and event_id = event_id and priority = priority and now = now] publish.hyps(4)
  show ?case by auto
next
  case (other_store ns s a key data buf r st b)
  have ok: "ok (skv_store a)" using other_store.IH by (simp add: epoch_inv_def)
  have "ok st \<and> stored st EVENT_EPOCH_KEY = stored (skv_store a) EVENT_EPOCH_KEY"
    using store_ok [OF ok, of data key buf st] store_err [OF ok, of data key buf _ st] store_no_panic [OF ok, of key data buf]
      other_store.hyps by (cases r) auto
  then show ?case using other_store.IH other_store.hyps(5) by (simp add: epoch_inv_def)
next
  case (environment ns s a st)
  then show ?case using env_keeps [of "skv_store a" st] by (simp add: epoch_inv_def)
next
  case (reboot ns s a buf s' st)
  then show ?case using load_numbers by blast
qed

lemma load_returns:
  assumes inv: "epoch_inv N ok stored ns s a" and fits: "\<And>P. fits (epoch_blob P) buf"
  shows "\<exists>s' st. EventsInner_load_persist kv buf (EventsInner_new N, restart (skv_store a)) = (Ok (), (s', st))"
proof -
  have "ok (skv_store a)" and ep: "epoch_above (ei_next_event_number s) (stored (skv_store a) EVENT_EPOCH_KEY)"
    using inv by (simp_all add: epoch_inv_def)
  with load_restart [of "skv_store a" EVENT_EPOCH_KEY buf] fits show ?thesis
    by (auto simp: EventsInner_load_persist_def EventsInner_load_def sr_bind_def on_fst_def on_snd_def sr_modify_def
        sr_res_def sr_return_def epoch_above_def epoch_blob_read split: option.splits)
qed

lemma run_safe:
  assumes N: "0 < N" "N < 2 ^ 31" and fresh: "\<And>st. fresh st \<Longrightarrow> ok st \<and> stored st EVENT_EPOCH_KEY = None"
    and run: "event_run N kv restart env fresh ns s a"
  shows "sorted_wrt (<) (map unat ns)"
    "(\<And>P. fits (epoch_blob P) buf) \<Longrightarrow> \<exists>s' st. EventsInner_load_persist kv buf (EventsInner_new N, restart (skv_store a)) =
      (Ok (), (s', st)) \<and> (\<forall>n \<in> set ns. unat n < unat (ei_next_event_number s'))"
    "closure_ok N f \<Longrightarrow> unat (ei_next_event_number s) + 20000 < 2 ^ 64 \<Longrightarrow>
      \<exists>r x. Events_push N endpoint_id cluster_id event_id priority kv now f (s, a) = Some (r, x) \<and> r \<noteq> Panic"
proof -
  note inv = run_numbers [OF N fresh run]
  show "sorted_wrt (<) (map unat ns)" using inv by (simp add: epoch_inv_def)
  show "\<exists>s' st. EventsInner_load_persist kv buf (EventsInner_new N, restart (skv_store a)) = (Ok (), (s', st)) \<and>
      (\<forall>n \<in> set ns. unat n < unat (ei_next_event_number s'))" if fits: "\<And>P. fits (epoch_blob P) buf"
  proof -
    obtain s' st where l: "EventsInner_load_persist kv buf (EventsInner_new N, restart (skv_store a)) = (Ok (), (s', st))"
      using load_returns [OF inv fits] by blast
    with load_numbers [OF inv l] show ?thesis by (auto simp: epoch_inv_def)
  qed
  show "\<exists>r x. Events_push N endpoint_id cluster_id event_id priority kv now f (s, a) = Some (r, x) \<and> r \<noteq> Panic"
    if "closure_ok N f" "unat (ei_next_event_number s) + 20000 < 2 ^ 64"
    using push_numbers [OF N inv that(2,1)] by blast
qed

end

text \<open>
  Claim C12: however publications (with closures that may fail), stores of other blobs, failures of the directory and restarts follow each other,
  the event numbers given out over all restarts strictly increase, so that none is used twice; a restart with a buffer of at least
  eighteen bytes succeeds and continues above all of them, and no publication panics or runs forever.
\<close>

theorem event_numbers_never_reused:
  assumes "0 < N" "N < 2 ^ 31" "17 < length buf"
    and "event_run N (DirKvBlobStore_methods read_all) (\<lambda>s. s) dir_env (\<lambda>st. dir_stored st EVENT_EPOCH_KEY = None) ns s a"
    and "closure_ok N f" "unat (ei_next_event_number s) + 20000 < 2 ^ 64"
  shows "sorted_wrt (<) (map unat ns) \<and>
    (\<exists>s' st. EventsInner_load_persist (DirKvBlobStore_methods read_all) buf (EventsInner_new N, skv_store a) = (Ok (), (s', st)) \<and>
       (\<forall>n \<in> set ns. unat n < unat (ei_next_event_number s'))) \<and>
    (\<exists>r x. Events_push N endpoint_id cluster_id event_id priority (DirKvBlobStore_methods read_all) now f (s, a) = Some (r, x) \<and> r \<noteq> Panic)"
proof -
  have fits: "length (epoch_blob P) < length buf" for P using epoch_blob_small [of P] assms(3) by simp
  note safe = dir.run_safe [OF assms(1,2) _ assms(4)]
  show ?thesis using safe(1) safe(2) [OF _ fits] safe(3) [OF _ assms(5,6)] by simp
qed

theorem event_numbers_never_reused_witness:
  "\<exists>r x. Events_push 32 1 2 3 Info (DirKvBlobStore_methods read_all) 4 (demo_closure 32)
     (EventsInner_new 32, \<lparr>skv_store = \<lparr>dkv_files = Map.empty, dkv_writable = True\<rparr>, skv_buf = replicate 32 0\<rparr>) = Some (r, x) \<and> r \<noteq> Panic"
proof -
  let ?a = "\<lparr>skv_store = \<lparr>dkv_files = Map.empty, dkv_writable = True\<rparr>, skv_buf = replicate 32 0\<rparr>"
  have run: "event_run 32 (DirKvBlobStore_methods read_all) (\<lambda>s. s) dir_env (\<lambda>st. dir_stored st EVENT_EPOCH_KEY = None) []
      (EventsInner_new 32) ?a"
    by (rule event_run.start) (simp_all add: dir_stored_def)
  have "closure_ok 32 (demo_closure 32)"
    using demo_writes [of 32 1 Info] closure_writes [of 32 "demo_closure 32" "ev_body (demo_event 1 Info)"]
    by (auto simp: writes_body_def dest!: ev_ok_wf simp: ev_wf_def)
  from event_numbers_never_reused [OF _ _ _ run this, of "replicate 32 0"] show ?thesis by (simp add: EventsInner_new_def)
qed

text \<open>The same over the single-file store.\<close>

theorem event_numbers_single_file:
  assumes "0 < N" "N < 2 ^ 31" "17 \<le> length buf"
    and "event_run N FileKvBlobStore_methods file_restart (\<lambda>s s'. s' = s)
      (\<lambda>st. file_ok st \<and> file_stored st EVENT_EPOCH_KEY = None) ns s a"
  shows "sorted_wrt (<) (map unat ns) \<and>
    (\<exists>s' st. EventsInner_load_persist FileKvBlobStore_methods buf (EventsInner_new N, file_restart (skv_store a)) = (Ok (), (s', st)) \<and>
       (\<forall>n \<in> set ns. unat n < unat (ei_next_event_number s')))"
proof -
  have fits: "length (epoch_blob P) \<le> length buf" for P using epoch_blob_small [of P] assms(3) by simp
  note safe = single_file.run_safe [OF assms(1,2) _ assms(4)]
  show ?thesis using safe(1) safe(2) [OF _ fits] by simp
qed

end
