(* ===== verification/Spec2Isabelle.thy ===== *)
theory Spec2Isabelle
  imports Storage Ring_Buf Dedup Session_Safety Access_Control Commissioning Btp_Transfer Tlv_Lookup Pairing Subscription_Safety Path_Authorization Event_Numbers
begin

text \<open>
  A verification development for rs-matter, an implementation of the Matter protocol in Rust for devices
  without an operating system. Paths below are relative to \<^verbatim>\<open>rs-matter/src\<close>.

  \<^bold>\<open>The program.\<close> A datagram arrives from UDP, TCP or, cut into segments, from Bluetooth (BTP). The transport decodes its plain
  header, finds the session, decrypts, decodes the protocol header, rejects duplicates by message counter and
  hands the message to an exchange of the session, where the reliability protocol (MRP) keeps track of
  acknowledgements and retransmissions. The payload is a message of the secure channel (session establishment, status reports) or of the
  interaction model, whose requests are checked against the access control lists of the fabrics the node
  belongs to; the paths of a request, which may have wildcards, are expanded over the metadata of the endpoints and clusters
  of the node. Payloads are encoded in TLV. Clients may subscribe to attributes; the data model keeps track of what has changed
  and reports it to each subscriber in its own rhythm, and keeps the events the clusters publish in a queue with three
  levels of priority. What has to outlive a restart is kept in a store of blobs. A node joins a fabric by commissioning, started from a pairing code or
  QR code and guarded by a fail-safe timer that rolls back on expiry.

  \<^bold>\<open>Modelling conventions\<close> (\<open>Prelude\<close>, \<open>Errors\<close>). A struct is a record, an enum a datatype, an integer a word of its width, a fixed-capacity vector a
  list with the capacity test where the code pushes. A method on \<^verbatim>\<open>&mut self\<close> is a function from the
  state to a result and the new state, \<open>('s, 'a) sr\<close>; a result is \<open>Ok\<close>, \<open>Err\<close> with an error code of \<^verbatim>\<open>error.rs\<close>, or \<open>Panic\<close>
  for every panic, failed unwrap, slice out of range and checked overflow. Definitions keep the names of the source:
  \<open>T_f\<close> is \<^verbatim>\<open>T::f\<close>. Time, random numbers and generated keys are arguments.

  \<^bold>\<open>Theories.\<close>
  \<^item> \<open>Storage\<close> (\<^verbatim>\<open>utils/storage/writebuf.rs\<close>, \<^verbatim>\<open>parsebuf.rs\<close>): write buffers with headroom and read buffers. No sequence of operations
    panics or leaves the bounds; a header prepended after its payload stands before it. The locales
    \<open>byte_sink\<close> and \<open>byte_source\<close> are what the codecs below rely on.
  \<^item> \<open>Ring_Buf\<close> (\<^verbatim>\<open>utils/storage/ringbuf.rs\<close>): refines a bounded byte list; its loops are partial functions
    that are proved to return. Locale \<open>byte_queue\<close> is the interface BTP uses.
  \<^item> \<open>Dedup\<close> (\<^verbatim>\<open>transport/dedup.rs\<close>): the sliding window of message counters and the store of group senders;
    the locale \<open>replay_filter\<close> proves at-most-once delivery once for both.
  \<^item> \<open>Headers\<close> (\<^verbatim>\<open>transport/plain_hdr.rs\<close>, \<^verbatim>\<open>proto_hdr.rs\<close>, \<^verbatim>\<open>packet.rs\<close>, \<^verbatim>\<open>network.rs\<close>): header fields and flags, encoding,
    decoding and in-place encryption. The cipher is a parameter; the round trip assumes that decryption inverts
    encryption under the same key, nonce and associated data, and decoding never panics on any input.
  \<^item> \<open>Mrp\<close> (\<^verbatim>\<open>transport/mrp.rs\<close>), \<open>Secure_Channel\<close> (\<^verbatim>\<open>sc.rs\<close>, opcodes of \<^verbatim>\<open>im.rs\<close>), \<open>Exchange\<close> (\<^verbatim>\<open>transport/exchange.rs\<close>):
    exact back-off delays without overflow, giving up after finitely many transmissions, acknowledgements, status reports,
    exchange identifiers.
  \<^item> \<open>Session\<close> and \<open>Session_Safety\<close> (\<^verbatim>\<open>transport/session.rs\<close>): sessions and the session table as a state machine
    (\<open>sessions_step\<close>); in every reachable table the bounds hold and no message makes a session panic, the id
    generators return unused ids (locale \<open>id_pool\<close>), removed fabrics and commissioning sessions are cut off, eviction spares
    sessions in use.
  \<^item> \<open>Acl\<close>, \<open>Fabric\<close> and \<open>Access_Control\<close> (\<^verbatim>\<open>dm/types/privilege.rs\<close>, \<^verbatim>\<open>acl.rs\<close>, \<^verbatim>\<open>fabric.rs\<close>, \<^verbatim>\<open>group_keys.rs\<close>): privileges,
    subjects, entries, fabrics. In every reachable fabric table (\<open>fabrics_step\<close>) an access is granted exactly when the
    specification grants it, fabrics do not influence each other, and entries from the network are stored
    exactly when they are valid. Certificate fields, key derivation and MAC are parameters.
  \<^item> \<open>Fail_Safe\<close> and \<open>Commissioning\<close> (\<^verbatim>\<open>failsafe.rs\<close>, the chain verifier of \<^verbatim>\<open>cert.rs\<close>): the commands of a commissioning on the
    joint state of fail-safe, fabrics, sessions and networks (\<open>node_step\<close>). A certificate is taken only after
    all checks and only once, expiry restores what the store holds, and the timer disarms unless the
    fabric was removed meanwhile. The key-value store and the network table are parameters.
  \<^item> \<open>Btp\<close> and \<open>Btp_Transfer\<close> (\<^verbatim>\<open>transport/network/btp/session.rs\<close>, \<^verbatim>\<open>session/packet.rs\<close>): segment headers, handshake, windows
    and reassembly. Two synchronised sessions carry a message across whole; the negotiated sizes are in
    bounds. Window arithmetic that would overflow counts as a panic.
  \<^item> \<open>Tlv\<close>, \<open>Tlv_Read\<close> and \<open>Tlv_Write\<close> (\<^verbatim>\<open>tlv.rs\<close>, \<^verbatim>\<open>tlv/read.rs\<close>, \<^verbatim>\<open>tlv/write.rs\<close>): control octets, tags, values, the byte iterator,
    the reader that parses on demand, the writer. \<open>Tlv_Codec\<close> has the tree of elements as the abstract syntax: what the writer writes
    of a tree the reader traverses as the same tree, and a tree that does not fit is refused. \<open>Tlv_Scalars\<close>: narrowest
    integers, the byte iterator and the in-place string writers agree with the plain ones. \<open>Tlv_Lookup\<close>: the reader is safe on any
    slice, both ways of looking up a field agree; the overflow of lengths and the flattening iterator are shown to go wrong.
  \<^item> \<open>Base38\<close> and \<open>Pairing\<close> (\<^verbatim>\<open>utils/codec/base38.rs\<close>, \<^verbatim>\<open>pairing/qr.rs\<close>, \<^verbatim>\<open>pairing/code.rs\<close>): the text of the QR code carries the payload, the manual code the
    passcode and the short discriminator; the Verhoeff digit is a parameter.
  \<^item> \<open>Changed_Attrs\<close>, \<open>Subscriptions\<close> and \<open>Subscription_Safety\<close> (\<^verbatim>\<open>dm/subscriptions.rs\<close>, the reporter of \<^verbatim>\<open>dm.rs\<close>): the table of changed attributes
    forgets nothing although it is bounded (locale \<open>change_log\<close>); the tasks that work on the subscription table are interleaved as a state machine
    (\<open>sys_reach\<close>) with its structural invariant, the promise that no subscriber misses a change, the intervals and the end
    of the reporting loop. Two races with priming reports that break the promise are shown by concrete runs.
  \<^item> \<open>Data_Model\<close> (\<^verbatim>\<open>dm/types/node.rs\<close>, \<^verbatim>\<open>endpoint.rs\<close>, \<^verbatim>\<open>cluster.rs\<close>, \<^verbatim>\<open>attribute.rs\<close>, \<^verbatim>\<open>command.rs\<close>, \<^verbatim>\<open>event.rs\<close>, the paths
    of \<^verbatim>\<open>im/*.rs\<close>): the metadata of a node with its access checks and the validation of paths. The node with dynamic
    endpoints is a finite map (locale \<open>endpoint_directory\<close>).
  \<^item> \<open>Path_Expansion\<close> is the path expander of \<^verbatim>\<open>dm/types/node.rs\<close> with its cursors; the node and the fabrics are arguments of
    every call, since both may change in between. \<open>Path_Scan\<close> relates the cursors to what is left of a reference expansion, over nodes that change;
    \<open>Path_Iteration\<close> proves that over an unchanged node the whole request yields exactly the reference expansion; \<open>Path_Authorization\<close> that
    nothing is yielded without a successful access check, and shows where removing an endpoint from a group skips the next one.
  \<^item> \<open>Persist\<close> (\<^verbatim>\<open>persist.rs\<close>): the store trait, \<^verbatim>\<open>Persist\<close>, a store with a file per key and one with a single file. The locale
    \<open>kv_device\<close> is what a client relies on, also after a restart and when a write fails; both stores are interpretations of it. The
    file system is the content of the files and whether they can be written.
  \<^item> \<open>Events\<close> (\<^verbatim>\<open>dm/events.rs\<close>, the event structures of \<^verbatim>\<open>im/event.rs\<close>): the buffers, the writer that evicts and promotes byte by byte while an
    event is written, the reader, the event numbers. \<open>Event_Queue\<close> has the abstract queue, lists of events on three levels, and
    proves that a push on the buffers computes it. \<open>Event_Retention\<close>: which events survive; the locale \<open>upper_levels\<close> is what one
    level asks of those above it. \<open>Event_Numbers\<close>: over publications, failures and restarts (\<open>event_run\<close>) no number is given out
    twice, proved in the context of \<open>kv_device\<close> for both stores.

  \<^bold>\<open>Bounds and fuel.\<close> Capacities are those of the default features (5 fabrics, 16 sessions, 4 entries per list and so on); the
  capacities of the group tables are a parameter. Fuel is taken by \<open>transfer\<close> of \<open>Btp_Transfer\<close>,
  whose argument is the number of segments and is proved to be enough whenever it covers the message, by \<open>report_loop\<close>, for which one more than the number of
  subscriptions is proved to be enough, and by \<open>iter_bytes\<close>, which unrolls a byte iterator a given number of times.
  The loops that are partial functions (ring buffer, id generators, TLV scanning, eviction of events) are proved to return. Slices the TLV reader is given are shorter than
  \<open>2 ^ 31\<close> bytes where a theorem says so, and the identifiers of changes and subscriptions do not wrap around. The
  cursors of the path expander have 16 bits, so its theorems take nodes with fewer than 65536 clusters in an endpoint and leaves in a
  cluster. Event buffers have \<open>N\<close> bytes, \<open>0 < N < 2 ^ 31\<close>; event numbers stay 20000 below the wrap-around, two
  epochs of numbers.

  \<^bold>\<open>Not modelled.\<close> The traits and builders that map Rust types to TLV and the messages and certificates defined with them, which are derived code,
  PASE and CASE, the rest of the data model engine and the clusters, which are generated code over TLV, the cryptographic back ends, sockets, mDNS and other I/O, the asynchronous
  runner that calls the modelled operations, the code generator, macros, examples and tests. Group sessions are modelled
  up to key derivation and trial decryption, pairing codes up to drawing the QR code. The reading of the
  global attributes and of attribute lists, the commissioning windows of PASE, and errors of a file that is already open are not modelled either.
\<close>

end
